(* ===== verification/Prelude.thy ===== *)
theory Prelude
  imports Main "HOL-Library.Word" "HOL-Library.Multiset"
begin

text \<open>
  Shared vocabulary of the development.  The engine is written in C over fixed-size byte
  arrays, unsigned machine words and pointer/length pairs; this theory gives each of them one
  representation and the laws the component theories use:

  \<^item> \<open>'n barray\<close>: a C array \<open>uint8_t bytes[n]\<close>, its length carried by the type, with the
    \<open>memcmp\<close> order as its linear order (\<open>engine/include/laplace/types.h\<close> and \<open>identity.h\<close>);
  \<^item> \<open>'a span\<close>: a pointer and element count passed as two arguments, the pointer possibly NULL;
    a single pointer argument is an \<open>option\<close>, \<open>None\<close> being NULL;
  \<^item> little-endian encoders of 32- and 64-bit words, as every \<open>hash_u32\<close> / \<open>hash_u64\<close> of
    the engine writes them, with the interface \<open>fixed_width_codec\<close> and its interpretations;
  \<^item> overflow-checked 64-bit addition;
  \<^item> \<open>qsort\<close> and \<open>bsearch\<close> of the C library, with the interface \<open>comparator\<close>.
\<close>

unbundle bit_operations_syntax

type_synonym byte = "8 word"
type_synonym u16 = "16 word"
type_synonym u32 = "32 word"
type_synonym u64 = "64 word"

named_theorems layout \<comment> \<open>decomposition of equal byte layouts into equal fields\<close>

section \<open>memcmp and fixed-size byte arrays\<close>

text \<open>The sign of \<open>memcmp\<close> on two buffers of equal length: the C standard fixes only the sign.\<close>

fun memcmp :: "byte list \<Rightarrow> byte list \<Rightarrow> int" where
  "memcmp (x # xs) (y # ys) = (if x < y then -1 else if y < x then 1 else memcmp xs ys)"
| "memcmp _ _ = 0"

lemma memcmp_refl [simp]: "memcmp xs xs = 0"
  by (induction xs) auto

lemma memcmp_swap: "memcmp ys xs = - memcmp xs ys"
  by (induction xs ys rule: memcmp.induct) auto

lemma memcmp_eq_0_iff:
  "length xs = length ys \<Longrightarrow> memcmp xs ys = 0 \<longleftrightarrow> xs = ys"
  by (induction xs ys rule: memcmp.induct) (auto simp: not_less)

lemma memcmp_trans:
  assumes "length xs = length ys" "length ys = length zs"
    and "memcmp xs ys \<le> 0" "memcmp ys zs \<le> 0"
  shows "memcmp xs zs \<le> 0"
  using assms
proof (induction xs arbitrary: ys zs)
  case Nil
  then show ?case by simp
next
  case (Cons x xs)
  then obtain y ys' z zs' where yz: "ys = y # ys'" "zs = z # zs'"
    by (metis length_Suc_conv)
  with Cons.prems Cons.IH [of ys' zs'] show ?case
    by (auto split: if_splits)
qed

lemma memcmp_total: "memcmp xs ys \<le> 0 \<or> memcmp ys xs \<le> 0"
  using memcmp_swap [of xs ys] by linarith

typedef (overloaded) ('n::len) barray = "{bs :: byte list. length bs = LENGTH('n)}"
  morphisms bytes mk_barray
  by (rule exI [of _ "replicate LENGTH('n) 0"]) simp

lemma length_bytes [simp]: "length (bytes (a :: 'n::len barray)) = LENGTH('n)"
  using bytes [of a] by simp

lemma bytes_eq_iff: "bytes a = bytes b \<longleftrightarrow> a = b"
  by (rule bytes_inject)

text \<open>Filling an array from a buffer: the first bytes are copied, a short buffer is padded
  with zero bytes (no caller of the model passes one).\<close>

definition barray_of :: "byte list \<Rightarrow> 'n::len barray" where
  "barray_of bs = mk_barray (take LENGTH('n) (bs @ replicate LENGTH('n) 0))"

lemma barray_abstype [code abstype]: "mk_barray (bytes a) = a"
  by (rule bytes_inverse)

lemma bytes_barray_of [code abstract]:
  "bytes (barray_of bs :: 'n::len barray) = take LENGTH('n) (bs @ replicate LENGTH('n) 0)"
  by (simp add: barray_of_def mk_barray_inverse)

lemma bytes_barray_of_exact [simp]:
  "length bs = LENGTH('n) \<Longrightarrow> bytes (barray_of bs :: 'n::len barray) = bs"
  by (simp add: bytes_barray_of)

lemma bytes_barray_of_prefix [simp]:
  "LENGTH('n) \<le> length bs \<Longrightarrow> bytes (barray_of bs :: 'n::len barray) = take LENGTH('n) bs"
  by (simp add: bytes_barray_of)

lemma barray_of_bytes [simp]: "barray_of (bytes a) = a"
  by (simp flip: bytes_eq_iff)

lemma barray_eqI: "bytes a = bytes b \<Longrightarrow> a = b"
  by (simp add: bytes_eq_iff)

instantiation barray :: (len) equal
begin

definition equal_barray :: "'a barray \<Rightarrow> 'a barray \<Rightarrow> bool" where
  "equal_barray a b \<longleftrightarrow> bytes a = bytes b"

instance
  by standard (simp add: equal_barray_def bytes_eq_iff)

end

instantiation barray :: (len) zero
begin

definition zero_barray :: "'a barray" where
  "zero_barray = mk_barray (replicate LENGTH('a) 0)"

instance ..

end

lemma bytes_zero_array [simp, code abstract]:
  "bytes (0 :: 'n::len barray) = replicate LENGTH('n) 0"
  by (simp add: zero_barray_def mk_barray_inverse)

instantiation barray :: (len) linorder
begin

definition less_eq_barray :: "'a barray \<Rightarrow> 'a barray \<Rightarrow> bool" where
  "less_eq_barray a b \<longleftrightarrow> memcmp (bytes a) (bytes b) \<le> 0"

definition less_barray :: "'a barray \<Rightarrow> 'a barray \<Rightarrow> bool" where
  "less_barray a b \<longleftrightarrow> memcmp (bytes a) (bytes b) < 0"

instance
proof
  fix x y z :: "'a barray"
  have sw: "memcmp (bytes y) (bytes x) = - memcmp (bytes x) (bytes y)"
    by (rule memcmp_swap)
  have eq0: "memcmp (bytes x) (bytes y) = 0 \<longleftrightarrow> x = y"
    by (simp add: memcmp_eq_0_iff bytes_eq_iff)
  show "x < y \<longleftrightarrow> x \<le> y \<and> \<not> y \<le> x"
    unfolding less_eq_barray_def less_barray_def using sw by linarith
  show "x \<le> x"
    by (simp add: less_eq_barray_def)
  show "x \<le> y \<Longrightarrow> y \<le> z \<Longrightarrow> x \<le> z"
    unfolding less_eq_barray_def by (rule memcmp_trans [of _ "bytes y"]) simp_all
  show "x \<le> y \<Longrightarrow> y \<le> x \<Longrightarrow> x = y"
    unfolding less_eq_barray_def using sw eq0 by linarith
  show "x \<le> y \<or> y \<le> x"
    unfolding less_eq_barray_def by (rule memcmp_total)
qed

end

text \<open>What the C comparisons against zero mean in that order.\<close>

lemma memcmp_bytes_iff [simp]:
  fixes a b :: "'n::len barray"
  shows "memcmp (bytes a) (bytes b) = 0 \<longleftrightarrow> a = b"
    and "memcmp (bytes a) (bytes b) < 0 \<longleftrightarrow> a < b"
    and "memcmp (bytes a) (bytes b) \<le> 0 \<longleftrightarrow> a \<le> b"
    and "0 < memcmp (bytes a) (bytes b) \<longleftrightarrow> b < a"
    and "0 \<le> memcmp (bytes a) (bytes b) \<longleftrightarrow> b \<le> a"
  using memcmp_swap [of "bytes a" "bytes b"]
  by (auto simp: memcmp_eq_0_iff bytes_eq_iff less_barray_def less_eq_barray_def)

text \<open>The \<open>bytes_zero\<close> / \<open>id_is_zero\<close> loops: the bytes are OR-ed together and the aggregate
  is compared with zero.\<close>

definition bytes_zero :: "byte list \<Rightarrow> bool" where
  "bytes_zero bs \<longleftrightarrow> foldl (\<lambda>aggregate b. aggregate OR b) 0 bs = 0"

lemma foldl_or_eq_0: "foldl (\<lambda>x b. x OR b) a bs = (0 :: byte) \<longleftrightarrow> a = 0 \<and> (\<forall>b \<in> set bs. b = 0)"
  by (induction bs arbitrary: a) (auto simp: or_eq_0_iff)

lemma bytes_zero_iff: "bytes_zero bs \<longleftrightarrow> (\<forall>b \<in> set bs. b = 0)"
  by (simp add: bytes_zero_def foldl_or_eq_0)

lemma bytes_zero_barray [simp]: "bytes_zero (bytes (a :: 'n::len barray)) \<longleftrightarrow> a = 0"
proof
  assume "bytes_zero (bytes a)"
  then have "bytes a = replicate LENGTH('n) 0"
    using replicate_length_same [of "bytes a" 0] by (simp add: bytes_zero_iff)
  then show "a = 0"
    by (simp flip: bytes_eq_iff)
qed (simp add: bytes_zero_iff)

section \<open>Bits of bounded words\<close>

lemma bit_above_bound:
  fixes w :: "'a::len word"
  assumes "unat w < 2 ^ k" "k \<le> m"
  shows "\<not> bit w m"
proof -
  have "unat w < 2 ^ m"
    using assms by (meson less_le_trans one_le_numeral power_increasing)
  then have "\<not> bit (unat w) m"
    by (simp add: bit_iff_odd)
  then show ?thesis
    by (simp add: bit_unsigned_iff)
qed

lemma less_32_cases:
  assumes "m < (32::nat)"
  shows "m \<in> set [0, 1, 2, 3, 4, 5, 6, 7, 8, 9, 10, 11, 12, 13, 14, 15, 16, 17, 18, 19, 20, 21, 22, 23, 24, 25, 26, 27, 28, 29, 30, 31]"
proof -
  have "m \<in> set [0..<32]" using assms by simp
  moreover have "[0..<32] = [0, 1, 2, 3, 4, 5, 6, 7, 8, 9, 10, 11, 12, 13, 14, 15, 16, 17, 18, 19, 20, 21, 22, 23, 24, 25, 26, 27, 28, 29, 30, 31]" by code_simp
  ultimately show ?thesis by (simp only:)
qed

lemma less_64_cases:
  assumes "m < (64::nat)"
  shows "m \<in> set [0, 1, 2, 3, 4, 5, 6, 7, 8, 9, 10, 11, 12, 13, 14, 15, 16, 17, 18, 19, 20, 21, 22, 23, 24, 25, 26, 27, 28, 29, 30, 31, 32, 33, 34, 35, 36, 37, 38, 39, 40, 41, 42, 43, 44, 45, 46, 47, 48, 49, 50, 51, 52, 53, 54, 55, 56, 57, 58, 59, 60, 61, 62, 63]"
proof -
  have "m \<in> set [0..<64]" using assms by simp
  moreover have "[0..<64] = [0, 1, 2, 3, 4, 5, 6, 7, 8, 9, 10, 11, 12, 13, 14, 15, 16, 17, 18, 19, 20, 21, 22, 23, 24, 25, 26, 27, 28, 29, 30, 31, 32, 33, 34, 35, 36, 37, 38, 39, 40, 41, 42, 43, 44, 45, 46, 47, 48, 49, 50, 51, 52, 53, 54, 55, 56, 57, 58, 59, 60, 61, 62, 63]" by code_simp
  ultimately show ?thesis by (simp only:)
qed

section \<open>Pointer and count arguments\<close>

text \<open>
  An array parameter \<open>(const T* items, size_t count)\<close>.  \<open>NullSpan n\<close> is a NULL pointer
  with count \<open>n\<close>; \<open>Span xs\<close> is a pointer to the elements \<open>xs\<close> the callee may read.
\<close>

datatype 'a span = NullSpan nat | Span "'a list"

fun span_count :: "'a span \<Rightarrow> nat" where
  "span_count (NullSpan n) = n"
| "span_count (Span xs) = length xs"

fun span_items :: "'a span \<Rightarrow> 'a list" where
  "span_items (NullSpan n) = []"
| "span_items (Span xs) = xs"

fun span_null :: "'a span \<Rightarrow> bool" where
  "span_null (NullSpan n) = True"
| "span_null (Span xs) = False"

text \<open>The engine is a 64-bit program: \<open>size_t\<close> and \<open>uint64_t\<close> have the same range.\<close>

definition SIZE_MAX :: nat where
  "SIZE_MAX = 18446744073709551615"

abbreviation UINT64_MAX :: u64 where
  "UINT64_MAX \<equiv> - 1"

section \<open>Little-endian words and fixed-width layouts\<close>

definition le_bytes :: "nat \<Rightarrow> 'a::len word \<Rightarrow> byte list" where
  "le_bytes n v = map (\<lambda>i. ucast (drop_bit (8 * i) v)) [0..<n]"

definition u32_le :: "u32 \<Rightarrow> byte list" where
  "u32_le v = le_bytes 4 v"

definition u64_le :: "u64 \<Rightarrow> byte list" where
  "u64_le v = le_bytes 8 v"

lemma length_le_bytes [simp]: "length (le_bytes n v) = n"
  by (simp add: le_bytes_def)

lemma length_u32_le [simp]: "length (u32_le v) = 4"
  by (simp add: u32_le_def)

lemma length_u64_le [simp]: "length (u64_le v) = 8"
  by (simp add: u64_le_def)

lemma bit_le_bytes:
  fixes v :: "'a::len word"
  assumes "m < 8 * n"
  shows "bit (le_bytes n v ! (m div 8)) (m mod 8) \<longleftrightarrow> bit v m"
proof -
  have "m div 8 < n" and "m mod 8 < 8"
    using assms by (auto simp: less_mult_imp_div_less mult.commute)
  moreover have "8 * (m div 8) + m mod 8 = m"
    by simp
  ultimately show ?thesis
    by (simp add: le_bytes_def bit_ucast_iff bit_drop_bit_eq del: mult_div_mod_eq)
qed

lemma le_bytes_inject:
  fixes v w :: "'a::len word"
  assumes eq: "le_bytes n v = le_bytes n w" and len: "LENGTH('a) \<le> 8 * n"
  shows "v = w"
proof (rule bit_word_eqI)
  fix m
  assume "m < LENGTH('a)"
  with len have "m < 8 * n" by simp
  then show "bit v m \<longleftrightarrow> bit w m"
    using bit_le_bytes [of m n v] bit_le_bytes [of m n w] eq by simp
qed

text \<open>
  The interface of a field encoder: every value takes the same number of bytes and different
  values have different bytes.  What clients need is that a record laid out as a sequence of
  such fields determines each field.
\<close>

locale fixed_width_codec =
  fixes enc :: "'a \<Rightarrow> byte list" and width :: nat
  assumes enc_length: "length (enc x) = width"
    and enc_inject: "enc x = enc y \<Longrightarrow> x = y"
begin

lemma enc_eq_iff: "enc x = enc y \<longleftrightarrow> x = y"
  by (auto dest: enc_inject)

lemma enc_append_eq: "enc x @ r = enc y @ s \<longleftrightarrow> x = y \<and> r = s"
  using enc_length [of x] enc_length [of y] by (auto dest: enc_inject)

lemma length_concat_enc: "length (concat (map enc xs)) = width * length xs"
  by (induction xs) (simp_all add: enc_length)

lemma concat_enc_inject:
  "length xs = length ys \<Longrightarrow> concat (map enc xs) = concat (map enc ys) \<Longrightarrow> xs = ys"
  by (induction xs ys rule: list_induct2) (auto simp: enc_append_eq)

lemma concat_enc_inject_nonempty:
  assumes "0 < width" "concat (map enc xs) = concat (map enc ys)"
  shows "xs = ys"
proof -
  have "width * length xs = width * length ys"
    using assms(2) length_concat_enc by metis
  with assms(1) have "length xs = length ys"
    by simp
  then show ?thesis
    using assms(2) by (rule concat_enc_inject)
qed

end

interpretation u32c: fixed_width_codec u32_le 4
  by unfold_locales (auto simp: u32_le_def intro: le_bytes_inject [of 4])

interpretation u64c: fixed_width_codec u64_le 8
  by unfold_locales (auto simp: u64_le_def intro: le_bytes_inject [of 8])

interpretation idc: fixed_width_codec "bytes :: 16 barray \<Rightarrow> byte list" 16
  by unfold_locales (simp_all add: bytes_eq_iff)

interpretation dgc: fixed_width_codec "bytes :: 32 barray \<Rightarrow> byte list" 32
  by unfold_locales (simp_all add: bytes_eq_iff)

lemmas codec_layout [layout] =
  u32c.enc_append_eq u64c.enc_append_eq idc.enc_append_eq dgc.enc_append_eq
  u32c.enc_eq_iff u64c.enc_eq_iff bytes_eq_iff

text \<open>
  The interface of a codec whose decoder rejects malformed input: valid values survive the
  round trip and everything that decodes is the encoding of a valid value.
\<close>

locale partial_codec =
  fixes encode :: "'p \<Rightarrow> 'c" and decode :: "'c \<Rightarrow> 'p option" and valid :: "'p \<Rightarrow> bool"
  assumes decode_encode: "valid p \<Longrightarrow> decode (encode p) = Some p"
    and decode_Some: "decode c = Some p \<Longrightarrow> valid p \<and> encode p = c"
begin

lemma decode_Some_iff: "decode c = Some p \<longleftrightarrow> valid p \<and> c = encode p"
  using decode_encode decode_Some by auto

lemma encode_inj: "inj_on encode (Collect valid)"
  using decode_encode by (metis (mono_tags) inj_onI mem_Collect_eq option.inject)

lemma decode_all_encode:
  "\<forall>p \<in> set ps. valid p \<Longrightarrow> those (map decode (map encode ps)) = Some ps"
  by (induction ps) (auto simp: decode_encode)

end

section \<open>Overflow-checked addition\<close>

text \<open>\<open>if (UINT64_MAX - total < value) fail; total += value;\<close> as it appears throughout.\<close>

definition add_u64 :: "u64 \<Rightarrow> u64 \<Rightarrow> u64 option" where
  "add_u64 t v = (if UINT64_MAX - t < v then None else Some (t + v))"

lemma unat_minus_one_minus: "unat (UINT64_MAX - a) = 2 ^ 64 - 1 - unat a"
proof -
  have "unat (UINT64_MAX - a) = unat UINT64_MAX - unat a"
    by (rule unat_sub) simp
  then show ?thesis
    by (simp add: unsigned_minus_1_eq_mask mask_eq_exp_minus_1)
qed

lemma add_u64_Some_iff:
  "add_u64 a b = Some c \<longleftrightarrow> unat a + unat b < 2 ^ 64 \<and> c = a + b"
proof -
  have "unat a < 2 ^ 64" using unsigned_less [of a, where 'a = nat] by simp
  then show ?thesis
    unfolding add_u64_def word_less_nat_alt unat_minus_one_minus by auto
qed

lemma add_u64_None_iff: "add_u64 a b = None \<longleftrightarrow> 2 ^ 64 \<le> unat a + unat b"
  using add_u64_Some_iff [of a b "a + b"]
  by (cases "add_u64 a b") (auto simp: add_u64_def split: if_splits)

lemma unat_add_u64: "add_u64 a b = Some c \<Longrightarrow> unat c = unat a + unat b"
  by (auto simp: add_u64_Some_iff unat_word_ariths)

lemma add_u64_0 [simp]: "add_u64 0 v = Some v" "add_u64 v 0 = Some v"
  by (simp_all add: add_u64_Some_iff) (use unsigned_less [of v, where 'a = nat] in simp_all)

text \<open>A running checked total, \<open>None\<close> once it has overflowed.\<close>

fun checked_sum :: "u64 \<Rightarrow> u64 list \<Rightarrow> u64 option" where
  "checked_sum t [] = Some t"
| "checked_sum t (v # vs) =
     (case add_u64 t v of None \<Rightarrow> None | Some t' \<Rightarrow> checked_sum t' vs)"

lemma checked_sum_Some_iff:
  "checked_sum t vs = Some r \<longleftrightarrow>
     unat t + sum_list (map unat vs) < 2 ^ 64 \<and> r = t + sum_list vs"
proof (induction vs arbitrary: t)
  case Nil
  then show ?case using unsigned_less [of t, where 'a = nat] by auto
next
  case (Cons v vs)
  show ?case
  proof (cases "add_u64 t v")
    case None
    then have "2 ^ 64 \<le> unat t + unat v" by (simp add: add_u64_None_iff)
    with None show ?thesis by simp
  next
    case (Some c)
    have "unat c = unat t + unat v" "c = t + v"
      using Some by (rule unat_add_u64) (use Some in \<open>simp add: add_u64_Some_iff\<close>)
    then have "checked_sum c vs = Some r \<longleftrightarrow>
        unat t + unat v + sum_list (map unat vs) < 2 ^ 64 \<and> r = t + v + sum_list vs"
      using Cons.IH [of c] by (simp only:)
    with Some show ?thesis
      by (simp only: checked_sum.simps option.case list.map sum_list_simps add.assoc)
  qed
qed

lemma unat_checked_sum:
  "checked_sum t vs = Some r \<Longrightarrow> unat r = unat t + sum_list (map unat vs)"
proof (induction vs arbitrary: t)
  case (Cons v vs)
  then show ?case
    by (auto split: option.splits dest!: unat_add_u64)
qed simp


lemma replicate_2: "replicate 2 x = [x, x]"
  by (simp add: numeral_2_eq_2)

section \<open>qsort and bsearch\<close>

text \<open>
  The C library leaves the algorithm of \<open>qsort\<close> open; it promises a permutation of the input
  that is ordered by the comparator.  The model sorts by insertion.  Where the comparator
  separates the elements, \<open>qsort_unique\<close> below shows that every result meeting the library's
  promise is this one.
\<close>

fun qsort_insert :: "('a \<Rightarrow> 'a \<Rightarrow> int) \<Rightarrow> 'a \<Rightarrow> 'a list \<Rightarrow> 'a list" where
  "qsort_insert cmp x [] = [x]"
| "qsort_insert cmp x (y # ys) =
     (if cmp x y \<le> 0 then x # y # ys else y # qsort_insert cmp x ys)"

definition qsort :: "('a \<Rightarrow> 'a \<Rightarrow> int) \<Rightarrow> 'a list \<Rightarrow> 'a list" where
  "qsort cmp xs = foldr (qsort_insert cmp) xs []"

lemma qsort_simps [simp]:
  "qsort cmp [] = []"
  "qsort cmp (x # xs) = qsort_insert cmp x (qsort cmp xs)"
  by (simp_all add: qsort_def)

lemma mset_qsort_insert [simp]: "mset (qsort_insert cmp x xs) = add_mset x (mset xs)"
  by (induction xs) auto

lemma mset_qsort [simp]: "mset (qsort cmp xs) = mset xs"
  by (induction xs) auto

lemma set_qsort [simp]: "set (qsort cmp xs) = set xs"
  by (metis mset_qsort set_mset_mset)

lemma length_qsort [simp]: "length (qsort cmp xs) = length xs"
  by (metis mset_qsort size_mset)

text \<open>\<open>bsearch\<close> by halving; \<open>None\<close> is the NULL it returns when nothing compares equal.\<close>

function bsearch_loop ::
  "('k \<Rightarrow> 'a \<Rightarrow> int) \<Rightarrow> 'k \<Rightarrow> 'a list \<Rightarrow> nat \<Rightarrow> nat \<Rightarrow> 'a option" where
  "bsearch_loop cmp key xs lo hi =
     (if lo < hi then
        let mid = (lo + hi) div 2; order = cmp key (xs ! mid) in
        if order < 0 then bsearch_loop cmp key xs lo mid
        else if 0 < order then bsearch_loop cmp key xs (Suc mid) hi
        else Some (xs ! mid)
      else None)"
  by pat_completeness auto
termination
  by (relation "measure (\<lambda>(cmp, key, xs, lo, hi). hi - lo)") auto

declare bsearch_loop.simps [simp del]

definition bsearch :: "('k \<Rightarrow> 'a \<Rightarrow> int) \<Rightarrow> 'k \<Rightarrow> 'a list \<Rightarrow> 'a option" where
  "bsearch cmp key xs = bsearch_loop cmp key xs 0 (length xs)"

text \<open>The scan over neighbours that follows each sort: the second element of the first
  offending pair.\<close>

fun adjacent_find :: "('a \<Rightarrow> 'a \<Rightarrow> bool) \<Rightarrow> 'a list \<Rightarrow> 'a option" where
  "adjacent_find P (x # y # r) = (if P x y then Some y else adjacent_find P (y # r))"
| "adjacent_find P _ = None"

text \<open>The interface of a three-way comparator and what sorting with it gives.\<close>

locale comparator =
  fixes cmp :: "'a \<Rightarrow> 'a \<Rightarrow> int"
  assumes cmp_swap: "cmp y x < 0 \<longleftrightarrow> 0 < cmp x y"
    and cmp_trans: "cmp x y \<le> 0 \<Longrightarrow> cmp y z \<le> 0 \<Longrightarrow> cmp x z \<le> 0"
begin

lemma cmp_linear: "cmp x y \<le> 0 \<or> cmp y x \<le> 0"
  using cmp_swap [of y x] by linarith

lemma sorted_qsort_insert:
  "sorted_wrt (\<lambda>x y. cmp x y \<le> 0) xs \<Longrightarrow> sorted_wrt (\<lambda>x y. cmp x y \<le> 0) (qsort_insert cmp x xs)"
proof (induction xs)
  case (Cons y ys)
  show ?case
  proof (cases "cmp x y \<le> 0")
    case True
    with Cons.prems show ?thesis by (auto intro: cmp_trans)
  next
    case False
    then have "cmp y x \<le> 0" using cmp_linear by blast
    moreover have "set (qsort_insert cmp x ys) = insert x (set ys)"
      by (metis mset_qsort_insert set_mset_add_mset_insert set_mset_mset)
    ultimately show ?thesis
      using Cons False by auto
  qed
qed simp

lemma sorted_qsort: "sorted_wrt (\<lambda>x y. cmp x y \<le> 0) (qsort cmp xs)"
  by (induction xs) (simp_all add: sorted_qsort_insert)

lemma sorted_unique:
  assumes "sorted_wrt (\<lambda>x y. cmp x y \<le> 0) xs" "sorted_wrt (\<lambda>x y. cmp x y \<le> 0) ys"
    and "mset xs = mset ys"
    and sep: "\<And>x y. x \<in> set xs \<Longrightarrow> y \<in> set xs \<Longrightarrow> cmp x y = 0 \<Longrightarrow> x = y"
  shows "xs = ys"
  using assms
proof (induction xs arbitrary: ys)
  case (Cons x xs)
  then obtain y ys' where ys: "ys = y # ys'"
    by (metis mset_zero_iff_right neq_Nil_conv list.distinct(1))
  have "y \<in> set (x # xs)" "x \<in> set (y # ys')"
    using Cons.prems(3) ys by (metis list.set_intros(1) set_mset_mset)+
  then have "cmp x y \<le> 0" "cmp y x \<le> 0"
    using Cons.prems(1,2) ys cmp_linear by auto
  then have "cmp x y = 0"
    using cmp_swap [of x y] by linarith
  then have "x = y"
    using Cons.prems(4) \<open>y \<in> set (x # xs)\<close> by auto
  with Cons.prems ys have "xs = ys'"
    by (intro Cons.IH) auto
  with \<open>x = y\<close> ys show ?case by simp
qed simp

lemma qsort_unique:
  assumes "sorted_wrt (\<lambda>x y. cmp x y \<le> 0) ys" "mset ys = mset xs"
    and "\<And>x y. x \<in> set xs \<Longrightarrow> y \<in> set xs \<Longrightarrow> cmp x y = 0 \<Longrightarrow> x = y"
  shows "ys = qsort cmp xs"
  using assms sorted_qsort [of xs]
  by (intro sorted_unique) (auto simp flip: set_mset_mset)

lemma qsort_mset_cong:
  assumes "mset xs = mset ys"
    and "\<And>x y. x \<in> set xs \<Longrightarrow> y \<in> set xs \<Longrightarrow> cmp x y = 0 \<Longrightarrow> x = y"
  shows "qsort cmp xs = qsort cmp ys"
  using assms sorted_qsort [of xs] mset_eq_setD [OF assms(1)]
  by (intro qsort_unique) auto

end

text \<open>Ordering by a key in a linear order: every digest comparator of the engine has this form.\<close>

locale key_comparator =
  fixes cmp :: "'a \<Rightarrow> 'a \<Rightarrow> int" and key :: "'a \<Rightarrow> 'k::linorder"
  assumes cmp_less: "cmp x y < 0 \<longleftrightarrow> key x < key y"
    and cmp_zero: "cmp x y = 0 \<longleftrightarrow> key x = key y"
begin

lemma cmp_le: "cmp x y \<le> 0 \<longleftrightarrow> key x \<le> key y"
  by (metis cmp_less cmp_zero order_le_less)

end

sublocale key_comparator \<subseteq> comparator
proof
  fix x y z
  show "cmp y x < 0 \<longleftrightarrow> 0 < cmp x y"
    using cmp_le [of x y] cmp_less [of y x] by (auto simp: not_le [symmetric])
  show "cmp x y \<le> 0 \<Longrightarrow> cmp y z \<le> 0 \<Longrightarrow> cmp x z \<le> 0"
    by (auto simp: cmp_le)
qed

context key_comparator
begin

lemma sorted_keys_qsort: "sorted (map key (qsort cmp xs))"
  using sorted_qsort [of xs] by (simp add: cmp_le sorted_map)

lemma distinct_keys_qsort: "distinct (map key (qsort cmp xs)) \<longleftrightarrow> distinct (map key xs)"
  by (metis mset_map mset_qsort mset_eq_imp_distinct_iff)

end

lemma adjacent_find_eq_keys:
  fixes key :: "'a \<Rightarrow> 'k::linorder"
  assumes "sorted (map key xs)"
  shows "adjacent_find (\<lambda>x y. key x = key y) xs = None \<longleftrightarrow> distinct (map key xs)"
  using assms
proof (induction "\<lambda>x y. key x = key y" xs rule: adjacent_find.induct)
  case (1 x y r)
  then show ?case by (auto simp: order_le_less)
qed auto

lemma adjacent_find_Some:
  "adjacent_find P xs = Some y \<Longrightarrow> \<exists>x. x \<in> set xs \<and> y \<in> set xs \<and> P x y"
  by (induction P xs rule: adjacent_find.induct) (auto split: if_splits)

end
