(* ===== verification/Hashing.thy ===== *)
theory Hashing
  imports Prelude
begin

text \<open>
  The streaming BLAKE3 hasher the engine links against.  The library itself is not part of the
  repository, so its three entry points are the fields of a record that every hashing
  definition of the development takes as its first argument; \<open>blake3_streaming\<close> states the
  documented behaviour the engine relies on: the digest depends only on the concatenation of
  the bytes fed to \<open>blake3_hasher_update\<close>, not on how they were cut into calls.

  \<open>hash_u32\<close> and \<open>hash_u64\<close> are the helpers that every hashing file of the engine repeats,
  word for word (\<open>highway.c\<close>, \<open>evidence_testimony.c\<close>, \<open>world_admission.c\<close> and others).
\<close>

record 'h blake3_api =
  hasher_init :: 'h
  hasher_update :: "'h \<Rightarrow> byte list \<Rightarrow> 'h"
  hasher_finalize :: "'h \<Rightarrow> 32 barray"

type_synonym laplace_id128 = "16 barray"
type_synonym laplace_digest256 = "32 barray"

definition hash_u32 :: "'h blake3_api \<Rightarrow> 'h \<Rightarrow> u32 \<Rightarrow> 'h" where
  "hash_u32 B h v = hasher_update B h (u32_le v)"

definition hash_u64 :: "'h blake3_api \<Rightarrow> 'h \<Rightarrow> u64 \<Rightarrow> 'h" where
  "hash_u64 B h v = hasher_update B h (u64_le v)"

text \<open>\<open>digest_equal\<close>, repeated likewise.\<close>

definition digest_equal :: "laplace_digest256 \<Rightarrow> laplace_digest256 \<Rightarrow> bool" where
  "digest_equal left right \<longleftrightarrow> memcmp (bytes left) (bytes right) = 0"

lemma digest_equal_iff [simp]: "digest_equal a b \<longleftrightarrow> a = b"
  by (simp add: digest_equal_def)

text \<open>A run of consecutive \<open>blake3_hasher_update\<close> calls, one list element per call.\<close>

definition updates :: "'h blake3_api \<Rightarrow> 'h \<Rightarrow> byte list list \<Rightarrow> 'h" where
  "updates B h chunks = foldl (hasher_update B) h chunks"

definition blake3 :: "'h blake3_api \<Rightarrow> byte list \<Rightarrow> laplace_digest256" where
  "blake3 B bs = hasher_finalize B (hasher_update B (hasher_init B) bs)"

definition blake3_streaming :: "'h blake3_api \<Rightarrow> bool" where
  "blake3_streaming B \<longleftrightarrow>
     (\<forall>chunks. hasher_finalize B (updates B (hasher_init B) chunks) = blake3 B (concat chunks))"

text \<open>The bytes of a C string literal without its terminating zero:
  \<open>sizeof(DOMAIN) - 1\<close> bytes are hashed.\<close>

definition ascii_bytes :: "string \<Rightarrow> byte list" where
  "ascii_bytes s = map (\<lambda>c. of_nat (of_char c)) s"

lemma updates_Nil [simp]: "updates B h [] = h"
  by (simp add: updates_def)

lemma updates_append [simp]: "updates B (updates B h xs) ys = updates B h (xs @ ys)"
  by (simp add: updates_def)

lemma hasher_update_updates: "hasher_update B h c = updates B h [c]"
  by (simp add: updates_def)

lemma hash_u32_updates: "hash_u32 B h v = updates B h [u32_le v]"
  by (simp add: updates_def hash_u32_def)

lemma hash_u64_updates: "hash_u64 B h v = updates B h [u64_le v]"
  by (simp add: updates_def hash_u64_def)

lemma finalize_updates:
  "blake3_streaming B \<Longrightarrow>
     hasher_finalize B (updates B (hasher_init B) chunks) = blake3 B (concat chunks)"
  by (simp add: blake3_streaming_def)

lemma finalize_init:
  "blake3_streaming B \<Longrightarrow> hasher_finalize B (hasher_init B) = blake3 B []"
  using finalize_updates [of B "[]"] by simp

lemmas hashing = hash_u32_updates hash_u64_updates hasher_update_updates updates_append

text \<open>The first 16 bytes of a digest, the identity form of a hash.\<close>

definition id_of_digest :: "laplace_digest256 \<Rightarrow> laplace_id128" where
  "id_of_digest d = barray_of (take 16 (bytes d))"

lemma bytes_id_of_digest [simp]: "bytes (id_of_digest d) = take 16 (bytes d)"
  by (simp add: id_of_digest_def)

text \<open>
  A small concrete hasher: it keeps the bytes it was fed and summarises them as a tag, the
  length, the byte sum and the leading bytes.  It satisfies the streaming law and lets closed
  instances of the theorems be evaluated.
\<close>

definition sample_digest :: "byte list \<Rightarrow> laplace_digest256" where
  "sample_digest bs =
     barray_of (take 32 (1 # of_nat (length bs) # sum_list bs # take 29 bs @ replicate 32 0))"

definition sample_blake3 :: "byte list blake3_api" where
  "sample_blake3 =
     \<lparr>hasher_init = [], hasher_update = (\<lambda>h c. h @ c), hasher_finalize = sample_digest\<rparr>"

lemma updates_sample [simp]: "updates sample_blake3 h chunks = h @ concat chunks"
  unfolding updates_def
  by (induction chunks arbitrary: h) (simp_all add: sample_blake3_def)

lemma blake3_sample [simp]: "blake3 sample_blake3 bs = sample_digest bs"
  by (simp add: blake3_def sample_blake3_def)

lemma sample_blake3_streaming [simp]: "blake3_streaming sample_blake3"
  by (simp add: blake3_streaming_def) (simp add: sample_blake3_def)

lemma sample_digest_nonzero: "sample_digest bs \<noteq> 0"
proof -
  have "bytes (sample_digest bs) ! 0 = 1"
    by (simp add: sample_digest_def)
  then show ?thesis by auto
qed

lemma concat_map_concat: "concat (concat (map f xs)) = concat (map (concat \<circ> f) xs)"
  by (induction xs) simp_all

end
