(* ===== verification/World_Admission.thy ===== *)
theory World_Admission
  imports Hashing
begin

text \<open>
  World admission (\<open>engine/src/world_admission.c\<close>): the record by which a source becomes part of
  the world binds the receipts of every component and the counts that must agree between them.
  An admission is identified, projected to its meaning without the physical receipts, and closed
  in batches under one boundary.  Constants are those of
  \<open>contracts/world-admission-execution.json\<close>.
\<close>

datatype laplace_world_admission_status =
    LAPLACE_WORLD_ADMISSION_OK
  | LAPLACE_WORLD_ADMISSION_INVALID_ARGUMENT
  | LAPLACE_WORLD_ADMISSION_COMPONENT_MISSING
  | LAPLACE_WORLD_ADMISSION_OCCURRENCE_MISMATCH
  | LAPLACE_WORLD_ADMISSION_CLAIM_MISMATCH
  | LAPLACE_WORLD_ADMISSION_PROFILE_BINDING_MISMATCH
  | LAPLACE_WORLD_ADMISSION_RECIPE_BINDING_MISMATCH
  | LAPLACE_WORLD_ADMISSION_LINEAGE_BINDING_MISMATCH
  | LAPLACE_WORLD_ADMISSION_CLOSURE_MISMATCH
  | LAPLACE_WORLD_ADMISSION_RECONSTRUCTION_INVALID
  | LAPLACE_WORLD_ADMISSION_IDENTITY_MISMATCH
  | LAPLACE_WORLD_ADMISSION_ORDER_INVALID
  | LAPLACE_WORLD_ADMISSION_BOUNDARY_MISMATCH
  | LAPLACE_WORLD_ADMISSION_OVERFLOW

datatype world_admission_field =
    WORLD_ADMISSION_FIELD_NONE
  | WORLD_ADMISSION_FIELD_COMPONENT
  | WORLD_ADMISSION_FIELD_OCCURRENCE
  | WORLD_ADMISSION_FIELD_CLAIM
  | WORLD_ADMISSION_FIELD_PROFILE_BINDING
  | WORLD_ADMISSION_FIELD_RECIPE_BINDING
  | WORLD_ADMISSION_FIELD_LINEAGE_BINDING
  | WORLD_ADMISSION_FIELD_CLOSURE
  | WORLD_ADMISSION_FIELD_RECONSTRUCTION
  | WORLD_ADMISSION_FIELD_IDENTITY
  | WORLD_ADMISSION_FIELD_ORDER
  | WORLD_ADMISSION_FIELD_BOUNDARY
  | WORLD_ADMISSION_FIELD_AGGREGATE

record laplace_world_admission_record =
  wa_admission_id :: laplace_digest256
  wa_source_profile_id :: laplace_digest256
  wa_selected_boundary_fingerprint :: laplace_digest256
  wa_source_profile_receipt_id :: laplace_digest256
  wa_recipe_receipt_id :: laplace_digest256
  wa_composition_working_set_receipt_id :: laplace_digest256
  wa_composition_presence_receipt_id :: laplace_digest256
  wa_composition_producer_receipt_id :: laplace_digest256
  wa_composition_stream_receipt_id :: laplace_digest256
  wa_evidence_lineage_receipt_id :: laplace_digest256
  wa_evidence_testimony_receipt_id :: laplace_digest256
  wa_readback_fingerprint :: laplace_digest256
  wa_profile_occurrence_count :: u64
  wa_composition_occurrence_count :: u64
  wa_profile_claim_count :: u64
  wa_evidence_node_count :: u64
  wa_testimony_count :: u64
  wa_profile_bound_testimony_count :: u64
  wa_recipe_bound_testimony_count :: u64
  wa_lineage_bound_testimony_count :: u64
  wa_closure_subject_count :: u64
  wa_closed_subject_count :: u64
  wa_reconstruction_class :: u32
  wa_flags :: u32

text \<open>The \<open>status\<close> word of a receipt is 0, the code of OK, in every receipt the code writes.\<close>

record laplace_world_admission_receipt =
  wr_receipt_id :: laplace_digest256
  wr_selected_boundary_fingerprint :: laplace_digest256
  wr_input_fingerprint :: laplace_digest256
  wr_output_fingerprint :: laplace_digest256
  wr_admission_count :: u64
  wr_occurrence_count :: u64
  wr_claim_count :: u64
  wr_evidence_node_count :: u64
  wr_testimony_count :: u64
  wr_closure_subject_count :: u64
  wr_version :: u32
  wr_status :: u32

record laplace_world_admission_semantic_projection =
  wp_semantic_fingerprint :: laplace_digest256
  wp_source_profile_id :: laplace_digest256
  wp_selected_boundary_fingerprint :: laplace_digest256
  wp_source_profile_receipt_id :: laplace_digest256
  wp_recipe_receipt_id :: laplace_digest256
  wp_evidence_lineage_receipt_id :: laplace_digest256
  wp_evidence_testimony_receipt_id :: laplace_digest256
  wp_readback_fingerprint :: laplace_digest256
  wp_profile_occurrence_count :: u64
  wp_composition_occurrence_count :: u64
  wp_profile_claim_count :: u64
  wp_evidence_node_count :: u64
  wp_testimony_count :: u64
  wp_profile_bound_testimony_count :: u64
  wp_recipe_bound_testimony_count :: u64
  wp_lineage_bound_testimony_count :: u64
  wp_closure_subject_count :: u64
  wp_closed_subject_count :: u64
  wp_reconstruction_class :: u32
  wp_flags :: u32
  wp_version :: u32
  wp_status :: laplace_world_admission_status

record laplace_world_admission_error =
  we_admission_index :: u64
  we_field :: world_admission_field
  we_reserved :: u32

definition LAPLACE_WORLD_ADMISSION_VERSION :: u32 where
  "LAPLACE_WORLD_ADMISSION_VERSION = 1"
definition LAPLACE_WORLD_ADMISSION_ADMISSION_DOMAIN :: "byte list" where
  "LAPLACE_WORLD_ADMISSION_ADMISSION_DOMAIN = ascii_bytes ''laplace-world-admission-v1''"
definition LAPLACE_WORLD_ADMISSION_INPUT_DOMAIN :: "byte list" where
  "LAPLACE_WORLD_ADMISSION_INPUT_DOMAIN = ascii_bytes ''laplace-world-admission-input-v1''"
definition LAPLACE_WORLD_ADMISSION_OUTPUT_DOMAIN :: "byte list" where
  "LAPLACE_WORLD_ADMISSION_OUTPUT_DOMAIN = ascii_bytes ''laplace-world-admission-output-v1''"
definition LAPLACE_WORLD_ADMISSION_RECEIPT_DOMAIN :: "byte list" where
  "LAPLACE_WORLD_ADMISSION_RECEIPT_DOMAIN = ascii_bytes ''laplace-world-admission-receipt-v1''"
definition world_admission_semantic_projection_domain :: "byte list" where
  "world_admission_semantic_projection_domain =
     ascii_bytes ''laplace-world-admission-semantic-projection-v1''"
definition LAPLACE_WORLD_ADMISSION_FLAGS_NONE :: u32 where
  "LAPLACE_WORLD_ADMISSION_FLAGS_NONE = 0"
definition LAPLACE_SOURCE_PROFILE_RECONSTRUCTION_EXACT :: u32 where
  "LAPLACE_SOURCE_PROFILE_RECONSTRUCTION_EXACT = 1"
definition LAPLACE_SOURCE_PROFILE_RECONSTRUCTION_NONE :: u32 where
  "LAPLACE_SOURCE_PROFILE_RECONSTRUCTION_NONE = 3"

section \<open>Hashing\<close>

text \<open>The counts and codes that both hashes end with.\<close>

definition count_chunks :: "laplace_world_admission_record \<Rightarrow> byte list list" where
  "count_chunks r =
     [u64_le (wa_profile_occurrence_count r), u64_le (wa_composition_occurrence_count r),
      u64_le (wa_profile_claim_count r), u64_le (wa_evidence_node_count r),
      u64_le (wa_testimony_count r), u64_le (wa_profile_bound_testimony_count r),
      u64_le (wa_recipe_bound_testimony_count r), u64_le (wa_lineage_bound_testimony_count r),
      u64_le (wa_closure_subject_count r), u64_le (wa_closed_subject_count r),
      u32_le (wa_reconstruction_class r), u32_le (wa_flags r)]"

definition admission_chunks :: "laplace_world_admission_record \<Rightarrow> byte list list" where
  "admission_chunks r =
     [bytes (wa_source_profile_id r), bytes (wa_selected_boundary_fingerprint r),
      bytes (wa_source_profile_receipt_id r), bytes (wa_recipe_receipt_id r),
      bytes (wa_composition_working_set_receipt_id r), bytes (wa_composition_presence_receipt_id r),
      bytes (wa_composition_producer_receipt_id r), bytes (wa_composition_stream_receipt_id r),
      bytes (wa_evidence_lineage_receipt_id r), bytes (wa_evidence_testimony_receipt_id r),
      bytes (wa_readback_fingerprint r)] @ count_chunks r"

definition hash_admission :: "'h blake3_api \<Rightarrow> 'h \<Rightarrow> laplace_world_admission_record \<Rightarrow> bool \<Rightarrow> 'h" where
  "hash_admission B h r include_identity =
     updates B h ((if include_identity then [bytes (wa_admission_id r)] else []) @ admission_chunks r)"

definition semantic_chunks :: "laplace_world_admission_record \<Rightarrow> byte list list" where
  "semantic_chunks r =
     [bytes (wa_source_profile_id r), bytes (wa_selected_boundary_fingerprint r),
      bytes (wa_source_profile_receipt_id r), bytes (wa_recipe_receipt_id r),
      bytes (wa_evidence_lineage_receipt_id r), bytes (wa_evidence_testimony_receipt_id r),
      bytes (wa_readback_fingerprint r)] @ count_chunks r"

definition hash_semantic_projection :: "'h blake3_api \<Rightarrow> 'h \<Rightarrow> laplace_world_admission_record \<Rightarrow> 'h" where
  "hash_semantic_projection B h r = updates B h (semantic_chunks r)"

section \<open>One admission\<close>

text \<open>The status and \<open>*field\<close>; the branch for wrong flags does not set the field.\<close>

definition validate_admission ::
  "laplace_world_admission_record \<Rightarrow> world_admission_field
     \<Rightarrow> laplace_world_admission_status \<times> world_admission_field" where
  "validate_admission r field =
     (if list_ex (\<lambda>d. bytes_zero (bytes d))
           [wa_source_profile_id r, wa_selected_boundary_fingerprint r, wa_source_profile_receipt_id r,
            wa_recipe_receipt_id r, wa_composition_working_set_receipt_id r,
            wa_composition_presence_receipt_id r, wa_composition_producer_receipt_id r,
            wa_composition_stream_receipt_id r, wa_readback_fingerprint r]
      then (LAPLACE_WORLD_ADMISSION_COMPONENT_MISSING, WORLD_ADMISSION_FIELD_COMPONENT)
      else if wa_profile_claim_count r = 0
         \<and> (\<not> bytes_zero (bytes (wa_evidence_lineage_receipt_id r))
            \<or> \<not> bytes_zero (bytes (wa_evidence_testimony_receipt_id r))
            \<or> wa_evidence_node_count r \<noteq> 0 \<or> wa_testimony_count r \<noteq> 0
            \<or> wa_profile_bound_testimony_count r \<noteq> 0 \<or> wa_recipe_bound_testimony_count r \<noteq> 0
            \<or> wa_lineage_bound_testimony_count r \<noteq> 0)
      then (LAPLACE_WORLD_ADMISSION_COMPONENT_MISSING, WORLD_ADMISSION_FIELD_COMPONENT)
      else if wa_profile_claim_count r \<noteq> 0
         \<and> (bytes_zero (bytes (wa_evidence_lineage_receipt_id r))
            \<or> bytes_zero (bytes (wa_evidence_testimony_receipt_id r)))
      then (LAPLACE_WORLD_ADMISSION_COMPONENT_MISSING, WORLD_ADMISSION_FIELD_COMPONENT)
      else if wa_profile_occurrence_count r = 0
         \<or> wa_profile_occurrence_count r \<noteq> wa_composition_occurrence_count r
      then (LAPLACE_WORLD_ADMISSION_OCCURRENCE_MISMATCH, WORLD_ADMISSION_FIELD_OCCURRENCE)
      else if wa_profile_claim_count r \<noteq> wa_testimony_count r
      then (LAPLACE_WORLD_ADMISSION_CLAIM_MISMATCH, WORLD_ADMISSION_FIELD_CLAIM)
      else if wa_profile_bound_testimony_count r \<noteq> wa_testimony_count r
      then (LAPLACE_WORLD_ADMISSION_PROFILE_BINDING_MISMATCH, WORLD_ADMISSION_FIELD_PROFILE_BINDING)
      else if wa_recipe_bound_testimony_count r \<noteq> wa_testimony_count r
      then (LAPLACE_WORLD_ADMISSION_RECIPE_BINDING_MISMATCH, WORLD_ADMISSION_FIELD_RECIPE_BINDING)
      else if wa_lineage_bound_testimony_count r \<noteq> wa_testimony_count r
         \<or> (wa_testimony_count r \<noteq> 0 \<and> wa_evidence_node_count r = 0)
      then (LAPLACE_WORLD_ADMISSION_LINEAGE_BINDING_MISMATCH, WORLD_ADMISSION_FIELD_LINEAGE_BINDING)
      else if wa_closure_subject_count r = 0 \<or> wa_closed_subject_count r \<noteq> wa_closure_subject_count r
      then (LAPLACE_WORLD_ADMISSION_CLOSURE_MISMATCH, WORLD_ADMISSION_FIELD_CLOSURE)
      else if wa_reconstruction_class r < LAPLACE_SOURCE_PROFILE_RECONSTRUCTION_EXACT
         \<or> LAPLACE_SOURCE_PROFILE_RECONSTRUCTION_NONE < wa_reconstruction_class r
      then (LAPLACE_WORLD_ADMISSION_RECONSTRUCTION_INVALID, WORLD_ADMISSION_FIELD_RECONSTRUCTION)
      else if wa_flags r \<noteq> LAPLACE_WORLD_ADMISSION_FLAGS_NONE
      then (LAPLACE_WORLD_ADMISSION_INVALID_ARGUMENT, field)
      else (LAPLACE_WORLD_ADMISSION_OK, field))"

definition laplace_world_admission_identify ::
  "'h blake3_api \<Rightarrow> laplace_world_admission_record option \<Rightarrow> laplace_digest256 option
     \<Rightarrow> laplace_world_admission_status \<times> laplace_digest256 option" where
  "laplace_world_admission_identify B admission admission_id =
     (case (admission, admission_id) of
        (Some a, Some _) \<Rightarrow>
          (case validate_admission a WORLD_ADMISSION_FIELD_NONE of (status, field) \<Rightarrow>
             if status \<noteq> LAPLACE_WORLD_ADMISSION_OK then (status, admission_id)
             else (LAPLACE_WORLD_ADMISSION_OK,
                   Some (hasher_finalize B (hash_admission B
                     (hasher_update B (hasher_init B) LAPLACE_WORLD_ADMISSION_ADMISSION_DOMAIN) a False))))
      | _ \<Rightarrow> (LAPLACE_WORLD_ADMISSION_INVALID_ARGUMENT, admission_id))"

definition projection_zero :: laplace_world_admission_semantic_projection where
  "projection_zero =
     \<lparr>wp_semantic_fingerprint = 0, wp_source_profile_id = 0, wp_selected_boundary_fingerprint = 0,
      wp_source_profile_receipt_id = 0, wp_recipe_receipt_id = 0, wp_evidence_lineage_receipt_id = 0,
      wp_evidence_testimony_receipt_id = 0, wp_readback_fingerprint = 0,
      wp_profile_occurrence_count = 0, wp_composition_occurrence_count = 0, wp_profile_claim_count = 0,
      wp_evidence_node_count = 0, wp_testimony_count = 0, wp_profile_bound_testimony_count = 0,
      wp_recipe_bound_testimony_count = 0, wp_lineage_bound_testimony_count = 0,
      wp_closure_subject_count = 0, wp_closed_subject_count = 0, wp_reconstruction_class = 0,
      wp_flags = 0, wp_version = 0, wp_status = LAPLACE_WORLD_ADMISSION_OK\<rparr>"

text \<open>The assignments of the admitted fields.\<close>

definition project_fields ::
  "laplace_world_admission_record \<Rightarrow> laplace_world_admission_semantic_projection
     \<Rightarrow> laplace_world_admission_semantic_projection" where
  "project_fields a p =
     p\<lparr>wp_source_profile_id := wa_source_profile_id a,
       wp_selected_boundary_fingerprint := wa_selected_boundary_fingerprint a,
       wp_source_profile_receipt_id := wa_source_profile_receipt_id a,
       wp_recipe_receipt_id := wa_recipe_receipt_id a,
       wp_evidence_lineage_receipt_id := wa_evidence_lineage_receipt_id a,
       wp_evidence_testimony_receipt_id := wa_evidence_testimony_receipt_id a,
       wp_readback_fingerprint := wa_readback_fingerprint a,
       wp_profile_occurrence_count := wa_profile_occurrence_count a,
       wp_composition_occurrence_count := wa_composition_occurrence_count a,
       wp_profile_claim_count := wa_profile_claim_count a,
       wp_evidence_node_count := wa_evidence_node_count a,
       wp_testimony_count := wa_testimony_count a,
       wp_profile_bound_testimony_count := wa_profile_bound_testimony_count a,
       wp_recipe_bound_testimony_count := wa_recipe_bound_testimony_count a,
       wp_lineage_bound_testimony_count := wa_lineage_bound_testimony_count a,
       wp_closure_subject_count := wa_closure_subject_count a,
       wp_closed_subject_count := wa_closed_subject_count a,
       wp_reconstruction_class := wa_reconstruction_class a,
       wp_flags := wa_flags a,
       wp_status := LAPLACE_WORLD_ADMISSION_OK\<rparr>"

text \<open>The last hashed word is the code of the status OK, which has just been stored.\<close>

definition laplace_world_admission_project_semantics ::
  "'h blake3_api \<Rightarrow> laplace_world_admission_record option
     \<Rightarrow> laplace_world_admission_semantic_projection option
     \<Rightarrow> laplace_world_admission_status \<times> laplace_world_admission_semantic_projection option" where
  "laplace_world_admission_project_semantics B admission projection =
     (let p0 = projection_zero\<lparr>wp_version := LAPLACE_WORLD_ADMISSION_VERSION,
                 wp_status := LAPLACE_WORLD_ADMISSION_INVALID_ARGUMENT\<rparr> in
      case (admission, projection) of
        (Some a, Some _) \<Rightarrow>
          (case validate_admission a WORLD_ADMISSION_FIELD_NONE of (status, field) \<Rightarrow>
             if status \<noteq> LAPLACE_WORLD_ADMISSION_OK then (status, Some (p0\<lparr>wp_status := status\<rparr>)) else
             case laplace_world_admission_identify B admission (Some 0) of (status, expected) \<Rightarrow>
             if status \<noteq> LAPLACE_WORLD_ADMISSION_OK \<or> \<not> digest_equal (the expected) (wa_admission_id a)
             then (LAPLACE_WORLD_ADMISSION_IDENTITY_MISMATCH,
                   Some (p0\<lparr>wp_status := LAPLACE_WORLD_ADMISSION_IDENTITY_MISMATCH\<rparr>)) else
             let p = project_fields a p0;
                 h = hash_semantic_projection B
                   (hasher_update B (hasher_init B) world_admission_semantic_projection_domain) a in
             (LAPLACE_WORLD_ADMISSION_OK,
              Some (p\<lparr>wp_semantic_fingerprint := hasher_finalize B
                 (hash_u32 B (hash_u32 B h (wp_version p)) 0)\<rparr>)))
      | _ \<Rightarrow> (LAPLACE_WORLD_ADMISSION_INVALID_ARGUMENT, map_option (\<lambda>_. p0) projection))"

section \<open>A batch\<close>

record 'h admission_state =
  as_input_hasher :: 'h
  as_output_hasher :: 'h
  as_receipt :: laplace_world_admission_receipt

text \<open>The five checked sums are taken from left to right; a failing one leaves the earlier totals
  advanced.\<close>

definition add_totals ::
  "laplace_world_admission_record \<Rightarrow> laplace_world_admission_receipt \<Rightarrow> bool \<times> laplace_world_admission_receipt" where
  "add_totals a r =
     (case add_u64 (wr_occurrence_count r) (wa_profile_occurrence_count a) of None \<Rightarrow> (False, r) | Some t \<Rightarrow>
      let r = r\<lparr>wr_occurrence_count := t\<rparr> in
      case add_u64 (wr_claim_count r) (wa_profile_claim_count a) of None \<Rightarrow> (False, r) | Some t \<Rightarrow>
      let r = r\<lparr>wr_claim_count := t\<rparr> in
      case add_u64 (wr_evidence_node_count r) (wa_evidence_node_count a) of None \<Rightarrow> (False, r) | Some t \<Rightarrow>
      let r = r\<lparr>wr_evidence_node_count := t\<rparr> in
      case add_u64 (wr_testimony_count r) (wa_testimony_count a) of None \<Rightarrow> (False, r) | Some t \<Rightarrow>
      let r = r\<lparr>wr_testimony_count := t\<rparr> in
      case add_u64 (wr_closure_subject_count r) (wa_closure_subject_count a) of None \<Rightarrow> (False, r) | Some t \<Rightarrow>
      (True, r\<lparr>wr_closure_subject_count := t\<rparr>))"

text \<open>The checks of one turn before the sums: a status and the field of the error.  \<open>first\<close> is
  \<open>admissions[0]\<close>, \<open>previous\<close> the record before this one, absent at index 0.\<close>

definition admission_check ::
  "'h blake3_api \<Rightarrow> laplace_world_admission_record \<Rightarrow> laplace_world_admission_record option
     \<Rightarrow> laplace_world_admission_record \<Rightarrow> laplace_world_admission_status \<times> world_admission_field" where
  "admission_check B first previous a =
     (case validate_admission a WORLD_ADMISSION_FIELD_NONE of (status, field) \<Rightarrow>
      if status \<noteq> LAPLACE_WORLD_ADMISSION_OK then (status, field) else
      case laplace_world_admission_identify B (Some a) (Some 0) of (status, expected) \<Rightarrow>
      if status \<noteq> LAPLACE_WORLD_ADMISSION_OK \<or> \<not> digest_equal (the expected) (wa_admission_id a)
      then (LAPLACE_WORLD_ADMISSION_IDENTITY_MISMATCH, WORLD_ADMISSION_FIELD_IDENTITY) else
      if (case previous of None \<Rightarrow> False
          | Some p \<Rightarrow> 0 \<le> memcmp (bytes (wa_admission_id p)) (bytes (wa_admission_id a)))
      then (LAPLACE_WORLD_ADMISSION_ORDER_INVALID, WORLD_ADMISSION_FIELD_ORDER) else
      if previous \<noteq> None
         \<and> \<not> digest_equal (wa_selected_boundary_fingerprint first) (wa_selected_boundary_fingerprint a)
      then (LAPLACE_WORLD_ADMISSION_BOUNDARY_MISMATCH, WORLD_ADMISSION_FIELD_BOUNDARY)
      else (LAPLACE_WORLD_ADMISSION_OK, WORLD_ADMISSION_FIELD_NONE))"

text \<open>\<open>Inl\<close> carries the status, the index, the field and the receipt as the loop left it.\<close>

fun admission_loop ::
  "'h blake3_api \<Rightarrow> laplace_world_admission_record \<Rightarrow> laplace_world_admission_record option \<Rightarrow> nat
     \<Rightarrow> 'h admission_state \<Rightarrow> laplace_world_admission_record list
     \<Rightarrow> (laplace_world_admission_status \<times> nat \<times> world_admission_field \<times> laplace_world_admission_receipt)
        + 'h admission_state" where
  "admission_loop B first previous index s [] = Inr s"
| "admission_loop B first previous index s (a # as) =
     (case admission_check B first previous a of (status, field) \<Rightarrow>
      if status \<noteq> LAPLACE_WORLD_ADMISSION_OK then Inl (status, index, field, as_receipt s) else
      case add_totals a (as_receipt s) of (ok, receipt) \<Rightarrow>
      if \<not> ok then Inl (LAPLACE_WORLD_ADMISSION_OVERFLOW, index, WORLD_ADMISSION_FIELD_AGGREGATE, receipt)
      else admission_loop B first (Some a) (Suc index)
        \<lparr>as_input_hasher = hash_admission B (as_input_hasher s) a True,
         as_output_hasher = updates B (as_output_hasher s)
           [bytes (wa_admission_id a), bytes (wa_readback_fingerprint a)],
         as_receipt = receipt\<rparr> as)"

definition admission_receipt_zero :: laplace_world_admission_receipt where
  "admission_receipt_zero =
     \<lparr>wr_receipt_id = 0, wr_selected_boundary_fingerprint = 0, wr_input_fingerprint = 0,
      wr_output_fingerprint = 0, wr_admission_count = 0, wr_occurrence_count = 0, wr_claim_count = 0,
      wr_evidence_node_count = 0, wr_testimony_count = 0, wr_closure_subject_count = 0,
      wr_version = 0, wr_status = 0\<rparr>"

definition admission_receipt_chunks :: "laplace_world_admission_receipt \<Rightarrow> byte list list" where
  "admission_receipt_chunks r =
     [LAPLACE_WORLD_ADMISSION_RECEIPT_DOMAIN, bytes (wr_selected_boundary_fingerprint r),
      bytes (wr_input_fingerprint r), bytes (wr_output_fingerprint r), u64_le (wr_admission_count r),
      u64_le (wr_occurrence_count r), u64_le (wr_claim_count r), u64_le (wr_evidence_node_count r),
      u64_le (wr_testimony_count r), u64_le (wr_closure_subject_count r), u32_le (wr_version r),
      u32_le (wr_status r)]"

definition laplace_world_admission_close_batch ::
  "'h blake3_api \<Rightarrow> laplace_world_admission_record span \<Rightarrow> laplace_world_admission_receipt option
     \<Rightarrow> laplace_world_admission_error option
     \<Rightarrow> laplace_world_admission_status \<times> laplace_world_admission_receipt option
        \<times> laplace_world_admission_error option" where
  "laplace_world_admission_close_batch B admissions receipt error =
     (let r0 = admission_receipt_zero\<lparr>wr_version := LAPLACE_WORLD_ADMISSION_VERSION\<rparr>;
          e0 = \<lparr>we_admission_index = UINT64_MAX, we_field = WORLD_ADMISSION_FIELD_NONE, we_reserved = 0\<rparr>;
          error0 = map_option (\<lambda>_. e0) error in
      if span_null admissions \<or> span_count admissions = 0 \<or> receipt = None
      then (LAPLACE_WORLD_ADMISSION_INVALID_ARGUMENT, map_option (\<lambda>_. r0) receipt, error0)
      else
        let as = span_items admissions;
            n = u64_le (of_nat (length as));
            s0 = \<lparr>as_input_hasher = updates B (hasher_init B) [LAPLACE_WORLD_ADMISSION_INPUT_DOMAIN, n],
                  as_output_hasher = updates B (hasher_init B) [LAPLACE_WORLD_ADMISSION_OUTPUT_DOMAIN, n],
                  as_receipt = r0\<rparr> in
        case admission_loop B (as ! 0) None 0 s0 as of
          Inl (status, index, field, r) \<Rightarrow>
            (status, Some r,
             map_option (\<lambda>_. e0\<lparr>we_admission_index := of_nat index, we_field := field\<rparr>) error)
        | Inr s \<Rightarrow>
            let r = (as_receipt s)\<lparr>
                  wr_selected_boundary_fingerprint := wa_selected_boundary_fingerprint (as ! 0),
                  wr_admission_count := of_nat (length as), wr_status := 0,
                  wr_input_fingerprint := hasher_finalize B (as_input_hasher s),
                  wr_output_fingerprint := hasher_finalize B (as_output_hasher s)\<rparr> in
            (LAPLACE_WORLD_ADMISSION_OK,
             Some (r\<lparr>wr_receipt_id := hasher_finalize B
               (updates B (hasher_init B) (admission_receipt_chunks r))\<rparr>), error0))"

section \<open>Closed admissions\<close>

text \<open>What an admission must satisfy: every component is named, the evidence is all there or all
  absent, and the counts that describe the same thing are equal.\<close>

definition admission_closed :: "laplace_world_admission_record \<Rightarrow> bool" where
  "admission_closed a \<longleftrightarrow>
     0 \<notin> {wa_source_profile_id a, wa_selected_boundary_fingerprint a, wa_source_profile_receipt_id a,
        wa_recipe_receipt_id a, wa_composition_working_set_receipt_id a,
        wa_composition_presence_receipt_id a, wa_composition_producer_receipt_id a,
        wa_composition_stream_receipt_id a, wa_readback_fingerprint a}
     \<and> (wa_evidence_lineage_receipt_id a = 0 \<longleftrightarrow> wa_testimony_count a = 0)
     \<and> (wa_evidence_testimony_receipt_id a = 0 \<longleftrightarrow> wa_testimony_count a = 0)
     \<and> (wa_evidence_node_count a = 0 \<longleftrightarrow> wa_testimony_count a = 0)
     \<and> wa_profile_occurrence_count a \<noteq> 0
     \<and> wa_composition_occurrence_count a = wa_profile_occurrence_count a
     \<and> wa_profile_claim_count a = wa_testimony_count a
     \<and> wa_profile_bound_testimony_count a = wa_testimony_count a
     \<and> wa_recipe_bound_testimony_count a = wa_testimony_count a
     \<and> wa_lineage_bound_testimony_count a = wa_testimony_count a
     \<and> wa_closure_subject_count a \<noteq> 0 \<and> wa_closed_subject_count a = wa_closure_subject_count a
     \<and> wa_reconstruction_class a \<noteq> 0 \<and> wa_reconstruction_class a \<le> 3 \<and> wa_flags a = 0"

lemma validate_admission_iff:
  "fst (validate_admission a f) = LAPLACE_WORLD_ADMISSION_OK \<longleftrightarrow> admission_closed a"
  "admission_closed a \<Longrightarrow> validate_admission a f = (LAPLACE_WORLD_ADMISSION_OK, f)"
  by (auto simp: validate_admission_def admission_closed_def not_less
      LAPLACE_SOURCE_PROFILE_RECONSTRUCTION_EXACT_def LAPLACE_SOURCE_PROFILE_RECONSTRUCTION_NONE_def
      LAPLACE_WORLD_ADMISSION_FLAGS_NONE_def split: if_splits)

definition admission_bytes :: "laplace_world_admission_record \<Rightarrow> byte list" where
  "admission_bytes a = concat (admission_chunks a)"

lemma length_admission_bytes [simp]: "length (admission_bytes a) = 440"
  by (simp add: admission_bytes_def admission_chunks_def count_chunks_def)

lemma admission_bytes_inject:
  "admission_bytes a = admission_bytes b \<longleftrightarrow> a\<lparr>wa_admission_id := 0\<rparr> = b\<lparr>wa_admission_id := 0\<rparr>"
  by (cases a; cases b) (auto simp: admission_bytes_def admission_chunks_def count_chunks_def layout)

interpretation ac: fixed_width_codec "\<lambda>a. bytes (wa_admission_id a) @ admission_bytes a" 472
proof
  fix a b :: laplace_world_admission_record
  show "length (bytes (wa_admission_id a) @ admission_bytes a) = 472" by simp
  assume "bytes (wa_admission_id a) @ admission_bytes a = bytes (wa_admission_id b) @ admission_bytes b"
  then show "a = b"
    by (cases a; cases b) (auto simp: layout admission_bytes_inject)
qed

definition admission_identity :: "'h blake3_api \<Rightarrow> laplace_world_admission_record \<Rightarrow> laplace_digest256" where
  "admission_identity B a = blake3 B (LAPLACE_WORLD_ADMISSION_ADMISSION_DOMAIN @ admission_bytes a)"

lemma identify_admission:
  assumes "blake3_streaming B"
  shows "admission_closed a \<Longrightarrow> laplace_world_admission_identify B (Some a) (Some x)
      = (LAPLACE_WORLD_ADMISSION_OK, Some (admission_identity B a))"
    "fst (laplace_world_admission_identify B (Some a) (Some x)) = LAPLACE_WORLD_ADMISSION_OK
      \<longleftrightarrow> admission_closed a"
  using finalize_updates [OF assms] validate_admission_iff [of a WORLD_ADMISSION_FIELD_NONE]
  by (auto simp: laplace_world_admission_identify_def admission_identity_def admission_bytes_def
      hash_admission_def hashing split: prod.splits)

section \<open>The loop\<close>

lemma admission_check_iff:
  assumes "blake3_streaming B"
  shows "fst (admission_check B first previous a) = LAPLACE_WORLD_ADMISSION_OK \<longleftrightarrow>
    admission_closed a \<and> wa_admission_id a = admission_identity B a
    \<and> (\<forall>p. previous = Some p \<longrightarrow> wa_admission_id p < wa_admission_id a
         \<and> wa_selected_boundary_fingerprint a = wa_selected_boundary_fingerprint first)"
proof (cases "admission_closed a")
  case True
  then show ?thesis
    using validate_admission_iff(2) identify_admission(1) [OF assms]
    by (cases previous) (auto simp: admission_check_def not_le)
next
  case False
  then show ?thesis
    using validate_admission_iff(1) [of a WORLD_ADMISSION_FIELD_NONE]
    by (auto simp: admission_check_def split: prod.splits)
qed

text \<open>The five totals of a receipt beside the counts they add up.\<close>

definition total_fields ::
  "((laplace_world_admission_receipt \<Rightarrow> u64) \<times> (laplace_world_admission_record \<Rightarrow> u64)) list" where
  "total_fields =
     [(wr_occurrence_count, wa_profile_occurrence_count), (wr_claim_count, wa_profile_claim_count),
      (wr_evidence_node_count, wa_evidence_node_count), (wr_testimony_count, wa_testimony_count),
      (wr_closure_subject_count, wa_closure_subject_count)]"

definition room :: "laplace_world_admission_receipt \<Rightarrow> laplace_world_admission_record list \<Rightarrow> bool" where
  "room r as \<longleftrightarrow>
     list_all (\<lambda>(f, g). unat (f r) + sum_list (map (unat \<circ> g) as) < 2 ^ 64) total_fields"

definition advance_totals ::
  "laplace_world_admission_record \<Rightarrow> laplace_world_admission_receipt \<Rightarrow> laplace_world_admission_receipt" where
  "advance_totals a r =
     r\<lparr>wr_occurrence_count := wr_occurrence_count r + wa_profile_occurrence_count a,
       wr_claim_count := wr_claim_count r + wa_profile_claim_count a,
       wr_evidence_node_count := wr_evidence_node_count r + wa_evidence_node_count a,
       wr_testimony_count := wr_testimony_count r + wa_testimony_count a,
       wr_closure_subject_count := wr_closure_subject_count r + wa_closure_subject_count a\<rparr>"

lemma add_totals_iff:
  "fst (add_totals a r) \<longleftrightarrow> room r [a]"
  "room r [a] \<Longrightarrow> add_totals a r = (True, advance_totals a r)"
  by (auto simp: add_totals_def room_def total_fields_def advance_totals_def Let_def add_u64_Some_iff
      add_u64_None_iff split: option.splits)

lemma room_Nil [simp]: "room r []"
  using unsigned_less [of "wr_occurrence_count r", where 'a = nat] unsigned_less [of "wr_claim_count r", where 'a = nat]
    unsigned_less [of "wr_evidence_node_count r", where 'a = nat] unsigned_less [of "wr_testimony_count r", where 'a = nat]
    unsigned_less [of "wr_closure_subject_count r", where 'a = nat]
  by (simp add: room_def total_fields_def)

lemma room_Cons: "room r (a # as) \<longleftrightarrow> room r [a] \<and> room (advance_totals a r) as"
proof -
  have "unat (x + y) + n < 2 ^ 64 \<longleftrightarrow> unat x + unat y + n < 2 ^ 64" if "unat x + unat y < 2 ^ 64" for x y :: u64 and n
    using that by (simp add: unat_word_ariths)
  then show ?thesis
    by (auto simp: room_def total_fields_def advance_totals_def add.assoc)
qed

definition admission_step ::
  "'h blake3_api \<Rightarrow> 'h admission_state \<Rightarrow> laplace_world_admission_record \<Rightarrow> 'h admission_state" where
  "admission_step B s a =
     \<lparr>as_input_hasher = hash_admission B (as_input_hasher s) a True,
      as_output_hasher = updates B (as_output_hasher s)
        [bytes (wa_admission_id a), bytes (wa_readback_fingerprint a)],
      as_receipt = advance_totals a (as_receipt s)\<rparr>"

lemma admission_loop_step:
  assumes "fst (admission_check B first previous a) = LAPLACE_WORLD_ADMISSION_OK" "room (as_receipt s) [a]"
  shows "admission_loop B first previous i s (a # as) = admission_loop B first (Some a) (Suc i) (admission_step B s a) as"
  using assms add_totals_iff(2) [OF assms(2)] by (auto simp: admission_step_def split: prod.splits)

lemma admission_loop_stops:
  assumes "\<not> (fst (admission_check B first previous a) = LAPLACE_WORLD_ADMISSION_OK \<and> room (as_receipt s) [a])"
  obtains st f r where "st \<noteq> LAPLACE_WORLD_ADMISSION_OK"
    "\<And>as. admission_loop B first previous i s (a # as) = Inl (st, i, f, r)"
proof -
  obtain st f where c: "admission_check B first previous a = (st, f)" by fastforce
  obtain ok r where t: "add_totals a (as_receipt s) = (ok, r)" by fastforce
  show ?thesis
  proof (cases "st = LAPLACE_WORLD_ADMISSION_OK")
    case True
    then have "\<not> ok" using assms add_totals_iff(1) [of a "as_receipt s"] c t by simp
    then show ?thesis
      using that [of LAPLACE_WORLD_ADMISSION_OVERFLOW WORLD_ADMISSION_FIELD_AGGREGATE r] c t True by simp
  next
    case False
    then show ?thesis using that [of st f "as_receipt s"] c by simp
  qed
qed

definition record_accepted ::
  "'h blake3_api \<Rightarrow> laplace_world_admission_record \<Rightarrow> laplace_world_admission_record \<Rightarrow> bool" where
  "record_accepted B first a \<longleftrightarrow> admission_closed a \<and> wa_admission_id a = admission_identity B a
     \<and> wa_selected_boundary_fingerprint a = wa_selected_boundary_fingerprint first"

lemma admission_loop_Inr_iff:
  assumes "blake3_streaming B"
  shows "admission_loop B first (Some p) i s as = Inr s' \<longleftrightarrow>
    list_all (record_accepted B first) as
    \<and> sorted_wrt (<) (wa_admission_id p # map wa_admission_id as)
    \<and> room (as_receipt s) as \<and> s' = foldl (admission_step B) s as"
proof (induction as arbitrary: p i s)
  case Nil
  then show ?case by auto
next
  case (Cons a as)
  show ?case
  proof (cases "fst (admission_check B first (Some p) a) = LAPLACE_WORLD_ADMISSION_OK \<and> room (as_receipt s) [a]")
    case False
    then obtain st f r where "admission_loop B first (Some p) i s (a # as) = Inl (st, i, f, r)"
      by (rule admission_loop_stops) blast
    then show ?thesis
      using False admission_check_iff [OF assms, of first "Some p" a] room_Cons [of "as_receipt s" a as]
      by (auto simp: record_accepted_def)
  next
    case True
    then have "admission_loop B first (Some p) i s (a # as)
        = admission_loop B first (Some a) (Suc i) (admission_step B s a) as"
      by (intro admission_loop_step) auto
    then show ?thesis
      using True Cons.IH [of a "Suc i" "admission_step B s a"] admission_check_iff [OF assms, of first "Some p" a]
        room_Cons [of "as_receipt s" a as]
      by (auto simp: record_accepted_def admission_step_def intro: less_trans simp del: admission_loop.simps)
  qed
qed

lemma admission_loop_start_iff:
  assumes "blake3_streaming B" "as \<noteq> []" "first = as ! 0"
  shows "admission_loop B first None i s as = Inr s' \<longleftrightarrow>
    list_all (record_accepted B first) as \<and> sorted_wrt (<) (map wa_admission_id as)
    \<and> room (as_receipt s) as \<and> s' = foldl (admission_step B) s as"
proof -
  obtain a as' where as: "as = a # as'" using assms(2) by (cases as) auto
  show ?thesis
  proof (cases "fst (admission_check B first None a) = LAPLACE_WORLD_ADMISSION_OK \<and> room (as_receipt s) [a]")
    case False
    then obtain st f r where "admission_loop B first None i s (a # as') = Inl (st, i, f, r)"
      by (rule admission_loop_stops) blast
    then show ?thesis
      using False admission_check_iff [OF assms(1), of first None a] room_Cons [of "as_receipt s" a as'] as assms(3)
      by (auto simp: record_accepted_def)
  next
    case True
    then have "admission_loop B first None i s (a # as')
        = admission_loop B first (Some a) (Suc i) (admission_step B s a) as'"
      by (intro admission_loop_step) auto
    then show ?thesis
      using True admission_loop_Inr_iff [OF assms(1), of first a "Suc i" "admission_step B s a" as' s']
        admission_check_iff [OF assms(1), of first None a] room_Cons [of "as_receipt s" a as'] as assms(3)
      by (auto simp: record_accepted_def admission_step_def simp del: admission_loop.simps)
  qed
qed

text \<open>A rejected batch stops at the first record after an accepted prefix.\<close>

lemma admission_loop_Inl:
  "admission_loop B first previous i s as = Inl (st, j, f, r) \<Longrightarrow>
     st \<noteq> LAPLACE_WORLD_ADMISSION_OK
     \<and> (\<exists>k < length as. j = i + k \<and> (\<exists>s'. admission_loop B first previous i s (take k as) = Inr s')
         \<and> admission_loop B first previous i s (take (Suc k) as) = Inl (st, j, f, r))"
proof (induction as arbitrary: previous i s)
  case (Cons a as)
  show ?case
  proof (cases "fst (admission_check B first previous a) = LAPLACE_WORLD_ADMISSION_OK \<and> room (as_receipt s) [a]")
    case True
    then have step: "admission_loop B first previous i s (a # as')
        = admission_loop B first (Some a) (Suc i) (admission_step B s a) as'" for as'
      by (intro admission_loop_step) auto
    from Cons.IH [of "Some a" "Suc i" "admission_step B s a"] Cons.prems
    obtain k s' where "st \<noteq> LAPLACE_WORLD_ADMISSION_OK" "k < length as" "j = Suc i + k"
      "admission_loop B first (Some a) (Suc i) (admission_step B s a) (take k as) = Inr s'"
      "admission_loop B first (Some a) (Suc i) (admission_step B s a) (take (Suc k) as) = Inl (st, j, f, r)"
      unfolding step by blast
    then show ?thesis
      by (intro conjI exI [of _ "Suc k"]) (auto simp del: admission_loop.simps simp: step)
  next
    case False
    then obtain st' f' r' where stop: "st' \<noteq> LAPLACE_WORLD_ADMISSION_OK"
      "\<And>as'. admission_loop B first previous i s (a # as') = Inl (st', i, f', r')"
      by (rule admission_loop_stops) blast
    then show ?thesis
      using Cons.prems by (intro conjI exI [of _ 0]) (auto simp del: admission_loop.simps(2))
  qed
qed simp

lemma fold_totals:
  "room r as \<Longrightarrow>
     list_all (\<lambda>(f, g). unat (f (foldl (\<lambda>r a. advance_totals a r) r as)) = unat (f r) + sum_list (map (unat \<circ> g) as))
       total_fields"
proof (induction as arbitrary: r)
  case Nil
  show ?case by (simp add: total_fields_def)
next
  case (Cons a as)
  then have r: "room r [a]" "room (advance_totals a r) as" using room_Cons by blast+
  have "list_all (\<lambda>(f, g). unat (f (advance_totals a r)) = unat (f r) + unat (g a)) total_fields"
    using r(1) by (simp add: room_def total_fields_def advance_totals_def unat_word_ariths)
  with Cons.IH [OF r(2)] show ?case by (simp add: total_fields_def)
qed

lemma admission_steps:
  "foldl (admission_step B) s as =
     \<lparr>as_input_hasher = updates B (as_input_hasher s)
        (concat (map (\<lambda>a. bytes (wa_admission_id a) # admission_chunks a) as)),
      as_output_hasher = updates B (as_output_hasher s)
        (concat (map (\<lambda>a. [bytes (wa_admission_id a), bytes (wa_readback_fingerprint a)]) as)),
      as_receipt = foldl (\<lambda>r a. advance_totals a r) (as_receipt s) as\<rparr>"
  by (induction as arbitrary: s) (simp_all add: admission_step_def hash_admission_def hashing)

definition admission_batch_preimage :: "laplace_world_admission_record list \<Rightarrow> byte list" where
  "admission_batch_preimage as = LAPLACE_WORLD_ADMISSION_INPUT_DOMAIN @ u64_le (of_nat (length as))
     @ concat (map (\<lambda>a. bytes (wa_admission_id a) @ admission_bytes a) as)"

lemma admission_batch_preimage_inject:
  "admission_batch_preimage as = admission_batch_preimage bs \<longleftrightarrow> as = bs"
  using ac.concat_enc_inject_nonempty [of as bs] by (auto simp: admission_batch_preimage_def layout)

definition batch_closed :: "'h blake3_api \<Rightarrow> laplace_world_admission_record list \<Rightarrow> bool" where
  "batch_closed B as \<longleftrightarrow> as \<noteq> [] \<and> list_all (record_accepted B (as ! 0)) as
     \<and> sorted_wrt (<) (map wa_admission_id as) \<and> room admission_receipt_zero as"

lemma room_version [simp]: "room (r\<lparr>wr_version := v\<rparr>) as = room r as"
  by (simp add: room_def total_fields_def)

lemma close_batch_present:
  "\<exists>st r e. laplace_world_admission_close_batch B as (Some r0) (Some e0) = (st, Some r, Some e)"
  by (simp add: laplace_world_admission_close_batch_def Let_def split: sum.splits prod.splits)

section \<open>Properties\<close>

text \<open>C25: a batch is closed exactly when it is not empty, every admission is closed in itself and
  carries its own identity, all share the boundary of the first, the identities increase strictly
  and none of the five totals leaves 64 bits.  The receipt then has the exact totals, as many claims
  as testimonies, and fingerprints bytes from which the whole batch can be read back.  Otherwise
  the error names the first record with which the batch is no longer closed.\<close>

theorem admission_batch_closed_iff:
  assumes B: "blake3_streaming B" and len: "length as < 2 ^ 64"
    and run: "laplace_world_admission_close_batch B (Span as) (Some r0) (Some e0) = (status, Some r, Some e)"
  shows "(status = LAPLACE_WORLD_ADMISSION_OK \<longleftrightarrow> batch_closed B as)
    \<and> (status = LAPLACE_WORLD_ADMISSION_OK \<longrightarrow>
        unat (wr_admission_count r) = length as
        \<and> list_all (\<lambda>(f, g). unat (f r) = sum_list (map (unat \<circ> g) as)) total_fields
        \<and> wr_claim_count r = wr_testimony_count r
        \<and> wr_selected_boundary_fingerprint r = wa_selected_boundary_fingerprint (as ! 0)
        \<and> wr_input_fingerprint r = blake3 B (admission_batch_preimage as)
        \<and> (admission_batch_preimage as = admission_batch_preimage as' \<longleftrightarrow> as = as'))
    \<and> (status \<noteq> LAPLACE_WORLD_ADMISSION_OK \<and> as \<noteq> [] \<longrightarrow>
        (\<exists>i < length as. unat (we_admission_index e) = i
          \<and> (i = 0 \<or> batch_closed B (take i as)) \<and> \<not> batch_closed B (take (Suc i) as)))"
proof (cases "as = []")
  case True
  with run show ?thesis
    by (auto simp: laplace_world_admission_close_batch_def batch_closed_def)
next
  case False
  define n where "n = u64_le (of_nat (length as))"
  let ?r0 = "admission_receipt_zero\<lparr>wr_version := LAPLACE_WORLD_ADMISSION_VERSION\<rparr>"
  define s0 where "s0 = \<lparr>as_input_hasher = updates B (hasher_init B) [LAPLACE_WORLD_ADMISSION_INPUT_DOMAIN, n],
      as_output_hasher = updates B (hasher_init B) [LAPLACE_WORLD_ADMISSION_OUTPUT_DOMAIN, n],
      as_receipt = ?r0\<rparr>"
  have r0: "as_receipt s0 = ?r0" by (simp add: s0_def)
  have prefix: "admission_loop B (as ! 0) None 0 s0 (take k as) = Inr s' \<longleftrightarrow>
      batch_closed B (take k as) \<and> s' = foldl (admission_step B) s0 (take k as)" if "0 < k" for k s'
    using that False by (subst admission_loop_start_iff [OF B]) (auto simp: batch_closed_def r0)
  note whole = prefix [of "length as", simplified]
  show ?thesis
  proof (cases "admission_loop B (as ! 0) None 0 s0 as")
    case (Inl x)
    obtain st j f q where x: "x = (st, j, f, q)" by (cases x)
    obtain k where k: "st \<noteq> LAPLACE_WORLD_ADMISSION_OK" "k < length as" "j = k"
      "\<exists>s'. admission_loop B (as ! 0) None 0 s0 (take k as) = Inr s'"
      "admission_loop B (as ! 0) None 0 s0 (take (Suc k) as) = Inl (st, j, f, q)"
      using admission_loop_Inl [OF Inl [unfolded x]] by auto
    have "\<not> batch_closed B as" using Inl whole [of "foldl (admission_step B) s0 as"] False by simp
    moreover have "status = st" "we_admission_index e = of_nat k"
      using run Inl False k(3)
      by (simp_all add: laplace_world_admission_close_batch_def Let_def s0_def [symmetric] n_def [symmetric] x)
         (auto)
    moreover have "unat (of_nat k :: u64) = k"
      using k(2) len by (simp add: unat_of_nat take_bit_nat_eq_self)
    moreover have "k = 0 \<or> batch_closed B (take k as)" using k(4) prefix [of k] by auto
    moreover have "\<not> batch_closed B (take (Suc k) as)" using k(5) prefix [of "Suc k"] by auto
    ultimately show ?thesis using k(1,2) by auto
  next
    case (Inr s)
    then have acc: "batch_closed B as" and s: "s = foldl (admission_step B) s0 as" using whole False by simp_all
    have totals: "list_all (\<lambda>(f, g). unat (f (as_receipt s)) = sum_list (map (unat \<circ> g) as)) total_fields"
      using fold_totals [of ?r0 as] acc
      by (simp add: s admission_steps r0 batch_closed_def) (simp add: total_fields_def admission_receipt_zero_def)
    have "map wa_profile_claim_count as = map wa_testimony_count as"
      using acc by (auto simp: batch_closed_def record_accepted_def admission_closed_def list_all_iff)
    then have same: "map (unat \<circ> wa_profile_claim_count) as = map (unat \<circ> wa_testimony_count) as"
      by (metis map_map)
    have claims: "wr_claim_count (as_receipt s) = wr_testimony_count (as_receipt s)"
      using totals unfolding total_fields_def word_unat_eq_iff by (simp add: arg_cong [OF same, of sum_list] del: map_eq_conv)
    have inp: "hasher_finalize B (as_input_hasher s) = blake3 B (admission_batch_preimage as)"
      using finalize_updates [OF B]
      by (simp add: s admission_steps s0_def n_def admission_batch_preimage_def admission_bytes_def concat_map_concat comp_def)
    have cnt: "unat (of_nat (length as) :: u64) = length as"
      using len by (simp add: unat_of_nat take_bit_nat_eq_self)
    have res: "status = LAPLACE_WORLD_ADMISSION_OK" "wr_admission_count r = of_nat (length as)"
      "wr_input_fingerprint r = hasher_finalize B (as_input_hasher s)"
      "wr_selected_boundary_fingerprint r = wa_selected_boundary_fingerprint (as ! 0)"
      "list_all (\<lambda>(f, g). f r = f (as_receipt s)) total_fields"
      using run Inr False
      by (simp_all add: laplace_world_admission_close_batch_def Let_def s0_def [symmetric] n_def [symmetric])
         (auto simp: total_fields_def)
    then show ?thesis
      using acc totals claims inp cnt admission_batch_preimage_inject [of as as']
      by (auto simp: total_fields_def)
  qed
qed

text \<open>What an admission means, without the receipts of its physical execution.\<close>

definition meaning :: "laplace_world_admission_record \<Rightarrow> laplace_world_admission_record" where
  "meaning a =
     a\<lparr>wa_admission_id := 0, wa_composition_working_set_receipt_id := 0,
       wa_composition_presence_receipt_id := 0, wa_composition_producer_receipt_id := 0,
       wa_composition_stream_receipt_id := 0\<rparr>"

definition semantic_preimage :: "laplace_world_admission_record \<Rightarrow> byte list" where
  "semantic_preimage a = world_admission_semantic_projection_domain @ concat (semantic_chunks a)
     @ u32_le LAPLACE_WORLD_ADMISSION_VERSION @ u32_le 0"

lemma semantic_preimage_inject: "semantic_preimage a = semantic_preimage b \<longleftrightarrow> meaning a = meaning b"
  by (cases a; cases b) (auto simp: semantic_preimage_def semantic_chunks_def count_chunks_def meaning_def layout)

definition projected :: "'h blake3_api \<Rightarrow> laplace_world_admission_record \<Rightarrow> laplace_world_admission_semantic_projection" where
  "projected B a = (project_fields a (projection_zero\<lparr>wp_version := LAPLACE_WORLD_ADMISSION_VERSION\<rparr>))
     \<lparr>wp_semantic_fingerprint := blake3 B (semantic_preimage a)\<rparr>"

lemma project_semantics_value:
  assumes "blake3_streaming B"
  shows "laplace_world_admission_project_semantics B (Some a) (Some p0) =
     (if admission_closed a
      then if wa_admission_id a = admission_identity B a
           then (LAPLACE_WORLD_ADMISSION_OK, Some (projected B a))
           else (LAPLACE_WORLD_ADMISSION_IDENTITY_MISMATCH,
                 Some (projection_zero\<lparr>wp_version := LAPLACE_WORLD_ADMISSION_VERSION,
                   wp_status := LAPLACE_WORLD_ADMISSION_IDENTITY_MISMATCH\<rparr>))
      else (fst (validate_admission a WORLD_ADMISSION_FIELD_NONE),
            Some (projection_zero\<lparr>wp_version := LAPLACE_WORLD_ADMISSION_VERSION,
              wp_status := fst (validate_admission a WORLD_ADMISSION_FIELD_NONE)\<rparr>)))"
proof (cases "admission_closed a")
  case True
  have "wp_version (project_fields a p) = wp_version p" for p by (simp add: project_fields_def)
  then show ?thesis
    using True validate_admission_iff(2) [OF True] identify_admission(1) [OF assms True] finalize_updates [OF assms]
    by (simp add: laplace_world_admission_project_semantics_def Let_def projected_def hash_semantic_projection_def
        hashing semantic_preimage_def) (simp add: project_fields_def)
next
  case False
  then show ?thesis
    using validate_admission_iff(1) [of a WORLD_ADMISSION_FIELD_NONE]
    by (auto simp: laplace_world_admission_project_semantics_def Let_def split: prod.splits)
qed

text \<open>C26: the projection is the meaning of an admission.  It exists exactly for a closed admission
  that carries its own identity.  Two admissions have the same projection exactly when they agree in
  everything but the identity and the four receipts of the physical composition; in particular an
  admission that was composed by another physical plan has another identity preimage but the same
  projection and the same fingerprint.  The fingerprint hashes bytes that determine the meaning.\<close>

theorem projection_is_meaning:
  assumes "blake3_streaming B"
  shows "(fst (laplace_world_admission_project_semantics B (Some a) (Some p0)) = LAPLACE_WORLD_ADMISSION_OK
       \<longleftrightarrow> admission_closed a \<and> wa_admission_id a = admission_identity B a)
    \<and> (laplace_world_admission_project_semantics B (Some a) (Some p0) = (LAPLACE_WORLD_ADMISSION_OK, Some p)
        \<and> laplace_world_admission_project_semantics B (Some b) (Some p0) = (LAPLACE_WORLD_ADMISSION_OK, Some q) \<longrightarrow>
        (p = q \<longleftrightarrow> meaning a = meaning b)
        \<and> (admission_bytes a = admission_bytes b \<longleftrightarrow> a = b)
        \<and> wp_semantic_fingerprint p = blake3 B (semantic_preimage a)
        \<and> (semantic_preimage a = semantic_preimage b \<longleftrightarrow> meaning a = meaning b))"
proof -
  have "projected B a = projected B b \<longleftrightarrow> meaning a = meaning b"
  proof
    assume "projected B a = projected B b"
    then show "meaning a = meaning b"
      by (cases a; cases b) (simp add: projected_def project_fields_def meaning_def projection_zero_def)
  next
    assume m: "meaning a = meaning b"
    then have "semantic_preimage a = semantic_preimage b" by (simp add: semantic_preimage_inject)
    moreover have "project_fields a x = project_fields b x" for x
      using m by (cases a; cases b) (simp add: project_fields_def meaning_def)
    ultimately show "projected B a = projected B b" by (simp add: projected_def)
  qed
  moreover have "admission_bytes a = admission_bytes b \<longleftrightarrow> a = b"
    if "wa_admission_id a = admission_identity B a" "wa_admission_id b = admission_identity B b"
  proof
    assume eq: "admission_bytes a = admission_bytes b"
    then have "wa_admission_id a = wa_admission_id b" using that by (simp add: admission_identity_def)
    moreover have "a\<lparr>wa_admission_id := 0\<rparr> = b\<lparr>wa_admission_id := 0\<rparr>"
      using eq by (simp add: admission_bytes_inject)
    ultimately show "a = b" by (cases a; cases b) simp
  qed simp
  moreover have "wp_semantic_fingerprint (projected B a) = blake3 B (semantic_preimage a)"
    by (simp add: projected_def)
  ultimately show ?thesis
    using semantic_preimage_inject [of a b] validate_admission_iff(1) [of a WORLD_ADMISSION_FIELD_NONE]
      validate_admission_iff(1) [of b WORLD_ADMISSION_FIELD_NONE]
    unfolding project_semantics_value [OF assms] by (auto split: if_splits)
qed

text \<open>A closed admission, composed by the physical plan \<open>n\<close>.\<close>

definition sample_admission_body :: "byte \<Rightarrow> laplace_world_admission_record" where
  "sample_admission_body n =
     \<lparr>wa_admission_id = 0, wa_source_profile_id = sample_digest [1],
      wa_selected_boundary_fingerprint = sample_digest [2], wa_source_profile_receipt_id = sample_digest [3],
      wa_recipe_receipt_id = sample_digest [4], wa_composition_working_set_receipt_id = sample_digest [n],
      wa_composition_presence_receipt_id = sample_digest [6], wa_composition_producer_receipt_id = sample_digest [7],
      wa_composition_stream_receipt_id = sample_digest [8], wa_evidence_lineage_receipt_id = sample_digest [9],
      wa_evidence_testimony_receipt_id = sample_digest [10], wa_readback_fingerprint = sample_digest [11],
      wa_profile_occurrence_count = 7, wa_composition_occurrence_count = 7, wa_profile_claim_count = 3,
      wa_evidence_node_count = 2, wa_testimony_count = 3, wa_profile_bound_testimony_count = 3,
      wa_recipe_bound_testimony_count = 3, wa_lineage_bound_testimony_count = 3,
      wa_closure_subject_count = 5, wa_closed_subject_count = 5, wa_reconstruction_class = 1, wa_flags = 0\<rparr>"

definition sample_world_admission :: "byte \<Rightarrow> laplace_world_admission_record" where
  "sample_world_admission n =
     (sample_admission_body n)\<lparr>wa_admission_id := admission_identity sample_blake3 (sample_admission_body n)\<rparr>"

lemma sample_world_admission_ok:
  "admission_closed (sample_world_admission n)"
  "wa_admission_id (sample_world_admission n) = admission_identity sample_blake3 (sample_world_admission n)"
proof -
  have "admission_bytes (sample_world_admission n) = admission_bytes (sample_admission_body n)"
    by (simp add: admission_bytes_inject sample_world_admission_def)
  then show "wa_admission_id (sample_world_admission n) = admission_identity sample_blake3 (sample_world_admission n)"
    by (simp add: admission_identity_def) (simp add: sample_world_admission_def admission_identity_def)
qed (simp add: admission_closed_def sample_world_admission_def sample_admission_body_def sample_digest_nonzero
      sample_digest_nonzero [THEN not_sym])

theorem admission_batch_closed_iff_witness:
  "\<exists>r e. laplace_world_admission_close_batch sample_blake3 (Span [sample_world_admission 5])
        (Some admission_receipt_zero) (Some \<lparr>we_admission_index = 0, we_field = WORLD_ADMISSION_FIELD_NONE, we_reserved = 0\<rparr>)
      = (LAPLACE_WORLD_ADMISSION_OK, Some r, Some e) \<and> unat (wr_claim_count r) = 3 \<and> unat (wr_occurrence_count r) = 7"
proof -
  let ?e = "\<lparr>we_admission_index = 0, we_field = WORLD_ADMISSION_FIELD_NONE, we_reserved = 0\<rparr>"
  have acc: "batch_closed sample_blake3 [sample_world_admission 5]"
    using sample_world_admission_ok
    by (simp add: batch_closed_def record_accepted_def room_def total_fields_def)
       (simp add: sample_world_admission_def sample_admission_body_def admission_receipt_zero_def)
  obtain st r e where run: "laplace_world_admission_close_batch sample_blake3 (Span [sample_world_admission 5])
      (Some admission_receipt_zero) (Some ?e) = (st, Some r, Some e)"
    using close_batch_present by blast
  have "st = LAPLACE_WORLD_ADMISSION_OK"
    using admission_batch_closed_iff [OF sample_blake3_streaming _ run] acc by simp
  then show ?thesis
    using admission_batch_closed_iff [OF sample_blake3_streaming _ run] run
    by (auto simp: total_fields_def sample_world_admission_def sample_admission_body_def)
qed

theorem projection_is_meaning_witness:
  "\<exists>p. laplace_world_admission_project_semantics sample_blake3 (Some (sample_world_admission 5)) (Some projection_zero)
        = (LAPLACE_WORLD_ADMISSION_OK, Some p)
      \<and> laplace_world_admission_project_semantics sample_blake3 (Some (sample_world_admission 12)) (Some projection_zero)
        = (LAPLACE_WORLD_ADMISSION_OK, Some p)"
proof -
  have m: "meaning (sample_world_admission 5) = meaning (sample_world_admission 12)"
    by (simp add: meaning_def sample_world_admission_def sample_admission_body_def)
  obtain p q where pq: "laplace_world_admission_project_semantics sample_blake3 (Some (sample_world_admission 5)) (Some projection_zero)
        = (LAPLACE_WORLD_ADMISSION_OK, Some p)"
    "laplace_world_admission_project_semantics sample_blake3 (Some (sample_world_admission 12)) (Some projection_zero)
        = (LAPLACE_WORLD_ADMISSION_OK, Some q)"
    using sample_world_admission_ok by (simp add: project_semantics_value)
  then show ?thesis using m projection_is_meaning [OF sample_blake3_streaming] by blast
qed

end
