(* ===== verification/Byte_Codec.thy ===== *)
theory Byte_Codec
  imports Hashing
begin

text \<open>
  Reading and writing words and identities in byte buffers, as \<open>perfcache.c\<close> and
  \<open>persistence.c\<close> do it with the same static helpers: little-endian loads and stores and
  \<open>memcpy\<close> at an offset.  The lemmas show that loads invert stores in both directions and that
  writes that follow each other without a gap produce the concatenation of what they write.
\<close>

section \<open>Bytes in memory\<close>

definition read_u32_le :: "byte list \<Rightarrow> u32" where
  "read_u32_le source =
     ucast (source ! 0) OR push_bit 8 (ucast (source ! 1)) OR
     push_bit 16 (ucast (source ! 2)) OR push_bit 24 (ucast (source ! 3))"

definition read_u64_le :: "byte list \<Rightarrow> u64" where
  "read_u64_le source =
     foldl (\<lambda>v index. v OR push_bit (index * 8) (ucast (source ! index))) 0 [0..<8]"

text \<open>\<open>memcpy(destination + offset, source, length source)\<close>.\<close>

definition memcpy_at :: "nat \<Rightarrow> byte list \<Rightarrow> byte list \<Rightarrow> byte list" where
  "memcpy_at offset source destination =
     take offset destination @ source @ drop (offset + length source) destination"

definition memcpy_all :: "(nat \<times> byte list) list \<Rightarrow> byte list \<Rightarrow> byte list" where
  "memcpy_all writes destination = foldl (\<lambda>buffer (offset, source). memcpy_at offset source buffer)
     destination writes"

definition id128_at :: "byte list \<Rightarrow> nat \<Rightarrow> laplace_id128" where
  "id128_at artifact offset = barray_of (take 16 (drop offset artifact))"

definition digest256_at :: "byte list \<Rightarrow> nat \<Rightarrow> laplace_digest256" where
  "digest256_at artifact offset = barray_of (take 32 (drop offset artifact))"

section \<open>The byte codec\<close>

lemma byte_position:
  "8 * k \<le> n \<Longrightarrow> n < 8 * Suc k \<Longrightarrow> n div 8 = k \<and> n mod 8 = n - 8 * (k::nat)"
  by (auto simp: le_iff_add)

lemma bit_ucast_byte: "bit (ucast (b :: byte) :: 'a::len word) m \<longleftrightarrow> m < LENGTH('a) \<and> m < 8 \<and> bit b m"
  by (auto simp: bit_ucast_iff dest: bit_imp_le_length)

lemma bit_fold_bytes:
  fixes bs :: "byte list"
  shows "bit (foldl (\<lambda>v index. v OR push_bit (index * 8) (ucast (bs ! index))) (0 :: 'a::len word)
            [0..<k]) n
     \<longleftrightarrow> n < 8 * k \<and> n < LENGTH('a) \<and> bit (bs ! (n div 8)) (n mod 8)"
proof (induction k)
  case (Suc k)
  consider "n < 8 * k" | "8 * k \<le> n" "n < 8 * Suc k" | "8 * Suc k \<le> n" by linarith
  then show ?case
  proof cases
    case 1
    with Suc show ?thesis by (simp add: bit_or_iff bit_push_bit_iff)
  next
    case 2
    have "n - k * 8 < 8" using 2 by (simp add: less_diff_conv2 mult.commute)
    with 2 Suc byte_position [OF 2] show ?thesis
      by (auto simp: bit_or_iff bit_push_bit_iff bit_ucast_byte mult.commute)
  next
    case 3
    then have "\<not> n - k * 8 < 8" by (simp add: less_diff_conv2 mult.commute not_less le_diff_conv2)
    with 3 Suc show ?thesis
      by (simp add: bit_or_iff bit_push_bit_iff bit_ucast_byte)
  qed
qed simp

lemma bit_read_u64_le:
  "bit (read_u64_le bs) n \<longleftrightarrow> n < 64 \<and> bit (bs ! (n div 8)) (n mod 8)"
  by (auto simp: read_u64_le_def bit_fold_bytes)

lemma read_u32_le_fold:
  "read_u32_le bs = foldl (\<lambda>v index. v OR push_bit (index * 8) (ucast (bs ! index))) 0 [0..<4]"
  by (simp add: read_u32_le_def upt_rec or.assoc numeral_2_eq_2 numeral_3_eq_3)

lemma bit_read_u32_le:
  "bit (read_u32_le bs) n \<longleftrightarrow> n < 32 \<and> bit (bs ! (n div 8)) (n mod 8)"
  by (auto simp: read_u32_le_fold bit_fold_bytes)

lemma read_u32_le_u32_le [simp]: "read_u32_le (u32_le v @ r) = v"
proof (rule bit_eqI)
  fix n
  show "bit (read_u32_le (u32_le v @ r)) n \<longleftrightarrow> bit v n"
    using bit_le_bytes [of n 4 v]
    by (cases "n < 32") (auto simp: bit_read_u32_le u32_le_def nth_append dest: bit_imp_le_length)
qed

lemma read_u64_le_u64_le [simp]: "read_u64_le (u64_le v @ r) = v"
proof (rule bit_eqI)
  fix n
  show "bit (read_u64_le (u64_le v @ r)) n \<longleftrightarrow> bit v n"
    using bit_le_bytes [of n 8 v]
    by (cases "n < 64") (auto simp: bit_read_u64_le u64_le_def nth_append dest: bit_imp_le_length)
qed

lemma u32_le_read: "4 \<le> length bs \<Longrightarrow> u32_le (read_u32_le bs) = take 4 bs"
proof (rule nth_equalityI)
  fix i
  assume "4 \<le> length bs" "i < length (u32_le (read_u32_le bs))"
  then show "u32_le (read_u32_le bs) ! i = take 4 bs ! i"
    by (intro bit_word_eqI)
      (auto simp: u32_le_def le_bytes_def bit_ucast_iff bit_drop_bit_eq bit_read_u32_le)
qed simp

lemma u64_le_read: "8 \<le> length bs \<Longrightarrow> u64_le (read_u64_le bs) = take 8 bs"
proof (rule nth_equalityI)
  fix i
  assume "8 \<le> length bs" "i < length (u64_le (read_u64_le bs))"
  then show "u64_le (read_u64_le bs) ! i = take 8 bs ! i"
    by (intro bit_word_eqI)
      (auto simp: u64_le_def le_bytes_def bit_ucast_iff bit_drop_bit_eq bit_read_u64_le)
qed simp

lemma length_memcpy_at [simp]:
  "offset + length src \<le> length dst \<Longrightarrow> length (memcpy_at offset src dst) = length dst"
  by (simp add: memcpy_at_def)

lemma memcpy_all_simps [simp]:
  "memcpy_all [] dst = dst"
  "memcpy_all ((offset, src) # writes) dst = memcpy_all writes (memcpy_at offset src dst)"
  by (simp_all add: memcpy_all_def)

text \<open>Writes that follow each other without a gap, over a zeroed stretch.\<close>

fun gapless :: "nat \<Rightarrow> (nat \<times> byte list) list \<Rightarrow> bool" where
  "gapless offset [] = True"
| "gapless offset ((o', src) # writes) \<longleftrightarrow>
     o' = offset \<and> gapless (offset + length src) writes"

lemma memcpy_all_contiguous:
  assumes "gapless (length p) writes" "length (concat (map snd writes)) \<le> n"
  shows "memcpy_all writes (p @ replicate n 0 @ r)
         = p @ concat (map snd writes) @ replicate (n - length (concat (map snd writes))) 0 @ r"
  using assms
proof (induction writes arbitrary: p n)
  case (Cons w writes)
  obtain src where w: "w = (length p, src)"
    using Cons.prems(1) by (cases w) auto
  have "memcpy_at (length p) src (p @ replicate n 0 @ r)
      = (p @ src) @ replicate (n - length src) 0 @ r"
    using Cons.prems(2) w by (simp add: memcpy_at_def)
  moreover have "gapless (length (p @ src)) writes"
    "length (concat (map snd writes)) \<le> n - length src"
    using Cons.prems w by auto
  ultimately show ?case
    using Cons.IH [of "p @ src" "n - length src"] w by (simp add: diff_diff_left)
qed simp

lemma read_u32_le_append [simp]: "4 \<le> length bs \<Longrightarrow> read_u32_le (bs @ r) = read_u32_le bs"
  by (cases "bs = []") (simp_all add: read_u32_le_def nth_append)

section \<open>Two-byte words and running offsets\<close>

definition store_u16 :: "u16 \<Rightarrow> byte list" where
  "store_u16 v = le_bytes 2 v"

definition read_u16_le :: "byte list \<Rightarrow> u16" where
  "read_u16_le source = ucast (source ! 0) OR push_bit 8 (ucast (source ! 1))"

text \<open>Stores at a running offset: \<open>store(value, payload + offset); offset += width\<close>.\<close>

fun store_fields :: "nat \<Rightarrow> byte list list \<Rightarrow> byte list \<Rightarrow> byte list" where
  "store_fields offset [] payload = payload"
| "store_fields offset (chunk # chunks) payload =
     store_fields (offset + length chunk) chunks (memcpy_at offset chunk payload)"

lemma length_store_u16 [simp]: "length (store_u16 v) = 2"
  by (simp add: store_u16_def)

lemma bit_read_u16_le:
  "bit (read_u16_le bs) n \<longleftrightarrow> n < 16 \<and> bit (bs ! (n div 8)) (n mod 8)"
proof -
  have "read_u16_le bs
      = foldl (\<lambda>v index. v OR push_bit (index * 8) (ucast (bs ! index))) 0 [0..<2]"
    by (simp add: read_u16_le_def upt_rec numeral_2_eq_2)
  then show ?thesis by (auto simp: bit_fold_bytes)
qed

lemma read_u16_le_store [simp]: "read_u16_le (store_u16 v @ r) = v"
proof (rule bit_eqI)
  fix n
  show "bit (read_u16_le (store_u16 v @ r)) n \<longleftrightarrow> bit v n"
    using bit_le_bytes [of n 2 v]
    by (cases "n < 16") (auto simp: bit_read_u16_le store_u16_def nth_append dest: bit_imp_le_length)
qed

lemma store_u16_read: "2 \<le> length bs \<Longrightarrow> store_u16 (read_u16_le bs) = take 2 bs"
proof (rule nth_equalityI)
  fix i
  assume "2 \<le> length bs" "i < length (store_u16 (read_u16_le bs))"
  then show "store_u16 (read_u16_le bs) ! i = take 2 bs ! i"
    by (intro bit_word_eqI)
      (auto simp: store_u16_def le_bytes_def bit_ucast_iff bit_drop_bit_eq bit_read_u16_le)
qed simp

text \<open>The same without a rest, for the last chunk of a layout.\<close>

lemma read_words_exact [simp]:
  "read_u16_le (store_u16 v16) = v16" "read_u32_le (u32_le v32) = v32" "read_u64_le (u64_le v64) = v64"
  using read_u16_le_store [of v16 "[]"] read_u32_le_u32_le [of v32 "[]"]
    read_u64_le_u64_le [of v64 "[]"] by simp_all

lemma store_fields_fill:
  assumes "length p = offset"
  shows "store_fields offset chunks (p @ replicate (length (concat chunks)) 0 @ r)
       = p @ concat chunks @ r"
  using assms
proof (induction chunks arbitrary: p offset)
  case (Cons f chunks)
  have "memcpy_at offset f (p @ replicate (length (concat (f # chunks))) 0 @ r)
      = (p @ f) @ replicate (length (concat chunks)) 0 @ r"
    using Cons.prems by (simp add: memcpy_at_def replicate_add)
  with Cons.IH [of "p @ f" "offset + length f"] Cons.prems show ?case by simp
qed simp

lemma store_fields_zeroed:
  "length (concat chunks) = n \<Longrightarrow> store_fields 0 chunks (replicate n 0) = concat chunks"
  using store_fields_fill [of "[]" 0 chunks "[]"] by simp

end
