(* ===== verification/Identity.thy ===== *)
theory Identity
  imports Hashing "HOL-Library.Option_ord"
begin

text \<open>
  Content identities (\<open>engine/src/identity.c\<close>): the byte encoding of a Unicode position, the
  identity of a codepoint, of a composition given as a list of child identities and of a
  composition given as runs, and the byte order on identities.

  A function that writes through pointers takes the pointed-to values as options (\<open>None\<close>: NULL)
  and returns them with the status, so that an untouched output is visible as such.
\<close>

datatype laplace_identity_status =
    LAPLACE_IDENTITY_OK
  | LAPLACE_IDENTITY_INVALID_ARGUMENT
  | LAPLACE_IDENTITY_POSITION_OUT_OF_RANGE
  | LAPLACE_IDENTITY_EMPTY_COMPOSITION
  | LAPLACE_IDENTITY_ZERO_RUN
  | LAPLACE_IDENTITY_COUNT_OVERFLOW
  | LAPLACE_IDENTITY_WITNESS_MISMATCH

record laplace_id_run =
  run_id :: laplace_id128
  run_count :: u64

text \<open>Values of \<open>contracts/identity.json\<close>, from which the contract header is generated.\<close>

definition LAPLACE_COMPOSITE_DOMAIN_BYTE :: byte where
  "LAPLACE_COMPOSITE_DOMAIN_BYTE = 1"

definition LAPLACE_UNICODE_POSITION_MAXIMUM :: u32 where
  "LAPLACE_UNICODE_POSITION_MAXIMUM = 1114111"

definition LAPLACE_RUN_BLOCK_IDENTITIES :: nat where
  "LAPLACE_RUN_BLOCK_IDENTITIES = 4096"

definition composite_domain :: byte where
  "composite_domain = LAPLACE_COMPOSITE_DOMAIN_BYTE"

section \<open>Unicode positions\<close>

definition position_bytes :: "u32 \<Rightarrow> byte list" where
  "position_bytes position =
     (if position \<le> 0x7f then [ucast position]
      else if position \<le> 0x7ff then
        [ucast (0xc0 OR drop_bit 6 position),
         ucast (0x80 OR (position AND 0x3f))]
      else if position \<le> 0xffff then
        [ucast (0xe0 OR drop_bit 12 position),
         ucast (0x80 OR (drop_bit 6 position AND 0x3f)),
         ucast (0x80 OR (position AND 0x3f))]
      else
        [ucast (0xf0 OR drop_bit 18 position),
         ucast (0x80 OR (drop_bit 12 position AND 0x3f)),
         ucast (0x80 OR (drop_bit 6 position AND 0x3f)),
         ucast (0x80 OR (position AND 0x3f))])"

definition laplace_unicode_position_encode ::
  "u32 \<Rightarrow> 4 barray option \<Rightarrow> u64 option \<Rightarrow>
   laplace_identity_status \<times> 4 barray option \<times> u64 option" where
  "laplace_unicode_position_encode position out_bytes out_length =
     (case (out_bytes, out_length) of
        (Some buffer, Some _) \<Rightarrow>
          if position > LAPLACE_UNICODE_POSITION_MAXIMUM
          then (LAPLACE_IDENTITY_POSITION_OUT_OF_RANGE, out_bytes, out_length)
          else let encoded = position_bytes position in
            (LAPLACE_IDENTITY_OK,
             Some (barray_of (encoded @ drop (length encoded) (bytes buffer))),
             Some (of_nat (length encoded)))
      | _ \<Rightarrow> (LAPLACE_IDENTITY_INVALID_ARGUMENT, out_bytes, out_length))"

definition laplace_identity_codepoint_witness ::
  "'h blake3_api \<Rightarrow> u32 \<Rightarrow> laplace_id128 option \<Rightarrow> laplace_digest256 option \<Rightarrow>
   laplace_identity_status \<times> laplace_id128 option \<times> laplace_digest256 option" where
  "laplace_identity_codepoint_witness B position out_id out_witness =
     (if out_id = None \<or> out_witness = None
      then (LAPLACE_IDENTITY_INVALID_ARGUMENT, out_id, out_witness)
      else case laplace_unicode_position_encode position (Some 0) (Some 0) of
        (LAPLACE_IDENTITY_OK, Some encoded, Some encoded_length) \<Rightarrow>
          let witness = hasher_finalize B (hasher_update B (hasher_init B)
                          (take (unat encoded_length) (bytes encoded))) in
          (LAPLACE_IDENTITY_OK, Some (id_of_digest witness), Some witness)
      | (status, _, _) \<Rightarrow> (status, out_id, out_witness))"

definition laplace_identity_codepoint ::
  "'h blake3_api \<Rightarrow> u32 \<Rightarrow> laplace_id128 option \<Rightarrow>
   laplace_identity_status \<times> laplace_id128 option" where
  "laplace_identity_codepoint B position out_id =
     (case laplace_identity_codepoint_witness B position out_id (Some 0) of
        (status, ident, _) \<Rightarrow> (status, ident))"

fun codepoint_batch_loop ::
  "'h blake3_api \<Rightarrow> u32 list \<Rightarrow> nat \<Rightarrow> laplace_id128 list \<Rightarrow>
   laplace_identity_status \<times> laplace_id128 list" where
  "codepoint_batch_loop B [] index out_ids = (LAPLACE_IDENTITY_OK, out_ids)"
| "codepoint_batch_loop B (position # rest) index out_ids =
     (case laplace_identity_codepoint B position (Some (out_ids ! index)) of
        (LAPLACE_IDENTITY_OK, Some ident) \<Rightarrow>
          codepoint_batch_loop B rest (Suc index) (out_ids[index := ident])
      | (status, _) \<Rightarrow> (status, out_ids))"

definition laplace_identity_codepoint_batch ::
  "'h blake3_api \<Rightarrow> u32 span \<Rightarrow> laplace_id128 list option \<Rightarrow>
   laplace_identity_status \<times> laplace_id128 list option" where
  "laplace_identity_codepoint_batch B positions out_ids =
     (if (span_null positions \<and> span_count positions \<noteq> 0) \<or>
         (out_ids = None \<and> span_count positions \<noteq> 0)
      then (LAPLACE_IDENTITY_INVALID_ARGUMENT, out_ids)
      else if span_count positions > SIZE_MAX div 4 \<or> span_count positions > SIZE_MAX div 16
      then (LAPLACE_IDENTITY_COUNT_OVERFLOW, out_ids)
      else if \<exists>p \<in> set (span_items positions). p > LAPLACE_UNICODE_POSITION_MAXIMUM
      then (LAPLACE_IDENTITY_POSITION_OUT_OF_RANGE, out_ids)
      else case out_ids of
        None \<Rightarrow> (LAPLACE_IDENTITY_OK, None)
      | Some ids \<Rightarrow>
          (case codepoint_batch_loop B (span_items positions) 0 ids of
             (status, ids') \<Rightarrow> (status, Some ids')))"

section \<open>Compositions\<close>

definition finalize_identity ::
  "'h blake3_api \<Rightarrow> 'h \<Rightarrow> laplace_digest256 option \<Rightarrow> laplace_id128 \<times> laplace_digest256 option" where
  "finalize_identity B hasher out_witness =
     (let witness = hasher_finalize B hasher in
      (id_of_digest witness, (case out_witness of None \<Rightarrow> None | Some _ \<Rightarrow> Some witness)))"

definition witness_matches_identity ::
  "laplace_id128 option \<Rightarrow> laplace_digest256 option \<Rightarrow> bool" where
  "witness_matches_identity ident witness =
     (case (ident, witness) of
        (Some i, Some w) \<Rightarrow> memcmp (bytes i) (take 16 (bytes w)) = 0
      | _ \<Rightarrow> False)"

definition laplace_identity_composite_witness ::
  "'h blake3_api \<Rightarrow> laplace_id128 span \<Rightarrow> laplace_digest256 option \<Rightarrow>
   laplace_id128 option \<Rightarrow> laplace_digest256 option \<Rightarrow>
   laplace_identity_status \<times> laplace_id128 option \<times> laplace_digest256 option" where
  "laplace_identity_composite_witness B child_ids collapsed out_id out_witness =
     (if out_id = None \<or> (span_null child_ids \<and> span_count child_ids \<noteq> 0)
      then (LAPLACE_IDENTITY_INVALID_ARGUMENT, out_id, out_witness)
      else if span_count child_ids = 0
      then (LAPLACE_IDENTITY_EMPTY_COMPOSITION, out_id, out_witness)
      else if span_count child_ids = 1 then
        if out_witness = None then (LAPLACE_IDENTITY_INVALID_ARGUMENT, out_id, out_witness)
        else if \<not> witness_matches_identity (Some (span_items child_ids ! 0)) collapsed
        then (LAPLACE_IDENTITY_WITNESS_MISMATCH, out_id, out_witness)
        else (LAPLACE_IDENTITY_OK, Some (span_items child_ids ! 0), collapsed)
      else if span_count child_ids > SIZE_MAX div 16
      then (LAPLACE_IDENTITY_COUNT_OVERFLOW, out_id, out_witness)
      else
        let hasher = updates B (hasher_init B)
              [[composite_domain], concat (map bytes (span_items child_ids))];
            (ident, witness) = finalize_identity B hasher out_witness in
        (LAPLACE_IDENTITY_OK, Some ident, witness))"

definition laplace_identity_composite ::
  "'h blake3_api \<Rightarrow> laplace_id128 span \<Rightarrow> laplace_id128 option \<Rightarrow>
   laplace_identity_status \<times> laplace_id128 option" where
  "laplace_identity_composite B child_ids out_id =
     (if out_id = None \<or> (span_null child_ids \<and> span_count child_ids \<noteq> 0)
      then (LAPLACE_IDENTITY_INVALID_ARGUMENT, out_id)
      else if span_count child_ids = 0 then (LAPLACE_IDENTITY_EMPTY_COMPOSITION, out_id)
      else if span_count child_ids = 1
      then (LAPLACE_IDENTITY_OK, Some (span_items child_ids ! 0))
      else if span_count child_ids > SIZE_MAX div 16
      then (LAPLACE_IDENTITY_COUNT_OVERFLOW, out_id)
      else case laplace_identity_composite_witness B child_ids None out_id None of
        (status, ident, _) \<Rightarrow> (status, ident))"

section \<open>Compositions given as runs\<close>

fun runs_logical_count ::
  "u64 \<Rightarrow> laplace_id_run list \<Rightarrow> laplace_identity_status + u64" where
  "runs_logical_count logical_count [] = Inr logical_count"
| "runs_logical_count logical_count (r # rs) =
     (if run_count r = 0 then Inl LAPLACE_IDENTITY_ZERO_RUN
      else case add_u64 logical_count (run_count r) of
        None \<Rightarrow> Inl LAPLACE_IDENTITY_COUNT_OVERFLOW
      | Some c \<Rightarrow> runs_logical_count c rs)"

function emit_run :: "'h blake3_api \<Rightarrow> laplace_id128 list \<Rightarrow> u64 \<Rightarrow> 'h \<Rightarrow> 'h" where
  "emit_run B block remaining hasher =
     (if remaining = 0 then hasher
      else
        let emitted = (if remaining > of_nat LAPLACE_RUN_BLOCK_IDENTITIES
                       then LAPLACE_RUN_BLOCK_IDENTITIES else unat remaining) in
        emit_run B block (remaining - of_nat emitted)
          (hasher_update B hasher (concat (map bytes (take emitted block)))))"
  by pat_completeness auto
termination
proof (relation "measure (\<lambda>(B, block, remaining, hasher). unat remaining)", goal_cases)
  case (2 B block remaining hasher emitted)
  have "0 < unat remaining"
    using 2(1) by (simp add: unat_eq_zero flip: neq0_conv)
  moreover have "0 < emitted" "emitted \<le> unat remaining"
    using 2 calculation
    by (auto simp: LAPLACE_RUN_BLOCK_IDENTITIES_def word_less_nat_alt)
  moreover have "unat (of_nat emitted :: u64) = emitted"
    using calculation(3) unsigned_less [of remaining, where 'a = nat]
    by (simp add: unat_of_nat)
  ultimately show ?case
    by (simp add: unat_sub word_le_nat_alt)
qed simp

declare emit_run.simps [simp del]

definition emit_runs :: "'h blake3_api \<Rightarrow> laplace_id_run list \<Rightarrow> 'h \<Rightarrow> 'h" where
  "emit_runs B runs hasher =
     foldl (\<lambda>h r. emit_run B (replicate LAPLACE_RUN_BLOCK_IDENTITIES (run_id r)) (run_count r) h)
       hasher runs"

definition laplace_identity_composite_runs_witness ::
  "'h blake3_api \<Rightarrow> laplace_id_run span \<Rightarrow> laplace_digest256 option \<Rightarrow> u64 option \<Rightarrow>
   laplace_id128 option \<Rightarrow> laplace_digest256 option \<Rightarrow>
   laplace_identity_status \<times> u64 option \<times> laplace_id128 option \<times> laplace_digest256 option" where
  "laplace_identity_composite_runs_witness B runs collapsed out_count out_id out_witness =
     (if out_id = None \<or> out_count = None \<or> (span_null runs \<and> span_count runs \<noteq> 0)
      then (LAPLACE_IDENTITY_INVALID_ARGUMENT, out_count, out_id, out_witness)
      else if span_count runs = 0
      then (LAPLACE_IDENTITY_EMPTY_COMPOSITION, out_count, out_id, out_witness)
      else case runs_logical_count 0 (span_items runs) of
        Inl status \<Rightarrow> (status, out_count, out_id, out_witness)
      | Inr logical_count \<Rightarrow>
          if logical_count = 1 then
            if out_witness = None
            then (LAPLACE_IDENTITY_INVALID_ARGUMENT, out_count, out_id, out_witness)
            else if \<not> witness_matches_identity (Some (run_id (span_items runs ! 0))) collapsed
            then (LAPLACE_IDENTITY_WITNESS_MISMATCH, out_count, out_id, out_witness)
            else (LAPLACE_IDENTITY_OK, Some logical_count,
                  Some (run_id (span_items runs ! 0)), collapsed)
          else
            let hasher = emit_runs B (span_items runs)
                  (hasher_update B (hasher_init B) [composite_domain]);
                (ident, witness) = finalize_identity B hasher out_witness in
            (LAPLACE_IDENTITY_OK, Some logical_count, Some ident, witness))"

definition laplace_identity_composite_runs ::
  "'h blake3_api \<Rightarrow> laplace_id_run span \<Rightarrow> u64 option \<Rightarrow> laplace_id128 option \<Rightarrow>
   laplace_identity_status \<times> u64 option \<times> laplace_id128 option" where
  "laplace_identity_composite_runs B runs out_count out_id =
     (if out_id = None \<or> out_count = None \<or> (span_null runs \<and> span_count runs \<noteq> 0)
      then (LAPLACE_IDENTITY_INVALID_ARGUMENT, out_count, out_id)
      else if span_count runs = 0
      then (LAPLACE_IDENTITY_EMPTY_COMPOSITION, out_count, out_id)
      else case runs_logical_count 0 (span_items runs) of
        Inl status \<Rightarrow> (status, out_count, out_id)
      | Inr logical_count \<Rightarrow>
          if logical_count = 1
          then (LAPLACE_IDENTITY_OK, Some logical_count, Some (run_id (span_items runs ! 0)))
          else
            case laplace_identity_composite_runs_witness B runs None out_count out_id None of
              (status, n, ident, _) \<Rightarrow> (status, n, ident))"

section \<open>Equality and order of identities\<close>

definition laplace_identity_equal :: "laplace_id128 option \<Rightarrow> laplace_id128 option \<Rightarrow> bool" where
  "laplace_identity_equal left right =
     (case (left, right) of
        (Some l, Some r) \<Rightarrow> memcmp (bytes l) (bytes r) = 0
      | _ \<Rightarrow> False)"

definition laplace_identity_compare :: "laplace_id128 option \<Rightarrow> laplace_id128 option \<Rightarrow> int" where
  "laplace_identity_compare left right =
     (case (left, right) of
        (None, None) \<Rightarrow> 0
      | (None, Some _) \<Rightarrow> -1
      | (Some _, None) \<Rightarrow> 1
      | (Some l, Some r) \<Rightarrow> memcmp (bytes l) (bytes r))"

section \<open>Positions are written as UTF-8\<close>

text \<open>
  The reference for the encoder: a reader of one UTF-8 character from the front of a sequence of
  byte values, after the table of RFC 3629 and with naturals.  The lead byte alone decides how many
  continuation bytes follow; a wrong marker, a missing byte, an overlong form and a value above
  \<open>0x10FFFF\<close> are refused.  It is the contract's \<open>scalar_equivalence\<close>
  (\<open>contracts/identity.json\<close>: byte-identical to standard UTF-8), with the surrogates kept as
  positions, as \<open>includes_surrogate_positions\<close> says.
\<close>

definition utf8_continuation :: "nat \<Rightarrow> bool" where
  "utf8_continuation b \<longleftrightarrow> 0x80 \<le> b \<and> b < 0xc0"

fun utf8_read :: "nat list \<Rightarrow> (nat \<times> nat list) option" where
  "utf8_read [] = None"
| "utf8_read (a # bs) =
     (if a < 0x80 then Some (a, bs)
      else if 0xc0 \<le> a \<and> a < 0xe0 then
        (case bs of
           b # rest \<Rightarrow>
             let v = (a - 0xc0) * 64 + (b - 0x80) in
             if utf8_continuation b \<and> 0x80 \<le> v then Some (v, rest) else None
         | _ \<Rightarrow> None)
      else if 0xe0 \<le> a \<and> a < 0xf0 then
        (case bs of
           b # c # rest \<Rightarrow>
             let v = (a - 0xe0) * 4096 + (b - 0x80) * 64 + (c - 0x80) in
             if utf8_continuation b \<and> utf8_continuation c \<and> 0x800 \<le> v then Some (v, rest) else None
         | _ \<Rightarrow> None)
      else if 0xf0 \<le> a \<and> a < 0xf8 then
        (case bs of
           b # c # d # rest \<Rightarrow>
             let v = (a - 0xf0) * 262144 + (b - 0x80) * 4096 + (c - 0x80) * 64 + (d - 0x80) in
             if utf8_continuation b \<and> utf8_continuation c \<and> utf8_continuation d \<and> 0x10000 \<le> v \<and> v \<le> 0x10ffff
             then Some (v, rest) else None
         | _ \<Rightarrow> None)
      else None)"

text \<open>The only sequence the reader takes for a value.\<close>

definition utf8_form :: "nat \<Rightarrow> nat list" where
  "utf8_form v =
     (if v < 0x80 then [v]
      else if v < 0x800 then [0xc0 + v div 64, 0x80 + v mod 64]
      else if v < 0x10000 then [0xe0 + v div 4096, 0x80 + v div 64 mod 64, 0x80 + v mod 64]
      else [0xf0 + v div 262144, 0x80 + v div 4096 mod 64, 0x80 + v div 64 mod 64, 0x80 + v mod 64])"

lemma digits3: "v div 4096 * 4096 + v div 64 mod 64 * 64 + v mod 64 = (v :: nat)"
proof -
  have "v div 64 * 64 + v mod 64 = v" "v div 64 div 64 * 64 + v div 64 mod 64 = v div 64"
    by (rule div_mult_mod_eq)+
  moreover have "v div 64 div 64 = v div 4096" by (simp flip: div_mult2_eq)
  ultimately show ?thesis by linarith
qed

lemma digits4:
  "v div 262144 * 262144 + v div 4096 mod 64 * 4096 + v div 64 mod 64 * 64 + v mod 64 = (v :: nat)"
proof -
  have "v div 4096 div 64 * 64 + v div 4096 mod 64 = v div 4096"
    by (rule div_mult_mod_eq)
  moreover have "v div 4096 div 64 = v div 262144" by (simp flip: div_mult2_eq)
  ultimately show ?thesis using digits3 [of v] by linarith
qed

lemma digits_unique:
  assumes "v = u * 64 + z" "z < (64 :: nat)"
  shows "v div 64 = u" "v mod 64 = z" "v div 4096 = u div 64" "v div 262144 = u div 4096"
proof -
  show "v div 64 = u" "v mod 64 = z" using assms by simp_all
  then show "v div 4096 = u div 64" "v div 262144 = u div 4096"
    by (simp_all flip: div_mult2_eq add: div_mult2_eq [of v 64 64, simplified] div_mult2_eq [of v 64 4096, simplified])
qed

lemma utf8_read_form:
  assumes "v \<le> 0x10ffff"
  shows "utf8_read (utf8_form v @ rest) = Some (v, rest)"
proof -
  have b: "v div 262144 < 8" "v < 0x10000 \<Longrightarrow> v div 4096 < 16" "v < 0x800 \<Longrightarrow> v div 64 < 32"
    using assms by (simp_all add: div_less_iff_less_mult)
  consider "v < 0x80" | "0x80 \<le> v" "v < 0x800" | "0x800 \<le> v" "v < 0x10000" | "0x10000 \<le> v"
    by linarith
  then show ?thesis
  proof cases
    case 2
    then show ?thesis using b(3) by (simp add: utf8_form_def utf8_continuation_def)
  next
    case 3
    then show ?thesis using b(2) by (simp add: utf8_form_def utf8_continuation_def Let_def digits3)
  next
    case 4
    then show ?thesis using assms b(1) by (simp add: utf8_form_def utf8_continuation_def Let_def digits4)
  qed (simp add: utf8_form_def)
qed

lemma utf8_continuation_split:
  assumes "utf8_continuation b"
  obtains y where "y < 64" "b = 0x80 + y"
  using assms that [of "b - 0x80"] by (simp add: utf8_continuation_def less_diff_conv2)

lemma utf8_read_unique:
  assumes "utf8_read bs = Some (v, rest)"
  shows "bs = utf8_form v @ rest"
proof (cases bs)
  case (Cons a cs)
  note r = assms [unfolded Cons utf8_read.simps]
  consider "a < 0x80" | x where "x < 32" "a = 0xc0 + x" | x where "x < 16" "a = 0xe0 + x"
    | x where "x < 8" "a = 0xf0 + x" | "\<not> a < 0x80" "a < 0xc0 \<or> 0xf8 \<le> a"
  proof -
    have "a < 0x80 \<or> a - 0xc0 < 32 \<and> a = 0xc0 + (a - 0xc0) \<or> a - 0xe0 < 16 \<and> a = 0xe0 + (a - 0xe0)
      \<or> a - 0xf0 < 8 \<and> a = 0xf0 + (a - 0xf0) \<or> \<not> a < 0x80 \<and> (a < 0xc0 \<or> 0xf8 \<le> a)"
      by linarith
    then show thesis using that by blast
  qed
  then show ?thesis
  proof cases
    case 1
    with r show ?thesis by (simp add: Cons utf8_form_def)
  next
    case (2 x)
    then obtain b where c: "cs = b # rest" "utf8_continuation b" "0x80 \<le> v" "v = x * 64 + (b - 0x80)"
      using r by (auto simp: Let_def split: list.splits if_splits)
    obtain y where "y < 64" "b = 0x80 + y" using c(2) by (rule utf8_continuation_split)
    with c 2 show ?thesis by (simp add: Cons utf8_form_def)
  next
    case (3 x)
    then obtain b c where c: "cs = b # c # rest" "utf8_continuation b" "utf8_continuation c" "0x800 \<le> v"
      "v = x * 4096 + (b - 0x80) * 64 + (c - 0x80)"
      using r by (auto simp: Let_def split: list.splits if_splits)
    obtain y where y: "y < 64" "b = 0x80 + y" using c(2) by (rule utf8_continuation_split)
    obtain z where z: "z < 64" "c = 0x80 + z" using c(3) by (rule utf8_continuation_split)
    have v: "v = (x * 64 + y) * 64 + z" using c(5) y z by simp
    have "v div 4096 = x" "v div 64 mod 64 = y" "v mod 64 = z" "v < 0x10000"
      using digits_unique [OF v z(1)] y z 3 v by simp_all
    with c(1,4) y z 3 show ?thesis by (simp add: Cons utf8_form_def)
  next
    case (4 x)
    then obtain b c d where c: "cs = b # c # d # rest" "utf8_continuation b" "utf8_continuation c"
      "utf8_continuation d" "0x10000 \<le> v"
      "v = x * 262144 + (b - 0x80) * 4096 + (c - 0x80) * 64 + (d - 0x80)"
      using r by (auto simp: Let_def split: list.splits if_splits)
    obtain y where y: "y < 64" "b = 0x80 + y" using c(2) by (rule utf8_continuation_split)
    obtain z where z: "z < 64" "c = 0x80 + z" using c(3) by (rule utf8_continuation_split)
    obtain w where w: "w < 64" "d = 0x80 + w" using c(4) by (rule utf8_continuation_split)
    have v: "v = ((x * 64 + y) * 64 + z) * 64 + w" using c(6) y z w by simp
    have "v div 262144 = x" "v div 4096 mod 64 = y" "v div 64 mod 64 = z" "v mod 64 = w"
      using digits_unique [OF v w(1)] digits_unique [OF refl z(1), of "x * 64 + y"] y z w by simp_all
    with c(1,5) y z w 4 show ?thesis by (simp add: Cons utf8_form_def)
  next
    case 5
    with r show ?thesis by (simp split: if_splits)
  qed
qed (use assms in simp)

lemma unat_marked_byte:
  assumes "unat x < 2 ^ k" "c AND mask k = 0" "unat c + 2 ^ k \<le> 256"
  shows "unat (ucast (c OR x :: u32) :: byte) = unat c + unat x"
proof -
  have "take_bit k x = x"
    using assms(1) by (simp add: word_unat_eq_iff unsigned_take_bit_eq take_bit_nat_eq_self)
  then have "c AND x = (c AND mask k) AND x" by (simp add: take_bit_eq_mask ac_simps)
  then have "c OR x = c + x" using assms(2) by (simp add: disjunctive_add_eq_or)
  moreover have "unat (c + x) = unat c + unat x"
    using assms by (subst unat_plus_simple [THEN iffD1]) (simp_all add: no_olen_add_nat)
  moreover have "unat c + unat x < 256" using assms(1,3) by linarith
  ultimately show ?thesis by (simp add: unsigned_ucast_eq take_bit_nat_eq_self)
qed

lemma unat_low_bits: "unat (w AND 0x3f :: u32) = unat w mod 64"
proof -
  have "(0x3f :: u32) = mask 6" by (simp add: mask_eq_exp_minus_1)
  then have "unat (w AND 0x3f) = take_bit 6 (unat w)"
    by (simp only: take_bit_eq_mask [symmetric] unsigned_take_bit_eq)
  then show ?thesis by (simp add: take_bit_eq_mod)
qed

lemma unat_utf8_continuation: "unat (ucast (0x80 OR (w AND 0x3f) :: u32) :: byte) = 0x80 + unat w mod 64"
  using unat_marked_byte [of "w AND 0x3f" 6 "0x80"]
  by (simp add: unat_low_bits mask_eq_exp_minus_1)

lemma map_unat_position_bytes:
  assumes "p \<le> 0x10ffff"
  shows "map unat (position_bytes p) = utf8_form (unat p)"
proof -
  have d: "unat (drop_bit 6 p) = unat p div 64" "unat (drop_bit 12 p) = unat p div 4096"
    "unat (drop_bit 18 p) = unat p div 262144"
    by (simp_all only: unat_drop_bit_eq) (simp_all add: drop_bit_eq_div)
  have le: "p \<le> 0x7f \<longleftrightarrow> unat p < 0x80" "p \<le> 0x7ff \<longleftrightarrow> unat p < 0x800"
    "p \<le> 0xffff \<longleftrightarrow> unat p < 0x10000" "unat p < 0x110000"
    using assms by (auto simp: word_le_nat_alt)
  have lead: "unat p < 0x800 \<Longrightarrow> unat (ucast (0xc0 OR drop_bit 6 p :: u32) :: byte) = 0xc0 + unat p div 64"
    "unat p < 0x10000 \<Longrightarrow> unat (ucast (0xe0 OR drop_bit 12 p :: u32) :: byte) = 0xe0 + unat p div 4096"
    "unat (ucast (0xf0 OR drop_bit 18 p :: u32) :: byte) = 0xf0 + unat p div 262144"
    "unat p < 0x80 \<Longrightarrow> unat (ucast p :: byte) = unat p"
    using unat_marked_byte [of "drop_bit 6 p" 5 "0xc0"] unat_marked_byte [of "drop_bit 12 p" 4 "0xe0"]
      unat_marked_byte [of "drop_bit 18 p" 3 "0xf0"] le(4)
    by (simp_all only: d) (simp_all add: mask_eq_exp_minus_1 unsigned_ucast_eq take_bit_nat_eq_self div_less_iff_less_mult)
  show ?thesis
    by (simp add: position_bytes_def utf8_form_def le unat_utf8_continuation d lead)
qed

lemma length_position_bytes: "1 \<le> length (position_bytes p) \<and> length (position_bytes p) \<le> 4"
  by (simp add: position_bytes_def)

lemma position_bytes_inject:
  assumes "p \<le> LAPLACE_UNICODE_POSITION_MAXIMUM" "q \<le> LAPLACE_UNICODE_POSITION_MAXIMUM"
    and "position_bytes p = position_bytes q"
  shows "p = q"
proof -
  have le: "p \<le> 0x10ffff" "q \<le> 0x10ffff" "unat p \<le> 0x10ffff" "unat q \<le> 0x10ffff"
    using assms(1,2) by (simp_all add: LAPLACE_UNICODE_POSITION_MAXIMUM_def word_le_nat_alt)
  have "utf8_form (unat p) = utf8_form (unat q)"
    using assms(3) le by (simp flip: map_unat_position_bytes)
  then have "unat p = unat q"
    using utf8_read_form [OF le(3), of "[]"] utf8_read_form [OF le(4), of "[]"] by simp
  then show ?thesis by (simp add: word_unat_eq_iff)
qed

section \<open>Codepoint identities\<close>

text \<open>The value every codepoint function computes on a position in range.\<close>

definition codepoint_digest :: "'h blake3_api \<Rightarrow> u32 \<Rightarrow> laplace_digest256" where
  "codepoint_digest B p = blake3 B (position_bytes p)"

lemma unat_encoded_length: "unat (of_nat (length (position_bytes p)) :: u64) = length (position_bytes p)"
  using length_position_bytes [of p] by (simp add: unat_of_nat)

lemma encode_in_range:
  assumes "p \<le> LAPLACE_UNICODE_POSITION_MAXIMUM"
  shows "laplace_unicode_position_encode p (Some b) (Some n) =
    (LAPLACE_IDENTITY_OK,
     Some (barray_of (position_bytes p @ drop (length (position_bytes p)) (bytes b))),
     Some (of_nat (length (position_bytes p))))"
  using assms by (simp add: laplace_unicode_position_encode_def Let_def not_less)

lemma codepoint_witness_in_range:
  assumes "p \<le> LAPLACE_UNICODE_POSITION_MAXIMUM"
  shows "laplace_identity_codepoint_witness B p (Some i) (Some w) =
    (LAPLACE_IDENTITY_OK, Some (id_of_digest (codepoint_digest B p)), Some (codepoint_digest B p))"
  using assms length_position_bytes [of p]
  by (simp add: laplace_identity_codepoint_witness_def encode_in_range Let_def
      unat_encoded_length codepoint_digest_def blake3_def min_absorb1)

lemma codepoint_in_range:
  assumes "p \<le> LAPLACE_UNICODE_POSITION_MAXIMUM"
  shows "laplace_identity_codepoint B p (Some i) =
    (LAPLACE_IDENTITY_OK, Some (id_of_digest (codepoint_digest B p)))"
  using assms by (simp add: laplace_identity_codepoint_def codepoint_witness_in_range)

lemma codepoint_batch_loop_in_range:
  assumes "\<forall>p \<in> set ps. p \<le> LAPLACE_UNICODE_POSITION_MAXIMUM" "k + length ps \<le> length ids"
  shows "codepoint_batch_loop B ps k ids =
    (LAPLACE_IDENTITY_OK,
     take k ids @ map (\<lambda>p. id_of_digest (codepoint_digest B p)) ps @ drop (k + length ps) ids)"
  using assms
proof (induction ps arbitrary: k ids)
  case (Cons p ps)
  then show ?case
    by (simp add: codepoint_in_range take_Suc_conv_app_nth)
qed simp

text \<open>C30: every Unicode position up to 0x10FFFF, surrogates included, is accepted and written as
  standard UTF-8: the independent self-delimiting reader takes exactly the written bytes off any
  continuation of the stream and returns the position, and no other bytes are read as it, so the
  encoding is the one canonical form.  The bytes of the output buffer behind the encoding are
  untouched.\<close>

theorem position_encode_roundtrip:
  assumes "p \<le> LAPLACE_UNICODE_POSITION_MAXIMUM"
  shows "\<exists>buffer len.
    laplace_unicode_position_encode p (Some b) (Some n) = (LAPLACE_IDENTITY_OK, Some buffer, Some len) \<and>
    (\<forall>bs rest. utf8_read bs = Some (unat p, rest) \<longleftrightarrow>
       bs = map unat (take (unat len) (bytes buffer)) @ rest) \<and>
    drop (unat len) (bytes buffer) = drop (unat len) (bytes b)"
proof -
  have le: "p \<le> 0x10ffff" "unat p \<le> 0x10ffff"
    using assms by (simp_all add: LAPLACE_UNICODE_POSITION_MAXIMUM_def word_le_nat_alt)
  have "utf8_read bs = Some (unat p, rest) \<longleftrightarrow> bs = map unat (position_bytes p) @ rest" for bs rest
    using utf8_read_form [OF le(2)] utf8_read_unique by (auto simp: map_unat_position_bytes [OF le(1)])
  then show ?thesis
    using assms length_position_bytes [of p]
    by (simp add: encode_in_range unat_encoded_length min_absorb1)
qed

theorem position_encode_roundtrip_witness:
  "0xd800 \<le> LAPLACE_UNICODE_POSITION_MAXIMUM \<and>
   (\<exists>buffer len.
      laplace_unicode_position_encode 0xd800 (Some 0) (Some 0) =
        (LAPLACE_IDENTITY_OK, Some buffer, Some len) \<and>
      utf8_read (map unat (take (unat len) (bytes buffer)) @ [0x41]) = Some (0xd800, [0x41]))"
  using position_encode_roundtrip [of "0xd800" 0 0]
  by (auto simp: LAPLACE_UNICODE_POSITION_MAXIMUM_def)

text \<open>The codepoint batch is all or nothing: with every position in range each identity is
  written at its position's index and nothing else changes; with one position out of range the
  whole output array is left as it was.\<close>

theorem codepoint_batch_all_or_nothing:
  assumes "length ps \<le> length ids" "length ps \<le> SIZE_MAX div 16"
  shows "laplace_identity_codepoint_batch B (Span ps) (Some ids) =
    (if \<forall>p \<in> set ps. p \<le> LAPLACE_UNICODE_POSITION_MAXIMUM
     then (LAPLACE_IDENTITY_OK,
           Some (map (\<lambda>p. id_of_digest (blake3 B (position_bytes p))) ps @ drop (length ps) ids))
     else (LAPLACE_IDENTITY_POSITION_OUT_OF_RANGE, Some ids))"
proof -
  have "\<not> length ps > SIZE_MAX div 4" "\<not> length ps > SIZE_MAX div 16"
    using assms(2) by (simp_all add: SIZE_MAX_def)
  moreover have "(\<exists>p \<in> set ps. p > LAPLACE_UNICODE_POSITION_MAXIMUM) \<longleftrightarrow>
      \<not> (\<forall>p \<in> set ps. p \<le> LAPLACE_UNICODE_POSITION_MAXIMUM)"
    by (auto simp: not_le)
  ultimately show ?thesis
    using codepoint_batch_loop_in_range [of ps 0 ids B] assms(1)
    by (simp add: laplace_identity_codepoint_batch_def codepoint_digest_def)
qed

theorem codepoint_batch_all_or_nothing_witness:
  "laplace_identity_codepoint_batch sample_blake3 (Span [65, 0x110000]) (Some [0, 0]) =
     (LAPLACE_IDENTITY_POSITION_OUT_OF_RANGE, Some [0, 0])"
  using codepoint_batch_all_or_nothing [of "[65, 0x110000]" "[0, 0]" sample_blake3]
  by (simp add: SIZE_MAX_def LAPLACE_UNICODE_POSITION_MAXIMUM_def)

section \<open>Composition identities\<close>

definition composite_preimage :: "laplace_id128 list \<Rightarrow> byte list" where
  "composite_preimage ids = composite_domain # concat (map bytes ids)"

lemma composite_preimage_inject: "composite_preimage xs = composite_preimage ys \<longleftrightarrow> xs = ys"
  using idc.concat_enc_inject_nonempty [of xs ys] by (auto simp: composite_preimage_def)

lemma length_composite_preimage: "length (composite_preimage ids) = 1 + 16 * length ids"
  using idc.length_concat_enc [of ids] by (simp add: composite_preimage_def)

lemma composite_witness_many:
  assumes "blake3_streaming B" "2 \<le> length ids" "length ids \<le> SIZE_MAX div 16"
  shows "laplace_identity_composite_witness B (Span ids) collapsed (Some i) w =
    (LAPLACE_IDENTITY_OK, Some (id_of_digest (blake3 B (composite_preimage ids))),
     map_option (\<lambda>_. blake3 B (composite_preimage ids)) w)"
  using assms finalize_updates [of B "[[composite_domain], concat (map bytes ids)]"]
  by (auto simp: laplace_identity_composite_witness_def finalize_identity_def Let_def
      composite_preimage_def split: option.splits)

lemma composite_many:
  assumes "blake3_streaming B" "2 \<le> length ids" "length ids \<le> SIZE_MAX div 16"
  shows "laplace_identity_composite B (Span ids) (Some i) =
    (LAPLACE_IDENTITY_OK, Some (id_of_digest (blake3 B (composite_preimage ids))))"
  using assms
  by (auto simp: laplace_identity_composite_def composite_witness_many)

section \<open>Runs\<close>

definition expand_runs :: "laplace_id_run list \<Rightarrow> laplace_id128 list" where
  "expand_runs runs = concat (map (\<lambda>r. replicate (unat (run_count r)) (run_id r)) runs)"

lemma length_expand_runs: "length (expand_runs runs) = sum_list (map (unat \<circ> run_count) runs)"
  by (simp add: expand_runs_def length_concat comp_def)

lemma emit_run_chunks:
  "\<exists>chunks. emit_run B (replicate LAPLACE_RUN_BLOCK_IDENTITIES x) r h = updates B h chunks \<and>
     concat chunks = concat (replicate (unat r) (bytes x))"
proof (induction "unat r" arbitrary: r h rule: less_induct)
  case less
  show ?case
  proof (cases "r = 0")
    case True
    then show ?thesis
      by (intro exI [of _ "[]"]) (simp add: emit_run.simps)
  next
    case False
    define e where "e = (if r > of_nat LAPLACE_RUN_BLOCK_IDENTITIES
                         then LAPLACE_RUN_BLOCK_IDENTITIES else unat r)"
    have pos: "0 < unat r" using False by (simp add: unat_gt_0)
    have e: "0 < e" "e \<le> unat r" "e \<le> LAPLACE_RUN_BLOCK_IDENTITIES"
      using pos by (auto simp: e_def LAPLACE_RUN_BLOCK_IDENTITIES_def word_less_nat_alt)
    have ue: "unat (of_nat e :: u64) = e"
      using e(2) unsigned_less [of r, where 'a = nat] by (simp add: unat_of_nat)
    have sub: "unat (r - of_nat e) = unat r - e"
      using e(2) ue by (simp add: unat_sub word_le_nat_alt)
    let ?c = "concat (map bytes (take e (replicate LAPLACE_RUN_BLOCK_IDENTITIES x)))"
    have c: "?c = concat (replicate e (bytes x))"
      using e(3) by (simp add: min_def)
    have step: "emit_run B (replicate LAPLACE_RUN_BLOCK_IDENTITIES x) r h =
        emit_run B (replicate LAPLACE_RUN_BLOCK_IDENTITIES x) (r - of_nat e) (hasher_update B h ?c)"
      using False by (subst emit_run.simps) (simp add: e_def Let_def)
    obtain chunks where ch:
      "emit_run B (replicate LAPLACE_RUN_BLOCK_IDENTITIES x) (r - of_nat e) (hasher_update B h ?c)
         = updates B (hasher_update B h ?c) chunks"
      "concat chunks = concat (replicate (unat r - e) (bytes x))"
      using less [of "r - of_nat e" "hasher_update B h ?c"] sub e(1,2) by auto
    have "replicate e (bytes x) @ replicate (unat r - e) (bytes x) = replicate (unat r) (bytes x)"
      using e(2) by (simp flip: replicate_add)
    then have "concat (?c # chunks) = concat (replicate (unat r) (bytes x))"
      using ch(2) c by (metis concat.simps(2) concat_append)
    then show ?thesis
      using step ch(1) by (intro exI [of _ "?c # chunks"]) (simp add: updates_def)
  qed
qed

lemma emit_runs_chunks:
  "\<exists>chunks. emit_runs B runs h = updates B h chunks \<and>
     concat chunks = concat (map bytes (expand_runs runs))"
proof (induction runs arbitrary: h)
  case Nil
  then show ?case
    by (intro exI [of _ "[]"]) (simp add: emit_runs_def expand_runs_def)
next
  case (Cons r rs)
  obtain c1 where c1:
    "emit_run B (replicate LAPLACE_RUN_BLOCK_IDENTITIES (run_id r)) (run_count r) h = updates B h c1"
    "concat c1 = concat (replicate (unat (run_count r)) (bytes (run_id r)))"
    using emit_run_chunks [of B "run_id r" "run_count r" h] by auto
  obtain c2 where c2: "emit_runs B rs (updates B h c1) = updates B (updates B h c1) c2"
    "concat c2 = concat (map bytes (expand_runs rs))"
    using Cons.IH [of "updates B h c1"] by auto
  have "emit_runs B (r # rs) h = updates B h (c1 @ c2)"
    using c1(1) c2(1) by (simp add: emit_runs_def)
  moreover have "concat (c1 @ c2) = concat (map bytes (expand_runs (r # rs)))"
    using c1(2) c2(2) by (simp add: expand_runs_def)
  ultimately show ?case by blast
qed

lemma runs_logical_count_Inr:
  "runs_logical_count c rs = Inr t \<longleftrightarrow>
     (\<forall>r \<in> set rs. run_count r \<noteq> 0) \<and> checked_sum c (map run_count rs) = Some t"
  by (induction rs arbitrary: c) (auto split: option.splits)


lemma runs_logical_count_total:
  assumes "runs_logical_count 0 rs = Inr t"
  shows "unat t = length (expand_runs rs)" "t = of_nat (length (expand_runs rs))"
proof -
  have "unat t = sum_list (map unat (map run_count rs))"
    using assms unat_checked_sum [of 0 "map run_count rs" t] by (simp add: runs_logical_count_Inr)
  then show "unat t = length (expand_runs rs)"
    by (simp add: length_expand_runs comp_def)
  then show "t = of_nat (length (expand_runs rs))"
    by (simp flip: \<open>unat t = length (expand_runs rs)\<close>)
qed

lemma runs_logical_count_ok:
  assumes "\<forall>r \<in> set rs. run_count r \<noteq> 0" "length (expand_runs rs) < 2 ^ 64"
  shows "\<exists>t. runs_logical_count 0 rs = Inr t"
  using assms by (auto simp: runs_logical_count_Inr checked_sum_Some_iff length_expand_runs comp_def)

lemma expand_runs_nonempty:
  assumes "runs \<noteq> []" "\<forall>r \<in> set runs. run_count r \<noteq> 0"
  shows "expand_runs runs \<noteq> []" "expand_runs runs ! 0 = run_id (runs ! 0)"
proof -
  obtain r rs where runs: "runs = r # rs" using assms(1) by (cases runs) auto
  then have "0 < unat (run_count r)" using assms(2) by (simp add: unat_gt_0)
  then show "expand_runs runs \<noteq> []" "expand_runs runs ! 0 = run_id (runs ! 0)"
    by (simp_all add: runs expand_runs_def nth_append)
qed

text \<open>C6: a composition given as runs and the same composition written out have the same
  identity, the same witness and the same status, and the reported logical count is the length
  of the written-out list, for every cut of the runs into 4096-entry hash updates.\<close>

theorem composite_runs_equals_expanded:
  assumes "blake3_streaming B" "runs \<noteq> []" "\<forall>r \<in> set runs. run_count r \<noteq> 0"
    and "length (expand_runs runs) \<le> SIZE_MAX div 16"
  shows "laplace_identity_composite_runs_witness B (Span runs) collapsed (Some n) (Some i) w =
    (case laplace_identity_composite_witness B (Span (expand_runs runs)) collapsed (Some i) w of
       (status, i', w') \<Rightarrow>
         (status,
          (if status = LAPLACE_IDENTITY_OK
           then Some (of_nat (length (expand_runs runs))) else Some n), i', w'))"
proof -
  let ?ids = "expand_runs runs"
  have len: "length ?ids < 2 ^ 64" using assms(4) by (simp add: SIZE_MAX_def)
  obtain t where t: "runs_logical_count 0 runs = Inr t"
    using runs_logical_count_ok [OF assms(3) len] by blast
  note tt = runs_logical_count_total [OF t]
  note ne = expand_runs_nonempty [OF assms(2,3)]
  show ?thesis
  proof (cases "length ?ids = 1")
    case True
    then have "t = 1" using tt(2) by simp
    with True t tt ne assms(2) show ?thesis
      by (simp add: laplace_identity_composite_runs_witness_def
          laplace_identity_composite_witness_def)
  next
    case False
    with ne have two: "2 \<le> length ?ids" by (cases ?ids; cases "tl ?ids") auto
    then have "t \<noteq> 1" using tt(1) by auto
    obtain chunks where ch:
      "emit_runs B runs (hasher_update B (hasher_init B) [composite_domain]) =
         updates B (hasher_update B (hasher_init B) [composite_domain]) chunks"
      "concat chunks = concat (map bytes ?ids)"
      using emit_runs_chunks [of B runs "hasher_update B (hasher_init B) [composite_domain]"]
      by auto
    have "hasher_finalize B (emit_runs B runs (hasher_update B (hasher_init B) [composite_domain]))
        = blake3 B (composite_preimage ?ids)"
      using ch finalize_updates [OF assms(1), of "[composite_domain] # chunks"]
      by (simp add: updates_def composite_preimage_def)
    with \<open>t \<noteq> 1\<close> t tt(2) assms(2) two show ?thesis
      by (auto simp: laplace_identity_composite_runs_witness_def composite_witness_many
          assms(1,4) finalize_identity_def Let_def split: option.splits)
  qed
qed

definition sample_runs :: "laplace_id_run list" where
  "sample_runs = [\<lparr>run_id = barray_of (replicate 16 7), run_count = 2\<rparr>,
                  \<lparr>run_id = barray_of (replicate 16 9), run_count = 1\<rparr>]"

theorem composite_runs_equals_expanded_witness:
  "blake3_streaming sample_blake3 \<and> sample_runs \<noteq> [] \<and>
   laplace_identity_composite_runs_witness sample_blake3 (Span sample_runs) None
     (Some 0) (Some 0) (Some 0) =
   (LAPLACE_IDENTITY_OK, Some 3,
    Some (id_of_digest (sample_digest (composite_preimage (expand_runs sample_runs)))),
    Some (sample_digest (composite_preimage (expand_runs sample_runs))))"
proof -
  have e: "expand_runs sample_runs =
      [barray_of (replicate 16 7), barray_of (replicate 16 7), barray_of (replicate 16 9)]"
    by (simp add: expand_runs_def sample_runs_def replicate_2)
  have len: "length (expand_runs sample_runs) \<le> SIZE_MAX div 16"
    by (simp add: e SIZE_MAX_def)
  have runs: "sample_runs \<noteq> []" "\<forall>r \<in> set sample_runs. run_count r \<noteq> 0"
    by (simp_all add: sample_runs_def)
  have two: "2 \<le> length (expand_runs sample_runs)"
    by (simp add: e)
  have "laplace_identity_composite_witness sample_blake3 (Span (expand_runs sample_runs)) None
      (Some 0) (Some 0) =
    (LAPLACE_IDENTITY_OK,
     Some (id_of_digest (sample_digest (composite_preimage (expand_runs sample_runs)))),
     Some (sample_digest (composite_preimage (expand_runs sample_runs))))"
    using composite_witness_many [OF sample_blake3_streaming two len] by simp
  moreover have "length (expand_runs sample_runs) = 3"
    by (simp add: e)
  ultimately show ?thesis
    using composite_runs_equals_expanded [OF sample_blake3_streaming runs len, of None 0 0 "Some 0"]
      runs(1) by simp
qed

section \<open>The order on identities\<close>

interpretation idcmp: key_comparator laplace_identity_compare "\<lambda>i. i"
proof
  fix x y :: "laplace_id128 option"
  show "laplace_identity_compare x y < 0 \<longleftrightarrow> x < y"
    by (cases x; cases y) (auto simp: laplace_identity_compare_def)
  show "laplace_identity_compare x y = 0 \<longleftrightarrow> x = y"
    by (cases x; cases y) (auto simp: laplace_identity_compare_def)
qed

lemma identity_equal_iff:
  "laplace_identity_equal (Some a) (Some b) \<longleftrightarrow> a = b"
  by (simp add: laplace_identity_equal_def)



section \<open>Content trees\<close>

text \<open>
  Content is built from codepoints by repeated composition.  \<open>content_id\<close> computes the
  identity of such a tree by the calls a producer makes, bottom up.
\<close>

datatype content = Atom u32 | Node "content list"

fun content_id :: "'h blake3_api \<Rightarrow> content \<Rightarrow> laplace_id128 option" where
  "content_id B (Atom p) =
     (case laplace_identity_codepoint B p (Some 0) of
        (LAPLACE_IDENTITY_OK, i) \<Rightarrow> i | _ \<Rightarrow> None)"
| "content_id B (Node cs) =
     (case those (map (content_id B) cs) of
        None \<Rightarrow> None
      | Some ids \<Rightarrow>
          (case laplace_identity_composite B (Span ids) (Some 0) of
             (LAPLACE_IDENTITY_OK, i) \<Rightarrow> i | _ \<Rightarrow> None))"

text \<open>Trees without single-child nodes: a composition of one child is that child.\<close>

fun content_normal :: "content \<Rightarrow> bool" where
  "content_normal (Atom p) \<longleftrightarrow> p \<le> LAPLACE_UNICODE_POSITION_MAXIMUM"
| "content_normal (Node cs) \<longleftrightarrow>
     2 \<le> length cs \<and> length cs \<le> SIZE_MAX div 16 \<and> (\<forall>c \<in> set cs. content_normal c)"

fun subcontents :: "content \<Rightarrow> content list" where
  "subcontents (Atom p) = [Atom p]"
| "subcontents (Node cs) = Node cs # concat (map subcontents cs)"

fun content_preimage :: "'h blake3_api \<Rightarrow> content \<Rightarrow> byte list" where
  "content_preimage B (Atom p) = position_bytes p"
| "content_preimage B (Node cs) =
     composite_preimage (map (\<lambda>c. id_of_digest (blake3 B (content_preimage B c))) cs)"

definition content_preimages :: "'h blake3_api \<Rightarrow> content \<Rightarrow> byte list set" where
  "content_preimages B c = content_preimage B ` set (subcontents c)"

lemma those_map_Some: "(\<forall>x \<in> set xs. f x = Some (g x)) \<Longrightarrow> those (map f xs) = Some (map g xs)"
  by (induction xs) auto

lemma content_id_normal:
  assumes "blake3_streaming B" "content_normal c"
  shows "content_id B c = Some (id_of_digest (blake3 B (content_preimage B c)))"
  using assms(2)
proof (induction c)
  case (Atom p)
  then show ?case by (simp add: codepoint_in_range codepoint_digest_def)
next
  case (Node cs)
  then have "those (map (content_id B) cs) =
      Some (map (\<lambda>c. id_of_digest (blake3 B (content_preimage B c))) cs)"
    by (intro those_map_Some) simp
  with Node.prems show ?case
    by (simp add: composite_many assms(1))
qed

lemma self_subcontents: "c \<in> set (subcontents c)"
  by (cases c) simp_all

lemma content_preimages_Node:
  "c \<in> set cs \<Longrightarrow> content_preimages B c \<subseteq> content_preimages B (Node cs)"
  by (auto simp: content_preimages_def)

lemma content_preimage_in: "content_preimage B c \<in> content_preimages B c"
  by (simp add: content_preimages_def self_subcontents)

lemma content_preimage_eq_imp:
  assumes "content_normal s" "content_normal t"
    and "inj_on (\<lambda>x. id_of_digest (blake3 B x)) (content_preimages B s \<union> content_preimages B t)"
    and "content_preimage B s = content_preimage B t"
  shows "s = t"
  using assms
proof (induction s arbitrary: t)
  case (Atom p)
  show ?case
  proof (cases t)
    case (Atom q)
    with \<open>content_normal (Atom p)\<close> Atom.prems show ?thesis
      by (simp add: position_bytes_inject)
  next
    case (Node cs)
    with Atom.prems(2,4) length_position_bytes [of p] show ?thesis
      using length_composite_preimage
        [of "map (\<lambda>c. id_of_digest (blake3 B (content_preimage B c))) cs"] by simp
  qed
next
  case (Node cs)
  show ?case
  proof (cases t)
    case (Atom q)
    with Node.prems(1,4) length_position_bytes [of q] show ?thesis
      using length_composite_preimage
        [of "map (\<lambda>c. id_of_digest (blake3 B (content_preimage B c))) cs"] by simp
  next
    case t: (Node ds)
    let ?h = "\<lambda>c. id_of_digest (blake3 B (content_preimage B c))"
    have eq: "map ?h cs = map ?h ds"
      using Node.prems(4) t by (simp add: composite_preimage_inject)
    then have len: "length cs = length ds"
      using map_eq_imp_length_eq by blast
    have "cs ! k = ds ! k" if k: "k < length cs" for k
    proof -
      have c: "cs ! k \<in> set cs" and d: "ds ! k \<in> set ds" using k len by auto
      have sub: "content_preimages B (cs ! k) \<union> content_preimages B (ds ! k)
          \<subseteq> content_preimages B (Node cs) \<union> content_preimages B t"
        using content_preimages_Node [OF c] content_preimages_Node [OF d] t by blast
      have inj: "inj_on (\<lambda>x. id_of_digest (blake3 B x))
          (content_preimages B (cs ! k) \<union> content_preimages B (ds ! k))"
        using Node.prems(3) sub by (rule inj_on_subset)
      have "?h (cs ! k) = ?h (ds ! k)"
        using eq k len by (metis nth_map)
      then have "content_preimage B (cs ! k) = content_preimage B (ds ! k)"
        using inj_onD [OF inj] content_preimage_in by blast
      then show ?thesis
        using Node.IH [OF c] Node.prems(1,2) t inj c d by simp
    qed
    with len t show ?thesis by (simp add: list_eq_iff_nth_eq)
  qed
qed

text \<open>C29: content addressing is sound.  Two normalised content trees whose identities, as
  computed by the codepoint and composition functions, agree are the same tree, as long as the
  truncated hash does not collide on the byte strings hashed for these two trees.\<close>

theorem content_identity_determines_content:
  assumes "blake3_streaming B" "content_normal s" "content_normal t"
    and "inj_on (\<lambda>x. id_of_digest (blake3 B x)) (content_preimages B s \<union> content_preimages B t)"
    and "content_id B s = content_id B t"
  shows "s = t"
proof -
  have "id_of_digest (blake3 B (content_preimage B s)) = id_of_digest (blake3 B (content_preimage B t))"
    using assms(5) by (simp add: content_id_normal assms(1-3))
  then have "content_preimage B s = content_preimage B t"
    using inj_onD [OF assms(4)] content_preimage_in by blast
  with assms(2-4) show ?thesis by (rule content_preimage_eq_imp)
qed


definition sample_content :: content where
  "sample_content = Node [Atom 65, Atom 66]"

lemma sample_content_inj:
  "inj_on (\<lambda>x. id_of_digest (blake3 sample_blake3 x)) (content_preimages sample_blake3 sample_content)"
proof -
  have id_nth: "bytes (id_of_digest (sample_digest bs)) ! 1 = of_nat (length bs)"
    "bytes (id_of_digest (sample_digest bs)) ! 2 = sum_list bs" for bs
    by (simp_all add: sample_digest_def numeral_2_eq_2)
  have eqD: "length xs = length ys \<and> sum_list xs = sum_list ys"
    if "id_of_digest (sample_digest xs) = id_of_digest (sample_digest ys)"
      "length xs < 256" "length ys < 256" for xs ys :: "byte list"
  proof -
    have "(of_nat (length xs) :: byte) = of_nat (length ys)" and s: "sum_list xs = sum_list ys"
      using that(1) id_nth [of xs] id_nth [of ys] by metis+
    then have "length xs mod 256 = length ys mod 256"
      using unat_of_nat [of "length xs", where 'a = 8] unat_of_nat [of "length ys", where 'a = 8]
      by simp
    with that(2,3) s show ?thesis by simp
  qed
  show ?thesis
    by (rule inj_onI)
      (auto simp: content_preimages_def sample_content_def position_bytes_def
        length_composite_preimage dest!: eqD)
qed

theorem content_identity_determines_content_witness:
  "blake3_streaming sample_blake3 \<and> content_normal sample_content \<and>
   inj_on (\<lambda>x. id_of_digest (blake3 sample_blake3 x))
     (content_preimages sample_blake3 sample_content \<union> content_preimages sample_blake3 sample_content) \<and>
   Node [Atom 65, Atom 66] = sample_content"
proof -
  have n: "content_normal sample_content"
    by (simp add: sample_content_def LAPLACE_UNICODE_POSITION_MAXIMUM_def SIZE_MAX_def)
  have "Node [Atom 65, Atom 66] = sample_content"
    using content_identity_determines_content
      [OF sample_blake3_streaming, of "Node [Atom 65, Atom 66]" sample_content]
      sample_content_inj n by (simp add: sample_content_def)
  then show ?thesis
    using sample_content_inj n by simp
qed

end
