(* ===== verification/Trajectory.thy ===== *)
theory Trajectory
  imports Identity
begin

text \<open>
  Trajectory carriers (\<open>engine/src/trajectory.c\<close>): 212 payload bits packed into four finite
  binary64 slots, the composition records decoded from a sequence of carriers, and the order,
  multiplicity and co-occurrence queries on the decoded records.

  A \<open>double\<close> is represented by its bit pattern: the code only ever copies it to and from a
  \<open>uint64_t\<close> with \<open>memcpy\<close>.
\<close>

type_synonym binary64 = u64

datatype laplace_trajectory_status =
    LAPLACE_TRAJECTORY_OK
  | LAPLACE_TRAJECTORY_INVALID_ARGUMENT
  | LAPLACE_TRAJECTORY_METADATA_OUT_OF_RANGE
  | LAPLACE_TRAJECTORY_INVALID_CARRIER
  | LAPLACE_TRAJECTORY_ZERO_RUN
  | LAPLACE_TRAJECTORY_ORDINAL_MISMATCH
  | LAPLACE_TRAJECTORY_CAPACITY_INSUFFICIENT
  | LAPLACE_TRAJECTORY_COUNT_OVERFLOW

text \<open>\<open>double slots[4]\<close>, one field per slot.\<close>

record laplace_trajectory_carrier =
  slot0 :: binary64
  slot1 :: binary64
  slot2 :: binary64
  slot3 :: binary64

record laplace_trajectory_payload =
  tp_lane128 :: laplace_id128
  tp_ordinal :: u16
  tp_run_length :: u16
  tp_metadata :: u64

record laplace_composition_occurrence =
  oc_entity_id :: laplace_id128
  oc_logical_ordinal :: u64
  oc_metadata :: u64
  oc_atom :: u32
  oc_packed_ordinal :: u16
  oc_run_length :: u16
  oc_tier :: byte
  oc_has_atom :: byte
  oc_reserved :: u16

definition MANTISSA_MASK :: u64 where "MANTISSA_MASK = 0x000fffffffffffff"
definition SLOT_PAYLOAD_MASK :: u64 where "SLOT_PAYLOAD_MASK = 0x001fffffffffffff"
definition EXPONENT_MASK :: u64 where "EXPONENT_MASK = 0x7ff"
definition METADATA_MASK :: u64 where "METADATA_MASK = 0x000fffffffffffff"
definition LOW_11_MASK :: u64 where "LOW_11_MASK = 0x7ff"
definition LOW_21_MASK :: u64 where "LOW_21_MASK = 0x1fffff"
definition LOW_22_MASK :: u64 where "LOW_22_MASK = 0x3fffff"
definition LOW_31_MASK :: u64 where "LOW_31_MASK = 0x7fffffff"
definition LOW_42_MASK :: u64 where "LOW_42_MASK = 0x3ffffffffff"

text \<open>Values of \<open>contracts/trajectory.json\<close>.\<close>

definition LAPLACE_TRAJECTORY_BINARY64_EXPONENT :: u64 where
  "LAPLACE_TRAJECTORY_BINARY64_EXPONENT = 1023"
definition LAPLACE_TRAJECTORY_TIER_SHIFT :: nat where "LAPLACE_TRAJECTORY_TIER_SHIFT = 1"
definition LAPLACE_TRAJECTORY_TIER_MASK :: u64 where "LAPLACE_TRAJECTORY_TIER_MASK = 31"
definition LAPLACE_TRAJECTORY_HAS_ATOM_BIT :: nat where "LAPLACE_TRAJECTORY_HAS_ATOM_BIT = 0"
definition LAPLACE_TRAJECTORY_ATOM_SHIFT :: nat where "LAPLACE_TRAJECTORY_ATOM_SHIFT = 31"
definition LAPLACE_TRAJECTORY_ATOM_MASK :: u64 where "LAPLACE_TRAJECTORY_ATOM_MASK = 0x1fffff"

lemmas trajectory_masks =
  MANTISSA_MASK_def SLOT_PAYLOAD_MASK_def EXPONENT_MASK_def METADATA_MASK_def LOW_11_MASK_def
  LOW_21_MASK_def LOW_22_MASK_def LOW_31_MASK_def LOW_42_MASK_def
  LAPLACE_TRAJECTORY_BINARY64_EXPONENT_def

section \<open>The carrier\<close>

definition load_u64_le :: "byte list \<Rightarrow> u64" where
  "load_u64_le bs = foldl (\<lambda>v i. v OR push_bit (8 * i) (ucast (bs ! i))) 0 [0..<8]"

definition store_u64_le :: "u64 \<Rightarrow> byte list" where
  "store_u64_le v = map (\<lambda>i. ucast (drop_bit (8 * i) v)) [0..<8]"

definition payload_slot_to_double :: "u64 \<Rightarrow> binary64" where
  "payload_slot_to_double payload =
     (let sign = drop_bit 52 payload AND 1;
          mantissa = payload AND MANTISSA_MASK in
      push_bit 63 sign OR push_bit 52 LAPLACE_TRAJECTORY_BINARY64_EXPONENT OR mantissa)"

definition double_to_payload_slot :: "binary64 \<Rightarrow> u64 option" where
  "double_to_payload_slot bits =
     (let exponent = drop_bit 52 bits AND EXPONENT_MASK in
      if exponent \<noteq> LAPLACE_TRAJECTORY_BINARY64_EXPONENT then None
      else Some (push_bit 52 (drop_bit 63 bits AND 1) OR (bits AND MANTISSA_MASK)))"

definition laplace_trajectory_carrier_encode ::
  "laplace_trajectory_payload option \<Rightarrow> laplace_trajectory_carrier option \<Rightarrow>
   laplace_trajectory_status \<times> laplace_trajectory_carrier option" where
  "laplace_trajectory_carrier_encode payload carrier =
     (case (payload, carrier) of
        (Some p, Some _) \<Rightarrow>
          if tp_metadata p AND NOT METADATA_MASK \<noteq> 0
          then (LAPLACE_TRAJECTORY_METADATA_OUT_OF_RANGE, carrier)
          else
            let high_lane = load_u64_le (take 8 (bytes (tp_lane128 p)));
                low_lane = load_u64_le (drop 8 (bytes (tp_lane128 p)));
                s0 = low_lane AND SLOT_PAYLOAD_MASK;
                s1 = (drop_bit 53 low_lane AND LOW_11_MASK) OR
                     push_bit 11 (high_lane AND LOW_42_MASK);
                s2 = (drop_bit 42 high_lane AND LOW_22_MASK) OR
                     push_bit 22 (tp_metadata p AND LOW_31_MASK);
                s3 = ucast (tp_ordinal p) OR
                     push_bit 16 (ucast (tp_run_length p)) OR
                     push_bit 32 (drop_bit 31 (tp_metadata p) AND LOW_21_MASK) in
            (LAPLACE_TRAJECTORY_OK,
             Some \<lparr>slot0 = payload_slot_to_double s0, slot1 = payload_slot_to_double s1,
                   slot2 = payload_slot_to_double s2, slot3 = payload_slot_to_double s3\<rparr>)
      | _ \<Rightarrow> (LAPLACE_TRAJECTORY_INVALID_ARGUMENT, carrier))"

definition laplace_trajectory_carrier_decode ::
  "laplace_trajectory_carrier option \<Rightarrow> laplace_trajectory_payload option \<Rightarrow>
   laplace_trajectory_status \<times> laplace_trajectory_payload option" where
  "laplace_trajectory_carrier_decode carrier payload =
     (case (carrier, payload) of
        (Some c, Some _) \<Rightarrow>
          (case (double_to_payload_slot (slot0 c), double_to_payload_slot (slot1 c),
                 double_to_payload_slot (slot2 c), double_to_payload_slot (slot3 c)) of
             (Some s0, Some s1, Some s2, Some s3) \<Rightarrow>
               let low_lane = (s0 AND SLOT_PAYLOAD_MASK) OR push_bit 53 (s1 AND LOW_11_MASK);
                   high_lane = (drop_bit 11 s1 AND LOW_42_MASK) OR
                               push_bit 42 (s2 AND LOW_22_MASK) in
               (LAPLACE_TRAJECTORY_OK,
                Some \<lparr>tp_lane128 = barray_of (store_u64_le high_lane @ store_u64_le low_lane),
                      tp_ordinal = ucast (s3 AND 0xffff),
                      tp_run_length = ucast (drop_bit 16 s3 AND 0xffff),
                      tp_metadata = (drop_bit 22 s2 AND LOW_31_MASK) OR
                                    push_bit 31 (drop_bit 32 s3 AND LOW_21_MASK)\<rparr>)
           | _ \<Rightarrow> (LAPLACE_TRAJECTORY_INVALID_CARRIER, payload))
      | _ \<Rightarrow> (LAPLACE_TRAJECTORY_INVALID_ARGUMENT, payload))"

section \<open>Compositions\<close>

definition packed_ordinal_of :: "u64 \<Rightarrow> u16" where
  "packed_ordinal_of logical_ordinal = (if logical_ordinal \<le> 0xffff then ucast logical_ordinal else 0)"

definition laplace_trajectory_composition_encode ::
  "laplace_id128 option \<Rightarrow> u64 \<Rightarrow> u16 \<Rightarrow> u64 \<Rightarrow> laplace_trajectory_carrier option \<Rightarrow>
   laplace_trajectory_status \<times> laplace_trajectory_carrier option" where
  "laplace_trajectory_composition_encode entity_id logical_ordinal run_length metadata carrier =
     (case (entity_id, carrier) of
        (Some entity, Some _) \<Rightarrow>
          if logical_ordinal = 0 then (LAPLACE_TRAJECTORY_INVALID_ARGUMENT, carrier)
          else if run_length = 0 then (LAPLACE_TRAJECTORY_ZERO_RUN, carrier)
          else if UINT64_MAX - logical_ordinal < ucast run_length - 1
          then (LAPLACE_TRAJECTORY_COUNT_OVERFLOW, carrier)
          else laplace_trajectory_carrier_encode
                 (Some \<lparr>tp_lane128 = entity, tp_ordinal = packed_ordinal_of logical_ordinal,
                        tp_run_length = run_length, tp_metadata = metadata\<rparr>) carrier
      | _ \<Rightarrow> (LAPLACE_TRAJECTORY_INVALID_ARGUMENT, carrier))"

definition laplace_trajectory_metadata_tier :: "u64 \<Rightarrow> byte" where
  "laplace_trajectory_metadata_tier metadata =
     ucast (drop_bit LAPLACE_TRAJECTORY_TIER_SHIFT metadata AND LAPLACE_TRAJECTORY_TIER_MASK)"

definition laplace_trajectory_metadata_has_atom :: "u64 \<Rightarrow> bool" where
  "laplace_trajectory_metadata_has_atom metadata \<longleftrightarrow>
     metadata AND push_bit LAPLACE_TRAJECTORY_HAS_ATOM_BIT 1 \<noteq> 0"

definition laplace_trajectory_metadata_atom :: "u64 \<Rightarrow> u32" where
  "laplace_trajectory_metadata_atom metadata =
     ucast (drop_bit LAPLACE_TRAJECTORY_ATOM_SHIFT metadata AND LAPLACE_TRAJECTORY_ATOM_MASK)"

definition occurrence_of :: "laplace_trajectory_payload \<Rightarrow> u64 \<Rightarrow> laplace_composition_occurrence" where
  "occurrence_of payload logical_ordinal =
     \<lparr>oc_entity_id = tp_lane128 payload,
      oc_logical_ordinal = logical_ordinal,
      oc_metadata = tp_metadata payload,
      oc_atom = laplace_trajectory_metadata_atom (tp_metadata payload),
      oc_packed_ordinal = tp_ordinal payload,
      oc_run_length = tp_run_length payload,
      oc_tier = laplace_trajectory_metadata_tier (tp_metadata payload),
      oc_has_atom = (if laplace_trajectory_metadata_has_atom (tp_metadata payload) then 1 else 0),
      oc_reserved = 0\<rparr>"

definition payload_zero :: laplace_trajectory_payload where
  "payload_zero = \<lparr>tp_lane128 = 0, tp_ordinal = 0, tp_run_length = 0, tp_metadata = 0\<rparr>"

definition laplace_trajectory_composition_decode_one ::
  "laplace_trajectory_carrier option \<Rightarrow> u64 \<Rightarrow> laplace_composition_occurrence option \<Rightarrow>
   laplace_trajectory_status \<times> laplace_composition_occurrence option" where
  "laplace_trajectory_composition_decode_one carrier logical_ordinal occurrence =
     (if carrier = None \<or> occurrence = None \<or> logical_ordinal = 0
      then (LAPLACE_TRAJECTORY_INVALID_ARGUMENT, occurrence)
      else case laplace_trajectory_carrier_decode carrier (Some payload_zero) of
        (LAPLACE_TRAJECTORY_OK, Some payload) \<Rightarrow>
          if tp_run_length payload = 0 then (LAPLACE_TRAJECTORY_ZERO_RUN, occurrence)
          else if tp_ordinal payload \<noteq> packed_ordinal_of logical_ordinal
          then (LAPLACE_TRAJECTORY_ORDINAL_MISMATCH, occurrence)
          else if UINT64_MAX - logical_ordinal < ucast (tp_run_length payload) - 1
          then (LAPLACE_TRAJECTORY_COUNT_OVERFLOW, occurrence)
          else (LAPLACE_TRAJECTORY_OK, Some (occurrence_of payload logical_ordinal))
      | (status, _) \<Rightarrow> (status, occurrence))"

text \<open>The uninitialised local \<open>occurrence\<close> the loops decode into; it is only read after a
  successful decode has overwritten it.\<close>

definition occurrence_local :: laplace_composition_occurrence where
  "occurrence_local = occurrence_of payload_zero 0"

fun validate_composition_loop ::
  "laplace_trajectory_carrier list \<Rightarrow> u64 \<Rightarrow> laplace_trajectory_status + u64" where
  "validate_composition_loop [] logical_ordinal = Inr (logical_ordinal - 1)"
| "validate_composition_loop (c # cs) logical_ordinal =
     (case laplace_trajectory_composition_decode_one (Some c) logical_ordinal
             (Some occurrence_local) of
        (LAPLACE_TRAJECTORY_OK, Some occurrence) \<Rightarrow>
          if UINT64_MAX - logical_ordinal < ucast (oc_run_length occurrence)
          then Inl LAPLACE_TRAJECTORY_COUNT_OVERFLOW
          else validate_composition_loop cs (logical_ordinal + ucast (oc_run_length occurrence))
      | (status, _) \<Rightarrow> Inl status)"

definition validate_composition ::
  "laplace_trajectory_carrier list \<Rightarrow> laplace_trajectory_status + u64" where
  "validate_composition carriers = validate_composition_loop carriers 1"

fun composition_decode_loop ::
  "laplace_trajectory_carrier list \<Rightarrow> nat \<Rightarrow> u64 \<Rightarrow> laplace_composition_occurrence list \<Rightarrow>
   laplace_trajectory_status \<times> laplace_composition_occurrence list" where
  "composition_decode_loop [] index logical_ordinal occurrences =
     (LAPLACE_TRAJECTORY_OK, occurrences)"
| "composition_decode_loop (c # cs) index logical_ordinal occurrences =
     (case laplace_trajectory_composition_decode_one (Some c) logical_ordinal
             (Some occurrence_local) of
        (LAPLACE_TRAJECTORY_OK, Some occurrence) \<Rightarrow>
          composition_decode_loop cs (Suc index)
            (logical_ordinal + ucast (oc_run_length occurrence))
            (occurrences[index := occurrence])
      | (status, _) \<Rightarrow> (status, occurrences))"

definition laplace_trajectory_composition_decode ::
  "laplace_trajectory_carrier span \<Rightarrow> laplace_composition_occurrence list option \<Rightarrow> nat \<Rightarrow>
   u64 option \<Rightarrow>
   laplace_trajectory_status \<times> laplace_composition_occurrence list option \<times> u64 option" where
  "laplace_trajectory_composition_decode carriers occurrences occurrence_capacity logical_count =
     (if (span_null carriers \<and> span_count carriers \<noteq> 0) \<or>
         (occurrences = None \<and> span_count carriers \<noteq> 0) \<or> logical_count = None
      then (LAPLACE_TRAJECTORY_INVALID_ARGUMENT, occurrences, logical_count)
      else if occurrence_capacity < span_count carriers
      then (LAPLACE_TRAJECTORY_CAPACITY_INSUFFICIENT, occurrences, logical_count)
      else case validate_composition (span_items carriers) of
        Inl status \<Rightarrow> (status, occurrences, logical_count)
      | Inr logical_total \<Rightarrow>
          (case occurrences of
             None \<Rightarrow> (LAPLACE_TRAJECTORY_OK, None, Some logical_total)
           | Some occs \<Rightarrow>
               (case composition_decode_loop (span_items carriers) 0 1 occs of
                  (LAPLACE_TRAJECTORY_OK, occs') \<Rightarrow>
                    (LAPLACE_TRAJECTORY_OK, Some occs', Some logical_total)
                | (status, occs') \<Rightarrow> (status, Some occs', logical_count))))"

section \<open>Queries\<close>

fun entity_count_loop ::
  "laplace_composition_occurrence list \<Rightarrow> laplace_id128 \<Rightarrow> u64 \<Rightarrow>
   laplace_trajectory_status + u64" where
  "entity_count_loop [] entity n = Inr n"
| "entity_count_loop (oc # ocs) entity n =
     (if laplace_identity_equal (Some (oc_entity_id oc)) (Some entity) then
        (if UINT64_MAX - n < ucast (oc_run_length oc)
         then Inl LAPLACE_TRAJECTORY_COUNT_OVERFLOW
         else entity_count_loop ocs entity (n + ucast (oc_run_length oc)))
      else entity_count_loop ocs entity n)"

definition laplace_trajectory_entity_count ::
  "laplace_composition_occurrence span \<Rightarrow> laplace_id128 option \<Rightarrow> u64 option \<Rightarrow>
   laplace_trajectory_status \<times> u64 option" where
  "laplace_trajectory_entity_count occurrences entity_id logical_count =
     (if (span_null occurrences \<and> span_count occurrences \<noteq> 0) \<or> logical_count = None
      then (LAPLACE_TRAJECTORY_INVALID_ARGUMENT, logical_count)
      else case entity_id of
        None \<Rightarrow> (LAPLACE_TRAJECTORY_INVALID_ARGUMENT, logical_count)
      | Some entity \<Rightarrow>
          (case entity_count_loop (span_items occurrences) entity 0 of
             Inl status \<Rightarrow> (status, logical_count)
           | Inr n \<Rightarrow> (LAPLACE_TRAJECTORY_OK, Some n)))"

definition laplace_trajectory_occurrence_precedes ::
  "laplace_composition_occurrence span \<Rightarrow> nat \<Rightarrow> nat \<Rightarrow> bool option \<Rightarrow>
   laplace_trajectory_status \<times> bool option" where
  "laplace_trajectory_occurrence_precedes occurrences left_index right_index result =
     (if (span_null occurrences \<and> span_count occurrences \<noteq> 0) \<or> result = None \<or>
         left_index \<ge> span_count occurrences \<or> right_index \<ge> span_count occurrences
      then (LAPLACE_TRAJECTORY_INVALID_ARGUMENT, result)
      else
        let left = span_items occurrences ! left_index;
            right = span_items occurrences ! right_index in
        if oc_run_length left = 0 \<or> oc_run_length right = 0
        then (LAPLACE_TRAJECTORY_INVALID_ARGUMENT, result)
        else if UINT64_MAX - oc_logical_ordinal left < ucast (oc_run_length left) - 1
        then (LAPLACE_TRAJECTORY_COUNT_OVERFLOW, result)
        else
          let left_end = oc_logical_ordinal left + ucast (oc_run_length left) - 1 in
          (LAPLACE_TRAJECTORY_OK, Some (left_end < oc_logical_ordinal right)))"

definition laplace_trajectory_entities_cooccur ::
  "laplace_composition_occurrence span \<Rightarrow> laplace_id128 option \<Rightarrow> laplace_id128 option \<Rightarrow>
   bool option \<Rightarrow> laplace_trajectory_status \<times> bool option" where
  "laplace_trajectory_entities_cooccur occurrences left right result =
     (if (span_null occurrences \<and> span_count occurrences \<noteq> 0) \<or> left = None \<or>
         right = None \<or> result = None
      then (LAPLACE_TRAJECTORY_INVALID_ARGUMENT, result)
      else
        let (found_left, found_right) =
          foldl (\<lambda>(fl, fr) oc.
              (fl \<or> laplace_identity_equal (Some (oc_entity_id oc)) left,
               fr \<or> laplace_identity_equal (Some (oc_entity_id oc)) right))
            (False, False) (span_items occurrences) in
        (LAPLACE_TRAJECTORY_OK, Some (found_left \<and> found_right)))"

section \<open>Bit-level round trips\<close>

lemma bit_load_aux:
  "bit (foldl (\<lambda>v i. v OR push_bit (8 * i) (ucast (bs ! i))) (0 :: u64) [0..<n]) m \<longleftrightarrow>
     m < 8 * n \<and> m < 64 \<and> bit (bs ! (m div 8) :: byte) (m mod 8)"
proof (induction n)
  case (Suc n)
  have "m < 8 * Suc n \<longleftrightarrow> m < 8 * n \<or> (8 * n \<le> m \<and> m - 8 * n < 8)" by auto
  moreover have "m div 8 = n \<and> m mod 8 = m - 8 * n" if "8 * n \<le> m" "m - 8 * n < 8"
  proof -
    from that have "m = 8 * n + (m - 8 * n)" by simp
    with that(2) show ?thesis
      by (metis add.commute div_mult_self4 mod_mult_self2 div_less mod_less zero_neq_numeral add_0)
  qed
  ultimately show ?case
    using Suc by (auto simp: bit_simps dest: bit_imp_le_length)
qed simp

lemma bit_load_u64_le:
  "bit (load_u64_le bs) m \<longleftrightarrow> m < 64 \<and> bit (bs ! (m div 8)) (m mod 8)"
  using bit_load_aux [of bs 8 m] by (auto simp: load_u64_le_def)

lemma store_u64_le_eq: "store_u64_le v = u64_le v"
  by (simp add: store_u64_le_def u64_le_def le_bytes_def)

lemma load_store [simp]: "load_u64_le (store_u64_le v) = v"
proof (rule bit_word_eqI)
  fix m assume "m < LENGTH(64)"
  then show "bit (load_u64_le (store_u64_le v)) m \<longleftrightarrow> bit v m"
    using bit_le_bytes [of m 8 v] by (simp add: bit_load_u64_le store_u64_le_eq u64_le_def)
qed

lemma store_load:
  assumes "length bs = 8"
  shows "store_u64_le (load_u64_le bs) = bs"
proof (rule nth_equalityI)
  fix i assume "i < length (store_u64_le (load_u64_le bs))"
  then have i: "i < 8" by (simp add: store_u64_le_eq)
  show "store_u64_le (load_u64_le bs) ! i = bs ! i"
  proof (rule bit_word_eqI)
    fix m assume m: "m < LENGTH(8)"
    have "(8 * i + m) div 8 = i" "(8 * i + m) mod 8 = m" using m by auto
    then show "bit (store_u64_le (load_u64_le bs) ! i) m \<longleftrightarrow> bit (bs ! i) m"
      using i m by (simp add: store_u64_le_def bit_simps bit_load_u64_le)
  qed
qed (simp add: assms store_u64_le_eq)


lemma and_masks:
  "x AND MANTISSA_MASK = take_bit 52 x" "x AND SLOT_PAYLOAD_MASK = take_bit 53 x"
  "x AND EXPONENT_MASK = take_bit 11 x" "x AND LOW_11_MASK = take_bit 11 x"
  "x AND LOW_21_MASK = take_bit 21 x" "x AND LOW_22_MASK = take_bit 22 x"
  "x AND LOW_31_MASK = take_bit 31 x" "x AND LOW_42_MASK = take_bit 42 x"
  "x AND METADATA_MASK = take_bit 52 x"
  by (simp_all add: trajectory_masks take_bit_eq_mask mask_eq_exp_minus_1)

lemma and_0xffff: "x AND (0xffff :: u64) = take_bit 16 x"
  by (simp add: take_bit_eq_mask mask_eq_exp_minus_1)

lemma metadata_range: "m AND NOT METADATA_MASK = 0 \<longleftrightarrow> take_bit 52 m = m"
proof -
  have split: "m = (m AND METADATA_MASK) OR (m AND NOT METADATA_MASK)"
    by (simp flip: bit.conj_disj_distrib)
  have "(m AND METADATA_MASK) AND NOT METADATA_MASK = 0"
    by (simp add: and.assoc)
  with split show ?thesis
    by (metis and_masks(9) or.right_neutral)
qed

lemma bit_exponent: "bit LAPLACE_TRAJECTORY_BINARY64_EXPONENT m \<longleftrightarrow> m < 10"
proof -
  have eq: "LAPLACE_TRAJECTORY_BINARY64_EXPONENT = mask 10"
    by (simp add: LAPLACE_TRAJECTORY_BINARY64_EXPONENT_def mask_eq_exp_minus_1)
  show ?thesis
    unfolding eq bit_mask_iff by auto
qed

lemma bit_and_1: "bit (w AND 1 :: u64) m \<longleftrightarrow> m = 0 \<and> bit w 0"
  by (auto simp: bit_and_iff bit_1_iff)

lemma bit_payload_slot_to_double:
  assumes "m < 64"
  shows "bit (payload_slot_to_double s) m \<longleftrightarrow>
    (if m < 52 then bit s m else if m < 62 then True else m = 63 \<and> bit s 52)"
proof -
  define e where "e = drop_bit 52 s AND 1"
  have be: "bit e k \<longleftrightarrow> k = 0 \<and> bit s 52" for k
    unfolding e_def bit_and_1 by (simp add: bit_drop_bit_eq)
  show ?thesis
    unfolding payload_slot_to_double_def Let_def and_masks e_def [symmetric]
    using assms by (auto simp: bit_simps be bit_exponent)
qed

lemma bit_slot_of_double:
  "bit (push_bit 52 (drop_bit 63 d AND 1) OR (d AND MANTISSA_MASK)) m \<longleftrightarrow>
    (if m < 52 then bit d m else m = 52 \<and> bit d 63)"
proof -
  define e where "e = drop_bit 63 d AND 1"
  have be: "bit e k \<longleftrightarrow> k = 0 \<and> bit d 63" for k
    unfolding e_def bit_and_1 by (simp add: bit_drop_bit_eq)
  show ?thesis
    unfolding and_masks e_def [symmetric] by (auto simp: bit_simps be)
qed

lemma exponent_bits:
  "drop_bit 52 d AND EXPONENT_MASK = LAPLACE_TRAJECTORY_BINARY64_EXPONENT \<longleftrightarrow>
    (\<forall>k < 11. bit d (52 + k) \<longleftrightarrow> k < 10)"
proof -
  have "drop_bit 52 d AND EXPONENT_MASK = LAPLACE_TRAJECTORY_BINARY64_EXPONENT \<longleftrightarrow>
      (\<forall>n < 64. (n < 11 \<and> bit d (52 + n)) = (n < 10))"
    unfolding and_masks by (auto simp: bit_eq_iff bit_simps bit_exponent)
  also have "\<dots> \<longleftrightarrow> (\<forall>k < 11. bit d (52 + k) \<longleftrightarrow> k < 10)"
  proof
    assume l: "\<forall>n < 64. (n < 11 \<and> bit d (52 + n)) = (n < 10)"
    show "\<forall>k < 11. bit d (52 + k) \<longleftrightarrow> k < 10"
    proof (intro allI impI)
      fix k :: nat assume "k < 11"
      with l [rule_format, of k] show "bit d (52 + k) \<longleftrightarrow> k < 10" by simp
    qed
  next
    assume r: "\<forall>k < 11. bit d (52 + k) \<longleftrightarrow> k < 10"
    show "\<forall>n < 64. (n < 11 \<and> bit d (52 + n)) = (n < 10)"
    proof (intro allI impI)
      fix n :: nat assume "n < 64"
      show "(n < 11 \<and> bit d (52 + n)) = (n < 10)"
        using r [rule_format, of n] by (cases "n < 11") auto
    qed
  qed
  finally show ?thesis .
qed

lemma slot_to_double_to_slot:
  "double_to_payload_slot (payload_slot_to_double s) = Some (take_bit 53 s)"
proof -
  have "push_bit 52 (drop_bit 63 (payload_slot_to_double s) AND 1) OR
      (payload_slot_to_double s AND MANTISSA_MASK) = take_bit 53 s"
  proof (rule bit_word_eqI)
    fix m assume "m < LENGTH(64)"
    moreover have "bit (payload_slot_to_double s) 63 \<longleftrightarrow> bit s 52"
      by (simp add: bit_payload_slot_to_double)
    ultimately show "bit (push_bit 52 (drop_bit 63 (payload_slot_to_double s) AND 1) OR
      (payload_slot_to_double s AND MANTISSA_MASK)) m \<longleftrightarrow> bit (take_bit 53 s) m"
      unfolding bit_slot_of_double bit_take_bit_iff
      by (cases "m = 52") (auto simp: bit_payload_slot_to_double)
  qed
  moreover have "drop_bit 52 (payload_slot_to_double s) AND EXPONENT_MASK =
      LAPLACE_TRAJECTORY_BINARY64_EXPONENT"
    unfolding exponent_bits by (auto simp: bit_payload_slot_to_double)
  ultimately show ?thesis
    by (simp add: double_to_payload_slot_def Let_def)
qed

lemma double_to_slot_to_double:
  assumes "double_to_payload_slot d = Some s"
  shows "payload_slot_to_double s = d" "take_bit 53 s = s"
proof -
  have e: "\<forall>k < 11. bit d (52 + k) \<longleftrightarrow> k < 10"
    and bs: "bit s m \<longleftrightarrow> (if m < 52 then bit d m else m = 52 \<and> bit d 63)" for m
    using assms bit_slot_of_double [of d m]
    by (auto simp: double_to_payload_slot_def Let_def exponent_bits split: if_splits)
  show "take_bit 53 s = s"
    by (rule bit_word_eqI) (auto simp: bit_take_bit_iff bs)
  show "payload_slot_to_double s = d"
  proof (rule bit_word_eqI)
    fix m assume m: "m < LENGTH(64)"
    show "bit (payload_slot_to_double s) m \<longleftrightarrow> bit d m"
    proof (cases "52 \<le> m \<and> m < 63")
      case True
      then have "m - 52 < 11" "52 + (m - 52) = m" "m - 52 < 10 \<longleftrightarrow> m < 62" by linarith+
      with True m e [rule_format, of "m - 52"] show ?thesis
        by (simp add: bit_payload_slot_to_double)
    next
      case False
      then have "m < 52 \<or> m = 63" using m by auto
      then show ?thesis by (auto simp: bit_payload_slot_to_double bs)
    qed
  qed
qed

section \<open>Slots of a payload\<close>

definition slot_words :: "laplace_trajectory_payload \<Rightarrow> u64 \<times> u64 \<times> u64 \<times> u64" where
  "slot_words p =
     (let high = load_u64_le (take 8 (bytes (tp_lane128 p)));
          low = load_u64_le (drop 8 (bytes (tp_lane128 p))) in
      (take_bit 53 low,
       take_bit 11 (drop_bit 53 low) OR push_bit 11 (take_bit 42 high),
       take_bit 22 (drop_bit 42 high) OR push_bit 22 (take_bit 31 (tp_metadata p)),
       ucast (tp_ordinal p) OR push_bit 16 (ucast (tp_run_length p)) OR
         push_bit 32 (take_bit 21 (drop_bit 31 (tp_metadata p)))))"

definition words_payload :: "u64 \<times> u64 \<times> u64 \<times> u64 \<Rightarrow> laplace_trajectory_payload" where
  "words_payload = (\<lambda>(s0, s1, s2, s3).
     \<lparr>tp_lane128 = barray_of
        (store_u64_le (take_bit 42 (drop_bit 11 s1) OR push_bit 42 (take_bit 22 s2)) @
         store_u64_le (take_bit 53 s0 OR push_bit 53 (take_bit 11 s1))),
      tp_ordinal = ucast (take_bit 16 s3),
      tp_run_length = ucast (take_bit 16 (drop_bit 16 s3)),
      tp_metadata = take_bit 31 (drop_bit 22 s2) OR push_bit 31 (take_bit 21 (drop_bit 32 s3))\<rparr>)"

lemma lane_split:
  "store_u64_le (load_u64_le (take 8 (bytes a))) @ store_u64_le (load_u64_le (drop 8 (bytes a)))
     = bytes (a :: laplace_id128)"
  by (simp add: store_load)

lemma words_payload_slot_words:
  assumes "take_bit 52 (tp_metadata p) = tp_metadata p"
  shows "words_payload (slot_words p) = p"
proof -
  let ?h = "load_u64_le (take 8 (bytes (tp_lane128 p)))"
  let ?l = "load_u64_le (drop 8 (bytes (tp_lane128 p)))"
  let ?m = "tp_metadata p"
  let ?s1 = "take_bit 11 (drop_bit 53 ?l) OR push_bit 11 (take_bit 42 ?h)"
  let ?s2 = "take_bit 22 (drop_bit 42 ?h) OR push_bit 22 (take_bit 31 ?m)"
  let ?s3 = "ucast (tp_ordinal p) OR push_bit 16 (ucast (tp_run_length p)) OR
         push_bit 32 (take_bit 21 (drop_bit 31 ?m)) :: u64"
  have h: "take_bit 42 (drop_bit 11 ?s1) OR push_bit 42 (take_bit 22 ?s2) = ?h"
    by (rule bit_word_eqI) (auto simp: bit_simps dest: bit_imp_le_length)
  have l: "take_bit 53 (take_bit 53 ?l) OR push_bit 53 (take_bit 11 ?s1) = ?l"
    by (rule bit_word_eqI) (auto simp: bit_simps dest: bit_imp_le_length)
  have "take_bit 31 (drop_bit 22 ?s2) OR push_bit 31 (take_bit 21 (drop_bit 32 ?s3)) = take_bit 52 ?m"
    by (rule bit_word_eqI) (auto simp: bit_simps dest: bit_imp_le_length)
  then have m: "take_bit 31 (drop_bit 22 ?s2) OR push_bit 31 (take_bit 21 (drop_bit 32 ?s3)) = ?m"
    using assms by simp
  have o: "ucast (take_bit 16 ?s3) = tp_ordinal p"
    by (rule bit_word_eqI) (auto simp: bit_simps dest: bit_imp_le_length)
  have r: "ucast (take_bit 16 (drop_bit 16 ?s3)) = tp_run_length p"
    by (rule bit_word_eqI) (auto simp: bit_simps dest: bit_imp_le_length)
  show ?thesis
    unfolding words_payload_def slot_words_def Let_def prod.case h l m o r
    by (simp add: lane_split)
qed

lemma slot_words_words_payload:
  assumes "take_bit 53 s0 = s0" "take_bit 53 s1 = s1" "take_bit 53 s2 = s2" "take_bit 53 s3 = s3"
  shows "slot_words (words_payload (s0, s1, s2, s3)) = (s0, s1, s2, s3)"
proof -
  let ?h = "take_bit 42 (drop_bit 11 s1) OR push_bit 42 (take_bit 22 s2)"
  let ?l = "take_bit 53 s0 OR push_bit 53 (take_bit 11 s1)"
  let ?m = "take_bit 31 (drop_bit 22 s2) OR push_bit 31 (take_bit 21 (drop_bit 32 s3))"
  have b: "bytes (barray_of (store_u64_le ?h @ store_u64_le ?l) :: laplace_id128) =
      store_u64_le ?h @ store_u64_le ?l"
    by (simp add: store_u64_le_eq)
  have tk: "take 8 (store_u64_le ?h @ store_u64_le ?l) = store_u64_le ?h"
    and dr: "drop 8 (store_u64_le ?h @ store_u64_le ?l) = store_u64_le ?l"
    by (simp_all add: store_u64_le_eq)
  have f0: "take_bit 53 ?l = take_bit 53 s0"
    by (rule bit_word_eqI) (auto simp: bit_simps dest: bit_imp_le_length)
  have f1: "take_bit 11 (drop_bit 53 ?l) OR push_bit 11 (take_bit 42 ?h) = take_bit 53 s1"
    by (rule bit_word_eqI) (auto simp: bit_simps dest: bit_imp_le_length)
  have f2: "take_bit 22 (drop_bit 42 ?h) OR push_bit 22 (take_bit 31 ?m) = take_bit 53 s2"
    by (rule bit_word_eqI) (auto simp: bit_simps dest: bit_imp_le_length)
  have f3: "ucast (ucast (take_bit 16 s3) :: u16) OR
      push_bit 16 (ucast (ucast (take_bit 16 (drop_bit 16 s3)) :: u16)) OR
      push_bit 32 (take_bit 21 (drop_bit 31 ?m)) = take_bit 53 s3"
    by (rule bit_word_eqI) (auto simp: bit_simps dest: bit_imp_le_length)
  have "slot_words (words_payload (s0, s1, s2, s3)) =
      (take_bit 53 s0, take_bit 53 s1, take_bit 53 s2, take_bit 53 s3)"
    by (simp only: slot_words_def words_payload_def Let_def prod.case
        laplace_trajectory_payload.simps b tk dr load_store f0 f1 f2 f3)
  then show ?thesis by (simp only: assms)
qed

definition carrier_of_words :: "u64 \<times> u64 \<times> u64 \<times> u64 \<Rightarrow> laplace_trajectory_carrier" where
  "carrier_of_words = (\<lambda>(s0, s1, s2, s3).
     \<lparr>slot0 = payload_slot_to_double s0, slot1 = payload_slot_to_double s1,
      slot2 = payload_slot_to_double s2, slot3 = payload_slot_to_double s3\<rparr>)"

lemma encode_eq:
  "laplace_trajectory_carrier_encode (Some p) (Some c) =
    (if take_bit 52 (tp_metadata p) = tp_metadata p
     then (LAPLACE_TRAJECTORY_OK, Some (carrier_of_words (slot_words p)))
     else (LAPLACE_TRAJECTORY_METADATA_OUT_OF_RANGE, Some c))"
  by (simp add: laplace_trajectory_carrier_encode_def metadata_range carrier_of_words_def
      slot_words_def Let_def and_masks)

lemma decode_eq:
  "laplace_trajectory_carrier_decode (Some c) (Some q) =
    (case (double_to_payload_slot (slot0 c), double_to_payload_slot (slot1 c),
           double_to_payload_slot (slot2 c), double_to_payload_slot (slot3 c)) of
       (Some s0, Some s1, Some s2, Some s3) \<Rightarrow>
         (LAPLACE_TRAJECTORY_OK, Some (words_payload (s0, s1, s2, s3)))
     | _ \<Rightarrow> (LAPLACE_TRAJECTORY_INVALID_CARRIER, Some q))"
  by (simp add: laplace_trajectory_carrier_decode_def words_payload_def Let_def and_masks
      and_0xffff split: option.split)

lemma slot_words_53:
  assumes "slot_words p = (s0, s1, s2, s3)"
  shows "take_bit 53 s0 = s0" "take_bit 53 s1 = s1" "take_bit 53 s2 = s2" "take_bit 53 s3 = s3"
proof -
  show "take_bit 53 s0 = s0"
    using assms by (auto simp: slot_words_def Let_def)
  show "take_bit 53 s1 = s1" "take_bit 53 s2 = s2" "take_bit 53 s3 = s3"
    using assms
    by (auto simp: slot_words_def Let_def intro!: bit_word_eqI)
      (auto simp: bit_simps dest: bit_imp_le_length)
qed

lemma decode_carrier_of_words:
  assumes "take_bit 52 (tp_metadata p) = tp_metadata p"
  shows "laplace_trajectory_carrier_decode (Some (carrier_of_words (slot_words p))) (Some q) =
    (LAPLACE_TRAJECTORY_OK, Some p)"
proof -
  obtain s0 s1 s2 s3 where s: "slot_words p = (s0, s1, s2, s3)" by (metis prod_cases4)
  have "words_payload (s0, s1, s2, s3) = p"
    using words_payload_slot_words [OF assms] s by simp
  then show ?thesis
    unfolding decode_eq s carrier_of_words_def prod.case laplace_trajectory_carrier.simps
      slot_to_double_to_slot slot_words_53 [OF s] by simp
qed

lemma encode_decoded:
  assumes "laplace_trajectory_carrier_decode (Some c) (Some q) = (LAPLACE_TRAJECTORY_OK, Some p)"
  shows "carrier_of_words (slot_words p) = c" "take_bit 52 (tp_metadata p) = tp_metadata p"
proof -
  obtain s0 s1 s2 s3 where
    s: "double_to_payload_slot (slot0 c) = Some s0" "double_to_payload_slot (slot1 c) = Some s1"
       "double_to_payload_slot (slot2 c) = Some s2" "double_to_payload_slot (slot3 c) = Some s3"
    and p: "p = words_payload (s0, s1, s2, s3)"
    using assms unfolding decode_eq by (auto split: option.splits)
  note inv = double_to_slot_to_double [OF s(1)] double_to_slot_to_double [OF s(2)]
    double_to_slot_to_double [OF s(3)] double_to_slot_to_double [OF s(4)]
  have "slot_words p = (s0, s1, s2, s3)"
    unfolding p by (rule slot_words_words_payload) (fact inv)+
  then show "carrier_of_words (slot_words p) = c"
    by (simp add: carrier_of_words_def inv)
  show "take_bit 52 (tp_metadata p) = tp_metadata p"
    unfolding p by (auto simp: words_payload_def intro!: bit_word_eqI) (auto simp: bit_simps)
qed

section \<open>Decoded compositions\<close>

text \<open>The records of a valid composition, and what makes a list of records contiguous: each
  starts where the one before ends, and no position exceeds 64 bits.\<close>

fun decode_all ::
  "laplace_trajectory_carrier list \<Rightarrow> u64 \<Rightarrow> laplace_composition_occurrence list" where
  "decode_all [] ord = []"
| "decode_all (c # cs) ord =
     (case laplace_trajectory_composition_decode_one (Some c) ord (Some occurrence_local) of
        (LAPLACE_TRAJECTORY_OK, Some oc) \<Rightarrow> oc # decode_all cs (ord + ucast (oc_run_length oc))
      | _ \<Rightarrow> [])"

fun contiguous :: "laplace_composition_occurrence list \<Rightarrow> u64 \<Rightarrow> bool" where
  "contiguous [] ord \<longleftrightarrow> ord \<noteq> 0"
| "contiguous (oc # ocs) ord \<longleftrightarrow>
     oc_logical_ordinal oc = ord \<and> ord \<noteq> 0 \<and> oc_run_length oc \<noteq> 0 \<and>
     unat ord + unat (oc_run_length oc) < 2 ^ 64 \<and>
     contiguous ocs (ord + ucast (oc_run_length oc))"

lemma unat_ucast_u16 [simp]: "unat (ucast (r :: u16) :: u64) = unat r"
  using unsigned_less [of r, where 'a = nat]
  by (simp add: unsigned_ucast_eq take_bit_nat_eq_self_iff)

lemma run_no_overflow:
  "\<not> UINT64_MAX - ord < ucast (r :: u16) \<longleftrightarrow> unat ord + unat r < 2 ^ 64"
  using add_u64_Some_iff [of ord "ucast r" "ord + ucast r"]
  by (auto simp: add_u64_def split: if_splits)

lemma unat_ordinal_step:
  "unat ord + unat (r :: u16) < 2 ^ 64 \<Longrightarrow> unat (ord + ucast r :: u64) = unat ord + unat r"
  by (simp add: unat_word_ariths)

lemma decode_one_cases:
  "laplace_trajectory_composition_decode_one (Some c) ord (Some q) =
     (st, r) \<Longrightarrow>
   (st = LAPLACE_TRAJECTORY_OK \<and>
      (\<exists>p. laplace_trajectory_carrier_decode (Some c) (Some payload_zero) =
          (LAPLACE_TRAJECTORY_OK, Some p) \<and> r = Some (occurrence_of p ord) \<and> ord \<noteq> 0 \<and>
        tp_run_length p \<noteq> 0 \<and> tp_ordinal p = packed_ordinal_of ord \<and>
        \<not> UINT64_MAX - ord < ucast (tp_run_length p) - 1)) \<or>
   (st \<noteq> LAPLACE_TRAJECTORY_OK \<and> r = Some q)"
  by (auto simp: laplace_trajectory_composition_decode_one_def decode_eq
      split: if_splits option.splits prod.splits laplace_trajectory_status.splits)

lemma decode_one_OK_fields:
  assumes "laplace_trajectory_composition_decode_one (Some c) ord (Some q) =
    (LAPLACE_TRAJECTORY_OK, r)"
  obtains oc where "r = Some oc" "oc_logical_ordinal oc = ord" "ord \<noteq> 0" "oc_run_length oc \<noteq> 0"
  using decode_one_cases [OF assms] by (auto simp: occurrence_of_def)

lemma validate_ok:
  assumes "validate_composition_loop cs ord = Inr t" "ord \<noteq> 0"
  shows "contiguous (decode_all cs ord) ord \<and> length (decode_all cs ord) = length cs \<and>
    unat t + 1 = unat ord + sum_list (map (unat \<circ> oc_run_length) (decode_all cs ord))"
  using assms
proof (induction cs arbitrary: ord)
  case Nil
  then have "0 < unat ord" by (simp add: unat_gt_0)
  then have "unat (ord - 1) = unat ord - 1"
    by (metis One_nat_def Suc_leI unat_1 unat_sub word_le_nat_alt)
  with Nil \<open>0 < unat ord\<close> show ?case by auto
next
  case (Cons c cs)
  obtain st r where d:
    "laplace_trajectory_composition_decode_one (Some c) ord (Some occurrence_local) = (st, r)"
    by fastforce
  have st: "st = LAPLACE_TRAJECTORY_OK"
    using Cons.prems(1) d by (auto split: laplace_trajectory_status.splits)
  obtain oc where oc: "r = Some oc" "oc_logical_ordinal oc = ord" "oc_run_length oc \<noteq> 0"
    using d st decode_one_OK_fields by metis
  have no: "\<not> UINT64_MAX - ord < ucast (oc_run_length oc)"
    and v: "validate_composition_loop cs (ord + ucast (oc_run_length oc)) = Inr t"
    using Cons.prems(1) d st oc(1) by (auto split: if_splits)
  have sm: "unat ord + unat (oc_run_length oc) < 2 ^ 64"
    using no by (simp only: run_no_overflow)
  have step: "unat (ord + ucast (oc_run_length oc)) = unat ord + unat (oc_run_length oc)"
    using sm by (rule unat_ordinal_step)
  moreover have "0 < unat ord" using Cons.prems(2) by (simp add: unat_gt_0)
  ultimately have nz: "ord + ucast (oc_run_length oc) \<noteq> 0"
    by (metis add_is_0 less_not_refl unat_0)
  show ?case
    using Cons.IH [OF v nz] d st oc sm step Cons.prems(2) by simp
qed

lemma validate_not_ok:
  "validate_composition_loop cs ord = Inl st \<Longrightarrow> st \<noteq> LAPLACE_TRAJECTORY_OK"
proof (induction cs arbitrary: ord)
  case (Cons c cs)
  obtain st' r where d:
    "laplace_trajectory_composition_decode_one (Some c) ord (Some occurrence_local) = (st', r)"
    by fastforce
  show ?case
  proof (cases "st' = LAPLACE_TRAJECTORY_OK")
    case True
    then obtain oc where "r = Some oc" using d decode_one_OK_fields by metis
    with Cons d True show ?thesis by (auto split: if_splits)
  next
    case False
    with Cons.prems d show ?thesis by (auto split: laplace_trajectory_status.splits)
  qed
qed simp

lemma decode_loop_ok:
  assumes "validate_composition_loop cs ord = Inr t" "k + length cs \<le> length occs"
  shows "composition_decode_loop cs k ord occs =
    (LAPLACE_TRAJECTORY_OK, take k occs @ decode_all cs ord @ drop (k + length cs) occs)"
  using assms
proof (induction cs arbitrary: ord k occs)
  case (Cons c cs)
  obtain st r where d:
    "laplace_trajectory_composition_decode_one (Some c) ord (Some occurrence_local) = (st, r)"
    by fastforce
  have st: "st = LAPLACE_TRAJECTORY_OK"
    using Cons.prems(1) d by (auto split: laplace_trajectory_status.splits)
  obtain oc where oc: "r = Some oc"
    using d st decode_one_OK_fields by metis
  have "validate_composition_loop cs (ord + ucast (oc_run_length oc)) = Inr t"
    using Cons.prems(1) d st oc(1) by (auto split: if_splits)
  with Cons.IH [of "ord + ucast (oc_run_length oc)" "Suc k" "occs[k := oc]"] Cons.prems(2)
  show ?case
    using d st oc by (simp add: take_Suc_conv_app_nth)
qed simp

lemma contiguous_before:
  assumes "contiguous ocs ord" "i < j" "j < length ocs"
  shows "unat (oc_logical_ordinal (ocs ! i)) + unat (oc_run_length (ocs ! i))
           \<le> unat (oc_logical_ordinal (ocs ! j))"
proof -
  have start: "unat ord \<le> unat (oc_logical_ordinal (ocs ! j))"
    if "contiguous ocs ord" "j < length ocs" for ocs ord j
    using that
  proof (induction ocs arbitrary: ord j)
    case (Cons oc ocs)
    then show ?case
      by (cases j) (auto simp: unat_ordinal_step dest!: Cons.IH)
  qed simp
  show ?thesis
    using assms
  proof (induction ocs arbitrary: ord i j)
    case (Cons oc ocs)
    from Cons.prems obtain j' where j: "j = Suc j'" by (cases j) auto
    show ?case
    proof (cases i)
      case 0
      then show ?thesis
        using Cons.prems j start [of ocs "ord + ucast (oc_run_length oc)" j']
        by (simp add: unat_ordinal_step)
    next
      case (Suc i')
      with Cons.prems j Cons.IH [of "ord + ucast (oc_run_length oc)" i' j'] show ?thesis by simp
    qed
  qed simp
qed

lemma contiguous_nth:
  assumes "contiguous ocs ord" "i < length ocs"
  shows "oc_run_length (ocs ! i) \<noteq> 0" "oc_logical_ordinal (ocs ! i) \<noteq> 0"
    "unat (oc_logical_ordinal (ocs ! i)) + unat (oc_run_length (ocs ! i)) < 2 ^ 64"
  using assms by (induction ocs arbitrary: ord i) (auto simp: nth_Cons split: nat.splits)

section \<open>The carrier as a codec\<close>

definition carrier_zero :: laplace_trajectory_carrier where
  "carrier_zero = \<lparr>slot0 = 0, slot1 = 0, slot2 = 0, slot3 = 0\<rparr>"

definition carrier_of :: "laplace_trajectory_payload \<Rightarrow> laplace_trajectory_carrier" where
  "carrier_of p = the (snd (laplace_trajectory_carrier_encode (Some p) (Some carrier_zero)))"

definition payload_of :: "laplace_trajectory_carrier \<Rightarrow> laplace_trajectory_payload option" where
  "payload_of c =
     (case laplace_trajectory_carrier_decode (Some c) (Some payload_zero) of
        (LAPLACE_TRAJECTORY_OK, p) \<Rightarrow> p | _ \<Rightarrow> None)"

definition metadata_fits :: "laplace_trajectory_payload \<Rightarrow> bool" where
  "metadata_fits p \<longleftrightarrow> unat (tp_metadata p) < 2 ^ 52"

lemma metadata_fits_iff: "metadata_fits p \<longleftrightarrow> take_bit 52 (tp_metadata p) = tp_metadata p"
proof -
  have "take_bit 52 (tp_metadata p) = tp_metadata p \<longleftrightarrow>
      unat (take_bit 52 (tp_metadata p)) = unat (tp_metadata p)"
    by (simp add: word_unat_eq_iff)
  then show ?thesis
    by (simp add: metadata_fits_def unsigned_take_bit_eq take_bit_nat_eq_self_iff)
qed

lemma payload_of_Some_iff:
  "payload_of c = Some p \<longleftrightarrow>
     laplace_trajectory_carrier_decode (Some c) (Some q) = (LAPLACE_TRAJECTORY_OK, Some p)"
  by (auto simp: payload_of_def decode_eq split: option.splits)

interpretation carrier: partial_codec carrier_of payload_of metadata_fits
proof
  fix p c
  show "metadata_fits p \<Longrightarrow> payload_of (carrier_of p) = Some p"
    by (simp add: carrier_of_def encode_eq metadata_fits_iff payload_of_def decode_carrier_of_words)
  show "payload_of c = Some p \<Longrightarrow> metadata_fits p \<and> carrier_of p = c"
    using encode_decoded [of c payload_zero p]
    by (simp add: payload_of_Some_iff [where q = payload_zero] carrier_of_def encode_eq metadata_fits_iff)
qed

lemma carrier_encode_fits:
  "metadata_fits p \<Longrightarrow>
     laplace_trajectory_carrier_encode (Some p) (Some c) = (LAPLACE_TRAJECTORY_OK, Some (carrier_of p))"
  by (simp add: carrier_of_def encode_eq metadata_fits_iff)

text \<open>C24: the 212-bit carrier loses nothing.  A payload whose metadata fits 52 bits is encoded,
  and decoding the carrier returns exactly that payload.\<close>

theorem carrier_encode_decode:
  assumes "unat (tp_metadata p) < 2 ^ 52"
  shows "\<exists>c'. laplace_trajectory_carrier_encode (Some p) (Some c) = (LAPLACE_TRAJECTORY_OK, Some c') \<and>
    laplace_trajectory_carrier_decode (Some c') (Some q) = (LAPLACE_TRAJECTORY_OK, Some p)"
  using assms carrier.decode_encode [of p]
  by (simp add: carrier_encode_fits metadata_fits_def payload_of_Some_iff [where q = q])

definition sample_payload :: laplace_trajectory_payload where
  "sample_payload = \<lparr>tp_lane128 = barray_of (replicate 16 0xd6), tp_ordinal = 1,
     tp_run_length = 3, tp_metadata = 0x1880000001\<rparr>"

theorem carrier_encode_decode_witness:
  "\<exists>c'. laplace_trajectory_carrier_encode (Some sample_payload) (Some carrier_zero) =
      (LAPLACE_TRAJECTORY_OK, Some c') \<and>
    laplace_trajectory_carrier_decode (Some c') (Some payload_zero) =
      (LAPLACE_TRAJECTORY_OK, Some sample_payload)"
  using carrier_encode_decode [of sample_payload carrier_zero payload_zero]
  by (simp add: sample_payload_def)

text \<open>C27: carriers are canonical.  Whatever decodes successfully re-encodes to the same four
  slots bit for bit, so distinct valid carriers never decode to the same payload.\<close>

theorem carrier_decode_encode:
  assumes "laplace_trajectory_carrier_decode (Some c) (Some q) = (LAPLACE_TRAJECTORY_OK, Some p)"
  shows "laplace_trajectory_carrier_encode (Some p) (Some c0) = (LAPLACE_TRAJECTORY_OK, Some c) \<and>
    (\<forall>c'. laplace_trajectory_carrier_decode (Some c') (Some q) = (LAPLACE_TRAJECTORY_OK, Some p)
       \<longrightarrow> c' = c)"
  using assms carrier.decode_Some_iff
  by (auto simp: carrier_encode_fits simp flip: payload_of_Some_iff)

theorem carrier_decode_encode_witness:
  "\<exists>c. laplace_trajectory_carrier_decode (Some c) (Some payload_zero) =
      (LAPLACE_TRAJECTORY_OK, Some sample_payload) \<and>
    laplace_trajectory_carrier_encode (Some sample_payload) (Some carrier_zero) =
      (LAPLACE_TRAJECTORY_OK, Some c)"
proof -
  have "metadata_fits sample_payload"
    by (simp add: metadata_fits_def sample_payload_def)
  then have "payload_of (carrier_of sample_payload) = Some sample_payload"
    by (rule carrier.decode_encode)
  then have "laplace_trajectory_carrier_decode (Some (carrier_of sample_payload)) (Some payload_zero) =
      (LAPLACE_TRAJECTORY_OK, Some sample_payload)"
    by (rule payload_of_Some_iff [THEN iffD1])
  with carrier_decode_encode [OF this, of carrier_zero] show ?thesis by blast
qed

text \<open>C28: decoding a composition is atomic.  With room for the records, a batch either
  fails and leaves the records and the count untouched, or succeeds, writes one record per
  carrier, contiguous from ordinal 1, and reports the sum of the run lengths.\<close>

theorem composition_decode_atomic:
  assumes "length cs \<le> length occs" "length cs \<le> capacity"
  shows "(\<exists>st. st \<noteq> LAPLACE_TRAJECTORY_OK \<and>
      laplace_trajectory_composition_decode (Span cs) (Some occs) capacity (Some n) =
        (st, Some occs, Some n)) \<or>
    (\<exists>ocs t. laplace_trajectory_composition_decode (Span cs) (Some occs) capacity (Some n) =
        (LAPLACE_TRAJECTORY_OK, Some (ocs @ drop (length cs) occs), Some t) \<and>
      length ocs = length cs \<and> contiguous ocs 1 \<and>
      unat t = sum_list (map (unat \<circ> oc_run_length) ocs))"
proof (cases "validate_composition cs")
  case (Inl st)
  have "st \<noteq> LAPLACE_TRAJECTORY_OK"
    using Inl unfolding validate_composition_def
    by (rule validate_not_ok)
  with Inl assms show ?thesis
    by (auto simp: laplace_trajectory_composition_decode_def)
next
  case (Inr t)
  then have v: "validate_composition_loop cs 1 = Inr t" by (simp add: validate_composition_def)
  have "composition_decode_loop cs 0 1 occs =
      (LAPLACE_TRAJECTORY_OK, decode_all cs 1 @ drop (length cs) occs)"
    using decode_loop_ok [OF v, of 0 occs] assms(1) by simp
  with Inr assms validate_ok [OF v] show ?thesis
    by (auto simp: laplace_trajectory_composition_decode_def)
qed

text \<open>On contiguous records the precedence query answers exactly by position: record \<open>i\<close>
  precedes record \<open>j\<close> if and only if \<open>i < j\<close>, and it never reports an overflow.\<close>

theorem precedes_iff_before:
  assumes "contiguous ocs ord" "i < length ocs" "j < length ocs"
  shows "laplace_trajectory_occurrence_precedes (Span ocs) i j (Some b) =
    (LAPLACE_TRAJECTORY_OK, Some (i < j))"
proof -
  note ni = contiguous_nth [OF assms(1,2)] and nj = contiguous_nth [OF assms(1,3)]
  let ?oi = "oc_logical_ordinal (ocs ! i)" and ?ri = "oc_run_length (ocs ! i)"
  have r: "0 < unat ?ri" using ni(1) by (simp add: unat_gt_0)
  have rm: "unat (ucast ?ri - 1 :: u64) = unat ?ri - 1"
    using r by (subst unat_sub) (simp_all add: word_le_nat_alt)
  have no: "\<not> UINT64_MAX - ?oi < ucast ?ri - 1"
    using ni(3) by (simp add: word_less_nat_alt unat_minus_one_minus rm)
  have e: "unat (?oi + ucast ?ri - 1) = unat ?oi + unat ?ri - 1"
    using r ni(3) by (subst unat_sub) (simp_all add: word_le_nat_alt unat_ordinal_step)
  have "?oi + ucast ?ri - 1 < oc_logical_ordinal (ocs ! j) \<longleftrightarrow> i < j"
  proof (cases "i < j")
    case True
    with contiguous_before [OF assms(1) True assms(3)] r show ?thesis
      by (simp add: word_less_nat_alt e)
  next
    case False
    then have "j = i \<or> j < i" by auto
    then have "unat (oc_logical_ordinal (ocs ! j)) \<le> unat ?oi"
      using contiguous_before [OF assms(1) _ assms(2), of j] by auto
    with False r show ?thesis by (simp add: word_less_nat_alt e)
  qed
  with ni(1) nj(1) no assms(2,3) show ?thesis
    by (simp add: laplace_trajectory_occurrence_precedes_def Let_def)
qed

section \<open>Multiplicities\<close>

definition expand_occurrences :: "laplace_composition_occurrence list \<Rightarrow> laplace_id128 list" where
  "expand_occurrences ocs =
     concat (map (\<lambda>oc. replicate (unat (oc_run_length oc)) (oc_entity_id oc)) ocs)"

lemma count_list_replicate: "count_list (replicate n x) y = (if x = y then n else 0)"
  by (induction n) auto

lemma contiguous_total:
  "contiguous ocs ord \<Longrightarrow> unat ord + length (expand_occurrences ocs) < 2 ^ 64"
proof (induction ocs arbitrary: ord)
  case Nil
  then show ?case using unsigned_less [of ord, where 'a = nat] by (simp add: expand_occurrences_def)
next
  case (Cons oc ocs)
  then show ?case
    using Cons.IH [of "ord + ucast (oc_run_length oc)"]
    by (simp add: unat_ordinal_step expand_occurrences_def)
qed

lemma entity_count_loop_ok:
  assumes "unat n + count_list (expand_occurrences ocs) e < 2 ^ 64"
  shows "\<exists>c. entity_count_loop ocs e n = Inr c \<and>
    unat c = unat n + count_list (expand_occurrences ocs) e"
  using assms
proof (induction ocs arbitrary: n)
  case (Cons oc ocs)
  show ?case
  proof (cases "oc_entity_id oc = e")
    case True
    then have sm: "unat n + unat (oc_run_length oc) < 2 ^ 64"
      and rest: "unat n + unat (oc_run_length oc) + count_list (expand_occurrences ocs) e < 2 ^ 64"
      using Cons.prems by (auto simp: expand_occurrences_def count_list_replicate)
    have step: "unat (n + ucast (oc_run_length oc)) = unat n + unat (oc_run_length oc)"
      using sm by (rule unat_ordinal_step)
    have no: "\<not> UINT64_MAX - n < ucast (oc_run_length oc)"
      using sm by (simp only: run_no_overflow)
    obtain c where "entity_count_loop ocs e (n + ucast (oc_run_length oc)) = Inr c"
      "unat c = unat n + unat (oc_run_length oc) + count_list (expand_occurrences ocs) e"
      using Cons.IH [of "n + ucast (oc_run_length oc)"] step rest by auto
    with True no show ?thesis
      by (simp add: identity_equal_iff expand_occurrences_def count_list_replicate)
  next
    case False
    with Cons show ?thesis
      by (simp add: identity_equal_iff expand_occurrences_def count_list_replicate)
  qed
qed (simp add: expand_occurrences_def)

text \<open>On contiguous records the entity count succeeds and is the number of times the entity
  occurs in the written-out sequence.\<close>

theorem entity_count_is_multiplicity:
  assumes "contiguous ocs ord"
  shows "\<exists>c. laplace_trajectory_entity_count (Span ocs) (Some e) (Some n) =
      (LAPLACE_TRAJECTORY_OK, Some c) \<and>
    unat c = count_list (expand_occurrences ocs) e"
proof -
  have "unat (0 :: u64) + count_list (expand_occurrences ocs) e < 2 ^ 64"
    using contiguous_total [OF assms] count_le_length [of "expand_occurrences ocs" e] by simp
  from entity_count_loop_ok [OF this] show ?thesis
    by (auto simp: laplace_trajectory_entity_count_def)
qed

definition sample_occurrences :: "laplace_composition_occurrence list" where
  "sample_occurrences =
     [occurrence_of sample_payload 1, occurrence_of (sample_payload\<lparr>tp_ordinal := 4\<rparr>) 4]"

lemma sample_occurrences_contiguous: "contiguous sample_occurrences 1"
  by (simp add: sample_occurrences_def occurrence_of_def sample_payload_def)

theorem entity_count_is_multiplicity_witness:
  "contiguous sample_occurrences 1 \<and>
   (\<exists>c. laplace_trajectory_entity_count (Span sample_occurrences) (Some (tp_lane128 sample_payload))
       (Some 0) = (LAPLACE_TRAJECTORY_OK, Some c) \<and>
     unat c = count_list (expand_occurrences sample_occurrences) (tp_lane128 sample_payload))"
  using entity_count_is_multiplicity [OF sample_occurrences_contiguous]
    sample_occurrences_contiguous by blast

theorem precedes_iff_before_witness:
  "laplace_trajectory_occurrence_precedes (Span sample_occurrences) 0 1 (Some False) =
     (LAPLACE_TRAJECTORY_OK, Some True)"
  using precedes_iff_before [OF sample_occurrences_contiguous, of 0 1 False]
  by (simp add: sample_occurrences_def)

theorem composition_decode_atomic_witness:
  "(\<exists>st. st \<noteq> LAPLACE_TRAJECTORY_OK \<and>
      laplace_trajectory_composition_decode (Span [carrier_zero]) (Some [occurrence_local]) 1 (Some 0) =
        (st, Some [occurrence_local], Some 0)) \<or>
   (\<exists>ocs t. laplace_trajectory_composition_decode (Span [carrier_zero]) (Some [occurrence_local]) 1
        (Some 0) = (LAPLACE_TRAJECTORY_OK, Some (ocs @ drop 1 [occurrence_local]), Some t) \<and>
      length ocs = 1 \<and> contiguous ocs 1 \<and> unat t = sum_list (map (unat \<circ> oc_run_length) ocs))"
  using composition_decode_atomic [of "[carrier_zero]" "[occurrence_local]" 1 0] by simp

section \<open>Encoding a whole composition\<close>

text \<open>A producer writes one carrier per run, advancing the logical ordinal by the run length.\<close>

fun encode_composition ::
  "(laplace_id128 \<times> u16 \<times> u64) list \<Rightarrow> u64 \<Rightarrow>
   laplace_trajectory_status + laplace_trajectory_carrier list" where
  "encode_composition [] ord = Inr []"
| "encode_composition ((entity, run, metadata) # rest) ord =
     (case laplace_trajectory_composition_encode (Some entity) ord run metadata (Some carrier_zero) of
        (LAPLACE_TRAJECTORY_OK, Some c) \<Rightarrow>
          (case encode_composition rest (ord + ucast run) of
             Inr cs \<Rightarrow> Inr (c # cs) | Inl st \<Rightarrow> Inl st)
      | (st, _) \<Rightarrow> Inl st)"

text \<open>
  What a reader of the composition has to see, written down from the layout in
  \<open>contracts/trajectory.json\<close> with naturals and not from the decoder: the entity, run length and
  metadata of the run; its logical ordinal, one more than the run lengths before it, with the
  packed form that is 0 from \<open>2 ^ 16\<close> on; and the atom flag (bit 0), tier (bits 1 to 5) and atom
  (bits 31 to 51) that the metadata holds.
\<close>

definition run_record :: "laplace_id128 \<times> u16 \<times> u64 \<Rightarrow> nat \<Rightarrow> laplace_composition_occurrence" where
  "run_record = (\<lambda>(entity, run, metadata) start.
     \<lparr>oc_entity_id = entity,
      oc_logical_ordinal = of_nat start,
      oc_metadata = metadata,
      oc_atom = of_nat (unat metadata div 2 ^ 31 mod 2 ^ 21),
      oc_packed_ordinal = of_nat (if start < 2 ^ 16 then start else 0),
      oc_run_length = run,
      oc_tier = of_nat (unat metadata div 2 mod 2 ^ 5),
      oc_has_atom = of_nat (unat metadata mod 2),
      oc_reserved = 0\<rparr>)"

definition runs_total :: "(laplace_id128 \<times> u16 \<times> u64) list \<Rightarrow> nat" where
  "runs_total runs = sum_list (map (\<lambda>(entity, run, metadata). unat run) runs)"

definition composition_records ::
  "(laplace_id128 \<times> u16 \<times> u64) list \<Rightarrow> nat \<Rightarrow> laplace_composition_occurrence list" where
  "composition_records runs start =
     map (\<lambda>i. run_record (runs ! i) (start + runs_total (take i runs))) [0..<length runs]"

definition composition_encodable :: "(laplace_id128 \<times> u16 \<times> u64) list \<Rightarrow> bool" where
  "composition_encodable runs \<longleftrightarrow>
     (\<forall>(e, r, m) \<in> set runs. r \<noteq> 0 \<and> unat m < 2 ^ 52) \<and>
     1 + sum_list (map (\<lambda>(e, r, m). unat r) runs) < 2 ^ 64"

lemma unat_drop_and_mask: "unat (drop_bit a (m :: u64) AND mask b) = unat m div 2 ^ a mod 2 ^ b"
proof -
  have "unat (drop_bit a m AND mask b) = take_bit b (drop_bit a (unat m))"
    by (simp only: take_bit_eq_mask [symmetric] unsigned_take_bit_eq unat_drop_bit_eq)
  then show ?thesis by (simp only: take_bit_eq_mod drop_bit_eq_div)
qed

lemma metadata_tier_nat:
  "laplace_trajectory_metadata_tier m = of_nat (unat m div 2 mod 2 ^ 5)"
  using unat_drop_and_mask [of 1 m 5, symmetric]
  by (simp add: laplace_trajectory_metadata_tier_def LAPLACE_TRAJECTORY_TIER_SHIFT_def
      LAPLACE_TRAJECTORY_TIER_MASK_def mask_eq_exp_minus_1)

lemma metadata_atom_nat:
  "laplace_trajectory_metadata_atom m = of_nat (unat m div 2 ^ 31 mod 2 ^ 21)"
  using unat_drop_and_mask [of 31 m 21, symmetric]
  by (simp add: laplace_trajectory_metadata_atom_def LAPLACE_TRAJECTORY_ATOM_SHIFT_def
      LAPLACE_TRAJECTORY_ATOM_MASK_def mask_eq_exp_minus_1)

lemma metadata_has_atom_nat:
  "(if laplace_trajectory_metadata_has_atom m then 1 else 0 :: byte) = of_nat (unat m mod 2)"
proof -
  have "unat (m AND 1) = unat m mod 2"
    using unat_drop_and_mask [of 0 m 1] by (simp add: mask_eq_exp_minus_1)
  then show ?thesis
    by (cases "m AND 1 = 0")
      (auto simp: laplace_trajectory_metadata_has_atom_def LAPLACE_TRAJECTORY_HAS_ATOM_BIT_def
        mod2_eq_if unsigned_eq_0_iff split: if_splits)
qed

lemma packed_ordinal_nat:
  assumes "k < 2 ^ 64"
  shows "packed_ordinal_of (of_nat k) = of_nat (if k < 2 ^ 16 then k else 0)"
proof -
  have u: "unat (of_nat k :: u64) = k" using assms by (simp add: unat_of_nat)
  then have "(of_nat k :: u64) \<le> 0xffff \<longleftrightarrow> k < 2 ^ 16" by (simp only: word_le_nat_alt) auto
  moreover have "(ucast (of_nat k :: u64) :: u16) = of_nat k" using u by (metis of_nat_unat)
  ultimately show ?thesis by (simp add: packed_ordinal_of_def)
qed

lemma occurrence_of_run:
  assumes "k < 2 ^ 64"
  shows "occurrence_of \<lparr>tp_lane128 = e, tp_ordinal = packed_ordinal_of (of_nat k), tp_run_length = r,
      tp_metadata = m\<rparr> (of_nat k) = run_record (e, r, m) k"
  using assms
  by (simp only: occurrence_of_def run_record_def prod.case metadata_tier_nat metadata_atom_nat
      metadata_has_atom_nat packed_ordinal_nat laplace_trajectory_payload.select_convs)

lemma composition_records_Cons:
  "composition_records ((e, r, m) # runs) k =
     run_record (e, r, m) k # composition_records runs (k + unat r)"
proof -
  have "composition_records ((e, r, m) # runs) k =
      run_record (e, r, m) k #
        map (\<lambda>i. run_record (runs ! i) (k + unat r + runs_total (take i runs))) [0..<length runs]"
    by (simp add: composition_records_def runs_total_def upt_conv_Cons map_Suc_upt [symmetric] add.assoc
        del: upt_Suc)
  then show ?thesis by (simp add: composition_records_def)
qed

lemma composition_records_Nil [simp]: "composition_records [] k = []"
  by (simp add: composition_records_def)

lemma run_minus_one_no_overflow:
  assumes "(r :: u16) \<noteq> 0" "unat ord + unat r < 2 ^ 64"
  shows "\<not> UINT64_MAX - ord < ucast r - 1"
proof -
  have "0 < unat r" using assms(1) by (simp add: unat_gt_0)
  then have "unat (ucast r - 1 :: u64) = unat r - 1"
    by (subst unat_sub) (simp_all add: word_le_nat_alt)
  with assms(2) show ?thesis
    by (simp add: word_less_nat_alt unat_minus_one_minus)
qed

lemma composition_step:
  assumes "ord \<noteq> 0" "r \<noteq> 0" "unat m < 2 ^ 52" "unat ord + unat r < 2 ^ 64"
  shows "\<exists>c. laplace_trajectory_composition_encode (Some e) ord r m (Some carrier_zero) =
      (LAPLACE_TRAJECTORY_OK, Some c) \<and>
    laplace_trajectory_composition_decode_one (Some c) ord (Some q) =
      (LAPLACE_TRAJECTORY_OK, Some (occurrence_of
        \<lparr>tp_lane128 = e, tp_ordinal = packed_ordinal_of ord, tp_run_length = r, tp_metadata = m\<rparr> ord))"
proof -
  let ?p = "\<lparr>tp_lane128 = e, tp_ordinal = packed_ordinal_of ord, tp_run_length = r, tp_metadata = m\<rparr>"
  have fits: "metadata_fits ?p" using assms(3) by (simp add: metadata_fits_def)
  have "laplace_trajectory_carrier_decode (Some (carrier_of ?p)) (Some payload_zero) =
      (LAPLACE_TRAJECTORY_OK, Some ?p)"
    using carrier.decode_encode [OF fits] by (rule payload_of_Some_iff [THEN iffD1])
  with assms fits run_minus_one_no_overflow [OF assms(2,4)] show ?thesis
    by (simp add: laplace_trajectory_composition_encode_def carrier_encode_fits
        laplace_trajectory_composition_decode_one_def)
qed

lemma encode_composition_ok:
  assumes "0 < k" "\<forall>(e, r, m) \<in> set runs. r \<noteq> 0 \<and> unat m < 2 ^ 52"
    and "k + runs_total runs < 2 ^ 64"
  shows "\<exists>cs. encode_composition runs (of_nat k) = Inr cs \<and> length cs = length runs \<and>
    validate_composition_loop cs (of_nat k) = Inr (of_nat (k + runs_total runs) - 1) \<and>
    decode_all cs (of_nat k) = composition_records runs k"
  using assms
proof (induction runs arbitrary: k)
  case (Cons x runs)
  obtain e r m where x: "x = (e, r, m)" by (cases x)
  have u: "unat (of_nat k :: u64) = k" using Cons.prems(3) by (simp add: unat_of_nat)
  have pre: "(of_nat k :: u64) \<noteq> 0" "r \<noteq> 0" "unat m < 2 ^ 52" "unat (of_nat k :: u64) + unat r < 2 ^ 64"
    using Cons.prems x u by (auto simp: runs_total_def simp flip: unat_gt_0)
  have k: "k < 2 ^ 64" using Cons.prems(3) by simp
  have adv: "(of_nat k + ucast r :: u64) = of_nat (k + unat r)" by simp
  obtain cs where IH: "encode_composition runs (of_nat (k + unat r)) = Inr cs"
    "length cs = length runs"
    "validate_composition_loop cs (of_nat (k + unat r)) =
      Inr (of_nat (k + unat r + runs_total runs) - 1)"
    "decode_all cs (of_nat (k + unat r)) = composition_records runs (k + unat r)"
    using Cons.IH [of "k + unat r"] Cons.prems x by (auto simp: runs_total_def)
  obtain c where c: "laplace_trajectory_composition_encode (Some e) (of_nat k) r m (Some carrier_zero) =
      (LAPLACE_TRAJECTORY_OK, Some c)"
    "laplace_trajectory_composition_decode_one (Some c) (of_nat k) (Some occurrence_local) =
      (LAPLACE_TRAJECTORY_OK, Some (occurrence_of
        \<lparr>tp_lane128 = e, tp_ordinal = packed_ordinal_of (of_nat k), tp_run_length = r,
         tp_metadata = m\<rparr> (of_nat k)))"
    using composition_step [OF pre, of e occurrence_local] by blast
  have no: "\<not> UINT64_MAX - of_nat k < ucast r"
    using pre(4) by (simp only: run_no_overflow)
  have f: "oc_run_length (run_record (e, r, m) k) = r" by (simp add: run_record_def)
  show ?case
    using c no IH
    by (simp add: x f adv occurrence_of_run [OF k] composition_records_Cons runs_total_def add.assoc
        del: of_nat_add)
qed (simp add: runs_total_def)

text \<open>C3: a composition of runs survives the wire.  Encoding the runs with advancing ordinals
  succeeds, and decoding the carriers into an array with room reports the total of the run lengths
  and writes one record per run, in order: its entity, run length and metadata are the ones of the
  run, its ordinal is one more than the run lengths before it, with the packed form, the atom flag,
  tier and atom read off with naturals at the bit positions of the contract.  The room after the
  records is untouched.\<close>

theorem composition_roundtrip:
  assumes "composition_encodable runs" "length runs \<le> length occs" "length runs \<le> capacity"
  shows "\<exists>cs t. encode_composition runs 1 = Inr cs \<and>
    laplace_trajectory_composition_decode (Span cs) (Some occs) capacity (Some n) =
      (LAPLACE_TRAJECTORY_OK, Some (composition_records runs 1 @ drop (length runs) occs), Some t) \<and>
    unat t = runs_total runs"
proof -
  have enc: "\<forall>(e, r, m) \<in> set runs. r \<noteq> 0 \<and> unat m < 2 ^ 52" "1 + runs_total runs < 2 ^ 64"
    using assms(1) unfolding composition_encodable_def runs_total_def by blast+
  have ok: "\<exists>cs. encode_composition runs 1 = Inr cs \<and> length cs = length runs \<and>
    validate_composition_loop cs 1 = Inr (of_nat (runs_total runs)) \<and>
    decode_all cs 1 = composition_records runs 1"
    using encode_composition_ok [OF _ enc] by simp
  obtain cs where e: "encode_composition runs 1 = Inr cs" "length cs = length runs"
    "validate_composition_loop cs 1 = Inr (of_nat (runs_total runs))"
    "decode_all cs 1 = composition_records runs 1"
    using ok by blast
  have "composition_decode_loop cs 0 1 occs =
      (LAPLACE_TRAJECTORY_OK, composition_records runs 1 @ drop (length runs) occs)"
    using decode_loop_ok [OF e(3), of 0 occs] assms(2) e(2,4) by simp
  moreover have "unat (of_nat (runs_total runs) :: u64) = runs_total runs"
    using enc(2) by (simp add: unat_of_nat)
  ultimately show ?thesis
    using e assms(3) by (simp add: laplace_trajectory_composition_decode_def validate_composition_def)
qed

theorem composition_roundtrip_witness:
  "composition_encodable [(0, 2, 5), (barray_of (replicate 16 1), 70, 0)] \<and>
   (\<exists>cs t. encode_composition [(0, 2, 5), (barray_of (replicate 16 1), 70, 0)] 1 = Inr cs \<and>
     laplace_trajectory_composition_decode (Span cs) (Some [occurrence_local, occurrence_local]) 2 (Some 0) =
      (LAPLACE_TRAJECTORY_OK,
       Some [run_record (0, 2, 5) 1, run_record (barray_of (replicate 16 1), 70, 0) 3], Some t) \<and>
     unat t = 72)"
proof -
  have "composition_encodable [(0, 2, 5), (barray_of (replicate 16 1), 70, 0)]"
    by (simp add: composition_encodable_def)
  with composition_roundtrip [OF this, of "[occurrence_local, occurrence_local]" 2 0]
  show ?thesis by (simp add: composition_records_Cons runs_total_def numeral_3_eq_3 del: encode_composition.simps)
qed

lemma cooccur_fold:
  "foldl (\<lambda>(fl, fr) oc. (fl \<or> laplace_identity_equal (Some (oc_entity_id oc)) (Some a),
                         fr \<or> laplace_identity_equal (Some (oc_entity_id oc)) (Some b))) (p, q) ocs =
     (p \<or> a \<in> oc_entity_id ` set ocs, q \<or> b \<in> oc_entity_id ` set ocs)"
  by (induction ocs arbitrary: p q) (auto simp: identity_equal_iff)

text \<open>Two entities co-occur exactly when both have a record.\<close>

theorem cooccur_iff_both_present:
  "laplace_trajectory_entities_cooccur (Span ocs) (Some a) (Some b) (Some r) =
     (LAPLACE_TRAJECTORY_OK, Some ({a, b} \<subseteq> oc_entity_id ` set ocs))"
  using cooccur_fold [of a b False False ocs]
  by (simp add: laplace_trajectory_entities_cooccur_def Let_def)
end
