(* ===== verification/Framework.thy ===== *)
theory Framework
  imports Hashing
begin

text \<open>
  The execution framework, contexts and canonical streams (\<open>engine/src/framework.c\<close>, first
  part): validation and fingerprint of an execution context, the fingerprint of a canonical
  record stream cut into batches, and the receipt of a staged stream.

  Constants are the values of \<open>contracts/framework.json\<close>.
\<close>

datatype laplace_framework_status =
    LAPLACE_FRAMEWORK_OK
  | LAPLACE_FRAMEWORK_INVALID_ARGUMENT
  | LAPLACE_FRAMEWORK_UNSUPPORTED_VERSION
  | LAPLACE_FRAMEWORK_CONTEXT_INVALID
  | LAPLACE_FRAMEWORK_REGISTRY_INVALID
  | LAPLACE_FRAMEWORK_STREAM_INVALID
  | LAPLACE_FRAMEWORK_SINK_INVALID
  | LAPLACE_FRAMEWORK_SINK_BEGIN_FAILED
  | LAPLACE_FRAMEWORK_SINK_STAGE_FAILED
  | LAPLACE_FRAMEWORK_SINK_SEAL_FAILED
  | LAPLACE_FRAMEWORK_OVERFLOW
  | LAPLACE_FRAMEWORK_EFFECT_NOT_AUTHORIZED
  | LAPLACE_FRAMEWORK_ACTIVATION_REQUEST_INVALID
  | LAPLACE_FRAMEWORK_ACTIVATION_PROVIDER_INVALID
  | LAPLACE_FRAMEWORK_ACTIVATION_ADMISSION_FAILED
  | LAPLACE_FRAMEWORK_ACTIVATION_COMMIT_FAILED
  | LAPLACE_FRAMEWORK_PRODUCER_INVALID
  | LAPLACE_FRAMEWORK_PRODUCER_PREPARE_FAILED
  | LAPLACE_FRAMEWORK_PRODUCER_BATCH_FAILED
  | LAPLACE_FRAMEWORK_PRODUCER_FINISH_FAILED
  | LAPLACE_FRAMEWORK_PRODUCER_CANCELLED
  | LAPLACE_FRAMEWORK_REPLAY_INVALID
  | LAPLACE_FRAMEWORK_REPLAY_MISMATCH

text \<open>The enumerators' numbers, hashed into receipts as \<open>(uint32_t)status\<close>.\<close>

primrec framework_status_code :: "laplace_framework_status \<Rightarrow> u32" where
  "framework_status_code LAPLACE_FRAMEWORK_OK = 0"
| "framework_status_code LAPLACE_FRAMEWORK_INVALID_ARGUMENT = 1"
| "framework_status_code LAPLACE_FRAMEWORK_UNSUPPORTED_VERSION = 2"
| "framework_status_code LAPLACE_FRAMEWORK_CONTEXT_INVALID = 3"
| "framework_status_code LAPLACE_FRAMEWORK_REGISTRY_INVALID = 4"
| "framework_status_code LAPLACE_FRAMEWORK_STREAM_INVALID = 5"
| "framework_status_code LAPLACE_FRAMEWORK_SINK_INVALID = 6"
| "framework_status_code LAPLACE_FRAMEWORK_SINK_BEGIN_FAILED = 7"
| "framework_status_code LAPLACE_FRAMEWORK_SINK_STAGE_FAILED = 8"
| "framework_status_code LAPLACE_FRAMEWORK_SINK_SEAL_FAILED = 9"
| "framework_status_code LAPLACE_FRAMEWORK_OVERFLOW = 10"
| "framework_status_code LAPLACE_FRAMEWORK_EFFECT_NOT_AUTHORIZED = 11"
| "framework_status_code LAPLACE_FRAMEWORK_ACTIVATION_REQUEST_INVALID = 12"
| "framework_status_code LAPLACE_FRAMEWORK_ACTIVATION_PROVIDER_INVALID = 13"
| "framework_status_code LAPLACE_FRAMEWORK_ACTIVATION_ADMISSION_FAILED = 14"
| "framework_status_code LAPLACE_FRAMEWORK_ACTIVATION_COMMIT_FAILED = 15"
| "framework_status_code LAPLACE_FRAMEWORK_PRODUCER_INVALID = 16"
| "framework_status_code LAPLACE_FRAMEWORK_PRODUCER_PREPARE_FAILED = 17"
| "framework_status_code LAPLACE_FRAMEWORK_PRODUCER_BATCH_FAILED = 18"
| "framework_status_code LAPLACE_FRAMEWORK_PRODUCER_FINISH_FAILED = 19"
| "framework_status_code LAPLACE_FRAMEWORK_PRODUCER_CANCELLED = 20"
| "framework_status_code LAPLACE_FRAMEWORK_REPLAY_INVALID = 21"
| "framework_status_code LAPLACE_FRAMEWORK_REPLAY_MISMATCH = 22"

record laplace_execution_grant =
  eg_memory_bytes :: u64
  eg_cpu_slots :: u32
  eg_io_slots :: u32

text \<open>\<open>fc_epochs\<close> is the array \<open>epochs[LAPLACE_FRAMEWORK_EPOCH_COUNT]\<close>; its length is part of
  the type in C and the predicate \<open>context_array\<close> here.\<close>

record laplace_framework_context =
  fc_epochs :: "laplace_digest256 list"
  fc_authority_fingerprint :: laplace_digest256
  fc_resource_grant :: laplace_execution_grant
  fc_epoch_mask :: u64
  fc_major :: u16
  fc_minor :: u16
  fc_flags :: u32
  fc_reserved :: u32

text \<open>\<open>cb_canonical_bytes\<close> is the buffer behind the pointer, of which \<open>byte_count\<close> bytes are
  read.\<close>

record laplace_framework_canonical_batch =
  cb_canonical_bytes :: "byte list option"
  cb_byte_count :: u64
  cb_record_count :: u64
  cb_first_ordinal :: u64
  cb_record_type :: u32
  cb_flags :: u32

text \<open>\<open>cs_batches\<close> holds the pointer and \<open>batch_count\<close> together.\<close>

record laplace_framework_canonical_stream =
  cs_batches :: "laplace_framework_canonical_batch span"
  cs_source_fingerprint :: laplace_digest256
  cs_recipe_fingerprint :: laplace_digest256
  cs_flags :: u32
  cs_reserved :: u32

record laplace_framework_stream_receipt =
  sr_receipt_id :: laplace_digest256
  sr_context_fingerprint :: laplace_digest256
  sr_source_fingerprint :: laplace_digest256
  sr_recipe_fingerprint :: laplace_digest256
  sr_stream_fingerprint :: laplace_digest256
  sr_sink_artifacts_fingerprint :: laplace_digest256
  sr_total_records :: u64
  sr_total_bytes :: u64
  sr_batch_count :: u64
  sr_sink_count :: u64
  sr_failed_batch_index :: u64
  sr_failed_sink_index :: u64
  sr_record_type :: u32
  sr_effect_disposition :: u32
  sr_status :: laplace_framework_status
  sr_reserved :: u32

definition LAPLACE_FRAMEWORK_MAJOR :: u16 where "LAPLACE_FRAMEWORK_MAJOR = 1"
definition LAPLACE_FRAMEWORK_MINOR :: u16 where "LAPLACE_FRAMEWORK_MINOR = 6"
definition LAPLACE_FRAMEWORK_EPOCH_COUNT :: nat where "LAPLACE_FRAMEWORK_EPOCH_COUNT = 10"
definition LAPLACE_FRAMEWORK_KNOWN_CONTEXT_FLAGS :: u32 where
  "LAPLACE_FRAMEWORK_KNOWN_CONTEXT_FLAGS = 3"
definition LAPLACE_FRAMEWORK_KNOWN_BATCH_FLAGS :: u32 where
  "LAPLACE_FRAMEWORK_KNOWN_BATCH_FLAGS = 0"
definition LAPLACE_FRAMEWORK_KNOWN_STREAM_FLAGS :: u32 where
  "LAPLACE_FRAMEWORK_KNOWN_STREAM_FLAGS = 0"
definition LAPLACE_FRAMEWORK_EFFECT_STAGED_INERT :: u32 where
  "LAPLACE_FRAMEWORK_EFFECT_STAGED_INERT = 1"
definition LAPLACE_FRAMEWORK_NO_INDEX :: u64 where
  "LAPLACE_FRAMEWORK_NO_INDEX = UINT64_MAX"

definition CONTEXT_DOMAIN :: "byte list" where
  "CONTEXT_DOMAIN = ascii_bytes ''laplace-framework-context-v1''"
definition STREAM_DOMAIN :: "byte list" where
  "STREAM_DOMAIN = ascii_bytes ''laplace-framework-canonical-stream-v1''"
definition RECEIPT_DOMAIN :: "byte list" where
  "RECEIPT_DOMAIN = ascii_bytes ''laplace-framework-stream-receipt-v1''"

section \<open>The operation registry\<close>

text \<open>The table \<open>OPERATIONS\<close> is generated by the build from the instruction contract; it is the
  argument \<open>ops\<close> here, and its declared size \<open>LAPLACE_ISA_OPERATION_COUNT\<close> the argument
  \<open>declared\<close>.\<close>

record laplace_framework_operation_descriptor =
  od_opcode :: u32
  od_module_id :: u32
  od_input_type :: u32
  od_output_type :: u32
  od_instruction_version :: u16
  od_introduced_minor :: u16
  od_flags :: u32

function operation_search ::
  "laplace_framework_operation_descriptor list \<Rightarrow> u32 \<Rightarrow> nat \<Rightarrow> nat \<Rightarrow> nat" where
  "operation_search ops opcode low high =
     (if low < high then
        let middle = low + (high - low) div 2 in
        if od_opcode (ops ! middle) < opcode then operation_search ops opcode (middle + 1) high
        else operation_search ops opcode low middle
      else low)"
  by pat_completeness auto
termination
  by (relation "measure (\<lambda>(ops, opcode, low, high). high - low)") auto

declare operation_search.simps [simp del]

definition laplace_framework_operation_find ::
  "laplace_framework_operation_descriptor list \<Rightarrow> u32
     \<Rightarrow> laplace_framework_operation_descriptor option" where
  "laplace_framework_operation_find ops opcode =
     (let low = operation_search ops opcode 0 (length ops) in
      if low < length ops \<and> od_opcode (ops ! low) = opcode then Some (ops ! low) else None)"

fun registry_validate_loop ::
  "laplace_framework_operation_descriptor option \<Rightarrow> laplace_framework_operation_descriptor list
     \<Rightarrow> laplace_framework_status" where
  "registry_validate_loop previous [] = LAPLACE_FRAMEWORK_OK"
| "registry_validate_loop previous (operation # rest) =
     (if od_opcode operation = 0 \<or> od_module_id operation = 0
         \<or> od_input_type operation = 0 \<or> od_output_type operation = 0
         \<or> od_instruction_version operation = 0 \<or> od_flags operation \<noteq> 0
         \<or> (case previous of None \<Rightarrow> False | Some p \<Rightarrow> od_opcode operation \<le> od_opcode p)
      then LAPLACE_FRAMEWORK_REGISTRY_INVALID
      else registry_validate_loop (Some operation) rest)"

definition laplace_framework_registry_validate ::
  "nat \<Rightarrow> laplace_framework_operation_descriptor list \<Rightarrow> laplace_framework_status" where
  "laplace_framework_registry_validate declared ops =
     (if length ops \<noteq> declared then LAPLACE_FRAMEWORK_REGISTRY_INVALID
      else registry_validate_loop None ops)"

section \<open>Contexts\<close>

definition digest_has_canonical_zero_payload :: "laplace_digest256 \<Rightarrow> bool" where
  "digest_has_canonical_zero_payload d \<longleftrightarrow> bytes_zero (bytes d)"

definition laplace_framework_context_validate ::
  "laplace_framework_context option \<Rightarrow> laplace_framework_status" where
  "laplace_framework_context_validate context =
     (let known_epoch_mask = push_bit LAPLACE_FRAMEWORK_EPOCH_COUNT 1 - 1 in
      case context of
        None \<Rightarrow> LAPLACE_FRAMEWORK_INVALID_ARGUMENT
      | Some c \<Rightarrow>
          if fc_major c \<noteq> LAPLACE_FRAMEWORK_MAJOR \<or> LAPLACE_FRAMEWORK_MINOR < fc_minor c
          then LAPLACE_FRAMEWORK_UNSUPPORTED_VERSION
          else if fc_flags c AND NOT LAPLACE_FRAMEWORK_KNOWN_CONTEXT_FLAGS \<noteq> 0
               \<or> fc_reserved c \<noteq> 0
               \<or> fc_epoch_mask c AND NOT known_epoch_mask \<noteq> 0
               \<or> fc_epoch_mask c = 0
               \<or> eg_memory_bytes (fc_resource_grant c) = 0
               \<or> eg_cpu_slots (fc_resource_grant c) = 0
          then LAPLACE_FRAMEWORK_CONTEXT_INVALID
          else if list_ex (\<lambda>index. fc_epoch_mask c AND push_bit index 1 = 0
                 \<and> \<not> digest_has_canonical_zero_payload (fc_epochs c ! index))
               [0..<LAPLACE_FRAMEWORK_EPOCH_COUNT]
          then LAPLACE_FRAMEWORK_CONTEXT_INVALID
          else LAPLACE_FRAMEWORK_OK)"

text \<open>The \<open>blake3_hasher_update\<close> calls of the fingerprint, in order, one list element per call.
  \<open>hash_u16\<close> writes two little-endian bytes.\<close>

definition u16_le :: "u16 \<Rightarrow> byte list" where
  "u16_le v = le_bytes 2 v"

definition epoch_chunks :: "laplace_framework_context \<Rightarrow> nat \<Rightarrow> byte list list" where
  "epoch_chunks c index =
     (if fc_epoch_mask c AND push_bit index 1 \<noteq> 0
      then [u32_le (of_nat index), bytes (fc_epochs c ! index)] else [])"

definition context_chunks :: "laplace_framework_context \<Rightarrow> byte list list" where
  "context_chunks c =
     [CONTEXT_DOMAIN, u16_le (fc_major c), u16_le (fc_minor c), u32_le (fc_flags c),
      u64_le (fc_epoch_mask c)]
     @ concat (map (epoch_chunks c) [0..<LAPLACE_FRAMEWORK_EPOCH_COUNT])
     @ [bytes (fc_authority_fingerprint c), u64_le (eg_memory_bytes (fc_resource_grant c)),
        u32_le (eg_cpu_slots (fc_resource_grant c)), u32_le (eg_io_slots (fc_resource_grant c))]"

definition laplace_framework_context_fingerprint ::
  "'h blake3_api \<Rightarrow> laplace_framework_context option \<Rightarrow> laplace_digest256 option
     \<Rightarrow> laplace_framework_status \<times> laplace_digest256 option" where
  "laplace_framework_context_fingerprint B context fingerprint =
     (case fingerprint of
        None \<Rightarrow> (LAPLACE_FRAMEWORK_INVALID_ARGUMENT, None)
      | Some _ \<Rightarrow>
          let status = laplace_framework_context_validate context in
          if status \<noteq> LAPLACE_FRAMEWORK_OK then (status, Some 0)
          else (LAPLACE_FRAMEWORK_OK,
                Some (hasher_finalize B (updates B (hasher_init B) (context_chunks (the context))))))"

section \<open>Canonical streams\<close>

text \<open>The validation loop over the batches; the result is the two running totals.\<close>

fun stream_loop ::
  "u32 \<Rightarrow> u64 \<Rightarrow> u64 \<Rightarrow> laplace_framework_canonical_batch list \<Rightarrow> (u64 \<times> u64) option" where
  "stream_loop type records byte_total [] = Some (records, byte_total)"
| "stream_loop type records byte_total (batch # batches) =
     (if cb_canonical_bytes batch = None \<or> cb_byte_count batch = 0
         \<or> cb_record_count batch = 0 \<or> cb_first_ordinal batch \<noteq> records
         \<or> cb_record_type batch \<noteq> type
         \<or> cb_flags batch \<noteq> LAPLACE_FRAMEWORK_KNOWN_BATCH_FLAGS
         \<or> UINT64_MAX - records < cb_record_count batch
         \<or> UINT64_MAX - byte_total < cb_byte_count batch
         \<or> SIZE_MAX < unat (cb_byte_count batch)
      then None
      else stream_loop type (records + cb_record_count batch)
             (byte_total + cb_byte_count batch) batches)"

definition batch_bytes :: "laplace_framework_canonical_batch \<Rightarrow> byte list" where
  "batch_bytes batch = take (unat (cb_byte_count batch)) (the (cb_canonical_bytes batch))"

definition initialize_stream_hasher ::
  "'h blake3_api \<Rightarrow> u32 \<Rightarrow> u64 \<Rightarrow> u64 \<Rightarrow> 'h" where
  "initialize_stream_hasher B record_type total_records total_bytes =
     updates B (hasher_init B)
       [STREAM_DOMAIN, u32_le record_type, u64_le total_records, u64_le total_bytes]"

text \<open>The four output pointers are one optional tuple (fingerprint, record type, total records,
  total bytes): \<open>None\<close> when any of them is NULL.\<close>

definition laplace_framework_canonical_stream_fingerprint ::
  "'h blake3_api \<Rightarrow> laplace_framework_canonical_batch span
     \<Rightarrow> (laplace_digest256 \<times> u32 \<times> u64 \<times> u64) option
     \<Rightarrow> laplace_framework_status \<times> (laplace_digest256 \<times> u32 \<times> u64 \<times> u64) option" where
  "laplace_framework_canonical_stream_fingerprint B batches outputs =
     (if span_null batches \<or> span_count batches = 0 \<or> outputs = None
      then (LAPLACE_FRAMEWORK_INVALID_ARGUMENT, outputs)
      else let type = cb_record_type (span_items batches ! 0) in
        if type = 0 then (LAPLACE_FRAMEWORK_STREAM_INVALID, outputs)
        else case stream_loop type 0 0 (span_items batches) of
            None \<Rightarrow> (LAPLACE_FRAMEWORK_STREAM_INVALID, outputs)
          | Some (records, byte_total) \<Rightarrow>
              (LAPLACE_FRAMEWORK_OK,
               Some (hasher_finalize B
                       (updates B (initialize_stream_hasher B type records byte_total)
                          (map batch_bytes (span_items batches))),
                     type, records, byte_total)))"

definition laplace_framework_canonical_empty_stream_fingerprint ::
  "'h blake3_api \<Rightarrow> u32 \<Rightarrow> laplace_digest256 option
     \<Rightarrow> laplace_framework_status \<times> laplace_digest256 option" where
  "laplace_framework_canonical_empty_stream_fingerprint B record_type fingerprint =
     (if record_type = 0 \<or> fingerprint = None
      then (LAPLACE_FRAMEWORK_INVALID_ARGUMENT, fingerprint)
      else (LAPLACE_FRAMEWORK_OK,
            Some (hasher_finalize B
              (updates B (hasher_init B) [STREAM_DOMAIN, u32_le record_type, u64_le 0, u64_le 0]))))"

section \<open>Stream receipts\<close>

definition receipt_chunks :: "laplace_framework_stream_receipt \<Rightarrow> byte list list" where
  "receipt_chunks r =
     [RECEIPT_DOMAIN, u32_le (framework_status_code (sr_status r)), u32_le (sr_record_type r),
      u32_le (sr_effect_disposition r), u64_le (sr_total_records r), u64_le (sr_total_bytes r),
      u64_le (sr_batch_count r), u64_le (sr_sink_count r), u64_le (sr_failed_batch_index r),
      u64_le (sr_failed_sink_index r), bytes (sr_context_fingerprint r),
      bytes (sr_source_fingerprint r), bytes (sr_recipe_fingerprint r),
      bytes (sr_stream_fingerprint r), bytes (sr_sink_artifacts_fingerprint r)]"

definition hash_stream_receipt ::
  "'h blake3_api \<Rightarrow> laplace_framework_stream_receipt \<Rightarrow> laplace_framework_stream_receipt" where
  "hash_stream_receipt B r =
     r\<lparr>sr_receipt_id := hasher_finalize B (updates B (hasher_init B) (receipt_chunks r))\<rparr>"

definition stream_receipt_is_valid ::
  "'h blake3_api \<Rightarrow> laplace_framework_stream_receipt option \<Rightarrow> bool" where
  "stream_receipt_is_valid B receipt =
     (case receipt of
        None \<Rightarrow> False
      | Some r \<Rightarrow>
          if sr_status r \<noteq> LAPLACE_FRAMEWORK_OK
             \<or> sr_effect_disposition r \<noteq> LAPLACE_FRAMEWORK_EFFECT_STAGED_INERT
             \<or> sr_reserved r \<noteq> 0 \<or> sr_record_type r = 0
             \<or> sr_total_records r = 0 \<or> sr_total_bytes r = 0
             \<or> sr_batch_count r = 0 \<or> sr_sink_count r = 0
             \<or> sr_failed_batch_index r \<noteq> LAPLACE_FRAMEWORK_NO_INDEX
             \<or> sr_failed_sink_index r \<noteq> LAPLACE_FRAMEWORK_NO_INDEX
          then False
          else digest_equal (sr_receipt_id r) (sr_receipt_id (hash_stream_receipt B r)))"

definition laplace_framework_stream_receipt_identity_validate ::
  "'h blake3_api \<Rightarrow> laplace_framework_stream_receipt option \<Rightarrow> laplace_framework_status" where
  "laplace_framework_stream_receipt_identity_validate B receipt =
     (if stream_receipt_is_valid B receipt then LAPLACE_FRAMEWORK_OK
      else LAPLACE_FRAMEWORK_STREAM_INVALID)"

definition laplace_framework_stream_receipt_validate ::
  "'h blake3_api \<Rightarrow> laplace_framework_context option \<Rightarrow> laplace_framework_stream_receipt option
     \<Rightarrow> laplace_framework_status" where
  "laplace_framework_stream_receipt_validate B context receipt =
     (case laplace_framework_context_fingerprint B context (Some 0) of
        (status, context_fingerprint) \<Rightarrow>
          if status \<noteq> LAPLACE_FRAMEWORK_OK then status
          else if \<not> stream_receipt_is_valid B receipt
               \<or> \<not> digest_equal (the context_fingerprint) (sr_context_fingerprint (the receipt))
          then LAPLACE_FRAMEWORK_STREAM_INVALID
          else LAPLACE_FRAMEWORK_OK)"

section \<open>Finding an operation\<close>

lemma registry_validate_loop_OK:
  "registry_validate_loop previous ops = LAPLACE_FRAMEWORK_OK \<Longrightarrow>
     sorted_wrt (<) ((case previous of None \<Rightarrow> [] | Some p \<Rightarrow> [od_opcode p]) @ map od_opcode ops)"
proof (induction previous ops rule: registry_validate_loop.induct)
  case (2 previous operation rest)
  then show ?case
    by (cases previous) (auto split: if_splits simp: not_le intro: less_trans)
qed (auto split: option.splits)

lemma registry_valid_sorted:
  "laplace_framework_registry_validate declared ops = LAPLACE_FRAMEWORK_OK \<Longrightarrow>
     sorted_wrt (<) (map od_opcode ops)"
  by (auto simp: laplace_framework_registry_validate_def dest: registry_validate_loop_OK
      split: if_splits)

lemma operation_search_bounds:
  assumes "sorted_wrt (<) (map od_opcode ops)" "low \<le> high" "high \<le> length ops"
    and "\<forall>i < low. od_opcode (ops ! i) < opcode"
    and "\<forall>i < length ops. high \<le> i \<longrightarrow> opcode \<le> od_opcode (ops ! i)"
  shows "operation_search ops opcode low high \<le> length ops
    \<and> (\<forall>i < operation_search ops opcode low high. od_opcode (ops ! i) < opcode)
    \<and> (\<forall>i < length ops. operation_search ops opcode low high \<le> i \<longrightarrow>
          opcode \<le> od_opcode (ops ! i))"
  using assms
proof (induction ops opcode low high rule: operation_search.induct)
  case (1 ops opcode low high)
  let ?mid = "low + (high - low) div 2"
  have mono: "od_opcode (ops ! i) \<le> od_opcode (ops ! j)" if "i \<le> j" "j < length ops" for i j
    using 1(3) that by (cases "i = j") (auto simp: sorted_wrt_iff_nth_less intro: less_imp_le)
  show ?case
  proof (cases "low < high")
    case False
    then have "operation_search ops opcode low high = low"
      by (subst operation_search.simps) simp
    with False 1(4-7) show ?thesis by simp
  next
    case True
    then have mid: "?mid < high" "?mid < length ops" using 1(5) by linarith+
    show ?thesis
    proof (cases "od_opcode (ops ! ?mid) < opcode")
      case lt: True
      have "\<forall>i < ?mid + 1. od_opcode (ops ! i) < opcode"
        using mono [OF _ mid(2)] lt by (auto simp: less_Suc_eq_le intro: le_less_trans)
      then have rec: "operation_search ops opcode (?mid + 1) high \<le> length ops
          \<and> (\<forall>i < operation_search ops opcode (?mid + 1) high. od_opcode (ops ! i) < opcode)
          \<and> (\<forall>i < length ops. operation_search ops opcode (?mid + 1) high \<le> i \<longrightarrow>
                opcode \<le> od_opcode (ops ! i))"
        using mid(1) by (intro 1(1) [OF True refl lt 1(3) _ 1(5) _ 1(7)]) simp_all
      have step: "operation_search ops opcode low high = operation_search ops opcode (?mid + 1) high"
        using True lt by (subst operation_search.simps) (simp add: Let_def)
      show ?thesis unfolding step by (rule rec)
    next
      case ge: False
      have "\<forall>i < length ops. ?mid \<le> i \<longrightarrow> opcode \<le> od_opcode (ops ! i)"
        using mono ge by (meson le_less_trans not_le order_trans)
      then have rec: "operation_search ops opcode low ?mid \<le> length ops
          \<and> (\<forall>i < operation_search ops opcode low ?mid. od_opcode (ops ! i) < opcode)
          \<and> (\<forall>i < length ops. operation_search ops opcode low ?mid \<le> i \<longrightarrow>
                opcode \<le> od_opcode (ops ! i))"
        using mid(2) by (intro 1(2) [OF True refl ge 1(3) _ _ 1(6)]) simp_all
      have step: "operation_search ops opcode low high = operation_search ops opcode low ?mid"
        using True ge by (subst operation_search.simps) (simp add: Let_def)
      show ?thesis unfolding step by (rule rec)
    qed
  qed
qed

lemma operation_find_iff:
  assumes "laplace_framework_registry_validate declared ops = LAPLACE_FRAMEWORK_OK"
  shows "laplace_framework_operation_find ops opcode = Some d \<longleftrightarrow>
    d \<in> set ops \<and> od_opcode d = opcode"
proof -
  have sorted: "sorted_wrt (<) (map od_opcode ops)"
    using assms by (rule registry_valid_sorted)
  let ?k = "operation_search ops opcode 0 (length ops)"
  have k: "?k \<le> length ops" "\<forall>i < ?k. od_opcode (ops ! i) < opcode"
    "\<forall>i < length ops. ?k \<le> i \<longrightarrow> opcode \<le> od_opcode (ops ! i)"
    using operation_search_bounds [OF sorted, of 0 "length ops" opcode] by auto
  have at: "?k = i" if i: "i < length ops" "od_opcode (ops ! i) = opcode" for i
  proof (rule antisym)
    show "i \<le> ?k"
    proof (rule ccontr)
      assume "\<not> i \<le> ?k"
      then have "od_opcode (ops ! ?k) < od_opcode (ops ! i)"
        using sorted i by (auto simp: sorted_wrt_iff_nth_less)
      moreover have "opcode \<le> od_opcode (ops ! ?k)"
        using k(3) i \<open>\<not> i \<le> ?k\<close> by (metis not_le order_less_trans order_refl)
      ultimately show False using i(2) by simp
    qed
    show "?k \<le> i" using k(2) i by (meson not_less order_less_irrefl)
  qed
  show ?thesis
  proof
    assume "d \<in> set ops \<and> od_opcode d = opcode"
    then obtain i where i: "i < length ops" "d = ops ! i" "od_opcode (ops ! i) = opcode"
      by (auto simp: in_set_conv_nth)
    then show "laplace_framework_operation_find ops opcode = Some d"
      using at [OF i(1,3)] by (simp add: laplace_framework_operation_find_def)
  next
    assume "laplace_framework_operation_find ops opcode = Some d"
    then have "?k < length ops" "ops ! ?k = d" "od_opcode d = opcode"
      by (auto simp: laplace_framework_operation_find_def Let_def split: if_splits)
    then show "d \<in> set ops \<and> od_opcode d = opcode"
      using nth_mem [of ?k ops] by simp
  qed
qed

section \<open>Context fingerprints\<close>

lemma zero_payload_iff [simp]: "digest_has_canonical_zero_payload d \<longleftrightarrow> d = 0"
  by (simp add: digest_has_canonical_zero_payload_def)

interpretation u16c: fixed_width_codec u16_le 2
  by unfold_locales (auto simp: u16_le_def intro: le_bytes_inject [of 2])

lemmas u16_layout [layout] = u16c.enc_append_eq u16c.enc_eq_iff

text \<open>The array bound of \<open>epochs\<close>.\<close>

definition context_array :: "laplace_framework_context \<Rightarrow> bool" where
  "context_array c \<longleftrightarrow> length (fc_epochs c) = LAPLACE_FRAMEWORK_EPOCH_COUNT"

lemma and_push_bit_eq_0: "(m :: u64) AND push_bit i 1 = 0 \<longleftrightarrow> \<not> bit m i"
  by (simp add: and_exp_eq_0_iff_not_bit)

lemma context_valid_absent:
  assumes "laplace_framework_context_validate (Some c) = LAPLACE_FRAMEWORK_OK"
    and "i < LAPLACE_FRAMEWORK_EPOCH_COUNT" "\<not> bit (fc_epoch_mask c) i"
  shows "fc_epochs c ! i = 0"
proof -
  have "fc_epoch_mask c AND push_bit i 1 = 0"
    using assms(3) by (simp add: and_push_bit_eq_0 del: push_bit_of_1)
  then show ?thesis
    using assms(1,2)
    by (auto simp: laplace_framework_context_validate_def Let_def list_ex_iff
        simp del: push_bit_of_1 split: if_splits)
qed

lemma context_valid_reserved:
  "laplace_framework_context_validate (Some c) = LAPLACE_FRAMEWORK_OK \<Longrightarrow> fc_reserved c = 0"
  by (auto simp: laplace_framework_context_validate_def Let_def split: if_splits)

lemma epoch_chunks_unfold:
  "i < 64 \<Longrightarrow> concat (epoch_chunks c i) =
     (if bit (fc_epoch_mask c) i then u32_le (of_nat i) @ bytes (fc_epochs c ! i) else [])"
  by (simp add: epoch_chunks_def and_push_bit_eq_0 del: push_bit_of_1)

lemma epoch_layout:
  assumes "fc_epoch_mask c = fc_epoch_mask d" "\<forall>i \<in> set is. i < 64"
    and "concat (concat (map (epoch_chunks c) is)) @ r = concat (concat (map (epoch_chunks d) is)) @ s"
  shows "(\<forall>i \<in> set is. bit (fc_epoch_mask c) i \<longrightarrow> fc_epochs c ! i = fc_epochs d ! i) \<and> r = s"
  using assms(2,3)
proof (induction "is")
  case (Cons i rest)
  then have "(bit (fc_epoch_mask c) i \<longrightarrow> fc_epochs c ! i = fc_epochs d ! i)
     \<and> concat (concat (map (epoch_chunks c) rest)) @ r = concat (concat (map (epoch_chunks d) rest)) @ s"
    using assms(1) by (auto simp: epoch_chunks_unfold layout)
  with Cons show ?case by auto
qed simp

lemma context_chunks_inject:
  assumes c: "laplace_framework_context_validate (Some c) = LAPLACE_FRAMEWORK_OK" "context_array c"
    and d: "laplace_framework_context_validate (Some d) = LAPLACE_FRAMEWORK_OK" "context_array d"
    and eq: "concat (context_chunks c) = concat (context_chunks d)"
  shows "c = d"
proof -
  have head: "fc_major c = fc_major d" "fc_minor c = fc_minor d" "fc_flags c = fc_flags d"
    "fc_epoch_mask c = fc_epoch_mask d"
    and rest: "concat (concat (map (epoch_chunks c) [0..<LAPLACE_FRAMEWORK_EPOCH_COUNT]))
       @ bytes (fc_authority_fingerprint c) @ u64_le (eg_memory_bytes (fc_resource_grant c))
       @ u32_le (eg_cpu_slots (fc_resource_grant c)) @ u32_le (eg_io_slots (fc_resource_grant c)) =
      concat (concat (map (epoch_chunks d) [0..<LAPLACE_FRAMEWORK_EPOCH_COUNT]))
       @ bytes (fc_authority_fingerprint d) @ u64_le (eg_memory_bytes (fc_resource_grant d))
       @ u32_le (eg_cpu_slots (fc_resource_grant d)) @ u32_le (eg_io_slots (fc_resource_grant d))"
    using eq by (simp_all add: context_chunks_def layout)
  have below: "\<forall>i \<in> set [0..<LAPLACE_FRAMEWORK_EPOCH_COUNT]. i < 64"
    by (simp add: LAPLACE_FRAMEWORK_EPOCH_COUNT_def)
  note parts = epoch_layout [OF head(4) below rest]
  have "fc_epochs c ! i = fc_epochs d ! i" if "i < LAPLACE_FRAMEWORK_EPOCH_COUNT" for i
    using parts context_valid_absent [OF c(1) that] context_valid_absent [OF d(1) that] head(4) that
    by (cases "bit (fc_epoch_mask c) i") auto
  then have "fc_epochs c = fc_epochs d"
    using c(2) d(2) by (intro nth_equalityI) (auto simp: context_array_def)
  moreover have "fc_authority_fingerprint c = fc_authority_fingerprint d"
    "fc_resource_grant c = fc_resource_grant d"
    using parts by (auto simp: layout intro: laplace_execution_grant.equality)
  ultimately show ?thesis
    using head context_valid_reserved [OF c(1)] context_valid_reserved [OF d(1)]
    by (auto intro: laplace_framework_context.equality)
qed

lemma context_fingerprint_OK:
  assumes "blake3_streaming B" "laplace_framework_context_validate (Some c) = LAPLACE_FRAMEWORK_OK"
  shows "laplace_framework_context_fingerprint B (Some c) (Some x) =
     (LAPLACE_FRAMEWORK_OK, Some (blake3 B (concat (context_chunks c))))"
  using assms by (simp add: laplace_framework_context_fingerprint_def finalize_updates)

section \<open>Stream fingerprints\<close>

lemma stream_loop_Some:
  "stream_loop type records byte_total batches = Some (r, b) \<Longrightarrow>
     unat r = unat records + sum_list (map (unat \<circ> cb_record_count) batches)
     \<and> unat b = unat byte_total + sum_list (map (unat \<circ> cb_byte_count) batches)
     \<and> list_all (\<lambda>x. cb_canonical_bytes x \<noteq> None \<and> cb_byte_count x \<noteq> 0 \<and> cb_record_count x \<noteq> 0
          \<and> cb_record_type x = type \<and> cb_flags x = 0) batches"
proof (induction type records byte_total batches rule: stream_loop.induct)
  case (2 type records byte_total batch batches)
  have sums: "add_u64 records (cb_record_count batch) = Some (records + cb_record_count batch)"
    "add_u64 byte_total (cb_byte_count batch) = Some (byte_total + cb_byte_count batch)"
    using 2(2) by (auto simp: add_u64_def split: if_splits)
  show ?case
    using 2 unat_add_u64 [OF sums(1)] unat_add_u64 [OF sums(2)]
    by (auto simp: LAPLACE_FRAMEWORK_KNOWN_BATCH_FLAGS_def split: if_splits)
qed simp

text \<open>The offset at which each batch must start: the number of records before it.\<close>

lemma stream_loop_ordinals:
  "stream_loop type records byte_total batches = Some (r, b) \<Longrightarrow> i < length batches \<Longrightarrow>
     unat (cb_first_ordinal (batches ! i)) =
       unat records + sum_list (map (unat \<circ> cb_record_count) (take i batches))"
proof (induction type records byte_total batches arbitrary: i rule: stream_loop.induct)
  case (2 type records byte_total batch batches)
  have "add_u64 records (cb_record_count batch) = Some (records + cb_record_count batch)"
    using 2(2) by (auto simp: add_u64_def split: if_splits)
  from unat_add_u64 [OF this] show ?case
    using 2 by (cases i) (auto split: if_splits)
qed simp

definition stream_preimage :: "u32 \<Rightarrow> u64 \<Rightarrow> byte list \<Rightarrow> byte list" where
  "stream_preimage type records payload =
     STREAM_DOMAIN @ u32_le type @ u64_le records @ u64_le (of_nat (length payload)) @ payload"

text \<open>Every batch points to at least \<open>byte_count\<close> readable bytes.\<close>

definition batches_readable :: "laplace_framework_canonical_batch list \<Rightarrow> bool" where
  "batches_readable batches \<longleftrightarrow>
     list_all (\<lambda>b. case cb_canonical_bytes b of None \<Rightarrow> True
        | Some buf \<Rightarrow> unat (cb_byte_count b) \<le> length buf) batches"

lemma length_batch_bytes:
  "batches_readable batches \<Longrightarrow> list_all (\<lambda>b. cb_canonical_bytes b \<noteq> None) batches \<Longrightarrow>
     length (concat (map batch_bytes batches)) = sum_list (map (unat \<circ> cb_byte_count) batches)"
  by (induction batches) (auto simp: batches_readable_def batch_bytes_def split: option.splits)

lemma stream_fingerprint_OK:
  assumes B: "blake3_streaming B" and readable: "batches_readable bs"
    and ok: "laplace_framework_canonical_stream_fingerprint B (Span bs) (Some x)
       = (LAPLACE_FRAMEWORK_OK, Some (fp, type, records, sz))"
  shows "fp = blake3 B (stream_preimage type records (concat (map batch_bytes bs)))"
    and "unat records = sum_list (map (unat \<circ> cb_record_count) bs)"
    and "unat sz = length (concat (map batch_bytes bs))"
    and "bs \<noteq> []" and "type \<noteq> 0" and "stream_loop type 0 0 bs = Some (records, sz)"
proof -
  have loop: "stream_loop type 0 0 bs = Some (records, sz)" and ne: "bs \<noteq> []" "type \<noteq> 0"
    and fp: "fp = hasher_finalize B
        (updates B (initialize_stream_hasher B type records sz) (map batch_bytes bs))"
    using ok by (auto simp: laplace_framework_canonical_stream_fingerprint_def Let_def
        split: if_splits option.splits)
  note sums = stream_loop_Some [OF loop]
  then have len: "length (concat (map batch_bytes bs)) = unat sz"
    using length_batch_bytes [OF readable] by (simp add: list_all_iff)
  then have szq: "sz = of_nat (length (concat (map batch_bytes bs)))"
    by simp
  have "fp = blake3 B (concat ([STREAM_DOMAIN, u32_le type, u64_le records, u64_le sz]
      @ map batch_bytes bs))"
    unfolding fp initialize_stream_hasher_def updates_append by (rule finalize_updates [OF B])
  then show "fp = blake3 B (stream_preimage type records (concat (map batch_bytes bs)))"
    unfolding stream_preimage_def szq [symmetric] by simp
  show "unat records = sum_list (map (unat \<circ> cb_record_count) bs)"
    using sums by simp
  show "unat sz = length (concat (map batch_bytes bs))"
    using len by simp
qed (use ok in \<open>auto simp: laplace_framework_canonical_stream_fingerprint_def Let_def
        split: if_splits option.splits\<close>)

lemma stream_preimage_inject:
  "length p < 2 ^ 64 \<Longrightarrow> length q < 2 ^ 64 \<Longrightarrow>
   stream_preimage t r p = stream_preimage t' r' q \<longleftrightarrow> t = t' \<and> r = r' \<and> p = q"
  by (auto simp: stream_preimage_def layout)

section \<open>Properties\<close>

text \<open>C36: the fingerprint of a valid context is the hash of a byte string that determines the
  context completely: two valid contexts with the same preimage are the same context, absent
  epochs included (they are canonically zero).\<close>

theorem context_fingerprint_determines_context:
  assumes "blake3_streaming B"
    and "laplace_framework_context_validate (Some c) = LAPLACE_FRAMEWORK_OK" "context_array c"
    and "laplace_framework_context_validate (Some d) = LAPLACE_FRAMEWORK_OK" "context_array d"
  shows "laplace_framework_context_fingerprint B (Some c) (Some x) =
       (LAPLACE_FRAMEWORK_OK, Some (blake3 B (concat (context_chunks c))))
    \<and> (concat (context_chunks c) = concat (context_chunks d) \<longleftrightarrow> c = d)"
  using context_fingerprint_OK [OF assms(1,2)] context_chunks_inject [OF assms(2-5)] by auto

text \<open>A context with a source and a numeric epoch.\<close>

definition sample_context :: "laplace_digest256 \<Rightarrow> laplace_framework_context" where
  "sample_context numeric =
     \<lparr>fc_epochs = (replicate 10 0)[0 := sample_digest [7], 8 := numeric],
      fc_authority_fingerprint = sample_digest [9],
      fc_resource_grant = \<lparr>eg_memory_bytes = 4096, eg_cpu_slots = 2, eg_io_slots = 0\<rparr>,
      fc_epoch_mask = 257, fc_major = 1, fc_minor = 6, fc_flags = 2, fc_reserved = 0\<rparr>"

theorem context_fingerprint_determines_context_witness:
  "laplace_framework_context_fingerprint sample_blake3 (Some (sample_context (sample_digest [1]))) (Some 0)
     = (LAPLACE_FRAMEWORK_OK, Some (blake3 sample_blake3
          (concat (context_chunks (sample_context (sample_digest [1]))))))
   \<and> concat (context_chunks (sample_context (sample_digest [1])))
       \<noteq> concat (context_chunks (sample_context (sample_digest [2])))"
proof -
  have valid:
    "laplace_framework_context_validate (Some (sample_context (sample_digest [1]))) = LAPLACE_FRAMEWORK_OK"
    "context_array (sample_context (sample_digest [1]))"
    "laplace_framework_context_validate (Some (sample_context (sample_digest [2]))) = LAPLACE_FRAMEWORK_OK"
    "context_array (sample_context (sample_digest [2]))"
    by code_simp+
  have "sample_context (sample_digest [1]) \<noteq> sample_context (sample_digest [2])"
    by code_simp
  then show ?thesis
    using context_fingerprint_determines_context [OF sample_blake3_streaming valid] by blast
qed

text \<open>C37: an accepted canonical stream has contiguous ordinals and exact totals, and its
  fingerprint is the hash of a byte string that depends on the record type, the record total and
  the concatenated bytes only, and determines them: how the bytes are cut into batches does not
  matter.\<close>

theorem stream_fingerprint_layout_independent:
  assumes "blake3_streaming B" "batches_readable bs" "batches_readable cs"
    and bs: "laplace_framework_canonical_stream_fingerprint B (Span bs) (Some x)
       = (LAPLACE_FRAMEWORK_OK, Some (fp, type, records, sz))"
    and cs: "laplace_framework_canonical_stream_fingerprint B (Span cs) (Some y)
       = (LAPLACE_FRAMEWORK_OK, Some (fp', type', records', sz'))"
  shows "fp = blake3 B (stream_preimage type records (concat (map batch_bytes bs)))
    \<and> (stream_preimage type records (concat (map batch_bytes bs)) =
        stream_preimage type' records' (concat (map batch_bytes cs)) \<longleftrightarrow>
        type = type' \<and> records = records'
        \<and> concat (map batch_bytes bs) = concat (map batch_bytes cs))
    \<and> unat records = sum_list (map (unat \<circ> cb_record_count) bs)
    \<and> unat sz = length (concat (map batch_bytes bs))
    \<and> (\<forall>i < length bs. unat (cb_first_ordinal (bs ! i)) =
         sum_list (map (unat \<circ> cb_record_count) (take i bs)))"
proof -
  note b = stream_fingerprint_OK [OF assms(1,2) bs] and c = stream_fingerprint_OK [OF assms(1,3) cs]
  have small: "length (concat (map batch_bytes bs)) < 2 ^ 64"
    "length (concat (map batch_bytes cs)) < 2 ^ 64"
    using unsigned_less [of sz, where 'a = nat] unsigned_less [of sz', where 'a = nat] b(3) c(3)
    by simp_all
  show ?thesis
    using b(1,2,3) stream_preimage_inject [OF small] stream_loop_ordinals [OF b(6)] by auto
qed

definition sample_batch :: "byte list \<Rightarrow> u64 \<Rightarrow> u64 \<Rightarrow> laplace_framework_canonical_batch" where
  "sample_batch buf records first =
     \<lparr>cb_canonical_bytes = Some buf, cb_byte_count = of_nat (length buf), cb_record_count = records,
      cb_first_ordinal = first, cb_record_type = 3, cb_flags = 0\<rparr>"

theorem stream_fingerprint_layout_independent_witness:
  "fst (laplace_framework_canonical_stream_fingerprint sample_blake3
      (Span [sample_batch [1, 2] 1 0, sample_batch [3, 4, 5] 2 1]) (Some (0, 0, 0, 0)))
     = LAPLACE_FRAMEWORK_OK
   \<and> stream_preimage 3 3 (concat (map batch_bytes [sample_batch [1, 2] 1 0, sample_batch [3, 4, 5] 2 1]))
     = stream_preimage 3 3 (concat (map batch_bytes [sample_batch [1, 2, 3, 4, 5] 3 0]))"
proof -
  let ?bs = "[sample_batch [1, 2] 1 0, sample_batch [3, 4, 5] 2 1]"
  let ?cs = "[sample_batch [1, 2, 3, 4, 5] 3 0]"
  have readable: "batches_readable ?bs" "batches_readable ?cs"
    by code_simp+
  have loop: "stream_loop 3 0 0 ?bs = Some (3, 5)" "stream_loop 3 0 0 ?cs = Some (3, 5)"
    by (simp_all add: sample_batch_def SIZE_MAX_def LAPLACE_FRAMEWORK_KNOWN_BATCH_FLAGS_def)
  have type: "cb_record_type (sample_batch buf n i) = 3" for buf n i
    by (simp add: sample_batch_def)
  obtain fp where run1: "laplace_framework_canonical_stream_fingerprint sample_blake3 (Span ?bs)
      (Some (0, 0, 0, 0)) = (LAPLACE_FRAMEWORK_OK, Some (fp, 3, 3, 5))"
    by (simp add: laplace_framework_canonical_stream_fingerprint_def loop type del: stream_loop.simps)
  obtain fp' where run2: "laplace_framework_canonical_stream_fingerprint sample_blake3 (Span ?cs)
      (Some (0, 0, 0, 0)) = (LAPLACE_FRAMEWORK_OK, Some (fp', 3, 3, 5))"
    by (simp add: laplace_framework_canonical_stream_fingerprint_def loop type del: stream_loop.simps)
  have same: "concat (map batch_bytes ?bs) = concat (map batch_bytes ?cs)"
    by code_simp
  from stream_fingerprint_layout_independent [OF sample_blake3_streaming readable run1 run2] run1 same
  show ?thesis by simp
qed

text \<open>In a registry that passes the self-check, the binary search for an opcode finds the
  entry with that opcode whenever there is one, and nothing otherwise.\<close>

theorem operation_find_complete:
  assumes "laplace_framework_registry_validate declared ops = LAPLACE_FRAMEWORK_OK"
  shows "(laplace_framework_operation_find ops opcode = Some d \<longleftrightarrow> d \<in> set ops \<and> od_opcode d = opcode)
    \<and> (laplace_framework_operation_find ops opcode = None \<longleftrightarrow> opcode \<notin> od_opcode ` set ops)"
  using operation_find_iff [OF assms, of opcode]
  by (metis image_iff not_Some_eq)

definition sample_operation :: "u32 \<Rightarrow> laplace_framework_operation_descriptor" where
  "sample_operation opcode =
     \<lparr>od_opcode = opcode, od_module_id = 1, od_input_type = 2, od_output_type = 3,
      od_instruction_version = 1, od_introduced_minor = 0, od_flags = 0\<rparr>"

theorem operation_find_complete_witness:
  "laplace_framework_operation_find (map sample_operation [1, 4, 9, 16, 25]) 9 = Some (sample_operation 9)
   \<and> laplace_framework_operation_find (map sample_operation [1, 4, 9, 16, 25]) 10 = None"
proof -
  have "laplace_framework_registry_validate 5 (map sample_operation [1, 4, 9, 16, 25]) = LAPLACE_FRAMEWORK_OK"
    by code_simp
  from operation_find_complete [OF this, of 9 "sample_operation 9"]
    operation_find_complete [OF this, of 10]
  show ?thesis by (simp add: sample_operation_def)
qed

end
