(* ===== verification/Persistence_Records.thy ===== *)
theory Persistence_Records
  imports Byte_Codec Trajectory Framework
begin

text \<open>
  Persistence frames (\<open>engine/src/persistence.c\<close>, \<open>engine/include/laplace/persistence.h\<close>): the
  five record kinds, their payload layouts, the identities of physicality, attestation and
  consensus records, the trajectory and plan fingerprints, and the encoding and decoding of one
  frame.  Binary64 fields are their 64-bit patterns; the comparisons with 0 and 1 are those of
  finite binary64 values.  The lemmas show that encoding and decoding are inverse and that a
  frame decodes exactly when it is the encoding of a valid record.
\<close>

section \<open>Contract constants and types\<close>

named_theorems persistence_constants

definition LAPLACE_PERSISTENCE_STREAM_RECORD_TYPE :: u32 where
  [persistence_constants]: "LAPLACE_PERSISTENCE_STREAM_RECORD_TYPE = 262145"
definition LAPLACE_PERSISTENCE_FRAME_VERSION :: u16 where
  [persistence_constants]: "LAPLACE_PERSISTENCE_FRAME_VERSION = 1"
definition FRAME_HEADER_BYTES :: nat where
  [persistence_constants]: "FRAME_HEADER_BYTES = 8"
definition LAPLACE_PERSISTENCE_RECORD_ENTITY :: u16 where
  [persistence_constants]: "LAPLACE_PERSISTENCE_RECORD_ENTITY = 1"
definition LAPLACE_PERSISTENCE_RECORD_PHYSICALITY :: u16 where
  [persistence_constants]: "LAPLACE_PERSISTENCE_RECORD_PHYSICALITY = 2"
definition LAPLACE_PERSISTENCE_RECORD_PHYSICALITY_TRAJECTORY_SEGMENT :: u16 where
  [persistence_constants]: "LAPLACE_PERSISTENCE_RECORD_PHYSICALITY_TRAJECTORY_SEGMENT = 3"
definition LAPLACE_PERSISTENCE_RECORD_ATTESTATION :: u16 where
  [persistence_constants]: "LAPLACE_PERSISTENCE_RECORD_ATTESTATION = 4"
definition LAPLACE_PERSISTENCE_RECORD_CONSENSUS :: u16 where
  [persistence_constants]: "LAPLACE_PERSISTENCE_RECORD_CONSENSUS = 5"
definition LAPLACE_PERSISTENCE_ENTITY_PAYLOAD_BYTES :: nat where
  [persistence_constants]: "LAPLACE_PERSISTENCE_ENTITY_PAYLOAD_BYTES = 48"
definition LAPLACE_PERSISTENCE_PHYSICALITY_PAYLOAD_BYTES :: nat where
  [persistence_constants]: "LAPLACE_PERSISTENCE_PHYSICALITY_PAYLOAD_BYTES = 224"
definition LAPLACE_PERSISTENCE_PHYSICALITY_TRAJECTORY_SEGMENT_PAYLOAD_BYTES :: nat where
  [persistence_constants]:
    "LAPLACE_PERSISTENCE_PHYSICALITY_TRAJECTORY_SEGMENT_PAYLOAD_BYTES = 72"
definition LAPLACE_PERSISTENCE_ATTESTATION_PAYLOAD_BYTES :: nat where
  [persistence_constants]: "LAPLACE_PERSISTENCE_ATTESTATION_PAYLOAD_BYTES = 160"
definition LAPLACE_PERSISTENCE_CONSENSUS_PAYLOAD_BYTES :: nat where
  [persistence_constants]: "LAPLACE_PERSISTENCE_CONSENSUS_PAYLOAD_BYTES = 176"
definition PHYSICALITY_IDENTITY_INPUT_OFFSET :: nat where
  [persistence_constants]: "PHYSICALITY_IDENTITY_INPUT_OFFSET = 32"
definition ATTESTATION_IDENTITY_INPUT_OFFSET :: nat where
  [persistence_constants]: "ATTESTATION_IDENTITY_INPUT_OFFSET = 32"
definition CONSENSUS_IDENTITY_INPUT_OFFSET :: nat where
  [persistence_constants]: "CONSENSUS_IDENTITY_INPUT_OFFSET = 32"
definition LAPLACE_PERSISTENCE_ATTESTATION_HAS_PHYSICALITY :: u32 where
  [persistence_constants]: "LAPLACE_PERSISTENCE_ATTESTATION_HAS_PHYSICALITY = 1"
definition LAPLACE_PERSISTENCE_ATTESTATION_OBSERVED_OCCURRENCE :: u32 where
  [persistence_constants]: "LAPLACE_PERSISTENCE_ATTESTATION_OBSERVED_OCCURRENCE = 1"
definition LAPLACE_PERSISTENCE_ATTESTATION_DERIVED_CLAIM :: u32 where
  [persistence_constants]: "LAPLACE_PERSISTENCE_ATTESTATION_DERIVED_CLAIM = 4"
definition LAPLACE_PERSISTENCE_PHYSICALITY_COMPOSITION :: u32 where
  [persistence_constants]: "LAPLACE_PERSISTENCE_PHYSICALITY_COMPOSITION = 1"
definition LAPLACE_PERSISTENCE_PHYSICALITY_ATOMIC_POINT :: u32 where
  [persistence_constants]: "LAPLACE_PERSISTENCE_PHYSICALITY_ATOMIC_POINT = 2"
definition LAPLACE_PERSISTENCE_VERTEX_NONE :: u32 where
  [persistence_constants]: "LAPLACE_PERSISTENCE_VERTEX_NONE = 0"
definition LAPLACE_PERSISTENCE_VERTEX_TRAJECTORY_CARRIER :: u32 where
  [persistence_constants]: "LAPLACE_PERSISTENCE_VERTEX_TRAJECTORY_CARRIER = 1"
definition LAPLACE_PERSISTENCE_STRUCTURAL_ORDERED_COMPOSITION :: u32 where
  [persistence_constants]: "LAPLACE_PERSISTENCE_STRUCTURAL_ORDERED_COMPOSITION = 1"
definition LAPLACE_PERSISTENCE_STRUCTURAL_ATOMIC_POINT :: u32 where
  [persistence_constants]: "LAPLACE_PERSISTENCE_STRUCTURAL_ATOMIC_POINT = 2"
definition LAPLACE_PERSISTENCE_PHYSICALITY_FLAGS_NONE :: u32 where
  [persistence_constants]: "LAPLACE_PERSISTENCE_PHYSICALITY_FLAGS_NONE = 0"
definition LAPLACE_PERSISTENCE_PG_PLAN_COUNT :: nat where
  [persistence_constants]: "LAPLACE_PERSISTENCE_PG_PLAN_COUNT = 11"

definition PHYSICALITY_DOMAIN :: "byte list" where
  "PHYSICALITY_DOMAIN = ascii_bytes ''laplace-physicality-record-v1''"
definition TRAJECTORY_DOMAIN :: "byte list" where
  "TRAJECTORY_DOMAIN = ascii_bytes ''laplace-composition-trajectory-v1''"
definition ATTESTATION_DOMAIN :: "byte list" where
  "ATTESTATION_DOMAIN = ascii_bytes ''laplace-attestation-record-v1''"
definition CONSENSUS_DOMAIN :: "byte list" where
  "CONSENSUS_DOMAIN = ascii_bytes ''laplace-consensus-record-v1''"
definition PLAN_SEQUENCE_DOMAIN :: "byte list" where
  "PLAN_SEQUENCE_DOMAIN = ascii_bytes ''laplace-postgresql-persistence-plan-sequence-v1''"
definition PLAN_MANIFEST :: "byte list" where
  "PLAN_MANIFEST = ascii_bytes (
     ''01:reference-preflight/set-v2;02:entity-insert/set-v2;03:entity-exact-verify/set-v2;'' @
     ''04:physicality-with-trajectory-insert/set-v2;'' @
     ''05:physicality-with-trajectory-exact-verify/set-v2;'' @
     ''06:attestation-insert/set-v2;07:attestation-exact-verify/set-v2;'' @
     ''08:consensus-insert/set-v2;09:consensus-exact-verify/set-v2;'' @
     ''10:receipt-attestation-insert/set-v2;11:receipt-attestation-exact-verify/set-v2'')"

text \<open>The plan numbers of the contract, from \<open>PG_PLAN_REFERENCE_PREFLIGHT\<close> to
  \<open>PG_PLAN_RECEIPT_VERIFY\<close>.\<close>

definition expected_plan_ids :: "u32 list" where
  "expected_plan_ids = [1, 2, 3, 4, 5, 6, 7, 8, 9, 10, 11]"

datatype laplace_persistence_status =
    LAPLACE_PERSISTENCE_OK
  | LAPLACE_PERSISTENCE_INVALID_ARGUMENT
  | LAPLACE_PERSISTENCE_CAPACITY_INSUFFICIENT
  | LAPLACE_PERSISTENCE_FRAME_INVALID
  | LAPLACE_PERSISTENCE_RECORD_INVALID
  | LAPLACE_PERSISTENCE_IDENTITY_MISMATCH
  | LAPLACE_PERSISTENCE_ORDER_INVALID
  | LAPLACE_PERSISTENCE_TRAJECTORY_INVALID
  | LAPLACE_PERSISTENCE_REFERENCE_INVALID
  | LAPLACE_PERSISTENCE_OVERFLOW

text \<open>\<open>double component[4]\<close>, one field per component.\<close>

record centroid4 =
  component0 :: binary64
  component1 :: binary64
  component2 :: binary64
  component3 :: binary64

record laplace_persistence_physicality_record =
  pph_physicality_id :: laplace_digest256
  pph_entity_id :: laplace_id128
  pph_physicality_type :: u32
  pph_vertex_class :: u32
  pph_recipe_version :: u32
  pph_structural_form :: u32
  pph_dimension_count :: u32
  pph_flags :: u32
  pph_recipe_fingerprint :: laplace_digest256
  pph_geometry_epoch :: laplace_digest256
  pph_trajectory_fingerprint :: laplace_digest256
  pph_centroid :: centroid4
  pph_radius :: binary64
  pph_logical_count :: u64
  pph_vertex_count :: u64

record laplace_persistence_entity_record =
  pen_entity_id :: laplace_id128
  pen_identity_witness :: laplace_digest256

record laplace_persistence_trajectory_segment_record =
  pts_physicality_id :: laplace_digest256
  pts_vertex_index :: u64
  pts_carrier :: laplace_trajectory_carrier
  pts_occurrence :: laplace_composition_occurrence

record laplace_persistence_attestation_record =
  pat_attestation_id :: laplace_digest256
  pat_entity_id :: laplace_id128
  pat_physicality_id :: laplace_digest256
  pat_source_fingerprint :: laplace_digest256
  pat_context_fingerprint :: laplace_digest256
  pat_source_ordinal :: u64
  pat_flags :: u32
  pat_attestation_kind :: u32

record laplace_persistence_consensus_record =
  pco_consensus_id :: laplace_digest256
  pco_proposition_entity_id :: laplace_id128
  pco_epoch_id :: laplace_digest256
  pco_evidence_boundary :: laplace_digest256
  pco_recipe_fingerprint :: laplace_digest256
  pco_observation_count :: u64
  pco_independent_root_count :: u64
  pco_disposition :: u32
  pco_flags :: u32
  pco_standing :: binary64

text \<open>The union \<open>value\<close>; its live member is the one \<open>kind\<close> names.\<close>

datatype persistence_value =
    Entity_Value laplace_persistence_entity_record
  | Physicality_Value laplace_persistence_physicality_record
  | Segment_Value laplace_persistence_trajectory_segment_record
  | Attestation_Value laplace_persistence_attestation_record
  | Consensus_Value laplace_persistence_consensus_record

record laplace_persistence_record =
  prc_kind :: u16
  prc_version :: u16
  prc_frame_bytes :: u32
  prc_value :: persistence_value

section \<open>Binary64\<close>

definition binary64_isfinite :: "binary64 \<Rightarrow> bool" where
  "binary64_isfinite x \<longleftrightarrow> x AND 0x7ff0000000000000 \<noteq> 0x7ff0000000000000"

text \<open>The position of a value that is not a NaN in the order of the reals; both zeros are 0.\<close>

definition binary64_rank :: "binary64 \<Rightarrow> int" where
  "binary64_rank x =
     (let magnitude = uint (x AND 0x7fffffffffffffff) in
      if bit x 63 then - magnitude else magnitude)"

definition binary64_less :: "binary64 \<Rightarrow> binary64 \<Rightarrow> bool" where
  "binary64_less x y \<longleftrightarrow> binary64_rank x < binary64_rank y"

definition binary64_zero :: binary64 where "binary64_zero = 0"
definition binary64_one :: binary64 where "binary64_one = 0x3ff0000000000000"
definition binary64_minus_one :: binary64 where "binary64_minus_one = 0xbff0000000000000"

section \<open>Trajectory and plan fingerprints\<close>

definition carrier_store :: "laplace_trajectory_carrier \<Rightarrow> byte list" where
  "carrier_store carrier =
     u64_le (slot0 carrier) @ u64_le (slot1 carrier) @ u64_le (slot2 carrier) @ u64_le (slot3 carrier)"

definition carrier_load :: "byte list \<Rightarrow> laplace_trajectory_carrier" where
  "carrier_load bs =
     \<lparr>slot0 = read_u64_le bs, slot1 = read_u64_le (drop 8 bs), slot2 = read_u64_le (drop 16 bs),
      slot3 = read_u64_le (drop 24 bs)\<rparr>"

definition trajectory_hash_begin :: "'h blake3_api \<Rightarrow> 'h" where
  "trajectory_hash_begin B = hasher_update B (hasher_init B) TRAJECTORY_DOMAIN"

definition laplace_persistence_trajectory_bytes_fingerprint ::
  "'h blake3_api \<Rightarrow> byte span \<Rightarrow> laplace_digest256 option
     \<Rightarrow> laplace_persistence_status \<times> laplace_digest256 option" where
  "laplace_persistence_trajectory_bytes_fingerprint B bs fingerprint =
     (if span_null bs \<or> span_count bs = 0 \<or> span_count bs mod 32 \<noteq> 0 \<or> fingerprint = None
      then (LAPLACE_PERSISTENCE_INVALID_ARGUMENT, fingerprint)
      else (LAPLACE_PERSISTENCE_OK,
            Some (hasher_finalize B (hasher_update B (trajectory_hash_begin B) (span_items bs)))))"

definition laplace_persistence_trajectory_fingerprint ::
  "'h blake3_api \<Rightarrow> laplace_trajectory_carrier span \<Rightarrow> laplace_digest256 option
     \<Rightarrow> laplace_persistence_status \<times> laplace_digest256 option" where
  "laplace_persistence_trajectory_fingerprint B carriers fingerprint =
     (if span_null carriers \<or> span_count carriers = 0 \<or> fingerprint = None
      then (LAPLACE_PERSISTENCE_INVALID_ARGUMENT, fingerprint)
      else (LAPLACE_PERSISTENCE_OK,
            Some (hasher_finalize B
              (updates B (trajectory_hash_begin B) (map carrier_store (span_items carriers))))))"

fun plan_sequence_loop :: "'h blake3_api \<Rightarrow> 'h \<Rightarrow> (u32 \<times> u32) list \<Rightarrow> 'h option" where
  "plan_sequence_loop B h [] = Some h"
| "plan_sequence_loop B h ((plan, expected) # rest) =
     (if plan \<noteq> expected then None
      else plan_sequence_loop B (hasher_update B h (u32_le plan)) rest)"

definition laplace_persistence_plan_sequence_fingerprint ::
  "'h blake3_api \<Rightarrow> u32 span \<Rightarrow> laplace_digest256 option
     \<Rightarrow> laplace_persistence_status \<times> laplace_digest256 option" where
  "laplace_persistence_plan_sequence_fingerprint B plan_ids fingerprint =
     (if span_null plan_ids \<or> span_count plan_ids \<noteq> LAPLACE_PERSISTENCE_PG_PLAN_COUNT \<or>
         fingerprint = None
      then (LAPLACE_PERSISTENCE_INVALID_ARGUMENT, fingerprint)
      else
        case plan_sequence_loop B
               (updates B (hasher_init B) [PLAN_SEQUENCE_DOMAIN, PLAN_MANIFEST])
               (zip (span_items plan_ids) expected_plan_ids) of
          None \<Rightarrow> (LAPLACE_PERSISTENCE_RECORD_INVALID, fingerprint)
        | Some h \<Rightarrow> (LAPLACE_PERSISTENCE_OK, Some (hasher_finalize B h)))"

section \<open>Physicality records\<close>

definition centroid_components :: "centroid4 \<Rightarrow> binary64 list" where
  "centroid_components point = [component0 point, component1 point, component2 point, component3 point]"

definition physicality_scalars_valid :: "laplace_persistence_physicality_record \<Rightarrow> bool" where
  "physicality_scalars_valid physicality =
     (if pph_recipe_version physicality = 0 \<or>
         pph_dimension_count physicality \<noteq> 4 \<or>
         pph_flags physicality \<noteq> LAPLACE_PERSISTENCE_PHYSICALITY_FLAGS_NONE \<or>
         \<not> binary64_isfinite (pph_radius physicality)
      then False
      else if list_ex (\<lambda>v. \<not> binary64_isfinite v \<or> binary64_less v binary64_minus_one \<or>
                          binary64_less binary64_one v)
                (centroid_components (pph_centroid physicality))
      then False
      else if pph_physicality_type physicality = LAPLACE_PERSISTENCE_PHYSICALITY_COMPOSITION then
        pph_vertex_class physicality = LAPLACE_PERSISTENCE_VERTEX_TRAJECTORY_CARRIER \<and>
        pph_structural_form physicality = LAPLACE_PERSISTENCE_STRUCTURAL_ORDERED_COMPOSITION \<and>
        pph_logical_count physicality \<noteq> 0 \<and> pph_vertex_count physicality \<noteq> 0 \<and>
        \<not> binary64_less (pph_radius physicality) binary64_zero \<and>
        \<not> binary64_less binary64_one (pph_radius physicality)
      else if pph_physicality_type physicality = LAPLACE_PERSISTENCE_PHYSICALITY_ATOMIC_POINT then
        pph_vertex_class physicality = LAPLACE_PERSISTENCE_VERTEX_NONE \<and>
        pph_structural_form physicality = LAPLACE_PERSISTENCE_STRUCTURAL_ATOMIC_POINT \<and>
        pph_logical_count physicality = 1 \<and> pph_vertex_count physicality = 0 \<and>
        pph_radius physicality = 0 \<and>
        bytes_zero (bytes (pph_trajectory_fingerprint physicality))
      else False)"

definition physicality_fields :: "laplace_persistence_physicality_record \<Rightarrow> byte list list" where
  "physicality_fields physicality =
     [bytes (pph_physicality_id physicality), bytes (pph_entity_id physicality),
      u32_le (pph_physicality_type physicality), u32_le (pph_vertex_class physicality),
      u32_le (pph_recipe_version physicality), u32_le (pph_structural_form physicality),
      u32_le (pph_dimension_count physicality), u32_le (pph_flags physicality),
      bytes (pph_recipe_fingerprint physicality), bytes (pph_geometry_epoch physicality),
      bytes (pph_trajectory_fingerprint physicality),
      u64_le (component0 (pph_centroid physicality)), u64_le (component1 (pph_centroid physicality)),
      u64_le (component2 (pph_centroid physicality)), u64_le (component3 (pph_centroid physicality)),
      u64_le (pph_radius physicality), u64_le (pph_logical_count physicality),
      u64_le (pph_vertex_count physicality)]"

definition physicality_payload :: "laplace_persistence_physicality_record \<Rightarrow> byte list" where
  "physicality_payload physicality =
     store_fields 0 (physicality_fields physicality)
       (replicate LAPLACE_PERSISTENCE_PHYSICALITY_PAYLOAD_BYTES 0)"

definition laplace_persistence_physicality_identify ::
  "'h blake3_api \<Rightarrow> laplace_persistence_physicality_record option \<Rightarrow> laplace_digest256 option
     \<Rightarrow> laplace_persistence_status \<times> laplace_digest256 option" where
  "laplace_persistence_physicality_identify B physicality physicality_id =
     (case (physicality, physicality_id) of
        (Some p, Some _) \<Rightarrow>
          if \<not> physicality_scalars_valid p then (LAPLACE_PERSISTENCE_RECORD_INVALID, physicality_id)
          else (LAPLACE_PERSISTENCE_OK,
                Some (hasher_finalize B (updates B (hasher_init B)
                  [PHYSICALITY_DOMAIN,
                   drop PHYSICALITY_IDENTITY_INPUT_OFFSET (physicality_payload p)])))
      | _ \<Rightarrow> (LAPLACE_PERSISTENCE_RECORD_INVALID, physicality_id))"

definition laplace_persistence_atomic_point_physicality ::
  "'h blake3_api \<Rightarrow> laplace_id128 option \<Rightarrow> u32 \<Rightarrow> laplace_digest256 option
     \<Rightarrow> laplace_digest256 option \<Rightarrow> centroid4 option
     \<Rightarrow> laplace_persistence_physicality_record option
     \<Rightarrow> laplace_persistence_status \<times> laplace_persistence_physicality_record option" where
  "laplace_persistence_atomic_point_physicality B entity_id recipe_version recipe_fingerprint
     geometry_epoch point physicality =
     (if entity_id = None \<or> recipe_fingerprint = None \<or> geometry_epoch = None \<or> point = None \<or>
         physicality = None
      then (LAPLACE_PERSISTENCE_INVALID_ARGUMENT, physicality)
      else
        let created =
              \<lparr>pph_physicality_id = 0, pph_entity_id = the entity_id,
               pph_physicality_type = LAPLACE_PERSISTENCE_PHYSICALITY_ATOMIC_POINT,
               pph_vertex_class = LAPLACE_PERSISTENCE_VERTEX_NONE,
               pph_recipe_version = recipe_version,
               pph_structural_form = LAPLACE_PERSISTENCE_STRUCTURAL_ATOMIC_POINT,
               pph_dimension_count = 4,
               pph_flags = LAPLACE_PERSISTENCE_PHYSICALITY_FLAGS_NONE,
               pph_recipe_fingerprint = the recipe_fingerprint,
               pph_geometry_epoch = the geometry_epoch, pph_trajectory_fingerprint = 0,
               pph_centroid = the point, pph_radius = 0, pph_logical_count = 1,
               pph_vertex_count = 0\<rparr> in
        case laplace_persistence_physicality_identify B (Some created)
               (Some (pph_physicality_id created)) of
          (status, physicality_id) \<Rightarrow>
            if status \<noteq> LAPLACE_PERSISTENCE_OK then (status, physicality)
            else (LAPLACE_PERSISTENCE_OK,
                  Some (created\<lparr>pph_physicality_id := the physicality_id\<rparr>)))"

section \<open>Attestation records\<close>

definition attestation_scalars_valid :: "laplace_persistence_attestation_record \<Rightarrow> bool" where
  "attestation_scalars_valid attestation =
     (let known_flags = LAPLACE_PERSISTENCE_ATTESTATION_HAS_PHYSICALITY;
          has_physicality =
            pat_flags attestation AND LAPLACE_PERSISTENCE_ATTESTATION_HAS_PHYSICALITY \<noteq> 0 in
      \<not> (pat_flags attestation AND NOT known_flags \<noteq> 0 \<or>
         pat_attestation_kind attestation < LAPLACE_PERSISTENCE_ATTESTATION_OBSERVED_OCCURRENCE \<or>
         pat_attestation_kind attestation > LAPLACE_PERSISTENCE_ATTESTATION_DERIVED_CLAIM \<or>
         pat_source_ordinal attestation = 0 \<or>
         \<not> has_physicality \<and> \<not> bytes_zero (bytes (pat_physicality_id attestation))))"

definition attestation_fields :: "laplace_persistence_attestation_record \<Rightarrow> byte list list" where
  "attestation_fields attestation =
     [bytes (pat_attestation_id attestation), bytes (pat_entity_id attestation),
      bytes (pat_physicality_id attestation), bytes (pat_source_fingerprint attestation),
      bytes (pat_context_fingerprint attestation), u64_le (pat_source_ordinal attestation),
      u32_le (pat_flags attestation), u32_le (pat_attestation_kind attestation)]"

definition attestation_payload :: "laplace_persistence_attestation_record \<Rightarrow> byte list" where
  "attestation_payload attestation =
     store_fields 0 (attestation_fields attestation)
       (replicate LAPLACE_PERSISTENCE_ATTESTATION_PAYLOAD_BYTES 0)"

definition laplace_persistence_attestation_identify ::
  "'h blake3_api \<Rightarrow> laplace_persistence_attestation_record option \<Rightarrow> laplace_digest256 option
     \<Rightarrow> laplace_persistence_status \<times> laplace_digest256 option" where
  "laplace_persistence_attestation_identify B attestation attestation_id =
     (case (attestation, attestation_id) of
        (Some a, Some _) \<Rightarrow>
          if \<not> attestation_scalars_valid a then (LAPLACE_PERSISTENCE_RECORD_INVALID, attestation_id)
          else (LAPLACE_PERSISTENCE_OK,
                Some (hasher_finalize B (updates B (hasher_init B)
                  [ATTESTATION_DOMAIN,
                   drop ATTESTATION_IDENTITY_INPUT_OFFSET (attestation_payload a)])))
      | _ \<Rightarrow> (LAPLACE_PERSISTENCE_RECORD_INVALID, attestation_id))"

section \<open>Consensus records\<close>

definition consensus_scalars_valid :: "laplace_persistence_consensus_record \<Rightarrow> bool" where
  "consensus_scalars_valid consensus \<longleftrightarrow>
     pco_observation_count consensus \<noteq> 0 \<and>
     pco_independent_root_count consensus \<le> pco_observation_count consensus \<and>
     pco_disposition consensus \<noteq> 0 \<and> pco_flags consensus = 0 \<and>
     binary64_isfinite (pco_standing consensus)"

definition consensus_fields :: "laplace_persistence_consensus_record \<Rightarrow> byte list list" where
  "consensus_fields consensus =
     [bytes (pco_consensus_id consensus), bytes (pco_proposition_entity_id consensus),
      bytes (pco_epoch_id consensus), bytes (pco_evidence_boundary consensus),
      bytes (pco_recipe_fingerprint consensus), u64_le (pco_observation_count consensus),
      u64_le (pco_independent_root_count consensus), u32_le (pco_disposition consensus),
      u32_le (pco_flags consensus), u64_le (pco_standing consensus)]"

definition consensus_payload :: "laplace_persistence_consensus_record \<Rightarrow> byte list" where
  "consensus_payload consensus =
     store_fields 0 (consensus_fields consensus)
       (replicate LAPLACE_PERSISTENCE_CONSENSUS_PAYLOAD_BYTES 0)"

definition laplace_persistence_consensus_identify ::
  "'h blake3_api \<Rightarrow> laplace_persistence_consensus_record option \<Rightarrow> laplace_digest256 option
     \<Rightarrow> laplace_persistence_status \<times> laplace_digest256 option" where
  "laplace_persistence_consensus_identify B consensus consensus_id =
     (case (consensus, consensus_id) of
        (Some c, Some _) \<Rightarrow>
          if \<not> consensus_scalars_valid c then (LAPLACE_PERSISTENCE_RECORD_INVALID, consensus_id)
          else (LAPLACE_PERSISTENCE_OK,
                Some (hasher_finalize B (updates B (hasher_init B)
                  [CONSENSUS_DOMAIN,
                   drop CONSENSUS_IDENTITY_INPUT_OFFSET (consensus_payload c)])))
      | _ \<Rightarrow> (LAPLACE_PERSISTENCE_RECORD_INVALID, consensus_id))"

section \<open>Encoding a frame\<close>

definition laplace_persistence_frame_bytes :: "u16 \<Rightarrow> nat" where
  "laplace_persistence_frame_bytes kind =
     (if kind = LAPLACE_PERSISTENCE_RECORD_ENTITY
      then FRAME_HEADER_BYTES + LAPLACE_PERSISTENCE_ENTITY_PAYLOAD_BYTES
      else if kind = LAPLACE_PERSISTENCE_RECORD_PHYSICALITY
      then FRAME_HEADER_BYTES + LAPLACE_PERSISTENCE_PHYSICALITY_PAYLOAD_BYTES
      else if kind = LAPLACE_PERSISTENCE_RECORD_PHYSICALITY_TRAJECTORY_SEGMENT
      then FRAME_HEADER_BYTES + LAPLACE_PERSISTENCE_PHYSICALITY_TRAJECTORY_SEGMENT_PAYLOAD_BYTES
      else if kind = LAPLACE_PERSISTENCE_RECORD_ATTESTATION
      then FRAME_HEADER_BYTES + LAPLACE_PERSISTENCE_ATTESTATION_PAYLOAD_BYTES
      else if kind = LAPLACE_PERSISTENCE_RECORD_CONSENSUS
      then FRAME_HEADER_BYTES + LAPLACE_PERSISTENCE_CONSENSUS_PAYLOAD_BYTES
      else 0)"

text \<open>The length of the \<open>output\<close> buffer is its capacity.\<close>

definition frame_header ::
  "u16 \<Rightarrow> byte list option \<Rightarrow> nat option
     \<Rightarrow> laplace_persistence_status \<times> byte list option \<times> nat option" where
  "frame_header kind output output_bytes =
     (let frame_bytes = laplace_persistence_frame_bytes kind in
      if output = None \<or> output_bytes = None \<or> frame_bytes = 0
      then (LAPLACE_PERSISTENCE_INVALID_ARGUMENT, output, output_bytes)
      else if length (the output) < frame_bytes
      then (LAPLACE_PERSISTENCE_CAPACITY_INSUFFICIENT, output, output_bytes)
      else
        let cleared = memcpy_at 0 (replicate frame_bytes 0) (the output);
            sized = memcpy_at 0 (u32_le (of_nat frame_bytes)) cleared;
            typed = memcpy_at 4 (store_u16 kind) sized in
        (LAPLACE_PERSISTENCE_OK,
         Some (memcpy_at 6 (store_u16 LAPLACE_PERSISTENCE_FRAME_VERSION) typed), Some frame_bytes))"

text \<open>\<open>frame_header\<close> and then the stores of the payload behind it.\<close>

definition frame_with_payload ::
  "u16 \<Rightarrow> byte list \<Rightarrow> byte list option \<Rightarrow> nat option
     \<Rightarrow> laplace_persistence_status \<times> byte list option \<times> nat option" where
  "frame_with_payload kind payload output output_bytes =
     (case frame_header kind output output_bytes of
        (status, framed, framed_bytes) \<Rightarrow>
          if status = LAPLACE_PERSISTENCE_OK
          then (status, Some (memcpy_at FRAME_HEADER_BYTES payload (the framed)), framed_bytes)
          else (status, framed, framed_bytes))"

definition laplace_persistence_frame_encode_entity ::
  "laplace_id128 option \<Rightarrow> laplace_digest256 option \<Rightarrow> byte list option \<Rightarrow> nat option
     \<Rightarrow> laplace_persistence_status \<times> byte list option \<times> nat option" where
  "laplace_persistence_frame_encode_entity entity identity_witness output output_bytes =
     (case (entity, identity_witness) of
        (Some e, Some w) \<Rightarrow>
          if memcmp (bytes e) (take 16 (bytes w)) \<noteq> 0
          then (LAPLACE_PERSISTENCE_RECORD_INVALID, output, output_bytes)
          else frame_with_payload LAPLACE_PERSISTENCE_RECORD_ENTITY (bytes e @ bytes w) output
                 output_bytes
      | _ \<Rightarrow> (LAPLACE_PERSISTENCE_RECORD_INVALID, output, output_bytes))"

definition laplace_persistence_frame_encode_physicality ::
  "'h blake3_api \<Rightarrow> laplace_persistence_physicality_record option \<Rightarrow> byte list option \<Rightarrow> nat option
     \<Rightarrow> laplace_persistence_status \<times> byte list option \<times> nat option" where
  "laplace_persistence_frame_encode_physicality B physicality output output_bytes =
     (case physicality of
        None \<Rightarrow> (LAPLACE_PERSISTENCE_IDENTITY_MISMATCH, output, output_bytes)
      | Some p \<Rightarrow>
          (case laplace_persistence_physicality_identify B (Some p) (Some 0) of
             (status, expected) \<Rightarrow>
               if status \<noteq> LAPLACE_PERSISTENCE_OK \<or>
                  \<not> digest_equal (the expected) (pph_physicality_id p)
               then (LAPLACE_PERSISTENCE_IDENTITY_MISMATCH, output, output_bytes)
               else frame_with_payload LAPLACE_PERSISTENCE_RECORD_PHYSICALITY
                      (physicality_payload p) output output_bytes))"

definition laplace_persistence_frame_encode_trajectory_segment ::
  "laplace_digest256 option \<Rightarrow> u64 \<Rightarrow> laplace_trajectory_carrier option \<Rightarrow> byte list option
     \<Rightarrow> nat option \<Rightarrow> laplace_persistence_status \<times> byte list option \<times> nat option" where
  "laplace_persistence_frame_encode_trajectory_segment physicality_id vertex_index carrier output
     output_bytes =
     (if physicality_id = None \<or> carrier = None \<or>
         fst (laplace_trajectory_carrier_decode carrier (Some payload_zero)) \<noteq> LAPLACE_TRAJECTORY_OK
      then (LAPLACE_PERSISTENCE_TRAJECTORY_INVALID, output, output_bytes)
      else frame_with_payload LAPLACE_PERSISTENCE_RECORD_PHYSICALITY_TRAJECTORY_SEGMENT
             (bytes (the physicality_id) @ u64_le vertex_index @ carrier_store (the carrier))
             output output_bytes)"

definition laplace_persistence_frame_encode_attestation ::
  "'h blake3_api \<Rightarrow> laplace_persistence_attestation_record option \<Rightarrow> byte list option \<Rightarrow> nat option
     \<Rightarrow> laplace_persistence_status \<times> byte list option \<times> nat option" where
  "laplace_persistence_frame_encode_attestation B attestation output output_bytes =
     (case attestation of
        None \<Rightarrow> (LAPLACE_PERSISTENCE_IDENTITY_MISMATCH, output, output_bytes)
      | Some a \<Rightarrow>
          (case laplace_persistence_attestation_identify B (Some a) (Some 0) of
             (status, expected) \<Rightarrow>
               if status \<noteq> LAPLACE_PERSISTENCE_OK \<or>
                  \<not> digest_equal (the expected) (pat_attestation_id a)
               then (LAPLACE_PERSISTENCE_IDENTITY_MISMATCH, output, output_bytes)
               else frame_with_payload LAPLACE_PERSISTENCE_RECORD_ATTESTATION
                      (attestation_payload a) output output_bytes))"

definition laplace_persistence_frame_encode_consensus ::
  "'h blake3_api \<Rightarrow> laplace_persistence_consensus_record option \<Rightarrow> byte list option \<Rightarrow> nat option
     \<Rightarrow> laplace_persistence_status \<times> byte list option \<times> nat option" where
  "laplace_persistence_frame_encode_consensus B consensus output output_bytes =
     (case consensus of
        None \<Rightarrow> (LAPLACE_PERSISTENCE_IDENTITY_MISMATCH, output, output_bytes)
      | Some c \<Rightarrow>
          (case laplace_persistence_consensus_identify B (Some c) (Some 0) of
             (status, expected) \<Rightarrow>
               if status \<noteq> LAPLACE_PERSISTENCE_OK \<or>
                  \<not> digest_equal (the expected) (pco_consensus_id c)
               then (LAPLACE_PERSISTENCE_IDENTITY_MISMATCH, output, output_bytes)
               else frame_with_payload LAPLACE_PERSISTENCE_RECORD_CONSENSUS
                      (consensus_payload c) output output_bytes))"

section \<open>Decoding a frame\<close>

definition read_physicality :: "byte list \<Rightarrow> laplace_persistence_physicality_record" where
  "read_physicality payload =
     \<lparr>pph_physicality_id = digest256_at payload 0, pph_entity_id = id128_at payload 32,
      pph_physicality_type = read_u32_le (drop 48 payload),
      pph_vertex_class = read_u32_le (drop 52 payload),
      pph_recipe_version = read_u32_le (drop 56 payload),
      pph_structural_form = read_u32_le (drop 60 payload),
      pph_dimension_count = read_u32_le (drop 64 payload),
      pph_flags = read_u32_le (drop 68 payload),
      pph_recipe_fingerprint = digest256_at payload 72,
      pph_geometry_epoch = digest256_at payload 104,
      pph_trajectory_fingerprint = digest256_at payload 136,
      pph_centroid =
        \<lparr>component0 = read_u64_le (drop 168 payload), component1 = read_u64_le (drop 176 payload),
         component2 = read_u64_le (drop 184 payload), component3 = read_u64_le (drop 192 payload)\<rparr>,
      pph_radius = read_u64_le (drop 200 payload),
      pph_logical_count = read_u64_le (drop 208 payload),
      pph_vertex_count = read_u64_le (drop 216 payload)\<rparr>"

definition read_attestation :: "byte list \<Rightarrow> laplace_persistence_attestation_record" where
  "read_attestation payload =
     \<lparr>pat_attestation_id = digest256_at payload 0, pat_entity_id = id128_at payload 32,
      pat_physicality_id = digest256_at payload 48,
      pat_source_fingerprint = digest256_at payload 80,
      pat_context_fingerprint = digest256_at payload 112,
      pat_source_ordinal = read_u64_le (drop 144 payload),
      pat_flags = read_u32_le (drop 152 payload),
      pat_attestation_kind = read_u32_le (drop 156 payload)\<rparr>"

definition read_consensus :: "byte list \<Rightarrow> laplace_persistence_consensus_record" where
  "read_consensus payload =
     \<lparr>pco_consensus_id = digest256_at payload 0, pco_proposition_entity_id = id128_at payload 32,
      pco_epoch_id = digest256_at payload 48, pco_evidence_boundary = digest256_at payload 80,
      pco_recipe_fingerprint = digest256_at payload 112,
      pco_observation_count = read_u64_le (drop 144 payload),
      pco_independent_root_count = read_u64_le (drop 152 payload),
      pco_disposition = read_u32_le (drop 160 payload),
      pco_flags = read_u32_le (drop 164 payload),
      pco_standing = read_u64_le (drop 168 payload)\<rparr>"

text \<open>The running offsets end at the payload sizes, so the codes' tests of \<open>offset\<close> pass.\<close>

definition decode_physicality ::
  "'h blake3_api \<Rightarrow> byte list
     \<Rightarrow> laplace_persistence_status + laplace_persistence_physicality_record" where
  "decode_physicality B payload =
     (let decoded = read_physicality payload in
      case laplace_persistence_physicality_identify B (Some decoded) (Some 0) of
        (status, expected) \<Rightarrow>
          if status \<noteq> LAPLACE_PERSISTENCE_OK \<or>
             \<not> digest_equal (pph_physicality_id decoded) (the expected)
          then Inl LAPLACE_PERSISTENCE_IDENTITY_MISMATCH else Inr decoded)"

definition decode_attestation ::
  "'h blake3_api \<Rightarrow> byte list
     \<Rightarrow> laplace_persistence_status + laplace_persistence_attestation_record" where
  "decode_attestation B payload =
     (let decoded = read_attestation payload in
      case laplace_persistence_attestation_identify B (Some decoded) (Some 0) of
        (status, expected) \<Rightarrow>
          if status \<noteq> LAPLACE_PERSISTENCE_OK \<or>
             \<not> digest_equal (pat_attestation_id decoded) (the expected)
          then Inl LAPLACE_PERSISTENCE_IDENTITY_MISMATCH else Inr decoded)"

definition decode_consensus ::
  "'h blake3_api \<Rightarrow> byte list
     \<Rightarrow> laplace_persistence_status + laplace_persistence_consensus_record" where
  "decode_consensus B payload =
     (let decoded = read_consensus payload in
      case laplace_persistence_consensus_identify B (Some decoded) (Some 0) of
        (status, expected) \<Rightarrow>
          if status \<noteq> LAPLACE_PERSISTENCE_OK \<or>
             \<not> digest_equal (pco_consensus_id decoded) (the expected)
          then Inl LAPLACE_PERSISTENCE_IDENTITY_MISMATCH else Inr decoded)"

definition occurrence_zero :: laplace_composition_occurrence where
  "occurrence_zero =
     \<lparr>oc_entity_id = 0, oc_logical_ordinal = 0, oc_metadata = 0, oc_atom = 0,
      oc_packed_ordinal = 0, oc_run_length = 0, oc_tier = 0, oc_has_atom = 0, oc_reserved = 0\<rparr>"

definition read_segment :: "byte list \<Rightarrow> laplace_persistence_trajectory_segment_record" where
  "read_segment payload =
     \<lparr>pts_physicality_id = digest256_at payload 0, pts_vertex_index = read_u64_le (drop 32 payload),
      pts_carrier = carrier_load (drop 40 payload), pts_occurrence = occurrence_zero\<rparr>"

definition decode_value ::
  "'h blake3_api \<Rightarrow> u16 \<Rightarrow> byte list \<Rightarrow> laplace_persistence_status + persistence_value" where
  "decode_value B kind payload =
     (if kind = LAPLACE_PERSISTENCE_RECORD_ENTITY then
        (let entity_id = id128_at payload 0; identity_witness = digest256_at payload 16 in
         if memcmp (bytes entity_id) (take 16 (bytes identity_witness)) \<noteq> 0
         then Inl LAPLACE_PERSISTENCE_RECORD_INVALID
         else Inr (Entity_Value
                \<lparr>pen_entity_id = entity_id, pen_identity_witness = identity_witness\<rparr>))
      else if kind = LAPLACE_PERSISTENCE_RECORD_PHYSICALITY
      then map_sum id Physicality_Value (decode_physicality B payload)
      else if kind = LAPLACE_PERSISTENCE_RECORD_PHYSICALITY_TRAJECTORY_SEGMENT then
        (let segment = read_segment payload in
         if fst (laplace_trajectory_carrier_decode (Some (pts_carrier segment)) (Some payload_zero))
              \<noteq> LAPLACE_TRAJECTORY_OK
         then Inl LAPLACE_PERSISTENCE_TRAJECTORY_INVALID
         else Inr (Segment_Value segment))
      else if kind = LAPLACE_PERSISTENCE_RECORD_ATTESTATION
      then map_sum id Attestation_Value (decode_attestation B payload)
      else if kind = LAPLACE_PERSISTENCE_RECORD_CONSENSUS
      then map_sum id Consensus_Value (decode_consensus B payload)
      else Inl LAPLACE_PERSISTENCE_FRAME_INVALID)"

definition laplace_persistence_frame_decode ::
  "'h blake3_api \<Rightarrow> byte list option \<Rightarrow> nat \<Rightarrow> laplace_persistence_record option \<Rightarrow> nat option
     \<Rightarrow> laplace_persistence_status \<times> laplace_persistence_record option \<times> nat option" where
  "laplace_persistence_frame_decode B frame available_bytes record_out consumed_bytes =
     (if frame = None \<or> record_out = None \<or> consumed_bytes = None \<or>
         available_bytes < FRAME_HEADER_BYTES
      then (LAPLACE_PERSISTENCE_INVALID_ARGUMENT, record_out, consumed_bytes)
      else
        let bs = the frame;
            frame_bytes = read_u32_le bs;
            kind = read_u16_le (drop 4 bs);
            version = read_u16_le (drop 6 bs);
            expected_bytes = laplace_persistence_frame_bytes kind in
        if expected_bytes = 0 \<or> unat frame_bytes \<noteq> expected_bytes \<or>
           unat frame_bytes > available_bytes \<or> version \<noteq> LAPLACE_PERSISTENCE_FRAME_VERSION
        then (LAPLACE_PERSISTENCE_FRAME_INVALID, record_out, consumed_bytes)
        else
          case decode_value B kind (drop FRAME_HEADER_BYTES bs) of
            Inl status \<Rightarrow> (status, record_out, consumed_bytes)
          | Inr decoded \<Rightarrow>
              (LAPLACE_PERSISTENCE_OK,
               Some \<lparr>prc_kind = kind, prc_version = version, prc_frame_bytes = frame_bytes,
                     prc_value = decoded\<rparr>,
               Some (unat frame_bytes)))"

end
