(* ===== verification/Persistence_Codec.thy ===== *)
theory Persistence_Codec
  imports Persistence_Records
begin

text \<open>
  Persistence frames, second part: the reference encoding of a record as one concatenation, and
  the proof that the frame encoders produce it and the decoder accepts exactly it
  (\<open>engine/src/persistence.c\<close>).
\<close>

section \<open>Reference encoding\<close>

fun value_kind :: "persistence_value \<Rightarrow> u16" where
  "value_kind (Entity_Value e) = LAPLACE_PERSISTENCE_RECORD_ENTITY"
| "value_kind (Physicality_Value p) = LAPLACE_PERSISTENCE_RECORD_PHYSICALITY"
| "value_kind (Segment_Value s) = LAPLACE_PERSISTENCE_RECORD_PHYSICALITY_TRAJECTORY_SEGMENT"
| "value_kind (Attestation_Value a) = LAPLACE_PERSISTENCE_RECORD_ATTESTATION"
| "value_kind (Consensus_Value c) = LAPLACE_PERSISTENCE_RECORD_CONSENSUS"

fun value_payload :: "persistence_value \<Rightarrow> byte list" where
  "value_payload (Entity_Value e) = bytes (pen_entity_id e) @ bytes (pen_identity_witness e)"
| "value_payload (Physicality_Value p) = concat (physicality_fields p)"
| "value_payload (Segment_Value s) =
     bytes (pts_physicality_id s) @ u64_le (pts_vertex_index s) @ carrier_store (pts_carrier s)"
| "value_payload (Attestation_Value a) = concat (attestation_fields a)"
| "value_payload (Consensus_Value c) = concat (consensus_fields c)"

text \<open>The records that may be persisted: valid scalars and the right identity.\<close>

definition physicality_identity ::
  "'h blake3_api \<Rightarrow> laplace_persistence_physicality_record \<Rightarrow> laplace_digest256" where
  "physicality_identity B p =
     hasher_finalize B (updates B (hasher_init B)
       [PHYSICALITY_DOMAIN, drop 32 (concat (physicality_fields p))])"

definition attestation_identity ::
  "'h blake3_api \<Rightarrow> laplace_persistence_attestation_record \<Rightarrow> laplace_digest256" where
  "attestation_identity B a =
     hasher_finalize B (updates B (hasher_init B)
       [ATTESTATION_DOMAIN, drop 32 (concat (attestation_fields a))])"

definition consensus_identity ::
  "'h blake3_api \<Rightarrow> laplace_persistence_consensus_record \<Rightarrow> laplace_digest256" where
  "consensus_identity B c =
     hasher_finalize B (updates B (hasher_init B)
       [CONSENSUS_DOMAIN, drop 32 (concat (consensus_fields c))])"

fun value_ok :: "'h blake3_api \<Rightarrow> persistence_value \<Rightarrow> bool" where
  "value_ok B (Entity_Value e) \<longleftrightarrow> take 16 (bytes (pen_identity_witness e)) = bytes (pen_entity_id e)"
| "value_ok B (Physicality_Value p) \<longleftrightarrow>
     physicality_scalars_valid p \<and> pph_physicality_id p = physicality_identity B p"
| "value_ok B (Segment_Value s) \<longleftrightarrow>
     fst (laplace_trajectory_carrier_decode (Some (pts_carrier s)) (Some payload_zero))
       = LAPLACE_TRAJECTORY_OK \<and> pts_occurrence s = occurrence_zero"
| "value_ok B (Attestation_Value a) \<longleftrightarrow>
     attestation_scalars_valid a \<and> pat_attestation_id a = attestation_identity B a"
| "value_ok B (Consensus_Value c) \<longleftrightarrow>
     consensus_scalars_valid c \<and> pco_consensus_id c = consensus_identity B c"

definition frame_size :: "persistence_value \<Rightarrow> nat" where
  "frame_size v = 8 + length (value_payload v)"

definition frame_of :: "persistence_value \<Rightarrow> byte list" where
  "frame_of v =
     u32_le (of_nat (frame_size v)) @ store_u16 (value_kind v) @
     store_u16 LAPLACE_PERSISTENCE_FRAME_VERSION @ value_payload v"

definition record_of :: "persistence_value \<Rightarrow> laplace_persistence_record" where
  "record_of v =
     \<lparr>prc_kind = value_kind v, prc_version = LAPLACE_PERSISTENCE_FRAME_VERSION,
      prc_frame_bytes = of_nat (frame_size v), prc_value = v\<rparr>"

lemma length_frame_of [simp]: "length (frame_of v) = frame_size v"
  by (simp add: frame_of_def frame_size_def)

lemma length_carrier_store [simp]: "length (carrier_store c) = 32"
  by (simp add: carrier_store_def)

lemma length_record_fields [simp]:
  "length (concat (physicality_fields p)) = 224"
  "length (concat (attestation_fields a)) = 160"
  "length (concat (consensus_fields c)) = 176"
  by (simp_all add: physicality_fields_def attestation_fields_def consensus_fields_def)

lemma payloads [simp]:
  "physicality_payload p = concat (physicality_fields p)"
  "attestation_payload a = concat (attestation_fields a)"
  "consensus_payload c = concat (consensus_fields c)"
  by (simp_all add: physicality_payload_def attestation_payload_def consensus_payload_def
      store_fields_zeroed persistence_constants)

lemma frame_size_eq: "frame_size v = laplace_persistence_frame_bytes (value_kind v)"
  by (cases v) (simp_all add: frame_size_def laplace_persistence_frame_bytes_def
      persistence_constants)

lemma frame_size_bounds: "56 \<le> frame_size v" "frame_size v \<le> 232"
  by (cases v; simp add: frame_size_def)+

section \<open>Reading back\<close>

lemma carrier_load_store [simp]: "carrier_load (carrier_store c @ r) = c"
  by (simp add: carrier_load_def carrier_store_def)

lemma read_physicality_fields [simp]: "read_physicality (concat (physicality_fields p) @ r) = p"
  by (simp add: read_physicality_def physicality_fields_def id128_at_def digest256_at_def)

lemma read_attestation_fields [simp]: "read_attestation (concat (attestation_fields a) @ r) = a"
  by (simp add: read_attestation_def attestation_fields_def id128_at_def digest256_at_def)

lemma read_consensus_fields [simp]: "read_consensus (concat (consensus_fields c) @ r) = c"
  by (simp add: read_consensus_def consensus_fields_def id128_at_def digest256_at_def)

text \<open>And the other way round: what was read, stored again, is what was there.\<close>

lemma take_chop: "j \<le> k \<Longrightarrow> take k bs = take j bs @ take (k - j) (drop j bs)"
  by (metis le_add_diff_inverse take_add)

lemma take_cut: "take (j + k) bs = take j bs @ take k (drop j bs)"
  by (rule take_add)

lemma reread:
  "k + 16 \<le> length bs \<Longrightarrow> bytes (id128_at bs k) = take 16 (drop k bs)"
  "k + 32 \<le> length bs \<Longrightarrow> bytes (digest256_at bs k) = take 32 (drop k bs)"
  "k + 4 \<le> length bs \<Longrightarrow> u32_le (read_u32_le (drop k bs)) = take 4 (drop k bs)"
  "k + 8 \<le> length bs \<Longrightarrow> u64_le (read_u64_le (drop k bs)) = take 8 (drop k bs)"
  by (simp_all add: id128_at_def digest256_at_def u32_le_read u64_le_read)

lemma carrier_store_load: "32 \<le> length bs \<Longrightarrow> carrier_store (carrier_load bs) = take 32 bs"
  using take_cut [of 8 24 bs] take_cut [of 8 16 "drop 8 bs"] take_cut [of 8 8 "drop 16 bs"]
    reread(4) [of 0 bs]
  by (simp add: carrier_store_def carrier_load_def reread(4))

lemma physicality_fields_read:
  assumes "224 \<le> length bs"
  shows "concat (physicality_fields (read_physicality bs)) = take 224 bs"
proof -
  note cuts = take_chop [of 216 224 bs] take_chop [of 208 216 bs] take_chop [of 200 208 bs]
    take_chop [of 192 200 bs] take_chop [of 184 192 bs] take_chop [of 176 184 bs]
    take_chop [of 168 176 bs] take_chop [of 136 168 bs] take_chop [of 104 136 bs]
    take_chop [of 72 104 bs] take_chop [of 68 72 bs] take_chop [of 64 68 bs]
    take_chop [of 60 64 bs] take_chop [of 56 60 bs] take_chop [of 52 56 bs] take_chop [of 48 52 bs]
    take_chop [of 32 48 bs]
  show ?thesis
    using assms cuts
    by (simp add: physicality_fields_def read_physicality_def reread)
qed

lemma attestation_fields_read:
  assumes "160 \<le> length bs"
  shows "concat (attestation_fields (read_attestation bs)) = take 160 bs"
proof -
  note cuts = take_chop [of 156 160 bs] take_chop [of 152 156 bs] take_chop [of 144 152 bs]
    take_chop [of 112 144 bs] take_chop [of 80 112 bs] take_chop [of 48 80 bs] take_chop [of 32 48 bs]
  show ?thesis
    using assms cuts by (simp add: attestation_fields_def read_attestation_def reread)
qed

lemma consensus_fields_read:
  assumes "176 \<le> length bs"
  shows "concat (consensus_fields (read_consensus bs)) = take 176 bs"
proof -
  note cuts = take_chop [of 168 176 bs] take_chop [of 164 168 bs] take_chop [of 160 164 bs]
    take_chop [of 152 160 bs] take_chop [of 144 152 bs] take_chop [of 112 144 bs]
    take_chop [of 80 112 bs] take_chop [of 48 80 bs] take_chop [of 32 48 bs]
  show ?thesis
    using assms cuts by (simp add: consensus_fields_def read_consensus_def reread)
qed

section \<open>Identities\<close>

lemma physicality_identify_eq:
  "laplace_persistence_physicality_identify B (Some p) (Some x) =
     (if physicality_scalars_valid p then (LAPLACE_PERSISTENCE_OK, Some (physicality_identity B p))
      else (LAPLACE_PERSISTENCE_RECORD_INVALID, Some x))"
  by (simp add: laplace_persistence_physicality_identify_def physicality_identity_def
      persistence_constants)

lemma attestation_identify_eq:
  "laplace_persistence_attestation_identify B (Some a) (Some x) =
     (if attestation_scalars_valid a then (LAPLACE_PERSISTENCE_OK, Some (attestation_identity B a))
      else (LAPLACE_PERSISTENCE_RECORD_INVALID, Some x))"
  by (simp add: laplace_persistence_attestation_identify_def attestation_identity_def
      persistence_constants)

lemma consensus_identify_eq:
  "laplace_persistence_consensus_identify B (Some c) (Some x) =
     (if consensus_scalars_valid c then (LAPLACE_PERSISTENCE_OK, Some (consensus_identity B c))
      else (LAPLACE_PERSISTENCE_RECORD_INVALID, Some x))"
  by (simp add: laplace_persistence_consensus_identify_def consensus_identity_def
      persistence_constants)

lemmas identify_eq = physicality_identify_eq attestation_identify_eq consensus_identify_eq

section \<open>Frames\<close>

lemma decode_value_payload:
  assumes "value_ok B v"
  shows "decode_value B (value_kind v) (value_payload v @ r) = Inr v"
proof (cases v)
  case (Entity_Value e)
  then show ?thesis
    using assms by (simp add: decode_value_def id128_at_def digest256_at_def)
next
  case (Physicality_Value p)
  then show ?thesis
    using assms by (simp add: decode_value_def decode_physicality_def identify_eq
        persistence_constants)
next
  case (Segment_Value s)
  then show ?thesis
    using assms by (simp add: decode_value_def read_segment_def digest256_at_def
        persistence_constants)
next
  case (Attestation_Value a)
  then show ?thesis
    using assms by (simp add: decode_value_def decode_attestation_def identify_eq
        persistence_constants)
next
  case (Consensus_Value c)
  then show ?thesis
    using assms by (simp add: decode_value_def decode_consensus_def identify_eq
        persistence_constants)
qed

lemma decode_value_OK:
  assumes "decode_value B kind payload = Inr v"
    and "laplace_persistence_frame_bytes kind \<le> 8 + length payload"
  shows "value_kind v = kind \<and> value_ok B v \<and>
    value_payload v = take (laplace_persistence_frame_bytes kind - 8) payload"
proof -
  consider (entity) "kind = LAPLACE_PERSISTENCE_RECORD_ENTITY"
    | (physicality) "kind = LAPLACE_PERSISTENCE_RECORD_PHYSICALITY"
    | (segment) "kind = LAPLACE_PERSISTENCE_RECORD_PHYSICALITY_TRAJECTORY_SEGMENT"
    | (attestation) "kind = LAPLACE_PERSISTENCE_RECORD_ATTESTATION"
    | (consensus) "kind = LAPLACE_PERSISTENCE_RECORD_CONSENSUS"
    using assms(1) by (auto simp: decode_value_def split: if_splits)
  then show ?thesis
  proof cases
    case entity
    then have len: "48 \<le> length payload"
      using assms(2) by (simp add: laplace_persistence_frame_bytes_def persistence_constants)
    have "v = Entity_Value \<lparr>pen_entity_id = id128_at payload 0,
        pen_identity_witness = digest256_at payload 16\<rparr>"
      and "memcmp (bytes (id128_at payload 0)) (take 16 (bytes (digest256_at payload 16))) = 0"
      using assms(1) entity by (auto simp: decode_value_def Let_def split: if_splits)
    moreover have "take 48 payload = take 16 payload @ take 32 (drop 16 payload)"
      using take_chop [of 16 48 payload] by simp
    ultimately show ?thesis
      using entity len
      by (simp add: memcmp_eq_0_iff reread laplace_persistence_frame_bytes_def
          persistence_constants)
  next
    case physicality
    then have len: "224 \<le> length payload"
      using assms(2) by (simp add: laplace_persistence_frame_bytes_def persistence_constants)
    have "v = Physicality_Value (read_physicality payload)"
      "value_ok B (Physicality_Value (read_physicality payload))"
      using assms(1) physicality
      by (auto simp: decode_value_def decode_physicality_def identify_eq Let_def
          persistence_constants split: if_splits)
    then show ?thesis
      using physicality physicality_fields_read [OF len]
      by (simp add: laplace_persistence_frame_bytes_def persistence_constants)
  next
    case segment
    then have len: "72 \<le> length payload"
      using assms(2) by (simp add: laplace_persistence_frame_bytes_def persistence_constants)
    have "v = Segment_Value (read_segment payload)" "value_ok B (Segment_Value (read_segment payload))"
      using assms(1) segment
      by (auto simp: decode_value_def read_segment_def Let_def persistence_constants
          split: if_splits)
    moreover have "take 72 payload = take 32 payload @ take 8 (drop 32 payload) @ take 32 (drop 40 payload)"
      using take_chop [of 40 72 payload] take_chop [of 32 40 payload] by simp
    ultimately show ?thesis
      using segment len
      by (simp add: read_segment_def reread carrier_store_load laplace_persistence_frame_bytes_def
          persistence_constants)
  next
    case attestation
    then have len: "160 \<le> length payload"
      using assms(2) by (simp add: laplace_persistence_frame_bytes_def persistence_constants)
    have "v = Attestation_Value (read_attestation payload)"
      "value_ok B (Attestation_Value (read_attestation payload))"
      using assms(1) attestation
      by (auto simp: decode_value_def decode_attestation_def identify_eq Let_def
          persistence_constants split: if_splits)
    then show ?thesis
      using attestation attestation_fields_read [OF len]
      by (simp add: laplace_persistence_frame_bytes_def persistence_constants)
  next
    case consensus
    then have len: "176 \<le> length payload"
      using assms(2) by (simp add: laplace_persistence_frame_bytes_def persistence_constants)
    have "v = Consensus_Value (read_consensus payload)"
      "value_ok B (Consensus_Value (read_consensus payload))"
      using assms(1) consensus
      by (auto simp: decode_value_def decode_consensus_def identify_eq Let_def
          persistence_constants split: if_splits)
    then show ?thesis
      using consensus consensus_fields_read [OF len]
      by (simp add: laplace_persistence_frame_bytes_def persistence_constants)
  qed
qed

lemma unat_frame_size: "unat (of_nat (frame_size v) :: u32) = frame_size v"
  using frame_size_bounds [of v] by (simp add: unat_of_nat)

lemma frame_decode_of_frame:
  assumes "value_ok B v" "frame_size v \<le> available"
  shows "laplace_persistence_frame_decode B (Some (frame_of v @ r)) available (Some r0) (Some c0)
    = (LAPLACE_PERSISTENCE_OK, Some (record_of v), Some (frame_size v))"
  using assms frame_size_bounds [of v]
  by (simp add: laplace_persistence_frame_decode_def frame_of_def unat_frame_size Let_def
      decode_value_payload frame_size_eq [symmetric] record_of_def FRAME_HEADER_BYTES_def)

lemma decode_value_not_OK: "decode_value B kind payload \<noteq> Inl LAPLACE_PERSISTENCE_OK"
  by (auto simp: decode_value_def decode_physicality_def decode_attestation_def
      decode_consensus_def Let_def split: prod.splits)

lemma frame_decode_OK:
  assumes "available \<le> length bs"
    and "laplace_persistence_frame_decode B (Some bs) available (Some r0) (Some c0)
      = (LAPLACE_PERSISTENCE_OK, out, consumed)"
  shows "\<exists>v. value_ok B v \<and> frame_size v \<le> available \<and> take (frame_size v) bs = frame_of v \<and>
    out = Some (record_of v) \<and> consumed = Some (frame_size v)"
proof -
  let ?kind = "read_u16_le (drop 4 bs)"
  obtain v where v: "decode_value B ?kind (drop 8 bs) = Inr v"
    and head: "laplace_persistence_frame_bytes ?kind \<noteq> 0"
      "unat (read_u32_le bs) = laplace_persistence_frame_bytes ?kind"
      "unat (read_u32_le bs) \<le> available"
      "read_u16_le (drop 6 bs) = LAPLACE_PERSISTENCE_FRAME_VERSION"
    and result: "out = Some \<lparr>prc_kind = ?kind, prc_version = LAPLACE_PERSISTENCE_FRAME_VERSION,
        prc_frame_bytes = read_u32_le bs, prc_value = v\<rparr>" "consumed = Some (unat (read_u32_le bs))"
    using assms(2) decode_value_not_OK [of B ?kind "drop 8 bs"]
    by (auto simp: laplace_persistence_frame_decode_def Let_def FRAME_HEADER_BYTES_def
        split: if_splits sum.splits)
  have decoded: "value_kind v = ?kind" "value_ok B v"
    "value_payload v = take (laplace_persistence_frame_bytes ?kind - 8) (drop 8 bs)"
    using decode_value_OK [OF v] head assms(1) by simp_all
  have size: "frame_size v = unat (read_u32_le bs)"
    using head(2) decoded(1) by (simp add: frame_size_eq)
  then have word: "of_nat (frame_size v) = read_u32_le bs"
    by simp
  have body: "value_payload v = take (frame_size v - 8) (drop 8 bs)"
    using decoded(1,3) by (simp add: frame_size_eq)
  have len: "8 \<le> length bs"
    using size head(3) assms(1) frame_size_bounds [of v] by simp
  have "take (frame_size v) bs = take 4 bs @ take 2 (drop 4 bs) @ take 2 (drop 6 bs) @
      take (frame_size v - 8) (drop 8 bs)"
    using take_chop [of 8 "frame_size v" bs] take_chop [of 6 8 bs] take_chop [of 4 6 bs]
      frame_size_bounds [of v] by simp
  also have "\<dots> = frame_of v"
    using len decoded(1) body word head(4) u32_le_read [of bs] store_u16_read [of "drop 4 bs"]
      store_u16_read [of "drop 6 bs"]
    by (simp add: frame_of_def)
  finally show ?thesis
    using decoded result size head(3) by (auto simp: record_of_def)
qed

text \<open>C21: a frame decodes exactly when its first bytes are the encoding of a record with valid
  scalars and the right identity that fits into the available bytes, and it decodes to that
  record and consumes exactly its encoding.\<close>

theorem frame_decode_iff:
  assumes "available \<le> length bs"
  shows "laplace_persistence_frame_decode B (Some bs) available (Some r0) (Some c0)
      = (LAPLACE_PERSISTENCE_OK, Some r, Some n)
    \<longleftrightarrow> (\<exists>v. value_ok B v \<and> n = frame_size v \<and> n \<le> available \<and> take n bs = frame_of v \<and>
           r = record_of v)"
proof
  assume "laplace_persistence_frame_decode B (Some bs) available (Some r0) (Some c0)
      = (LAPLACE_PERSISTENCE_OK, Some r, Some n)"
  from frame_decode_OK [OF assms this] show "\<exists>v. value_ok B v \<and> n = frame_size v \<and>
      n \<le> available \<and> take n bs = frame_of v \<and> r = record_of v"
    by auto
next
  assume "\<exists>v. value_ok B v \<and> n = frame_size v \<and> n \<le> available \<and> take n bs = frame_of v \<and>
      r = record_of v"
  then obtain v where v: "value_ok B v" "n = frame_size v" "n \<le> available" "take n bs = frame_of v"
    "r = record_of v" by blast
  then have "bs = frame_of v @ drop n bs"
    by (metis append_take_drop_id)
  then show "laplace_persistence_frame_decode B (Some bs) available (Some r0) (Some c0)
      = (LAPLACE_PERSISTENCE_OK, Some r, Some n)"
    using frame_decode_of_frame [of B v available "drop n bs" r0 c0] v by simp
qed

section \<open>Encoding\<close>

text \<open>The encoder of each kind.\<close>

fun encode_value ::
  "'h blake3_api \<Rightarrow> persistence_value \<Rightarrow> byte list option \<Rightarrow> nat option
     \<Rightarrow> laplace_persistence_status \<times> byte list option \<times> nat option" where
  "encode_value B (Entity_Value e) output n =
     laplace_persistence_frame_encode_entity (Some (pen_entity_id e)) (Some (pen_identity_witness e))
       output n"
| "encode_value B (Physicality_Value p) output n =
     laplace_persistence_frame_encode_physicality B (Some p) output n"
| "encode_value B (Segment_Value s) output n =
     laplace_persistence_frame_encode_trajectory_segment (Some (pts_physicality_id s))
       (pts_vertex_index s) (Some (pts_carrier s)) output n"
| "encode_value B (Attestation_Value a) output n =
     laplace_persistence_frame_encode_attestation B (Some a) output n"
| "encode_value B (Consensus_Value c) output n =
     laplace_persistence_frame_encode_consensus B (Some c) output n"

text \<open>A segment travels without its occurrence, which the reader works out.\<close>

fun stored :: "persistence_value \<Rightarrow> persistence_value" where
  "stored (Segment_Value s) = Segment_Value (s\<lparr>pts_occurrence := occurrence_zero\<rparr>)"
| "stored v = v"

lemma stored_simps [simp]:
  "value_kind (stored v) = value_kind v" "value_payload (stored v) = value_payload v"
  "frame_size (stored v) = frame_size v" "frame_of (stored v) = frame_of v"
proof -
  show 1: "value_kind (stored v) = value_kind v" "value_payload (stored v) = value_payload v"
    by (cases v; simp)+
  then show "frame_size (stored v) = frame_size v"
    by (simp add: frame_size_def)
  with 1 show "frame_of (stored v) = frame_of v"
    by (simp add: frame_of_def)
qed

lemma frame_with_payload_eq:
  assumes "kind = value_kind v" "payload = value_payload v"
  shows "frame_with_payload kind payload (Some buffer) (Some x) =
    (if length buffer < frame_size v
     then (LAPLACE_PERSISTENCE_CAPACITY_INSUFFICIENT, Some buffer, Some x)
     else (LAPLACE_PERSISTENCE_OK, Some (frame_of v @ drop (frame_size v) buffer),
           Some (frame_size v)))"
proof -
  have n0: "frame_size v \<noteq> 0" using frame_size_bounds [of v] by simp
  have size: "frame_size v = 4 + 2 + 2 + length payload"
    using assms(2) by (simp add: frame_size_def)
  have zeros: "replicate (frame_size v) (0 :: byte)
      = replicate 4 0 @ replicate 2 0 @ replicate 2 0 @ replicate (length payload) 0"
    by (simp only: size replicate_add append_assoc)
  show ?thesis
    using n0 assms
    by (simp add: frame_with_payload_def frame_header_def Let_def frame_size_eq [symmetric]
        memcpy_at_def zeros frame_of_def FRAME_HEADER_BYTES_def)
      (simp add: frame_size_def)
qed

lemma encode_value_eq:
  "\<exists>failure. failure \<noteq> LAPLACE_PERSISTENCE_OK \<and>
    encode_value B v (Some buffer) (Some x) =
      (if \<not> value_ok B (stored v) then (failure, Some buffer, Some x)
       else if length buffer < frame_size v
       then (LAPLACE_PERSISTENCE_CAPACITY_INSUFFICIENT, Some buffer, Some x)
       else (LAPLACE_PERSISTENCE_OK, Some (frame_of v @ drop (frame_size v) buffer),
             Some (frame_size v)))"
proof (cases v)
  case (Entity_Value e)
  then show ?thesis
    using frame_with_payload_eq [of LAPLACE_PERSISTENCE_RECORD_ENTITY v _ buffer x]
    by (intro exI [of _ LAPLACE_PERSISTENCE_RECORD_INVALID])
      (auto simp: laplace_persistence_frame_encode_entity_def memcmp_eq_0_iff)
next
  case (Physicality_Value p)
  then show ?thesis
    using frame_with_payload_eq [of LAPLACE_PERSISTENCE_RECORD_PHYSICALITY v _ buffer x]
    by (intro exI [of _ LAPLACE_PERSISTENCE_IDENTITY_MISMATCH])
      (auto simp: laplace_persistence_frame_encode_physicality_def identify_eq)
next
  case (Segment_Value s)
  then show ?thesis
    using frame_with_payload_eq [of LAPLACE_PERSISTENCE_RECORD_PHYSICALITY_TRAJECTORY_SEGMENT v _ buffer x]
    by (intro exI [of _ LAPLACE_PERSISTENCE_TRAJECTORY_INVALID])
      (auto simp: laplace_persistence_frame_encode_trajectory_segment_def)
next
  case (Attestation_Value a)
  then show ?thesis
    using frame_with_payload_eq [of LAPLACE_PERSISTENCE_RECORD_ATTESTATION v _ buffer x]
    by (intro exI [of _ LAPLACE_PERSISTENCE_IDENTITY_MISMATCH])
      (auto simp: laplace_persistence_frame_encode_attestation_def identify_eq)
next
  case (Consensus_Value c)
  then show ?thesis
    using frame_with_payload_eq [of LAPLACE_PERSISTENCE_RECORD_CONSENSUS v _ buffer x]
    by (intro exI [of _ LAPLACE_PERSISTENCE_IDENTITY_MISMATCH])
      (auto simp: laplace_persistence_frame_encode_consensus_def identify_eq)
qed

text \<open>C22: what any of the five encoders writes decodes to the record it was given, consuming
  exactly the bytes written, whatever follows them; the rest of the buffer is untouched.\<close>

theorem frame_encode_decode:
  assumes "encode_value B v (Some buffer) (Some x) = (LAPLACE_PERSISTENCE_OK, Some out, Some n)"
  shows "laplace_persistence_frame_decode B (Some out) (length out) (Some r0) (Some c0)
      = (LAPLACE_PERSISTENCE_OK, Some (record_of (stored v)), Some n) \<and>
    drop n out = drop n buffer"
proof -
  obtain failure where "failure \<noteq> LAPLACE_PERSISTENCE_OK"
    "encode_value B v (Some buffer) (Some x) =
      (if \<not> value_ok B (stored v) then (failure, Some buffer, Some x)
       else if length buffer < frame_size v
       then (LAPLACE_PERSISTENCE_CAPACITY_INSUFFICIENT, Some buffer, Some x)
       else (LAPLACE_PERSISTENCE_OK, Some (frame_of v @ drop (frame_size v) buffer),
             Some (frame_size v)))"
    using encode_value_eq by blast
  then have ok: "value_ok B (stored v)" "frame_size v \<le> length buffer"
    "out = frame_of v @ drop (frame_size v) buffer" "n = frame_size v"
    using assms by (auto split: if_splits)
  then have "frame_size (stored v) \<le> length out" by simp
  from frame_decode_of_frame [OF ok(1) this, of "drop (frame_size v) buffer" r0 c0] ok
  show ?thesis by simp
qed

definition sample_value :: persistence_value where
  "sample_value = Entity_Value \<lparr>pen_entity_id = 0, pen_identity_witness = 0\<rparr>"

lemma sample_value_ok: "value_ok B sample_value" "frame_size sample_value = 56"
  "stored sample_value = sample_value"
  by (simp_all add: sample_value_def frame_size_def)

lemma frame_decode_iff_witness:
  "laplace_persistence_frame_decode sample_blake3 (Some (frame_of sample_value @ [1, 2])) 58
     (Some (record_of sample_value)) (Some 0)
   = (LAPLACE_PERSISTENCE_OK, Some (record_of sample_value), Some 56)"
proof -
  have len: "(58 :: nat) \<le> length (frame_of sample_value @ [1, 2])"
    by (simp add: sample_value_ok)
  show ?thesis
    unfolding frame_decode_iff [OF len]
    by (intro exI [of _ sample_value]) (simp add: sample_value_ok)
qed

lemma frame_encode_decode_witness:
  "\<exists>out. encode_value sample_blake3 sample_value (Some (replicate 60 7)) (Some 0)
      = (LAPLACE_PERSISTENCE_OK, Some out, Some 56) \<and>
    laplace_persistence_frame_decode sample_blake3 (Some out) (length out)
      (Some (record_of sample_value)) (Some 0)
      = (LAPLACE_PERSISTENCE_OK, Some (record_of sample_value), Some 56) \<and>
    drop 56 out = replicate 4 7"
proof -
  let ?out = "frame_of sample_value @ replicate 4 7"
  have "encode_value sample_blake3 sample_value (Some (replicate 60 7)) (Some 0)
      = (LAPLACE_PERSISTENCE_OK, Some ?out, Some 56)"
    using encode_value_eq [of sample_blake3 sample_value "replicate 60 7" 0]
    by (auto simp: sample_value_ok split: if_splits)
  from this frame_encode_decode [OF this] show ?thesis
    by (intro exI [of _ ?out]) (simp add: sample_value_ok)
qed

end
