(* ===== verification/Persistence_Stream.thy ===== *)
theory Persistence_Stream
  imports Persistence_Codec
begin

text \<open>
  Validation of a persistence stream (\<open>validate_record\<close>, \<open>close_physicality\<close> and
  \<open>laplace_persistence_validate_stream\<close> of \<open>engine/src/persistence.c\<close>): the frames of every
  canonical batch are decoded one after the other and checked against the state that the
  earlier frames left.  The lemmas relate the validator to two grammars of streams:
  \<open>contract_stream\<close>, the order of \<open>contracts/persistence.json\<close> (entities, then physicalities each
  followed by its own trajectory segments, then attestations, then consensus records, each family in
  strictly ascending order of identity), and \<open>stream_admitted\<close>, which differs in that the last two
  families may be interleaved and is what the validator accepts.
\<close>

section \<open>The validator\<close>

record laplace_persistence_summary =
  psu_entity_count :: u64
  psu_physicality_count :: u64
  psu_trajectory_segment_count :: u64
  psu_attestation_count :: u64
  psu_consensus_count :: u64
  psu_logical_occurrence_count :: u64
  psu_frame_count :: u64
  psu_byte_count :: u64

text \<open>The \<open>int\<close> flags hold 0 and 1 only.\<close>

record 'h validation_state =
  pvs_summary :: laplace_persistence_summary
  pvs_phase :: u16
  pvs_have_entity :: bool
  pvs_have_physicality :: bool
  pvs_have_attestation :: bool
  pvs_have_consensus :: bool
  pvs_previous_entity :: laplace_id128
  pvs_previous_physicality :: laplace_digest256
  pvs_previous_attestation :: laplace_digest256
  pvs_previous_consensus :: laplace_digest256
  pvs_current_physicality :: laplace_persistence_physicality_record
  pvs_current_vertices :: u64
  pvs_current_logical_count :: u64
  pvs_trajectory_hasher :: 'h
  pvs_current_open :: bool

definition close_physicality ::
  "'h blake3_api \<Rightarrow> 'h validation_state \<Rightarrow> laplace_persistence_status \<times> 'h validation_state" where
  "close_physicality B state =
     (if \<not> pvs_current_open state then (LAPLACE_PERSISTENCE_OK, state)
      else if pph_physicality_type (pvs_current_physicality state)
                = LAPLACE_PERSISTENCE_PHYSICALITY_ATOMIC_POINT
      then
        if pvs_current_vertices state \<noteq> 0 \<or> pvs_current_logical_count state \<noteq> 0
        then (LAPLACE_PERSISTENCE_TRAJECTORY_INVALID, state)
        else (LAPLACE_PERSISTENCE_OK, state\<lparr>pvs_current_open := False\<rparr>)
      else
        let trajectory = hasher_finalize B (pvs_trajectory_hasher state) in
        if pvs_current_vertices state \<noteq> pph_vertex_count (pvs_current_physicality state) \<or>
           pvs_current_logical_count state \<noteq> pph_logical_count (pvs_current_physicality state) \<or>
           \<not> digest_equal trajectory (pph_trajectory_fingerprint (pvs_current_physicality state))
        then (LAPLACE_PERSISTENCE_TRAJECTORY_INVALID, state)
        else (LAPLACE_PERSISTENCE_OK, state\<lparr>pvs_current_open := False\<rparr>))"

text \<open>The \<open>comparison\<close> of each family: \<open>memcmp\<close> with the previous identity, -1 for the first.\<close>

definition order_comparison :: "bool \<Rightarrow> byte list \<Rightarrow> byte list \<Rightarrow> int" where
  "order_comparison have_previous previous current =
     (if have_previous then memcmp previous current else -1)"

definition validate_entity ::
  "'h validation_state \<Rightarrow> laplace_persistence_entity_record
     \<Rightarrow> laplace_persistence_status \<times> 'h validation_state" where
  "validate_entity state entity =
     (if pvs_phase state > LAPLACE_PERSISTENCE_RECORD_ENTITY
      then (LAPLACE_PERSISTENCE_ORDER_INVALID, state)
      else if order_comparison (pvs_have_entity state) (bytes (pvs_previous_entity state))
                (bytes (pen_entity_id entity)) \<ge> 0
      then (LAPLACE_PERSISTENCE_ORDER_INVALID, state)
      else (LAPLACE_PERSISTENCE_OK,
            state\<lparr>pvs_previous_entity := pen_entity_id entity, pvs_have_entity := True,
              pvs_phase := LAPLACE_PERSISTENCE_RECORD_ENTITY,
              pvs_summary := (pvs_summary state)\<lparr>
                psu_entity_count := psu_entity_count (pvs_summary state) + 1\<rparr>\<rparr>))"

definition validate_physicality ::
  "'h blake3_api \<Rightarrow> 'h validation_state \<Rightarrow> laplace_persistence_physicality_record
     \<Rightarrow> laplace_persistence_status \<times> 'h validation_state" where
  "validate_physicality B state physicality =
     (if pvs_phase state \<ge> LAPLACE_PERSISTENCE_RECORD_ATTESTATION
      then (LAPLACE_PERSISTENCE_ORDER_INVALID, state)
      else case close_physicality B state of
        (close_status, closed) \<Rightarrow>
          if close_status \<noteq> LAPLACE_PERSISTENCE_OK then (close_status, closed)
          else if order_comparison (pvs_have_physicality closed)
                    (bytes (pvs_previous_physicality closed))
                    (bytes (pph_physicality_id physicality)) \<ge> 0
          then (LAPLACE_PERSISTENCE_ORDER_INVALID, closed)
          else (LAPLACE_PERSISTENCE_OK,
                closed\<lparr>pvs_previous_physicality := pph_physicality_id physicality,
                  pvs_have_physicality := True,
                  pvs_phase := LAPLACE_PERSISTENCE_RECORD_PHYSICALITY,
                  pvs_current_physicality := physicality, pvs_current_vertices := 0,
                  pvs_current_logical_count := 0, pvs_current_open := True,
                  pvs_trajectory_hasher := hasher_update B (hasher_init B) TRAJECTORY_DOMAIN,
                  pvs_summary := (pvs_summary closed)\<lparr>
                    psu_physicality_count := psu_physicality_count (pvs_summary closed) + 1\<rparr>\<rparr>))"

definition validate_trajectory_segment ::
  "'h blake3_api \<Rightarrow> 'h validation_state \<Rightarrow> laplace_persistence_trajectory_segment_record
     \<Rightarrow> byte list
     \<Rightarrow> laplace_persistence_status \<times> 'h validation_state
         \<times> laplace_persistence_trajectory_segment_record" where
  "validate_trajectory_segment B state segment frame =
     (let logical_ordinal = pvs_current_logical_count state + 1;
          invalid = (LAPLACE_PERSISTENCE_TRAJECTORY_INVALID, state, segment) in
      if \<not> pvs_current_open state \<or>
         pph_physicality_type (pvs_current_physicality state)
           \<noteq> LAPLACE_PERSISTENCE_PHYSICALITY_COMPOSITION \<or>
         \<not> digest_equal (pph_physicality_id (pvs_current_physicality state))
             (pts_physicality_id segment) \<or>
         pts_vertex_index segment \<noteq> pvs_current_vertices state
      then invalid
      else case laplace_trajectory_composition_decode_one (Some (pts_carrier segment))
                  logical_ordinal (Some occurrence_local) of
        (status, decoded) \<Rightarrow>
          if status \<noteq> LAPLACE_TRAJECTORY_OK then invalid
          else
            let occurrence = the decoded; run_length = ucast (oc_run_length occurrence) in
            if UINT64_MAX - pvs_current_logical_count state < run_length then invalid
            else
              (LAPLACE_PERSISTENCE_OK,
               state\<lparr>pvs_trajectory_hasher := hasher_update B (pvs_trajectory_hasher state)
                   (take 32 (drop (FRAME_HEADER_BYTES + 40) frame)),
                 pvs_current_vertices := pvs_current_vertices state + 1,
                 pvs_current_logical_count := pvs_current_logical_count state + run_length,
                 pvs_summary := (pvs_summary state)\<lparr>
                   psu_trajectory_segment_count :=
                     psu_trajectory_segment_count (pvs_summary state) + 1,
                   psu_logical_occurrence_count :=
                     psu_logical_occurrence_count (pvs_summary state) + run_length\<rparr>\<rparr>,
               segment\<lparr>pts_occurrence := occurrence\<rparr>))"

definition validate_attestation ::
  "'h blake3_api \<Rightarrow> 'h validation_state \<Rightarrow> laplace_persistence_attestation_record
     \<Rightarrow> laplace_persistence_status \<times> 'h validation_state" where
  "validate_attestation B state attestation =
     (case close_physicality B state of
        (close_status, closed) \<Rightarrow>
          if close_status \<noteq> LAPLACE_PERSISTENCE_OK
          then (LAPLACE_PERSISTENCE_TRAJECTORY_INVALID, closed)
          else if order_comparison (pvs_have_attestation closed)
                    (bytes (pvs_previous_attestation closed))
                    (bytes (pat_attestation_id attestation)) \<ge> 0
          then (LAPLACE_PERSISTENCE_ORDER_INVALID, closed)
          else (LAPLACE_PERSISTENCE_OK,
                closed\<lparr>pvs_previous_attestation := pat_attestation_id attestation,
                  pvs_have_attestation := True,
                  pvs_phase := LAPLACE_PERSISTENCE_RECORD_ATTESTATION,
                  pvs_summary := (pvs_summary closed)\<lparr>
                    psu_attestation_count := psu_attestation_count (pvs_summary closed) + 1\<rparr>\<rparr>))"

definition validate_consensus ::
  "'h blake3_api \<Rightarrow> 'h validation_state \<Rightarrow> laplace_persistence_consensus_record
     \<Rightarrow> laplace_persistence_status \<times> 'h validation_state" where
  "validate_consensus B state consensus =
     (case close_physicality B state of
        (close_status, closed) \<Rightarrow>
          if close_status \<noteq> LAPLACE_PERSISTENCE_OK
          then (LAPLACE_PERSISTENCE_TRAJECTORY_INVALID, closed)
          else if order_comparison (pvs_have_consensus closed)
                    (bytes (pvs_previous_consensus closed))
                    (bytes (pco_consensus_id consensus)) \<ge> 0
          then (LAPLACE_PERSISTENCE_ORDER_INVALID, closed)
          else (LAPLACE_PERSISTENCE_OK,
                closed\<lparr>pvs_previous_consensus := pco_consensus_id consensus,
                  pvs_have_consensus := True,
                  pvs_phase := LAPLACE_PERSISTENCE_RECORD_CONSENSUS,
                  pvs_summary := (pvs_summary closed)\<lparr>
                    psu_consensus_count := psu_consensus_count (pvs_summary closed) + 1\<rparr>\<rparr>))"

definition count_frame :: "'h validation_state \<Rightarrow> 'h validation_state" where
  "count_frame state =
     state\<lparr>pvs_summary := (pvs_summary state)\<lparr>
       psu_frame_count := psu_frame_count (pvs_summary state) + 1\<rparr>\<rparr>"

text \<open>The \<open>switch\<close> on the kind is the case distinction on the union member it names; the
  \<open>default\<close> case cannot arise, as no record of another kind decodes.\<close>

definition validate_record ::
  "'h blake3_api \<Rightarrow> 'h validation_state \<Rightarrow> laplace_persistence_record \<Rightarrow> byte list
     \<Rightarrow> laplace_persistence_status \<times> 'h validation_state \<times> laplace_persistence_record" where
  "validate_record B state decoded frame =
     (let counted = (\<lambda>(status, state') value.
            if status = LAPLACE_PERSISTENCE_OK
            then (status, count_frame state', decoded\<lparr>prc_value := value\<rparr>)
            else (status, state', decoded)) in
      case prc_value decoded of
        Entity_Value entity \<Rightarrow> counted (validate_entity state entity) (Entity_Value entity)
      | Physicality_Value physicality \<Rightarrow>
          counted (validate_physicality B state physicality) (Physicality_Value physicality)
      | Segment_Value segment \<Rightarrow>
          (case validate_trajectory_segment B state segment frame of
             (status, state', segment') \<Rightarrow> counted (status, state') (Segment_Value segment'))
      | Attestation_Value attestation \<Rightarrow>
          counted (validate_attestation B state attestation) (Attestation_Value attestation)
      | Consensus_Value consensus \<Rightarrow>
          counted (validate_consensus B state consensus) (Consensus_Value consensus))"

text \<open>The uninitialised local \<open>record\<close> that the decoder fills.\<close>

definition record_local :: laplace_persistence_record where
  "record_local =
     \<lparr>prc_kind = 0, prc_version = 0, prc_frame_bytes = 0,
      prc_value = Entity_Value \<lparr>pen_entity_id = 0, pen_identity_witness = 0\<rparr>\<rparr>"

lemma frame_decode_consumes:
  assumes "laplace_persistence_frame_decode B (Some bs) available (Some r0) (Some c0)
      = (LAPLACE_PERSISTENCE_OK, out, consumed)"
  shows "0 < the consumed"
  using assms decode_value_not_OK [of B "read_u16_le (drop 4 bs)" "drop 8 bs"]
  by (auto simp: laplace_persistence_frame_decode_def Let_def FRAME_HEADER_BYTES_def
      split: if_splits sum.splits)

text \<open>The inner loop over the frames of one batch.\<close>

function validate_frames ::
  "'h blake3_api \<Rightarrow> byte list \<Rightarrow> nat \<Rightarrow> nat \<Rightarrow> u64 \<Rightarrow> 'h validation_state
     \<Rightarrow> laplace_persistence_status + 'h validation_state \<times> u64" where
  "validate_frames B canonical_bytes byte_count offset records state =
     (if offset < byte_count then
        (case laplace_persistence_frame_decode B (Some (drop offset canonical_bytes))
                (byte_count - offset) (Some record_local) (Some 0) of
           (status, decoded, consumed) \<Rightarrow>
             if status \<noteq> LAPLACE_PERSISTENCE_OK then Inl status
             else
               (case validate_record B state (the decoded) (drop offset canonical_bytes) of
                  (status', state', _) \<Rightarrow>
                    if status' \<noteq> LAPLACE_PERSISTENCE_OK then Inl status'
                    else validate_frames B canonical_bytes byte_count (offset + the consumed)
                           (records + 1) state'))
      else Inr (state, records))"
  by pat_completeness auto
termination
  by (relation "measure (\<lambda>(B, bs, byte_count, offset, records, state). byte_count - offset)")
    (auto dest!: frame_decode_consumes [OF sym])

definition validate_batch ::
  "'h blake3_api \<Rightarrow> laplace_framework_canonical_batch \<Rightarrow> 'h validation_state
     \<Rightarrow> laplace_persistence_status + 'h validation_state" where
  "validate_batch B batch state =
     (if cb_canonical_bytes batch = None \<or> cb_byte_count batch = 0 \<or>
         cb_record_count batch = 0 \<or>
         cb_record_type batch \<noteq> LAPLACE_PERSISTENCE_STREAM_RECORD_TYPE \<or> cb_flags batch \<noteq> 0
      then Inl LAPLACE_PERSISTENCE_RECORD_INVALID
      else
        case validate_frames B (the (cb_canonical_bytes batch)) (unat (cb_byte_count batch)) 0 0
               state of
          Inl status \<Rightarrow> Inl status
        | Inr (state', records) \<Rightarrow>
            if records \<noteq> cb_record_count batch \<or>
               UINT64_MAX - psu_byte_count (pvs_summary state') < cb_byte_count batch
            then Inl LAPLACE_PERSISTENCE_RECORD_INVALID
            else Inr (state'\<lparr>pvs_summary := (pvs_summary state')\<lparr>
                   psu_byte_count := psu_byte_count (pvs_summary state') + cb_byte_count batch\<rparr>\<rparr>))"

fun validate_batches ::
  "'h blake3_api \<Rightarrow> laplace_framework_canonical_batch list \<Rightarrow> 'h validation_state
     \<Rightarrow> laplace_persistence_status + 'h validation_state" where
  "validate_batches B [] state = Inr state"
| "validate_batches B (batch # batches) state =
     (case validate_batch B batch state of
        Inl status \<Rightarrow> Inl status
      | Inr state' \<Rightarrow> validate_batches B batches state')"

definition summary_zero :: laplace_persistence_summary where
  "summary_zero =
     \<lparr>psu_entity_count = 0, psu_physicality_count = 0, psu_trajectory_segment_count = 0,
      psu_attestation_count = 0, psu_consensus_count = 0, psu_logical_occurrence_count = 0,
      psu_frame_count = 0, psu_byte_count = 0\<rparr>"

text \<open>\<open>memset(&state, 0, \<dots>)\<close>; the hasher is not read before a physicality initialises it.\<close>

definition validation_state_zero :: "'h blake3_api \<Rightarrow> 'h validation_state" where
  "validation_state_zero B =
     \<lparr>pvs_summary = summary_zero, pvs_phase = 0, pvs_have_entity = False,
      pvs_have_physicality = False, pvs_have_attestation = False, pvs_have_consensus = False,
      pvs_previous_entity = 0, pvs_previous_physicality = 0, pvs_previous_attestation = 0,
      pvs_previous_consensus = 0,
      pvs_current_physicality =
        \<lparr>pph_physicality_id = 0, pph_entity_id = 0, pph_physicality_type = 0,
         pph_vertex_class = 0, pph_recipe_version = 0, pph_structural_form = 0,
         pph_dimension_count = 0, pph_flags = 0, pph_recipe_fingerprint = 0,
         pph_geometry_epoch = 0, pph_trajectory_fingerprint = 0,
         pph_centroid = \<lparr>component0 = 0, component1 = 0, component2 = 0, component3 = 0\<rparr>,
         pph_radius = 0, pph_logical_count = 0, pph_vertex_count = 0\<rparr>,
      pvs_current_vertices = 0, pvs_current_logical_count = 0,
      pvs_trajectory_hasher = hasher_init B, pvs_current_open = False\<rparr>"

definition laplace_persistence_validate_stream ::
  "'h blake3_api \<Rightarrow> laplace_framework_canonical_batch span \<Rightarrow> laplace_persistence_summary option
     \<Rightarrow> laplace_persistence_status \<times> laplace_persistence_summary option" where
  "laplace_persistence_validate_stream B batches summary =
     (if span_null batches \<or> span_count batches = 0 \<or> summary = None
      then (LAPLACE_PERSISTENCE_INVALID_ARGUMENT, summary)
      else
        case validate_batches B (span_items batches) (validation_state_zero B) of
          Inl status \<Rightarrow> (status, summary)
        | Inr state \<Rightarrow>
            (case close_physicality B state of
               (close_status, closed) \<Rightarrow>
                 if close_status \<noteq> LAPLACE_PERSISTENCE_OK then (close_status, summary)
                 else if psu_frame_count (pvs_summary closed) = 0
                 then (LAPLACE_PERSISTENCE_RECORD_INVALID, summary)
                 else (LAPLACE_PERSISTENCE_OK, Some (pvs_summary closed))))"

declare validate_frames.simps [simp del]

section \<open>The grammar of a stream\<close>

fun entities :: "persistence_value list \<Rightarrow> laplace_persistence_entity_record list" where
  "entities [] = []"
| "entities (Entity_Value e # vs) = e # entities vs"
| "entities (_ # vs) = entities vs"

fun physicalities :: "persistence_value list \<Rightarrow> laplace_persistence_physicality_record list" where
  "physicalities [] = []"
| "physicalities (Physicality_Value p # vs) = p # physicalities vs"
| "physicalities (_ # vs) = physicalities vs"

fun segments :: "persistence_value list \<Rightarrow> laplace_persistence_trajectory_segment_record list" where
  "segments [] = []"
| "segments (Segment_Value s # vs) = s # segments vs"
| "segments (_ # vs) = segments vs"

fun attestations :: "persistence_value list \<Rightarrow> laplace_persistence_attestation_record list" where
  "attestations [] = []"
| "attestations (Attestation_Value a # vs) = a # attestations vs"
| "attestations (_ # vs) = attestations vs"

fun consensuses :: "persistence_value list \<Rightarrow> laplace_persistence_consensus_record list" where
  "consensuses [] = []"
| "consensuses (Consensus_Value c # vs) = c # consensuses vs"
| "consensuses (_ # vs) = consensuses vs"

fun is_claim :: "persistence_value \<Rightarrow> bool" where
  "is_claim (Attestation_Value _) \<longleftrightarrow> True"
| "is_claim (Consensus_Value _) \<longleftrightarrow> True"
| "is_claim _ \<longleftrightarrow> False"

definition run_length_sum :: "laplace_trajectory_carrier list \<Rightarrow> nat" where
  "run_length_sum carriers = sum_list (map (unat \<circ> oc_run_length) (decode_all carriers 1))"

text \<open>The segments of a composition: numbered from zero, pointing back to the physicality, their
  carriers decoding to consecutive logical ordinals.\<close>

definition run_ok ::
  "laplace_persistence_physicality_record \<Rightarrow> laplace_persistence_trajectory_segment_record list
     \<Rightarrow> bool" where
  "run_ok p segs \<longleftrightarrow>
     (\<forall>s \<in> set segs. pts_physicality_id s = pph_physicality_id p) \<and>
     map pts_vertex_index segs = map of_nat [0..<length segs] \<and>
     length (decode_all (map pts_carrier segs) 1) = length segs"

definition trajectory_identity ::
  "'h blake3_api \<Rightarrow> laplace_trajectory_carrier list \<Rightarrow> laplace_digest256" where
  "trajectory_identity B carriers =
     hasher_finalize B (updates B (trajectory_hash_begin B) (map carrier_store carriers))"

definition group_ok ::
  "'h blake3_api \<Rightarrow> laplace_persistence_physicality_record
     \<Rightarrow> laplace_persistence_trajectory_segment_record list \<Rightarrow> bool" where
  "group_ok B p segs \<longleftrightarrow>
     (if pph_physicality_type p = LAPLACE_PERSISTENCE_PHYSICALITY_ATOMIC_POINT then segs = []
      else pph_physicality_type p = LAPLACE_PERSISTENCE_PHYSICALITY_COMPOSITION \<and> run_ok p segs \<and>
        length segs = unat (pph_vertex_count p) \<and>
        run_length_sum (map pts_carrier segs) = unat (pph_logical_count p) \<and>
        trajectory_identity B (map pts_carrier segs) = pph_trajectory_fingerprint p)"

fun group_values ::
  "laplace_persistence_physicality_record \<times> laplace_persistence_trajectory_segment_record list
     \<Rightarrow> persistence_value list" where
  "group_values (p, segs) = Physicality_Value p # map Segment_Value segs"

text \<open>
  The order of the record families in \<open>contracts/persistence.json\<close>: entities by content
  identity, then the physicality groups by record identity, then attestations, then consensus
  records, every family strictly ascending.
\<close>

definition contract_stream :: "'h blake3_api \<Rightarrow> persistence_value list \<Rightarrow> bool" where
  "contract_stream B vs \<longleftrightarrow>
     (\<exists>es groups ats cns.
        vs = map Entity_Value es @ concat (map group_values groups) @
          map Attestation_Value ats @ map Consensus_Value cns \<and>
        sorted_wrt (<) (map pen_entity_id es) \<and>
        sorted_wrt (<) (map (pph_physicality_id \<circ> fst) groups) \<and>
        (\<forall>(p, segs) \<in> set groups. group_ok B p segs) \<and>
        sorted_wrt (<) (map pat_attestation_id ats) \<and>
        sorted_wrt (<) (map pco_consensus_id cns))"

text \<open>
  What the validator admits is wider in one respect: the phase is not consulted for attestations
  and consensus records, so the two ascending families at the end may be interleaved.
\<close>

definition claims_admitted :: "persistence_value list \<Rightarrow> bool" where
  "claims_admitted vs \<longleftrightarrow>
     (\<exists>ats cns. vs \<in> shuffles (map Attestation_Value ats) (map Consensus_Value cns) \<and>
        sorted_wrt (<) (map pat_attestation_id ats) \<and> sorted_wrt (<) (map pco_consensus_id cns))"

definition stream_admitted :: "'h blake3_api \<Rightarrow> persistence_value list \<Rightarrow> bool" where
  "stream_admitted B vs \<longleftrightarrow>
     (\<exists>es groups claims. vs = map Entity_Value es @ concat (map group_values groups) @ claims \<and>
        sorted_wrt (<) (map pen_entity_id es) \<and>
        sorted_wrt (<) (map (pph_physicality_id \<circ> fst) groups) \<and>
        (\<forall>(p, segs) \<in> set groups. group_ok B p segs) \<and> claims_admitted claims)"

fun is_attestation :: "persistence_value \<Rightarrow> bool" where
  "is_attestation (Attestation_Value _) \<longleftrightarrow> True"
| "is_attestation _ \<longleftrightarrow> False"

fun is_consensus :: "persistence_value \<Rightarrow> bool" where
  "is_consensus (Consensus_Value _) \<longleftrightarrow> True"
| "is_consensus _ \<longleftrightarrow> False"

fun attestation_after_consensus :: "persistence_value list \<Rightarrow> bool" where
  "attestation_after_consensus [] \<longleftrightarrow> False"
| "attestation_after_consensus (v # vs) \<longleftrightarrow>
     is_consensus v \<and> list_ex is_attestation vs \<or> attestation_after_consensus vs"

lemma shuffles_claims:
  assumes "vs \<in> shuffles (map Attestation_Value ats) (map Consensus_Value cns)"
  shows "list_all is_claim vs \<and> attestations vs = ats \<and> consensuses vs = cns"
  using assms
proof (induction vs arbitrary: ats cns)
  case (Cons v vs)
  consider a ats' where "ats = a # ats'" "v = Attestation_Value a"
      "vs \<in> shuffles (map Attestation_Value ats') (map Consensus_Value cns)"
    | c cns' where "cns = c # cns'" "v = Consensus_Value c"
      "vs \<in> shuffles (map Attestation_Value ats) (map Consensus_Value cns')"
    using Cons.prems unfolding Cons_in_shuffles_iff by (cases ats; cases cns) auto
  then show ?case
    by cases (use Cons.IH in \<open>simp_all\<close>)
qed simp

lemma claims_shuffle:
  "list_all is_claim vs \<Longrightarrow>
    vs \<in> shuffles (map Attestation_Value (attestations vs)) (map Consensus_Value (consensuses vs))"
proof (induction vs)
  case (Cons v vs)
  then show ?case by (cases v) (auto simp: Cons_in_shuffles_iff)
qed simp

lemma claims_admitted_iff:
  "claims_admitted vs \<longleftrightarrow>
     list_all is_claim vs \<and>
     sorted_wrt (<) (map pat_attestation_id (attestations vs)) \<and>
     sorted_wrt (<) (map pco_consensus_id (consensuses vs))"
  unfolding claims_admitted_def by (blast dest: shuffles_claims intro: claims_shuffle)

lemma after_consensus_append:
  "attestation_after_consensus (vs @ ws) \<longleftrightarrow> attestation_after_consensus vs \<or>
     attestation_after_consensus ws \<or> list_ex is_consensus vs \<and> list_ex is_attestation ws"
  by (induction vs) auto

lemma after_consensus_front:
  "\<not> list_ex is_consensus vs \<Longrightarrow> \<not> attestation_after_consensus vs"
  by (induction vs) auto

lemma front_without_claims:
  "\<not> list_ex is_consensus (map Entity_Value es @ concat (map group_values groups))"
  by (auto simp: list_ex_iff)

lemma claims_in_order:
  "list_all is_claim vs \<Longrightarrow> \<not> attestation_after_consensus vs \<longleftrightarrow>
     vs = map Attestation_Value (attestations vs) @ map Consensus_Value (consensuses vs)"
proof (induction vs)
  case (Cons v vs)
  have "(\<not> list_ex is_attestation vs \<longleftrightarrow> vs = map Consensus_Value (consensuses vs)) \<and>
    (attestations vs = [] \<longleftrightarrow> \<not> list_ex is_attestation vs)"
    if "list_all is_claim vs" for vs
    using that by (induction vs) (auto elim!: is_claim.elims)
  from this [of vs] Cons show ?case by (cases v; cases "attestations vs") auto
qed simp

lemma claims_of_contract:
  "attestations (map Attestation_Value ats @ map Consensus_Value cns) = ats \<and>
   consensuses (map Attestation_Value ats @ map Consensus_Value cns) = cns \<and>
   list_all is_claim (map Attestation_Value ats @ map Consensus_Value cns)"
proof -
  have "consensuses (map Consensus_Value cns) = cns" "attestations (map Consensus_Value cns) = []"
    by (induction cns) simp_all
  then show ?thesis by (induction ats) (simp_all add: list_all_iff)
qed

lemma claims_contract_iff:
  "claims_admitted claims \<and> \<not> attestation_after_consensus claims \<longleftrightarrow>
     (\<exists>ats cns. claims = map Attestation_Value ats @ map Consensus_Value cns \<and>
        sorted_wrt (<) (map pat_attestation_id ats) \<and> sorted_wrt (<) (map pco_consensus_id cns))"
    (is "?admitted \<longleftrightarrow> ?ordered")
proof
  assume ?admitted
  then show ?ordered
    using claims_in_order [of claims] unfolding claims_admitted_iff by blast
next
  assume ?ordered
  then obtain ats cns where c: "claims = map Attestation_Value ats @ map Consensus_Value cns"
    and s: "sorted_wrt (<) (map pat_attestation_id ats)" "sorted_wrt (<) (map pco_consensus_id cns)"
    by blast
  have "attestations claims = ats" "consensuses claims = cns" "list_all is_claim claims"
    using claims_of_contract [of ats cns] c by blast+
  then show ?admitted
    using s c claims_in_order [of claims] by (simp add: claims_admitted_iff)
qed

text \<open>The whole difference: an admitted stream keeps the contract's order exactly when no
  attestation follows a consensus record.\<close>

lemma after_consensus_of_front:
  "attestation_after_consensus (map Entity_Value es @ concat (map group_values groups) @ claims)
    \<longleftrightarrow> attestation_after_consensus claims"
  using after_consensus_append [of "map Entity_Value es @ concat (map group_values groups)" claims]
    front_without_claims [of es groups] after_consensus_front by auto

lemma contract_stream_iff:
  "contract_stream B vs \<longleftrightarrow> stream_admitted B vs \<and> \<not> attestation_after_consensus vs"
proof
  assume "contract_stream B vs"
  then obtain es groups ats cns where
    v: "vs = map Entity_Value es @ concat (map group_values groups) @
      map Attestation_Value ats @ map Consensus_Value cns"
    and o: "sorted_wrt (<) (map pen_entity_id es)"
      "sorted_wrt (<) (map (pph_physicality_id \<circ> fst) groups)"
      "\<forall>(p, segs) \<in> set groups. group_ok B p segs"
    and c: "sorted_wrt (<) (map pat_attestation_id ats)" "sorted_wrt (<) (map pco_consensus_id cns)"
    unfolding contract_stream_def by (elim exE conjE) (rule that)
  let ?claims = "map Attestation_Value ats @ map Consensus_Value cns"
  have "claims_admitted ?claims \<and> \<not> attestation_after_consensus ?claims"
    unfolding claims_contract_iff using c by (intro exI conjI) simp_all
  with o show "stream_admitted B vs \<and> \<not> attestation_after_consensus vs"
    unfolding v stream_admitted_def after_consensus_of_front by (intro conjI exI) (rule refl, simp_all)
next
  assume adm: "stream_admitted B vs \<and> \<not> attestation_after_consensus vs"
  then obtain es groups claims where
    v: "vs = map Entity_Value es @ concat (map group_values groups) @ claims"
    and o: "sorted_wrt (<) (map pen_entity_id es)"
      "sorted_wrt (<) (map (pph_physicality_id \<circ> fst) groups)"
      "\<forall>(p, segs) \<in> set groups. group_ok B p segs"
    and c: "claims_admitted claims"
    unfolding stream_admitted_def by (elim exE conjE) (rule that)
  have "\<not> attestation_after_consensus claims"
    using adm unfolding v after_consensus_of_front by blast
  then obtain ats cns where "claims = map Attestation_Value ats @ map Consensus_Value cns"
    "sorted_wrt (<) (map pat_attestation_id ats)" "sorted_wrt (<) (map pco_consensus_id cns)"
    using c claims_contract_iff [of claims] by blast
  with v o show "contract_stream B vs"
    unfolding contract_stream_def by (intro exI [of _ es] exI [of _ groups] exI [of _ ats] exI [of _ cns] conjI) simp_all
qed

section \<open>One frame at a time\<close>

definition closes :: "'h blake3_api \<Rightarrow> 'h validation_state \<Rightarrow> bool" where
  "closes B state \<longleftrightarrow> fst (close_physicality B state) = LAPLACE_PERSISTENCE_OK"

lemma not_open_closed: "\<not> pvs_current_open st \<Longrightarrow> st\<lparr>pvs_current_open := False\<rparr> = st"
  by (rule validation_state.equality) simp_all

lemma close_eq:
  "close_physicality B st =
    (if closes B st then (LAPLACE_PERSISTENCE_OK, st\<lparr>pvs_current_open := False\<rparr>)
     else (LAPLACE_PERSISTENCE_TRAJECTORY_INVALID, st))"
  using not_open_closed [of st]
  by (cases "pvs_current_open st") (simp_all add: closes_def close_physicality_def Let_def)

lemma order_comparison_iff [simp]:
  "0 \<le> order_comparison seen (bytes (a :: 'n::len barray)) (bytes b) \<longleftrightarrow> \<not> (seen \<longrightarrow> a < b)"
  by (simp add: order_comparison_def not_less)

definition step_value ::
  "'h blake3_api \<Rightarrow> 'h validation_state \<Rightarrow> persistence_value \<Rightarrow> 'h validation_state option" where
  "step_value B st v =
     (case validate_record B st (record_of v) (frame_of v) of
        (status, st', _) \<Rightarrow> if status = LAPLACE_PERSISTENCE_OK then Some st' else None)"

fun run_values ::
  "'h blake3_api \<Rightarrow> 'h validation_state \<Rightarrow> persistence_value list \<Rightarrow> 'h validation_state option" where
  "run_values B st [] = Some st"
| "run_values B st (v # vs) =
     (case step_value B st v of None \<Rightarrow> None | Some st' \<Rightarrow> run_values B st' vs)"

definition accepts :: "'h blake3_api \<Rightarrow> 'h validation_state \<Rightarrow> persistence_value list \<Rightarrow> bool" where
  "accepts B st vs \<longleftrightarrow> (\<exists>st'. run_values B st vs = Some st' \<and> closes B st')"

lemma accepts_simps [simp]:
  "accepts B st [] \<longleftrightarrow> closes B st"
  "accepts B st (v # vs) \<longleftrightarrow> (\<exists>st'. step_value B st v = Some st' \<and> accepts B st' vs)"
  by (auto simp: accepts_def split: option.splits)

lemma prc_value_record_of [simp]: "prc_value (record_of v) = v"
  by (simp add: record_of_def)

lemma segment_frame_bytes:
  "take 32 (drop (FRAME_HEADER_BYTES + 40) (frame_of (Segment_Value s) @ r))
    = carrier_store (pts_carrier s)"
  "take 32 (drop (FRAME_HEADER_BYTES + 40) (frame_of (Segment_Value s)))
    = carrier_store (pts_carrier s)"
  by (simp_all add: frame_of_def FRAME_HEADER_BYTES_def)

lemma validate_record_frame:
  "validate_record B st (record_of v) (frame_of v @ r) =
    validate_record B st (record_of v) (frame_of v)"
  by (cases v) (simp_all only: validate_record_def validate_trajectory_segment_def
      prc_value_record_of persistence_value.case segment_frame_bytes)

lemmas step_defs =
  step_value_def validate_record_def validate_entity_def validate_physicality_def
  validate_attestation_def validate_consensus_def count_frame_def close_eq Let_def

lemma closes_closed [simp]: "\<not> pvs_current_open st \<Longrightarrow> closes B st"
  by (simp add: closes_def close_physicality_def)

section \<open>Claims\<close>

definition above :: "bool \<Rightarrow> 'a::linorder \<Rightarrow> 'a list \<Rightarrow> bool" where
  "above seen x ys \<longleftrightarrow> sorted_wrt (<) (if seen then x # ys else ys)"

lemma above_simps [simp]:
  "above seen x []"
  "above seen x (y # ys) \<longleftrightarrow> (seen \<longrightarrow> x < y) \<and> above True y ys"
  by (auto simp: above_def)

lemma accepts_claims:
  assumes "LAPLACE_PERSISTENCE_RECORD_ATTESTATION \<le> pvs_phase st" "\<not> pvs_current_open st"
  shows "accepts B st vs \<longleftrightarrow> list_all is_claim vs \<and>
    above (pvs_have_attestation st) (pvs_previous_attestation st)
      (map pat_attestation_id (attestations vs)) \<and>
    above (pvs_have_consensus st) (pvs_previous_consensus st)
      (map pco_consensus_id (consensuses vs))"
  using assms
proof (induction vs arbitrary: st)
  case Nil
  then show ?case by simp
next
  case (Cons v vs)
  have "\<not> pvs_phase st \<le> LAPLACE_PERSISTENCE_RECORD_ENTITY"
    using Cons.prems(1) by (simp add: persistence_constants) (unat_arith)
  then show ?case
    using Cons.prems
    by (cases v) (auto simp: step_defs Cons.IH persistence_constants validate_trajectory_segment_def)
qed

section \<open>Physicalities and their segments\<close>

lemma decode_all_snoc:
  "decode_all (cs @ [c]) ord =
    (if length (decode_all cs ord) = length cs
     then decode_all cs ord @
       decode_all [c] (ord + of_nat (sum_list (map (unat \<circ> oc_run_length) (decode_all cs ord))))
     else decode_all cs ord)"
proof (induction cs arbitrary: ord)
  case Nil
  then show ?case by simp
next
  case (Cons x cs)
  obtain st r where d:
    "laplace_trajectory_composition_decode_one (Some x) ord (Some occurrence_local) = (st, r)"
    by (cases "laplace_trajectory_composition_decode_one (Some x) ord (Some occurrence_local)")
  show ?case
  proof (cases st)
    case LAPLACE_TRAJECTORY_OK
    then obtain oc where "r = Some oc" using d decode_one_OK_fields by metis
    with LAPLACE_TRAJECTORY_OK d
    have "decode_all (x # zs) ord = oc # decode_all zs (ord + ucast (oc_run_length oc))" for zs
      by simp
    then show ?thesis
      by (simp add: Cons.IH add.assoc o_def del: decode_all.simps)
  qed (use d in simp_all)
qed

lemma decode_fits:
  assumes "laplace_trajectory_composition_decode_one (Some c) (of_nat n + 1) (Some q) =
      (LAPLACE_TRAJECTORY_OK, Some oc)" "n < 2 ^ 64"
  shows "0 < unat (oc_run_length oc)" "n + unat (oc_run_length oc) < 2 ^ 64"
proof -
  from decode_one_cases [OF assms(1)]
  have oc: "(of_nat n + 1 :: u64) \<noteq> 0" "oc_run_length oc \<noteq> 0"
    "\<not> UINT64_MAX - (of_nat n + 1) < ucast (oc_run_length oc) - 1"
    by (auto simp: occurrence_of_def)
  have n: "unat (of_nat n :: u64) = n"
    using assms(2) by (simp add: unat_of_nat)
  then have ord: "unat (of_nat n + 1 :: u64) = n + 1"
    using oc(1) by (metis unat_eq_zero add.commute unatSuc Suc_eq_plus1)
  show pos: "0 < unat (oc_run_length oc)"
    using oc(2) by (simp add: unat_gt_0)
  have "(ucast (oc_run_length oc) :: u64) \<noteq> 0"
    using pos by (metis unat_ucast_u16 unat_0 less_irrefl)
  then have "unat (ucast (oc_run_length oc) - 1 :: u64) = unat (oc_run_length oc) - 1"
    by (metis unat_minus_one unat_ucast_u16)
  then have "unat (oc_run_length oc) - 1 \<le> 2 ^ 64 - 1 - (n + 1)"
    using oc(3) ord by (metis not_less word_le_nat_alt unat_minus_one_minus)
  moreover have "n + 1 < 2 ^ 64"
    using ord unsigned_less [of "of_nat n + 1 :: u64", where 'a = nat] by simp
  ultimately show "n + unat (oc_run_length oc) < 2 ^ 64"
    using pos by linarith
qed

lemma run_ok_Nil [simp]: "run_ok p []"
  by (simp add: run_ok_def)

text \<open>Whether segment \<open>s\<close> continues the run \<open>segs\<close>.\<close>

definition next_ok ::
  "laplace_persistence_physicality_record \<Rightarrow> laplace_persistence_trajectory_segment_record list
     \<Rightarrow> laplace_persistence_trajectory_segment_record \<Rightarrow> bool" where
  "next_ok p segs s \<longleftrightarrow>
     pts_physicality_id s = pph_physicality_id p \<and> pts_vertex_index s = of_nat (length segs) \<and>
     decode_all [pts_carrier s] (1 + of_nat (run_length_sum (map pts_carrier segs))) \<noteq> []"

lemma length_decode_all: "length (decode_all cs ord) \<le> length cs"
  by (induction cs arbitrary: ord)
    (auto split: prod.splits laplace_trajectory_status.splits option.splits)

lemma run_ok_snoc: "run_ok p (segs @ [s]) \<longleftrightarrow> run_ok p segs \<and> next_ok p segs s"
proof -
  have "length (decode_all [pts_carrier s] ord) = 1 \<longleftrightarrow> decode_all [pts_carrier s] ord \<noteq> []" for ord
    using length_decode_all [of "[pts_carrier s]" ord] by (cases "decode_all [pts_carrier s] ord") auto
  then show ?thesis
    using length_decode_all [of "map pts_carrier segs" 1]
    by (auto simp: run_ok_def next_ok_def decode_all_snoc run_length_sum_def
        simp del: decode_all.simps)
qed

definition in_group ::
  "'h blake3_api \<Rightarrow> laplace_persistence_physicality_record
     \<Rightarrow> laplace_persistence_trajectory_segment_record list \<Rightarrow> 'h validation_state \<Rightarrow> bool" where
  "in_group B p segs st \<longleftrightarrow>
     pvs_current_open st \<and> pvs_current_physicality st = p \<and>
     pvs_phase st = LAPLACE_PERSISTENCE_RECORD_PHYSICALITY \<and>
     pvs_have_physicality st \<and> pvs_previous_physicality st = pph_physicality_id p \<and>
     pvs_current_vertices st = of_nat (length segs) \<and>
     pvs_current_logical_count st = of_nat (run_length_sum (map pts_carrier segs)) \<and>
     run_length_sum (map pts_carrier segs) < 2 ^ 64 \<and>
     length segs \<le> run_length_sum (map pts_carrier segs) \<and>
     pvs_trajectory_hasher st =
       updates B (trajectory_hash_begin B) (map carrier_store (map pts_carrier segs)) \<and>
     \<not> pvs_have_attestation st \<and> \<not> pvs_have_consensus st \<and>
     (pph_physicality_type p = LAPLACE_PERSISTENCE_PHYSICALITY_ATOMIC_POINT \<and> segs = [] \<or>
      pph_physicality_type p = LAPLACE_PERSISTENCE_PHYSICALITY_COMPOSITION \<and> run_ok p segs)"

lemma run_length_sum_Nil [simp]: "run_length_sum [] = 0"
  by (simp add: run_length_sum_def)

lemma of_nat_u64_eq_iff: "n < 2 ^ 64 \<Longrightarrow> (of_nat n :: u64) = w \<longleftrightarrow> n = unat w"
  by (auto simp: unat_of_nat)

lemma closes_group:
  assumes "in_group B p segs st"
  shows "closes B st \<longleftrightarrow> group_ok B p segs"
  using assms
  by (auto simp: in_group_def closes_def close_physicality_def group_ok_def Let_def
      trajectory_identity_def of_nat_u64_eq_iff persistence_constants)

lemma run_length_sum_snoc:
  assumes "run_ok p segs"
    "laplace_trajectory_composition_decode_one (Some (pts_carrier s))
       (of_nat (run_length_sum (map pts_carrier segs)) + 1) (Some occurrence_local)
       = (LAPLACE_TRAJECTORY_OK, Some oc)"
  shows "run_length_sum (map pts_carrier segs @ [pts_carrier s])
    = run_length_sum (map pts_carrier segs) + unat (oc_run_length oc)"
  using assms
  by (simp add: run_ok_def run_length_sum_def decode_all_snoc add.commute)

lemma step_segment_outside:
  assumes "\<not> pvs_current_open st"
  shows "step_value B st (Segment_Value s) = None"
  using assms
  by (simp add: step_value_def validate_record_def validate_trajectory_segment_def Let_def)

lemma step_segment:
  assumes "in_group B p segs st"
  shows "if pph_physicality_type p = LAPLACE_PERSISTENCE_PHYSICALITY_COMPOSITION \<and> next_ok p segs s
    then \<exists>st'. step_value B st (Segment_Value s) = Some st' \<and> in_group B p (segs @ [s]) st'
    else step_value B st (Segment_Value s) = None"
proof -
  let ?n = "run_length_sum (map pts_carrier segs)"
  obtain status r where d: "laplace_trajectory_composition_decode_one (Some (pts_carrier s))
      (of_nat ?n + 1) (Some occurrence_local) = (status, r)"
    by (cases "laplace_trajectory_composition_decode_one (Some (pts_carrier s))
      (of_nat ?n + 1) (Some occurrence_local)")
  show ?thesis
  proof (cases "status = LAPLACE_TRAJECTORY_OK")
    case True
    then obtain oc where oc: "r = Some oc" using d decode_one_OK_fields by metis
    note d = d [unfolded True oc]
    have n: "?n < 2 ^ 64" using assms by (simp add: in_group_def)
    note fits = decode_fits [OF d n]
    have room: "\<not> UINT64_MAX - of_nat ?n < (ucast (oc_run_length oc) :: u64)"
      unfolding run_no_overflow using fits(2) n by (simp add: unat_of_nat)
    have continues: "next_ok p segs s \<longleftrightarrow> pts_physicality_id s = pph_physicality_id p \<and>
        pts_vertex_index s = of_nat (length segs)"
      using d by (simp add: next_ok_def add.commute)
    show ?thesis
      using assms room fits d continues run_length_sum_snoc [OF _ d, of p]
      by (auto simp: step_value_def validate_record_def validate_trajectory_segment_def Let_def
          in_group_def count_frame_def run_ok_snoc hasher_update_updates persistence_constants
          segment_frame_bytes(2) [unfolded FRAME_HEADER_BYTES_def, simplified])
  next
    case False
    then have "\<not> next_ok p segs s"
      using d by (simp add: next_ok_def add.commute split: laplace_trajectory_status.splits)
    then show ?thesis
      using assms d False
      by (simp add: step_value_def validate_record_def validate_trajectory_segment_def Let_def
          in_group_def)
  qed
qed

text \<open>What may follow the segments \<open>segs\<close> of physicality \<open>p\<close>.\<close>

fun body_ok ::
  "'h blake3_api \<Rightarrow> laplace_persistence_physicality_record
     \<Rightarrow> laplace_persistence_trajectory_segment_record list \<Rightarrow> persistence_value list \<Rightarrow> bool" where
  "body_ok B p segs [] \<longleftrightarrow> group_ok B p segs"
| "body_ok B p segs (Segment_Value s # vs) \<longleftrightarrow> body_ok B p (segs @ [s]) vs"
| "body_ok B p segs (Physicality_Value q # vs) \<longleftrightarrow>
     group_ok B p segs \<and> pph_physicality_id p < pph_physicality_id q \<and> body_ok B q [] vs"
| "body_ok B p segs (Entity_Value e # vs) \<longleftrightarrow> False"
| "body_ok B p segs (Attestation_Value a # vs) \<longleftrightarrow>
     group_ok B p segs \<and> claims_admitted (Attestation_Value a # vs)"
| "body_ok B p segs (Consensus_Value c # vs) \<longleftrightarrow>
     group_ok B p segs \<and> claims_admitted (Consensus_Value c # vs)"

lemma group_ok_run:
  "group_ok B p segs \<Longrightarrow>
    pph_physicality_type p = LAPLACE_PERSISTENCE_PHYSICALITY_ATOMIC_POINT \<and> segs = [] \<or>
    pph_physicality_type p = LAPLACE_PERSISTENCE_PHYSICALITY_COMPOSITION \<and> run_ok p segs"
  by (auto simp: group_ok_def split: if_splits)

lemma body_ok_run:
  "body_ok B p segs vs \<Longrightarrow>
    pph_physicality_type p = LAPLACE_PERSISTENCE_PHYSICALITY_ATOMIC_POINT \<and> segs = [] \<or>
    pph_physicality_type p = LAPLACE_PERSISTENCE_PHYSICALITY_COMPOSITION \<and> run_ok p segs"
  by (induction B p segs vs rule: body_ok.induct) (auto simp: run_ok_snoc dest: group_ok_run)

lemma physicality_type_cases:
  assumes "value_ok B (Physicality_Value p)"
  shows "pph_physicality_type p = LAPLACE_PERSISTENCE_PHYSICALITY_ATOMIC_POINT \<or>
    pph_physicality_type p = LAPLACE_PERSISTENCE_PHYSICALITY_COMPOSITION"
  using assms by (auto simp: physicality_scalars_valid_def split: if_splits)

lemma claims_above:
  "claims_admitted vs \<longleftrightarrow> list_all is_claim vs \<and>
     above False a (map pat_attestation_id (attestations vs)) \<and>
     above False c (map pco_consensus_id (consensuses vs))"
  by (simp add: claims_admitted_iff above_def)

lemma accepts_first_claim:
  assumes "is_claim v" "\<not> pvs_have_attestation st" "\<not> pvs_have_consensus st"
  shows "accepts B st (v # vs) \<longleftrightarrow> closes B st \<and> claims_admitted (v # vs)"
  using assms
  by (cases v) (auto simp: step_defs accepts_claims persistence_constants claims_admitted_iff above_def)

lemma step_physicality:
  assumes "value_ok B (Physicality_Value q)"
    "pvs_phase st \<le> LAPLACE_PERSISTENCE_RECORD_PHYSICALITY"
    "\<not> pvs_have_attestation st" "\<not> pvs_have_consensus st"
  shows "if closes B st \<and> (pvs_have_physicality st \<longrightarrow>
        pvs_previous_physicality st < pph_physicality_id q)
    then \<exists>st'. step_value B st (Physicality_Value q) = Some st' \<and> in_group B q [] st'
    else step_value B st (Physicality_Value q) = None"
proof -
  have "\<not> LAPLACE_PERSISTENCE_RECORD_ATTESTATION \<le> pvs_phase st"
    using assms(2) by (simp add: persistence_constants not_le) (unat_arith)
  then show ?thesis
    using physicality_type_cases [OF assms(1)] assms(3,4)
    by (auto simp: step_defs in_group_def trajectory_hash_begin_def)
qed

lemma accepts_body:
  assumes "in_group B p segs st" "\<forall>v \<in> set vs. value_ok B v"
  shows "accepts B st vs \<longleftrightarrow> body_ok B p segs vs"
  using assms
proof (induction vs arbitrary: st p segs)
  case Nil
  then show ?case by (simp add: closes_group)
next
  case (Cons v vs)
  have plain: "\<not> pvs_have_attestation st" "\<not> pvs_have_consensus st"
    "pvs_phase st = LAPLACE_PERSISTENCE_RECORD_PHYSICALITY"
    "pvs_have_physicality st" "pvs_previous_physicality st = pph_physicality_id p"
    using Cons.prems(1) by (auto simp: in_group_def)
  show ?case
  proof (cases v)
    case (Entity_Value e)
    then show ?thesis
      using plain by (auto simp: step_defs persistence_constants)
  next
    case (Physicality_Value q)
    then show ?thesis
      using step_physicality [of B q st] plain Cons.prems Cons.IH closes_group [OF Cons.prems(1)]
      by (auto split: if_splits)
  next
    case (Segment_Value s)
    then show ?thesis
      using step_segment [OF Cons.prems(1), of s] Cons.prems Cons.IH
        body_ok_run [of B p "segs @ [s]" vs]
      by (auto split: if_splits simp: run_ok_snoc)
  next
    case (Attestation_Value a)
    then show ?thesis
      using accepts_first_claim [of v st B vs] plain closes_group [OF Cons.prems(1)]
      by (simp del: accepts_simps)
  next
    case (Consensus_Value c)
    then show ?thesis
      using accepts_first_claim [of v st B vs] plain closes_group [OF Cons.prems(1)]
      by (simp del: accepts_simps)
  qed
qed

section \<open>The whole stream\<close>

fun front_ok ::
  "'h blake3_api \<Rightarrow> bool \<Rightarrow> laplace_id128 \<Rightarrow> persistence_value list \<Rightarrow> bool" where
  "front_ok B seen x [] \<longleftrightarrow> True"
| "front_ok B seen x (Entity_Value e # vs) \<longleftrightarrow>
     (seen \<longrightarrow> x < pen_entity_id e) \<and> front_ok B True (pen_entity_id e) vs"
| "front_ok B seen x (Physicality_Value p # vs) \<longleftrightarrow> body_ok B p [] vs"
| "front_ok B seen x (Segment_Value s # vs) \<longleftrightarrow> False"
| "front_ok B seen x (Attestation_Value a # vs) \<longleftrightarrow> claims_admitted (Attestation_Value a # vs)"
| "front_ok B seen x (Consensus_Value c # vs) \<longleftrightarrow> claims_admitted (Consensus_Value c # vs)"

lemma accepts_front:
  assumes "pvs_phase st \<le> LAPLACE_PERSISTENCE_RECORD_ENTITY" "\<not> pvs_current_open st"
    "\<not> pvs_have_physicality st" "\<not> pvs_have_attestation st" "\<not> pvs_have_consensus st"
    "\<forall>v \<in> set vs. value_ok B v"
  shows "accepts B st vs \<longleftrightarrow> front_ok B (pvs_have_entity st) (pvs_previous_entity st) vs"
  using assms
proof (induction vs arbitrary: st)
  case Nil
  then show ?case by simp
next
  case (Cons v vs)
  have phase: "pvs_phase st \<le> LAPLACE_PERSISTENCE_RECORD_PHYSICALITY"
    using Cons.prems(1) by (simp add: persistence_constants) (unat_arith)
  show ?case
  proof (cases v)
    case (Entity_Value e)
    then show ?thesis
      using Cons.prems by (auto simp: step_defs Cons.IH)
  next
    case (Physicality_Value q)
    then show ?thesis
      using step_physicality [of B q st] phase Cons.prems accepts_body [of B q "[]"]
      by (auto split: if_splits)
  next
    case (Segment_Value s)
    then show ?thesis
      using Cons.prems by (simp add: step_segment_outside)
  next
    case (Attestation_Value a)
    then show ?thesis
      using accepts_first_claim [of v st B vs] Cons.prems by (simp del: accepts_simps)
  next
    case (Consensus_Value c)
    then show ?thesis
      using accepts_first_claim [of v st B vs] Cons.prems by (simp del: accepts_simps)
  qed
qed

definition groups_ok ::
  "'h blake3_api
     \<Rightarrow> (laplace_persistence_physicality_record
         \<times> laplace_persistence_trajectory_segment_record list) list \<Rightarrow> bool" where
  "groups_ok B groups \<longleftrightarrow>
     sorted_wrt (<) (map (pph_physicality_id \<circ> fst) groups) \<and>
     (\<forall>(p, segs) \<in> set groups. group_ok B p segs)"

lemma body_ok_claims:
  assumes "list_all is_claim claims"
  shows "body_ok B p segs claims \<longleftrightarrow> group_ok B p segs \<and> claims_admitted claims"
  using assms
proof (cases claims)
  case Nil
  then show ?thesis by (simp add: claims_admitted_iff)
next
  case (Cons v vs)
  with assms show ?thesis by (cases v) auto
qed

lemma body_ok_segments:
  "body_ok B p segs (map Segment_Value ss @ vs) \<longleftrightarrow> body_ok B p (segs @ ss) vs"
  by (induction ss arbitrary: segs) auto

lemma body_ok_groups:
  assumes "groups_ok B ((p, segs) # groups)" "claims_admitted claims"
  shows "body_ok B p segs (concat (map group_values groups) @ claims)"
  using assms
proof (induction groups arbitrary: p segs)
  case Nil
  then show ?case
    by (simp add: body_ok_claims claims_admitted_iff groups_ok_def)
next
  case (Cons g groups)
  obtain q qs where g: "g = (q, qs)" by (cases g)
  with Cons.prems have "groups_ok B ((q, qs) # groups)"
    by (auto simp: groups_ok_def)
  from Cons.IH [OF this Cons.prems(2)] Cons.prems(1) show ?case
    by (auto simp: g body_ok_segments groups_ok_def)
qed

lemma body_ok_shape:
  assumes "body_ok B p segs vs"
  shows "\<exists>ss groups claims. vs = map Segment_Value ss @ concat (map group_values groups) @ claims \<and>
    groups_ok B ((p, segs @ ss) # groups) \<and> claims_admitted claims"
  using assms
proof (induction B p segs vs rule: body_ok.induct)
  case (1 B p segs)
  then have "[] = map Segment_Value [] @ concat (map group_values []) @ [] \<and>
    groups_ok B ((p, segs @ []) # []) \<and> claims_admitted []"
    by (simp add: groups_ok_def claims_admitted_iff)
  then show ?case by blast
next
  case (2 B p segs s vs)
  then obtain ss groups claims where
    "vs = map Segment_Value ss @ concat (map group_values groups) @ claims"
    "groups_ok B ((p, (segs @ [s]) @ ss) # groups)" "claims_admitted claims"
    by auto
  then have "Segment_Value s # vs =
      map Segment_Value (s # ss) @ concat (map group_values groups) @ claims \<and>
    groups_ok B ((p, segs @ (s # ss)) # groups) \<and> claims_admitted claims"
    by simp
  then show ?case by blast
next
  case (3 B p segs q vs)
  then obtain ss groups claims where
    "vs = map Segment_Value ss @ concat (map group_values groups) @ claims"
    "groups_ok B ((q, ss) # groups)" "claims_admitted claims"
    by auto
  with 3 have "Physicality_Value q # vs =
      map Segment_Value [] @ concat (map group_values ((q, ss) # groups)) @ claims \<and>
    groups_ok B ((p, segs @ []) # (q, ss) # groups) \<and> claims_admitted claims"
    by (auto simp: groups_ok_def)
  then show ?case by blast
next
  case (5 B p segs a vs)
  then have "Attestation_Value a # vs =
      map Segment_Value [] @ concat (map group_values []) @ Attestation_Value a # vs \<and>
    groups_ok B ((p, segs @ []) # []) \<and> claims_admitted (Attestation_Value a # vs)"
    by (simp add: groups_ok_def)
  then show ?case by blast
next
  case (6 B p segs c vs)
  then have "Consensus_Value c # vs =
      map Segment_Value [] @ concat (map group_values []) @ Consensus_Value c # vs \<and>
    groups_ok B ((p, segs @ []) # []) \<and> claims_admitted (Consensus_Value c # vs)"
    by (simp add: groups_ok_def)
  then show ?case by blast
qed auto

lemma front_ok_shape:
  assumes "front_ok B seen x vs"
  shows "\<exists>es groups claims. vs = map Entity_Value es @ concat (map group_values groups) @ claims \<and>
    above seen x (map pen_entity_id es) \<and> groups_ok B groups \<and> claims_admitted claims"
  using assms
proof (induction B seen x vs rule: front_ok.induct)
  case (1 B seen x)
  then show ?case
    by (intro exI [of _ "[]"]) (simp add: groups_ok_def claims_admitted_iff)
next
  case (2 B seen x e vs)
  then obtain es groups claims where
    "vs = map Entity_Value es @ concat (map group_values groups) @ claims"
    "above True (pen_entity_id e) (map pen_entity_id es)" "groups_ok B groups" "claims_admitted claims"
    by auto
  with 2 have "Entity_Value e # vs =
      map Entity_Value (e # es) @ concat (map group_values groups) @ claims \<and>
    above seen x (map pen_entity_id (e # es)) \<and> groups_ok B groups \<and> claims_admitted claims"
    by simp
  then show ?case by blast
next
  case (3 B seen x p vs)
  then obtain ss groups claims where
    "vs = map Segment_Value ss @ concat (map group_values groups) @ claims"
    "groups_ok B ((p, ss) # groups)" "claims_admitted claims"
    using body_ok_shape [of B p "[]" vs] by auto
  then have "Physicality_Value p # vs =
      map Entity_Value [] @ concat (map group_values ((p, ss) # groups)) @ claims \<and>
    above seen x (map pen_entity_id []) \<and> groups_ok B ((p, ss) # groups) \<and> claims_admitted claims"
    by simp
  then show ?case by blast
next
  case (5 B seen x a vs)
  then show ?case
    by (intro exI [of _ "[]"] exI [of _ "Attestation_Value a # vs"]) (simp add: groups_ok_def)
next
  case (6 B seen x c vs)
  then show ?case
    by (intro exI [of _ "[]"] exI [of _ "Consensus_Value c # vs"]) (simp add: groups_ok_def)
qed auto

lemma front_ok_of_shape:
  assumes "above seen x (map pen_entity_id es)" "groups_ok B groups" "claims_admitted claims"
  shows "front_ok B seen x (map Entity_Value es @ concat (map group_values groups) @ claims)"
  using assms
proof (induction es arbitrary: seen x)
  case Nil
  show ?case
  proof (cases groups)
    case Nil
    show ?thesis
    proof (cases claims)
      case (Cons v vs)
      with \<open>claims_admitted claims\<close> \<open>groups = []\<close> show ?thesis
        by (cases v) (auto simp: claims_admitted_iff)
    qed (use \<open>groups = []\<close> in simp)
  next
    case (Cons g gs)
    obtain q qs where "g = (q, qs)" by (cases g)
    with Cons \<open>groups_ok B groups\<close> \<open>claims_admitted claims\<close> show ?thesis
      using body_ok_groups [of B q qs gs claims] by (simp add: body_ok_segments)
  qed
qed auto

lemma front_ok_iff: "front_ok B False x vs \<longleftrightarrow> stream_admitted B vs"
proof -
  have "(\<exists>es groups claims. vs = map Entity_Value es @ concat (map group_values groups) @ claims \<and>
      above False x (map pen_entity_id es) \<and> groups_ok B groups \<and> claims_admitted claims)
    \<longleftrightarrow> stream_admitted B vs"
    unfolding stream_admitted_def groups_ok_def above_def by (simp add: conj_assoc)
  then show ?thesis
    using front_ok_shape [of B False x vs] front_ok_of_shape [of False x _ B] by blast
qed

lemma accepts_iff:
  "\<forall>v \<in> set vs. value_ok B v \<Longrightarrow>
    accepts B (validation_state_zero B) vs \<longleftrightarrow> stream_admitted B vs"
  by (subst accepts_front)
    (simp_all add: validation_state_zero_def front_ok_iff persistence_constants)

section \<open>Frames and batches\<close>

lemma step_value_frame:
  "step_value B st v = Some st' \<longleftrightarrow>
    (\<exists>r. validate_record B st (record_of v) (frame_of v @ rest) = (LAPLACE_PERSISTENCE_OK, st', r))"
  by (auto simp: step_value_def validate_record_frame split: prod.splits if_splits)

lemma validate_frames_step:
  assumes "byte_count \<le> length bs" "offset < byte_count"
  shows "validate_frames B bs byte_count offset records st = Inr res \<longleftrightarrow>
    (\<exists>v st'. value_ok B v \<and> frame_size v \<le> byte_count - offset \<and>
       take (frame_size v) (drop offset bs) = frame_of v \<and> step_value B st v = Some st' \<and>
       validate_frames B bs byte_count (offset + frame_size v) (records + 1) st' = Inr res)"
    (is "_ \<longleftrightarrow> ?ex")
proof
  assume run: "validate_frames B bs byte_count offset records st = Inr res"
  obtain status d c where decode: "laplace_persistence_frame_decode B (Some (drop offset bs))
      (byte_count - offset) (Some record_local) (Some 0) = (status, d, c)"
    by (cases "laplace_persistence_frame_decode B (Some (drop offset bs))
      (byte_count - offset) (Some record_local) (Some 0)")
  with run assms(2) have "status = LAPLACE_PERSISTENCE_OK"
    by (subst (asm) validate_frames.simps) (auto split: if_splits)
  moreover have "byte_count - offset \<le> length (drop offset bs)"
    using assms(1) by simp
  ultimately obtain v where v: "value_ok B v" "frame_size v \<le> byte_count - offset"
    "take (frame_size v) (drop offset bs) = frame_of v" "d = Some (record_of v)"
    "c = Some (frame_size v)"
    using frame_decode_OK decode by blast
  define rest where "rest = drop (frame_size v) (drop offset bs)"
  have bs: "drop offset bs = frame_of v @ rest"
    using v(3) unfolding rest_def by (metis append_take_drop_id)
  obtain status' st' r where step: "validate_record B st (record_of v) (frame_of v @ rest)
      = (status', st', r)"
    by (cases "validate_record B st (record_of v) (frame_of v @ rest)")
  with run decode v(4,5) \<open>status = LAPLACE_PERSISTENCE_OK\<close> assms(2)
  have "status' = LAPLACE_PERSISTENCE_OK \<and>
      validate_frames B bs byte_count (offset + frame_size v) (records + 1) st' = Inr res"
    by (subst (asm) validate_frames.simps) (simp add: bs split: if_splits)
  with step step_value_frame have "step_value B st v = Some st'"
    "validate_frames B bs byte_count (offset + frame_size v) (records + 1) st' = Inr res"
    by blast+
  with v(1-3) show ?ex by blast
next
  assume ?ex
  then obtain v st' where v: "value_ok B v" "frame_size v \<le> byte_count - offset"
    "take (frame_size v) (drop offset bs) = frame_of v" "step_value B st v = Some st'"
    "validate_frames B bs byte_count (offset + frame_size v) (records + 1) st' = Inr res"
    by blast
  define rest where "rest = drop (frame_size v) (drop offset bs)"
  have bs: "drop offset bs = frame_of v @ rest"
    using v(3) unfolding rest_def by (metis append_take_drop_id)
  obtain r where "validate_record B st (record_of v) (frame_of v @ rest)
      = (LAPLACE_PERSISTENCE_OK, st', r)"
    using v(4) step_value_frame by blast
  then show "validate_frames B bs byte_count offset records st = Inr res"
    using v assms(2) frame_decode_of_frame [OF v(1,2), of rest]
    by (subst validate_frames.simps) (simp add: bs)
qed

lemma validate_frames_iff:
  assumes "byte_count \<le> length bs" "offset \<le> byte_count"
  shows "validate_frames B bs byte_count offset records st = Inr (st', records') \<longleftrightarrow>
    (\<exists>vs. list_all (value_ok B) vs \<and>
       take (byte_count - offset) (drop offset bs) = concat (map frame_of vs) \<and>
       run_values B st vs = Some st' \<and> records' = records + of_nat (length vs))"
  using assms
proof (induction "byte_count - offset" arbitrary: offset records st rule: less_induct)
  case less
  show ?case
  proof (cases "offset < byte_count")
    case False
    have "frame_of v \<noteq> []" for v
      using frame_size_bounds(1) [of v] length_frame_of [of v] by (metis list.size(3) not_numeral_le_zero)
    then have "(\<exists>vs. list_all (value_ok B) vs \<and> [] = concat (map frame_of vs) \<and>
        run_values B st vs = Some st' \<and> records' = records + of_nat (length vs))
      \<longleftrightarrow> st = st' \<and> records' = records"
      by auto
    with False less.prems show ?thesis
      by (subst validate_frames.simps) auto
  next
    case True
    note step = validate_frames_step [OF less.prems(1) True]
    have rec: "validate_frames B bs byte_count (offset + frame_size v) (records + 1) st1
          = Inr (st', records') \<longleftrightarrow>
        (\<exists>vs. list_all (value_ok B) vs \<and>
           take (byte_count - (offset + frame_size v)) (drop (offset + frame_size v) bs)
             = concat (map frame_of vs) \<and>
           run_values B st1 vs = Some st' \<and> records' = records + 1 + of_nat (length vs))"
      if "frame_size v \<le> byte_count - offset" for v st1
      using less.hyps [of "offset + frame_size v" "records + 1" st1] that True
        frame_size_bounds(1) [of v] less.prems(1) by simp
    have split: "take (byte_count - offset) (drop offset bs) =
        take (frame_size v) (drop offset bs) @
        take (byte_count - (offset + frame_size v)) (drop (offset + frame_size v) bs)"
      if "frame_size v \<le> byte_count - offset" for v
      using that by (metis add_diff_inverse_nat diff_diff_left drop_drop not_less take_add add.commute)
    show ?thesis
    proof
      assume "validate_frames B bs byte_count offset records st = Inr (st', records')"
      then obtain v st1 vs where "value_ok B v" "frame_size v \<le> byte_count - offset"
        "take (frame_size v) (drop offset bs) = frame_of v" "step_value B st v = Some st1"
        "list_all (value_ok B) vs"
        "take (byte_count - (offset + frame_size v)) (drop (offset + frame_size v) bs)
          = concat (map frame_of vs)"
        "run_values B st1 vs = Some st'" "records' = records + 1 + of_nat (length vs)"
        using step rec by blast
      then show "\<exists>vs. list_all (value_ok B) vs \<and>
          take (byte_count - offset) (drop offset bs) = concat (map frame_of vs) \<and>
          run_values B st vs = Some st' \<and> records' = records + of_nat (length vs)"
        using split by (intro exI [of _ "v # vs"]) simp
    next
      assume "\<exists>vs. list_all (value_ok B) vs \<and>
          take (byte_count - offset) (drop offset bs) = concat (map frame_of vs) \<and>
          run_values B st vs = Some st' \<and> records' = records + of_nat (length vs)"
      then obtain vs where vs: "list_all (value_ok B) vs"
        "take (byte_count - offset) (drop offset bs) = concat (map frame_of vs)"
        "run_values B st vs = Some st'" "records' = records + of_nat (length vs)"
        by blast
      have "take (byte_count - offset) (drop offset bs) \<noteq> []"
        using True less.prems(1) by simp
      then obtain v ws where ws: "vs = v # ws"
        using vs(2) by (cases vs) auto
      with vs(2) have "length (frame_of v @ concat (map frame_of ws)) \<le> byte_count - offset"
        by (metis concat.simps(2) length_take list.simps(9) min.cobounded2)
      then have size: "frame_size v \<le> byte_count - offset"
        by simp
      with vs(2) split [OF size] ws have frame: "take (frame_size v) (drop offset bs) = frame_of v"
        "take (byte_count - (offset + frame_size v)) (drop (offset + frame_size v) bs)
          = concat (map frame_of ws)"
        using less.prems(1) by (auto simp: append_eq_append_conv)
      obtain st1 where "step_value B st v = Some st1" "run_values B st1 ws = Some st'"
        using vs(3) ws by (auto split: option.splits)
      moreover have "list_all (value_ok B) ws" "records' = records + 1 + of_nat (length ws)"
        using vs(1,4) ws by simp_all
      ultimately have "validate_frames B bs byte_count (offset + frame_size v) (records + 1) st1
          = Inr (st', records')"
        using rec [OF size] frame(2) by blast
      moreover have "value_ok B v"
        using vs(1) ws by simp
      ultimately show "validate_frames B bs byte_count offset records st = Inr (st', records')"
        using step size frame(1) \<open>step_value B st v = Some st1\<close> by blast
    qed
  qed
qed

text \<open>The byte count of the summary plays no part in checking a frame.\<close>

definition set_bytes :: "u64 \<Rightarrow> 'h validation_state \<Rightarrow> 'h validation_state" where
  "set_bytes n st = st\<lparr>pvs_summary := (pvs_summary st)\<lparr>psu_byte_count := n\<rparr>\<rparr>"

lemma close_set_bytes [simp]: "closes B (set_bytes n st) \<longleftrightarrow> closes B st"
  by (simp add: closes_def close_physicality_def set_bytes_def Let_def)

lemma set_bytes_twice [simp]: "set_bytes m (set_bytes n st) = set_bytes m st"
  by (simp add: set_bytes_def)

lemma byte_count_set_bytes [simp]: "psu_byte_count (pvs_summary (set_bytes n st)) = n"
  by (simp add: set_bytes_def)

lemma frame_count_set_bytes [simp]:
  "psu_frame_count (pvs_summary (set_bytes n st)) = psu_frame_count (pvs_summary st)"
  by (simp add: set_bytes_def)

lemma byte_count_zero [simp]: "psu_byte_count (pvs_summary (validation_state_zero B)) = 0"
  by (simp add: validation_state_zero_def summary_zero_def)

lemma step_set_bytes: "step_value B (set_bytes n st) v = map_option (set_bytes n) (step_value B st v)"
proof (cases v)
  case (Segment_Value s)
  then show ?thesis
    by (auto simp: step_value_def validate_record_def validate_trajectory_segment_def Let_def
        count_frame_def set_bytes_def split: prod.splits)
next
  case (Entity_Value e)
  then show ?thesis by (simp add: step_defs set_bytes_def)
next
  case (Physicality_Value p)
  then show ?thesis using close_set_bytes [of B n st] by (simp add: step_defs set_bytes_def)
next
  case (Attestation_Value a)
  then show ?thesis using close_set_bytes [of B n st] by (simp add: step_defs set_bytes_def)
next
  case (Consensus_Value c)
  then show ?thesis using close_set_bytes [of B n st] by (simp add: step_defs set_bytes_def)
qed

lemma run_set_bytes:
  "run_values B (set_bytes n st) vs = map_option (set_bytes n) (run_values B st vs)"
  by (induction vs arbitrary: st) (auto simp: step_set_bytes split: option.splits)

lemma run_values_append:
  "run_values B st (us @ vs) = Some st' \<longleftrightarrow>
    (\<exists>st1. run_values B st us = Some st1 \<and> run_values B st1 vs = Some st')"
  by (induction us arbitrary: st) (auto split: option.splits)

definition segment_run :: "laplace_persistence_trajectory_segment_record \<Rightarrow> u64" where
  "segment_run s =
     ucast (tp_run_length (the (snd (laplace_trajectory_carrier_decode (Some (pts_carrier s))
       (Some payload_zero)))))"

definition add_counts ::
  "persistence_value list \<Rightarrow> laplace_persistence_summary \<Rightarrow> laplace_persistence_summary" where
  "add_counts vs summary =
     summary\<lparr>psu_entity_count := psu_entity_count summary + of_nat (length (entities vs)),
       psu_physicality_count := psu_physicality_count summary + of_nat (length (physicalities vs)),
       psu_trajectory_segment_count :=
         psu_trajectory_segment_count summary + of_nat (length (segments vs)),
       psu_attestation_count := psu_attestation_count summary + of_nat (length (attestations vs)),
       psu_consensus_count := psu_consensus_count summary + of_nat (length (consensuses vs)),
       psu_logical_occurrence_count :=
         psu_logical_occurrence_count summary + sum_list (map segment_run (segments vs)),
       psu_frame_count := psu_frame_count summary + of_nat (length vs)\<rparr>"

lemma decode_one_segment_run:
  "laplace_trajectory_composition_decode_one (Some (pts_carrier s)) n (Some q)
      = (LAPLACE_TRAJECTORY_OK, r) \<Longrightarrow>
    ucast (oc_run_length (the r)) = segment_run s"
  by (drule decode_one_cases) (auto simp: segment_run_def occurrence_of_def)

lemma step_summary:
  assumes "step_value B st v = Some st'"
  shows "pvs_summary st' = add_counts [v] (pvs_summary st)"
proof (cases v)
  case (Segment_Value s)
  then show ?thesis
    using assms
    by (auto simp: step_value_def validate_record_def validate_trajectory_segment_def Let_def
        count_frame_def add_counts_def decode_one_segment_run split: prod.splits if_splits)
qed (use assms in \<open>auto simp: step_defs add_counts_def split: if_splits\<close>)

lemma add_counts_Cons: "add_counts vs (add_counts [v] summary) = add_counts (v # vs) summary"
  by (cases v) (simp_all add: add_counts_def add_ac)

lemma add_counts_Nil [simp]: "add_counts [] summary = summary"
  by (simp add: add_counts_def)

lemma run_summary:
  "run_values B st vs = Some st' \<Longrightarrow> pvs_summary st' = add_counts vs (pvs_summary st)"
  by (induction vs arbitrary: st)
    (auto simp: step_summary add_counts_Cons split: option.splits)

lemma run_byte_count:
  "run_values B st vs = Some st' \<Longrightarrow>
    psu_byte_count (pvs_summary st') = psu_byte_count (pvs_summary st)"
  by (simp add: run_summary add_counts_def)

text \<open>The batch holds exactly the frames of the records \<open>vs\<close>, all of them valid.\<close>

definition batch_holds ::
  "'h blake3_api \<Rightarrow> laplace_framework_canonical_batch \<Rightarrow> persistence_value list \<Rightarrow> bool" where
  "batch_holds B batch vs \<longleftrightarrow>
     (\<exists>bs. cb_canonical_bytes batch = Some bs \<and>
        take (unat (cb_byte_count batch)) bs = concat (map frame_of vs)) \<and>
     cb_byte_count batch \<noteq> 0 \<and> cb_record_type batch = LAPLACE_PERSISTENCE_STREAM_RECORD_TYPE \<and>
     cb_flags batch = 0 \<and> unat (cb_record_count batch) = length vs \<and> list_all (value_ok B) vs"

definition buffer_filled :: "laplace_framework_canonical_batch \<Rightarrow> bool" where
  "buffer_filled batch \<longleftrightarrow>
     (\<forall>bs. cb_canonical_bytes batch = Some bs \<longrightarrow> unat (cb_byte_count batch) \<le> length bs)"

lemma length_frames: "56 * length vs \<le> length (concat (map frame_of vs))"
proof (induction vs)
  case (Cons v vs)
  then show ?case using frame_size_bounds(1) [of v] by simp
qed simp

lemma batch_count:
  assumes "take (unat (n :: u64)) bs = concat (map frame_of vs)"
  shows "length vs < 2 ^ 64"
proof -
  have "length (concat (map frame_of vs)) \<le> unat n"
    using assms by (metis length_take min.cobounded2)
  then have "length vs \<le> unat n"
    using length_frames [of vs] by linarith
  moreover have "unat n < 2 ^ 64"
    using unsigned_less [of n, where 'a = nat] by simp
  ultimately show ?thesis by simp
qed

lemma validate_batch_iff:
  assumes "buffer_filled batch"
  shows "validate_batch B batch st = Inr st' \<longleftrightarrow>
    (\<exists>vs st1 n. batch_holds B batch vs \<and> run_values B st vs = Some st1 \<and>
       add_u64 (psu_byte_count (pvs_summary st)) (cb_byte_count batch) = Some n \<and>
       st' = set_bytes n st1)"
    (is "_ \<longleftrightarrow> ?ex")
proof
  assume batch: "validate_batch B batch st = Inr st'"
  then obtain bs st1 k where header: "cb_canonical_bytes batch = Some bs" "cb_byte_count batch \<noteq> 0"
    "cb_record_count batch \<noteq> 0"
    "cb_record_type batch = LAPLACE_PERSISTENCE_STREAM_RECORD_TYPE" "cb_flags batch = 0"
    and frames: "validate_frames B bs (unat (cb_byte_count batch)) 0 0 st = Inr (st1, k)"
    and close: "k = cb_record_count batch"
      "\<not> UINT64_MAX - psu_byte_count (pvs_summary st1) < cb_byte_count batch"
      "st' = set_bytes (psu_byte_count (pvs_summary st1) + cb_byte_count batch) st1"
    by (auto simp: validate_batch_def set_bytes_def split: if_splits sum.splits prod.splits)
  have "unat (cb_byte_count batch) \<le> length bs"
    using assms header(1) by (simp add: buffer_filled_def)
  with frames obtain vs where vs: "list_all (value_ok B) vs"
    "take (unat (cb_byte_count batch)) bs = concat (map frame_of vs)"
    "run_values B st vs = Some st1" "k = of_nat (length vs)"
    by (auto simp: validate_frames_iff)
  moreover have "unat (cb_record_count batch) = length vs"
    using batch_count [OF vs(2)] vs(4) close(1) by (metis of_nat_u64_eq_iff)
  ultimately show ?ex
    using header close run_byte_count [OF vs(3)]
    by (intro exI [of _ vs] exI [of _ st1]) (auto simp: batch_holds_def add_u64_def)
next
  assume ?ex
  then obtain vs st1 n bs where ex: "batch_holds B batch vs" "run_values B st vs = Some st1"
    "add_u64 (psu_byte_count (pvs_summary st)) (cb_byte_count batch) = Some n"
    "st' = set_bytes n st1" "cb_canonical_bytes batch = Some bs"
    "take (unat (cb_byte_count batch)) bs = concat (map frame_of vs)"
    by (auto simp: batch_holds_def)
  have len: "unat (cb_byte_count batch) \<le> length bs"
    using assms ex(5) by (simp add: buffer_filled_def)
  have count: "(of_nat (length vs) :: u64) = cb_record_count batch"
    using ex(1) of_nat_u64_eq_iff [OF batch_count [OF ex(6)]] by (auto simp: batch_holds_def)
  have frames: "validate_frames B bs (unat (cb_byte_count batch)) 0 0 st
      = Inr (st1, cb_record_count batch)"
    using len ex(1,2,6) count by (auto simp: validate_frames_iff batch_holds_def)
  have "cb_record_count batch \<noteq> 0"
    using ex(1,6) len by (auto simp: batch_holds_def unat_eq_0)
  then show "validate_batch B batch st = Inr st'"
    using ex frames run_byte_count [OF ex(2)]
    by (auto simp: validate_batch_def batch_holds_def add_u64_def set_bytes_def split: if_splits)
qed

text \<open>The checked running total of the byte counts.\<close>

definition total_bytes :: "laplace_framework_canonical_batch list \<Rightarrow> nat" where
  "total_bytes batches = sum_list (map (unat \<circ> cb_byte_count) batches)"

lemma ex_Cons:
  "(\<exists>vss st1. (\<exists>z zs. vss = z # zs \<and> holds z \<and> rest zs) \<and> Q vss st1) \<longleftrightarrow>
    (\<exists>z zs st1. holds z \<and> rest zs \<and> Q (z # zs) st1)"
  by blast

lemma validate_batches_iff:
  assumes "list_all buffer_filled batches"
  shows "validate_batches B batches st = Inr st' \<longleftrightarrow>
    (\<exists>vss st1. list_all2 (batch_holds B) batches vss \<and> run_values B st (concat vss) = Some st1 \<and>
       unat (psu_byte_count (pvs_summary st)) + total_bytes batches < 2 ^ 64 \<and>
       st' = set_bytes (psu_byte_count (pvs_summary st) + of_nat (total_bytes batches)) st1)"
  using assms
proof (induction batches arbitrary: st)
  case Nil
  have "set_bytes (psu_byte_count (pvs_summary st)) st = st"
    by (simp add: set_bytes_def)
  moreover have "unat (psu_byte_count (pvs_summary st)) < 2 ^ 64"
    using unsigned_less [of "psu_byte_count (pvs_summary st)", where 'a = nat] by simp
  ultimately show ?case by (auto simp: total_bytes_def)
next
  case (Cons batch batches)
  let ?b = "psu_byte_count (pvs_summary st)"
  have rec: "validate_batches B batches (set_bytes n st1) = Inr st' \<longleftrightarrow>
      (\<exists>vss st2. list_all2 (batch_holds B) batches vss \<and> run_values B st1 (concat vss) = Some st2 \<and>
        unat n + total_bytes batches < 2 ^ 64 \<and>
        st' = set_bytes (n + of_nat (total_bytes batches)) st2)" for n st1
    using Cons.IH [of "set_bytes n st1"] Cons.prems
    by (auto simp: run_set_bytes)
  have filled: "buffer_filled batch"
    using Cons.prems by simp
  have total: "total_bytes (batch # batches) = unat (cb_byte_count batch) + total_bytes batches"
    by (simp add: total_bytes_def)
  have sum: "(\<exists>n. add_u64 ?b (cb_byte_count batch) = Some n \<and> unat n + total_bytes batches < 2 ^ 64 \<and>
        P (n + of_nat (total_bytes batches)))
      \<longleftrightarrow> unat ?b + total_bytes (batch # batches) < 2 ^ 64 \<and>
        P (?b + of_nat (total_bytes (batch # batches)))" for P
  proof (cases "add_u64 ?b (cb_byte_count batch)")
    case None
    then have "2 ^ 64 \<le> unat ?b + unat (cb_byte_count batch)"
      by (simp only: add_u64_None_iff)
    with None show ?thesis by (simp add: total)
  next
    case (Some n)
    then have "n = ?b + cb_byte_count batch"
      by (simp add: add_u64_Some_iff)
    moreover have "?b + cb_byte_count batch + of_nat (total_bytes batches) =
        ?b + of_nat (unat (cb_byte_count batch) + total_bytes batches)"
      by (simp add: add.assoc)
    ultimately show ?thesis
      using Some unat_add_u64 [OF Some] by (simp add: total add.assoc)
  qed
  have "validate_batches B (batch # batches) st = Inr st' \<longleftrightarrow>
      (\<exists>stb. validate_batch B batch st = Inr stb \<and> validate_batches B batches stb = Inr st')"
    by (auto split: sum.splits)
  also have "\<dots> \<longleftrightarrow> (\<exists>vs st1 n. batch_holds B batch vs \<and> run_values B st vs = Some st1 \<and>
      add_u64 ?b (cb_byte_count batch) = Some n \<and>
      validate_batches B batches (set_bytes n st1) = Inr st')"
    unfolding validate_batch_iff [OF filled] by blast
  also have "\<dots> \<longleftrightarrow> (\<exists>vs st1 vss st2. batch_holds B batch vs \<and> run_values B st vs = Some st1 \<and>
      list_all2 (batch_holds B) batches vss \<and> run_values B st1 (concat vss) = Some st2 \<and>
      (\<exists>n. add_u64 ?b (cb_byte_count batch) = Some n \<and> unat n + total_bytes batches < 2 ^ 64 \<and>
        st' = set_bytes (n + of_nat (total_bytes batches)) st2))"
    unfolding rec by blast
  also have "\<dots> \<longleftrightarrow> (\<exists>vs vss st2. batch_holds B batch vs \<and> list_all2 (batch_holds B) batches vss \<and>
      run_values B st (vs @ concat vss) = Some st2 \<and>
      unat ?b + total_bytes (batch # batches) < 2 ^ 64 \<and>
      st' = set_bytes (?b + of_nat (total_bytes (batch # batches))) st2)"
    unfolding sum [where P = "\<lambda>x. st' = set_bytes x u" for u] run_values_append by blast
  also have "\<dots> \<longleftrightarrow> (\<exists>vss st1. list_all2 (batch_holds B) (batch # batches) vss \<and>
      run_values B st (concat vss) = Some st1 \<and>
      unat ?b + total_bytes (batch # batches) < 2 ^ 64 \<and>
      st' = set_bytes (?b + of_nat (total_bytes (batch # batches))) st1)"
    unfolding list_all2_Cons1 ex_Cons by (auto simp only: concat.simps)
  finally show ?case .
qed

definition summary_of :: "persistence_value list \<Rightarrow> nat \<Rightarrow> laplace_persistence_summary" where
  "summary_of vs byte_total = (add_counts vs summary_zero)\<lparr>psu_byte_count := of_nat byte_total\<rparr>"

lemma batch_holds_length:
  assumes "batch_holds B batch vs"
  shows "length vs \<le> unat (cb_byte_count batch)"
proof -
  obtain bs where "take (unat (cb_byte_count batch)) bs = concat (map frame_of vs)"
    using assms by (auto simp: batch_holds_def)
  then have "length (concat (map frame_of vs)) \<le> unat (cb_byte_count batch)"
    by (metis length_take min.cobounded2)
  then show ?thesis
    using length_frames [of vs] by linarith
qed

lemma batch_holds_nonempty:
  assumes "batch_holds B batch vs" "buffer_filled batch"
  shows "vs \<noteq> []"
  using assms by (auto simp: batch_holds_def buffer_filled_def unat_eq_0)

lemma batches_hold_length:
  assumes "list_all2 (batch_holds B) batches vss"
  shows "length (concat vss) \<le> total_bytes batches"
  using assms
  by (induction batches vss rule: list_all2_induct)
    (auto simp: total_bytes_def dest!: batch_holds_length)

lemma batches_hold_ok:
  "list_all2 (batch_holds B) batches vss \<Longrightarrow> \<forall>v \<in> set (concat vss). value_ok B v"
  by (induction batches vss rule: list_all2_induct) (auto simp: batch_holds_def list_all_iff)

lemma batches_hold_frames:
  assumes "list_all2 (batch_holds B) batches vss" "list_all buffer_filled batches"
    "batches \<noteq> []" "total_bytes batches < 2 ^ 64"
  shows "(of_nat (length (concat vss)) :: u64) \<noteq> 0"
proof -
  obtain batch rest vs ws where "batches = batch # rest" "vss = vs # ws" "batch_holds B batch vs"
    using assms(1,3) by (cases batches) (auto simp: list_all2_Cons1)
  then have "0 < length (concat vss)"
    using batch_holds_nonempty [of B batch vs] assms(2) by simp
  moreover have "length (concat vss) < 2 ^ 64"
    using batches_hold_length [OF assms(1)] assms(4) by simp
  ultimately show ?thesis
    by (simp add: of_nat_u64_eq_iff)
qed

lemma run_from_zero:
  "run_values B (validation_state_zero B) vs = Some st \<Longrightarrow>
    pvs_summary (set_bytes n st) = (add_counts vs summary_zero)\<lparr>psu_byte_count := n\<rparr>"
  by (simp add: run_summary set_bytes_def validation_state_zero_def)

lemma validate_frames_not_OK:
  "validate_frames B bs byte_count offset records st \<noteq> Inl LAPLACE_PERSISTENCE_OK"
proof (induction B bs byte_count offset records st rule: validate_frames.induct)
  case (1 B bs byte_count offset records st)
  obtain status d c where decode: "laplace_persistence_frame_decode B (Some (drop offset bs))
      (byte_count - offset) (Some record_local) (Some 0) = (status, d, c)"
    by (cases "laplace_persistence_frame_decode B (Some (drop offset bs))
      (byte_count - offset) (Some record_local) (Some 0)")
  obtain status' st' r where "validate_record B st (the d) (drop offset bs) = (status', st', r)"
    by (cases "validate_record B st (the d) (drop offset bs)")
  with decode 1 show ?case
    by (subst validate_frames.simps) auto
qed

lemma validate_batches_not_OK: "validate_batches B batches st \<noteq> Inl LAPLACE_PERSISTENCE_OK"
  by (induction batches arbitrary: st)
    (auto simp: validate_batch_def validate_frames_not_OK split: sum.splits prod.splits)

lemma ex_image:
  "(\<exists>st. (\<exists>vss st1. holds vss \<and> run vss st1 \<and> fits \<and> st = image_of st1) \<and> Q st) \<longleftrightarrow>
    fits \<and> (\<exists>vss st1. holds vss \<and> run vss st1 \<and> Q (image_of st1))"
  by blast

lemma stream_accepted_iff:
  assumes "list_all buffer_filled (span_items batches)"
  shows "laplace_persistence_validate_stream B batches (Some s0) = (LAPLACE_PERSISTENCE_OK, Some s)
    \<longleftrightarrow> span_items batches \<noteq> [] \<and> total_bytes (span_items batches) < 2 ^ 64 \<and>
      (\<exists>vss. list_all2 (batch_holds B) (span_items batches) vss \<and> stream_admitted B (concat vss) \<and>
         s = summary_of (concat vss) (total_bytes (span_items batches)))"
    (is "?accepted \<longleftrightarrow> ?shape")
proof -
  let ?bs = "span_items batches"
  have "span_null batches \<or> span_count batches = 0 \<longleftrightarrow> ?bs = []"
    by (cases batches) auto
  then have "?accepted \<longleftrightarrow> ?bs \<noteq> [] \<and>
      (\<exists>st. validate_batches B ?bs (validation_state_zero B) = Inr st \<and> closes B st \<and>
        psu_frame_count (pvs_summary st) \<noteq> 0 \<and> s = pvs_summary st)"
    using validate_batches_not_OK [of B ?bs "validation_state_zero B"]
    by (auto simp: laplace_persistence_validate_stream_def close_eq split: sum.splits if_splits)
  also have "\<dots> \<longleftrightarrow> ?bs \<noteq> [] \<and> total_bytes ?bs < 2 ^ 64 \<and>
      (\<exists>vss st1. list_all2 (batch_holds B) ?bs vss \<and>
        run_values B (validation_state_zero B) (concat vss) = Some st1 \<and> closes B st1 \<and>
        psu_frame_count (pvs_summary st1) \<noteq> 0 \<and>
        s = pvs_summary (set_bytes (of_nat (total_bytes ?bs)) st1))"
    unfolding validate_batches_iff [OF assms] ex_image by (simp add: conj_ac)
  also have "\<dots> \<longleftrightarrow> ?shape"
  proof -
    have "(\<exists>st1. run_values B (validation_state_zero B) (concat vss) = Some st1 \<and> closes B st1 \<and>
          psu_frame_count (pvs_summary st1) \<noteq> 0 \<and>
          s = pvs_summary (set_bytes (of_nat (total_bytes ?bs)) st1))
        \<longleftrightarrow> stream_admitted B (concat vss) \<and> s = summary_of (concat vss) (total_bytes ?bs)"
      if "list_all2 (batch_holds B) ?bs vss" "?bs \<noteq> []" "total_bytes ?bs < 2 ^ 64" for vss
    proof -
      have "psu_frame_count (pvs_summary st1) \<noteq> 0"
        if "run_values B (validation_state_zero B) (concat vss) = Some st1" for st1
        using batches_hold_frames [OF \<open>list_all2 _ _ _\<close> assms \<open>?bs \<noteq> []\<close>]
          \<open>total_bytes ?bs < 2 ^ 64\<close> run_summary [OF that]
        by (simp add: add_counts_def validation_state_zero_def summary_zero_def)
      then show ?thesis
        unfolding accepts_iff [OF batches_hold_ok [OF that(1)], symmetric] accepts_def summary_of_def
        using run_from_zero by fastforce
    qed
    then show ?thesis by blast
  qed
  finally show ?thesis .
qed

text \<open>C20: streams in the order of the contract (entities, physicality groups, attestations,
  consensus records, every family strictly ascending) are accepted, with a summary that counts the
  records of each kind.  What the validator accepts beyond them is stated exactly: its batches hold,
  frame by frame, valid records with such a front, and the attestations and consensus records behind
  it may be interleaved; an admitted stream is in the contract's order if and only if no attestation
  follows a consensus record.\<close>

theorem validate_stream_iff:
  assumes "list_all buffer_filled (span_items batches)"
  shows "(laplace_persistence_validate_stream B batches (Some s0) = (LAPLACE_PERSISTENCE_OK, Some s)
      \<longleftrightarrow> span_items batches \<noteq> [] \<and> total_bytes (span_items batches) < 2 ^ 64 \<and>
        (\<exists>vss. list_all2 (batch_holds B) (span_items batches) vss \<and>
           stream_admitted B (concat vss) \<and>
           s = summary_of (concat vss) (total_bytes (span_items batches)))) \<and>
    (\<forall>vss. span_items batches \<noteq> [] \<and> total_bytes (span_items batches) < 2 ^ 64 \<and>
        list_all2 (batch_holds B) (span_items batches) vss \<and> contract_stream B (concat vss) \<longrightarrow>
        laplace_persistence_validate_stream B batches (Some s0) =
          (LAPLACE_PERSISTENCE_OK,
           Some (summary_of (concat vss) (total_bytes (span_items batches))))) \<and>
    (\<forall>vs. contract_stream B vs \<longleftrightarrow> stream_admitted B vs \<and> \<not> attestation_after_consensus vs)"
  unfolding stream_accepted_iff [OF assms] contract_stream_iff by blast

text \<open>The stream of one consensus record and one attestation behind it is accepted although the
  contract puts the attestation first.\<close>

lemma attestation_after_consensus_accepted:
  assumes "value_ok B (Consensus_Value c)" "value_ok B (Attestation_Value a)"
  shows "\<exists>batch s. buffer_filled batch \<and>
    batch_holds B batch [Consensus_Value c, Attestation_Value a] \<and>
    laplace_persistence_validate_stream B (Span [batch]) (Some s0) = (LAPLACE_PERSISTENCE_OK, Some s) \<and>
    \<not> contract_stream B [Consensus_Value c, Attestation_Value a]"
proof -
  let ?vs = "[Consensus_Value c, Attestation_Value a]"
  let ?batch = "\<lparr>cb_canonical_bytes = Some (concat (map frame_of ?vs)), cb_byte_count = 352,
    cb_record_count = 2, cb_first_ordinal = 0,
    cb_record_type = LAPLACE_PERSISTENCE_STREAM_RECORD_TYPE, cb_flags = 0\<rparr>"
  have len: "frame_size (Consensus_Value c) = 184" "frame_size (Attestation_Value a) = 168"
    by (simp_all add: frame_size_def)
  have filled: "buffer_filled ?batch" by (simp add: buffer_filled_def len)
  moreover have holds: "batch_holds B ?batch ?vs"
    using assms len by (simp add: batch_holds_def)
  moreover have "stream_admitted B ?vs"
    unfolding stream_admitted_def
    by (rule exI [of _ "[]"], rule exI [of _ "[]"], rule exI [of _ ?vs])
      (simp add: claims_admitted_iff)
  then have "\<exists>s. laplace_persistence_validate_stream B (Span [?batch]) (Some s0) =
      (LAPLACE_PERSISTENCE_OK, Some s)"
    using holds filled
    by (subst stream_accepted_iff) (auto simp: total_bytes_def intro!: exI [of _ "[?vs]"])
  moreover have "\<not> contract_stream B ?vs"
    by (simp add: contract_stream_iff)
  ultimately show ?thesis by blast
qed

text \<open>A stream of one entity.\<close>

definition sample_persistence_stream :: "laplace_framework_canonical_batch span" where
  "sample_persistence_stream = Span [\<lparr>
     cb_canonical_bytes = Some (frame_of sample_value),
     cb_byte_count = 56, cb_record_count = 1, cb_first_ordinal = 0,
     cb_record_type = LAPLACE_PERSISTENCE_STREAM_RECORD_TYPE, cb_flags = 0\<rparr>]"

lemma validate_stream_iff_witness:
  "\<exists>s. laplace_persistence_validate_stream sample_blake3 sample_persistence_stream (Some summary_zero)
      = (LAPLACE_PERSISTENCE_OK, Some s) \<and> psu_entity_count s = 1 \<and> psu_byte_count s = 56"
proof -
  let ?v = sample_value
  let ?s = "summary_of [?v] 56"
  note size = sample_value_ok(2)
  have filled: "list_all buffer_filled (span_items sample_persistence_stream)"
    by (simp add: sample_persistence_stream_def buffer_filled_def size)
  have "list_all2 (batch_holds sample_blake3) (span_items sample_persistence_stream) [[?v]]"
    by (simp add: sample_persistence_stream_def batch_holds_def sample_value_ok)
  moreover have "contract_stream sample_blake3 (concat [[?v]])"
    unfolding contract_stream_def
    by (rule exI [of _ "[\<lparr>pen_entity_id = 0, pen_identity_witness = 0\<rparr>]"], rule exI [of _ "[]"],
        rule exI [of _ "[]"], rule exI [of _ "[]"]) (simp add: sample_value_def)
  moreover have total: "total_bytes (span_items sample_persistence_stream) = 56"
    by (simp add: total_bytes_def sample_persistence_stream_def)
  moreover have "span_items sample_persistence_stream \<noteq> []"
    by (simp add: sample_persistence_stream_def)
  ultimately have "laplace_persistence_validate_stream sample_blake3 sample_persistence_stream
      (Some summary_zero) = (LAPLACE_PERSISTENCE_OK, Some ?s)"
    using validate_stream_iff [OF filled, THEN conjunct2, THEN conjunct1, of sample_blake3 summary_zero,
        THEN spec [of _ "[[?v]]"]]
    by (simp add: total)
  moreover have "psu_entity_count ?s = 1 \<and> psu_byte_count ?s = 56"
    by (simp add: summary_of_def add_counts_def summary_zero_def sample_value_def)
  ultimately show ?thesis by blast
qed

end
