(* ===== verification/Perfcache_Format.thy ===== *)
theory Perfcache_Format
  imports Byte_Codec
begin

text \<open>
  The performance cache file format (\<open>engine/src/perfcache.c\<close>,
  \<open>engine/include/laplace/perfcache.h\<close>): a header of 352 bytes, fixed-width records, metadata and
  a BLAKE3 digest of everything before it.  The theory holds the byte codec, the contract checks,
  the measured layout, the sealing and writing of an artifact and its validation.  A pointer into
  a buffer is the rest of the buffer from there; a buffer of a given capacity is a list of that
  length.  The lemmas invert the byte codec, compute the measured sizes and give the reference
  encoding \<open>artifact_of\<close> that sealing produces.
\<close>

section \<open>Contract constants and types\<close>

datatype laplace_perfcache_status =
    LAPLACE_PERFCACHE_OK
  | LAPLACE_PERFCACHE_INVALID_ARGUMENT
  | LAPLACE_PERFCACHE_SIZE_OVERFLOW
  | LAPLACE_PERFCACHE_BUFFER_TOO_SMALL
  | LAPLACE_PERFCACHE_BAD_MAGIC
  | LAPLACE_PERFCACHE_UNSUPPORTED_VERSION
  | LAPLACE_PERFCACHE_HEADER_INVALID
  | LAPLACE_PERFCACHE_SECTION_INVALID
  | LAPLACE_PERFCACHE_DIGEST_MISMATCH
  | LAPLACE_PERFCACHE_CONTRACT_MISMATCH
  | LAPLACE_PERFCACHE_KEYS_NOT_SORTED_UNIQUE
  | LAPLACE_PERFCACHE_KEY_NOT_FOUND
  | LAPLACE_PERFCACHE_SEMANTIC_MISMATCH
  | LAPLACE_PERFCACHE_FILE_OPEN_FAILED
  | LAPLACE_PERFCACHE_FILE_IO_FAILED
  | LAPLACE_PERFCACHE_FILE_TYPE_INVALID
  | LAPLACE_PERFCACHE_FILE_MAPPING_FAILED
  | LAPLACE_PERFCACHE_FILE_SYNC_FAILED
  | LAPLACE_PERFCACHE_FILE_RENAME_FAILED
  | LAPLACE_PERFCACHE_DENSE_KEY_MISMATCH
  | LAPLACE_PERFCACHE_LOOKUP_UNSUPPORTED
  | LAPLACE_PERFCACHE_ARTIFACT_CONFLICT

record laplace_perfcache_contract =
  pc_module_id :: laplace_id128
  pc_key_schema_id :: laplace_id128
  pc_value_schema_id :: laplace_id128
  pc_activation_epoch_id :: laplace_id128
  pc_activation_epoch_fingerprint :: laplace_digest256
  pc_module_contract_fingerprint :: laplace_digest256
  pc_source_fingerprint :: laplace_digest256
  pc_recipe_fingerprint :: laplace_digest256
  pc_dependency_fingerprint :: laplace_digest256
  pc_key_bytes :: u32
  pc_value_bytes :: u32
  pc_access_law :: u32
  pc_flags :: u64

record laplace_perfcache_spec =
  ps_contract :: laplace_perfcache_contract
  ps_records :: "byte list option"
  ps_record_count :: u64
  ps_metadata :: "byte list option"
  ps_metadata_bytes :: u64

record laplace_perfcache_view =
  pv_contract :: laplace_perfcache_contract
  pv_artifact :: "byte list"
  pv_artifact_bytes :: nat
  pv_records :: "byte list"
  pv_record_count :: u64
  pv_record_stride :: u32
  pv_metadata :: "byte list"
  pv_metadata_bytes :: u64
  pv_artifact_digest :: laplace_digest256

named_theorems perfcache_constants

definition LAPLACE_PERFCACHE_FORMAT_VERSION :: u32 where
  [perfcache_constants]: "LAPLACE_PERFCACHE_FORMAT_VERSION = 3"

definition LAPLACE_PERFCACHE_HEADER_BYTES :: nat where
  [perfcache_constants]: "LAPLACE_PERFCACHE_HEADER_BYTES = 352"

definition LAPLACE_PERFCACHE_DIGEST_BYTES :: nat where
  [perfcache_constants]: "LAPLACE_PERFCACHE_DIGEST_BYTES = 32"

definition LAPLACE_PERFCACHE_ACCESS_SORTED_UNIQUE_FIXED :: u32 where
  [perfcache_constants]: "LAPLACE_PERFCACHE_ACCESS_SORTED_UNIQUE_FIXED = 1"

definition LAPLACE_PERFCACHE_ACCESS_DENSE_U32_ZERO_BASED :: u32 where
  [perfcache_constants]: "LAPLACE_PERFCACHE_ACCESS_DENSE_U32_ZERO_BASED = 2"

definition LAPLACE_PERFCACHE_ACCESS_MODULE_DEFINED :: u32 where
  [perfcache_constants]: "LAPLACE_PERFCACHE_ACCESS_MODULE_DEFINED = 3"

definition LAPLACE_PERFCACHE_OFFSET_VERSION :: nat where
  [perfcache_constants]: "LAPLACE_PERFCACHE_OFFSET_VERSION = 8"

definition LAPLACE_PERFCACHE_OFFSET_HEADER_BYTES :: nat where
  [perfcache_constants]: "LAPLACE_PERFCACHE_OFFSET_HEADER_BYTES = 12"

definition LAPLACE_PERFCACHE_OFFSET_FLAGS :: nat where
  [perfcache_constants]: "LAPLACE_PERFCACHE_OFFSET_FLAGS = 16"

definition LAPLACE_PERFCACHE_OFFSET_MODULE_ID :: nat where
  [perfcache_constants]: "LAPLACE_PERFCACHE_OFFSET_MODULE_ID = 24"

definition LAPLACE_PERFCACHE_OFFSET_KEY_SCHEMA_ID :: nat where
  [perfcache_constants]: "LAPLACE_PERFCACHE_OFFSET_KEY_SCHEMA_ID = 40"

definition LAPLACE_PERFCACHE_OFFSET_VALUE_SCHEMA_ID :: nat where
  [perfcache_constants]: "LAPLACE_PERFCACHE_OFFSET_VALUE_SCHEMA_ID = 56"

definition LAPLACE_PERFCACHE_OFFSET_ACTIVATION_EPOCH_ID :: nat where
  [perfcache_constants]: "LAPLACE_PERFCACHE_OFFSET_ACTIVATION_EPOCH_ID = 72"

definition LAPLACE_PERFCACHE_OFFSET_ACTIVATION_EPOCH_FINGERPRINT :: nat where
  [perfcache_constants]: "LAPLACE_PERFCACHE_OFFSET_ACTIVATION_EPOCH_FINGERPRINT = 88"

definition LAPLACE_PERFCACHE_OFFSET_MODULE_CONTRACT_FINGERPRINT :: nat where
  [perfcache_constants]: "LAPLACE_PERFCACHE_OFFSET_MODULE_CONTRACT_FINGERPRINT = 120"

definition LAPLACE_PERFCACHE_OFFSET_SOURCE_FINGERPRINT :: nat where
  [perfcache_constants]: "LAPLACE_PERFCACHE_OFFSET_SOURCE_FINGERPRINT = 152"

definition LAPLACE_PERFCACHE_OFFSET_RECIPE_FINGERPRINT :: nat where
  [perfcache_constants]: "LAPLACE_PERFCACHE_OFFSET_RECIPE_FINGERPRINT = 184"

definition LAPLACE_PERFCACHE_OFFSET_DEPENDENCY_FINGERPRINT :: nat where
  [perfcache_constants]: "LAPLACE_PERFCACHE_OFFSET_DEPENDENCY_FINGERPRINT = 216"

definition LAPLACE_PERFCACHE_OFFSET_RECORD_COUNT :: nat where
  [perfcache_constants]: "LAPLACE_PERFCACHE_OFFSET_RECORD_COUNT = 248"

definition LAPLACE_PERFCACHE_OFFSET_KEY_BYTES :: nat where
  [perfcache_constants]: "LAPLACE_PERFCACHE_OFFSET_KEY_BYTES = 256"

definition LAPLACE_PERFCACHE_OFFSET_VALUE_BYTES :: nat where
  [perfcache_constants]: "LAPLACE_PERFCACHE_OFFSET_VALUE_BYTES = 260"

definition LAPLACE_PERFCACHE_OFFSET_RECORD_STRIDE :: nat where
  [perfcache_constants]: "LAPLACE_PERFCACHE_OFFSET_RECORD_STRIDE = 264"

definition LAPLACE_PERFCACHE_OFFSET_ACCESS_LAW :: nat where
  [perfcache_constants]: "LAPLACE_PERFCACHE_OFFSET_ACCESS_LAW = 268"

definition LAPLACE_PERFCACHE_OFFSET_RECORDS :: nat where
  [perfcache_constants]: "LAPLACE_PERFCACHE_OFFSET_RECORDS = 272"

definition LAPLACE_PERFCACHE_OFFSET_RECORDS_BYTES :: nat where
  [perfcache_constants]: "LAPLACE_PERFCACHE_OFFSET_RECORDS_BYTES = 280"

definition LAPLACE_PERFCACHE_OFFSET_METADATA :: nat where
  [perfcache_constants]: "LAPLACE_PERFCACHE_OFFSET_METADATA = 288"

definition LAPLACE_PERFCACHE_OFFSET_METADATA_BYTES :: nat where
  [perfcache_constants]: "LAPLACE_PERFCACHE_OFFSET_METADATA_BYTES = 296"

definition LAPLACE_PERFCACHE_OFFSET_DIGEST :: nat where
  [perfcache_constants]: "LAPLACE_PERFCACHE_OFFSET_DIGEST = 304"

definition LAPLACE_PERFCACHE_OFFSET_RESERVED :: nat where
  [perfcache_constants]: "LAPLACE_PERFCACHE_OFFSET_RESERVED = 312"

definition laplace_perfcache_magic :: "byte list" where
  "laplace_perfcache_magic = ascii_bytes ''LAPCACHE''"

section \<open>Contracts\<close>

definition contract_valid :: "laplace_perfcache_contract \<Rightarrow> bool" where
  "contract_valid contract =
     (let stride = ucast (pc_key_bytes contract) + ucast (pc_value_bytes contract) :: u64 in
      if pc_value_bytes contract = 0 \<or> stride = 0 \<or> stride > 0xffffffff \<or> pc_flags contract \<noteq> 0
      then False
      else if pc_access_law contract = LAPLACE_PERFCACHE_ACCESS_SORTED_UNIQUE_FIXED \<and>
                pc_key_bytes contract = 0
              \<or> pc_access_law contract = LAPLACE_PERFCACHE_ACCESS_DENSE_U32_ZERO_BASED \<and>
                pc_key_bytes contract \<noteq> 4
              \<or> pc_access_law contract \<noteq> LAPLACE_PERFCACHE_ACCESS_SORTED_UNIQUE_FIXED \<and>
                pc_access_law contract \<noteq> LAPLACE_PERFCACHE_ACCESS_DENSE_U32_ZERO_BASED \<and>
                pc_access_law contract \<noteq> LAPLACE_PERFCACHE_ACCESS_MODULE_DEFINED
      then False
      else True)"

definition contract_equal ::
  "laplace_perfcache_contract \<Rightarrow> laplace_perfcache_contract \<Rightarrow> bool" where
  "contract_equal left right \<longleftrightarrow>
     memcmp (bytes (pc_module_id left)) (bytes (pc_module_id right)) = 0 \<and>
     memcmp (bytes (pc_key_schema_id left)) (bytes (pc_key_schema_id right)) = 0 \<and>
     memcmp (bytes (pc_value_schema_id left)) (bytes (pc_value_schema_id right)) = 0 \<and>
     memcmp (bytes (pc_activation_epoch_id left)) (bytes (pc_activation_epoch_id right)) = 0 \<and>
     memcmp (bytes (pc_activation_epoch_fingerprint left))
       (bytes (pc_activation_epoch_fingerprint right)) = 0 \<and>
     memcmp (bytes (pc_module_contract_fingerprint left))
       (bytes (pc_module_contract_fingerprint right)) = 0 \<and>
     memcmp (bytes (pc_source_fingerprint left)) (bytes (pc_source_fingerprint right)) = 0 \<and>
     memcmp (bytes (pc_recipe_fingerprint left)) (bytes (pc_recipe_fingerprint right)) = 0 \<and>
     memcmp (bytes (pc_dependency_fingerprint left)) (bytes (pc_dependency_fingerprint right)) = 0 \<and>
     pc_key_bytes left = pc_key_bytes right \<and>
     pc_value_bytes left = pc_value_bytes right \<and>
     pc_access_law left = pc_access_law right \<and>
     pc_flags left = pc_flags right"

section \<open>Access laws\<close>

text \<open>\<open>records + (size_t)index * (size_t)record_stride\<close>, the product modulo \<open>2 ^ 64\<close>.\<close>

definition record_at :: "byte list \<Rightarrow> nat \<Rightarrow> u32 \<Rightarrow> byte list" where
  "record_at records index record_stride =
     drop (unat (of_nat index * ucast record_stride :: u64)) records"

text \<open>The key bytes of a record, the first \<open>key_bytes\<close> that \<open>memcmp\<close> reads there.\<close>

definition key_at :: "byte list \<Rightarrow> nat \<Rightarrow> u32 \<Rightarrow> u32 \<Rightarrow> byte list" where
  "key_at records index key_bytes record_stride =
     take (unat key_bytes) (record_at records index record_stride)"

definition records_sorted_unique :: "byte list \<Rightarrow> u64 \<Rightarrow> u32 \<Rightarrow> u32 \<Rightarrow> bool" where
  "records_sorted_unique records record_count key_bytes record_stride =
     list_all (\<lambda>index. \<not> memcmp (key_at records (index - 1) key_bytes record_stride)
                             (key_at records index key_bytes record_stride) \<ge> 0)
       [1..<unat record_count]"

definition dense_u32_zero_based_keys :: "byte list \<Rightarrow> u64 \<Rightarrow> u32 \<Rightarrow> bool" where
  "dense_u32_zero_based_keys records record_count record_stride =
     (if record_count > 0x100000000 then False
      else list_all (\<lambda>index. read_u32_le (record_at records index record_stride) = of_nat index)
             [0..<unat record_count])"

definition records_access_law_valid ::
  "byte list \<Rightarrow> u64 \<Rightarrow> laplace_perfcache_contract \<Rightarrow> u32 \<Rightarrow> laplace_perfcache_status" where
  "records_access_law_valid records record_count contract record_stride =
     (if record_count = 0 then LAPLACE_PERFCACHE_OK
      else if pc_access_law contract = LAPLACE_PERFCACHE_ACCESS_SORTED_UNIQUE_FIXED then
        (if records_sorted_unique records record_count (pc_key_bytes contract) record_stride
         then LAPLACE_PERFCACHE_OK else LAPLACE_PERFCACHE_KEYS_NOT_SORTED_UNIQUE)
      else if pc_access_law contract = LAPLACE_PERFCACHE_ACCESS_DENSE_U32_ZERO_BASED then
        (if dense_u32_zero_based_keys records record_count record_stride
         then LAPLACE_PERFCACHE_OK else LAPLACE_PERFCACHE_DENSE_KEY_MISMATCH)
      else if pc_access_law contract = LAPLACE_PERFCACHE_ACCESS_MODULE_DEFINED
      then LAPLACE_PERFCACHE_OK
      else LAPLACE_PERFCACHE_INVALID_ARGUMENT)"

section \<open>Measuring\<close>

text \<open>\<open>Inr (record_stride, records_bytes, artifact_bytes)\<close>.\<close>

definition measure_layout_internal ::
  "laplace_perfcache_contract option \<Rightarrow> u64 \<Rightarrow> u64
     \<Rightarrow> laplace_perfcache_status + u64 \<times> u64 \<times> u64" where
  "measure_layout_internal contract record_count metadata_bytes =
     (case contract of
        None \<Rightarrow> Inl LAPLACE_PERFCACHE_INVALID_ARGUMENT
      | Some c \<Rightarrow>
          if \<not> contract_valid c then Inl LAPLACE_PERFCACHE_INVALID_ARGUMENT
          else
            let record_stride = ucast (pc_key_bytes c) + ucast (pc_value_bytes c) in
            if record_count > UINT64_MAX div record_stride then Inl LAPLACE_PERFCACHE_SIZE_OVERFLOW
            else
              let records_bytes = record_count * record_stride;
                  header = of_nat LAPLACE_PERFCACHE_HEADER_BYTES in
              if UINT64_MAX - header < records_bytes then Inl LAPLACE_PERFCACHE_SIZE_OVERFLOW
              else
                let body = header + records_bytes in
                if UINT64_MAX - body < metadata_bytes then Inl LAPLACE_PERFCACHE_SIZE_OVERFLOW
                else
                  let digest_offset = body + metadata_bytes in
                  if UINT64_MAX - digest_offset < of_nat LAPLACE_PERFCACHE_DIGEST_BYTES
                  then Inl LAPLACE_PERFCACHE_SIZE_OVERFLOW
                  else
                    let artifact_bytes = digest_offset + of_nat LAPLACE_PERFCACHE_DIGEST_BYTES in
                    if artifact_bytes > UINT64_MAX then Inl LAPLACE_PERFCACHE_SIZE_OVERFLOW
                    else Inr (record_stride, records_bytes, artifact_bytes))"

definition measure_internal ::
  "laplace_perfcache_spec option \<Rightarrow> laplace_perfcache_status + u64 \<times> u64 \<times> u64" where
  "measure_internal spec =
     (case spec of
        None \<Rightarrow> Inl LAPLACE_PERFCACHE_INVALID_ARGUMENT
      | Some s \<Rightarrow>
          if ps_record_count s \<noteq> 0 \<and> ps_records s = None
             \<or> ps_metadata_bytes s \<noteq> 0 \<and> ps_metadata s = None
          then Inl LAPLACE_PERFCACHE_INVALID_ARGUMENT
          else measure_layout_internal (Some (ps_contract s)) (ps_record_count s)
                 (ps_metadata_bytes s))"

definition laplace_perfcache_measure ::
  "laplace_perfcache_spec option \<Rightarrow> nat option \<Rightarrow> laplace_perfcache_status \<times> nat option" where
  "laplace_perfcache_measure spec artifact_bytes =
     (if artifact_bytes = None then (LAPLACE_PERFCACHE_INVALID_ARGUMENT, artifact_bytes)
      else
        case measure_internal spec of
          Inl status \<Rightarrow> (status, artifact_bytes)
        | Inr (stride, records_bytes, measured) \<Rightarrow> (LAPLACE_PERFCACHE_OK, Some (unat measured)))"

definition laplace_perfcache_layout_measure ::
  "laplace_perfcache_contract option \<Rightarrow> u64 \<Rightarrow> u64 \<Rightarrow> nat option
     \<Rightarrow> laplace_perfcache_status \<times> nat option" where
  "laplace_perfcache_layout_measure contract record_count metadata_bytes artifact_bytes =
     (if artifact_bytes = None then (LAPLACE_PERFCACHE_INVALID_ARGUMENT, artifact_bytes)
      else
        case measure_layout_internal contract record_count metadata_bytes of
          Inl status \<Rightarrow> (status, artifact_bytes)
        | Inr (stride, records_bytes, measured) \<Rightarrow> (LAPLACE_PERFCACHE_OK, Some (unat measured)))"

section \<open>Sealing and writing\<close>

text \<open>The writes into the zeroed header, in the order of the code.\<close>

definition header_writes ::
  "laplace_perfcache_contract \<Rightarrow> u64 \<Rightarrow> u64 \<Rightarrow> u64 \<Rightarrow> u64 \<Rightarrow> u64 \<Rightarrow> u64 \<Rightarrow> (nat \<times> byte list) list" where
  "header_writes contract record_count stride records_bytes metadata_offset metadata_bytes
     digest_offset =
     [(0, laplace_perfcache_magic),
      (LAPLACE_PERFCACHE_OFFSET_VERSION, u32_le LAPLACE_PERFCACHE_FORMAT_VERSION),
      (LAPLACE_PERFCACHE_OFFSET_HEADER_BYTES, u32_le (of_nat LAPLACE_PERFCACHE_HEADER_BYTES)),
      (LAPLACE_PERFCACHE_OFFSET_FLAGS, u64_le (pc_flags contract)),
      (LAPLACE_PERFCACHE_OFFSET_MODULE_ID, bytes (pc_module_id contract)),
      (LAPLACE_PERFCACHE_OFFSET_KEY_SCHEMA_ID, bytes (pc_key_schema_id contract)),
      (LAPLACE_PERFCACHE_OFFSET_VALUE_SCHEMA_ID, bytes (pc_value_schema_id contract)),
      (LAPLACE_PERFCACHE_OFFSET_ACTIVATION_EPOCH_ID, bytes (pc_activation_epoch_id contract)),
      (LAPLACE_PERFCACHE_OFFSET_ACTIVATION_EPOCH_FINGERPRINT,
        bytes (pc_activation_epoch_fingerprint contract)),
      (LAPLACE_PERFCACHE_OFFSET_MODULE_CONTRACT_FINGERPRINT,
        bytes (pc_module_contract_fingerprint contract)),
      (LAPLACE_PERFCACHE_OFFSET_SOURCE_FINGERPRINT, bytes (pc_source_fingerprint contract)),
      (LAPLACE_PERFCACHE_OFFSET_RECIPE_FINGERPRINT, bytes (pc_recipe_fingerprint contract)),
      (LAPLACE_PERFCACHE_OFFSET_DEPENDENCY_FINGERPRINT, bytes (pc_dependency_fingerprint contract)),
      (LAPLACE_PERFCACHE_OFFSET_RECORD_COUNT, u64_le record_count),
      (LAPLACE_PERFCACHE_OFFSET_KEY_BYTES, u32_le (pc_key_bytes contract)),
      (LAPLACE_PERFCACHE_OFFSET_VALUE_BYTES, u32_le (pc_value_bytes contract)),
      (LAPLACE_PERFCACHE_OFFSET_RECORD_STRIDE, u32_le (ucast stride)),
      (LAPLACE_PERFCACHE_OFFSET_ACCESS_LAW, u32_le (pc_access_law contract)),
      (LAPLACE_PERFCACHE_OFFSET_RECORDS, u64_le (of_nat LAPLACE_PERFCACHE_HEADER_BYTES)),
      (LAPLACE_PERFCACHE_OFFSET_RECORDS_BYTES, u64_le records_bytes),
      (LAPLACE_PERFCACHE_OFFSET_METADATA, u64_le metadata_offset),
      (LAPLACE_PERFCACHE_OFFSET_METADATA_BYTES, u64_le metadata_bytes),
      (LAPLACE_PERFCACHE_OFFSET_DIGEST, u64_le digest_offset)]"

definition laplace_perfcache_layout_seal ::
  "'h blake3_api \<Rightarrow> laplace_perfcache_contract option \<Rightarrow> u64 \<Rightarrow> u64 \<Rightarrow> byte list option
     \<Rightarrow> nat option \<Rightarrow> laplace_digest256 option
     \<Rightarrow> laplace_perfcache_status \<times> byte list option \<times> nat option \<times> laplace_digest256 option" where
  "laplace_perfcache_layout_seal B contract record_count metadata_bytes artifact artifact_bytes
     artifact_digest =
     (if artifact_bytes = None \<or> artifact_digest = None
      then (LAPLACE_PERFCACHE_INVALID_ARGUMENT, artifact, artifact_bytes, artifact_digest)
      else
        case measure_layout_internal contract record_count metadata_bytes of
          Inl status \<Rightarrow> (status, artifact, artifact_bytes, artifact_digest)
        | Inr (stride, records_bytes, measured) \<Rightarrow>
            (case artifact of
               None \<Rightarrow> (LAPLACE_PERFCACHE_BUFFER_TOO_SMALL, artifact, Some (unat measured),
                        artifact_digest)
             | Some buffer \<Rightarrow>
                 if length buffer < unat measured
                 then (LAPLACE_PERFCACHE_BUFFER_TOO_SMALL, artifact, Some (unat measured),
                       artifact_digest)
                 else
                   let status = records_access_law_valid
                         (drop LAPLACE_PERFCACHE_HEADER_BYTES buffer) record_count (the contract)
                         (ucast stride) in
                   if status \<noteq> LAPLACE_PERFCACHE_OK
                   then (status, artifact, Some (unat measured), artifact_digest)
                   else
                     let metadata_offset = of_nat LAPLACE_PERFCACHE_HEADER_BYTES + records_bytes;
                         digest_offset = metadata_offset + metadata_bytes;
                         sealed = memcpy_all
                           (header_writes (the contract) record_count stride records_bytes
                              metadata_offset metadata_bytes digest_offset)
                           (memcpy_at 0 (replicate LAPLACE_PERFCACHE_HEADER_BYTES 0) buffer);
                         digest = hasher_finalize B (hasher_update B (hasher_init B)
                           (take (unat digest_offset) sealed)) in
                     (LAPLACE_PERFCACHE_OK,
                      Some (memcpy_at (unat digest_offset) (bytes digest) sealed),
                      Some (unat measured), Some digest)))"

definition laplace_perfcache_write ::
  "'h blake3_api \<Rightarrow> laplace_perfcache_spec option \<Rightarrow> byte list option \<Rightarrow> nat option
     \<Rightarrow> laplace_perfcache_status \<times> byte list option \<times> nat option" where
  "laplace_perfcache_write B spec artifact artifact_bytes =
     (if artifact_bytes = None
      then (LAPLACE_PERFCACHE_INVALID_ARGUMENT, artifact, artifact_bytes)
      else
        case measure_internal spec of
          Inl status \<Rightarrow> (status, artifact, artifact_bytes)
        | Inr (stride, records_bytes, measured) \<Rightarrow>
            (case artifact of
               None \<Rightarrow> (LAPLACE_PERFCACHE_BUFFER_TOO_SMALL, artifact, Some (unat measured))
             | Some buffer \<Rightarrow>
                 if length buffer < unat measured
                 then (LAPLACE_PERFCACHE_BUFFER_TOO_SMALL, artifact, Some (unat measured))
                 else
                   let s = the spec;
                       records = (case ps_records s of None \<Rightarrow> [] | Some bs \<Rightarrow> bs);
                       metadata = (case ps_metadata s of None \<Rightarrow> [] | Some bs \<Rightarrow> bs);
                       status = records_access_law_valid records (ps_record_count s)
                         (ps_contract s) (ucast stride) in
                   if status \<noteq> LAPLACE_PERFCACHE_OK
                   then (status, artifact, Some (unat measured))
                   else
                     let metadata_offset = of_nat LAPLACE_PERFCACHE_HEADER_BYTES + records_bytes;
                         zeroed = memcpy_at 0 (replicate (unat measured) 0) buffer;
                         with_records =
                           (if records_bytes \<noteq> 0
                            then memcpy_at LAPLACE_PERFCACHE_HEADER_BYTES
                                   (take (unat records_bytes) records) zeroed
                            else zeroed);
                         filled =
                           (if ps_metadata_bytes s \<noteq> 0
                            then memcpy_at (unat metadata_offset)
                                   (take (unat (ps_metadata_bytes s)) metadata) with_records
                            else with_records) in
                     case laplace_perfcache_layout_seal B (Some (ps_contract s))
                            (ps_record_count s) (ps_metadata_bytes s) (Some filled)
                            (Some (unat measured)) (Some 0) of
                       (sealed_status, sealed, sealed_bytes, digest) \<Rightarrow>
                         (sealed_status, sealed, sealed_bytes)))"

section \<open>Validation\<close>

definition read_contract :: "byte list \<Rightarrow> laplace_perfcache_contract" where
  "read_contract artifact =
     \<lparr>pc_module_id = id128_at artifact LAPLACE_PERFCACHE_OFFSET_MODULE_ID,
      pc_key_schema_id = id128_at artifact LAPLACE_PERFCACHE_OFFSET_KEY_SCHEMA_ID,
      pc_value_schema_id = id128_at artifact LAPLACE_PERFCACHE_OFFSET_VALUE_SCHEMA_ID,
      pc_activation_epoch_id = id128_at artifact LAPLACE_PERFCACHE_OFFSET_ACTIVATION_EPOCH_ID,
      pc_activation_epoch_fingerprint =
        digest256_at artifact LAPLACE_PERFCACHE_OFFSET_ACTIVATION_EPOCH_FINGERPRINT,
      pc_module_contract_fingerprint =
        digest256_at artifact LAPLACE_PERFCACHE_OFFSET_MODULE_CONTRACT_FINGERPRINT,
      pc_source_fingerprint = digest256_at artifact LAPLACE_PERFCACHE_OFFSET_SOURCE_FINGERPRINT,
      pc_recipe_fingerprint = digest256_at artifact LAPLACE_PERFCACHE_OFFSET_RECIPE_FINGERPRINT,
      pc_dependency_fingerprint =
        digest256_at artifact LAPLACE_PERFCACHE_OFFSET_DEPENDENCY_FINGERPRINT,
      pc_key_bytes = read_u32_le (drop LAPLACE_PERFCACHE_OFFSET_KEY_BYTES artifact),
      pc_value_bytes = read_u32_le (drop LAPLACE_PERFCACHE_OFFSET_VALUE_BYTES artifact),
      pc_access_law = read_u32_le (drop LAPLACE_PERFCACHE_OFFSET_ACCESS_LAW artifact),
      pc_flags = read_u64_le (drop LAPLACE_PERFCACHE_OFFSET_FLAGS artifact)\<rparr>"

text \<open>The section table read from the header against the one computed from the counts.\<close>

definition sections_valid :: "byte list \<Rightarrow> laplace_perfcache_contract \<Rightarrow> bool" where
  "sections_valid artifact actual_contract =
     (let record_count = read_u64_le (drop LAPLACE_PERFCACHE_OFFSET_RECORD_COUNT artifact);
          record_stride = read_u32_le (drop LAPLACE_PERFCACHE_OFFSET_RECORD_STRIDE artifact);
          records_offset = read_u64_le (drop LAPLACE_PERFCACHE_OFFSET_RECORDS artifact);
          records_bytes = read_u64_le (drop LAPLACE_PERFCACHE_OFFSET_RECORDS_BYTES artifact);
          metadata_offset = read_u64_le (drop LAPLACE_PERFCACHE_OFFSET_METADATA artifact);
          metadata_bytes = read_u64_le (drop LAPLACE_PERFCACHE_OFFSET_METADATA_BYTES artifact);
          digest_offset = read_u64_le (drop LAPLACE_PERFCACHE_OFFSET_DIGEST artifact) in
      if record_stride \<noteq> pc_key_bytes actual_contract + pc_value_bytes actual_contract \<or>
         record_count > UINT64_MAX div ucast record_stride
      then False
      else
        let expected_records_bytes = record_count * ucast record_stride;
            header = of_nat LAPLACE_PERFCACHE_HEADER_BYTES in
        if UINT64_MAX - header < expected_records_bytes then False
        else
          let expected_metadata_offset = header + expected_records_bytes in
          if UINT64_MAX - expected_metadata_offset < metadata_bytes then False
          else
            let expected_digest_offset = expected_metadata_offset + metadata_bytes in
            \<not> (UINT64_MAX - expected_digest_offset < of_nat LAPLACE_PERFCACHE_DIGEST_BYTES \<or>
               unat (expected_digest_offset + of_nat LAPLACE_PERFCACHE_DIGEST_BYTES)
                 \<noteq> length artifact \<or>
               records_offset \<noteq> header \<or>
               records_bytes \<noteq> expected_records_bytes \<or>
               metadata_offset \<noteq> expected_metadata_offset \<or>
               digest_offset \<noteq> expected_digest_offset))"

definition laplace_perfcache_validate ::
  "'h blake3_api \<Rightarrow> byte list option \<Rightarrow> laplace_perfcache_contract option
     \<Rightarrow> laplace_perfcache_view option
     \<Rightarrow> laplace_perfcache_status \<times> laplace_perfcache_view option" where
  "laplace_perfcache_validate B artifact expected_contract view =
     (case (artifact, expected_contract, view) of
        (Some bs, Some expected, Some _) \<Rightarrow>
          let actual = read_contract bs;
              record_count = read_u64_le (drop LAPLACE_PERFCACHE_OFFSET_RECORD_COUNT bs);
              record_stride = read_u32_le (drop LAPLACE_PERFCACHE_OFFSET_RECORD_STRIDE bs);
              records_offset = read_u64_le (drop LAPLACE_PERFCACHE_OFFSET_RECORDS bs);
              metadata_offset = read_u64_le (drop LAPLACE_PERFCACHE_OFFSET_METADATA bs);
              metadata_bytes = read_u64_le (drop LAPLACE_PERFCACHE_OFFSET_METADATA_BYTES bs);
              digest_offset = read_u64_le (drop LAPLACE_PERFCACHE_OFFSET_DIGEST bs) in
          if \<not> contract_valid expected then (LAPLACE_PERFCACHE_INVALID_ARGUMENT, view)
          else if length bs < LAPLACE_PERFCACHE_HEADER_BYTES + LAPLACE_PERFCACHE_DIGEST_BYTES
          then (LAPLACE_PERFCACHE_SECTION_INVALID, view)
          else if memcmp (take 8 bs) laplace_perfcache_magic \<noteq> 0
          then (LAPLACE_PERFCACHE_BAD_MAGIC, view)
          else if read_u32_le (drop LAPLACE_PERFCACHE_OFFSET_VERSION bs)
                    \<noteq> LAPLACE_PERFCACHE_FORMAT_VERSION
          then (LAPLACE_PERFCACHE_UNSUPPORTED_VERSION, view)
          else if read_u32_le (drop LAPLACE_PERFCACHE_OFFSET_HEADER_BYTES bs)
                    \<noteq> of_nat LAPLACE_PERFCACHE_HEADER_BYTES \<or>
                  \<not> bytes_zero (take (LAPLACE_PERFCACHE_HEADER_BYTES -
                        LAPLACE_PERFCACHE_OFFSET_RESERVED)
                      (drop LAPLACE_PERFCACHE_OFFSET_RESERVED bs))
          then (LAPLACE_PERFCACHE_HEADER_INVALID, view)
          else if \<not> contract_valid actual then (LAPLACE_PERFCACHE_HEADER_INVALID, view)
          else if \<not> contract_equal actual expected then (LAPLACE_PERFCACHE_CONTRACT_MISMATCH, view)
          else if \<not> sections_valid bs actual then (LAPLACE_PERFCACHE_SECTION_INVALID, view)
          else if memcmp (bytes (hasher_finalize B (hasher_update B (hasher_init B)
                      (take (unat digest_offset) bs))))
                    (take LAPLACE_PERFCACHE_DIGEST_BYTES (drop (unat digest_offset) bs)) \<noteq> 0
          then (LAPLACE_PERFCACHE_DIGEST_MISMATCH, view)
          else
            let access_status = records_access_law_valid (drop (unat records_offset) bs)
                  record_count actual record_stride in
            if access_status \<noteq> LAPLACE_PERFCACHE_OK then (access_status, view)
            else
              (LAPLACE_PERFCACHE_OK,
               Some \<lparr>pv_contract = actual, pv_artifact = bs, pv_artifact_bytes = length bs,
                     pv_records = drop (unat records_offset) bs,
                     pv_record_count = record_count, pv_record_stride = record_stride,
                     pv_metadata = drop (unat metadata_offset) bs,
                     pv_metadata_bytes = metadata_bytes,
                     pv_artifact_digest = digest256_at bs (unat digest_offset)\<rparr>)
      | _ \<Rightarrow> (LAPLACE_PERFCACHE_INVALID_ARGUMENT, view))"

text \<open>The local \<open>laplace_perfcache_view view\<close> before it is filled.\<close>

definition perfcache_view_local :: laplace_perfcache_view where
  "perfcache_view_local =
     \<lparr>pv_contract = read_contract (replicate LAPLACE_PERFCACHE_HEADER_BYTES 0), pv_artifact = [],
      pv_artifact_bytes = 0, pv_records = [], pv_record_count = 0, pv_record_stride = 0,
      pv_metadata = [], pv_metadata_bytes = 0, pv_artifact_digest = 0\<rparr>"

text \<open>
  The digest the artifact would have under a reference epoch: the header is copied, its epoch
  and dependency fields replaced, and hashed with the untouched records and metadata.
\<close>

definition laplace_perfcache_reference_epoch_digest ::
  "'h blake3_api \<Rightarrow> byte list option \<Rightarrow> laplace_perfcache_contract option
     \<Rightarrow> laplace_id128 option \<Rightarrow> laplace_digest256 option \<Rightarrow> laplace_digest256 option
     \<Rightarrow> laplace_digest256 option \<Rightarrow> laplace_perfcache_status \<times> laplace_digest256 option" where
  "laplace_perfcache_reference_epoch_digest B artifact expected_contract reference_epoch_id
     reference_epoch_fingerprint reference_dependency_fingerprint reference_digest =
     (let cleared = map_option (\<lambda>_. 0) reference_digest in
      if artifact = None \<or> expected_contract = None \<or> reference_epoch_id = None \<or>
         reference_epoch_fingerprint = None \<or> reference_dependency_fingerprint = None \<or>
         reference_digest = None
      then (LAPLACE_PERFCACHE_INVALID_ARGUMENT, cleared)
      else
        let bs = the artifact;
            status = fst (laplace_perfcache_validate B artifact expected_contract
              (Some perfcache_view_local)) in
        if status \<noteq> LAPLACE_PERFCACHE_OK then (status, cleared)
        else
          let header = memcpy_all
                [(LAPLACE_PERFCACHE_OFFSET_ACTIVATION_EPOCH_ID, bytes (the reference_epoch_id)),
                 (LAPLACE_PERFCACHE_OFFSET_ACTIVATION_EPOCH_FINGERPRINT,
                   bytes (the reference_epoch_fingerprint)),
                 (LAPLACE_PERFCACHE_OFFSET_DEPENDENCY_FINGERPRINT,
                   bytes (the reference_dependency_fingerprint))]
                (take LAPLACE_PERFCACHE_HEADER_BYTES bs);
              body_bytes =
                length bs - LAPLACE_PERFCACHE_HEADER_BYTES - LAPLACE_PERFCACHE_DIGEST_BYTES in
          (LAPLACE_PERFCACHE_OK,
           Some (hasher_finalize B (updates B (hasher_init B)
             [header, take body_bytes (drop LAPLACE_PERFCACHE_HEADER_BYTES bs)]))))"

section \<open>The reference encoding\<close>

text \<open>What an artifact is, as one concatenation.\<close>

definition stride_of :: "laplace_perfcache_contract \<Rightarrow> nat" where
  "stride_of c = unat (pc_key_bytes c) + unat (pc_value_bytes c)"

definition header_layout ::
  "laplace_perfcache_contract \<Rightarrow> u64 \<Rightarrow> u32 \<Rightarrow> u64 \<Rightarrow> u64 \<Rightarrow> u64 \<Rightarrow> u64 \<Rightarrow> byte list" where
  "header_layout c n stride records_bytes metadata_offset metadata_bytes digest_offset =
     laplace_perfcache_magic @ u32_le LAPLACE_PERFCACHE_FORMAT_VERSION @
     u32_le (of_nat LAPLACE_PERFCACHE_HEADER_BYTES) @ u64_le (pc_flags c) @
     bytes (pc_module_id c) @ bytes (pc_key_schema_id c) @ bytes (pc_value_schema_id c) @
     bytes (pc_activation_epoch_id c) @ bytes (pc_activation_epoch_fingerprint c) @
     bytes (pc_module_contract_fingerprint c) @ bytes (pc_source_fingerprint c) @
     bytes (pc_recipe_fingerprint c) @ bytes (pc_dependency_fingerprint c) @
     u64_le n @ u32_le (pc_key_bytes c) @ u32_le (pc_value_bytes c) @ u32_le stride @
     u32_le (pc_access_law c) @ u64_le (of_nat LAPLACE_PERFCACHE_HEADER_BYTES) @
     u64_le records_bytes @ u64_le metadata_offset @ u64_le metadata_bytes @
     u64_le digest_offset @ replicate 40 0"

lemma length_magic [simp]: "length laplace_perfcache_magic = 8"
  by (simp add: laplace_perfcache_magic_def ascii_bytes_def)

lemma length_header_layout [simp]: "length (header_layout c n st rb mo mb d) = 352"
  by (simp add: header_layout_def)

lemma header_writes_layout:
  assumes "352 \<le> length buffer"
  shows "memcpy_all (header_writes c n st rb mo mb d)
           (memcpy_at 0 (replicate LAPLACE_PERFCACHE_HEADER_BYTES 0) buffer)
         = header_layout c n (ucast st) rb mo mb d @ drop 352 buffer"
proof -
  have start: "memcpy_at 0 (replicate LAPLACE_PERFCACHE_HEADER_BYTES 0) buffer
      = [] @ replicate 352 0 @ drop 352 buffer"
    by (simp add: memcpy_at_def perfcache_constants)
  have "gapless (length ([] :: byte list)) (header_writes c n st rb mo mb d)"
    by (simp add: header_writes_def perfcache_constants)
  then show ?thesis
    unfolding start
    by (subst memcpy_all_contiguous)
      (simp_all add: header_writes_def header_layout_def perfcache_constants)
qed

section \<open>Measured sizes\<close>

lemma unat_UINT64_MAX [simp]: "unat UINT64_MAX = 2 ^ 64 - 1"
  by (simp add: unsigned_minus_1_eq_mask mask_eq_exp_minus_1)

lemma above_quotient_iff:
  fixes a b :: u64
  assumes "b \<noteq> 0"
  shows "a > UINT64_MAX div b \<longleftrightarrow> 2 ^ 64 \<le> unat a * unat b"
proof -
  have "0 < unat b" using assms by (simp add: unat_gt_0)
  then have "(2 ^ 64 - 1) div unat b < unat a \<longleftrightarrow> 2 ^ 64 - 1 < unat a * unat b"
    by (rule div_less_iff_less_mult)
  then show ?thesis
    by (simp add: word_less_nat_alt unat_div_distrib) linarith
qed

lemma below_difference_iff: "UINT64_MAX - a < b \<longleftrightarrow> 2 ^ 64 \<le> unat a + unat b"
  using unsigned_less [of a, where 'a = nat]
  by (simp add: word_less_nat_alt unat_minus_one_minus) linarith

lemma unat_stride: "unat (ucast (a :: u32) + ucast (b :: u32) :: u64) = unat a + unat b"
proof -
  have "unat a < 2 ^ 32" "unat b < 2 ^ 32"
    using unsigned_less [of a, where 'a = nat] unsigned_less [of b, where 'a = nat] by simp_all
  then show ?thesis
    by (simp add: unat_word_ariths unsigned_ucast_eq take_bit_eq_mod)
qed

lemma contract_valid_iff:
  "contract_valid c \<longleftrightarrow>
     pc_value_bytes c \<noteq> 0 \<and> stride_of c < 2 ^ 32 \<and> pc_flags c = 0 \<and>
     (pc_access_law c = LAPLACE_PERFCACHE_ACCESS_SORTED_UNIQUE_FIXED \<and> pc_key_bytes c \<noteq> 0 \<or>
      pc_access_law c = LAPLACE_PERFCACHE_ACCESS_DENSE_U32_ZERO_BASED \<and> pc_key_bytes c = 4 \<or>
      pc_access_law c = LAPLACE_PERFCACHE_ACCESS_MODULE_DEFINED)"
proof -
  let ?s = "ucast (pc_key_bytes c) + ucast (pc_value_bytes c) :: u64"
  have "?s > 0xffffffff \<longleftrightarrow> \<not> stride_of c < 2 ^ 32"
    by (simp add: word_less_nat_alt unat_stride stride_of_def) linarith
  moreover have "pc_value_bytes c \<noteq> 0 \<Longrightarrow> ?s \<noteq> 0"
    using unat_stride [of "pc_key_bytes c" "pc_value_bytes c"] unat_gt_0 [of "pc_value_bytes c"]
    by (metis add_is_0 unat_0 unat_eq_zero)
  ultimately show ?thesis
    unfolding contract_valid_def Let_def
    by (auto simp: perfcache_constants)
qed

lemma stride_of_bounds:
  assumes "contract_valid c"
  shows "0 < stride_of c" "stride_of c < 2 ^ 32"
  using assms unat_gt_0 [of "pc_value_bytes c"] by (auto simp: contract_valid_iff stride_of_def)

lemma stride_word:
  "ucast (pc_key_bytes c) + ucast (pc_value_bytes c) = (of_nat (stride_of c) :: u64)"
  by (simp only: stride_of_def unat_stride [symmetric]) simp

text \<open>The three outcomes of measuring: an invalid contract, a size beyond 64 bits, or the sizes.\<close>

definition layout_fits :: "laplace_perfcache_contract \<Rightarrow> u64 \<Rightarrow> u64 \<Rightarrow> bool" where
  "layout_fits c n m \<longleftrightarrow> contract_valid c \<and> unat n * stride_of c + unat m + 384 < 2 ^ 64"

lemma measure_layout:
  "measure_layout_internal (Some c) n m =
     (if \<not> contract_valid c then Inl LAPLACE_PERFCACHE_INVALID_ARGUMENT
      else if \<not> layout_fits c n m then Inl LAPLACE_PERFCACHE_SIZE_OVERFLOW
      else Inr (of_nat (stride_of c), of_nat (unat n * stride_of c),
                of_nat (unat n * stride_of c + unat m + 384)))"
proof (cases "contract_valid c")
  case True
  let ?s = "of_nat (stride_of c) :: u64" and ?r = "unat n * stride_of c"
  have s: "unat ?s = stride_of c" "?s \<noteq> 0"
    using stride_of_bounds [OF True]
    by (auto simp: unat_of_nat word_of_nat_eq_0_iff dest: nat_dvd_not_less)
  have q: "n > UINT64_MAX div ?s \<longleftrightarrow> 2 ^ 64 \<le> ?r"
    using above_quotient_iff [OF s(2)] s(1) by simp
  show ?thesis
  proof (cases "2 ^ 64 \<le> ?r")
    case True
    with q \<open>contract_valid c\<close> show ?thesis
      by (simp add: measure_layout_internal_def Let_def stride_word layout_fits_def)
  next
    case False
    have r: "n * ?s = of_nat ?r" "unat (of_nat ?r :: u64) = ?r"
      using False by (simp, simp add: unat_of_nat del: of_nat_mult)
    have h: "UINT64_MAX - of_nat LAPLACE_PERFCACHE_HEADER_BYTES < of_nat ?r \<longleftrightarrow> 2 ^ 64 \<le> 352 + ?r"
      using below_difference_iff [of 352 "of_nat ?r"] r(2) by (simp add: perfcache_constants)
    show ?thesis
    proof (cases "2 ^ 64 \<le> 352 + ?r")
      case True
      with q r h False \<open>contract_valid c\<close> show ?thesis
        by (simp add: measure_layout_internal_def Let_def stride_word layout_fits_def)
    next
      case F2: False
      have b: "unat (of_nat (352 + ?r) :: u64) = 352 + ?r"
        using F2 by (simp add: unat_of_nat del: of_nat_add)
      have m: "UINT64_MAX - of_nat (352 + ?r) < m \<longleftrightarrow> 2 ^ 64 \<le> 352 + ?r + unat m"
        using below_difference_iff [of "of_nat (352 + ?r)" m] b by simp
      show ?thesis
      proof (cases "2 ^ 64 \<le> 352 + ?r + unat m")
        case True
        with q r h m F2 False \<open>contract_valid c\<close> show ?thesis
          by (simp add: measure_layout_internal_def Let_def stride_word layout_fits_def
              perfcache_constants)
      next
        case F3: False
        have d: "of_nat (352 + ?r) + m = (of_nat (352 + ?r + unat m) :: u64)"
          "unat (of_nat (352 + ?r + unat m) :: u64) = 352 + ?r + unat m"
          using F3 by (simp_all add: unat_of_nat del: of_nat_add) simp
        have e: "UINT64_MAX - of_nat (352 + ?r + unat m) < 32 \<longleftrightarrow> 2 ^ 64 \<le> 352 + ?r + unat m + 32"
          using below_difference_iff [of "of_nat (352 + ?r + unat m)" 32] d(2) by simp
        have top: "\<not> UINT64_MAX < w" for w :: u64
          by (simp add: not_less)
        show ?thesis
          using q r h m d e F2 F3 False \<open>contract_valid c\<close>
          by (simp add: measure_layout_internal_def Let_def stride_word layout_fits_def
              perfcache_constants top)
      qed
    qed
  qed
qed (simp add: measure_layout_internal_def)

section \<open>Artifacts\<close>

definition record_stride_of :: "laplace_perfcache_contract \<Rightarrow> u32" where
  "record_stride_of c = pc_key_bytes c + pc_value_bytes c"

definition artifact_body ::
  "laplace_perfcache_contract \<Rightarrow> u64 \<Rightarrow> byte list \<Rightarrow> byte list \<Rightarrow> byte list" where
  "artifact_body c n recs meta =
     header_layout c n (record_stride_of c) (of_nat (length recs)) (of_nat (352 + length recs))
       (of_nat (length meta)) (of_nat (352 + length recs + length meta)) @ recs @ meta"

definition artifact_of ::
  "'h blake3_api \<Rightarrow> laplace_perfcache_contract \<Rightarrow> u64 \<Rightarrow> byte list \<Rightarrow> byte list \<Rightarrow> byte list" where
  "artifact_of B c n recs meta =
     artifact_body c n recs meta @ bytes (blake3 B (artifact_body c n recs meta))"

definition content_ok ::
  "laplace_perfcache_contract \<Rightarrow> u64 \<Rightarrow> byte list \<Rightarrow> byte list \<Rightarrow> bool" where
  "content_ok c n recs meta \<longleftrightarrow>
     contract_valid c \<and> length recs = unat n * stride_of c \<and>
     length recs + length meta + 384 < 2 ^ 64 \<and>
     records_access_law_valid recs n c (record_stride_of c) = LAPLACE_PERFCACHE_OK"

lemma length_artifact_body [simp]:
  "length (artifact_body c n recs meta) = 352 + length recs + length meta"
  by (simp add: artifact_body_def)

lemma length_artifact_of [simp]:
  "length (artifact_of B c n recs meta) = length recs + length meta + 384"
  by (simp add: artifact_of_def)

lemma unat_record_stride_of:
  "contract_valid c \<Longrightarrow> unat (record_stride_of c) = stride_of c"
  using stride_of_bounds [of c]
  by (simp add: record_stride_of_def stride_of_def unat_word_ariths)

lemma ucast_stride: "contract_valid c \<Longrightarrow> ucast (of_nat (stride_of c) :: u64) = record_stride_of c"
  using stride_of_bounds [of c]
  by (simp add: word_unat_eq_iff unat_record_stride_of unsigned_ucast_eq take_bit_eq_mod unat_of_nat)

lemma record_at_eq:
  assumes "index * unat stride < 2 ^ 64"
  shows "record_at records index stride = drop (index * unat stride) records"
proof -
  have "unat (of_nat (index * unat stride) :: u64) = index * unat stride"
    using assms by (simp add: unat_of_nat del: of_nat_mult)
  moreover have "(of_nat (unat stride) :: u64) = ucast stride"
    by simp
  ultimately show ?thesis
    by (simp add: record_at_def)
qed

text \<open>What comes after the records does not matter to their access law.\<close>

lemma record_at_append:
  assumes "contract_valid c" "length recs = unat n * stride_of c" "length recs < 2 ^ 64"
    "index < unat n"
  shows "record_at (recs @ r) index (record_stride_of c) = record_at recs index (record_stride_of c) @ r"
    and "stride_of c \<le> length (record_at recs index (record_stride_of c))"
proof -
  have room: "index * stride_of c + stride_of c \<le> length recs"
    using assms(2,4) mult_le_mono1 [of "Suc index" "unat n" "stride_of c"] by simp
  then have "record_at bs index (record_stride_of c) = drop (index * stride_of c) bs" for bs
    using assms(1,3) by (simp add: record_at_eq unat_record_stride_of)
  with room show "record_at (recs @ r) index (record_stride_of c)
      = record_at recs index (record_stride_of c) @ r"
    "stride_of c \<le> length (record_at recs index (record_stride_of c))"
    by simp_all
qed

lemma key_at_append:
  assumes "contract_valid c" "length recs = unat n * stride_of c" "length recs < 2 ^ 64"
    "index < unat n"
  shows "key_at (recs @ r) index (pc_key_bytes c) (record_stride_of c)
       = key_at recs index (pc_key_bytes c) (record_stride_of c)"
  using record_at_append [OF assms] by (simp add: key_at_def stride_of_def)

lemma access_law_append:
  assumes "contract_valid c" "length recs = unat n * stride_of c" "length recs < 2 ^ 64"
  shows "records_access_law_valid (recs @ r) n c (record_stride_of c)
       = records_access_law_valid recs n c (record_stride_of c)"
proof -
  note key = key_at_append [OF assms]
  have "records_sorted_unique (recs @ r) n (pc_key_bytes c) (record_stride_of c)
      = records_sorted_unique recs n (pc_key_bytes c) (record_stride_of c)"
    unfolding records_sorted_unique_def by (intro list.pred_cong) (auto simp: key)
  moreover have "dense_u32_zero_based_keys (recs @ r) n (record_stride_of c)
      = dense_u32_zero_based_keys recs n (record_stride_of c)"
    if "pc_access_law c = LAPLACE_PERFCACHE_ACCESS_DENSE_U32_ZERO_BASED"
  proof -
    have "4 \<le> stride_of c"
      using that assms(1) by (auto simp: contract_valid_iff stride_of_def perfcache_constants)
    then have "read_u32_le (record_at (recs @ r) index (record_stride_of c))
        = read_u32_le (record_at recs index (record_stride_of c))" if "index < unat n" for index
      using record_at_append(2) [OF assms that] by (simp add: record_at_append(1) [OF assms that])
    then show ?thesis
      unfolding dense_u32_zero_based_keys_def by (auto intro!: list.pred_cong)
  qed
  ultimately show ?thesis
    by (simp add: records_access_law_valid_def perfcache_constants)
qed

lemma two_part_split:
  assumes "a + b + c \<le> length bs"
  obtains xs ys zs ws where "bs = xs @ ys @ zs @ ws" "length xs = a" "length ys = b" "length zs = c"
    "ys = take b (drop a bs)" "zs = take c (drop (a + b) bs)" "ws = drop (a + b + c) bs"
proof
  show "bs = take a bs @ take b (drop a bs) @ take c (drop (a + b) bs) @ drop (a + b + c) bs"
    by (metis append_take_drop_id drop_drop add.commute)
qed (use assms in auto)

lemma layout_seal:
  assumes "layout_fits c n m" "buffer = h @ recs @ meta @ g @ rest" "length h = 352"
    "length recs = unat n * stride_of c" "length meta = unat m" "length g = 32"
  defines "law \<equiv> records_access_law_valid recs n c (record_stride_of c)"
  shows "laplace_perfcache_layout_seal B (Some c) n m (Some buffer) (Some x) (Some d) =
    (if law \<noteq> LAPLACE_PERFCACHE_OK then (law, Some buffer, Some (length buffer - length rest), Some d)
     else (LAPLACE_PERFCACHE_OK, Some (artifact_of B c n recs meta @ rest),
           Some (length buffer - length rest), Some (blake3 B (artifact_body c n recs meta))))"
proof -
  have c: "contract_valid c" and size: "length recs + length meta + 384 < 2 ^ 64"
    using assms by (auto simp: layout_fits_def)
  have "unat (of_nat (length recs + unat m + 384) :: u64) = length recs + unat m + 384"
    "unat (of_nat (352 + length recs + unat m) :: u64) = 352 + length recs + unat m"
    using size assms(5) by (simp_all add: unat_of_nat del: of_nat_add)
  then have u: "unat (of_nat (length recs) + m + 384) = length recs + unat m + 384"
    "unat (352 + of_nat (length recs) + m) = 352 + length recs + unat m"
    by simp_all
  have law: "records_access_law_valid (recs @ meta @ g @ rest) n c (record_stride_of c) = law"
    unfolding law_def using c assms(4) size by (intro access_law_append) auto
  have m: "of_nat (length meta) = m" by (simp add: assms(5))
  have "memcpy_all (header_writes c n (of_nat (stride_of c)) (of_nat (length recs))
        (352 + of_nat (length recs)) m (352 + of_nat (length recs) + m))
        (memcpy_at 0 (replicate LAPLACE_PERFCACHE_HEADER_BYTES 0) buffer)
      = artifact_body c n recs meta @ g @ rest"
    using assms(2,3) c
    by (subst header_writes_layout) (simp_all add: artifact_body_def ucast_stride m)
  then have head: "memcpy_all (header_writes c n (of_nat (stride_of c)) (of_nat (length recs))
        (352 + of_nat (length recs)) m (352 + of_nat (length recs) + m))
        (memcpy_at 0 (replicate 352 0) (h @ recs @ meta @ g @ rest))
      = artifact_body c n recs meta @ g @ rest"
    by (simp add: assms(2) perfcache_constants)
  have dig: "memcpy_at (352 + length recs + unat m) (bytes y) (artifact_body c n recs meta @ g @ rest)
      = artifact_body c n recs meta @ bytes y @ rest" for y :: laplace_digest256
    using assms(5,6) by (simp add: memcpy_at_def)
  have "laplace_perfcache_layout_seal B (Some c) n m (Some buffer) (Some x) (Some d) =
    (if law \<noteq> LAPLACE_PERFCACHE_OK
     then (law, Some buffer, Some (length recs + unat m + 384), Some d)
     else (LAPLACE_PERFCACHE_OK, Some (artifact_of B c n recs meta @ rest),
           Some (length recs + unat m + 384), Some (blake3 B (artifact_body c n recs meta))))"
    unfolding laplace_perfcache_layout_seal_def measure_layout Let_def
    using assms c law
    by (simp add: u head ucast_stride perfcache_constants artifact_of_def dig blake3_def
        flip: assms(4))
  then show ?thesis using assms by simp
qed

end
