(* ===== verification/Perfcache_Codec.thy ===== *)
theory Perfcache_Codec
  imports Perfcache_Format
begin

text \<open>
  Writing and validating performance cache artifacts (\<open>engine/src/perfcache.c\<close>): writing a
  specification produces the reference encoding, validation accepts exactly the reference
  encodings of well-formed contents, and the reference digest of an accepted artifact is the
  digest of the same content sealed under the reference epoch.
\<close>

section \<open>Writing\<close>

text \<open>The record and metadata bytes a specification points to.\<close>

definition spec_records :: "laplace_perfcache_spec \<Rightarrow> byte list" where
  "spec_records s =
     take (unat (ps_record_count s) * stride_of (ps_contract s))
       (case ps_records s of None \<Rightarrow> [] | Some bs \<Rightarrow> bs)"

definition spec_metadata :: "laplace_perfcache_spec \<Rightarrow> byte list" where
  "spec_metadata s =
     take (unat (ps_metadata_bytes s)) (case ps_metadata s of None \<Rightarrow> [] | Some bs \<Rightarrow> bs)"

definition spec_readable :: "laplace_perfcache_spec \<Rightarrow> bool" where
  "spec_readable s \<longleftrightarrow>
     length (spec_records s) = unat (ps_record_count s) * stride_of (ps_contract s) \<and>
     length (spec_metadata s) = unat (ps_metadata_bytes s)"

definition spec_size :: "laplace_perfcache_spec \<Rightarrow> nat" where
  "spec_size s =
     unat (ps_record_count s) * stride_of (ps_contract s) + unat (ps_metadata_bytes s) + 384"

lemma measure_internal_eq:
  assumes "spec_readable s"
  shows "measure_internal (Some s) =
    measure_layout_internal (Some (ps_contract s)) (ps_record_count s) (ps_metadata_bytes s)"
proof (cases "contract_valid (ps_contract s)")
  case True
  then have "0 < stride_of (ps_contract s)" by (rule stride_of_bounds)
  with assms have "ps_record_count s \<noteq> 0 \<Longrightarrow> ps_records s \<noteq> None"
    "ps_metadata_bytes s \<noteq> 0 \<Longrightarrow> ps_metadata s \<noteq> None"
    by (auto simp: spec_readable_def spec_records_def spec_metadata_def unat_eq_zero
        split: option.splits)
  then show ?thesis by (auto simp: measure_internal_def)
next
  case False
  then show ?thesis by (simp add: measure_internal_def measure_layout)
qed

lemma fill_sections:
  fixes recs meta :: "byte list"
  assumes "length buffer = 352 + length recs + length meta + 32 + k"
  defines "zeroed \<equiv> memcpy_at 0 (replicate (352 + length recs + length meta + 32) 0) buffer"
  shows "memcpy_at (352 + length recs) meta (memcpy_at 352 recs zeroed)
    = replicate 352 0 @ recs @ meta @ replicate 32 0 @
      drop (352 + length recs + length meta + 32) buffer"
proof -
  have "replicate (352 + length recs + length meta + 32) (0 :: byte)
      = replicate 352 0 @ replicate (length recs) 0 @ replicate (length meta) 0 @ replicate 32 0"
    by (simp only: replicate_add append_assoc)
  then have "zeroed = replicate 352 0 @ replicate (length recs) 0 @ replicate (length meta) 0 @
      replicate 32 0 @ drop (352 + length recs + length meta + 32) buffer"
    unfolding zeroed_def memcpy_at_def by simp
  then show ?thesis
    by (simp add: memcpy_at_def)
qed

lemma memcpy_at_Nil [simp]: "memcpy_at offset [] dst = dst"
  by (simp add: memcpy_at_def)

theorem perfcache_write_exact:
  fixes s :: laplace_perfcache_spec
  assumes "spec_readable s"
  defines "c \<equiv> ps_contract s" and "n \<equiv> ps_record_count s"
  defines "law \<equiv> records_access_law_valid (spec_records s) n c (record_stride_of c)"
  shows "laplace_perfcache_write B (Some s) (Some buffer) (Some x) =
    (if \<not> contract_valid c then (LAPLACE_PERFCACHE_INVALID_ARGUMENT, Some buffer, Some x)
     else if 2 ^ 64 \<le> spec_size s then (LAPLACE_PERFCACHE_SIZE_OVERFLOW, Some buffer, Some x)
     else if length buffer < spec_size s
     then (LAPLACE_PERFCACHE_BUFFER_TOO_SMALL, Some buffer, Some (spec_size s))
     else if law \<noteq> LAPLACE_PERFCACHE_OK then (law, Some buffer, Some (spec_size s))
     else (LAPLACE_PERFCACHE_OK,
           Some (artifact_of B c n (spec_records s) (spec_metadata s) @ drop (spec_size s) buffer),
           Some (spec_size s)))"
proof -
  let ?R = "case ps_records s of None \<Rightarrow> [] | Some bs \<Rightarrow> bs"
  let ?recs = "spec_records s" and ?meta = "spec_metadata s" and ?m = "ps_metadata_bytes s"
  have len: "length ?recs = unat n * stride_of c" "length ?meta = unat ?m"
    using assms(1) by (simp_all add: spec_readable_def c_def n_def)
  have size: "spec_size s = length ?recs + length ?meta + 384"
    by (simp add: len spec_size_def c_def n_def)
  have measured: "measure_internal (Some s) = measure_layout_internal (Some c) n ?m"
    using measure_internal_eq [OF assms(1)] by (simp add: c_def n_def)
  consider "\<not> contract_valid c" | "contract_valid c" "2 ^ 64 \<le> spec_size s"
    | "layout_fits c n ?m" "length buffer < spec_size s" | "layout_fits c n ?m" "spec_size s \<le> length buffer"
    unfolding layout_fits_def size len by linarith
  then show ?thesis
  proof cases
    case 1
    then show ?thesis by (simp add: laplace_perfcache_write_def measured measure_layout)
  next
    case 2
    then have "\<not> layout_fits c n ?m" by (simp add: layout_fits_def size len)
    with 2 show ?thesis by (simp add: laplace_perfcache_write_def measured measure_layout)
  next
    case 3
    then have "contract_valid c" "spec_size s < 2 ^ 64" by (auto simp: layout_fits_def size len)
    moreover have "unat (of_nat (unat n * stride_of c + unat ?m + 384) :: u64) = spec_size s"
      using calculation size len by (simp add: unat_of_nat del: of_nat_add of_nat_mult)
    ultimately show ?thesis
      using 3 by (simp add: laplace_perfcache_write_def measured measure_layout
          del: of_nat_add of_nat_mult)
  next
    case 4
    then have c: "contract_valid c" and small: "spec_size s < 2 ^ 64"
      by (auto simp: layout_fits_def size len)
    have u: "unat (of_nat (unat n * stride_of c + unat ?m + 384) :: u64) = spec_size s"
      and r: "unat (of_nat (unat n * stride_of c) :: u64) = length ?recs"
      using small size len by (simp_all add: unat_of_nat del: of_nat_add of_nat_mult)
    have mo: "unat (of_nat LAPLACE_PERFCACHE_HEADER_BYTES + of_nat (unat n * stride_of c) :: u64)
        = 352 + length ?recs"
      using small size r by (simp add: unat_word_ariths perfcache_constants del: of_nat_mult)
    have R: "?R = ?recs @ drop (length ?recs) ?R"
      unfolding len(1) by (simp add: spec_records_def c_def n_def)
    have law: "records_access_law_valid ?R n c (record_stride_of c) = law"
      using access_law_append [OF c len(1), of "drop (length ?recs) ?R"] small size R
      by (simp add: law_def)
    obtain k where k: "length buffer = 352 + length ?recs + length ?meta + 32 + k"
      using 4(2) size le_Suc_ex [of "spec_size s" "length buffer"] by auto
    have m0: "?m \<noteq> 0 \<longleftrightarrow> ?meta \<noteq> []"
      and r0: "(of_nat (unat n * stride_of c) :: u64) \<noteq> 0 \<longleftrightarrow> ?recs \<noteq> []"
      using len(2) r unat_eq_zero [of ?m] unat_eq_zero [of "of_nat (unat n * stride_of c) :: u64"]
      by (auto simp del: of_nat_mult)
    have parts: "take (unat ?m) (case ps_metadata s of None \<Rightarrow> [] | Some bs \<Rightarrow> bs) = ?meta"
      "take (length ?recs) ?R = ?recs"
      by (simp add: spec_metadata_def) (use R in \<open>metis append_eq_conv_conj\<close>)
    have skip: "(if bs \<noteq> [] then memcpy_at off bs dst else dst) = memcpy_at off bs dst"
      for off bs dst by simp
    let ?filled = "replicate 352 0 @ ?recs @ ?meta @ replicate 32 0 @ drop (spec_size s) buffer"
    have fill: "memcpy_at (352 + length ?recs) ?meta (memcpy_at LAPLACE_PERFCACHE_HEADER_BYTES ?recs
        (memcpy_at 0 (replicate (spec_size s) 0) buffer)) = ?filled"
      using fill_sections [OF k] size by (simp add: perfcache_constants add_ac)
    have seal: "laplace_perfcache_layout_seal B (Some c) n ?m (Some ?filled) (Some (spec_size s)) (Some 0)
      = (if law \<noteq> LAPLACE_PERFCACHE_OK then (law, Some ?filled, Some (spec_size s), Some 0)
         else (LAPLACE_PERFCACHE_OK,
               Some (artifact_of B c n ?recs ?meta @ drop (spec_size s) buffer),
               Some (spec_size s), Some (blake3 B (artifact_body c n ?recs ?meta))))"
      using layout_seal [OF 4(1) refl, where h = "replicate 352 0" and recs = ?recs and meta = ?meta
        and g = "replicate 32 0" and rest = "drop (spec_size s) buffer" and B = B
        and x = "spec_size s" and d = 0, folded law_def] len size
      by (simp add: add_ac)
    have "laplace_perfcache_write B (Some s) (Some buffer) (Some x) =
      (if law \<noteq> LAPLACE_PERFCACHE_OK then (law, Some buffer, Some (spec_size s))
       else case laplace_perfcache_layout_seal B (Some c) n ?m (Some ?filled) (Some (spec_size s))
              (Some 0) of (st, sealed, sealed_bytes, digest) \<Rightarrow> (st, sealed, sealed_bytes))"
      using 4(1) leD [OF 4(2)] c law
      by (simp only: laplace_perfcache_write_def measured measure_layout u r mo law ucast_stride
          Let_def option.case sum.case prod.case option.sel if_True if_False not_True_eq_False
          option.distinct c_def [symmetric] n_def [symmetric] parts m0 r0 skip fill
          simp_thms)
    with 4 c small seal show ?thesis by simp
  qed
qed

section \<open>Validation\<close>

text \<open>What the readers find in a header.\<close>

lemma header_fields:
  assumes "bs = header_layout c n st rb mo mb d @ r"
  shows "take 8 bs = laplace_perfcache_magic"
    and "read_u32_le (drop LAPLACE_PERFCACHE_OFFSET_VERSION bs) = LAPLACE_PERFCACHE_FORMAT_VERSION"
    and "read_u32_le (drop LAPLACE_PERFCACHE_OFFSET_HEADER_BYTES bs)
           = of_nat LAPLACE_PERFCACHE_HEADER_BYTES"
    and "take (LAPLACE_PERFCACHE_HEADER_BYTES - LAPLACE_PERFCACHE_OFFSET_RESERVED)
           (drop LAPLACE_PERFCACHE_OFFSET_RESERVED bs) = replicate 40 0"
    and "read_contract bs = c"
    and "read_u64_le (drop LAPLACE_PERFCACHE_OFFSET_RECORD_COUNT bs) = n"
    and "read_u32_le (drop LAPLACE_PERFCACHE_OFFSET_RECORD_STRIDE bs) = st"
    and "read_u64_le (drop LAPLACE_PERFCACHE_OFFSET_RECORDS bs) = of_nat LAPLACE_PERFCACHE_HEADER_BYTES"
    and "read_u64_le (drop LAPLACE_PERFCACHE_OFFSET_RECORDS_BYTES bs) = rb"
    and "read_u64_le (drop LAPLACE_PERFCACHE_OFFSET_METADATA bs) = mo"
    and "read_u64_le (drop LAPLACE_PERFCACHE_OFFSET_METADATA_BYTES bs) = mb"
    and "read_u64_le (drop LAPLACE_PERFCACHE_OFFSET_DIGEST bs) = d"
  by (simp_all add: assms header_layout_def perfcache_constants read_contract_def
      id128_at_def digest256_at_def)

text \<open>A buffer whose header reads back is such a header.\<close>

lemma header_canonical:
  assumes "352 \<le> length bs" "take 8 bs = laplace_perfcache_magic"
    "read_u32_le (drop LAPLACE_PERFCACHE_OFFSET_VERSION bs) = LAPLACE_PERFCACHE_FORMAT_VERSION"
    "read_u32_le (drop LAPLACE_PERFCACHE_OFFSET_HEADER_BYTES bs)
       = of_nat LAPLACE_PERFCACHE_HEADER_BYTES"
    "take (LAPLACE_PERFCACHE_HEADER_BYTES - LAPLACE_PERFCACHE_OFFSET_RESERVED)
       (drop LAPLACE_PERFCACHE_OFFSET_RESERVED bs) = replicate 40 0"
    "read_contract bs = c"
    "read_u64_le (drop LAPLACE_PERFCACHE_OFFSET_RECORD_COUNT bs) = n"
    "read_u32_le (drop LAPLACE_PERFCACHE_OFFSET_RECORD_STRIDE bs) = st"
    "read_u64_le (drop LAPLACE_PERFCACHE_OFFSET_RECORDS bs) = of_nat LAPLACE_PERFCACHE_HEADER_BYTES"
    "read_u64_le (drop LAPLACE_PERFCACHE_OFFSET_RECORDS_BYTES bs) = rb"
    "read_u64_le (drop LAPLACE_PERFCACHE_OFFSET_METADATA bs) = mo"
    "read_u64_le (drop LAPLACE_PERFCACHE_OFFSET_METADATA_BYTES bs) = mb"
    "read_u64_le (drop LAPLACE_PERFCACHE_OFFSET_DIGEST bs) = d"
  shows "take 352 bs = header_layout c n st rb mo mb d"
proof -
  have cut: "take k bs = take j bs @ take (k - j) (drop j bs)" if "j \<le> k" for j k
    using that by (metis append_take_drop_id le_add_diff_inverse take_add)
  have pieces: "take 352 bs = take 8 bs @ take 4 (drop 8 bs) @ take 4 (drop 12 bs) @
      take 8 (drop 16 bs) @ take 16 (drop 24 bs) @ take 16 (drop 40 bs) @ take 16 (drop 56 bs) @
      take 16 (drop 72 bs) @ take 32 (drop 88 bs) @ take 32 (drop 120 bs) @ take 32 (drop 152 bs) @
      take 32 (drop 184 bs) @ take 32 (drop 216 bs) @ take 8 (drop 248 bs) @ take 4 (drop 256 bs) @
      take 4 (drop 260 bs) @ take 4 (drop 264 bs) @ take 4 (drop 268 bs) @ take 8 (drop 272 bs) @
      take 8 (drop 280 bs) @ take 8 (drop 288 bs) @ take 8 (drop 296 bs) @ take 8 (drop 304 bs) @
      take 40 (drop 312 bs)"
    using cut [of 312 352] cut [of 304 312] cut [of 296 304] cut [of 288 296] cut [of 280 288]
      cut [of 272 280] cut [of 268 272] cut [of 264 268] cut [of 260 264] cut [of 256 260]
      cut [of 248 256] cut [of 216 248] cut [of 184 216] cut [of 152 184] cut [of 120 152]
      cut [of 88 120] cut [of 72 88] cut [of 56 72] cut [of 40 56] cut [of 24 40] cut [of 16 24]
      cut [of 12 16] cut [of 8 12]
    by simp
  have c: "pc_flags c = read_u64_le (drop 16 bs)" "pc_module_id c = id128_at bs 24"
    "pc_key_schema_id c = id128_at bs 40" "pc_value_schema_id c = id128_at bs 56"
    "pc_activation_epoch_id c = id128_at bs 72"
    "pc_activation_epoch_fingerprint c = digest256_at bs 88"
    "pc_module_contract_fingerprint c = digest256_at bs 120"
    "pc_source_fingerprint c = digest256_at bs 152" "pc_recipe_fingerprint c = digest256_at bs 184"
    "pc_dependency_fingerprint c = digest256_at bs 216"
    "pc_key_bytes c = read_u32_le (drop 256 bs)" "pc_value_bytes c = read_u32_le (drop 260 bs)"
    "pc_access_law c = read_u32_le (drop 268 bs)"
    using assms(6) by (auto simp: read_contract_def perfcache_constants)
  have id: "bytes (id128_at bs k) = take 16 (drop k bs)" if "k + 16 \<le> 352" for k
    using that assms(1) by (simp add: id128_at_def)
  have dg: "bytes (digest256_at bs k) = take 32 (drop k bs)" if "k + 32 \<le> 352" for k
    using that assms(1) by (simp add: digest256_at_def)
  have u32: "u32_le (read_u32_le (drop k bs)) = take 4 (drop k bs)" if "k + 4 \<le> 352" for k
    using that assms(1) by (intro u32_le_read) simp
  have u64: "u64_le (read_u64_le (drop k bs)) = take 8 (drop k bs)" if "k + 8 \<le> 352" for k
    using that assms(1) by (intro u64_le_read) simp
  note vals = assms(3,4,7-13)[unfolded perfcache_constants]
  have "u32_le 3 = take 4 (drop 8 bs)" "u32_le (of_nat 352) = take 4 (drop 12 bs)"
    "u64_le n = take 8 (drop 248 bs)" "u32_le st = take 4 (drop 264 bs)"
    "u64_le (of_nat 352) = take 8 (drop 272 bs)" "u64_le rb = take 8 (drop 280 bs)"
    "u64_le mo = take 8 (drop 288 bs)" "u64_le mb = take 8 (drop 296 bs)"
    "u64_le d = take 8 (drop 304 bs)"
    by (simp_all only: vals [symmetric]) (simp_all add: u32 u64)
  moreover have "replicate 40 0 = take 40 (drop 312 bs)"
    using assms(5) by (simp add: perfcache_constants)
  ultimately show ?thesis
    unfolding pieces header_layout_def c perfcache_constants
    using assms(2) by (simp add: id dg u32 u64)
qed

lemma contract_equal_iff: "contract_equal a b \<longleftrightarrow> a = b"
  by (auto simp: contract_equal_def intro: laplace_perfcache_contract.equality)

lemma sections_valid_iff:
  fixes bs :: "byte list"
  assumes "contract_valid c"
  defines "n \<equiv> read_u64_le (drop LAPLACE_PERFCACHE_OFFSET_RECORD_COUNT bs)"
    and "m \<equiv> read_u64_le (drop LAPLACE_PERFCACHE_OFFSET_METADATA_BYTES bs)"
  shows "sections_valid bs c \<longleftrightarrow>
     read_u32_le (drop LAPLACE_PERFCACHE_OFFSET_RECORD_STRIDE bs) = record_stride_of c \<and>
     layout_fits c n m \<and> length bs = unat n * stride_of c + unat m + 384 \<and>
     read_u64_le (drop LAPLACE_PERFCACHE_OFFSET_RECORDS bs) = of_nat LAPLACE_PERFCACHE_HEADER_BYTES \<and>
     read_u64_le (drop LAPLACE_PERFCACHE_OFFSET_RECORDS_BYTES bs) = of_nat (unat n * stride_of c) \<and>
     read_u64_le (drop LAPLACE_PERFCACHE_OFFSET_METADATA bs) = of_nat (352 + unat n * stride_of c) \<and>
     read_u64_le (drop LAPLACE_PERFCACHE_OFFSET_DIGEST bs)
       = of_nat (352 + unat n * stride_of c + unat m)"
    (is "_ = (?st = _ \<and> _ \<and> _ \<and> ?ro = _ \<and> ?rb = _ \<and> ?mo = _ \<and> ?d = _)")
proof (cases "?st = record_stride_of c")
  case True
  let ?r = "unat n * stride_of c"
  have s: "ucast (record_stride_of c) = (of_nat (stride_of c) :: u64)"
  proof -
    have "of_nat (unat (record_stride_of c)) = (ucast (record_stride_of c) :: u64)" by simp
    then show ?thesis by (simp only: unat_record_stride_of [OF assms(1)])
  qed
  have s': "unat (of_nat (stride_of c) :: u64) = stride_of c" "(of_nat (stride_of c) :: u64) \<noteq> 0"
    using stride_of_bounds [OF assms(1)]
    by (auto simp: unat_of_nat word_of_nat_eq_0_iff dest: nat_dvd_not_less)
  have q: "n > UINT64_MAX div of_nat (stride_of c) \<longleftrightarrow> 2 ^ 64 \<le> ?r"
    using above_quotient_iff [OF s'(2)] s'(1) by simp
  consider "2 ^ 64 \<le> ?r" | "?r < 2 ^ 64" "2 ^ 64 \<le> 352 + ?r"
    | "352 + ?r < 2 ^ 64" "2 ^ 64 \<le> 352 + ?r + unat m" | "352 + ?r + unat m < 2 ^ 64"
    by linarith
  then show ?thesis
  proof cases
    case 1
    with q True show ?thesis
      by (simp add: sections_valid_def Let_def s layout_fits_def n_def flip: record_stride_of_def)
  next
    case 2
    have "unat (n * of_nat (stride_of c)) = ?r"
      using 2 s' by (simp add: unat_word_ariths)
    then have "UINT64_MAX - 352 < n * of_nat (stride_of c)"
      using 2 below_difference_iff [of 352 "n * of_nat (stride_of c)"] by simp
    with 2 q True show ?thesis
      by (simp add: sections_valid_def Let_def s layout_fits_def n_def
          perfcache_constants flip: record_stride_of_def)
  next
    case 3
    have r: "unat (n * of_nat (stride_of c)) = ?r"
      using 3 s' by (simp add: unat_word_ariths)
    then have "unat (352 + n * of_nat (stride_of c)) = 352 + ?r"
      using 3 by (simp add: unat_word_ariths)
    then have "UINT64_MAX - (352 + n * of_nat (stride_of c)) < m"
      using 3 by (simp only: below_difference_iff)
    with 3 q True show ?thesis
      by (simp add: sections_valid_def Let_def s layout_fits_def n_def m_def
          perfcache_constants flip: record_stride_of_def)
  next
    case 4
    have r: "unat (n * of_nat (stride_of c)) = ?r"
      using 4 s' by (simp add: unat_word_ariths)
    then have h: "\<not> UINT64_MAX - 352 < n * of_nat (stride_of c)"
      using 4 below_difference_iff [of 352 "n * of_nat (stride_of c)"] by simp
    have hr: "unat (352 + n * of_nat (stride_of c)) = 352 + ?r"
      using 4 r by (simp add: unat_word_ariths)
    then have m: "\<not> UINT64_MAX - (352 + n * of_nat (stride_of c)) < m"
      using 4 by (simp only: below_difference_iff not_le)
    have hm: "unat (352 + n * of_nat (stride_of c) + m) = 352 + ?r + unat m"
      using 4 hr by (simp add: unat_word_ariths)
    have d: "UINT64_MAX - (352 + n * of_nat (stride_of c) + m) < 32 \<longleftrightarrow> 2 ^ 64 \<le> ?r + unat m + 384"
      using below_difference_iff [of "352 + n * of_nat (stride_of c) + m" 32] hm by simp
    have t: "\<not> 2 ^ 64 \<le> ?r + unat m + 384 \<Longrightarrow>
        unat (352 + n * of_nat (stride_of c) + m + 32) = ?r + unat m + 384"
      using hm unat_word_ariths(1) [of "352 + n * of_nat (stride_of c) + m" 32] by simp
    have q': "\<not> n > UINT64_MAX div of_nat (stride_of c)"
      using q 4 by simp
    have "sections_valid bs c \<longleftrightarrow>
        \<not> (UINT64_MAX - (352 + n * of_nat (stride_of c) + m) < 32 \<or>
           unat (352 + n * of_nat (stride_of c) + m + 32) \<noteq> length bs \<or>
           ?ro \<noteq> 352 \<or> ?rb \<noteq> n * of_nat (stride_of c) \<or>
           ?mo \<noteq> 352 + n * of_nat (stride_of c) \<or> ?d \<noteq> 352 + n * of_nat (stride_of c) + m)"
      unfolding sections_valid_def Let_def
      using True q' h m
      by (simp add: s n_def m_def perfcache_constants flip: record_stride_of_def)
    also have "\<dots> \<longleftrightarrow> layout_fits c n m \<and> length bs = ?r + unat m + 384 \<and> ?ro = 352 \<and>
        ?rb = n * of_nat (stride_of c) \<and> ?mo = 352 + n * of_nat (stride_of c) \<and>
        ?d = 352 + n * of_nat (stride_of c) + m"
      unfolding d using t assms(1) by (auto simp: layout_fits_def)
    finally show ?thesis using True by (simp add: perfcache_constants)
  qed
qed (simp add: sections_valid_def record_stride_of_def Let_def)

definition view_of ::
  "'h blake3_api \<Rightarrow> laplace_perfcache_contract \<Rightarrow> u64 \<Rightarrow> byte list \<Rightarrow> byte list
     \<Rightarrow> laplace_perfcache_view" where
  "view_of B c n recs meta =
     (let digest = blake3 B (artifact_body c n recs meta) in
      \<lparr>pv_contract = c, pv_artifact = artifact_of B c n recs meta,
       pv_artifact_bytes = length recs + length meta + 384,
       pv_records = recs @ meta @ bytes digest, pv_record_count = n,
       pv_record_stride = record_stride_of c, pv_metadata = meta @ bytes digest,
       pv_metadata_bytes = of_nat (length meta), pv_artifact_digest = digest\<rparr>)"

lemma validate_artifact:
  assumes "content_ok c n recs meta"
  shows "laplace_perfcache_validate B (Some (artifact_of B c n recs meta)) (Some c) (Some v)
    = (LAPLACE_PERFCACHE_OK, Some (view_of B c n recs meta))"
proof -
  let ?digest = "blake3 B (artifact_body c n recs meta)"
  let ?bs = "artifact_of B c n recs meta"
  have c: "contract_valid c" "length recs = unat n * stride_of c"
    "length recs + length meta + 384 < 2 ^ 64"
    and law: "records_access_law_valid recs n c (record_stride_of c) = LAPLACE_PERFCACHE_OK"
    using assms by (auto simp: content_ok_def)
  have bs: "?bs = header_layout c n (record_stride_of c) (of_nat (length recs))
       (of_nat (352 + length recs)) (of_nat (length meta)) (of_nat (352 + length recs + length meta)) @
       (recs @ meta @ bytes ?digest)"
    by (simp add: artifact_of_def artifact_body_def)
  note fields = header_fields [OF bs]
  have um: "unat (of_nat (length meta) :: u64) = length meta"
    "unat (of_nat (352 + length recs + length meta) :: u64) = 352 + length recs + length meta"
    "unat (of_nat (352 + length recs) :: u64) = 352 + length recs"
    "unat (of_nat LAPLACE_PERFCACHE_HEADER_BYTES :: u64) = 352"
    using c(3) by (simp_all add: unat_of_nat perfcache_constants del: of_nat_add)
  have sections: "sections_valid ?bs c"
    using c um by (simp add: sections_valid_iff fields layout_fits_def)
  have body: "take (352 + length recs + length meta) ?bs = artifact_body c n recs meta"
    and tail: "drop (352 + length recs + length meta) ?bs = bytes ?digest"
      "drop 352 ?bs = recs @ meta @ bytes ?digest"
      "drop (352 + length recs) ?bs = meta @ bytes ?digest"
    by (simp_all add: artifact_of_def) (simp_all add: artifact_body_def)
  have law': "records_access_law_valid (recs @ meta @ bytes ?digest) n c (record_stride_of c)
      = LAPLACE_PERFCACHE_OK"
    using c law access_law_append [of c recs n "meta @ bytes ?digest"] by simp
  have long: "\<not> length ?bs < LAPLACE_PERFCACHE_HEADER_BYTES + LAPLACE_PERFCACHE_DIGEST_BYTES"
    by (simp add: perfcache_constants)
  show ?thesis
    unfolding laplace_perfcache_validate_def
    using c(1) sections long
    by (simp add: fields um body tail law' contract_equal_iff bytes_zero_iff view_of_def
        Let_def digest256_at_def blake3_def [symmetric] LAPLACE_PERFCACHE_DIGEST_BYTES_def del: of_nat_add)
qed

lemma validate_OK:
  assumes "laplace_perfcache_validate B (Some bs) (Some c) (Some v) = (LAPLACE_PERFCACHE_OK, w)"
  shows "\<exists>n recs meta. content_ok c n recs meta \<and> bs = artifact_of B c n recs meta \<and>
           w = Some (view_of B c n recs meta)"
proof -
  define n where "n = read_u64_le (drop LAPLACE_PERFCACHE_OFFSET_RECORD_COUNT bs)"
  define m where "m = read_u64_le (drop LAPLACE_PERFCACHE_OFFSET_METADATA_BYTES bs)"
  define d where "d = read_u64_le (drop LAPLACE_PERFCACHE_OFFSET_DIGEST bs)"
  have cv: "contract_valid c"
    and len: "384 \<le> length bs"
    and magic: "memcmp (take 8 bs) laplace_perfcache_magic = 0"
    and ver: "read_u32_le (drop LAPLACE_PERFCACHE_OFFSET_VERSION bs) = LAPLACE_PERFCACHE_FORMAT_VERSION"
    and hb: "read_u32_le (drop LAPLACE_PERFCACHE_OFFSET_HEADER_BYTES bs)
       = of_nat LAPLACE_PERFCACHE_HEADER_BYTES"
    and pad: "bytes_zero (take (LAPLACE_PERFCACHE_HEADER_BYTES - LAPLACE_PERFCACHE_OFFSET_RESERVED)
       (drop LAPLACE_PERFCACHE_OFFSET_RESERVED bs))"
    and actual: "read_contract bs = c"
    and sections: "sections_valid bs c"
    and dig: "memcmp (bytes (blake3 B (take (unat d) bs))) (take 32 (drop (unat d) bs)) = 0"
    and law: "records_access_law_valid
       (drop (unat (read_u64_le (drop LAPLACE_PERFCACHE_OFFSET_RECORDS bs))) bs) n c
       (read_u32_le (drop LAPLACE_PERFCACHE_OFFSET_RECORD_STRIDE bs)) = LAPLACE_PERFCACHE_OK"
    using assms unfolding laplace_perfcache_validate_def n_def d_def
    by (auto simp: Let_def contract_equal_iff blake3_def perfcache_constants split: if_splits)
  let ?r = "unat n * stride_of c"
  have sec: "read_u32_le (drop LAPLACE_PERFCACHE_OFFSET_RECORD_STRIDE bs) = record_stride_of c"
    "layout_fits c n m" "length bs = ?r + unat m + 384"
    "read_u64_le (drop LAPLACE_PERFCACHE_OFFSET_RECORDS bs) = of_nat LAPLACE_PERFCACHE_HEADER_BYTES"
    "read_u64_le (drop LAPLACE_PERFCACHE_OFFSET_RECORDS_BYTES bs) = of_nat ?r"
    "read_u64_le (drop LAPLACE_PERFCACHE_OFFSET_METADATA bs) = of_nat (352 + ?r)"
    "d = of_nat (352 + ?r + unat m)"
    using sections [unfolded sections_valid_iff [OF cv], folded n_def m_def d_def] by blast+
  define recs where "recs = take ?r (drop 352 bs)"
  define meta where "meta = take (unat m) (drop (352 + ?r) bs)"
  have lens: "length recs = ?r" "length meta = unat m" "of_nat (length meta) = m"
    using sec(3) by (simp_all add: recs_def meta_def)
  have small: "length recs + length meta + 384 < 2 ^ 64"
    using sec(2) lens by (simp add: layout_fits_def)
  have ud: "unat d = 352 + length recs + length meta"
    using small lens unfolding sec(7) by (simp add: unat_of_nat del: of_nat_add)
  have "take 8 bs = laplace_perfcache_magic"
    using magic len by (simp add: memcmp_eq_0_iff)
  moreover have "take (LAPLACE_PERFCACHE_HEADER_BYTES - LAPLACE_PERFCACHE_OFFSET_RESERVED)
       (drop LAPLACE_PERFCACHE_OFFSET_RESERVED bs) = replicate 40 0"
    using pad len replicate_length_same [of "take 40 (drop 312 bs)" 0]
    by (simp add: bytes_zero_iff perfcache_constants)
  ultimately have head: "take 352 bs = header_layout c n (record_stride_of c) (of_nat (length recs))
       (of_nat (352 + length recs)) (of_nat (length meta)) (of_nat (352 + length recs + length meta))"
    using len lens sec
    by (intro header_canonical [OF _ _ ver hb _ actual n_def [symmetric] sec(1) sec(4)])
      (auto simp: m_def [symmetric] d_def [symmetric])
  have split: "drop 352 bs = recs @ meta @ drop (unat d) bs"
  proof -
    have "xs = take k xs @ take l (drop k xs) @ drop l (drop k xs)" for xs :: "byte list" and k l
      by (simp del: drop_drop)
    from this [of "drop 352 bs" "?r" "unat m"]
    have "drop 352 bs = recs @ meta @ drop (352 + ?r + unat m) bs"
      by (simp add: recs_def meta_def add.commute add.left_commute)
    then show ?thesis by (simp only: ud lens(1,2))
  qed
  have "take (unat d) bs = take 352 bs @ take (?r + unat m) (drop 352 bs)"
    using lens by (simp add: ud add.assoc flip: take_add)
  then have body: "take (unat d) bs = artifact_body c n recs meta"
    using lens unfolding split by (simp add: artifact_body_def head)
  have "length (drop (unat d) bs) = 32"
    using sec(3) lens ud by simp
  then have tail: "drop (unat d) bs = bytes (blake3 B (artifact_body c n recs meta))"
    using dig body by (simp add: memcmp_eq_0_iff)
  have "bs = artifact_of B c n recs meta"
    unfolding artifact_of_def using body tail by (metis append_take_drop_id)
  moreover have "content_ok c n recs meta"
  proof -
    have "unat (of_nat LAPLACE_PERFCACHE_HEADER_BYTES :: u64) = 352"
      by (simp add: perfcache_constants)
    then have "records_access_law_valid recs n c (record_stride_of c) = LAPLACE_PERFCACHE_OK"
      using law access_law_append [OF cv, of recs n "meta @ drop (unat d) bs"] lens small split
      by (simp add: sec)
    with cv lens small show ?thesis by (simp add: content_ok_def)
  qed
  ultimately show ?thesis
    using assms validate_artifact [of c n recs meta B v] by auto
qed

text \<open>C15: an artifact is accepted under a contract exactly when it is the encoding of some
  record count, records and metadata that obey the contract's sizes and access law, and the view
  that comes out describes exactly those: nothing else passes, whatever its bytes are.\<close>

theorem perfcache_validate_iff:
  "laplace_perfcache_validate B (Some bs) (Some c) (Some v) = (LAPLACE_PERFCACHE_OK, Some w)
   \<longleftrightarrow> (\<exists>n recs meta. content_ok c n recs meta \<and> bs = artifact_of B c n recs meta \<and>
          w = view_of B c n recs meta)"
  by (auto simp: validate_artifact dest!: validate_OK)

text \<open>C16: a specification that can be read and is written without error validates under the same
  contract, and the view gives back its count, records and metadata; what follows the artifact in
  the buffer is left as it was.\<close>

theorem perfcache_write_validate:
  assumes "spec_readable s"
    and "laplace_perfcache_write B (Some s) (Some buffer) (Some x)
           = (LAPLACE_PERFCACHE_OK, Some out, Some used)"
  shows "drop used out = drop used buffer \<and>
    (\<exists>w. laplace_perfcache_validate B (Some (take used out)) (Some (ps_contract s)) (Some v)
            = (LAPLACE_PERFCACHE_OK, Some w) \<and>
         pv_record_count w = ps_record_count s \<and> pv_metadata_bytes w = ps_metadata_bytes s \<and>
         take (length (spec_records s)) (pv_records w) = spec_records s \<and>
         take (length (spec_metadata s)) (pv_metadata w) = spec_metadata s)"
proof -
  let ?c = "ps_contract s" and ?n = "ps_record_count s"
  let ?recs = "spec_records s" and ?meta = "spec_metadata s"
  have ok: "contract_valid ?c" "spec_size s < 2 ^ 64" "spec_size s \<le> length buffer"
    "records_access_law_valid ?recs ?n ?c (record_stride_of ?c) = LAPLACE_PERFCACHE_OK"
    and out: "out = artifact_of B ?c ?n ?recs ?meta @ drop (spec_size s) buffer"
    "used = spec_size s"
    using assms(2) perfcache_write_exact [OF assms(1), of B buffer x] by (auto split: if_splits)
  have len: "length ?recs = unat ?n * stride_of ?c" "length ?meta = unat (ps_metadata_bytes s)"
    using assms(1) by (simp_all add: spec_readable_def)
  then have size: "spec_size s = length ?recs + length ?meta + 384"
    by (simp add: spec_size_def)
  have "content_ok ?c ?n ?recs ?meta"
    using ok len size by (simp add: content_ok_def)
  then have "laplace_perfcache_validate B (Some (take used out)) (Some ?c) (Some v)
      = (LAPLACE_PERFCACHE_OK, Some (view_of B ?c ?n ?recs ?meta))"
    using out size by (simp add: validate_artifact)
  moreover have "drop used out = drop used buffer"
    using out size by simp
  ultimately show ?thesis
    using len by (simp add: view_of_def Let_def)
qed

text \<open>The contract with the reference epoch and dependency in place of the actual ones.\<close>

definition referenced ::
  "laplace_perfcache_contract \<Rightarrow> laplace_id128 \<Rightarrow> laplace_digest256 \<Rightarrow> laplace_digest256
     \<Rightarrow> laplace_perfcache_contract" where
  "referenced c epoch fingerprint dependency =
     c\<lparr>pc_activation_epoch_id := epoch, pc_activation_epoch_fingerprint := fingerprint,
       pc_dependency_fingerprint := dependency\<rparr>"

lemma referenced_header:
  "memcpy_all
     [(LAPLACE_PERFCACHE_OFFSET_ACTIVATION_EPOCH_ID, bytes e),
      (LAPLACE_PERFCACHE_OFFSET_ACTIVATION_EPOCH_FINGERPRINT, bytes f),
      (LAPLACE_PERFCACHE_OFFSET_DEPENDENCY_FINGERPRINT, bytes d)]
     (header_layout c n st rb mo mb dg)
   = header_layout (referenced c e f d) n st rb mo mb dg"
  by (simp add: memcpy_at_def header_layout_def referenced_def perfcache_constants)

lemma referenced_simps [simp]:
  "stride_of (referenced c e f d) = stride_of c"
  "record_stride_of (referenced c e f d) = record_stride_of c"
  "contract_valid (referenced c e f d) = contract_valid c"
  "records_access_law_valid recs n (referenced c e f d) st = records_access_law_valid recs n c st"
  "content_ok (referenced c e f d) n recs meta = content_ok c n recs meta"
proof -
  show st: "stride_of (referenced c e f d) = stride_of c"
    "record_stride_of (referenced c e f d) = record_stride_of c"
    by (simp_all add: referenced_def stride_of_def record_stride_of_def)
  show cv: "contract_valid (referenced c e f d) = contract_valid c"
    unfolding contract_valid_iff st by (simp add: referenced_def)
  show law: "records_access_law_valid recs n (referenced c e f d) st'
      = records_access_law_valid recs n c st'" for st'
    by (simp add: referenced_def records_access_law_valid_def)
  show "content_ok (referenced c e f d) n recs meta = content_ok c n recs meta"
    by (simp add: content_ok_def st cv law)
qed

text \<open>C19: the reference digest of an accepted artifact is the digest that the same records and
  metadata would carry in an artifact sealed under the reference epoch and dependency, and that
  artifact would itself be accepted under the changed contract.\<close>

theorem reference_digest_is_resealed:
  fixes c :: laplace_perfcache_contract and epoch :: laplace_id128
    and fingerprint dependency :: laplace_digest256
  assumes "blake3_streaming B"
    and "laplace_perfcache_validate B (Some bs) (Some c) (Some v) = (LAPLACE_PERFCACHE_OK, Some w)"
  defines "c' \<equiv> referenced c epoch fingerprint dependency"
  shows "\<exists>n recs meta. bs = artifact_of B c n recs meta \<and>
     laplace_perfcache_validate B (Some (artifact_of B c' n recs meta)) (Some c') (Some v)
       = (LAPLACE_PERFCACHE_OK, Some (view_of B c' n recs meta)) \<and>
     laplace_perfcache_reference_epoch_digest B (Some bs) (Some c) (Some epoch) (Some fingerprint)
         (Some dependency) (Some x)
       = (LAPLACE_PERFCACHE_OK, Some (pv_artifact_digest (view_of B c' n recs meta)))"
proof -
  obtain n recs meta where ok: "content_ok c n recs meta" and bs: "bs = artifact_of B c n recs meta"
    using validate_OK [OF assms(2)] by blast
  define head where "head k = header_layout k n (record_stride_of c) (of_nat (length recs))
    (of_nat (352 + length recs)) (of_nat (length meta)) (of_nat (352 + length recs + length meta))" for k
  have body: "artifact_body c n recs meta = head c @ recs @ meta"
    "artifact_body c' n recs meta = head c' @ recs @ meta"
    by (simp_all add: artifact_body_def head_def c'_def)
  have split: "take LAPLACE_PERFCACHE_HEADER_BYTES bs = head c"
    "take (length bs - LAPLACE_PERFCACHE_HEADER_BYTES - LAPLACE_PERFCACHE_DIGEST_BYTES)
      (drop LAPLACE_PERFCACHE_HEADER_BYTES bs) = recs @ meta"
    by (simp_all add: bs perfcache_constants) (simp_all add: artifact_of_def body head_def)
  have patched: "memcpy_all
     [(LAPLACE_PERFCACHE_OFFSET_ACTIVATION_EPOCH_ID, bytes epoch),
      (LAPLACE_PERFCACHE_OFFSET_ACTIVATION_EPOCH_FINGERPRINT, bytes fingerprint),
      (LAPLACE_PERFCACHE_OFFSET_DEPENDENCY_FINGERPRINT, bytes dependency)] (head c) = head c'"
    unfolding head_def c'_def by (rule referenced_header)
  have "fst (laplace_perfcache_validate B (Some bs) (Some c) (Some perfcache_view_local))
      = LAPLACE_PERFCACHE_OK"
    using ok by (simp add: bs validate_artifact)
  then have "laplace_perfcache_reference_epoch_digest B (Some bs) (Some c) (Some epoch)
      (Some fingerprint) (Some dependency) (Some x)
      = (LAPLACE_PERFCACHE_OK, Some (blake3 B (artifact_body c' n recs meta)))"
    unfolding laplace_perfcache_reference_epoch_digest_def Let_def
    by (simp only: option.sel split patched finalize_updates [OF assms(1)]) (simp add: body)
  moreover have "content_ok c' n recs meta"
    using ok by (simp add: c'_def)
  ultimately show ?thesis
    by (intro exI [of _ n] exI [of _ recs] exI [of _ meta] conjI bs validate_artifact)
      (simp_all add: view_of_def Let_def)
qed

section \<open>A sample artifact\<close>

definition sample_contract :: laplace_perfcache_contract where
  "sample_contract =
     \<lparr>pc_module_id = 0, pc_key_schema_id = 0, pc_value_schema_id = 0, pc_activation_epoch_id = 0,
      pc_activation_epoch_fingerprint = 0, pc_module_contract_fingerprint = 0,
      pc_source_fingerprint = 0, pc_recipe_fingerprint = 0, pc_dependency_fingerprint = 0,
      pc_key_bytes = 4, pc_value_bytes = 1,
      pc_access_law = LAPLACE_PERFCACHE_ACCESS_DENSE_U32_ZERO_BASED, pc_flags = 0\<rparr>"

definition sample_records :: "byte list" where
  "sample_records = [0, 0, 0, 0, 7, 1, 0, 0, 0, 9]"

definition sample_spec :: laplace_perfcache_spec where
  "sample_spec =
     \<lparr>ps_contract = sample_contract, ps_records = Some sample_records, ps_record_count = 2,
      ps_metadata = Some [5], ps_metadata_bytes = 1\<rparr>"

lemma sample_stride: "stride_of sample_contract = 5"
  by (simp add: stride_of_def sample_contract_def)

lemma length_sample_records: "length sample_records = 10"
  by (simp add: sample_records_def)

lemma sample_law:
  "records_access_law_valid sample_records 2 sample_contract (record_stride_of sample_contract)
     = LAPLACE_PERFCACHE_OK"
  by code_simp

lemma sample_contract_valid: "contract_valid sample_contract"
  by code_simp

lemma sample_content_ok: "content_ok sample_contract 2 sample_records [5]"
  using sample_law sample_contract_valid
  by (simp add: content_ok_def sample_stride) (simp add: sample_records_def)

lemma sample_spec_simps:
  "spec_records sample_spec = sample_records" "spec_metadata sample_spec = [5]"
  "ps_contract sample_spec = sample_contract" "ps_record_count sample_spec = 2"
  "spec_readable sample_spec" "spec_size sample_spec = 395"
  by (simp_all add: spec_records_def spec_metadata_def spec_readable_def spec_size_def sample_spec_def
      sample_stride sample_records_def)

lemma sample_written:
  "laplace_perfcache_write sample_blake3 (Some sample_spec) (Some (replicate 400 0)) (Some 0)
   = (LAPLACE_PERFCACHE_OK,
      Some (artifact_of sample_blake3 sample_contract 2 sample_records [5] @ replicate 5 0), Some 395)"
  using perfcache_write_exact [of sample_spec sample_blake3 "replicate 400 0" 0] sample_law
    sample_contract_valid
  by (simp add: sample_spec_simps drop_replicate)

lemma perfcache_write_validate_witness:
  "\<exists>w. laplace_perfcache_validate sample_blake3
          (Some (take 395 (artifact_of sample_blake3 sample_contract 2 sample_records [5] @
             replicate 5 0))) (Some sample_contract) (Some perfcache_view_local)
        = (LAPLACE_PERFCACHE_OK, Some w) \<and>
      pv_record_count w = 2 \<and> take 10 (pv_records w) = sample_records"
  using perfcache_write_validate [OF sample_spec_simps(5) sample_written, of perfcache_view_local]
  by (auto simp: sample_spec_simps length_sample_records)

lemma reference_digest_is_resealed_witness:
  "\<exists>n recs meta. artifact_of sample_blake3 sample_contract 2 sample_records [5]
        = artifact_of sample_blake3 sample_contract n recs meta \<and>
     laplace_perfcache_reference_epoch_digest sample_blake3
         (Some (artifact_of sample_blake3 sample_contract 2 sample_records [5]))
         (Some sample_contract) (Some 0) (Some (sample_digest [1])) (Some (sample_digest [2])) (Some 0)
       = (LAPLACE_PERFCACHE_OK, Some (pv_artifact_digest (view_of sample_blake3
           (referenced sample_contract 0 (sample_digest [1]) (sample_digest [2])) n recs meta)))"
  using reference_digest_is_resealed [OF sample_blake3_streaming
      validate_artifact [OF sample_content_ok, of sample_blake3 perfcache_view_local],
      of 0 "sample_digest [1]" "sample_digest [2]" 0]
  by blast

end
