(* ===== verification/Perfcache_Lookup.thy ===== *)
theory Perfcache_Lookup
  imports Perfcache_Codec
begin

text \<open>
  Reading a performance cache through its validated view (\<open>engine/src/perfcache.c\<close>): the batch
  lookup, by index under the dense law and by binary search under the sorted law, and the
  traversal of the records by a caller's validator.  The lemmas show that a lookup in a validated
  view finds a key exactly when some record has it, that it never reads outside the artifact, and
  that the traversal stops at the first rejected record.
\<close>

section \<open>Operations\<close>

text \<open>\<open>low\<close>, \<open>high\<close> and \<open>middle\<close> stay below \<open>record_count\<close>, so their sums do not wrap.\<close>

function lookup_loop ::
  "byte list \<Rightarrow> byte list \<Rightarrow> u32 \<Rightarrow> u32 \<Rightarrow> nat \<Rightarrow> nat \<Rightarrow> nat" where
  "lookup_loop key records key_bytes record_stride low high =
     (if low < high then
        let middle = low + (high - low) div 2;
            comparison = memcmp (take (unat key_bytes) key)
              (key_at records middle key_bytes record_stride) in
        if comparison > 0
        then lookup_loop key records key_bytes record_stride (middle + 1) high
        else lookup_loop key records key_bytes record_stride low middle
      else low)"
  by pat_completeness auto
termination
  by (relation "measure (\<lambda>(key, records, key_bytes, record_stride, low, high). high - low)") auto

declare lookup_loop.simps [simp del]

text \<open>One key: the index written and the byte written to \<open>found\<close>.\<close>

definition lookup_one :: "laplace_perfcache_view \<Rightarrow> byte list \<Rightarrow> u64 \<times> byte" where
  "lookup_one view key =
     (if pc_access_law (pv_contract view) = LAPLACE_PERFCACHE_ACCESS_DENSE_U32_ZERO_BASED then
        let index = ucast (read_u32_le key) in
        if index < pv_record_count view then (index, 1) else (UINT64_MAX, 0)
      else
        let key_bytes = pc_key_bytes (pv_contract view);
            low = lookup_loop key (pv_records view) key_bytes (pv_record_stride view)
                    0 (unat (pv_record_count view)) in
        if low < unat (pv_record_count view) \<and>
           memcmp (take (unat key_bytes) key)
             (key_at (pv_records view) low key_bytes (pv_record_stride view)) = 0
        then (of_nat low, 1) else (UINT64_MAX, 0))"

definition key_pointer :: "byte list \<Rightarrow> nat \<Rightarrow> u32 \<Rightarrow> byte list" where
  "key_pointer keys key_index key_bytes = drop (key_index * unat key_bytes) keys"

fun lookup_keys ::
  "laplace_perfcache_view \<Rightarrow> byte list \<Rightarrow> nat list \<Rightarrow> u64 list \<times> byte list
     \<Rightarrow> laplace_perfcache_status \<times> u64 list \<times> byte list" where
  "lookup_keys view keys [] (record_indexes, found) = (LAPLACE_PERFCACHE_OK, record_indexes, found)"
| "lookup_keys view keys (key_index # rest) (record_indexes, found) =
     (let law = pc_access_law (pv_contract view);
          key = key_pointer keys key_index (pc_key_bytes (pv_contract view)) in
      if law \<noteq> LAPLACE_PERFCACHE_ACCESS_DENSE_U32_ZERO_BASED \<and>
         law \<noteq> LAPLACE_PERFCACHE_ACCESS_SORTED_UNIQUE_FIXED
      then (LAPLACE_PERFCACHE_INVALID_ARGUMENT, record_indexes, found)
      else
        let (index, hit) = lookup_one view key in
        lookup_keys view keys rest (record_indexes[key_index := index], found[key_index := hit]))"

definition stride_consistent :: "laplace_perfcache_view \<Rightarrow> bool" where
  "stride_consistent view \<longleftrightarrow>
     contract_valid (pv_contract view) \<and>
     pv_record_stride view = pc_key_bytes (pv_contract view) + pc_value_bytes (pv_contract view)"

definition laplace_perfcache_lookup_batch ::
  "laplace_perfcache_view option \<Rightarrow> byte list option \<Rightarrow> nat \<Rightarrow> u64 list option \<Rightarrow> byte list option
     \<Rightarrow> laplace_perfcache_status \<times> u64 list option \<times> byte list option" where
  "laplace_perfcache_lookup_batch view keys key_count record_indexes found =
     (if view = None \<or>
         key_count \<noteq> 0 \<and> (keys = None \<or> record_indexes = None \<or> found = None)
      then (LAPLACE_PERFCACHE_INVALID_ARGUMENT, record_indexes, found)
      else if \<not> stride_consistent (the view)
      then (LAPLACE_PERFCACHE_INVALID_ARGUMENT, record_indexes, found)
      else if pc_access_law (pv_contract (the view)) = LAPLACE_PERFCACHE_ACCESS_MODULE_DEFINED
      then (LAPLACE_PERFCACHE_LOOKUP_UNSUPPORTED, record_indexes, found)
      else if key_count \<noteq> 0 \<and>
              key_count > SIZE_MAX div unat (pc_key_bytes (pv_contract (the view)))
      then (LAPLACE_PERFCACHE_INVALID_ARGUMENT, record_indexes, found)
      else if key_count = 0 then (LAPLACE_PERFCACHE_OK, record_indexes, found)
      else
        case lookup_keys (the view) (the keys) [0..<key_count] (the record_indexes, the found) of
          (status, indexes, hits) \<Rightarrow> (status, Some indexes, Some hits))"

text \<open>The validator takes the world it may change in place of its \<open>context\<close> pointer.\<close>

type_synonym 'w laplace_perfcache_record_validator =
  "'w \<Rightarrow> u64 \<Rightarrow> byte list \<Rightarrow> u32 \<Rightarrow> laplace_perfcache_status \<times> 'w"

fun validate_records_loop ::
  "laplace_perfcache_view \<Rightarrow> 'w laplace_perfcache_record_validator \<Rightarrow> 'w \<Rightarrow> nat list
     \<Rightarrow> laplace_perfcache_status \<times> u64 \<times> 'w" where
  "validate_records_loop view validator world [] = (LAPLACE_PERFCACHE_OK, UINT64_MAX, world)"
| "validate_records_loop view validator world (record_index # rest) =
     (case validator world (of_nat record_index)
             (record_at (pv_records view) record_index (pv_record_stride view))
             (pv_record_stride view) of
        (status, world') \<Rightarrow>
          if status \<noteq> LAPLACE_PERFCACHE_OK then (status, of_nat record_index, world')
          else validate_records_loop view validator world' rest)"

definition laplace_perfcache_validate_records ::
  "laplace_perfcache_view option \<Rightarrow> 'w laplace_perfcache_record_validator option \<Rightarrow> 'w
     \<Rightarrow> u64 option \<Rightarrow> laplace_perfcache_status \<times> u64 option \<times> 'w" where
  "laplace_perfcache_validate_records view validator world invalid_record_index =
     (if view = None \<or> validator = None \<or> invalid_record_index = None \<or>
         \<not> stride_consistent (the view)
      then (LAPLACE_PERFCACHE_INVALID_ARGUMENT, invalid_record_index, world)
      else
        case validate_records_loop (the view) (the validator) world
               [0..<unat (pv_record_count (the view))] of
          (status, index, world') \<Rightarrow> (status, Some index, world'))"

section \<open>Views of accepted artifacts\<close>

lemma view_of_simps [simp]:
  "pv_contract (view_of B c n recs meta) = c"
  "pv_record_count (view_of B c n recs meta) = n"
  "pv_record_stride (view_of B c n recs meta) = record_stride_of c"
  "pv_artifact (view_of B c n recs meta) = artifact_of B c n recs meta"
  "pv_records (view_of B c n recs meta)
     = recs @ meta @ bytes (blake3 B (artifact_body c n recs meta))"
  "pv_metadata (view_of B c n recs meta)
     = meta @ bytes (blake3 B (artifact_body c n recs meta))"
  "pv_metadata_bytes (view_of B c n recs meta) = of_nat (length meta)"
  by (simp_all add: view_of_def Let_def)

lemma view_key_at:
  assumes "content_ok c n recs meta" "index < unat n"
  shows "key_at (pv_records (view_of B c n recs meta)) index (pc_key_bytes c) (record_stride_of c)
       = key_at recs index (pc_key_bytes c) (record_stride_of c)"
    and "length (key_at recs index (pc_key_bytes c) (record_stride_of c)) = unat (pc_key_bytes c)"
proof -
  have ok: "contract_valid c" "length recs = unat n * stride_of c" "length recs < 2 ^ 64"
    using assms(1) by (auto simp: content_ok_def)
  show "key_at (pv_records (view_of B c n recs meta)) index (pc_key_bytes c) (record_stride_of c)
       = key_at recs index (pc_key_bytes c) (record_stride_of c)"
    using key_at_append [OF ok assms(2)] by simp
  show "length (key_at recs index (pc_key_bytes c) (record_stride_of c)) = unat (pc_key_bytes c)"
    using record_at_append(2) [OF ok assms(2)] by (simp add: key_at_def stride_of_def)
qed

section \<open>The order of keys\<close>

lemma memcmp_less_trans:
  assumes "length x = length y" "length y = length z" "memcmp x y < 0" "memcmp y z \<le> 0"
  shows "memcmp x z < 0"
proof -
  have "memcmp x z \<le> 0"
    using assms memcmp_trans [of x y z] by simp
  moreover have "memcmp x z \<noteq> 0"
  proof
    assume "memcmp x z = 0"
    then have "x = z" using assms by (simp add: memcmp_eq_0_iff)
    then show False using assms(3,4) memcmp_swap [of x y] by simp
  qed
  ultimately show ?thesis by simp
qed

lemma sorted_keys:
  assumes "records_sorted_unique recs n kb st"
    and len: "\<And>i. i < unat n \<Longrightarrow> length (key_at recs i kb st) = unat kb"
    and "i < j" "j < unat n"
  shows "memcmp (key_at recs i kb st) (key_at recs j kb st) < 0"
  using assms(3,4)
proof (induction j)
  case (Suc j)
  have step: "memcmp (key_at recs j kb st) (key_at recs (Suc j) kb st) < 0"
    using assms(1) Suc.prems(2) unfolding records_sorted_unique_def list_all_iff
    by (auto dest!: bspec [where x = "Suc j"])
  show ?case
  proof (cases "i = j")
    case False
    with Suc have "memcmp (key_at recs i kb st) (key_at recs j kb st) < 0" by simp
    with step show ?thesis
      using memcmp_less_trans [of "key_at recs i kb st" "key_at recs j kb st"] len Suc.prems
      by simp
  qed (use step in simp)
qed simp

text \<open>The binary search returns the first record that is not below the key.\<close>

lemma lookup_loop_lower_bound:
  fixes key records :: "byte list" and kb st :: u32
  defines "P \<equiv> \<lambda>i. memcmp (take (unat kb) key) (key_at records i kb st) > 0"
  assumes mono: "\<And>i j. i < j \<Longrightarrow> j < n \<Longrightarrow> P j \<Longrightarrow> P i"
    and "low \<le> high" "high \<le> n" "\<forall>i<low. P i" "\<forall>i. high \<le> i \<and> i < n \<longrightarrow> \<not> P i"
  defines "r \<equiv> lookup_loop key records kb st low high"
  shows "r \<le> n \<and> (\<forall>i<r. P i) \<and> (\<forall>i. r \<le> i \<and> i < n \<longrightarrow> \<not> P i)"
  using assms(3-6) unfolding r_def
proof (induction "high - low" arbitrary: low high rule: less_induct)
  case less
  show ?case
  proof (cases "low < high")
    case True
    define m where "m = low + (high - low) div 2"
    have m: "low \<le> m" "m < high" using True by (auto simp: m_def)
    show ?thesis
    proof (cases "P m")
      case True
      have "P i" if "i < m + 1" for i
        using that True mono [of i m] m less.prems(2) by (cases "i = m") auto
      then have below: "\<forall>i<m + 1. P i" by blast
      have eq: "lookup_loop key records kb st low high = lookup_loop key records kb st (m + 1) high"
        using True \<open>low < high\<close>
        by (subst lookup_loop.simps) (simp add: Let_def m_def [symmetric] P_def)
      have "high - (m + 1) < high - low" "m + 1 \<le> high" using m by auto
      from less.hyps [OF this less.prems(2) below less.prems(4)] show ?thesis
        unfolding eq .
    next
      case False
      have above: "\<forall>i. m \<le> i \<and> i < n \<longrightarrow> \<not> P i"
        using False mono [of m] by (auto simp: le_less)
      have eq: "lookup_loop key records kb st low high = lookup_loop key records kb st low m"
        using False \<open>low < high\<close>
        by (subst lookup_loop.simps) (simp add: Let_def m_def [symmetric] P_def)
      have "m - low < high - low" "m \<le> n" using m less.prems(2) by auto
      from less.hyps [OF this(1) m(1) this(2) less.prems(3) above] show ?thesis
        unfolding eq .
    qed
  next
    case False
    then have "high = low" "lookup_loop key records kb st low high = low"
      using less.prems(1) by (auto simp: lookup_loop.simps)
    with less.prems show ?thesis by simp
  qed
qed

lemma length_4_read_inject:
  assumes "length xs = 4" "length ys = 4"
  shows "read_u32_le xs = read_u32_le ys \<longleftrightarrow> xs = ys"
proof
  assume "read_u32_le xs = read_u32_le ys"
  then have "u32_le (read_u32_le xs) = u32_le (read_u32_le ys)" by simp
  then show "xs = ys" using assms by (simp add: u32_le_read)
qed simp

lemma read_u32_le_take: "4 \<le> length bs \<Longrightarrow> read_u32_le (take 4 bs) = read_u32_le bs"
  by (simp add: read_u32_le_def)

section \<open>One key\<close>

text \<open>What a lookup of one key has to return: the index of the one record with that key, or the
  mark of a missing key when no record has it.\<close>

definition lookup_meets :: "laplace_perfcache_view \<Rightarrow> byte list \<Rightarrow> u64 \<times> byte \<Rightarrow> bool" where
  "lookup_meets w k result \<longleftrightarrow>
     (let key = (\<lambda>j. key_at (pv_records w) j (pc_key_bytes (pv_contract w)) (pv_record_stride w)) in
      if \<exists>j < unat (pv_record_count w). key j = k
      then snd result = 1 \<and> unat (fst result) < unat (pv_record_count w) \<and>
           (\<forall>j < unat (pv_record_count w). key j = k \<longleftrightarrow> j = unat (fst result))
      else result = (UINT64_MAX, 0))"

lemma lookup_one_sorted:
  assumes "content_ok c n recs meta"
    and "pc_access_law c = LAPLACE_PERFCACHE_ACCESS_SORTED_UNIQUE_FIXED"
    and "unat (pc_key_bytes c) \<le> length key"
  shows "lookup_meets (view_of B c n recs meta) (take (unat (pc_key_bytes c)) key)
           (lookup_one (view_of B c n recs meta) key)"
proof -
  let ?w = "view_of B c n recs meta" and ?kb = "pc_key_bytes c" and ?st = "record_stride_of c"
  let ?key = "\<lambda>j. key_at (pv_records ?w) j ?kb ?st"
  define k where "k = take (unat ?kb) key"
  define r where "r = lookup_loop key (pv_records ?w) ?kb ?st 0 (unat n)"
  have lk: "length k = unat ?kb" using assms(3) by (simp add: k_def)
  have len: "length (?key j) = unat ?kb" if "j < unat n" for j
    using view_key_at(1) [OF assms(1) that, of B] view_key_at(2) [OF assms(1) that] by simp
  have sorted: "memcmp (?key i) (?key j) < 0" if "i < j" "j < unat n" for i j
  proof -
    have "records_sorted_unique recs n ?kb ?st"
      using assms(1,2) that by (auto simp: content_ok_def records_access_law_valid_def
          perfcache_constants split: if_splits)
    then show ?thesis
      using that view_key_at(1) [OF assms(1), of i B] view_key_at(1) [OF assms(1), of j B]
        sorted_keys [of recs n ?kb ?st i j] view_key_at(2) [OF assms(1)] by simp
  qed
  have mono: "memcmp k (?key i) > 0" if "i < j" "j < unat n" "memcmp k (?key j) > 0" for i j
    using memcmp_less_trans [of "?key i" "?key j" k] sorted [OF that(1,2)] that len lk
      memcmp_swap [of k "?key i"] memcmp_swap [of k "?key j"] by simp
  have "r \<le> unat n \<and> (\<forall>i<r. memcmp k (?key i) > 0) \<and>
      (\<forall>i. r \<le> i \<and> i < unat n \<longrightarrow> \<not> memcmp k (?key i) > 0)"
    unfolding r_def k_def
  proof (rule lookup_loop_lower_bound)
    fix i j
    assume "i < j" "j < unat n" "memcmp (take (unat ?kb) key) (?key j) > 0"
    then show "memcmp (take (unat ?kb) key) (?key i) > 0"
      using mono unfolding k_def by blast
  qed simp_all
  then have r: "r \<le> unat n" "\<forall>i<r. memcmp k (?key i) > 0"
    "\<forall>i. r \<le> i \<and> i < unat n \<longrightarrow> \<not> memcmp k (?key i) > 0"
    by blast+
  have hit: "r = j" if "j < unat n" "?key j = k" for j
  proof -
    have "r \<le> j" using r(2) that(2) by (metis memcmp_refl less_irrefl not_le)
    moreover have "\<not> r < j"
      using r(3) sorted [of r j] that memcmp_swap [of k "?key r"] by auto
    ultimately show ?thesis using that by simp
  qed
  have cmp: "memcmp k (?key r) = 0 \<longleftrightarrow> ?key r = k" if "r < unat n"
    using memcmp_eq_0_iff [of k "?key r"] len [OF that] lk by auto
  have one: "lookup_one ?w key
      = (if r < unat n \<and> ?key r = k then (of_nat r, 1) else (UINT64_MAX, 0))"
    using assms(2) cmp
    by (auto simp: lookup_one_def Let_def r_def k_def perfcache_constants)
  have "unat (of_nat r :: u64) = r"
    using r(1) unsigned_less [of n, where 'a = nat] by (simp add: unat_of_nat)
  moreover have "(\<exists>j<unat n. ?key j = k) \<longleftrightarrow> r < unat n \<and> ?key r = k"
    using hit by metis
  moreover have "?key j = k \<longleftrightarrow> j = r" if "r < unat n" "?key r = k" "j < unat n" for j
    using hit that by metis
  ultimately show ?thesis
    unfolding lookup_meets_def one k_def [symmetric] by (simp add: Let_def)
qed

lemma lookup_one_dense:
  assumes "content_ok c n recs meta"
    and "pc_access_law c = LAPLACE_PERFCACHE_ACCESS_DENSE_U32_ZERO_BASED"
    and "unat (pc_key_bytes c) \<le> length key"
  shows "lookup_meets (view_of B c n recs meta) (take (unat (pc_key_bytes c)) key)
           (lookup_one (view_of B c n recs meta) key)"
proof -
  let ?w = "view_of B c n recs meta" and ?kb = "pc_key_bytes c" and ?st = "record_stride_of c"
  let ?key = "\<lambda>j. key_at (pv_records ?w) j ?kb ?st"
  have kb: "?kb = 4" and four: "4 \<le> length key"
    using assms by (auto simp: content_ok_def contract_valid_iff perfcache_constants)
  have ok: "contract_valid c" "length recs = unat n * stride_of c" "length recs < 2 ^ 64"
    using assms(1) by (auto simp: content_ok_def)
  have dense: "n = 0 \<or> dense_u32_zero_based_keys recs n ?st"
    using assms(1,2) by (auto simp: content_ok_def records_access_law_valid_def
        perfcache_constants split: if_splits)
  then have small: "unat n \<le> 2 ^ 32"
    by (auto simp: dense_u32_zero_based_keys_def word_le_nat_alt not_less split: if_splits)
  have read: "read_u32_le (?key j) = of_nat j" "length (?key j) = 4" if "j < unat n" for j
  proof -
    have "read_u32_le (record_at recs j ?st) = of_nat j"
      using dense that by (auto simp: dense_u32_zero_based_keys_def list_all_iff split: if_splits)
    moreover have "4 \<le> length (record_at recs j ?st)"
      using record_at_append(2) [OF ok that] kb by (simp add: stride_of_def)
    ultimately show "read_u32_le (?key j) = of_nat j" "length (?key j) = 4"
      using view_key_at(1) [OF assms(1) that, of B] kb
      by (simp_all add: key_at_def read_u32_le_take)
  qed
  define index where "index = read_u32_le key"
  have key: "?key j = take 4 key \<longleftrightarrow> unat index = j" if "j < unat n" for j
  proof -
    have "?key j = take 4 key \<longleftrightarrow> of_nat j = index"
      using length_4_read_inject [of "?key j" "take 4 key"] read [OF that] four
      by (simp add: read_u32_le_take index_def)
    also have "\<dots> \<longleftrightarrow> unat index = j"
      using that small by (auto simp: unat_of_nat)
    finally show ?thesis .
  qed
  have "unat (ucast index :: u64) = unat index"
    using unsigned_less [of index, where 'a = nat]
    by (simp add: unsigned_ucast_eq take_bit_eq_mod)
  then show ?thesis
    using assms(2) key kb
    by (auto simp: lookup_meets_def lookup_one_def Let_def index_def [symmetric]
        word_less_nat_alt)
qed

section \<open>Batches\<close>

lemma lookup_keys_spec:
  assumes "pc_access_law (pv_contract w) = LAPLACE_PERFCACHE_ACCESS_DENSE_U32_ZERO_BASED \<or>
      pc_access_law (pv_contract w) = LAPLACE_PERFCACHE_ACCESS_SORTED_UNIQUE_FIXED"
    and "distinct positions" "\<forall>i \<in> set positions. i < length ri \<and> i < length fo"
  shows "\<exists>ri' fo'. lookup_keys w keys positions (ri, fo) = (LAPLACE_PERFCACHE_OK, ri', fo') \<and>
    length ri' = length ri \<and> length fo' = length fo \<and>
    (\<forall>i. (ri' ! i, fo' ! i) = (if i \<in> set positions
        then lookup_one w (key_pointer keys i (pc_key_bytes (pv_contract w))) else (ri ! i, fo ! i)))"
  using assms(2,3)
proof (induction positions arbitrary: ri fo)
  case (Cons p ps)
  obtain x h where one: "lookup_one w (key_pointer keys p (pc_key_bytes (pv_contract w))) = (x, h)"
    by fastforce
  have "distinct ps" "\<forall>i \<in> set ps. i < length (ri[p := x]) \<and> i < length (fo[p := h])"
    using Cons.prems by auto
  then obtain ri' fo' where
    rec: "lookup_keys w keys ps (ri[p := x], fo[p := h]) = (LAPLACE_PERFCACHE_OK, ri', fo')"
    "length ri' = length ri" "length fo' = length fo"
    and vals: "\<And>i. (ri' ! i, fo' ! i) = (if i \<in> set ps
        then lookup_one w (key_pointer keys i (pc_key_bytes (pv_contract w)))
        else (ri[p := x] ! i, fo[p := h] ! i))"
    using Cons.IH [of "ri[p := x]" "fo[p := h]"] by auto
  have "lookup_keys w keys (p # ps) (ri, fo) = (LAPLACE_PERFCACHE_OK, ri', fo')"
    using assms(1) rec(1) one by (auto simp: Let_def)
  moreover have "(ri' ! i, fo' ! i) = (if i \<in> set (p # ps)
        then lookup_one w (key_pointer keys i (pc_key_bytes (pv_contract w)))
        else (ri ! i, fo ! i))" for i
    using vals [of i] Cons.prems one by (cases "i = p") auto
  ultimately show ?case using rec(2,3) by blast
qed simp

lemma stride_consistent_view_of:
  "content_ok c n recs meta \<Longrightarrow> stride_consistent (view_of B c n recs meta)"
  by (simp add: stride_consistent_def content_ok_def record_stride_of_def)

lemma lookup_one_meets:
  assumes "content_ok c n recs meta"
    and "pc_access_law c \<noteq> LAPLACE_PERFCACHE_ACCESS_MODULE_DEFINED"
    and "unat (pc_key_bytes c) \<le> length key"
  shows "lookup_meets (view_of B c n recs meta) (take (unat (pc_key_bytes c)) key)
           (lookup_one (view_of B c n recs meta) key)"
  using assms lookup_one_sorted [OF assms(1) _ assms(3)] lookup_one_dense [OF assms(1) _ assms(3)]
  by (auto simp: content_ok_def contract_valid_iff)

text \<open>C17: in a view that validation returned, under either keyed law, a batch lookup succeeds and
  for every key says whether some record has that key, and if so at which index, the only one;
  missing keys are marked 0 with the index \<open>UINT64_MAX\<close>.\<close>

theorem lookup_batch_exact:
  assumes "laplace_perfcache_validate B (Some bs) (Some c) (Some v) = (LAPLACE_PERFCACHE_OK, Some w)"
    and "pc_access_law c \<noteq> LAPLACE_PERFCACHE_ACCESS_MODULE_DEFINED"
    and "length keys = length ri * unat (pc_key_bytes c)" "length keys \<le> SIZE_MAX"
    and "length fo = length ri"
  shows "\<exists>ri' fo'. laplace_perfcache_lookup_batch (Some w) (Some keys) (length ri) (Some ri) (Some fo)
      = (LAPLACE_PERFCACHE_OK, Some ri', Some fo') \<and>
    length ri' = length ri \<and> length fo' = length fo \<and>
    (\<forall>i < length ri. lookup_meets w
       (take (unat (pc_key_bytes c)) (drop (i * unat (pc_key_bytes c)) keys)) (ri' ! i, fo' ! i))"
proof -
  let ?kb = "unat (pc_key_bytes c)"
  obtain n recs meta where ok: "content_ok c n recs meta" and w: "w = view_of B c n recs meta"
    using validate_OK [OF assms(1)] by auto
  have kb: "0 < ?kb"
    using ok assms(2) by (auto simp: content_ok_def contract_valid_iff unat_gt_0 perfcache_constants)
  have law: "pc_access_law (pv_contract w) = LAPLACE_PERFCACHE_ACCESS_DENSE_U32_ZERO_BASED \<or>
      pc_access_law (pv_contract w) = LAPLACE_PERFCACHE_ACCESS_SORTED_UNIQUE_FIXED"
    using ok assms(2) by (auto simp: w content_ok_def contract_valid_iff)
  obtain ri' fo' where
    run: "lookup_keys w keys [0..<length ri] (ri, fo) = (LAPLACE_PERFCACHE_OK, ri', fo')"
    "length ri' = length ri" "length fo' = length fo"
    and vals: "\<And>i. (ri' ! i, fo' ! i) = (if i \<in> set [0..<length ri]
        then lookup_one w (key_pointer keys i (pc_key_bytes (pv_contract w))) else (ri ! i, fo ! i))"
    using lookup_keys_spec [OF law, of "[0..<length ri]" ri fo keys] assms(5) by auto
  have meets: "lookup_meets w (take ?kb (drop (i * ?kb) keys)) (ri' ! i, fo' ! i)"
    if "i < length ri" for i
  proof -
    have "Suc i * ?kb \<le> length keys"
      using that assms(3) by (simp only: mult_le_mono1 Suc_leI)
    then have "?kb \<le> length (key_pointer keys i (pc_key_bytes c))"
      by (simp add: key_pointer_def)
    from lookup_one_meets [OF ok assms(2) this, of B] show ?thesis
      using that vals [of i] by (simp add: w key_pointer_def)
  qed
  have "\<not> length ri > SIZE_MAX div ?kb"
    using assms(3,4) kb by (simp add: not_less less_eq_div_iff_mult_less_eq)
  then have "laplace_perfcache_lookup_batch (Some w) (Some keys) (length ri) (Some ri) (Some fo)
      = (LAPLACE_PERFCACHE_OK, Some ri', Some fo')"
    using run stride_consistent_view_of [OF ok, of B] assms(2,5)
    by (auto simp: laplace_perfcache_lookup_batch_def w)
  with meets run show ?thesis by blast
qed

section \<open>Views stay inside their artifact\<close>

text \<open>The discipline every reader of a view relies on: each record and the metadata lie between
  the header and the digest of the artifact the view was made from.\<close>

definition view_well_formed :: "laplace_perfcache_view \<Rightarrow> bool" where
  "view_well_formed w \<longleftrightarrow>
     stride_consistent w \<and>
     (let bs = pv_artifact w; stride = unat (pv_record_stride w); n = unat (pv_record_count w);
          used = unat (pv_metadata_bytes w) in
      length bs = pv_artifact_bytes w \<and> 0 < stride \<and>
      352 + n * stride + used + 32 = length bs \<and>
      (\<forall>i < n. take stride (record_at (pv_records w) i (pv_record_stride w))
                 = take stride (drop (352 + i * stride) bs) \<and>
               length (take stride (record_at (pv_records w) i (pv_record_stride w))) = stride) \<and>
      take used (pv_metadata w) = take used (drop (352 + n * stride) bs) \<and>
      drop (352 + n * stride + used) bs = bytes (pv_artifact_digest w))"

text \<open>C18: every view that validation hands out is well formed: its stride is the one of its
  contract, its sections add up to the artifact's length, and every record and metadata byte that
  can be reached through it is a byte of the artifact between the header and the digest.\<close>

theorem validated_view_well_formed:
  assumes "laplace_perfcache_validate B (Some bs) (Some c) (Some v) = (LAPLACE_PERFCACHE_OK, Some w)"
  shows "view_well_formed w \<and> pv_artifact w = bs \<and> pv_contract w = c"
proof -
  obtain n recs meta where ok: "content_ok c n recs meta" and bs: "bs = artifact_of B c n recs meta"
    and w: "w = view_of B c n recs meta"
    using validate_OK [OF assms] by auto
  have c: "contract_valid c" "length recs = unat n * stride_of c" "length recs < 2 ^ 64"
    "length recs + length meta + 384 < 2 ^ 64"
    using ok by (auto simp: content_ok_def)
  have st: "unat (record_stride_of c) = stride_of c"
    using c(1) by (rule unat_record_stride_of)
  have m: "unat (of_nat (length meta) :: u64) = length meta"
    using c(4) by (simp add: unat_of_nat)
  have body: "drop 352 bs = pv_records w"
    by (simp add: bs w) (simp add: artifact_of_def artifact_body_def)
  have each: "take (stride_of c) (record_at (pv_records w) i (record_stride_of c))
        = take (stride_of c) (drop (352 + i * stride_of c) bs) \<and>
      length (take (stride_of c) (record_at (pv_records w) i (record_stride_of c))) = stride_of c"
    if "i < unat n" for i
  proof -
    have "i * stride_of c < 2 ^ 64"
      using that c(2,3) mult_le_mono1 [of i "unat n" "stride_of c"] by linarith
    then have "record_at (pv_records w) i (record_stride_of c) = drop (352 + i * stride_of c) bs"
      by (simp add: record_at_eq st body [symmetric] add.commute)
    moreover have "stride_of c \<le> length (record_at (pv_records w) i (record_stride_of c))"
      using record_at_append(2) [OF c(1) c(2) c(3) that] record_at_append(1) [OF c(1) c(2) c(3) that,
          of "meta @ bytes (blake3 B (artifact_body c n recs meta))"]
      by (simp add: w)
    ultimately show ?thesis by simp
  qed
  have "drop (352 + length recs) bs = pv_metadata w"
    by (simp add: bs w) (simp add: artifact_of_def artifact_body_def)
  moreover have "drop (352 + length recs + length meta) bs = bytes (pv_artifact_digest w)"
    by (simp add: bs w artifact_of_def view_of_def Let_def)
  ultimately have "view_well_formed w"
    using each stride_consistent_view_of [OF ok, of B] stride_of_bounds(1) [OF c(1)] c(2)
    by (simp add: view_well_formed_def w Let_def st m bs)
      (simp add: view_of_def Let_def)
  then show ?thesis by (simp add: w bs)
qed

text \<open>The traversal with a validator that keeps no state reports the first record it rejects.\<close>

lemma validate_records_loop_pure:
  assumes "\<And>world i r st. validator world i r st = (f i r, world)"
  shows "validate_records_loop w validator world positions =
    (case find (\<lambda>i. f (of_nat i) (record_at (pv_records w) i (pv_record_stride w))
                    \<noteq> LAPLACE_PERFCACHE_OK) positions of
       None \<Rightarrow> (LAPLACE_PERFCACHE_OK, UINT64_MAX, world)
     | Some i \<Rightarrow> (f (of_nat i) (record_at (pv_records w) i (pv_record_stride w)), of_nat i, world))"
  by (induction positions) (simp_all add: assms)

lemmas sample_validated = validate_artifact [OF sample_content_ok, of sample_blake3 perfcache_view_local]

lemma lookup_batch_exact_witness:
  "\<exists>ri' fo'. laplace_perfcache_lookup_batch
       (Some (view_of sample_blake3 sample_contract 2 sample_records [5]))
       (Some [1, 0, 0, 0, 2, 0, 0, 0]) 2 (Some [0, 0]) (Some [9, 9])
      = (LAPLACE_PERFCACHE_OK, Some ri', Some fo') \<and>
    lookup_meets (view_of sample_blake3 sample_contract 2 sample_records [5])
      [1, 0, 0, 0] (ri' ! 0, fo' ! 0)"
proof -
  have "unat (pc_key_bytes sample_contract) = 4"
    "pc_access_law sample_contract \<noteq> LAPLACE_PERFCACHE_ACCESS_MODULE_DEFINED"
    by (simp_all add: sample_contract_def perfcache_constants)
  then show ?thesis
    using lookup_batch_exact [OF sample_validated, of "[1, 0, 0, 0, 2, 0, 0, 0]" "[0, 0]" "[9, 9]"]
    by (force simp: SIZE_MAX_def numeral_2_eq_2)
qed

lemma validated_view_well_formed_witness:
  "view_well_formed (view_of sample_blake3 sample_contract 2 sample_records [5])"
  using validated_view_well_formed [OF sample_validated] by simp

end
