(* ===== verification/Lineage_Records.thy ===== *)
theory Lineage_Records
  imports Hashing
begin

text \<open>
  Evidence lineage, first part (\<open>engine/src/evidence_lineage.c\<close>): the records, the identity of
  an evidence node, the lookup of nodes by identity and the linking of dependence edges to the
  positions of their nodes.  Constants are those of \<open>contracts/evidence-lineage.json\<close>.
\<close>

datatype laplace_evidence_lineage_status =
    LAPLACE_EVIDENCE_LINEAGE_OK
  | LAPLACE_EVIDENCE_LINEAGE_INVALID_ARGUMENT
  | LAPLACE_EVIDENCE_LINEAGE_RECORD_INVALID
  | LAPLACE_EVIDENCE_LINEAGE_ORDER_INVALID
  | LAPLACE_EVIDENCE_LINEAGE_IDENTITY_MISMATCH
  | LAPLACE_EVIDENCE_LINEAGE_REFERENCE_MISSING
  | LAPLACE_EVIDENCE_LINEAGE_CYCLE
  | LAPLACE_EVIDENCE_LINEAGE_CAPACITY_INSUFFICIENT
  | LAPLACE_EVIDENCE_LINEAGE_RESOURCE_INSUFFICIENT
  | LAPLACE_EVIDENCE_LINEAGE_OVERFLOW

text \<open>The code of a status, as receipts store it.\<close>

fun lineage_code :: "laplace_evidence_lineage_status \<Rightarrow> u32" where
  "lineage_code LAPLACE_EVIDENCE_LINEAGE_OK = 0"
| "lineage_code LAPLACE_EVIDENCE_LINEAGE_INVALID_ARGUMENT = 1"
| "lineage_code LAPLACE_EVIDENCE_LINEAGE_RECORD_INVALID = 2"
| "lineage_code LAPLACE_EVIDENCE_LINEAGE_ORDER_INVALID = 3"
| "lineage_code LAPLACE_EVIDENCE_LINEAGE_IDENTITY_MISMATCH = 4"
| "lineage_code LAPLACE_EVIDENCE_LINEAGE_REFERENCE_MISSING = 5"
| "lineage_code LAPLACE_EVIDENCE_LINEAGE_CYCLE = 6"
| "lineage_code LAPLACE_EVIDENCE_LINEAGE_CAPACITY_INSUFFICIENT = 7"
| "lineage_code LAPLACE_EVIDENCE_LINEAGE_RESOURCE_INSUFFICIENT = 8"
| "lineage_code LAPLACE_EVIDENCE_LINEAGE_OVERFLOW = 9"

record laplace_evidence_lineage_record =
  el_node_id :: laplace_digest256
  el_proposition_id :: laplace_id128
  el_occurrence_id :: laplace_digest256
  el_source_id :: laplace_digest256
  el_context_id :: laplace_digest256
  el_parent_node_id :: laplace_digest256
  el_source_ordinal :: u64
  el_record_kind :: u32
  el_epistemic_kind :: u32
  el_flags :: u32
  el_reserved :: u32

record laplace_evidence_root_record =
  eo_node_id :: laplace_digest256
  eo_root_node_id :: laplace_digest256
  eo_proposition_id :: laplace_id128
  eo_path_depth :: u64
  eo_root_epistemic_kind :: u32
  eo_flags :: u32

text \<open>The caller's \<open>cycle_path\<close> array, \<open>None\<close> for NULL, is returned as the call leaves it.\<close>

record laplace_evidence_lineage_error =
  ex_cycle_path :: "laplace_digest256 list option"
  ex_cycle_path_capacity :: u64
  ex_cycle_path_count :: u64
  ex_record_index :: u64

record laplace_evidence_lineage_receipt =
  ep_receipt_id :: laplace_digest256
  ep_input_fingerprint :: laplace_digest256
  ep_output_fingerprint :: laplace_digest256
  ep_input_record_count :: u64
  ep_node_count :: u64
  ep_edge_count :: u64
  ep_root_relation_count :: u64
  ep_version :: u32
  ep_status :: u32

record lineage_edge =
  le_child :: nat
  le_parent :: nat

definition LAPLACE_EVIDENCE_LINEAGE_VERSION :: u32 where
  "LAPLACE_EVIDENCE_LINEAGE_VERSION = 1"
definition LAPLACE_EVIDENCE_NODE_DOMAIN :: "byte list" where
  "LAPLACE_EVIDENCE_NODE_DOMAIN = ascii_bytes ''laplace-evidence-node-v1''"
definition LAPLACE_EVIDENCE_RECEIPT_DOMAIN :: "byte list" where
  "LAPLACE_EVIDENCE_RECEIPT_DOMAIN = ascii_bytes ''laplace-evidence-lineage-receipt-v1''"
definition lineage_input_domain :: "byte list" where
  "lineage_input_domain = ascii_bytes ''laplace-evidence-lineage-input-v1''"
definition lineage_output_domain :: "byte list" where
  "lineage_output_domain = ascii_bytes ''laplace-evidence-lineage-output-v1''"
definition LAPLACE_EVIDENCE_RECORD_NODE :: u32 where
  "LAPLACE_EVIDENCE_RECORD_NODE = 1"
definition LAPLACE_EVIDENCE_RECORD_DEPENDENCE_EDGE :: u32 where
  "LAPLACE_EVIDENCE_RECORD_DEPENDENCE_EDGE = 2"
definition LAPLACE_EVIDENCE_KIND_OBSERVED :: u32 where
  "LAPLACE_EVIDENCE_KIND_OBSERVED = 1"
definition LAPLACE_EVIDENCE_KIND_CONTRADICTION :: u32 where
  "LAPLACE_EVIDENCE_KIND_CONTRADICTION = 7"
definition LAPLACE_EVIDENCE_FLAGS_NONE :: u32 where
  "LAPLACE_EVIDENCE_FLAGS_NONE = 0"

section \<open>Node identity\<close>

definition digest_compare :: "laplace_digest256 \<Rightarrow> laplace_digest256 \<Rightarrow> int" where
  "digest_compare left right = memcmp (bytes left) (bytes right)"

definition epistemic_kind_valid :: "u32 \<Rightarrow> bool" where
  "epistemic_kind_valid kind \<longleftrightarrow>
     LAPLACE_EVIDENCE_KIND_OBSERVED \<le> kind \<and> kind \<le> LAPLACE_EVIDENCE_KIND_CONTRADICTION"

definition node_chunks :: "laplace_evidence_lineage_record \<Rightarrow> byte list list" where
  "node_chunks node =
     [LAPLACE_EVIDENCE_NODE_DOMAIN, bytes (el_proposition_id node), bytes (el_occurrence_id node),
      bytes (el_source_id node), bytes (el_context_id node), u64_le (el_source_ordinal node),
      u32_le (el_epistemic_kind node), u32_le (el_flags node)]"

definition laplace_evidence_node_identify ::
  "'h blake3_api \<Rightarrow> laplace_evidence_lineage_record option \<Rightarrow> laplace_digest256 option
     \<Rightarrow> laplace_evidence_lineage_status \<times> laplace_digest256 option" where
  "laplace_evidence_node_identify B node node_id =
     (case (node, node_id) of
        (Some r, Some _) \<Rightarrow>
          if el_record_kind r \<noteq> LAPLACE_EVIDENCE_RECORD_NODE
             \<or> \<not> epistemic_kind_valid (el_epistemic_kind r)
             \<or> el_source_ordinal r = 0 \<or> el_flags r \<noteq> LAPLACE_EVIDENCE_FLAGS_NONE
             \<or> el_reserved r \<noteq> 0 \<or> \<not> bytes_zero (bytes (el_parent_node_id r))
          then (LAPLACE_EVIDENCE_LINEAGE_RECORD_INVALID, node_id)
          else (LAPLACE_EVIDENCE_LINEAGE_OK,
                Some (hasher_finalize B (updates B (hasher_init B) (node_chunks r))))
      | _ \<Rightarrow> (LAPLACE_EVIDENCE_LINEAGE_RECORD_INVALID, node_id))"

section \<open>Looking up a node\<close>

function find_node_loop ::
  "laplace_evidence_lineage_record list \<Rightarrow> laplace_digest256 \<Rightarrow> nat \<Rightarrow> nat \<Rightarrow> nat" where
  "find_node_loop records node_id low high =
     (if low < high then
        let middle = low + (high - low) div 2 in
        if digest_compare (el_node_id (records ! middle)) node_id < 0
        then find_node_loop records node_id (middle + 1) high
        else find_node_loop records node_id low middle
      else low)"
  by pat_completeness auto
termination
  by (relation "measure (\<lambda>(records, node_id, low, high). high - low)") auto

declare find_node_loop.simps [simp del]

text \<open>\<open>None\<close> is the \<open>SIZE_MAX\<close> of a failed lookup.\<close>

definition find_node ::
  "laplace_evidence_lineage_record list \<Rightarrow> nat \<Rightarrow> laplace_digest256 \<Rightarrow> nat option" where
  "find_node records node_count node_id =
     (let low = find_node_loop records node_id 0 node_count in
      if low < node_count \<and> digest_equal (el_node_id (records ! low)) node_id
      then Some low else None)"

section \<open>Receipts\<close>

definition root_record_compare ::
  "laplace_evidence_root_record \<Rightarrow> laplace_evidence_root_record \<Rightarrow> int" where
  "root_record_compare left right =
     (let node_order = digest_compare (eo_node_id left) (eo_node_id right) in
      if node_order \<noteq> 0 then node_order
      else digest_compare (eo_root_node_id left) (eo_root_node_id right))"

definition lineage_record_chunks :: "laplace_evidence_lineage_record \<Rightarrow> byte list list" where
  "lineage_record_chunks r =
     [bytes (el_node_id r), bytes (el_proposition_id r), bytes (el_occurrence_id r),
      bytes (el_source_id r), bytes (el_context_id r), bytes (el_parent_node_id r),
      u64_le (el_source_ordinal r), u32_le (el_record_kind r), u32_le (el_epistemic_kind r),
      u32_le (el_flags r), u32_le (el_reserved r)]"

definition hash_inputs ::
  "'h blake3_api \<Rightarrow> laplace_evidence_lineage_record list \<Rightarrow> laplace_digest256" where
  "hash_inputs B records =
     hasher_finalize B (foldl (\<lambda>h r. updates B h (lineage_record_chunks r))
       (hash_u64 B (hasher_update B (hasher_init B) lineage_input_domain) (of_nat (length records)))
       records)"

definition root_chunks :: "laplace_evidence_root_record \<Rightarrow> byte list list" where
  "root_chunks r =
     [bytes (eo_node_id r), bytes (eo_root_node_id r), bytes (eo_proposition_id r),
      u64_le (eo_path_depth r), u32_le (eo_root_epistemic_kind r), u32_le (eo_flags r)]"

definition hash_outputs ::
  "'h blake3_api \<Rightarrow> laplace_evidence_root_record list \<Rightarrow> laplace_digest256" where
  "hash_outputs B roots =
     hasher_finalize B (foldl (\<lambda>h r. updates B h (root_chunks r))
       (hash_u64 B (hasher_update B (hasher_init B) lineage_output_domain) (of_nat (length roots)))
       roots)"

definition lineage_receipt_chunks :: "laplace_evidence_lineage_receipt \<Rightarrow> byte list list" where
  "lineage_receipt_chunks r =
     [LAPLACE_EVIDENCE_RECEIPT_DOMAIN, bytes (ep_input_fingerprint r),
      bytes (ep_output_fingerprint r), u64_le (ep_input_record_count r), u64_le (ep_node_count r),
      u64_le (ep_edge_count r), u64_le (ep_root_relation_count r), u32_le (ep_version r),
      u32_le (ep_status r)]"

definition finish_receipt ::
  "'h blake3_api \<Rightarrow> laplace_evidence_lineage_receipt \<Rightarrow> laplace_evidence_lineage_receipt" where
  "finish_receipt B r =
     r\<lparr>ep_receipt_id := hasher_finalize B (updates B (hasher_init B) (lineage_receipt_chunks r))\<rparr>"

section \<open>Sizes and errors\<close>

definition checked_add_size :: "nat \<Rightarrow> nat \<Rightarrow> nat \<Rightarrow> nat option" where
  "checked_add_size aggregate items element_size =
     (if items \<noteq> 0 \<and> element_size > SIZE_MAX div items then None
      else if aggregate > SIZE_MAX - items * element_size then None
      else Some (aggregate + items * element_size))"

definition set_error ::
  "laplace_evidence_lineage_error option \<Rightarrow> nat \<Rightarrow> laplace_evidence_lineage_error option" where
  "set_error error record_index = map_option (\<lambda>e. e\<lparr>ex_record_index := of_nat record_index\<rparr>) error"

text \<open>Writing a closed path of the given nodes into the caller's array, if it has the room.\<close>

definition write_cycle ::
  "laplace_digest256 list \<Rightarrow> laplace_evidence_lineage_error \<Rightarrow> laplace_evidence_lineage_error" where
  "write_cycle path e =
     (let e = e\<lparr>ex_cycle_path_count := of_nat (length path)\<rparr> in
      case ex_cycle_path e of
        Some cells \<Rightarrow>
          if ex_cycle_path_capacity e \<ge> of_nat (length path)
          then e\<lparr>ex_cycle_path := Some (path @ drop (length path) cells)\<rparr> else e
      | None \<Rightarrow> e)"

text \<open>\<open>stack\<close> is \<open>stack[0 .. stack_count)\<close>; the scan for the first occurrence of the repeated
  node stops at the end of the stack.\<close>

definition copy_cycle_path ::
  "laplace_evidence_lineage_record list \<Rightarrow> nat list \<Rightarrow> nat
     \<Rightarrow> laplace_evidence_lineage_error option
     \<Rightarrow> laplace_evidence_lineage_status \<times> laplace_evidence_lineage_error option" where
  "copy_cycle_path records stack repeated error =
     (let tail = dropWhile (\<lambda>v. v \<noteq> repeated) stack in
      (LAPLACE_EVIDENCE_LINEAGE_CYCLE,
       map_option (write_cycle (map (\<lambda>v. el_node_id (records ! v)) (tail @ [repeated]))) error))"

section \<open>Nodes and edges of a batch\<close>

text \<open>The leading node records: each must carry its own identity, in strictly increasing order.
  \<open>previous\<close> is the record before, absent at index 0.\<close>

fun scan_nodes ::
  "'h blake3_api \<Rightarrow> laplace_evidence_lineage_record option \<Rightarrow> nat
     \<Rightarrow> laplace_evidence_lineage_record list
     \<Rightarrow> (laplace_evidence_lineage_status \<times> nat) + nat" where
  "scan_nodes B previous node_count [] = Inr node_count"
| "scan_nodes B previous node_count (r # rs) =
     (if el_record_kind r \<noteq> LAPLACE_EVIDENCE_RECORD_NODE then Inr node_count
      else case laplace_evidence_node_identify B (Some r) (Some 0) of (status, expected) \<Rightarrow>
        if status \<noteq> LAPLACE_EVIDENCE_LINEAGE_OK
        then Inl (LAPLACE_EVIDENCE_LINEAGE_RECORD_INVALID, node_count)
        else if \<not> digest_equal (the expected) (el_node_id r)
        then Inl (LAPLACE_EVIDENCE_LINEAGE_IDENTITY_MISMATCH, node_count)
        else if (case previous of None \<Rightarrow> False
                 | Some p \<Rightarrow> digest_compare (el_node_id p) (el_node_id r) \<ge> 0)
        then Inl (LAPLACE_EVIDENCE_LINEAGE_ORDER_INVALID, node_count)
        else scan_nodes B (Some r) (Suc node_count) rs)"

record link_state =
  lk_edges :: "lineage_edge list"
  lk_dependency_count :: "nat list"
  lk_parent_counts :: "nat list"

definition edge_is_invalid :: "laplace_evidence_lineage_record \<Rightarrow> bool" where
  "edge_is_invalid edge \<longleftrightarrow>
     el_record_kind edge \<noteq> LAPLACE_EVIDENCE_RECORD_DEPENDENCE_EDGE
     \<or> el_epistemic_kind edge \<noteq> 0 \<or> el_source_ordinal edge \<noteq> 0
     \<or> el_flags edge \<noteq> 0 \<or> el_reserved edge \<noteq> 0
     \<or> \<not> bytes_zero (bytes (el_proposition_id edge))
     \<or> \<not> bytes_zero (bytes (el_occurrence_id edge))
     \<or> \<not> bytes_zero (bytes (el_source_id edge))
     \<or> \<not> bytes_zero (bytes (el_context_id edge))"

definition edge_out_of_order ::
  "laplace_evidence_lineage_record option \<Rightarrow> laplace_evidence_lineage_record \<Rightarrow> bool" where
  "edge_out_of_order previous edge \<longleftrightarrow>
     (case previous of None \<Rightarrow> False
      | Some p \<Rightarrow>
          digest_compare (el_node_id p) (el_node_id edge) > 0
          \<or> (digest_equal (el_node_id p) (el_node_id edge)
             \<and> digest_compare (el_parent_node_id p) (el_parent_node_id edge) \<ge> 0))"

text \<open>One turn of the edge loop; \<open>previous\<close> is the edge record before, absent at the first edge.\<close>

definition link_edge ::
  "laplace_evidence_lineage_record list \<Rightarrow> nat \<Rightarrow> laplace_evidence_lineage_error option
     \<Rightarrow> laplace_evidence_lineage_record option \<Rightarrow> nat \<Rightarrow> laplace_evidence_lineage_record
     \<Rightarrow> link_state
     \<Rightarrow> (laplace_evidence_lineage_status \<times> laplace_evidence_lineage_error option) + link_state"
  where
  "link_edge records node_count error previous record_index edge st =
     (let child = find_node records node_count (el_node_id edge);
          parent = find_node records node_count (el_parent_node_id edge) in
      if edge_is_invalid edge
      then Inl (LAPLACE_EVIDENCE_LINEAGE_RECORD_INVALID, set_error error record_index)
      else if child = None \<or> parent = None
      then Inl (LAPLACE_EVIDENCE_LINEAGE_REFERENCE_MISSING, set_error error record_index)
      else if child = parent
      then Inl (LAPLACE_EVIDENCE_LINEAGE_CYCLE,
                map_option (write_cycle [el_node_id edge, el_node_id edge])
                  (set_error error record_index))
      else if edge_out_of_order previous edge
      then Inl (LAPLACE_EVIDENCE_LINEAGE_ORDER_INVALID, set_error error record_index)
      else
        let c = the child; p = the parent in
        Inr \<lparr>lk_edges = lk_edges st @ [\<lparr>le_child = c, le_parent = p\<rparr>],
             lk_dependency_count = (lk_dependency_count st)[c := lk_dependency_count st ! c + 1],
             lk_parent_counts = (lk_parent_counts st)[p := lk_parent_counts st ! p + 1]\<rparr>)"

fun link_edges ::
  "laplace_evidence_lineage_record list \<Rightarrow> nat \<Rightarrow> laplace_evidence_lineage_error option
     \<Rightarrow> laplace_evidence_lineage_record option \<Rightarrow> nat \<Rightarrow> laplace_evidence_lineage_record list
     \<Rightarrow> link_state
     \<Rightarrow> (laplace_evidence_lineage_status \<times> laplace_evidence_lineage_error option) + link_state"
  where
  "link_edges records node_count error previous record_index [] st = Inr st"
| "link_edges records node_count error previous record_index (e # es) st =
     (case link_edge records node_count error previous record_index e st of
        Inl failure \<Rightarrow> Inl failure
      | Inr st' \<Rightarrow> link_edges records node_count error (Some e) (Suc record_index) es st')"

section \<open>What the checks establish\<close>

lemma digest_compare_iff [simp]:
  "digest_compare a b = 0 \<longleftrightarrow> a = b" "digest_compare a b < 0 \<longleftrightarrow> a < b"
  "digest_compare a b \<le> 0 \<longleftrightarrow> a \<le> b" "0 < digest_compare a b \<longleftrightarrow> b < a"
  "0 \<le> digest_compare a b \<longleftrightarrow> b \<le> a"
  by (simp_all add: digest_compare_def)

text \<open>A node record that has an identity, and the identity it has.\<close>

definition node_well_formed :: "laplace_evidence_lineage_record \<Rightarrow> bool" where
  "node_well_formed r \<longleftrightarrow>
     el_record_kind r = LAPLACE_EVIDENCE_RECORD_NODE \<and> el_epistemic_kind r \<in> {1..7}
     \<and> el_source_ordinal r \<noteq> 0 \<and> el_flags r = 0 \<and> el_reserved r = 0 \<and> el_parent_node_id r = 0"

definition node_identity :: "'h blake3_api \<Rightarrow> laplace_evidence_lineage_record \<Rightarrow> laplace_digest256" where
  "node_identity B r = blake3 B (concat (node_chunks r))"

lemma node_identify_eq:
  assumes "blake3_streaming B"
  shows "laplace_evidence_node_identify B (Some r) (Some x) =
    (if node_well_formed r then (LAPLACE_EVIDENCE_LINEAGE_OK, Some (node_identity B r))
     else (LAPLACE_EVIDENCE_LINEAGE_RECORD_INVALID, Some x))"
  using finalize_updates [OF assms]
  by (auto simp: laplace_evidence_node_identify_def node_well_formed_def node_identity_def
      epistemic_kind_valid_def LAPLACE_EVIDENCE_KIND_OBSERVED_def
      LAPLACE_EVIDENCE_KIND_CONTRADICTION_def LAPLACE_EVIDENCE_FLAGS_NONE_def)

text \<open>A list of node records as the scan accepts it.\<close>

definition nodes_valid :: "'h blake3_api \<Rightarrow> laplace_evidence_lineage_record list \<Rightarrow> bool" where
  "nodes_valid B rs \<longleftrightarrow>
     (\<forall>r \<in> set rs. node_well_formed r \<and> el_node_id r = node_identity B r)
     \<and> sorted_wrt (<) (map el_node_id rs)"

lemma scan_nodes_Inr:
  assumes "blake3_streaming B"
  shows "scan_nodes B previous k rs = Inr n \<longleftrightarrow>
    (\<exists>nodes rest. rs = nodes @ rest \<and> n = k + length nodes
      \<and> (rest = [] \<or> el_record_kind (hd rest) \<noteq> LAPLACE_EVIDENCE_RECORD_NODE)
      \<and> (\<forall>r \<in> set nodes. node_well_formed r \<and> el_node_id r = node_identity B r)
      \<and> sorted_wrt (<) (map el_node_id (case previous of None \<Rightarrow> nodes | Some p \<Rightarrow> p # nodes)))"
    (is "?L previous k rs \<longleftrightarrow> ?R previous k rs")
proof (induction rs arbitrary: previous k)
  case Nil
  show ?case by (auto split: option.splits)
next
  case (Cons r rs)
  show ?case
  proof (cases "el_record_kind r = LAPLACE_EVIDENCE_RECORD_NODE")
    case False
    have "?R previous k (r # rs) \<longleftrightarrow> n = k"
    proof
      assume "?R previous k (r # rs)"
      then obtain nodes rest where "r # rs = nodes @ rest" "n = k + length nodes"
        "\<forall>r \<in> set nodes. node_well_formed r" by blast
      with False show "n = k"
        by (cases nodes) (auto simp: node_well_formed_def)
    next
      assume "n = k"
      with False show "?R previous k (r # rs)"
        by (intro exI [of _ "[]"] exI [of _ "r # rs"]) (auto split: option.splits)
    qed
    with False show ?thesis by auto
  next
    case True
    have "?R previous k (r # rs) \<longleftrightarrow> node_well_formed r \<and> el_node_id r = node_identity B r
        \<and> (\<forall>p. previous = Some p \<longrightarrow> el_node_id p < el_node_id r) \<and> ?R (Some r) (Suc k) rs"
      (is "_ \<longleftrightarrow> ?S")
    proof
      assume "?R previous k (r # rs)"
      then obtain nodes rest where *: "r # rs = nodes @ rest" "n = k + length nodes"
        "rest = [] \<or> el_record_kind (hd rest) \<noteq> LAPLACE_EVIDENCE_RECORD_NODE"
        "\<forall>r \<in> set nodes. node_well_formed r \<and> el_node_id r = node_identity B r"
        "sorted_wrt (<) (map el_node_id (case previous of None \<Rightarrow> nodes | Some p \<Rightarrow> p # nodes))"
        by blast
      with True obtain nodes' where n': "nodes = r # nodes'" "rs = nodes' @ rest"
        by (cases nodes) auto
      with * have "?R (Some r) (Suc k) rs"
        by (intro exI [of _ nodes'] exI [of _ rest]) (auto split: option.splits)
      moreover from * n' have "node_well_formed r \<and> el_node_id r = node_identity B r
          \<and> (\<forall>p. previous = Some p \<longrightarrow> el_node_id p < el_node_id r)"
        by (auto split: option.splits)
      ultimately show ?S by blast
    next
      assume S: ?S
      then obtain nodes rest where *: "rs = nodes @ rest" "n = Suc k + length nodes"
        "rest = [] \<or> el_record_kind (hd rest) \<noteq> LAPLACE_EVIDENCE_RECORD_NODE"
        "\<forall>r \<in> set nodes. node_well_formed r \<and> el_node_id r = node_identity B r"
        "sorted_wrt (<) (map el_node_id (r # nodes))"
        by auto
      moreover from S have "node_well_formed r" "el_node_id r = node_identity B r"
        and "\<And>p. previous = Some p \<Longrightarrow> el_node_id p < el_node_id r"
        by auto
      ultimately show "?R previous k (r # rs)"
        by (intro exI [of _ "r # nodes"] exI [of _ rest])
           (fastforce split: option.splits intro: less_trans)
    qed
    moreover have "?L previous k (r # rs) \<longleftrightarrow> node_well_formed r \<and> el_node_id r = node_identity B r
        \<and> (\<forall>p. previous = Some p \<longrightarrow> el_node_id p < el_node_id r) \<and> ?L (Some r) (Suc k) rs"
      using True by (cases previous) (auto simp: node_identify_eq [OF assms] not_le)
    ultimately show ?thesis
      using Cons.IH [of "Some r" "Suc k"] by (simp only:)
  qed
qed

lemma scan_nodes_start:
  assumes "blake3_streaming B"
  shows "scan_nodes B None 0 rs = Inr n \<longleftrightarrow>
    n \<le> length rs \<and> nodes_valid B (take n rs)
    \<and> (n < length rs \<longrightarrow> el_record_kind (rs ! n) \<noteq> LAPLACE_EVIDENCE_RECORD_NODE)"
proof
  assume "scan_nodes B None 0 rs = Inr n"
  then obtain nodes rest where "rs = nodes @ rest" "n = length nodes"
    "rest = [] \<or> el_record_kind (hd rest) \<noteq> LAPLACE_EVIDENCE_RECORD_NODE" "nodes_valid B nodes"
    by (auto simp: scan_nodes_Inr [OF assms] nodes_valid_def)
  then show "n \<le> length rs \<and> nodes_valid B (take n rs)
      \<and> (n < length rs \<longrightarrow> el_record_kind (rs ! n) \<noteq> LAPLACE_EVIDENCE_RECORD_NODE)"
    by (cases rest) auto
next
  assume *: "n \<le> length rs \<and> nodes_valid B (take n rs)
      \<and> (n < length rs \<longrightarrow> el_record_kind (rs ! n) \<noteq> LAPLACE_EVIDENCE_RECORD_NODE)"
  then have "drop n rs = [] \<or> el_record_kind (hd (drop n rs)) \<noteq> LAPLACE_EVIDENCE_RECORD_NODE"
    by (auto simp: hd_drop_conv_nth)
  with * show "scan_nodes B None 0 rs = Inr n"
    unfolding scan_nodes_Inr [OF assms] nodes_valid_def
    by (intro exI [of _ "take n rs"] exI [of _ "drop n rs"]) auto
qed

section \<open>Lookup in a strictly sorted array\<close>

text \<open>The node records of a batch, as the lookups use them.\<close>

definition ids_sorted :: "laplace_evidence_lineage_record list \<Rightarrow> nat \<Rightarrow> bool" where
  "ids_sorted records n \<longleftrightarrow> n \<le> length records \<and> sorted_wrt (<) (map el_node_id (take n records))"

lemma ids_sorted_less:
  assumes "ids_sorted records n" "i < j" "j < n"
  shows "el_node_id (records ! i) < el_node_id (records ! j)"
proof -
  have "map el_node_id (take n records) ! i < map el_node_id (take n records) ! j"
    using assms by (intro sorted_wrt_nth_less [of "(<)"]) (auto simp: ids_sorted_def)
  with assms show ?thesis by (auto simp: ids_sorted_def)
qed

lemma ids_sorted_iff:
  assumes "ids_sorted records n" "i < n" "j < n"
  shows "el_node_id (records ! i) < el_node_id (records ! j) \<longleftrightarrow> i < j"
    and "el_node_id (records ! i) = el_node_id (records ! j) \<longleftrightarrow> i = j"
  using ids_sorted_less [OF assms(1), of i j] ids_sorted_less [OF assms(1), of j i] assms
  by (cases i j rule: linorder_cases; auto)+

lemma find_node_loop_bounds:
  assumes "low \<le> high" "high \<le> n" "ids_sorted records n"
    and "\<forall>i < low. el_node_id (records ! i) < x"
    and "\<forall>i < n. high \<le> i \<longrightarrow> x \<le> el_node_id (records ! i)"
  shows "find_node_loop records x low high \<le> n
    \<and> (\<forall>i < find_node_loop records x low high. el_node_id (records ! i) < x)
    \<and> (\<forall>i < n. find_node_loop records x low high \<le> i \<longrightarrow> x \<le> el_node_id (records ! i))"
  using assms
proof (induction records x low high rule: find_node_loop.induct)
  case (1 records x low high)
  define m where "m = low + (high - low) div 2"
  show ?case
  proof (cases "low < high")
    case False
    with "1.prems" show ?thesis by (subst (1 2 3) find_node_loop.simps) auto
  next
    case True
    then have m: "low \<le> m" "m < high" by (auto simp: m_def)
    show ?thesis
    proof (cases "el_node_id (records ! m) < x")
      case less: True
      have "\<forall>i < m + 1. el_node_id (records ! i) < x"
      proof (intro allI impI)
        fix i assume "i < m + 1"
        then show "el_node_id (records ! i) < x"
          using less m "1.prems"(2) ids_sorted_less [OF "1.prems"(3), of i m]
          by (cases "i = m") auto
      qed
      with "1.IH"(1) [OF True m_def] less m "1.prems"
      show ?thesis
        by (subst (1 2 3) find_node_loop.simps) (auto simp: True Let_def m_def [symmetric])
    next
      case ge: False
      have "\<forall>i < n. m \<le> i \<longrightarrow> x \<le> el_node_id (records ! i)"
      proof (intro allI impI)
        fix i assume "i < n" "m \<le> i"
        then show "x \<le> el_node_id (records ! i)"
          using ge ids_sorted_less [OF "1.prems"(3), of m i] by (cases "i = m") auto
      qed
      with "1.IH"(2) [OF True m_def] ge m "1.prems"
      show ?thesis
        by (subst (1 2 3) find_node_loop.simps) (auto simp: True Let_def m_def [symmetric])
    qed
  qed
qed

lemma find_node_iff:
  assumes "ids_sorted records n"
  shows "find_node records n x = Some i \<longleftrightarrow> i < n \<and> el_node_id (records ! i) = x"
proof -
  define l where "l = find_node_loop records x 0 n"
  have l: "\<forall>i < l. el_node_id (records ! i) < x"
    "\<forall>i < n. l \<le> i \<longrightarrow> x \<le> el_node_id (records ! i)"
    using find_node_loop_bounds [of 0 n n records x] assms by (auto simp: l_def)
  have "i < n \<and> el_node_id (records ! i) = x \<Longrightarrow> i = l"
    using l ids_sorted_less [OF assms, of l i] by (metis leI le_neq_implies_less less_irrefl
        not_less order_le_less_trans)
  then show ?thesis
    by (auto simp: find_node_def Let_def l_def [symmetric])
qed

lemma find_node_None_iff:
  assumes "ids_sorted records n"
  shows "find_node records n x = None \<longleftrightarrow> x \<notin> el_node_id ` set (take n records)"
proof -
  have "x \<in> el_node_id ` set (take n records) \<longleftrightarrow> (\<exists>i. i < n \<and> el_node_id (records ! i) = x)"
    using assms by (auto simp: in_set_conv_nth ids_sorted_def image_iff Bex_def)
  with find_node_iff [OF assms, of x] show ?thesis
    by (metis not_None_eq)
qed

section \<open>Edges accepted by the linking loop\<close>

definition edge_less ::
  "laplace_evidence_lineage_record \<Rightarrow> laplace_evidence_lineage_record \<Rightarrow> bool" where
  "edge_less p e \<longleftrightarrow> el_node_id p < el_node_id e
     \<or> (el_node_id p = el_node_id e \<and> el_parent_node_id p < el_parent_node_id e)"

lemma edge_out_of_order_iff [simp]:
  "edge_out_of_order None e \<longleftrightarrow> False"
  "edge_out_of_order (Some p) e \<longleftrightarrow> \<not> edge_less p e"
  by (auto simp: edge_out_of_order_def edge_less_def)

lemma edge_less_trans: "edge_less a b \<Longrightarrow> edge_less b c \<Longrightarrow> edge_less a c"
  by (auto simp: edge_less_def)

definition edge_well_formed ::
  "laplace_evidence_lineage_record list \<Rightarrow> nat \<Rightarrow> laplace_evidence_lineage_record \<Rightarrow> bool" where
  "edge_well_formed records n e \<longleftrightarrow>
     \<not> edge_is_invalid e \<and> el_node_id e \<noteq> el_parent_node_id e
     \<and> {el_node_id e, el_parent_node_id e} \<subseteq> el_node_id ` set (take n records)"

definition edge_of ::
  "laplace_evidence_lineage_record list \<Rightarrow> nat \<Rightarrow> laplace_evidence_lineage_record \<Rightarrow> lineage_edge"
  where
  "edge_of records n e =
     \<lparr>le_child = the (find_node records n (el_node_id e)),
      le_parent = the (find_node records n (el_parent_node_id e))\<rparr>"

definition bump :: "nat list \<Rightarrow> nat \<Rightarrow> nat list" where
  "bump counts v = counts[v := counts ! v + 1]"

lemma length_foldl_bump [simp]: "length (foldl bump counts vs) = length counts"
  by (induction vs arbitrary: counts) (auto simp: bump_def)

lemma foldl_bump_nth:
  "v < length counts \<Longrightarrow> foldl bump counts vs ! v = counts ! v + count_list vs v"
  by (induction vs arbitrary: counts) (auto simp: bump_def nth_list_update)

lemma edge_well_formed_iff:
  assumes "ids_sorted records n"
  shows "edge_well_formed records n e \<longleftrightarrow> \<not> edge_is_invalid e
    \<and> find_node records n (el_node_id e) \<noteq> None \<and> find_node records n (el_parent_node_id e) \<noteq> None
    \<and> find_node records n (el_node_id e) \<noteq> find_node records n (el_parent_node_id e)"
proof -
  have "x = y" if "find_node records n x = Some i" "find_node records n y = Some i" for x y i
    using that find_node_iff [OF assms] by metis
  then show ?thesis
    unfolding edge_well_formed_def
    using find_node_None_iff [OF assms, of "el_node_id e"]
      find_node_None_iff [OF assms, of "el_parent_node_id e"]
    by auto
qed

lemma link_edge_Inr:
  assumes "ids_sorted records n"
  shows "link_edge records n error previous k e st = Inr st' \<longleftrightarrow>
    edge_well_formed records n e \<and> \<not> edge_out_of_order previous e
    \<and> st' = \<lparr>lk_edges = lk_edges st @ [edge_of records n e],
            lk_dependency_count = bump (lk_dependency_count st) (le_child (edge_of records n e)),
            lk_parent_counts = bump (lk_parent_counts st) (le_parent (edge_of records n e))\<rparr>"
  unfolding edge_well_formed_iff [OF assms] link_edge_def edge_of_def bump_def Let_def by auto

definition edges_accepted ::
  "laplace_evidence_lineage_record list \<Rightarrow> nat \<Rightarrow> laplace_evidence_lineage_record list \<Rightarrow> bool" where
  "edges_accepted records n es \<longleftrightarrow>
     (\<forall>e \<in> set es. edge_well_formed records n e) \<and> sorted_wrt edge_less es"

definition linked ::
  "laplace_evidence_lineage_record list \<Rightarrow> nat \<Rightarrow> laplace_evidence_lineage_record list
     \<Rightarrow> link_state \<Rightarrow> link_state" where
  "linked records n es st =
     (let edges = map (edge_of records n) es in
      \<lparr>lk_edges = lk_edges st @ edges,
       lk_dependency_count = foldl bump (lk_dependency_count st) (map le_child edges),
       lk_parent_counts = foldl bump (lk_parent_counts st) (map le_parent edges)\<rparr>)"

lemma link_edges_Inr:
  assumes "ids_sorted records n"
  shows "link_edges records n error previous k es st = Inr st' \<longleftrightarrow>
    (\<forall>e \<in> set es. edge_well_formed records n e)
    \<and> sorted_wrt edge_less (case previous of None \<Rightarrow> es | Some p \<Rightarrow> p # es)
    \<and> st' = linked records n es st"
proof (induction es arbitrary: previous k st)
  case Nil
  show ?case by (auto simp: linked_def split: option.splits)
next
  case (Cons e es)
  have "link_edges records n error previous k (e # es) st = Inr st' \<longleftrightarrow>
      (\<exists>s. link_edge records n error previous k e st = Inr s
         \<and> link_edges records n error (Some e) (Suc k) es s = Inr st')"
    by (auto split: sum.splits)
  also have "\<dots> \<longleftrightarrow> edge_well_formed records n e \<and> \<not> edge_out_of_order previous e
      \<and> (\<forall>e \<in> set es. edge_well_formed records n e) \<and> sorted_wrt edge_less (e # es)
      \<and> st' = linked records n (e # es) st"
    by (auto simp: link_edge_Inr [OF assms] Cons.IH linked_def Let_def)
  finally show ?case
    using edge_less_trans by (cases previous) auto
qed

lemma link_edges_start:
  assumes "ids_sorted records n"
  shows "link_edges records n error None k es st = Inr st' \<longleftrightarrow>
    edges_accepted records n es \<and> st' = linked records n es st"
  by (simp add: link_edges_Inr [OF assms] edges_accepted_def)

end
