(* ===== verification/Lineage_Graph.thy ===== *)
theory Lineage_Graph
  imports Lineage_Records
begin

text \<open>
  Evidence lineage, second part (\<open>engine/src/evidence_lineage.c\<close>): the offset tables that index
  the edges by child and by parent, and the depth-first search that rejects cycles.  The lemmas
  show that both tables list exactly the edges of a node, that the search always ends, that it
  finds a cycle if and only if there is one, and that the path it reports is closed.
\<close>

section \<open>Offset tables\<close>

text \<open>\<open>offsets[0] = 0\<close>, \<open>offsets[i + 1] = offsets[i] + counts[i]\<close>.\<close>

fun offsets_from :: "nat \<Rightarrow> nat list \<Rightarrow> nat list" where
  "offsets_from start [] = [start]"
| "offsets_from start (c # cs) = start # offsets_from (start + c) cs"

fun place_children :: "lineage_edge list \<Rightarrow> nat list \<Rightarrow> nat list \<Rightarrow> nat list" where
  "place_children [] parent_cursor children = children"
| "place_children (e # es) parent_cursor children =
     (let p = le_parent e; slot = parent_cursor ! p in
      place_children es (parent_cursor[p := slot + 1]) (children[slot := le_child e]))"

section \<open>Depth-first search\<close>

text \<open>
  The arrays \<open>stack\<close> and \<open>stack_edge_cursor\<close> up to \<open>depth\<close> are one list of pairs, innermost
  first.  Colours are 0 (new), 1 (on the stack) and 2 (finished).  \<open>Inl (stack, parent)\<close> is the
  exit through \<open>copy_cycle_path\<close>.  Nothing bounds the loop by itself, so its result is an option:
  \<open>None\<close> is a loop that does not end.
\<close>

partial_function (option) dfs_visit ::
  "nat list \<Rightarrow> lineage_edge list \<Rightarrow> nat list \<Rightarrow> (nat \<times> nat) list
     \<Rightarrow> ((nat list \<times> nat) + nat list) option" where
  "dfs_visit child_offsets edges colors frames =
     (if frames = [] then Some (Inr colors)
      else
          let node = fst (hd frames); edge_position = snd (hd frames); outer = tl frames;
              edge_begin = child_offsets ! node; edge_end = child_offsets ! (node + 1) in
          if edge_begin + edge_position \<ge> edge_end
          then dfs_visit child_offsets edges (colors[node := 2]) outer
          else
            let parent = le_parent (edges ! (edge_begin + edge_position));
                frames' = (node, edge_position + 1) # outer in
            if colors ! parent = 1 then Some (Inl (rev (map fst frames'), parent))
            else if colors ! parent = 0
            then dfs_visit child_offsets edges (colors[parent := 1]) ((parent, 0) # frames')
            else dfs_visit child_offsets edges colors frames')"

fun dfs_starts ::
  "nat list \<Rightarrow> lineage_edge list \<Rightarrow> nat list \<Rightarrow> nat list
     \<Rightarrow> ((nat list \<times> nat) + nat list) option" where
  "dfs_starts child_offsets edges colors [] = Some (Inr colors)"
| "dfs_starts child_offsets edges colors (start # starts) =
     (if colors ! start \<noteq> 0 then dfs_starts child_offsets edges colors starts
      else
        case dfs_visit child_offsets edges (colors[start := 1]) [(start, 0)] of
          None \<Rightarrow> None
        | Some (Inl found) \<Rightarrow> Some (Inl found)
        | Some (Inr colors') \<Rightarrow> dfs_starts child_offsets edges colors' starts)"

definition dfs_all ::
  "nat \<Rightarrow> nat list \<Rightarrow> lineage_edge list \<Rightarrow> ((nat list \<times> nat) + nat list) option" where
  "dfs_all node_count child_offsets edges =
     dfs_starts child_offsets edges (replicate node_count 0) [0..<node_count]"

section \<open>What the tables hold\<close>

lemma length_offsets_from [simp]: "length (offsets_from s cs) = Suc (length cs)"
  by (induction s cs rule: offsets_from.induct) auto

lemma offsets_from_nth:
  "v \<le> length cs \<Longrightarrow> offsets_from s cs ! v = s + sum_list (take v cs)"
  by (induction s cs arbitrary: v rule: offsets_from.induct) (auto simp: take_Cons' nth_Cons')

text \<open>The counts of a key over a list and the offsets they give.\<close>

lemma sum_list_count_list:
  assumes "length counts = n" "\<forall>v < n. counts ! v = count_list xs v" "v \<le> n"
  shows "sum_list (take v counts) = length (filter (\<lambda>x. x < v) xs)"
  using \<open>v \<le> n\<close>
proof (induction v)
  case (Suc v)
  have split: "length (filter (\<lambda>x. x < Suc v) ys) = length (filter (\<lambda>x. x < v) ys) + count_list ys v"
    for ys by (induction ys) auto
  have "sum_list (take (Suc v) counts) = sum_list (take v counts) + counts ! v"
    using Suc.prems assms(1) by (simp add: take_Suc_conv_app_nth)
  with Suc assms split show ?case by simp
qed simp

lemma sorted_filter_less:
  "sorted xs \<Longrightarrow> i < length xs \<Longrightarrow> xs ! i < (v :: nat) \<longleftrightarrow> i < length (filter (\<lambda>x. x < v) xs)"
proof (induction xs arbitrary: i)
  case (Cons x xs)
  show ?case
  proof (cases "x < v")
    case True
    with Cons show ?thesis by (cases i) auto
  next
    case False
    with Cons.prems(1) have "filter (\<lambda>x. x < v) xs = []"
      by (auto simp: filter_empty_conv)
    moreover from False Cons.prems have "v \<le> (x # xs) ! i"
      by (cases i) (auto simp: le_trans [of v x])
    ultimately show ?thesis using False by simp
  qed
qed simp

text \<open>The edge relation, from a node to the nodes it depends on, and an edge list whose offset
  table indexes it by child.\<close>

definition edge_rel :: "lineage_edge list \<Rightarrow> (nat \<times> nat) set" where
  "edge_rel edges = (\<lambda>e. (le_child e, le_parent e)) ` set edges"

definition indexed :: "nat \<Rightarrow> nat list \<Rightarrow> lineage_edge list \<Rightarrow> bool" where
  "indexed n offs edges \<longleftrightarrow>
     (\<forall>e \<in> set edges. le_child e < n \<and> le_parent e < n)
     \<and> (\<forall>v < n. offs ! v \<le> offs ! Suc v \<and> offs ! Suc v \<le> length edges)
     \<and> (\<forall>v < n. \<forall>i < length edges. offs ! v \<le> i \<and> i < offs ! Suc v \<longleftrightarrow> le_child (edges ! i) = v)"

lemma indexedI:
  assumes ends: "\<forall>e \<in> set edges. le_child e < n \<and> le_parent e < n"
    and sorted: "sorted (map le_child edges)"
    and counts: "length counts = n" "\<forall>v < n. counts ! v = count_list (map le_child edges) v"
  shows "indexed n (offsets_from 0 counts) edges"
proof -
  have offs: "offsets_from 0 counts ! v = length (filter (\<lambda>x. x < v) (map le_child edges))"
    if "v \<le> n" for v
    using that counts sum_list_count_list [OF counts] by (simp add: offsets_from_nth)
  have mono: "length (filter (\<lambda>x. x < v) xs) \<le> length (filter (\<lambda>x. x < Suc v) xs)"
    for v and xs :: "nat list" by (induction xs) auto
  have "offsets_from 0 counts ! v \<le> i \<and> i < offsets_from 0 counts ! Suc v
      \<longleftrightarrow> le_child (edges ! i) = v" if "v < n" "i < length edges" for v i
    using sorted_filter_less [OF sorted, of i v] sorted_filter_less [OF sorted, of i "Suc v"] that
    by (auto simp: offs)
  moreover have "offsets_from 0 counts ! v \<le> offsets_from 0 counts ! Suc v
      \<and> offsets_from 0 counts ! Suc v \<le> length edges" if "v < n" for v
    using mono [of v "map le_child edges"] length_filter_le [of _ "map le_child edges"] that
    by (simp add: offs)
  ultimately show ?thesis
    using ends by (simp add: indexed_def)
qed

lemma indexed_child:
  "indexed n offs edges \<Longrightarrow> v < n \<Longrightarrow> i < length edges
     \<Longrightarrow> offs ! v \<le> i \<and> i < offs ! Suc v \<longleftrightarrow> le_child (edges ! i) = v"
  by (simp add: indexed_def)

lemma indexed_ends:
  assumes "indexed n offs edges" "i < length edges"
  shows "le_child (edges ! i) < n" "le_parent (edges ! i) < n"
  using assms by (auto simp: indexed_def)

lemma edge_relI:
  assumes "indexed n offs edges" "v < n" "offs ! v + i < offs ! Suc v"
  shows "(v, le_parent (edges ! (offs ! v + i))) \<in> edge_rel edges"
    and "le_parent (edges ! (offs ! v + i)) < n"
proof -
  have len: "offs ! v + i < length edges"
    using assms by (auto simp: indexed_def)
  then have "le_child (edges ! (offs ! v + i)) = v"
    using indexed_child [OF assms(1,2) len] assms(3) by simp
  with len show "(v, le_parent (edges ! (offs ! v + i))) \<in> edge_rel edges"
    unfolding edge_rel_def by (metis (no_types, lifting) imageI nth_mem)
  show "le_parent (edges ! (offs ! v + i)) < n"
    using indexed_ends [OF assms(1) len] by simp
qed

lemma edge_relE:
  assumes "indexed n offs edges" "(v, p) \<in> edge_rel edges"
  obtains i where "v < n" "p < n" "offs ! v + i < offs ! Suc v" "le_parent (edges ! (offs ! v + i)) = p"
proof -
  from assms(2) obtain j where j: "j < length edges" "le_child (edges ! j) = v" "le_parent (edges ! j) = p"
    by (auto simp: edge_rel_def in_set_conv_nth)
  with indexed_ends [OF assms(1) j(1)] indexed_child [OF assms(1) _ j(1), of v]
  have "v < n" "p < n" "offs ! v \<le> j" "j < offs ! Suc v"
    by auto
  with j show thesis by (intro that [of "j - offs ! v"]) auto
qed

text \<open>The bucket loop puts the children of every parent into its slice, in the order of the edges.\<close>

definition children_of :: "lineage_edge list \<Rightarrow> nat \<Rightarrow> nat list" where
  "children_of edges p = map le_child (filter (\<lambda>e. le_parent e = p) edges)"

lemma children_of_simps [simp]:
  "children_of [] p = []"
  "children_of (e # es) p =
     (if le_parent e = p then le_child e # children_of es p else children_of es p)"
  by (simp_all add: children_of_def)

lemma length_children_of: "length (children_of edges p) = count_list (map le_parent edges) p"
  by (induction edges) auto

lemma children_of_append [simp]:
  "children_of (xs @ ys) p = children_of xs p @ children_of ys p"
  by (simp add: children_of_def)

lemma place_children_slots:
  assumes disjoint: "\<And>p q i j. p < n \<Longrightarrow> q < n \<Longrightarrow> i < length (children_of es p)
      \<Longrightarrow> j < length (children_of es q) \<Longrightarrow> base p + i = base q + j \<Longrightarrow> p = q"
    and room: "\<And>p i. p < n \<Longrightarrow> i < length (children_of es p) \<Longrightarrow> base p + i < m"
    and ends: "\<And>e. e \<in> set es \<Longrightarrow> le_parent e < n"
  shows "es = pre @ post \<Longrightarrow> length cursor = n \<Longrightarrow> length cells = m
    \<Longrightarrow> (\<And>p. p < n \<Longrightarrow> cursor ! p = base p + length (children_of pre p))
    \<Longrightarrow> (\<And>p i. p < n \<Longrightarrow> i < length (children_of pre p)
           \<Longrightarrow> cells ! (base p + i) = children_of pre p ! i)
    \<Longrightarrow> p < n \<Longrightarrow> i < length (children_of es p)
    \<Longrightarrow> place_children post cursor cells ! (base p + i) = children_of es p ! i"
proof (induction post arbitrary: pre cursor cells)
  case Nil
  then show ?case by simp
next
  case (Cons e post)
  define q where "q = le_parent e"
  have q: "q < n" using ends Cons.prems(1) by (simp add: q_def)
  have fits: "length (children_of pre q) < length (children_of es q)"
    using Cons.prems(1) by (simp add: q_def)
  let ?slot = "base q + length (children_of pre q)"
  have slot: "?slot < m" using room [OF q fits] .
  have step: "place_children (e # post) cursor cells =
      place_children post (cursor[q := ?slot + 1]) (cells[?slot := le_child e])"
    using Cons.prems(4) [OF q] by (simp add: Let_def q_def)
  show ?case
    unfolding step
  proof (rule Cons.IH [of "pre @ [e]"])
    show "es = (pre @ [e]) @ post" using Cons.prems(1) by simp
    show "length (cursor[q := ?slot + 1]) = n" using Cons.prems(2) by simp
    show "length (cells[?slot := le_child e]) = m" using Cons.prems(3) by simp
    show "cursor[q := ?slot + 1] ! r = base r + length (children_of (pre @ [e]) r)" if "r < n" for r
      using Cons.prems(2) Cons.prems(4) [OF that] that q by (auto simp: q_def)
    show "cells[?slot := le_child e] ! (base r + k) = children_of (pre @ [e]) r ! k"
      if r: "r < n" and k: "k < length (children_of (pre @ [e]) r)" for r k
    proof (cases "r = q \<and> k = length (children_of pre q)")
      case True
      with slot Cons.prems(3) show ?thesis by (simp add: q_def nth_append)
    next
      case False
      with k have k': "k < length (children_of pre r)"
        by (auto simp: q_def split: if_splits)
      then have "base r + k \<noteq> ?slot"
        using disjoint [OF r q _ fits, of k] False Cons.prems(1) by auto
      with k' Cons.prems(5) [OF r k'] show ?thesis
        by (simp add: nth_append)
    qed
  qed (fact Cons.prems)+
qed

lemma offsets_disjoint:
  assumes "length counts = n" "p < n" "q < n" "i < counts ! p" "j < counts ! q"
    and "offsets_from 0 counts ! p + i = offsets_from 0 counts ! q + j"
  shows "p = q"
proof -
  have mono: "offsets_from 0 counts ! a + counts ! a \<le> offsets_from 0 counts ! b"
    if "a < b" "b < n" for a b
  proof -
    have "sum_list (take (Suc a) counts) \<le> sum_list (take b counts)"
      using that by (metis Suc_leI le_add1 le_iff_add sum_list_append take_add)
    then show ?thesis
      using that assms(1) by (simp add: offsets_from_nth take_Suc_conv_app_nth)
  qed
  from assms mono [of p q] mono [of q p] show ?thesis
    by (cases p q rule: linorder_cases) auto
qed

lemma place_children_slice:
  assumes ends: "\<forall>e \<in> set edges. le_parent e < n"
    and counts: "length counts = n" "\<forall>p < n. counts ! p = count_list (map le_parent edges) p"
    and p: "p < n"
  defines "offs \<equiv> offsets_from 0 counts"
  shows "map ((!) (place_children edges (take n offs) (replicate (length edges) 0)))
           [offs ! p..<offs ! Suc p] = children_of edges p"
proof -
  have len: "length (children_of edges q) = counts ! q" if "q < n" for q
    using that counts by (simp add: length_children_of)
  have next_offs: "offs ! Suc q = offs ! q + counts ! q" if "q < n" for q
    using that counts(1) by (simp add: offs_def offsets_from_nth take_Suc_conv_app_nth)
  have top: "offs ! Suc q \<le> length edges" if "q < n" for q
    using that counts sum_list_count_list [OF counts, of "Suc q"]
      length_filter_le [of _ "map le_parent edges"]
    by (simp add: offs_def offsets_from_nth)
  have "place_children edges (take n offs) (replicate (length edges) 0) ! (offs ! p + i)
      = children_of edges p ! i" if "i < counts ! p" for i
  proof (rule place_children_slots [where n = n and pre = "[]" and m = "length edges" and es = edges
        and base = "\<lambda>p. offs ! p"])
    show "q = r" if "q < n" "r < n" "i < length (children_of edges q)"
      "j < length (children_of edges r)" "offs ! q + i = offs ! r + j" for q r i j
      using that offsets_disjoint [OF counts(1), of q r i j] by (simp add: len offs_def)
    show "offs ! q + i < length edges" if "q < n" "i < length (children_of edges q)" for q i
      using that top [of q] by (simp add: len next_offs)
  qed (use ends p that counts(1) in \<open>auto simp: len offs_def\<close>)
  then show ?thesis
    using p by (intro nth_equalityI) (auto simp: len next_offs)
qed

section \<open>The search\<close>

text \<open>What the frames on the stack have already looked at: every scanned dependence of a frame is
  finished, or is the next frame of the stack.\<close>

fun scanned ::
  "nat list \<Rightarrow> lineage_edge list \<Rightarrow> nat list \<Rightarrow> nat option \<Rightarrow> (nat \<times> nat) list \<Rightarrow> bool" where
  "scanned offs edges colors inner [] \<longleftrightarrow> True"
| "scanned offs edges colors inner ((v, pos) # outer) \<longleftrightarrow>
     (\<forall>i < pos. colors ! le_parent (edges ! (offs ! v + i)) = 2
        \<or> Some (le_parent (edges ! (offs ! v + i))) = inner)
     \<and> scanned offs edges colors (Some v) outer"

lemma scanned_mono:
  assumes "scanned offs edges colors inner frames"
    and "\<And>p. colors ! p = 2 \<Longrightarrow> colors' ! p = 2"
    and "\<And>p. inner = Some p \<Longrightarrow> inner' = Some p \<or> colors' ! p = 2"
  shows "scanned offs edges colors' inner' frames"
proof (cases frames)
  case (Cons f outer)
  have "scanned offs edges colors' i fs" if "scanned offs edges colors i fs" for i fs
    using that assms(2) by (induction offs edges colors i fs rule: scanned.induct) auto
  with assms Cons show ?thesis by (cases f) fastforce
qed simp

definition dfs_inv ::
  "nat \<Rightarrow> nat list \<Rightarrow> lineage_edge list \<Rightarrow> nat list \<Rightarrow> (nat \<times> nat) list \<Rightarrow> bool" where
  "dfs_inv n offs edges colors frames \<longleftrightarrow>
     length colors = n \<and> (\<forall>v < n. colors ! v \<le> 2)
     \<and> distinct (map fst frames) \<and> set (map fst frames) = {v. v < n \<and> colors ! v = 1}
     \<and> successively (\<lambda>w u. (u, w) \<in> edge_rel edges) (map fst frames)
     \<and> (\<forall>(v, pos) \<in> set frames. offs ! v + pos \<le> offs ! Suc v)
     \<and> (\<forall>v p. v < n \<longrightarrow> colors ! v = 2 \<longrightarrow> (v, p) \<in> edge_rel edges \<longrightarrow> colors ! p = 2)
     \<and> scanned offs edges colors None frames
     \<and> acyclic {(v, p). (v, p) \<in> edge_rel edges \<and> colors ! v = 2}"

text \<open>A closed path: it follows edges and ends where it starts.\<close>

definition closed_path :: "('a \<times> 'a) set \<Rightarrow> 'a list \<Rightarrow> bool" where
  "closed_path E path \<longleftrightarrow>
     2 \<le> length path \<and> hd path = last path \<and> successively (\<lambda>v p. (v, p) \<in> E) path"

lemma successively_trancl:
  "successively (\<lambda>v p. (v, p) \<in> E) (v # path) \<Longrightarrow> path \<noteq> [] \<Longrightarrow> (v, last path) \<in> E\<^sup>+"
proof (induction path arbitrary: v)
  case (Cons w path)
  then show ?case by (cases path) (auto intro: trancl_into_trancl2)
qed simp

lemma closed_path_cycle: "closed_path E path \<Longrightarrow> \<not> acyclic E"
proof -
  assume *: "closed_path E path"
  then obtain v rest where "path = v # rest" "rest \<noteq> []"
    by (cases path; cases "tl path") (auto simp: closed_path_def)
  with * successively_trancl [of E v rest] have "(v, v) \<in> E\<^sup>+"
    by (auto simp: closed_path_def)
  then show ?thesis by (auto simp: acyclic_def)
qed

text \<open>A node whose dependences are all finished joins the finished part without closing a cycle.\<close>

lemma acyclic_extend:
  assumes "acyclic {(v, p). (v, p) \<in> E \<and> P v}"
    and closed: "\<And>v p. P v \<Longrightarrow> (v, p) \<in> E \<Longrightarrow> P p"
    and "\<not> P w" and succ: "\<And>p. (w, p) \<in> E \<Longrightarrow> P p"
  shows "acyclic {(v, p). (v, p) \<in> E \<and> (P v \<or> v = w)}"
proof (rule acyclicI, intro allI notI)
  let ?F = "{(v, p). (v, p) \<in> E \<and> P v}" and ?G = "{(v, p). (v, p) \<in> E \<and> (P v \<or> v = w)}"
  have stay: "P p \<and> (P v \<longrightarrow> (v, p) \<in> ?F\<^sup>+)" if "(v, p) \<in> ?G\<^sup>+" for v p
    using that
  proof (induction rule: trancl_induct)
    case (base y)
    then show ?case using closed succ by auto
  next
    case (step y z)
    then show ?case using closed succ \<open>\<not> P w\<close> by (auto intro: trancl_into_trancl)
  qed
  fix x assume x: "(x, x) \<in> ?G\<^sup>+"
  with stay [OF x] have "(x, x) \<in> ?F\<^sup>+" by blast
  with assms(1) show False by (auto simp: acyclic_def)
qed

text \<open>What one search of \<open>dfs_visit\<close> delivers.\<close>

definition dfs_post ::
  "nat \<Rightarrow> nat list \<Rightarrow> lineage_edge list \<Rightarrow> nat list \<Rightarrow> (nat list \<times> nat) + nat list \<Rightarrow> bool" where
  "dfs_post n offs edges colors r \<longleftrightarrow>
     (case r of
        Inl (stack, repeated) \<Rightarrow>
          set stack \<subseteq> {..<n}
          \<and> closed_path (edge_rel edges) (dropWhile (\<lambda>v. v \<noteq> repeated) stack @ [repeated])
      | Inr colors' \<Rightarrow>
          dfs_inv n offs edges colors' []
          \<and> (\<forall>v < n. colors ! v \<noteq> 0 \<longrightarrow> colors' ! v \<noteq> 0))"

lemma dfs_post_weaken:
  assumes "dfs_post n offs edges colors' r" "\<And>v. v < n \<Longrightarrow> colors ! v \<noteq> 0 \<Longrightarrow> colors' ! v \<noteq> 0"
  shows "dfs_post n offs edges colors r"
  using assms by (auto simp: dfs_post_def split: sum.splits)

lemma dfs_inv_D:
  assumes "dfs_inv n offs edges colors frames"
  shows "length colors = n" "\<And>v. v < n \<Longrightarrow> colors ! v \<le> 2" "distinct (map fst frames)"
    "set (map fst frames) = {v. v < n \<and> colors ! v = 1}"
    "successively (\<lambda>w u. (u, w) \<in> edge_rel edges) (map fst frames)"
    "\<And>v pos. (v, pos) \<in> set frames \<Longrightarrow> offs ! v + pos \<le> offs ! Suc v"
    "\<And>v p. v < n \<Longrightarrow> colors ! v = 2 \<Longrightarrow> (v, p) \<in> edge_rel edges \<Longrightarrow> colors ! p = 2"
    "scanned offs edges colors None frames"
    "acyclic {(v, p). (v, p) \<in> edge_rel edges \<and> colors ! v = 2}"
  using assms by (auto simp: dfs_inv_def)

lemma dfs_inv_pop:
  assumes ix: "indexed n offs edges" and inv: "dfs_inv n offs edges colors ((v, pos) # outer)"
    and fin: "offs ! Suc v \<le> offs ! v + pos"
  shows "dfs_inv n offs edges (colors[v := 2]) outer"
proof -
  note I = dfs_inv_D [OF inv]
  have v: "v < n" "colors ! v = 1" and outer: "v \<notin> set (map fst outer)"
    "set (map fst outer) = {u. u < n \<and> colors ! u = 1 \<and> u \<noteq> v}"
    using I(3,4) by auto
  have black: "colors ! p = 2" if e: "(v, p) \<in> edge_rel edges" for p
  proof -
    from edge_relE [OF ix e] obtain i where "offs ! v + i < offs ! Suc v"
      "le_parent (edges ! (offs ! v + i)) = p" by blast
    with fin I(8) show ?thesis by auto
  qed
  have ends: "u < n \<and> p < n" if "(u, p) \<in> edge_rel edges" for u p
    using edge_relE [OF ix that] by metis
  have color: "colors[v := 2] ! p = (if p = v then 2 else colors ! p)" for p
    using v I(1) by simp
  have "{(u, p). (u, p) \<in> edge_rel edges \<and> colors[v := 2] ! u = 2}
      = {(u, p). (u, p) \<in> edge_rel edges \<and> ((u < n \<and> colors ! u = 2) \<or> u = v)}"
    using ends by (auto simp: color)
  moreover have "acyclic \<dots>"
  proof (rule acyclic_extend)
    have "{(u, p). (u, p) \<in> edge_rel edges \<and> u < n \<and> colors ! u = 2}
        = {(u, p). (u, p) \<in> edge_rel edges \<and> colors ! u = 2}"
      using ends by auto
    with I(9) show "acyclic {(u, p). (u, p) \<in> edge_rel edges \<and> u < n \<and> colors ! u = 2}" by simp
  qed (use I(7) ends black v in auto)
  moreover have "scanned offs edges (colors[v := 2]) None outer"
    using I(8) by (auto simp: color intro: scanned_mono [where inner = "Some v"])
  moreover have "successively (\<lambda>w u. (u, w) \<in> edge_rel edges) (map fst outer)"
    using I(5) by (cases outer) (simp_all add: successively_Cons)
  ultimately show ?thesis
    using I(1,2,3,6,7) outer black v
    unfolding dfs_inv_def by (auto simp: color)
qed

lemma dfs_inv_advance:
  assumes ix: "indexed n offs edges" and inv: "dfs_inv n offs edges colors ((v, pos) # outer)"
    and more: "offs ! v + pos < offs ! Suc v"
    and p: "p = le_parent (edges ! (offs ! v + pos))"
  shows "colors ! p = 2 \<Longrightarrow> dfs_inv n offs edges colors ((v, pos + 1) # outer)"
    and "colors ! p = 0 \<Longrightarrow> dfs_inv n offs edges (colors[p := 1]) ((p, 0) # (v, pos + 1) # outer)"
proof -
  note I = dfs_inv_D [OF inv]
  have v: "v < n" using I(4) by auto
  have e: "(v, p) \<in> edge_rel edges" "p < n"
    using edge_relI [OF ix v more] p by auto
  {
    assume black: "colors ! p = 2"
    have "scanned offs edges colors None ((v, pos + 1) # outer)"
      using I(8) black p by (auto simp: less_Suc_eq)
    then show "dfs_inv n offs edges colors ((v, pos + 1) # outer)"
      using inv more unfolding dfs_inv_def by auto
  next
    assume white: "colors ! p = 0"
    have color: "colors[p := Suc 0] ! q = (if q = p then Suc 0 else colors ! q)" for q
      using e(2) I(1) by simp
    have "scanned offs edges (colors[p := 1]) (Some v) outer"
      by (rule scanned_mono [where colors = colors and inner = "Some v"])
        (use I(8) white in \<open>auto simp: color\<close>)
    then have "scanned offs edges (colors[p := 1]) None ((p, 0) # (v, pos + 1) # outer)"
      using I(8) white p by (auto simp: color less_Suc_eq)
    moreover have "{(u, q). (u, q) \<in> edge_rel edges \<and> colors[p := 1] ! u = 2}
        = {(u, q). (u, q) \<in> edge_rel edges \<and> colors ! u = 2}"
      using white by (auto simp: color split: if_splits)
    moreover have "p \<notin> set (map fst ((v, pos) # outer))"
      using I(4) white by auto
    moreover have "set (map fst ((p, 0) # (v, pos + 1) # outer)) = {u. u < n \<and> colors[p := 1] ! u = 1}"
      using I(4) white e(2) by (auto simp: color)
    moreover have "offs ! p + 0 \<le> offs ! Suc p"
      using ix e(2) by (simp add: indexed_def)
    moreover have "colors[p := 1] ! q = 2"
      if "u < n" "colors[p := 1] ! u = 2" "(u, q) \<in> edge_rel edges" for u q
      using that I(7) white by (auto simp: color split: if_splits)
    ultimately show "dfs_inv n offs edges (colors[p := 1]) ((p, 0) # (v, pos + 1) # outer)"
      using I(1,2,3,5,6,9) e more unfolding dfs_inv_def by (auto simp: color)
  }
qed

text \<open>The search of one start node ends: every turn finishes a node, looks at one more edge or
  colours a new node.\<close>

definition dfs_measure :: "nat list \<Rightarrow> nat list \<Rightarrow> (nat \<times> nat) list \<Rightarrow> nat \<times> nat" where
  "dfs_measure offs colors frames =
     (count_list colors 0,
      sum_list (map (\<lambda>(v, pos). Suc (offs ! Suc v - (offs ! v + pos))) frames))"

lemma count_list_update:
  "i < length xs \<Longrightarrow> y \<noteq> x \<Longrightarrow>
     count_list xs x = (if xs ! i = x then Suc (count_list (xs[i := y]) x) else count_list (xs[i := y]) x)"
proof (induction xs arbitrary: i)
  case (Cons z zs)
  then show ?case by (cases i) auto
qed simp

lemma dfs_visit_spec:
  assumes ix: "indexed n offs edges" and inv: "dfs_inv n offs edges colors frames"
  shows "\<exists>r. dfs_visit offs edges colors frames = Some r \<and> dfs_post n offs edges colors r"
  using inv
proof (induction "dfs_measure offs colors frames" arbitrary: colors frames
    rule: wf_induct_rule [OF wf_lex_prod [OF wf_less_than wf_less_than]])
  case (1 colors frames)
  show ?case
  proof (cases frames)
    case Nil
    with "1.prems" show ?thesis by (simp add: dfs_visit.simps dfs_post_def)
  next
    case (Cons f outer)
    obtain v pos where f: "f = (v, pos)" by fastforce
    note frames = Cons [unfolded f] and inv = "1.prems" [unfolded Cons f]
    note I = dfs_inv_D [OF inv]
    have v: "v < n" "colors ! v = 1" using I(4) by auto
    define p where "p = le_parent (edges ! (offs ! v + pos))"
    show ?thesis
    proof (cases "offs ! Suc v \<le> offs ! v + pos")
      case True
      have "\<exists>r. dfs_visit offs edges (colors[v := 2]) outer = Some r
          \<and> dfs_post n offs edges (colors[v := 2]) r"
        by (rule "1.hyps" [OF _ dfs_inv_pop [OF ix inv True]])
          (use v I(1) count_list_update [of v colors 2 0] in \<open>auto simp: frames dfs_measure_def\<close>)
      then obtain r where "dfs_visit offs edges (colors[v := 2]) outer = Some r"
        "dfs_post n offs edges (colors[v := 2]) r" by blast
      moreover from this(2) have "dfs_post n offs edges colors r"
        by (rule dfs_post_weaken) (use v I(1) in \<open>auto simp: nth_list_update\<close>)
      ultimately show ?thesis
        using True by (subst dfs_visit.simps) (simp add: frames)
    next
      case False
      then have more: "offs ! v + pos < offs ! Suc v" by simp
      note adv = dfs_inv_advance [OF ix inv more p_def]
      have e: "(v, p) \<in> edge_rel edges" "p < n"
        using edge_relI [OF ix v(1) more] p_def by auto
      consider "colors ! p = 0" | "colors ! p = 1" | "colors ! p = 2"
        using I(2) [OF e(2)] by linarith
      then show ?thesis
      proof cases
        case white: 1
        have "\<exists>r. dfs_visit offs edges (colors[p := 1]) ((p, 0) # (v, pos + 1) # outer) = Some r
            \<and> dfs_post n offs edges (colors[p := 1]) r"
          by (rule "1.hyps" [OF _ adv(2) [OF white]])
            (use e(2) I(1) white count_list_update [of p colors 1 0] in
              \<open>auto simp: frames dfs_measure_def\<close>)
        then obtain r where "dfs_visit offs edges (colors[p := 1]) ((p, 0) # (v, pos + 1) # outer) = Some r"
          "dfs_post n offs edges (colors[p := 1]) r" by blast
        moreover from this(2) have "dfs_post n offs edges colors r"
          by (rule dfs_post_weaken) (use e(2) I(1) in \<open>auto simp: nth_list_update\<close>)
        ultimately show ?thesis
          using white more by (subst dfs_visit.simps) (simp add: frames p_def [symmetric] Let_def)
      next
        case gray: 2
        have mem: "p \<in> set (map fst frames)" using I(4) gray e(2) frames by auto
        let ?stack = "rev (map fst frames)"
        have "successively (\<lambda>v p. (v, p) \<in> edge_rel edges) (?stack @ [p])"
        proof (rule successively_append_iff [THEN iffD2], intro conjI)
          show "successively (\<lambda>v p. (v, p) \<in> edge_rel edges) ?stack"
            unfolding successively_rev using I(5) frames by simp
          have "last ?stack = v" by (simp add: frames)
          with e(1) show "?stack = [] \<or> [p] = [] \<or> (last ?stack, hd [p]) \<in> edge_rel edges"
            by simp
        qed simp
        moreover obtain pre post where st: "?stack = pre @ p # post" "p \<notin> set pre"
          using mem by (metis set_rev split_list_first)
        ultimately have "closed_path (edge_rel edges) (p # post @ [p])"
          by (simp add: closed_path_def successively_append_iff)
        moreover have "dropWhile (\<lambda>v. v \<noteq> p) ?stack = p # post"
          using st by (auto simp: dropWhile_append)
        moreover have "set ?stack \<subseteq> {..<n}" using I(4) frames by auto
        ultimately have "dfs_post n offs edges colors (Inl (?stack, p))"
          by (simp add: dfs_post_def)
        with gray more show ?thesis
          by (subst dfs_visit.simps) (simp add: frames p_def [symmetric] Let_def)
      next
        case black: 3
        have "\<exists>r. dfs_visit offs edges colors ((v, pos + 1) # outer) = Some r
            \<and> dfs_post n offs edges colors r"
          by (rule "1.hyps" [OF _ adv(1) [OF black]])
            (use more in \<open>auto simp: frames dfs_measure_def\<close>)
        with black more show ?thesis
          by (subst dfs_visit.simps) (simp add: frames p_def [symmetric] Let_def)
      qed
    qed
  qed
qed

lemma dfs_inv_start:
  assumes ix: "indexed n offs edges" and inv: "dfs_inv n offs edges colors []"
    and v: "v < n" "colors ! v = 0"
  shows "dfs_inv n offs edges (colors[v := 1]) [(v, 0)]"
proof -
  note I = dfs_inv_D [OF inv]
  have color: "colors[v := Suc 0] ! q = (if q = v then Suc 0 else colors ! q)" for q
    using v I(1) by simp
  have "{(u, q). (u, q) \<in> edge_rel edges \<and> colors[v := 1] ! u = 2}
      = {(u, q). (u, q) \<in> edge_rel edges \<and> colors ! u = 2}"
    using v by (auto simp: color split: if_splits)
  moreover have "offs ! v + 0 \<le> offs ! Suc v"
    using ix v(1) by (simp add: indexed_def)
  moreover have "set (map fst [(v, 0 :: nat)]) = {u. u < n \<and> colors[v := 1] ! u = 1}"
    using I(4) v by (auto simp: color)
  moreover have "colors[v := 1] ! q = 2"
    if "u < n" "colors[v := 1] ! u = 2" "(u, q) \<in> edge_rel edges" for u q
  proof -
    from that v I(1) have "colors ! u = 2" by (cases "u = v") simp_all
    with I(7) [OF that(1) _ that(3)] v show ?thesis by (cases "q = v") simp_all
  qed
  moreover have "colors[v := 1] ! u \<le> 2" if "u < n" for u
    using I(2) [OF that] by (simp add: color)
  moreover have "scanned offs edges (colors[v := 1]) None [(v, 0)]"
    by simp
  ultimately show ?thesis
    using I(1,9) unfolding dfs_inv_def by simp
qed

lemma dfs_starts_spec:
  assumes ix: "indexed n offs edges" and inv: "dfs_inv n offs edges colors []"
    and "set starts \<subseteq> {..<n}"
  shows "\<exists>r. dfs_starts offs edges colors starts = Some r \<and> dfs_post n offs edges colors r
    \<and> (\<forall>colors' v. r = Inr colors' \<longrightarrow> v \<in> set starts \<longrightarrow> colors' ! v \<noteq> 0)"
  using inv assms(3)
proof (induction starts arbitrary: colors)
  case Nil
  then show ?case by (simp add: dfs_post_def)
next
  case (Cons v starts)
  note I = dfs_inv_D [OF Cons.prems(1)]
  have v: "v < n" using Cons.prems by simp
  show ?case
  proof (cases "colors ! v = 0")
    case False
    obtain r where r: "dfs_starts offs edges colors starts = Some r" "dfs_post n offs edges colors r"
      "\<forall>colors' v. r = Inr colors' \<longrightarrow> v \<in> set starts \<longrightarrow> colors' ! v \<noteq> 0"
      using Cons.IH [OF Cons.prems(1)] Cons.prems(2) by auto
    moreover have "colors' ! v \<noteq> 0" if "r = Inr colors'" for colors'
      using r(2) that False v by (simp add: dfs_post_def)
    ultimately show ?thesis using False by auto
  next
    case True
    let ?colors = "colors[v := 1]"
    obtain r where r: "dfs_visit offs edges ?colors [(v, 0)] = Some r" "dfs_post n offs edges ?colors r"
      using dfs_visit_spec [OF ix dfs_inv_start [OF ix Cons.prems(1) v True]] by blast
    have weak: "dfs_post n offs edges colors r'" if "dfs_post n offs edges ?colors r'" for r'
      using that by (rule dfs_post_weaken) (use v I(1) in \<open>auto simp: nth_list_update\<close>)
    show ?thesis
    proof (cases r)
      case (Inl found)
      with r weak True show ?thesis by auto
    next
      case (Inr colors1)
      with r(2) have inv1: "dfs_inv n offs edges colors1 []"
        and grow: "\<And>u. u < n \<Longrightarrow> ?colors ! u \<noteq> 0 \<Longrightarrow> colors1 ! u \<noteq> 0"
        by (auto simp: dfs_post_def)
      from Cons.IH [OF inv1] Cons.prems(2) obtain r2 where
        r2: "dfs_starts offs edges colors1 starts = Some r2" "dfs_post n offs edges colors1 r2"
        "\<forall>colors' v. r2 = Inr colors' \<longrightarrow> v \<in> set starts \<longrightarrow> colors' ! v \<noteq> 0"
        by auto
      have "dfs_post n offs edges colors r2"
        using dfs_post_weaken [OF r2(2) grow] by (rule weak)
      moreover have "colors' ! v \<noteq> 0" if "r2 = Inr colors'" for colors'
        using r2(2) that grow [of v] v I(1) by (simp add: dfs_post_def)
      moreover have "dfs_starts offs edges colors (v # starts) = Some r2"
        using True r(1) Inr r2(1) by simp
      ultimately show ?thesis using r2(3) by (metis set_ConsD)
    qed
  qed
qed

lemma dfs_all_spec:
  assumes ix: "indexed n offs edges"
  obtains stack repeated where
      "dfs_all n offs edges = Some (Inl (stack, repeated))" "set stack \<subseteq> {..<n}"
      "closed_path (edge_rel edges) (dropWhile (\<lambda>v. v \<noteq> repeated) stack @ [repeated])"
      "\<not> acyclic (edge_rel edges)"
  | colors where "dfs_all n offs edges = Some (Inr colors)" "acyclic (edge_rel edges)"
proof -
  have init: "dfs_inv n offs edges (replicate n 0) []"
  proof -
    have "{(v, p). (v, p) \<in> edge_rel edges \<and> replicate n (0 :: nat) ! v = 2} = {}"
      by (auto elim!: edge_relE [OF ix])
    then have "acyclic {(v, p). (v, p) \<in> edge_rel edges \<and> replicate n (0 :: nat) ! v = 2}"
      by (simp only: acyclic_def) simp
    then show ?thesis by (auto simp: dfs_inv_def)
  qed
  obtain r where r: "dfs_all n offs edges = Some r" "dfs_post n offs edges (replicate n 0) r"
    and all: "\<And>colors v. r = Inr colors \<Longrightarrow> v < n \<Longrightarrow> colors ! v \<noteq> 0"
    using dfs_starts_spec [OF ix init, of "[0..<n]"] unfolding dfs_all_def atLeast_upt by auto
  show thesis
  proof (cases r)
    case (Inl found)
    with r that(1) closed_path_cycle show thesis
      by (cases found) (auto simp: dfs_post_def)
  next
    case (Inr colors)
    with r(2) have inv: "dfs_inv n offs edges colors []" by (simp add: dfs_post_def)
    note I = dfs_inv_D [OF inv]
    have "colors ! v = 2" if "v < n" for v
      using all [OF Inr that] I(2) [OF that] I(4) that by (auto simp: le_Suc_eq numeral_2_eq_2)
    moreover have "v < n" if "(v, p) \<in> edge_rel edges" for v p
      using edge_relE [OF ix that] by metis
    ultimately have "{(v, p). (v, p) \<in> edge_rel edges \<and> colors ! v = 2} = edge_rel edges"
      by auto
    with I(9) r(1) Inr that(2) show thesis by auto
  qed
qed

end
