(* ===== verification/Lineage_Roots.thy ===== *)
theory Lineage_Roots
  imports Lineage_Graph
begin

text \<open>
  Evidence lineage, third part (\<open>engine/src/evidence_lineage.c\<close>): the propagation of root
  relations from the nodes without dependences down to their descendants.  Relations live in one
  array, linked into a list per node by array positions.  The lemmas show that on an acyclic graph
  the loop ends, that every node is processed once, and that the array then holds exactly one
  relation for each node and each root it can reach, with the length of the shortest path.
\<close>

text \<open>
  The arrays of the propagation.  \<open>ls_queue\<close> is \<open>queue[0 .. queue_end)\<close>; \<open>ls_roots\<close> and
  \<open>ls_next\<close> are \<open>temporary_roots\<close> and \<open>root_next\<close> up to \<open>produced\<close>; \<open>None\<close> is the \<open>SIZE_MAX\<close>
  that ends a list.
\<close>

record lineage_state =
  ls_dependency_count :: "nat list"
  ls_queue :: "nat list"
  ls_queue_begin :: nat
  ls_processed :: "nat list"
  ls_processed_count :: nat
  ls_roots :: "laplace_evidence_root_record list"
  ls_next :: "nat option list"
  ls_heads :: "nat option list"

text \<open>\<open>--value\<close> on a \<open>size_t\<close>.\<close>

definition size_decrement :: "nat \<Rightarrow> nat" where
  "size_decrement v = (if v = 0 then SIZE_MAX else v - 1)"

text \<open>Publishing one relation of node \<open>v\<close>, the capacity test included.\<close>

definition publish_relation ::
  "nat \<Rightarrow> nat \<Rightarrow> laplace_evidence_root_record \<Rightarrow> lineage_state
     \<Rightarrow> laplace_evidence_lineage_status + lineage_state" where
  "publish_relation root_capacity v relation st =
     (if length (ls_roots st) \<ge> root_capacity
      then Inl LAPLACE_EVIDENCE_LINEAGE_CAPACITY_INSUFFICIENT
      else Inr (st\<lparr>ls_roots := ls_roots st @ [relation],
                  ls_next := ls_next st @ [ls_heads st ! v],
                  ls_heads := (ls_heads st)[v := Some (length (ls_roots st))]\<rparr>))"

definition own_root :: "laplace_evidence_lineage_record \<Rightarrow> laplace_evidence_root_record" where
  "own_root r =
     \<lparr>eo_node_id = el_node_id r, eo_root_node_id = el_node_id r,
      eo_proposition_id = el_proposition_id r, eo_path_depth = 0,
      eo_root_epistemic_kind = el_epistemic_kind r, eo_flags = LAPLACE_EVIDENCE_FLAGS_NONE\<rparr>"

fun seed_roots ::
  "laplace_evidence_lineage_record list \<Rightarrow> nat \<Rightarrow> nat list \<Rightarrow> lineage_state
     \<Rightarrow> laplace_evidence_lineage_status + lineage_state" where
  "seed_roots records root_capacity [] st = Inr st"
| "seed_roots records root_capacity (index # rest) st =
     (if ls_dependency_count st ! index = 0 then
        case publish_relation root_capacity index (own_root (records ! index)) st of
          Inl status \<Rightarrow> Inl status
        | Inr st' \<Rightarrow>
            seed_roots records root_capacity rest (st'\<lparr>ls_queue := ls_queue st' @ [index]\<rparr>)
      else seed_roots records root_capacity rest st)"

text \<open>The scan of a node's list for a root; the outer \<open>None\<close> is a scan that does not end.\<close>

partial_function (option) find_relation ::
  "laplace_evidence_root_record list \<Rightarrow> nat option list \<Rightarrow> laplace_digest256 \<Rightarrow> nat option
     \<Rightarrow> nat option option" where
  "find_relation roots root_next root_id existing =
     (if existing = None then Some None
      else if digest_equal (eo_root_node_id (roots ! the existing)) root_id then Some existing
      else find_relation roots root_next root_id (root_next ! the existing))"

definition merge_relation ::
  "laplace_evidence_lineage_record list \<Rightarrow> nat \<Rightarrow> nat \<Rightarrow> nat \<Rightarrow> nat option \<Rightarrow> lineage_state
     \<Rightarrow> laplace_evidence_lineage_status + lineage_state" where
  "merge_relation records root_capacity child relation existing st =
     (let source = ls_roots st ! relation in
      case existing of
        None \<Rightarrow>
          publish_relation root_capacity child
            (source\<lparr>eo_node_id := el_node_id (records ! child),
                    eo_proposition_id := el_proposition_id (records ! child),
                    eo_path_depth := eo_path_depth source + 1\<rparr>) st
      | Some e \<Rightarrow>
          if eo_path_depth (ls_roots st ! e) > eo_path_depth source + 1
          then Inr (st\<lparr>ls_roots := (ls_roots st)[e := (ls_roots st ! e)
                        \<lparr>eo_path_depth := eo_path_depth source + 1\<rparr>]\<rparr>)
          else Inr st)"

partial_function (option) merge_relations ::
  "laplace_evidence_lineage_record list \<Rightarrow> nat \<Rightarrow> nat \<Rightarrow> nat option \<Rightarrow> lineage_state
     \<Rightarrow> (laplace_evidence_lineage_status + lineage_state) option" where
  "merge_relations records root_capacity child relation st =
     (if relation = None then Some (Inr st)
      else
        let position = the relation in
        Option.bind
          (find_relation (ls_roots st) (ls_next st)
             (eo_root_node_id (ls_roots st ! position)) (ls_heads st ! child))
          (\<lambda>existing.
             let outcome = merge_relation records root_capacity child position existing st in
             if isl outcome then Some outcome
             else merge_relations records root_capacity child
                    (ls_next (projr outcome) ! position) (projr outcome)))"

fun push_children ::
  "laplace_evidence_lineage_record list \<Rightarrow> nat \<Rightarrow> nat \<Rightarrow> nat list \<Rightarrow> lineage_state
     \<Rightarrow> (laplace_evidence_lineage_status + lineage_state) option" where
  "push_children records root_capacity node [] st = Some (Inr st)"
| "push_children records root_capacity node (child # rest) st =
     (case merge_relations records root_capacity child (ls_heads st ! node) st of
        None \<Rightarrow> None
      | Some (Inl status) \<Rightarrow> Some (Inl status)
      | Some (Inr st') \<Rightarrow>
          let counts = (ls_dependency_count st')
                [child := size_decrement (ls_dependency_count st' ! child)] in
          push_children records root_capacity node rest
            (st'\<lparr>ls_dependency_count := counts,
                 ls_queue := ls_queue st' @ (if counts ! child = 0 then [child] else [])\<rparr>))"

partial_function (option) drain_queue ::
  "laplace_evidence_lineage_record list \<Rightarrow> nat \<Rightarrow> nat list \<times> nat list \<Rightarrow> lineage_state
     \<Rightarrow> (laplace_evidence_lineage_status + lineage_state) option" where
  "drain_queue records root_capacity tables st =
     (if ls_queue_begin st < length (ls_queue st) then
        let node = ls_queue st ! ls_queue_begin st;
            parent_offsets = fst tables; children = snd tables in
        Option.bind
          (push_children records root_capacity node
             (map ((!) children) [parent_offsets ! node..<parent_offsets ! (node + 1)])
             (st\<lparr>ls_queue_begin := ls_queue_begin st + 1,
                 ls_processed := (ls_processed st)[node := 1],
                 ls_processed_count := ls_processed_count st + 1\<rparr>))
          (\<lambda>outcome. if isl outcome then Some outcome
                    else drain_queue records root_capacity tables (projr outcome))
      else Some (Inr st))"

section \<open>Linked lists in arrays\<close>

text \<open>The list of array positions that starts at a head.\<close>

fun chain :: "nat option list \<Rightarrow> nat option \<Rightarrow> nat list \<Rightarrow> bool" where
  "chain links head [] \<longleftrightarrow> head = None"
| "chain links head (i # is) \<longleftrightarrow> head = Some i \<and> i < length links \<and> chain links (links ! i) is"

lemma chain_append: "chain links head is \<Longrightarrow> chain (links @ extra) head is"
  by (induction links head "is" rule: chain.induct) (auto simp: nth_append)

lemma find_relation_chain:
  "chain links head is \<Longrightarrow>
     find_relation roots links x head = Some (find (\<lambda>i. eo_root_node_id (roots ! i) = x) is)"
  by (induction links head "is" rule: chain.induct) (auto simp: find_relation.simps)

text \<open>
  The relations as pairs of a node and a root, in the order of the array, and their depths as a
  table.  The array, its links and its list heads are all determined by the two.
\<close>

definition lineage_relation ::
  "laplace_evidence_lineage_record list \<Rightarrow> nat \<times> nat \<Rightarrow> nat \<Rightarrow> laplace_evidence_root_record" where
  "lineage_relation records vr d =
     \<lparr>eo_node_id = el_node_id (records ! fst vr), eo_root_node_id = el_node_id (records ! snd vr),
      eo_proposition_id = el_proposition_id (records ! fst vr), eo_path_depth = of_nat d,
      eo_root_epistemic_kind = el_epistemic_kind (records ! snd vr), eo_flags = 0\<rparr>"

definition chain_of :: "(nat \<times> nat) list \<Rightarrow> nat \<Rightarrow> nat list" where
  "chain_of keys v = rev (filter (\<lambda>i. fst (keys ! i) = v) [0..<length keys])"

lemma set_chain_of: "set (chain_of keys v) = {i. i < length keys \<and> fst (keys ! i) = v}"
  by (auto simp: chain_of_def)

lemma chain_of_snoc:
  "chain_of (keys @ [(w, r)]) v = (if w = v then length keys # chain_of keys v else chain_of keys v)"
proof -
  have "filter (\<lambda>i. fst ((keys @ [(w, r)]) ! i) = v) [0..<length keys]
      = filter (\<lambda>i. fst (keys ! i) = v) [0..<length keys]"
    by (rule filter_cong) (simp_all add: nth_append)
  then show ?thesis by (simp add: chain_of_def)
qed

type_synonym depth_table = "nat \<times> nat \<Rightarrow> nat option"

definition heap_inv ::
  "laplace_evidence_lineage_record list \<Rightarrow> nat \<Rightarrow> nat \<Rightarrow> lineage_state \<Rightarrow> (nat \<times> nat) list
     \<Rightarrow> depth_table \<Rightarrow> bool" where
  "heap_inv records n capacity st keys T \<longleftrightarrow>
     distinct keys \<and> length keys \<le> capacity \<and> set keys = dom T \<and> dom T \<subseteq> {..<n} \<times> {..<n}
     \<and> ls_roots st = map (\<lambda>vr. lineage_relation records vr (the (T vr))) keys
     \<and> length (ls_next st) = length keys \<and> length (ls_heads st) = n
     \<and> (\<forall>v < n. chain (ls_next st) (ls_heads st ! v) (chain_of keys v))"

lemma heap_inv_frame [simp]:
  "heap_inv records n capacity (st\<lparr>ls_dependency_count := a\<rparr>) keys T \<longleftrightarrow> heap_inv records n capacity st keys T"
  "heap_inv records n capacity (st\<lparr>ls_queue := b\<rparr>) keys T \<longleftrightarrow> heap_inv records n capacity st keys T"
  "heap_inv records n capacity (st\<lparr>ls_queue_begin := c\<rparr>) keys T \<longleftrightarrow> heap_inv records n capacity st keys T"
  "heap_inv records n capacity (st\<lparr>ls_processed := d\<rparr>) keys T \<longleftrightarrow> heap_inv records n capacity st keys T"
  "heap_inv records n capacity (st\<lparr>ls_processed_count := e\<rparr>) keys T \<longleftrightarrow> heap_inv records n capacity st keys T"
  by (simp_all add: heap_inv_def)

text \<open>Only the relations and their links have changed.\<close>

definition links_only :: "lineage_state \<Rightarrow> lineage_state \<Rightarrow> bool" where
  "links_only st st' \<longleftrightarrow>
     st' = st\<lparr>ls_roots := ls_roots st', ls_next := ls_next st', ls_heads := ls_heads st'\<rparr>"

lemma links_only_refl [simp]: "links_only st st"
  by (simp add: links_only_def)

lemma links_only_trans: "links_only a b \<Longrightarrow> links_only b c \<Longrightarrow> links_only a c"
  by (cases a; cases b; cases c) (simp add: links_only_def)

lemma links_onlyD:
  assumes "links_only st st'"
  shows "ls_dependency_count st' = ls_dependency_count st" "ls_queue st' = ls_queue st"
    "ls_queue_begin st' = ls_queue_begin st" "ls_processed st' = ls_processed st"
    "ls_processed_count st' = ls_processed_count st"
  using assms by (cases st; cases st'; simp add: links_only_def)+

lemma heap_publish:
  assumes inv: "heap_inv records n capacity st keys T" and new: "(v, r) \<notin> dom T" and "v < n" "r < n"
    and room: "length keys < capacity"
  obtains st' where
    "publish_relation capacity v (lineage_relation records (v, r) d) st = Inr st'"
    "heap_inv records n capacity st' (keys @ [(v, r)]) (T((v, r) \<mapsto> d))"
    "links_only st st'" "ls_next st' = ls_next st @ [ls_heads st ! v]"
proof -
  define st' where "st' = st\<lparr>ls_roots := ls_roots st @ [lineage_relation records (v, r) d],
                  ls_next := ls_next st @ [ls_heads st ! v],
                  ls_heads := (ls_heads st)[v := Some (length (ls_roots st))]\<rparr>"
  note I = inv [unfolded heap_inv_def]
  have "map (\<lambda>vr. lineage_relation records vr (the ((T((v, r) \<mapsto> d)) vr))) keys = ls_roots st"
    using I new by auto
  moreover have "chain (ls_next st') (ls_heads st' ! w) (chain_of (keys @ [(v, r)]) w)" if "w < n" for w
    using I that \<open>v < n\<close>
    by (auto simp: st'_def chain_of_snoc nth_list_update nth_append intro: chain_append)
  ultimately have "heap_inv records n capacity st' (keys @ [(v, r)]) (T((v, r) \<mapsto> d))"
    using I new \<open>v < n\<close> \<open>r < n\<close> room unfolding heap_inv_def st'_def by auto
  moreover have "publish_relation capacity v (lineage_relation records (v, r) d) st = Inr st'"
    using I room by (simp add: publish_relation_def st'_def)
  ultimately show thesis
    by (intro that [of st']) (auto simp: st'_def links_only_def)
qed

text \<open>Finding the relation of a child to a root.\<close>

lemma heap_find:
  assumes ids: "ids_sorted records n" and inv: "heap_inv records n capacity st keys T" and "v < n" "r < n"
  shows "find_relation (ls_roots st) (ls_next st) (el_node_id (records ! r)) (ls_heads st ! v) =
    Some (find (\<lambda>i. keys ! i = (v, r)) (chain_of keys v))"
proof -
  note I = inv [unfolded heap_inv_def]
  have "(eo_root_node_id (ls_roots st ! i) = el_node_id (records ! r)) = (keys ! i = (v, r))"
    if "i \<in> set (chain_of keys v)" for i
  proof -
    have i: "i < length keys" "fst (keys ! i) = v" using that by (auto simp: set_chain_of)
    then have "keys ! i \<in> {..<n} \<times> {..<n}" using I by (metis nth_mem subsetD)
    then have "snd (keys ! i) < n" by auto
    with i ids_sorted_iff(2) [OF ids this \<open>r < n\<close>] I show ?thesis
      by (auto simp: lineage_relation_def prod_eq_iff)
  qed
  then have "find (\<lambda>i. eo_root_node_id (ls_roots st ! i) = el_node_id (records ! r)) (chain_of keys v)
      = find (\<lambda>i. keys ! i = (v, r)) (chain_of keys v)"
    by (intro find_cong) auto
  moreover have "chain (ls_next st) (ls_heads st ! v) (chain_of keys v)"
    using I \<open>v < n\<close> by blast
  ultimately show ?thesis by (simp add: find_relation_chain)
qed

lemma find_key:
  assumes "distinct keys"
  shows "(v, r) \<notin> set keys \<Longrightarrow> find (\<lambda>i. keys ! i = (v, r)) (chain_of keys v) = None"
    and "(v, r) \<in> set keys \<Longrightarrow> \<exists>e < length keys. keys ! e = (v, r)
           \<and> find (\<lambda>i. keys ! i = (v, r)) (chain_of keys v) = Some e"
proof -
  show "find (\<lambda>i. keys ! i = (v, r)) (chain_of keys v) = None" if "(v, r) \<notin> set keys"
    using that by (auto simp: find_None_iff set_chain_of)
  assume "(v, r) \<in> set keys"
  then obtain e where e: "e < length keys" "keys ! e = (v, r)" by (metis in_set_conv_nth)
  then have "e \<in> set (chain_of keys v)" by (simp add: set_chain_of)
  then obtain e' where e': "find (\<lambda>i. keys ! i = (v, r)) (chain_of keys v) = Some e'"
    using e(2) by (metis (mono_tags, lifting) find_None_iff not_None_eq)
  then have "keys ! e' = (v, r)" "e' \<in> set (chain_of keys v)"
    by (auto simp: find_Some_iff)
  then have "e' < length keys" by (simp add: set_chain_of)
  with e' \<open>keys ! e' = (v, r)\<close> show "\<exists>e < length keys. keys ! e = (v, r)
      \<and> find (\<lambda>i. keys ! i = (v, r)) (chain_of keys v) = Some e" by blast
qed

text \<open>What a node's dependence on another does to the depths: the shorter of the known path and
  the path through the dependence.\<close>

fun relax :: "nat option \<Rightarrow> nat option \<Rightarrow> nat option" where
  "relax known None = known"
| "relax None (Some d) = Some (Suc d)"
| "relax (Some e) (Some d) = Some (min e (Suc d))"

lemma of_nat_less_u64:
  "d < 2 ^ 64 \<Longrightarrow> e < 2 ^ 64 \<Longrightarrow> (of_nat d :: u64) < of_nat e \<longleftrightarrow> d < e"
  by (simp add: word_less_nat_alt unat_of_nat)

lemma heap_merge:
  assumes ids: "ids_sorted records n" and inv: "heap_inv records n capacity st keys T"
    and i: "i < length keys" "keys ! i = (v, r)" "T (v, r) = Some d"
    and c: "c < n" "c \<noteq> v" and bound: "\<forall>vr d. T vr = Some d \<longrightarrow> Suc d < 2 ^ 64"
    and found: "existing = find (\<lambda>i. keys ! i = (c, r)) (chain_of keys c)"
  shows "(merge_relation records capacity c i existing st
            = Inl LAPLACE_EVIDENCE_LINEAGE_CAPACITY_INSUFFICIENT
          \<and> (c, r) \<notin> set keys \<and> capacity \<le> length keys)
    \<or> (\<exists>st' keys'. merge_relation records capacity c i existing st = Inr st'
          \<and> heap_inv records n capacity st' (keys @ keys') (T((c, r) := relax (T (c, r)) (T (v, r))))
          \<and> links_only st st'
          \<and> (\<exists>extra. ls_next st' = ls_next st @ extra))"
proof -
  note I = inv [unfolded heap_inv_def]
  have rn: "r < n" using I i by (metis SigmaE domI lessThan_iff mem_Sigma_iff subsetD)
  have source: "ls_roots st ! i = lineage_relation records (v, r) d"
    using I i by simp
  show ?thesis
  proof (cases "T (c, r)")
    case None
    then have new: "(c, r) \<notin> dom T" "(c, r) \<notin> set keys" using I by auto
    have ex: "existing = None" using find_key(1) [of keys c r] new I found by auto
    have rel: "(ls_roots st ! i)\<lparr>eo_node_id := el_node_id (records ! c),
         eo_proposition_id := el_proposition_id (records ! c),
         eo_path_depth := eo_path_depth (ls_roots st ! i) + 1\<rparr>
       = lineage_relation records (c, r) (Suc d)"
      by (simp add: source lineage_relation_def add.commute)
    show ?thesis
    proof (cases "length keys < capacity")
      case True
      obtain st' where st': "publish_relation capacity c (lineage_relation records (c, r) (Suc d)) st = Inr st'"
        "heap_inv records n capacity st' (keys @ [(c, r)]) (T((c, r) \<mapsto> Suc d))"
        "links_only st st'"
        "ls_next st' = ls_next st @ [ls_heads st ! c]"
        by (rule heap_publish [OF inv new(1) c(1) rn True])
      have "merge_relation records capacity c i existing st = Inr st'"
        unfolding merge_relation_def Let_def ex option.case rel by (rule st'(1))
      moreover have "relax (T (c, r)) (T (v, r)) = Some (Suc d)" using None i(3) by simp
      ultimately show ?thesis
        using st'(2-4) by (intro disjI2 exI [of _ st'] exI [of _ "[(c, r)]"]) simp
    next
      case False
      with rel ex new(2) I show ?thesis
        by (intro disjI1) (auto simp: merge_relation_def publish_relation_def Let_def)
    qed
  next
    case (Some e)
    then have "(c, r) \<in> set keys" using I by auto
    with find_key(2) [of keys c r] I found obtain k where
      k: "k < length keys" "keys ! k = (c, r)" "existing = Some k" by auto
    have target: "ls_roots st ! k = lineage_relation records (c, r) e"
      using I k Some by simp
    have less: "eo_path_depth (ls_roots st ! i) + 1 < eo_path_depth (ls_roots st ! k) \<longleftrightarrow> Suc d < e"
      using of_nat_less_u64 [of "Suc d" e] bound [rule_format, OF i(3)] bound [rule_format, OF Some]
      by (simp add: source target lineage_relation_def add.commute)
    show ?thesis
    proof (cases "Suc d < e")
      case False
      then have "relax (T (c, r)) (T (v, r)) = T (c, r)" using Some i(3) by simp
      then have "T((c, r) := relax (T (c, r)) (T (v, r))) = T" by auto
      with less False k(3) inv show ?thesis
        by (intro disjI2 exI [of _ st] exI [of _ "[]"]) (simp add: merge_relation_def)
    next
      case True
      define T' where "T' = T((c, r) := Some (Suc d))"
      have T': "T((c, r) := relax (T (c, r)) (T (v, r))) = T'"
        using True Some i(3) by (simp add: T'_def min_def)
      have "map (\<lambda>vr. lineage_relation records vr (the (T' vr))) keys
          = (ls_roots st)[k := lineage_relation records (c, r) (Suc d)]"
      proof (rule nth_equalityI)
        fix j assume j: "j < length (map (\<lambda>vr. lineage_relation records vr (the (T' vr))) keys)"
        then have "keys ! j = (c, r) \<longleftrightarrow> j = k"
          using k I nth_eq_iff_index_eq [of keys j k] by auto
        with j I show "map (\<lambda>vr. lineage_relation records vr (the (T' vr))) keys ! j
            = (ls_roots st)[k := lineage_relation records (c, r) (Suc d)] ! j"
          by (auto simp: T'_def nth_list_update)
      qed (use I in simp)
      moreover have "dom T' = dom T" using Some by (auto simp: T'_def)
      ultimately have "heap_inv records n capacity
          (st\<lparr>ls_roots := (ls_roots st)[k := lineage_relation records (c, r) (Suc d)]\<rparr>) keys T'"
        using I by (simp add: heap_inv_def)
      moreover have "(ls_roots st ! k)\<lparr>eo_path_depth := eo_path_depth (ls_roots st ! i) + 1\<rparr>
          = lineage_relation records (c, r) (Suc d)"
        by (simp add: source target lineage_relation_def add.commute)
      ultimately show ?thesis
        unfolding T' using less True k(3)
        by (intro disjI2 exI [of _ "st\<lparr>ls_roots := _\<rparr>"] exI [of _ "[]"])
           (auto simp: merge_relation_def Let_def links_only_def)
    qed
  qed
qed

lemma relax_idem: "relax (relax x y) y = relax x y"
  by (cases x; cases y) simp_all

text \<open>Merging a whole list of relations of \<open>v\<close>.\<close>

definition relaxed :: "depth_table \<Rightarrow> nat \<Rightarrow> nat \<Rightarrow> nat set \<Rightarrow> depth_table" where
  "relaxed T c v rs = (\<lambda>vr. if fst vr = c \<and> snd vr \<in> rs then relax (T vr) (T (v, snd vr)) else T vr)"

lemma relaxed_step:
  assumes "c \<noteq> v"
  shows "relaxed (T((c, r) := relax (T (c, r)) (T (v, r)))) c v rs = relaxed T c v (insert r rs)"
  using assms by (auto simp: relaxed_def relax_idem fun_eq_iff)

text \<open>A propagation that does not fit: more relations than the capacity were found.\<close>

definition overfull :: "nat \<Rightarrow> (nat \<times> nat) set \<Rightarrow> bool" where
  "overfull capacity pairs \<longleftrightarrow> (\<exists>ks. distinct ks \<and> set ks \<subseteq> pairs \<and> capacity < length ks)"

lemma overfull_mono: "overfull capacity A \<Longrightarrow> A \<subseteq> B \<Longrightarrow> overfull capacity B"
  by (auto simp: overfull_def)

lemma overfull_card:
  assumes "overfull capacity A" "finite A"
  shows "capacity < card A"
proof -
  from assms(1) obtain ks where "distinct ks" "set ks \<subseteq> A" "capacity < length ks"
    by (auto simp: overfull_def)
  then show ?thesis using card_mono [OF assms(2)] distinct_card by (metis less_le_trans)
qed

lemma merge_relations_spec:
  assumes ids: "ids_sorted records n" and c: "c < n" "c \<noteq> v" and B: "Suc B < 2 ^ 64"
  shows "heap_inv records n capacity st keys T \<Longrightarrow> chain (ls_next st) relation is
    \<Longrightarrow> \<forall>i \<in> set is. i < length keys \<and> fst (keys ! i) = v
    \<Longrightarrow> \<forall>vr d. T vr = Some d \<longrightarrow> d \<le> B \<Longrightarrow> \<forall>r d. T (v, r) = Some d \<longrightarrow> d < B
    \<Longrightarrow> (merge_relations records capacity c relation st
            = Some (Inl LAPLACE_EVIDENCE_LINEAGE_CAPACITY_INSUFFICIENT)
          \<and> overfull capacity (dom T \<union> {(c, r) | r. T (v, r) \<noteq> None}))
        \<or> (\<exists>st' keys'. merge_relations records capacity c relation st = Some (Inr st')
          \<and> heap_inv records n capacity st' (keys @ keys')
              (relaxed T c v ((\<lambda>i. snd (keys ! i)) ` set is))
          \<and> links_only st st')"
proof (induction "is" arbitrary: relation st keys T)
  case Nil
  then show ?case
    by (intro disjI2 exI [of _ st] exI [of _ "[]"]) (simp add: merge_relations.simps relaxed_def)
next
  case (Cons i "is")
  note inv = Cons.prems(1) and I = Cons.prems(1) [unfolded heap_inv_def]
  define r where "r = snd (keys ! i)"
  have i: "relation = Some i" "i < length keys" "keys ! i = (v, r)"
    using Cons.prems(2,3) by (auto simp: r_def prod_eq_iff)
  then have mem: "(v, r) \<in> dom T" using I by (metis nth_mem)
  then obtain d where d: "T (v, r) = Some d" by blast
  have vr: "v < n" "r < n" using mem I by auto
  have root: "eo_root_node_id (ls_roots st ! i) = el_node_id (records ! r)"
    using I i by (simp add: lineage_relation_def)
  define existing where "existing = find (\<lambda>i. keys ! i = (c, r)) (chain_of keys c)"
  have step: "merge_relations records capacity c relation st =
      (let outcome = merge_relation records capacity c i existing st in
       if isl outcome then Some outcome
       else merge_relations records capacity c (ls_next (projr outcome) ! i) (projr outcome))"
    by (subst merge_relations.simps)
       (simp add: i(1) root heap_find [OF ids inv c(1) vr(2)] existing_def Let_def)
  have bound: "\<forall>w e. T w = Some e \<longrightarrow> Suc e < 2 ^ 64"
  proof (intro allI impI)
    fix w e assume "T w = Some e"
    with Cons.prems(4) have "e \<le> B" by blast
    with B show "Suc e < 2 ^ 64" by simp
  qed
  from heap_merge [where capacity = capacity, OF ids inv i(2,3) d c bound existing_def] show ?case
  proof (elim disjE exE conjE)
    assume *: "merge_relation records capacity c i existing st
        = Inl LAPLACE_EVIDENCE_LINEAGE_CAPACITY_INSUFFICIENT"
      "(c, r) \<notin> set keys" "capacity \<le> length keys"
    then have "overfull capacity (dom T \<union> {(c, r) | r. T (v, r) \<noteq> None})"
      unfolding overfull_def using I d by (intro exI [of _ "keys @ [(c, r)]"]) auto
    with * show ?thesis by (simp add: step)
  next
    fix st1 keys1 extra
    let ?T1 = "T((c, r) := relax (T (c, r)) (T (v, r)))"
    assume m: "merge_relation records capacity c i existing st = Inr st1"
      and inv1: "heap_inv records n capacity st1 (keys @ keys1) ?T1"
      and lo: "links_only st st1" and nx: "ls_next st1 = ls_next st @ extra"
    have next_i: "ls_next st1 ! i = ls_next st ! i"
      using nx i(2) I by (simp add: nth_append)
    have "chain (ls_next st1) (ls_next st1 ! i) is"
      using chain_append [of "ls_next st" "ls_next st ! i" "is" extra] Cons.prems(2) next_i nx
      by simp
    moreover have "\<forall>i \<in> set is. i < length (keys @ keys1) \<and> fst ((keys @ keys1) ! i) = v"
      using Cons.prems(3) by (auto simp: nth_append)
    moreover have "\<forall>vr d. ?T1 vr = Some d \<longrightarrow> d \<le> B"
    proof (intro allI impI)
      fix w e assume e: "?T1 w = Some e"
      have "Suc d \<le> B" using Cons.prems(5) d by (metis Suc_leI)
      with e Cons.prems(4) d show "e \<le> B"
        by (cases w; cases "T (c, r)") (auto split: if_splits)
    qed
    moreover have "\<forall>r d. ?T1 (v, r) = Some d \<longrightarrow> d < B"
      using Cons.prems(5) c(2) by auto
    ultimately have IH: "(merge_relations records capacity c (ls_next st1 ! i) st1
            = Some (Inl LAPLACE_EVIDENCE_LINEAGE_CAPACITY_INSUFFICIENT)
          \<and> overfull capacity (dom ?T1 \<union> {(c, r) | r. ?T1 (v, r) \<noteq> None}))
        \<or> (\<exists>st' keys'. merge_relations records capacity c (ls_next st1 ! i) st1 = Some (Inr st')
          \<and> heap_inv records n capacity st' ((keys @ keys1) @ keys')
              (relaxed ?T1 c v ((\<lambda>i. snd ((keys @ keys1) ! i)) ` set is))
          \<and> links_only st1 st')"
      by (intro Cons.IH inv1)
    have go: "merge_relations records capacity c relation st
        = merge_relations records capacity c (ls_next st1 ! i) st1"
      by (simp add: step m)
    have "(\<lambda>i. snd ((keys @ keys1) ! i)) ` set is = (\<lambda>i. snd (keys ! i)) ` set is"
      using Cons.prems(3) by (auto simp: nth_append image_iff)
    then have table: "relaxed ?T1 c v ((\<lambda>i. snd ((keys @ keys1) ! i)) ` set is)
        = relaxed T c v ((\<lambda>i. snd (keys ! i)) ` set (i # is))"
      using relaxed_step [OF c(2), of T r] by (simp add: r_def)
    have sub: "dom ?T1 \<union> {(c, r) | r. ?T1 (v, r) \<noteq> None} \<subseteq> dom T \<union> {(c, r) | r. T (v, r) \<noteq> None}"
      using c(2) d by (auto split: if_splits)
    from IH show ?thesis
      unfolding go table append_assoc
      using overfull_mono [OF _ sub] links_only_trans [OF lo] by blast
  qed
qed

section \<open>Shortest paths\<close>

text \<open>\<open>E\<close> is the dependence relation, \<open>S\<close> the part of it that has been propagated so far.\<close>

definition is_root :: "(nat \<times> nat) set \<Rightarrow> nat \<Rightarrow> nat \<Rightarrow> bool" where
  "is_root E n r \<longleftrightarrow> r < n \<and> (\<forall>p. (r, p) \<notin> E)"

definition via :: "(nat \<times> nat) set \<Rightarrow> (nat \<times> nat) set \<Rightarrow> nat \<Rightarrow> nat \<Rightarrow> nat set" where
  "via S E v r = {k. v = r \<and> k = 0} \<union> {Suc j | p j. (v, p) \<in> S \<and> (p, r) \<in> E ^^ j}"

definition shortest :: "nat set \<Rightarrow> nat option" where
  "shortest X = (if X = {} then None else Some (LEAST k. k \<in> X))"

definition tab :: "(nat \<times> nat) set \<Rightarrow> nat \<Rightarrow> (nat \<times> nat) set \<Rightarrow> depth_table" where
  "tab E n S = (\<lambda>(v, r). if v < n \<and> is_root E n r then shortest (via S E v r) else None)"

lemma shortest_Some_iff: "shortest X = Some d \<longleftrightarrow> d \<in> X \<and> (\<forall>k \<in> X. d \<le> k)"
  unfolding shortest_def
  by (auto intro: LeastI Least_le Least_equality)

lemma shortest_empty [simp]: "shortest {} = None"
  by (simp add: shortest_def)

lemma shortest_None_iff: "shortest X = None \<longleftrightarrow> X = {}"
  by (simp add: shortest_def)

lemma shortest_Un_Suc: "shortest (X \<union> Suc ` Y) = relax (shortest X) (shortest Y)"
proof (cases "shortest X"; cases "shortest Y")
  fix d e assume "shortest X = Some d" "shortest Y = Some e"
  then have "shortest (X \<union> Suc ` Y) = Some (min d (Suc e))"
    unfolding shortest_Some_iff by (auto simp: min_def)
  with \<open>shortest X = Some d\<close> \<open>shortest Y = Some e\<close> show ?thesis by simp
next
  fix e assume *: "shortest X = None" "shortest Y = Some e"
  then have "shortest (X \<union> Suc ` Y) = Some (Suc e)"
    unfolding shortest_Some_iff by (auto simp: shortest_None_iff)
  with * show ?thesis by simp
qed (auto simp: shortest_None_iff)

lemma via_all: "via E E v r = {k. (v, r) \<in> E ^^ k}"
proof (intro set_eqI iffI)
  fix k assume "k \<in> via E E v r"
  then show "k \<in> {k. (v, r) \<in> E ^^ k}"
    by (auto simp: via_def simp del: relpow.simps intro: relpow_Suc_I2) (simp add: relpow.simps)
next
  fix k assume k: "k \<in> {k. (v, r) \<in> E ^^ k}"
  show "k \<in> via E E v r"
  proof (cases k)
    case 0
    with k show ?thesis by (simp add: via_def)
  next
    case (Suc j)
    with k relpow_Suc_D2 [of v r j E] show ?thesis by (auto simp: via_def simp del: relpow.simps)
  qed
qed

lemma via_settled:
  assumes "S \<subseteq> E" "\<And>p. (v, p) \<in> E \<Longrightarrow> (v, p) \<in> S"
  shows "via S E v r = via E E v r"
  using assms by (auto simp: via_def)

lemma via_insert:
  "via (insert (c, v) S) E w r = (if w = c then via S E c r \<union> Suc ` {k. (v, r) \<in> E ^^ k} else via S E w r)"
  by (auto simp: via_def)

lemma tab_insert:
  assumes "S \<subseteq> E" and settled: "\<forall>p. (v, p) \<in> E \<longrightarrow> (v, p) \<in> S" and "v < n" "c < n"
  shows "relaxed (tab E n S) c v {r. tab E n S (v, r) \<noteq> None} = tab E n (insert (c, v) S)"
proof
  fix wr :: "nat \<times> nat"
  obtain w r where wr: "wr = (w, r)" by fastforce
  have "shortest (via S E c r \<union> Suc ` {k. (v, r) \<in> E ^^ k})
      = relax (shortest (via S E c r)) (shortest (via S E v r))"
    by (simp add: shortest_Un_Suc via_settled [OF assms(1)] settled via_all)
  then show "relaxed (tab E n S) c v {r. tab E n S (v, r) \<noteq> None} wr = tab E n (insert (c, v) S) wr"
    using \<open>v < n\<close> \<open>c < n\<close> by (auto simp: relaxed_def wr tab_def via_insert shortest_None_iff)
qed

lemma dom_tab: "(v, r) \<in> dom (tab E n S) \<longleftrightarrow> v < n \<and> is_root E n r \<and> via S E v r \<noteq> {}"
  by (auto simp: tab_def shortest_def split: if_splits)

lemma dom_tab_subset: "dom (tab E n S) \<subseteq> {..<n} \<times> {..<n}"
  by (auto simp: tab_def is_root_def split: if_splits)

lemma dom_tab_mono:
  assumes "S \<subseteq> S'"
  shows "dom (tab E n S) \<subseteq> dom (tab E n S')"
proof (rule subrelI)
  fix v r assume "(v, r) \<in> dom (tab E n S)"
  moreover have "via S E v r \<subseteq> via S' E v r" using assms by (auto simp: via_def)
  ultimately show "(v, r) \<in> dom (tab E n S')" unfolding dom_tab by blast
qed

lemma dom_tab_all:
  "(v, r) \<in> dom (tab E n E) \<longleftrightarrow> v < n \<and> is_root E n r \<and> (v, r) \<in> E\<^sup>*"
  unfolding dom_tab via_all by (auto simp: rtrancl_is_UN_relpow)

text \<open>The depths after one more dependence of nodes whose own depths are bounded.\<close>

lemma tab_insert_bound:
  assumes "S \<subseteq> E" "\<forall>p. (v, p) \<in> E \<longrightarrow> (v, p) \<in> S" "v < n" "c < n"
    and "\<forall>w d. tab E n S w = Some d \<longrightarrow> d \<le> B" "\<forall>r d. tab E n S (v, r) = Some d \<longrightarrow> d < B"
    and "tab E n (insert (c, v) S) w = Some d"
  shows "d \<le> B"
proof -
  obtain x r where w: "w = (x, r)" by fastforce
  have "relaxed (tab E n S) c v {r. tab E n S (v, r) \<noteq> None} = tab E n (insert (c, v) S)"
    by (rule tab_insert [OF assms(1-4)])
  with assms(7) have "relaxed (tab E n S) c v {r. tab E n S (v, r) \<noteq> None} (x, r) = Some d"
    by (simp only: w)
  then consider "tab E n S (x, r) = Some d"
    | "relax (tab E n S (x, r)) (tab E n S (v, r)) = Some d" "tab E n S (v, r) \<noteq> None"
    by (auto simp: relaxed_def split: if_splits)
  then show ?thesis
  proof cases
    case 1
    with assms(5) show ?thesis by blast
  next
    case 2
    then obtain e where e: "tab E n S (v, r) = Some e" by blast
    with assms(6) have "Suc e \<le> B" by (metis Suc_leI)
    with 2 e show ?thesis by (cases "tab E n S (x, r)") auto
  qed
qed

section \<open>The propagation loop\<close>

definition work_inv ::
  "laplace_evidence_lineage_record list \<Rightarrow> nat \<Rightarrow> nat \<Rightarrow> (nat \<times> nat) set \<Rightarrow> lineage_state
     \<Rightarrow> (nat \<times> nat) list \<Rightarrow> (nat \<times> nat) set \<Rightarrow> bool" where
  "work_inv records n capacity E st keys S \<longleftrightarrow>
     heap_inv records n capacity st keys (tab E n S) \<and> S \<subseteq> E
     \<and> length (ls_dependency_count st) = n
     \<and> (\<forall>v < n. ls_dependency_count st ! v = card {p. (v, p) \<in> E - S})
     \<and> distinct (ls_queue st) \<and> set (ls_queue st) = {v. v < n \<and> ls_dependency_count st ! v = 0}"

lemma chain_of_roots:
  assumes "set keys = dom T"
  shows "(\<lambda>i. snd (keys ! i)) ` set (chain_of keys v) = {r. T (v, r) \<noteq> None}"
proof -
  have "(\<lambda>i. snd (keys ! i)) ` set (chain_of keys v) = {r. (v, r) \<in> set keys}"
    by (force simp: set_chain_of in_set_conv_nth image_iff)
  with assms show ?thesis by auto
qed

lemma finite_parents: "finite E \<Longrightarrow> finite {p. (v, p) \<in> E - S}"
  by (rule finite_subset [of _ "snd ` E"]) (auto intro: rev_image_eqI)

lemma push_child:
  assumes ids: "ids_sorted records n" and E: "E \<subseteq> {..<n} \<times> {..<n}" "finite E"
    and inv: "work_inv records n capacity E st keys S"
    and v: "v < n" "\<forall>p. (v, p) \<in> E \<longrightarrow> (v, p) \<in> S" and c: "(c, v) \<in> E - S" "c \<noteq> v"
    and B: "\<forall>w d. tab E n S w = Some d \<longrightarrow> d \<le> B" "\<forall>r d. tab E n S (v, r) = Some d \<longrightarrow> d < B"
      "Suc B < 2 ^ 64"
  shows "(merge_relations records capacity c (ls_heads st ! v) st
            = Some (Inl LAPLACE_EVIDENCE_LINEAGE_CAPACITY_INSUFFICIENT)
          \<and> overfull capacity (dom (tab E n E)))
        \<or> (\<exists>st' keys' counts. merge_relations records capacity c (ls_heads st ! v) st = Some (Inr st')
          \<and> links_only st st'
          \<and> counts = (ls_dependency_count st)[c := size_decrement (ls_dependency_count st ! c)]
          \<and> work_inv records n capacity E (st'\<lparr>ls_dependency_count := counts,
                 ls_queue := ls_queue st' @ (if counts ! c = 0 then [c] else [])\<rparr>)
              keys' (insert (c, v) S))"
proof -
  note I = inv [unfolded work_inv_def]
  then have heap: "heap_inv records n capacity st keys (tab E n S)" and "S \<subseteq> E" by blast+
  note H = heap [unfolded heap_inv_def]
  have "c < n" using c E by auto
  have rs: "(\<lambda>i. snd (keys ! i)) ` set (chain_of keys v) = {r. tab E n S (v, r) \<noteq> None}"
    using H by (intro chain_of_roots) blast
  have chain: "chain (ls_next st) (ls_heads st ! v) (chain_of keys v)"
    using H v(1) by blast
  have mem: "\<forall>i \<in> set (chain_of keys v). i < length keys \<and> fst (keys ! i) = v"
    by (simp add: set_chain_of)
  from merge_relations_spec [where capacity = capacity, OF ids \<open>c < n\<close> c(2) B(3) heap chain mem B(1,2)]
  show ?thesis
    unfolding rs tab_insert [OF \<open>S \<subseteq> E\<close> v(2,1) \<open>c < n\<close>]
  proof (elim disjE exE conjE)
    assume full: "overfull capacity (dom (tab E n S) \<union> {(c, r) | r. tab E n S (v, r) \<noteq> None})"
      and m: "merge_relations records capacity c (ls_heads st ! v) st
            = Some (Inl LAPLACE_EVIDENCE_LINEAGE_CAPACITY_INSUFFICIENT)"
    have "(c, r) \<in> dom (tab E n E)" if "tab E n S (v, r) \<noteq> None" for r
    proof -
      from that dom_tab_mono [OF \<open>S \<subseteq> E\<close>] have "(v, r) \<in> dom (tab E n E)" by blast
      with c \<open>c < n\<close> show ?thesis by (auto simp: dom_tab_all intro: converse_rtrancl_into_rtrancl)
    qed
    then have "dom (tab E n S) \<union> {(c, r) | r. tab E n S (v, r) \<noteq> None} \<subseteq> dom (tab E n E)"
      using dom_tab_mono [OF \<open>S \<subseteq> E\<close>] by blast
    with m full show ?thesis using overfull_mono by blast
  next
    fix st' keys'
    assume m: "merge_relations records capacity c (ls_heads st ! v) st = Some (Inr st')"
      and heap': "heap_inv records n capacity st' (keys @ keys') (tab E n (insert (c, v) S))"
      and lo: "links_only st st'"
    define counts where
      "counts = (ls_dependency_count st)[c := size_decrement (ls_dependency_count st ! c)]"
    have rest: "{p. (w, p) \<in> E - insert (c, v) S} =
        (if w = c then {p. (c, p) \<in> E - S} - {v} else {p. (w, p) \<in> E - S})" for w
      by auto
    have fin: "finite {p. (c, p) \<in> E - S}" by (rule finite_parents [OF E(2)])
    have card: "card {p. (c, p) \<in> E - S} = Suc (card ({p. (c, p) \<in> E - S} - {v}))"
      by (rule card_Suc_Diff1 [OF fin, symmetric]) (use c(1) in simp)
    have counts: "counts ! w = card {p. (w, p) \<in> E - insert (c, v) S}" if "w < n" for w
      using I that \<open>c < n\<close> card unfolding rest counts_def
      by (auto simp: nth_list_update size_decrement_def)
    have before: "ls_dependency_count st ! c \<noteq> 0"
      using I \<open>c < n\<close> card by simp
    have "distinct (ls_queue st' @ (if counts ! c = 0 then [c] else []))"
      using I before by (auto simp: links_onlyD [OF lo])
    moreover have "set (ls_queue st' @ (if counts ! c = 0 then [c] else [])) = {w. w < n \<and> counts ! w = 0}"
      using I before \<open>c < n\<close> by (auto simp: links_onlyD [OF lo] counts_def nth_list_update)
    ultimately have "work_inv records n capacity E (st'\<lparr>ls_dependency_count := counts,
          ls_queue := ls_queue st' @ (if counts ! c = 0 then [c] else [])\<rparr>) (keys @ keys') (insert (c, v) S)"
      using heap' counts c(1) \<open>S \<subseteq> E\<close> I unfolding work_inv_def
      by (simp add: counts_def)
    with m lo show ?thesis unfolding counts_def by blast
  qed
qed

lemma tab_insert_other: "w \<noteq> c \<Longrightarrow> tab E n (insert (c, v) S) (w, r) = tab E n S (w, r)"
  by (simp add: tab_def via_insert)

text \<open>The queue, its start and the processed marks are those of \<open>st\<close>, up to appended entries.\<close>

definition queue_extends :: "lineage_state \<Rightarrow> lineage_state \<Rightarrow> bool" where
  "queue_extends st st' \<longleftrightarrow>
     (\<exists>qs. ls_queue st' = ls_queue st @ qs) \<and> ls_queue_begin st' = ls_queue_begin st
     \<and> ls_processed st' = ls_processed st \<and> ls_processed_count st' = ls_processed_count st"

lemma queue_extends_refl [simp]: "queue_extends st st"
  by (simp add: queue_extends_def)

lemma queue_extends_trans: "queue_extends a b \<Longrightarrow> queue_extends b c \<Longrightarrow> queue_extends a c"
  by (auto simp: queue_extends_def)

lemma push_children_spec:
  assumes ids: "ids_sorted records n" and E: "E \<subseteq> {..<n} \<times> {..<n}" "finite E"
    and v: "v < n" and B: "Suc B < 2 ^ 64"
  shows "work_inv records n capacity E st keys S \<Longrightarrow> distinct cs
    \<Longrightarrow> \<forall>p. (v, p) \<in> E \<longrightarrow> (v, p) \<in> S \<Longrightarrow> \<forall>c \<in> set cs. (c, v) \<in> E - S \<and> c \<noteq> v
    \<Longrightarrow> \<forall>w d. tab E n S w = Some d \<longrightarrow> d \<le> B \<Longrightarrow> \<forall>r d. tab E n S (v, r) = Some d \<longrightarrow> d < B
    \<Longrightarrow> (push_children records capacity v cs st
            = Some (Inl LAPLACE_EVIDENCE_LINEAGE_CAPACITY_INSUFFICIENT)
          \<and> overfull capacity (dom (tab E n E)))
        \<or> (\<exists>st' keys'. push_children records capacity v cs st = Some (Inr st')
          \<and> work_inv records n capacity E st' keys' (S \<union> (\<lambda>c. (c, v)) ` set cs)
          \<and> queue_extends st st'
          \<and> (\<forall>w d. tab E n (S \<union> (\<lambda>c. (c, v)) ` set cs) w = Some d \<longrightarrow> d \<le> B))"
proof (induction cs arbitrary: st keys S)
  case Nil
  then show ?case by auto
next
  case (Cons c cs)
  have c: "(c, v) \<in> E - S" "c \<noteq> v" "c < n" and "S \<subseteq> E"
    using Cons.prems(1,4) E by (auto simp: work_inv_def)
  from push_child [where capacity = capacity, OF ids E Cons.prems(1) v Cons.prems(3) c(1,2)
      Cons.prems(5,6) B]
  show ?case
  proof (elim disjE exE conjE)
    fix st1 :: lineage_state and keys1 counts
    let ?st2 = "st1\<lparr>ls_dependency_count := counts,
                 ls_queue := ls_queue st1 @ (if counts ! c = 0 then [c] else [])\<rparr>"
    assume m: "merge_relations records capacity c (ls_heads st ! v) st = Some (Inr st1)"
      and lo: "links_only st st1"
      and counts: "counts = (ls_dependency_count st)[c := size_decrement (ls_dependency_count st ! c)]"
      and inv: "work_inv records n capacity E ?st2 keys1 (insert (c, v) S)"
    have go: "push_children records capacity v (c # cs) st = push_children records capacity v cs ?st2"
      using links_onlyD(1) [OF lo] by (simp add: m counts Let_def)
    have ext: "queue_extends st ?st2"
      using lo by (auto simp: queue_extends_def links_onlyD)
    have sets: "insert (c, v) S \<union> (\<lambda>c. (c, v)) ` set cs = S \<union> (\<lambda>c. (c, v)) ` set (c # cs)"
      by auto
    have "(push_children records capacity v cs ?st2
            = Some (Inl LAPLACE_EVIDENCE_LINEAGE_CAPACITY_INSUFFICIENT)
          \<and> overfull capacity (dom (tab E n E)))
        \<or> (\<exists>st' keys'. push_children records capacity v cs ?st2 = Some (Inr st')
          \<and> work_inv records n capacity E st' keys' (insert (c, v) S \<union> (\<lambda>c. (c, v)) ` set cs)
          \<and> queue_extends ?st2 st'
          \<and> (\<forall>w d. tab E n (insert (c, v) S \<union> (\<lambda>c. (c, v)) ` set cs) w = Some d \<longrightarrow> d \<le> B))"
    proof (rule Cons.IH [OF inv])
      show "\<forall>w d. tab E n (insert (c, v) S) w = Some d \<longrightarrow> d \<le> B"
        using tab_insert_bound [OF \<open>S \<subseteq> E\<close> Cons.prems(3) v c(3) Cons.prems(5,6)] by blast
      show "\<forall>r d. tab E n (insert (c, v) S) (v, r) = Some d \<longrightarrow> d < B"
        using Cons.prems(6) c(2) by (simp add: tab_insert_other)
    qed (use Cons.prems in auto)
    then show ?case
      unfolding go sets using queue_extends_trans [OF ext] by blast
  qed (rule disjI1, simp)
qed

text \<open>Before each turn the dependences on the processed nodes have been propagated, and no depth
  exceeds the number of processed nodes.\<close>

definition drain_inv ::
  "laplace_evidence_lineage_record list \<Rightarrow> nat \<Rightarrow> nat \<Rightarrow> (nat \<times> nat) set \<Rightarrow> lineage_state
     \<Rightarrow> (nat \<times> nat) list \<Rightarrow> bool" where
  "drain_inv records n capacity E st keys \<longleftrightarrow>
     (let b = ls_queue_begin st; S = {(w, p). (w, p) \<in> E \<and> p \<in> set (take b (ls_queue st))} in
      work_inv records n capacity E st keys S \<and> b \<le> length (ls_queue st) \<and> ls_processed_count st = b
      \<and> (\<forall>w d. tab E n S w = Some d \<longrightarrow> d \<le> b))"

lemma work_inv_frame:
  "work_inv records n capacity E (st\<lparr>ls_queue_begin := a, ls_processed := b, ls_processed_count := c\<rparr>) keys S
     \<longleftrightarrow> work_inv records n capacity E st keys S"
  by (simp add: work_inv_def)

lemma drain_step:
  assumes ids: "ids_sorted records n" and E: "E \<subseteq> {..<n} \<times> {..<n}" "finite E" "irrefl E"
    and n: "Suc n < 2 ^ 64" and inv: "drain_inv records n capacity E st keys"
    and more: "ls_queue_begin st < length (ls_queue st)"
    and cs: "distinct cs" "set cs = {c. (c, ls_queue st ! ls_queue_begin st) \<in> E}"
  defines "v \<equiv> ls_queue st ! ls_queue_begin st"
  defines "st0 \<equiv> st\<lparr>ls_queue_begin := ls_queue_begin st + 1,
                 ls_processed := (ls_processed st)[v := 1],
                 ls_processed_count := ls_processed_count st + 1\<rparr>"
  shows "(push_children records capacity v cs st0
            = Some (Inl LAPLACE_EVIDENCE_LINEAGE_CAPACITY_INSUFFICIENT)
          \<and> overfull capacity (dom (tab E n E)))
        \<or> (\<exists>st' keys'. push_children records capacity v cs st0 = Some (Inr st')
          \<and> drain_inv records n capacity E st' keys' \<and> ls_queue_begin st' = ls_queue_begin st + 1)"
proof -
  let ?b = "ls_queue_begin st"
  let ?S = "{(w, p). (w, p) \<in> E \<and> p \<in> set (take ?b (ls_queue st))}"
  note D = inv [unfolded drain_inv_def Let_def]
  then have W: "work_inv records n capacity E st keys ?S" by blast
  note I = W [unfolded work_inv_def]
  have queue: "v \<in> set (ls_queue st)" "v \<notin> set (take ?b (ls_queue st))"
    "set (take (Suc ?b) (ls_queue st)) = insert v (set (take ?b (ls_queue st)))"
  proof -
    show "v \<in> set (ls_queue st)" using more by (simp add: v_def)
    have "ls_queue st = take ?b (ls_queue st) @ v # drop (Suc ?b) (ls_queue st)"
      using more by (simp add: v_def id_take_nth_drop)
    moreover have "distinct (ls_queue st)" using I by blast
    ultimately show "v \<notin> set (take ?b (ls_queue st))"
      by (metis distinct_append distinct.simps(2) disjoint_iff list.set_intros(1))
    show "set (take (Suc ?b) (ls_queue st)) = insert v (set (take ?b (ls_queue st)))"
      using more by (simp add: v_def take_Suc_conv_app_nth)
  qed
  have v: "v < n" "ls_dependency_count st ! v = 0"
    using queue(1) I by simp_all
  have dep: "\<forall>w < n. ls_dependency_count st ! w = card {p. (w, p) \<in> E - ?S}"
    using I by (elim conjE)
  have zero: "card {p. (v, p) \<in> E - ?S} = 0"
    using dep [rule_format, OF v(1)] v(2) by (simp only:)
  have "{p. (v, p) \<in> E - ?S} = {}"
    by (rule iffD1 [OF card_0_eq [OF finite_parents [OF E(2)]] zero])
  then have settled: "\<forall>p. (v, p) \<in> E \<longrightarrow> (v, p) \<in> ?S" by blast
  have new: "\<forall>c \<in> set cs. (c, v) \<in> E - ?S \<and> c \<noteq> v"
  proof
    fix c assume "c \<in> set cs"
    then have "(c, v) \<in> E" using cs(2) by (simp add: v_def)
    with queue(2) E(3) show "(c, v) \<in> E - ?S \<and> c \<noteq> v" by (auto simp: irrefl_def)
  qed
  have len: "length (ls_queue st) \<le> n"
  proof -
    have "card (set (ls_queue st)) \<le> card {..<n}"
      using I by (intro card_mono) auto
    moreover have "distinct (ls_queue st)" using I by blast
    ultimately show ?thesis by (simp add: distinct_card)
  qed
  have bound: "Suc (Suc ?b) < 2 ^ 64" using more len n by simp
  have B: "\<forall>w d. tab E n ?S w = Some d \<longrightarrow> d \<le> Suc ?b" "\<forall>r d. tab E n ?S (v, r) = Some d \<longrightarrow> d < Suc ?b"
    using D by (auto simp: less_Suc_eq_le intro: le_SucI)
  have W0: "work_inv records n capacity E st0 keys ?S"
    using W unfolding st0_def work_inv_frame .
  have S': "?S \<union> (\<lambda>c. (c, v)) ` set cs
      = {(w, p). (w, p) \<in> E \<and> p \<in> set (take (Suc ?b) (ls_queue st))}"
    unfolding queue(3) using cs(2) by (auto simp: v_def)
  from push_children_spec [where capacity = capacity,
      OF ids E(1,2) v(1) bound W0 cs(1) settled new B]
  show ?thesis
  proof (elim disjE exE conjE)
    fix st' keys'
    assume p: "push_children records capacity v cs st0 = Some (Inr st')"
      and w': "work_inv records n capacity E st' keys' (?S \<union> (\<lambda>c. (c, v)) ` set cs)"
      and ext: "queue_extends st0 st'"
      and b': "\<forall>w d. tab E n (?S \<union> (\<lambda>c. (c, v)) ` set cs) w = Some d \<longrightarrow> d \<le> Suc ?b"
    have begin': "ls_queue_begin st' = Suc ?b" "ls_processed_count st' = Suc ?b"
      using ext D by (auto simp: queue_extends_def st0_def)
    moreover have "take (Suc ?b) (ls_queue st') = take (Suc ?b) (ls_queue st)"
      "Suc ?b \<le> length (ls_queue st')"
      using ext more by (auto simp: queue_extends_def st0_def)
    ultimately have "drain_inv records n capacity E st' keys'"
      using w' b' unfolding drain_inv_def Let_def S' by simp
    with p begin' show ?thesis by auto
  qed simp
qed

lemma children_of_distinct:
  assumes "distinct edges"
  shows "distinct (children_of edges p)" "set (children_of edges p) = {c. (c, p) \<in> edge_rel edges}"
proof -
  have "inj_on le_child (set (filter (\<lambda>e. le_parent e = p) edges))"
    by (auto simp: inj_on_def)
  with assms show "distinct (children_of edges p)"
    by (simp add: children_of_def distinct_map)
  show "set (children_of edges p) = {c. (c, p) \<in> edge_rel edges}"
    by (auto simp: children_of_def edge_rel_def)
qed

text \<open>On an acyclic graph a set of nodes that contains every node all of whose dependences it
  contains is everything.\<close>

lemma acyclic_closed_all:
  assumes "acyclic E" "finite E" and "E \<subseteq> {..<n} \<times> {..<n}"
    and closed: "\<And>v. v < n \<Longrightarrow> \<forall>p. (v, p) \<in> E \<longrightarrow> p \<in> P \<Longrightarrow> v \<in> P"
  shows "v < n \<Longrightarrow> v \<in> P"
proof (induction v rule: wf_induct_rule [OF finite_acyclic_wf_converse [OF assms(2,1)]])
  case (1 v)
  then show ?case using closed [of v] assms(3) by blast
qed

lemma drain_queue_spec:
  assumes ids: "ids_sorted records n" and edges: "distinct edges" "E = edge_rel edges"
    and E: "E \<subseteq> {..<n} \<times> {..<n}" "acyclic E" and n: "Suc n < 2 ^ 64"
    and tables: "\<forall>v < n. map ((!) children) [offs ! v..<offs ! (v + 1)] = children_of edges v"
    and inv: "drain_inv records n capacity E st keys"
  shows "(drain_queue records capacity (offs, children) st
            = Some (Inl LAPLACE_EVIDENCE_LINEAGE_CAPACITY_INSUFFICIENT)
          \<and> overfull capacity (dom (tab E n E)))
        \<or> (\<exists>st' keys'. drain_queue records capacity (offs, children) st = Some (Inr st')
          \<and> heap_inv records n capacity st' keys' (tab E n E) \<and> ls_processed_count st' = n
          \<and> (\<forall>w d. tab E n E w = Some d \<longrightarrow> d \<le> n))"
  using inv
proof (induction "n - ls_queue_begin st" arbitrary: st keys rule: less_induct)
  case less
  have fin: "finite E" and irr: "irrefl E"
    using edges(2) E(2) by (auto simp: edge_rel_def acyclic_irrefl irrefl_def acyclic_def)
  let ?b = "ls_queue_begin st"
  let ?S = "{(w, p). (w, p) \<in> E \<and> p \<in> set (take ?b (ls_queue st))}"
  note D = less.prems [unfolded drain_inv_def Let_def]
  then have W: "work_inv records n capacity E st keys ?S" by blast
  note I = W [unfolded work_inv_def]
  show ?case
  proof (cases "?b < length (ls_queue st)")
    case False
    then have all: "take ?b (ls_queue st) = ls_queue st" "?b = length (ls_queue st)"
      using D by auto
    have S: "?S = {(w, p). (w, p) \<in> E \<and> p \<in> set (ls_queue st)}"
      unfolding all(1) ..
    have dep: "\<forall>w < n. ls_dependency_count st ! w = card {p. (w, p) \<in> E - ?S}"
      using I by (elim conjE)
    have queue: "set (ls_queue st) = {v. v < n \<and> ls_dependency_count st ! v = 0}"
      using I by (elim conjE)
    have distinct: "distinct (ls_queue st)"
      using I by (elim conjE)
    have member: "v \<in> set (ls_queue st)" if "v < n" for v
    proof (rule acyclic_closed_all [OF E(2) fin E(1) _ that])
      fix v assume v: "v < n" "\<forall>p. (v, p) \<in> E \<longrightarrow> p \<in> set (ls_queue st)"
      then have none: "{p. (v, p) \<in> E - ?S} = {}" unfolding S by blast
      have "ls_dependency_count st ! v = 0"
        using dep [rule_format, OF v(1)] unfolding none by simp
      with v(1) show "v \<in> set (ls_queue st)" unfolding queue by blast
    qed
    then have "set (ls_queue st) = {..<n}" using queue by blast
    with distinct have "length (ls_queue st) = n"
      by (metis card_lessThan distinct_card)
    moreover have SE: "?S = E" unfolding S using member E(1) by auto
    moreover have "heap_inv records n capacity st keys (tab E n ?S)" using I by (elim conjE)
    moreover have "ls_processed_count st = ?b" using D by (elim conjE)
    moreover have "\<forall>w d. tab E n ?S w = Some d \<longrightarrow> d \<le> ?b" using D by (elim conjE)
    ultimately have "heap_inv records n capacity st keys (tab E n E)" "ls_processed_count st = n"
      "\<forall>w d. tab E n E w = Some d \<longrightarrow> d \<le> n"
      unfolding SE using all(2) by simp_all
    with False show ?thesis by (subst (1 2) drain_queue.simps) auto
  next
    case True
    define v where "v = ls_queue st ! ?b"
    have "v \<in> set (ls_queue st)" using True by (simp add: v_def)
    moreover have "set (ls_queue st) = {v. v < n \<and> ls_dependency_count st ! v = 0}"
      using I by (elim conjE)
    ultimately have v: "v < n" by blast
    define cs where "cs = map ((!) children) [offs ! v..<offs ! (v + 1)]"
    have cs: "distinct cs" "set cs = {c. (c, v) \<in> E}"
      using tables v children_of_distinct [OF edges(1)] edges(2) by (auto simp: cs_def)
    define st0 where "st0 = st\<lparr>ls_queue_begin := ?b + 1, ls_processed := (ls_processed st)[v := 1],
                 ls_processed_count := ls_processed_count st + 1\<rparr>"
    have go: "drain_queue records capacity (offs, children) st =
        Option.bind (push_children records capacity v cs st0)
          (\<lambda>outcome. if isl outcome then Some outcome
                    else drain_queue records capacity (offs, children) (projr outcome))"
      by (subst drain_queue.simps) (simp add: True v_def cs_def st0_def Let_def)
    from drain_step [where capacity = capacity,
        OF ids E(1) fin irr n less.prems True cs(1) cs(2) [unfolded v_def]]
    show ?thesis
      unfolding v_def [symmetric] st0_def [symmetric]
    proof (elim disjE exE conjE)
      fix st' keys'
      assume p: "push_children records capacity v cs st0 = Some (Inr st')"
        and d: "drain_inv records n capacity E st' keys'" and b: "ls_queue_begin st' = ?b + 1"
      have "card (set (ls_queue st)) \<le> card {..<n}"
        using I by (intro card_mono) auto
      moreover have "distinct (ls_queue st)" using I by blast
      ultimately have "?b < n" using True by (simp add: distinct_card)
      with less.hyps [OF _ d] b show ?thesis unfolding go by (simp add: p)
    qed (simp add: go)
  qed
qed

section \<open>The seeds\<close>

definition seed_tab :: "(nat \<times> nat) set \<Rightarrow> nat \<Rightarrow> nat set \<Rightarrow> depth_table" where
  "seed_tab E n X = (\<lambda>(v, r). if v = r \<and> v \<in> X \<and> is_root E n v then Some 0 else None)"

lemma own_root_relation: "own_root (records ! v) = lineage_relation records (v, v) 0"
  by (simp add: own_root_def lineage_relation_def LAPLACE_EVIDENCE_FLAGS_NONE_def)

lemma seed_roots_spec:
  assumes roots: "\<forall>v < n. ls_dependency_count st ! v = 0 \<longleftrightarrow> is_root E n v"
  shows "heap_inv records n capacity st keys (seed_tab E n (set pre)) \<Longrightarrow> distinct (pre @ post)
    \<Longrightarrow> set (pre @ post) = {..<n} \<Longrightarrow> ls_queue st = filter (is_root E n) pre
    \<Longrightarrow> (seed_roots records capacity post st
            = Inl LAPLACE_EVIDENCE_LINEAGE_CAPACITY_INSUFFICIENT
          \<and> overfull capacity (dom (tab E n E)))
        \<or> (\<exists>st' keys'. seed_roots records capacity post st = Inr st'
          \<and> heap_inv records n capacity st' keys' (seed_tab E n {..<n})
          \<and> ls_queue st' = filter (is_root E n) (pre @ post)
          \<and> ls_dependency_count st' = ls_dependency_count st
          \<and> ls_queue_begin st' = ls_queue_begin st \<and> ls_processed_count st' = ls_processed_count st)"
  using roots
proof (induction post arbitrary: st keys pre)
  case Nil
  then show ?case by auto
next
  case (Cons v post)
  have v: "v < n" "v \<notin> set pre" using Cons.prems(2,3) by auto
  have sets: "distinct ((pre @ [v]) @ post)" "set ((pre @ [v]) @ post) = {..<n}"
    using Cons.prems(2,3) by simp_all
  show ?case
  proof (cases "is_root E n v")
    case False
    then have "seed_tab E n (set (pre @ [v])) = seed_tab E n (set pre)"
      by (auto simp: seed_tab_def fun_eq_iff)
    with Cons.IH [OF _ sets, of st keys] Cons.prems(1,4,5) False v show ?thesis by simp
  next
    case True
    let ?T = "seed_tab E n (set pre)"
    have new: "(v, v) \<notin> dom ?T" using v(2) by (auto simp: seed_tab_def)
    have T': "?T((v, v) \<mapsto> 0) = seed_tab E n (set (pre @ [v]))"
      using True by (auto simp: seed_tab_def fun_eq_iff)
    have dep: "ls_dependency_count st ! v = 0" using Cons.prems(5) True v by blast
    note H = Cons.prems(1) [unfolded heap_inv_def]
    show ?thesis
    proof (cases "length keys < capacity")
      case False
      have "dom ?T \<union> {(v, v)} \<subseteq> dom (tab E n E)"
      proof (rule subrelI)
        have pre: "\<And>w. w \<in> set pre \<Longrightarrow> w < n" using Cons.prems(3) by auto
        fix a b assume "(a, b) \<in> dom ?T \<union> {(v, v)}"
        then have "a = b" "a \<in> insert v (set pre)" "is_root E n b"
          using True by (auto simp: seed_tab_def split: if_splits)
        with pre v(1) have "a = b" "a < n" "is_root E n b" by auto
        then show "(a, b) \<in> dom (tab E n E)" by (simp add: dom_tab_all)
      qed
      moreover have "overfull capacity (dom ?T \<union> {(v, v)})"
        unfolding overfull_def using H new False by (intro exI [of _ "keys @ [(v, v)]"]) auto
      ultimately have "overfull capacity (dom (tab E n E))" by (metis overfull_mono)
      moreover have "length (ls_roots st) = length keys" using H by simp
      ultimately show ?thesis using dep False by (simp add: publish_relation_def)
    next
      case room: True
      obtain st1 where st1:
        "publish_relation capacity v (lineage_relation records (v, v) 0) st = Inr st1"
        "heap_inv records n capacity st1 (keys @ [(v, v)]) (?T((v, v) \<mapsto> 0))" "links_only st st1"
        by (rule heap_publish [OF Cons.prems(1) new v(1) v(1) room])
      let ?st2 = "st1\<lparr>ls_queue := ls_queue st1 @ [v]\<rparr>"
      have go: "seed_roots records capacity (v # post) st = seed_roots records capacity post ?st2"
        using dep st1(1) by (simp add: own_root_relation)
      have "heap_inv records n capacity ?st2 (keys @ [(v, v)]) (seed_tab E n (set (pre @ [v])))"
        using st1(2) unfolding T' by simp
      from Cons.IH [OF this sets] Cons.prems(4,5) True links_onlyD [OF st1(3)]
      show ?thesis unfolding go by simp
    qed
  qed
qed

lemma seed_tab_start: "seed_tab E n {..<n} = tab E n {}"
proof
  fix vr :: "nat \<times> nat"
  obtain v r where vr: "vr = (v, r)" by fastforce
  have "shortest {k. v = r \<and> k = (0 :: nat)} = (if v = r then Some 0 else None)"
    by (auto simp: shortest_Some_iff)
  then show "seed_tab E n {..<n} vr = tab E n {} vr"
    by (auto simp: vr seed_tab_def tab_def via_def is_root_def)
qed

end
