(* ===== verification/Evidence_Lineage.thy ===== *)
theory Evidence_Lineage
  imports Lineage_Roots
begin

text \<open>
  Evidence lineage, the batch operation (\<open>engine/src/evidence_lineage.c\<close>): the records of a batch
  are checked, linked, searched for cycles and propagated, and the resulting root relations are
  sorted and put under a receipt.  The properties say that the operation returns on every input,
  which batches it records, what relations it then publishes, and that a rejected cycle is shown.
\<close>

section \<open>The operation\<close>

text \<open>Element counts and sizes of the arrays, in the order they are added up.\<close>

definition lineage_allocations :: "nat \<Rightarrow> nat \<Rightarrow> nat \<Rightarrow> (nat \<times> nat) list" where
  "lineage_allocations node_count edge_count root_capacity =
     [(edge_count, 16), (node_count, 8), (node_count + 1, 8), (node_count, 8), (node_count + 1, 8),
      (node_count, 8), (edge_count, 8), (node_count, 8), (node_count, 1), (node_count, 8),
      (root_capacity, 8), (root_capacity, 96), (node_count, 1), (node_count, 8), (node_count, 8)]"

fun allocation_bytes :: "nat \<Rightarrow> (nat \<times> nat) list \<Rightarrow> nat option" where
  "allocation_bytes aggregate [] = Some aggregate"
| "allocation_bytes aggregate ((items, element_size) # rest) =
     (case checked_add_size aggregate items element_size of
        None \<Rightarrow> None
      | Some aggregate' \<Rightarrow> allocation_bytes aggregate' rest)"

definition lineage_start :: "nat \<Rightarrow> nat list \<Rightarrow> lineage_state" where
  "lineage_start node_count dependency_count =
     \<lparr>ls_dependency_count = dependency_count, ls_queue = [], ls_queue_begin = 0,
      ls_processed = replicate node_count 0, ls_processed_count = 0, ls_roots = [], ls_next = [],
      ls_heads = replicate node_count None\<rparr>"

definition propagate_roots ::
  "laplace_evidence_lineage_record list \<Rightarrow> nat \<Rightarrow> nat \<Rightarrow> nat list \<Rightarrow> nat list \<times> nat list
     \<Rightarrow> (laplace_evidence_lineage_status + lineage_state) option" where
  "propagate_roots records root_capacity node_count dependency_count tables =
     (case seed_roots records root_capacity [0..<node_count]
             (lineage_start node_count dependency_count) of
        Inl status \<Rightarrow> Some (Inl status)
      | Inr st \<Rightarrow> drain_queue records root_capacity tables st)"

text \<open>From the edge loop to the sorted relations: everything between the allocations and the
  receipt.  A failure carries the status and the error as the code leaves it.\<close>

definition lineage_work ::
  "laplace_evidence_lineage_record list \<Rightarrow> nat \<Rightarrow> nat \<Rightarrow> laplace_evidence_lineage_error option
     \<Rightarrow> ((laplace_evidence_lineage_status \<times> laplace_evidence_lineage_error option)
        + laplace_evidence_root_record list) option" where
  "lineage_work records node_count root_capacity error =
     (case link_edges records node_count error None node_count (drop node_count records)
             \<lparr>lk_edges = [], lk_dependency_count = replicate node_count 0,
              lk_parent_counts = replicate node_count 0\<rparr> of
        Inl failure \<Rightarrow> Some (Inl failure)
      | Inr links \<Rightarrow>
          let child_offsets = offsets_from 0 (lk_dependency_count links);
              parent_offsets = offsets_from 0 (lk_parent_counts links);
              children = place_children (lk_edges links) (take node_count parent_offsets)
                (replicate (length records - node_count) 0) in
          case dfs_all node_count child_offsets (lk_edges links) of
            None \<Rightarrow> None
          | Some (Inl (stack, repeated)) \<Rightarrow>
              Some (Inl (copy_cycle_path records stack repeated error))
          | Some (Inr colors) \<Rightarrow>
              (case propagate_roots records root_capacity node_count (lk_dependency_count links)
                      (parent_offsets, children) of
                 None \<Rightarrow> None
               | Some (Inl status) \<Rightarrow> Some (Inl (status, error))
               | Some (Inr st) \<Rightarrow>
                   if ls_processed_count st \<noteq> node_count
                   then Some (Inl (LAPLACE_EVIDENCE_LINEAGE_RECORD_INVALID, error))
                   else Some (Inr (qsort root_record_compare (ls_roots st)))))"

definition lineage_receipt_zero :: laplace_evidence_lineage_receipt where
  "lineage_receipt_zero =
     \<lparr>ep_receipt_id = 0, ep_input_fingerprint = 0, ep_output_fingerprint = 0,
      ep_input_record_count = 0, ep_node_count = 0, ep_edge_count = 0,
      ep_root_relation_count = 0, ep_version = 0, ep_status = 0\<rparr>"

text \<open>The end of the operation, the \<open>cleanup\<close> label included: a failure stores its status in the
  receipt, a success copies the relations and closes the receipt.\<close>

definition lineage_settle ::
  "'h blake3_api \<Rightarrow> laplace_evidence_lineage_record list \<Rightarrow> nat
     \<Rightarrow> laplace_evidence_root_record list option \<Rightarrow> nat option
     \<Rightarrow> laplace_evidence_lineage_receipt option \<Rightarrow> laplace_evidence_lineage_error option
     \<Rightarrow> (laplace_evidence_lineage_status \<times> laplace_evidence_lineage_error option)
        + laplace_evidence_root_record list
     \<Rightarrow> laplace_evidence_lineage_status \<times> laplace_evidence_root_record list option \<times> nat option
          \<times> laplace_evidence_lineage_receipt option \<times> laplace_evidence_lineage_error option"
  where
  "lineage_settle B rs node_count roots root_count receipt error outcome =
     (case outcome of
        Inl (status, error') \<Rightarrow>
          (status, roots, root_count,
           map_option (\<lambda>r. r\<lparr>ep_status := lineage_code status\<rparr>) receipt, error')
      | Inr produced \<Rightarrow>
          (LAPLACE_EVIDENCE_LINEAGE_OK,
           map_option (\<lambda>old. produced @ drop (length produced) old) roots,
           Some (length produced),
           map_option (\<lambda>r. finish_receipt B
             (r\<lparr>ep_input_record_count := of_nat (length rs),
                ep_node_count := of_nat node_count,
                ep_edge_count := of_nat (length rs - node_count),
                ep_root_relation_count := of_nat (length produced),
                ep_status := 0,
                ep_input_fingerprint := hash_inputs B rs,
                ep_output_fingerprint := hash_outputs B produced\<rparr>)) receipt,
           error))"

text \<open>
  \<open>memory\<close> says whether the allocations succeed.  The results are the status, the caller's root
  array (of \<open>root_capacity\<close> elements), \<open>*root_count\<close>, the receipt and the error; the whole is
  \<open>None\<close> if one of the loops did not end.
\<close>

definition laplace_evidence_record_lineage_batch ::
  "'h blake3_api \<Rightarrow> bool \<Rightarrow> laplace_evidence_lineage_record span \<Rightarrow> u64
     \<Rightarrow> laplace_evidence_root_record list option \<Rightarrow> nat \<Rightarrow> nat option
     \<Rightarrow> laplace_evidence_lineage_receipt option \<Rightarrow> laplace_evidence_lineage_error option
     \<Rightarrow> (laplace_evidence_lineage_status \<times> laplace_evidence_root_record list option \<times> nat option
          \<times> laplace_evidence_lineage_receipt option \<times> laplace_evidence_lineage_error option) option"
  where
  "laplace_evidence_record_lineage_batch B memory records memory_limit_bytes roots root_capacity
     root_count receipt error =
     (let count0 = map_option (\<lambda>_. 0) root_count;
          receipt0 = map_option (\<lambda>_. lineage_receipt_zero
            \<lparr>ep_version := LAPLACE_EVIDENCE_LINEAGE_VERSION\<rparr>) receipt;
          error0 = map_option (\<lambda>e. e\<lparr>ex_cycle_path_count := 0, ex_record_index := UINT64_MAX\<rparr>) error;
          rs = span_items records in
      if span_null records \<or> span_count records = 0 \<or> roots = None \<or> root_capacity = 0
         \<or> root_count = None \<or> receipt = None
      then Some (LAPLACE_EVIDENCE_LINEAGE_INVALID_ARGUMENT, roots, count0, receipt0, error0)
      else case scan_nodes B None 0 rs of
        Inl (status, index) \<Rightarrow> Some (status, roots, count0, receipt0, set_error error0 index)
      | Inr node_count \<Rightarrow>
          if node_count = 0
          then Some (LAPLACE_EVIDENCE_LINEAGE_RECORD_INVALID, roots, count0, receipt0, error0)
          else case allocation_bytes 0
              (lineage_allocations node_count (length rs - node_count) root_capacity) of
            None \<Rightarrow> Some (LAPLACE_EVIDENCE_LINEAGE_OVERFLOW, roots, count0, receipt0, error0)
          | Some allocated \<Rightarrow>
              if memory_limit_bytes < of_nat allocated
              then Some (LAPLACE_EVIDENCE_LINEAGE_RESOURCE_INSUFFICIENT, roots, count0, receipt0,
                         error0)
              else
                let settle = lineage_settle B rs node_count roots count0 receipt0 error0 in
                if \<not> memory
                then Some (settle (Inl (LAPLACE_EVIDENCE_LINEAGE_RESOURCE_INSUFFICIENT, error0)))
                else map_option settle (lineage_work rs node_count root_capacity error0))"

section \<open>Sizes\<close>

lemma checked_add_size_iff:
  "aggregate \<le> SIZE_MAX \<Longrightarrow> checked_add_size aggregate items width = Some t \<longleftrightarrow>
     aggregate + items * width \<le> SIZE_MAX \<and> t = aggregate + items * width"
  by (cases "items = 0") (auto simp: checked_add_size_def div_less_iff_less_mult mult.commute not_less)

lemma allocation_bytes_iff:
  "aggregate \<le> SIZE_MAX \<Longrightarrow> allocation_bytes aggregate xs = Some t \<longleftrightarrow>
     aggregate + sum_list (map (\<lambda>(items, width). items * width) xs) \<le> SIZE_MAX
     \<and> t = aggregate + sum_list (map (\<lambda>(items, width). items * width) xs)"
proof (induction aggregate xs rule: allocation_bytes.induct)
  case (2 aggregate items width rest)
  show ?case
  proof (cases "checked_add_size aggregate items width")
    case None
    then have "\<not> aggregate + items * width \<le> SIZE_MAX"
      using checked_add_size_iff [OF "2.prems", of items width "aggregate + items * width"] by simp
    with None show ?thesis by simp
  next
    case (Some a)
    then have "a \<le> SIZE_MAX" "a = aggregate + items * width"
      using checked_add_size_iff [OF "2.prems"] by auto
    with "2.IH" Some show ?thesis by (simp add: add.assoc)
  qed
qed auto

lemma lineage_bytes:
  "allocation_bytes 0 (lineage_allocations n e capacity) = Some t \<longleftrightarrow>
     24 * e + 74 * n + 104 * capacity + 16 \<le> SIZE_MAX \<and> t = 24 * e + 74 * n + 104 * capacity + 16"
  by (subst allocation_bytes_iff) (auto simp: lineage_allocations_def)

text \<open>Overflow and the limit in one condition.\<close>

lemma lineage_fits:
  "(\<exists>t. allocation_bytes 0 (lineage_allocations n e capacity) = Some t \<and> \<not> limit < of_nat t) \<longleftrightarrow>
     24 * e + 74 * n + 104 * capacity + 16 \<le> unat (limit :: u64)"
proof -
  have max: "unat limit \<le> SIZE_MAX"
    using unsigned_less [of limit, where 'a = nat] by (simp add: SIZE_MAX_def)
  have le: "\<not> limit < of_nat t \<longleftrightarrow> t \<le> unat limit" if "t \<le> SIZE_MAX" for t
    using that by (simp add: word_less_nat_alt unat_of_nat SIZE_MAX_def not_less)
  define x where "x = 24 * e + 74 * n + 104 * capacity + 16"
  have "(\<exists>t. (x \<le> SIZE_MAX \<and> t = x) \<and> \<not> limit < of_nat t) \<longleftrightarrow> x \<le> unat limit"
    using le [of x] max by (cases "x \<le> SIZE_MAX") auto
  then show ?thesis
    unfolding lineage_bytes x_def .
qed

section \<open>Nodes and edges by position\<close>

lemma scan_nodes_sorted:
  "scan_nodes B previous k rs = Inr n \<Longrightarrow> k \<le> n \<and> n \<le> k + length rs
     \<and> sorted_wrt (<) (map el_node_id
         (case previous of None \<Rightarrow> take (n - k) rs | Some p \<Rightarrow> p # take (n - k) rs))"
proof (induction B previous k rs rule: scan_nodes.induct)
  case (2 B previous k r rs)
  show ?case
  proof (cases "el_record_kind r = LAPLACE_EVIDENCE_RECORD_NODE")
    case False
    with "2.prems" show ?thesis by (auto split: option.splits)
  next
    case True
    with "2.prems" have next_scan: "scan_nodes B (Some r) (Suc k) rs = Inr n"
      and order: "\<And>p. previous = Some p \<Longrightarrow> el_node_id p < el_node_id r"
      by (auto simp: not_le split: prod.splits if_splits option.splits)
    have "Suc k \<le> n \<and> n \<le> Suc k + length rs
        \<and> sorted_wrt (<) (map el_node_id (r # take (n - Suc k) rs))"
      using "2.IH" True next_scan "2.prems" by (auto split: prod.splits if_splits)
    moreover from this have "take (n - k) (r # rs) = r # take (n - Suc k) rs"
      by (simp add: take_Cons' Suc_diff_Suc)
    ultimately show ?thesis
      using order by (auto split: option.splits intro: less_trans)
  qed
qed (auto split: option.splits)

lemma scan_nodes_ids:
  assumes "scan_nodes B None 0 rs = Inr n"
  shows "ids_sorted rs n"
  using scan_nodes_sorted [OF assms] by (simp add: ids_sorted_def)

lemma edge_of_ends:
  assumes "ids_sorted rs n" "edge_well_formed rs n e"
  shows "le_child (edge_of rs n e) < n" "el_node_id (rs ! le_child (edge_of rs n e)) = el_node_id e"
    "le_parent (edge_of rs n e) < n"
    "el_node_id (rs ! le_parent (edge_of rs n e)) = el_parent_node_id e"
proof -
  obtain c p where *: "find_node rs n (el_node_id e) = Some c"
      "find_node rs n (el_parent_node_id e) = Some p"
    using assms edge_well_formed_iff by blast
  then have "c < n \<and> el_node_id (rs ! c) = el_node_id e" "p < n \<and> el_node_id (rs ! p) = el_parent_node_id e"
    by (simp_all add: find_node_iff [OF assms(1)])
  with * show "le_child (edge_of rs n e) < n" "el_node_id (rs ! le_child (edge_of rs n e)) = el_node_id e"
    "le_parent (edge_of rs n e) < n"
    "el_node_id (rs ! le_parent (edge_of rs n e)) = el_parent_node_id e"
    by (auto simp: edge_of_def)
qed

text \<open>The linked edges of an accepted batch.\<close>

definition graph_of ::
  "laplace_evidence_lineage_record list \<Rightarrow> nat \<Rightarrow> lineage_edge list" where
  "graph_of rs n = map (edge_of rs n) (drop n rs)"

lemma graph_of_facts:
  assumes ids: "ids_sorted rs n" and ok: "edges_accepted rs n (drop n rs)"
  shows "\<forall>e \<in> set (graph_of rs n). le_child e < n \<and> le_parent e < n"
    and "sorted (map le_child (graph_of rs n))" and "distinct (graph_of rs n)"
    and "edge_rel (graph_of rs n) \<subseteq> {..<n} \<times> {..<n}"
proof -
  show ends: "\<forall>e \<in> set (graph_of rs n). le_child e < n \<and> le_parent e < n"
    using ok edge_of_ends [OF ids] by (auto simp: graph_of_def edges_accepted_def)
  then show "edge_rel (graph_of rs n) \<subseteq> {..<n} \<times> {..<n}"
    by (auto simp: edge_rel_def)
  have less: "le_child (edge_of rs n a) \<le> le_child (edge_of rs n b) \<and> edge_of rs n a \<noteq> edge_of rs n b"
    if "a \<in> set (drop n rs)" "b \<in> set (drop n rs)" "edge_less a b" for a b
  proof -
    have a: "edge_well_formed rs n a" and b: "edge_well_formed rs n b"
      using that ok by (auto simp: edges_accepted_def)
    note A = edge_of_ends [OF ids a] and B = edge_of_ends [OF ids b]
    have "le_child (edge_of rs n a) \<le> le_child (edge_of rs n b)"
      using that(3) ids_sorted_iff [OF ids A(1) B(1)] unfolding A(2) B(2) edge_less_def by auto
    moreover have "edge_of rs n a \<noteq> edge_of rs n b"
      using that(3) A B unfolding edge_less_def by (metis less_irrefl)
    ultimately show ?thesis ..
  qed
  have "sorted_wrt (\<lambda>a b. le_child (edge_of rs n a) \<le> le_child (edge_of rs n b)
      \<and> edge_of rs n a \<noteq> edge_of rs n b) (drop n rs)"
    by (rule sorted_wrt_mono_rel [of _ edge_less]) (use ok less in \<open>auto simp: edges_accepted_def\<close>)
  then have sw: "sorted_wrt (\<lambda>a b. le_child a \<le> le_child b \<and> a \<noteq> b) (graph_of rs n)"
    by (simp add: graph_of_def sorted_wrt_map)
  then have "sorted_wrt (\<lambda>a b. le_child a \<le> le_child b) (graph_of rs n)"
    by (rule sorted_wrt_mono_rel [rotated]) simp
  then show "sorted (map le_child (graph_of rs n))" by (simp add: sorted_map)
  have "distinct xs" if "sorted_wrt (\<lambda>a b. le_child a \<le> le_child b \<and> a \<noteq> b) xs" for xs
    using that by (induction xs) auto
  with sw show "distinct (graph_of rs n)" by blast
qed

lemma count_children:
  assumes "distinct edges"
  shows "count_list (map le_child edges) v = card {p. (v, p) \<in> edge_rel edges}"
proof -
  let ?es = "filter (\<lambda>e. le_child e = v) edges"
  have "count_list (map le_child edges) v = length ?es"
    by (induction edges) auto
  also have "\<dots> = card (set ?es)"
    using assms distinct_card [of ?es] by simp
  also have "\<dots> = card (le_parent ` set ?es)"
    by (rule card_image [symmetric]) (auto simp: inj_on_def)
  also have "le_parent ` set ?es = {p. (v, p) \<in> edge_rel edges}"
    by (auto simp: edge_rel_def)
  finally show ?thesis .
qed

lemma propagate_roots_spec:
  assumes ids: "ids_sorted rs n" and ok: "edges_accepted rs n (drop n rs)"
    and E: "E = edge_rel (graph_of rs n)" "acyclic E" and n: "Suc n < 2 ^ 64"
    and counts: "length counts = n" "\<forall>v < n. counts ! v = card {p. (v, p) \<in> E}"
    and tables: "\<forall>v < n. map ((!) children) [offs ! v..<offs ! (v + 1)] = children_of (graph_of rs n) v"
  shows "(propagate_roots rs capacity n counts (offs, children)
            = Some (Inl LAPLACE_EVIDENCE_LINEAGE_CAPACITY_INSUFFICIENT)
          \<and> overfull capacity (dom (tab E n E)))
        \<or> (\<exists>st keys. propagate_roots rs capacity n counts (offs, children) = Some (Inr st)
          \<and> heap_inv rs n capacity st keys (tab E n E) \<and> ls_processed_count st = n
          \<and> (\<forall>w d. tab E n E w = Some d \<longrightarrow> d \<le> n))"
proof -
  note G = graph_of_facts [OF ids ok]
  have fin: "finite E" unfolding E(1) by (simp add: edge_rel_def)
  have root: "\<forall>v < n. ls_dependency_count (lineage_start n counts) ! v = 0 \<longleftrightarrow> is_root E n v"
  proof (intro allI impI)
    fix v assume "v < n"
    moreover have "card {p. (v, p) \<in> E} = 0 \<longleftrightarrow> {p. (v, p) \<in> E} = {}"
      using finite_parents [OF fin, of v "{}"] by (intro card_0_eq) simp
    ultimately show "ls_dependency_count (lineage_start n counts) ! v = 0 \<longleftrightarrow> is_root E n v"
      using counts by (auto simp: lineage_start_def is_root_def)
  qed
  have heap0: "heap_inv rs n capacity (lineage_start n counts) [] (seed_tab E n (set []))"
    by (auto simp: heap_inv_def lineage_start_def seed_tab_def chain_of_def dom_def)
  from seed_roots_spec [where capacity = capacity and post = "[0..<n]", OF root heap0]
  have seeds: "(seed_roots rs capacity [0..<n] (lineage_start n counts)
            = Inl LAPLACE_EVIDENCE_LINEAGE_CAPACITY_INSUFFICIENT
          \<and> overfull capacity (dom (tab E n E)))
        \<or> (\<exists>st' keys'. seed_roots rs capacity [0..<n] (lineage_start n counts) = Inr st'
          \<and> heap_inv rs n capacity st' keys' (seed_tab E n {..<n})
          \<and> ls_queue st' = filter (is_root E n) [0..<n]
          \<and> ls_dependency_count st' = counts \<and> ls_queue_begin st' = 0
          \<and> ls_processed_count st' = 0)"
    by (simp add: lineage_start_def atLeast0LessThan)
  then show ?thesis
  proof (elim disjE exE conjE)
    fix st keys
    assume s: "seed_roots rs capacity [0..<n] (lineage_start n counts) = Inr st"
      and h: "heap_inv rs n capacity st keys (seed_tab E n {..<n})"
      and q: "ls_queue st = filter (is_root E n) [0..<n]" "ls_dependency_count st = counts"
        "ls_queue_begin st = 0" "ls_processed_count st = 0"
    have "set (ls_queue st) = {v. v < n \<and> ls_dependency_count st ! v = 0}"
      using q root by (auto simp: lineage_start_def)
    then have "work_inv rs n capacity E st keys {}"
      using h q counts unfolding work_inv_def seed_tab_start by simp
    moreover have "d \<le> 0" if "tab E n {} w = Some d" for w d
      using that unfolding seed_tab_start [symmetric]
      by (auto simp: seed_tab_def split: prod.splits if_splits)
    ultimately have "drain_inv rs n capacity E st keys"
      using q by (simp add: drain_inv_def)
    from drain_queue_spec [where capacity = capacity, OF ids G(3) E(1) _ E(2) n tables this]
    show ?thesis
      using G(4) E(1) s by (auto simp: propagate_roots_def)
  qed (simp add: propagate_roots_def)
qed

text \<open>What becomes of a batch whose edges are accepted.\<close>

lemma lineage_work_cases:
  assumes ids: "ids_sorted rs n" and ok: "edges_accepted rs n (drop n rs)" and n: "Suc n < 2 ^ 64"
  defines "E \<equiv> edge_rel (graph_of rs n)"
  obtains (cycle) stack repeated where "\<not> acyclic E" "set stack \<subseteq> {..<n}"
      "closed_path E (dropWhile (\<lambda>v. v \<noteq> repeated) stack @ [repeated])"
      "lineage_work rs n capacity error = Some (Inl (copy_cycle_path rs stack repeated error))"
  | (full) "acyclic E" "capacity < card (dom (tab E n E))"
      "lineage_work rs n capacity error
         = Some (Inl (LAPLACE_EVIDENCE_LINEAGE_CAPACITY_INSUFFICIENT, error))"
  | (recorded) keys where "acyclic E" "distinct keys" "set keys = dom (tab E n E)"
      "length keys \<le> capacity" "\<forall>w d. tab E n E w = Some d \<longrightarrow> d \<le> n"
      "lineage_work rs n capacity error = Some (Inr (qsort root_record_compare
         (map (\<lambda>vr. lineage_relation rs vr (the (tab E n E vr))) keys)))"
proof -
  note G = graph_of_facts [OF ids ok]
  let ?st = "\<lparr>lk_edges = [], lk_dependency_count = replicate n 0, lk_parent_counts = replicate n 0\<rparr>"
  define links where "links = linked rs n (drop n rs) ?st"
  have link: "link_edges rs n error None n (drop n rs) ?st = Inr links"
    using link_edges_start [OF ids] ok by (simp add: links_def)
  have edges: "lk_edges links = graph_of rs n"
    by (simp add: links_def linked_def Let_def graph_of_def)
  have deps: "length (lk_dependency_count links) = n"
    "\<forall>v < n. lk_dependency_count links ! v = count_list (map le_child (graph_of rs n)) v"
    and parents: "length (lk_parent_counts links) = n"
    "\<forall>v < n. lk_parent_counts links ! v = count_list (map le_parent (graph_of rs n)) v"
    by (simp_all add: links_def linked_def Let_def graph_of_def foldl_bump_nth)
  let ?offs = "offsets_from 0 (lk_parent_counts links)"
  let ?children = "place_children (graph_of rs n) (take n ?offs) (replicate (length (graph_of rs n)) 0)"
  have len: "length rs - n = length (graph_of rs n)" by (simp add: graph_of_def)
  have ix: "indexed n (offsets_from 0 (lk_dependency_count links)) (graph_of rs n)"
    by (rule indexedI [OF G(1,2) deps])
  have tables: "\<forall>v < n. map ((!) ?children) [?offs ! v..<?offs ! (v + 1)] = children_of (graph_of rs n) v"
    using place_children_slice [OF _ parents] G(1) by simp
  have cards: "\<forall>v < n. lk_dependency_count links ! v = card {p. (v, p) \<in> E}"
    using deps(2) count_children [OF G(3)] by (simp add: E_def)
  have fin: "finite (dom (tab E n E))"
    by (rule finite_subset [OF dom_tab_subset]) simp
  note work = lineage_work_def [of rs n capacity error, unfolded link sum.case edges len Let_def]
  show thesis
  proof (rule dfs_all_spec [OF ix])
    fix stack repeated
    assume "dfs_all n (offsets_from 0 (lk_dependency_count links)) (graph_of rs n)
        = Some (Inl (stack, repeated))"
      and "set stack \<subseteq> {..<n}" "\<not> acyclic (edge_rel (graph_of rs n))"
        "closed_path (edge_rel (graph_of rs n)) (dropWhile (\<lambda>v. v \<noteq> repeated) stack @ [repeated])"
    then show thesis using cycle [of stack repeated] work by (simp add: E_def)
  next
    fix colors
    assume d: "dfs_all n (offsets_from 0 (lk_dependency_count links)) (graph_of rs n)
        = Some (Inr colors)" and ac: "acyclic (edge_rel (graph_of rs n))"
    from propagate_roots_spec [where capacity = capacity,
        OF ids ok E_def [THEN meta_eq_to_obj_eq] ac [folded E_def] n deps(1) cards tables]
    show thesis
    proof (elim disjE exE conjE)
      assume "propagate_roots rs capacity n (lk_dependency_count links) (?offs, ?children)
          = Some (Inl LAPLACE_EVIDENCE_LINEAGE_CAPACITY_INSUFFICIENT)"
        and "overfull capacity (dom (tab E n E))"
      with full ac d work overfull_card [OF _ fin] show thesis by (simp add: E_def)
    next
      fix st keys
      assume p: "propagate_roots rs capacity n (lk_dependency_count links) (?offs, ?children) = Some (Inr st)"
        and h: "heap_inv rs n capacity st keys (tab E n E)" and c: "ls_processed_count st = n"
        and b: "\<forall>w d. tab E n E w = Some d \<longrightarrow> d \<le> n"
      show thesis
        by (rule recorded [of keys]) (use h ac d work p c b in \<open>auto simp: heap_inv_def E_def\<close>)
    qed
  qed
qed

text \<open>A failing edge leaves its status; the status CYCLE comes from an edge on itself.\<close>

lemma link_edges_Inl:
  "link_edges rs n error previous k es st = Inl (status, error') \<Longrightarrow>
     status \<noteq> LAPLACE_EVIDENCE_LINEAGE_OK
     \<and> (status = LAPLACE_EVIDENCE_LINEAGE_CYCLE \<longrightarrow>
          (\<exists>e \<in> set es. \<exists>i. el_node_id e = el_parent_node_id e
             \<and> error' = map_option (write_cycle [el_node_id e, el_node_id e]) (set_error error i)))"
proof (induction es arbitrary: previous k st)
  case (Cons e es)
  show ?case
  proof (cases "link_edge rs n error previous k e st")
    case (Inr st')
    with Cons show ?thesis by (auto split: sum.splits)
  next
    case (Inl f)
    have "el_node_id e = el_parent_node_id e"
      if "find_node rs n (el_node_id e) = find_node rs n (el_parent_node_id e)"
        "find_node rs n (el_node_id e) \<noteq> None"
      using that by (auto simp: find_node_def Let_def split: if_splits)
    with Inl Cons.prems show ?thesis
      by (auto simp: link_edge_def Let_def split: if_splits)
  qed
qed simp

lemma lineage_work_returns:
  assumes "ids_sorted rs n" "Suc n < 2 ^ 64"
  shows "\<exists>r. lineage_work rs n capacity error = Some r"
proof (cases "edges_accepted rs n (drop n rs)")
  case True
  from assms(1) True assms(2) show ?thesis
    by (rule lineage_work_cases [where capacity = capacity and error = error]) auto
next
  case False
  then show ?thesis
    using link_edges_start [OF assms(1)] by (auto simp: lineage_work_def split: sum.splits)
qed

lemma lineage_work_OK_iff:
  assumes "ids_sorted rs n" "Suc n < 2 ^ 64"
  defines "E \<equiv> edge_rel (graph_of rs n)"
  shows "(\<exists>out. lineage_work rs n capacity error = Some (Inr out)) \<longleftrightarrow>
    edges_accepted rs n (drop n rs) \<and> acyclic E \<and> card (dom (tab E n E)) \<le> capacity"
proof (cases "edges_accepted rs n (drop n rs)")
  case True
  from assms(1) True assms(2) show ?thesis
  proof (cases rule: lineage_work_cases [where capacity = capacity and error = error])
    case (cycle stack repeated)
    then show ?thesis unfolding E_def by simp
  next
    case full
    then show ?thesis unfolding E_def by simp
  next
    case (recorded keys)
    then have "card (dom (tab E n E)) = length keys"
      unfolding E_def by (metis distinct_card)
    with recorded True show ?thesis unfolding E_def by simp
  qed
next
  case False
  then show ?thesis
    using link_edges_start [OF assms(1)] by (auto simp: lineage_work_def split: sum.splits)
qed

section \<open>From positions to identities\<close>

definition dependence ::
  "laplace_evidence_lineage_record list \<Rightarrow> (laplace_digest256 \<times> laplace_digest256) set" where
  "dependence edges = (\<lambda>e. (el_node_id e, el_parent_node_id e)) ` set edges"

lemma relpow_image:
  assumes inj: "inj_on f A" and "E \<subseteq> A \<times> A" and "i \<in> A"
  shows "j \<in> A \<Longrightarrow> (f i, f j) \<in> (map_prod f f ` E) ^^ k \<longleftrightarrow> (i, j) \<in> E ^^ k"
proof (induction k arbitrary: j)
  case 0
  with inj \<open>i \<in> A\<close> show ?case by (auto dest: inj_onD)
next
  case (Suc k)
  have "(f i, f j) \<in> (map_prod f f ` E) ^^ Suc k \<longleftrightarrow>
      (\<exists>a b. (f i, f a) \<in> (map_prod f f ` E) ^^ k \<and> (a, b) \<in> E \<and> f b = f j)"
  proof -
    have "(y, f j) \<in> map_prod f f ` E \<longleftrightarrow> (\<exists>a b. (a, b) \<in> E \<and> y = f a \<and> f b = f j)" for y
      by (auto intro: rev_image_eqI) (blast intro: rev_image_eqI)
    then show ?thesis by (simp add: relcomp_unfold) blast
  qed
  also have "\<dots> \<longleftrightarrow> (\<exists>a. (i, a) \<in> E ^^ k \<and> (a, j) \<in> E)"
  proof -
    have "f b = f j \<longleftrightarrow> b = j" "a \<in> A" if "(a, b) \<in> E" for a b
      using that assms Suc.prems by (auto dest: inj_onD)
    with Suc.IH show ?thesis by blast
  qed
  finally show ?case by auto
qed

lemma acyclic_image:
  assumes inj: "inj_on f A" and E: "E \<subseteq> A \<times> A"
  shows "acyclic (map_prod f f ` E) \<longleftrightarrow> acyclic E"
proof -
  have pow: "acyclic R \<longleftrightarrow> (\<forall>x. \<forall>k > 0. (x, x) \<notin> R ^^ k)" for R :: "('x \<times> 'x) set"
    unfolding acyclic_def trancl_power by blast
  have "x \<in> f ` A" if "(x, x) \<in> (map_prod f f ` E) ^^ k" "0 < k" for x k
    using that E by (cases k) auto
  moreover have "x \<in> A" if "(x, x) \<in> E ^^ k" "0 < k" for x k
    using that E by (cases k) auto
  moreover have "(f i, f i) \<in> (map_prod f f ` E) ^^ k \<longleftrightarrow> (i, i) \<in> E ^^ k" if "i \<in> A" for i k
    by (rule relpow_image [OF inj E that that])
  ultimately have
    "(\<forall>x. \<forall>k > 0. (x, x) \<notin> (map_prod f f ` E) ^^ k) \<longleftrightarrow> (\<forall>i \<in> A. \<forall>k > 0. (i, i) \<notin> E ^^ k)"
    "(\<forall>x. \<forall>k > 0. (x, x) \<notin> E ^^ k) \<longleftrightarrow> (\<forall>i \<in> A. \<forall>k > 0. (i, i) \<notin> E ^^ k)"
    by blast+
  then show ?thesis unfolding pow by simp
qed

lemma closed_path_image:
  "closed_path E path \<Longrightarrow> closed_path (map_prod f f ` E) (map f path)"
proof -
  assume *: "closed_path E path"
  then have "path \<noteq> []" by (auto simp: closed_path_def)
  with * show ?thesis
    by (auto simp: closed_path_def hd_map last_map successively_map intro: successively_mono)
qed

text \<open>The position of a node and its identity determine each other.\<close>

abbreviation id_at :: "laplace_evidence_lineage_record list \<Rightarrow> nat \<Rightarrow> laplace_digest256" where
  "id_at rs i \<equiv> el_node_id (rs ! i)"

lemma id_at_inj: "ids_sorted rs n \<Longrightarrow> inj_on (id_at rs) {..<n}"
  by (auto simp: inj_on_def ids_sorted_iff)

lemma dependence_graph:
  assumes "ids_sorted rs n" "edges_accepted rs n (drop n rs)"
  shows "dependence (drop n rs) = map_prod (id_at rs) (id_at rs) ` edge_rel (graph_of rs n)"
proof -
  have "(el_node_id e, el_parent_node_id e) =
      map_prod (id_at rs) (id_at rs) (le_child (edge_of rs n e), le_parent (edge_of rs n e))"
    if "e \<in> set (drop n rs)" for e
    using edge_of_ends [OF assms(1)] assms(2) that by (simp add: edges_accepted_def)
  then show ?thesis
    by (simp add: dependence_def edge_rel_def graph_of_def image_image cong: image_cong)
qed

text \<open>A relation as the contract describes it: a node, a root it depends on, and the length of the
  shortest path between them.\<close>

definition lineage_root :: "(laplace_digest256 \<times> laplace_digest256) set \<Rightarrow> laplace_digest256 \<Rightarrow> bool" where
  "lineage_root D r \<longleftrightarrow> (\<forall>p. (r, p) \<notin> D)"

definition describes ::
  "laplace_evidence_lineage_record list \<Rightarrow> (laplace_digest256 \<times> laplace_digest256) set
     \<Rightarrow> laplace_evidence_root_record \<Rightarrow> bool" where
  "describes nodes D x \<longleftrightarrow>
     (\<exists>v \<in> set nodes. \<exists>r \<in> set nodes.
        x = \<lparr>eo_node_id = el_node_id v, eo_root_node_id = el_node_id r,
             eo_proposition_id = el_proposition_id v, eo_path_depth = eo_path_depth x,
             eo_root_epistemic_kind = el_epistemic_kind r, eo_flags = 0\<rparr>
        \<and> lineage_root D (el_node_id r)
        \<and> (el_node_id v, el_node_id r) \<in> D ^^ unat (eo_path_depth x)
        \<and> (\<forall>k. (el_node_id v, el_node_id r) \<in> D ^^ k \<longrightarrow> unat (eo_path_depth x) \<le> k))"

text \<open>The pairs of a node and a root it reaches.\<close>

definition root_pairs ::
  "laplace_evidence_lineage_record list \<Rightarrow> (laplace_digest256 \<times> laplace_digest256) set
     \<Rightarrow> (laplace_digest256 \<times> laplace_digest256) set" where
  "root_pairs nodes D =
     {(v, r). v \<in> el_node_id ` set nodes \<and> r \<in> el_node_id ` set nodes \<and> lineage_root D r
        \<and> (v, r) \<in> D\<^sup>*}"

lemma nodes_at: "ids_sorted rs n \<Longrightarrow> x \<in> set (take n rs) \<longleftrightarrow> (\<exists>v < n. x = rs ! v)"
  by (auto simp: ids_sorted_def in_set_conv_nth)

lemma lineage_root_at:
  assumes "ids_sorted rs n" "edges_accepted rs n (drop n rs)" "r < n"
  shows "lineage_root (dependence (drop n rs)) (id_at rs r) \<longleftrightarrow> is_root (edge_rel (graph_of rs n)) n r"
proof -
  have "id_at rs r = id_at rs v \<longleftrightarrow> r = v" if "(v, p) \<in> edge_rel (graph_of rs n)" for v p
    using graph_of_facts(4) [OF assms(1,2)] that ids_sorted_iff(2) [OF assms(1,3)] by auto
  then show ?thesis
    using \<open>r < n\<close> unfolding dependence_graph [OF assms(1,2)] lineage_root_def is_root_def
    by (force simp: image_iff)
qed

lemma describes_iff:
  assumes ids: "ids_sorted rs n" and ok: "edges_accepted rs n (drop n rs)" and n: "Suc n < 2 ^ 64"
  defines "E \<equiv> edge_rel (graph_of rs n)" and "D \<equiv> dependence (drop n rs)"
  assumes bound: "\<forall>w d. tab E n E w = Some d \<longrightarrow> d \<le> n"
  shows "describes (take n rs) D x \<longleftrightarrow>
    (\<exists>vr d. tab E n E vr = Some d \<and> x = lineage_relation rs vr d)"
proof -
  have pow: "(id_at rs v, id_at rs r) \<in> D ^^ k \<longleftrightarrow> (v, r) \<in> E ^^ k" if "v < n" "r < n" for v r k
    using relpow_image [OF id_at_inj [OF ids] graph_of_facts(4) [OF ids ok]] that
    unfolding D_def E_def dependence_graph [OF ids ok] by simp
  have entry: "tab E n E (v, r) = Some d \<longleftrightarrow> v < n \<and> is_root E n r \<and> (v, r) \<in> E ^^ d
      \<and> (\<forall>k. (v, r) \<in> E ^^ k \<longrightarrow> d \<le> k)" for v r d
    by (auto simp: tab_def via_all shortest_Some_iff)
  have small: "unat (of_nat d :: u64) = d" if "tab E n E w = Some d" for w d
    using bound [rule_format, OF that] n by (simp add: unat_of_nat)
  have root: "lineage_root D (id_at rs r) \<longleftrightarrow> is_root E n r" if "r < n" for r
    unfolding D_def E_def by (rule lineage_root_at [OF ids ok that])
  show ?thesis
  proof
    assume "describes (take n rs) D x"
    then obtain v r where vr: "v < n" "r < n" and
      x: "x = \<lparr>eo_node_id = id_at rs v, eo_root_node_id = id_at rs r,
             eo_proposition_id = el_proposition_id (rs ! v), eo_path_depth = eo_path_depth x,
             eo_root_epistemic_kind = el_epistemic_kind (rs ! r), eo_flags = 0\<rparr>"
      and D: "lineage_root D (id_at rs r)" "(id_at rs v, id_at rs r) \<in> D ^^ unat (eo_path_depth x)"
        "\<forall>k. (id_at rs v, id_at rs r) \<in> D ^^ k \<longrightarrow> unat (eo_path_depth x) \<le> k"
      unfolding describes_def nodes_at [OF ids] Bex_def by blast
    then have "tab E n E (v, r) = Some (unat (eo_path_depth x))"
      by (simp add: entry pow root)
    moreover have "x = lineage_relation rs (v, r) (unat (eo_path_depth x))"
      by (subst x) (simp add: lineage_relation_def)
    ultimately show "\<exists>vr d. tab E n E vr = Some d \<and> x = lineage_relation rs vr d" by blast
  next
    assume "\<exists>vr d. tab E n E vr = Some d \<and> x = lineage_relation rs vr d"
    then obtain v r d where t: "tab E n E (v, r) = Some d" and x: "x = lineage_relation rs (v, r) d"
      by fastforce
    then have e: "v < n" "is_root E n r" "(v, r) \<in> E ^^ d" "\<forall>k. (v, r) \<in> E ^^ k \<longrightarrow> d \<le> k"
      by (simp_all add: entry)
    then have "r < n" by (simp add: is_root_def)
    moreover have "eo_path_depth x = of_nat d" by (simp add: x lineage_relation_def)
    ultimately show "describes (take n rs) D x"
      unfolding describes_def nodes_at [OF ids] Bex_def
      using e small [OF t]
      by (intro exI [of _ "rs ! v"] conjI exI [of _ "rs ! r"])
         (auto simp: root pow x lineage_relation_def)
  qed
qed

lemma root_pairs_card:
  assumes ids: "ids_sorted rs n" and ok: "edges_accepted rs n (drop n rs)"
  defines "E \<equiv> edge_rel (graph_of rs n)"
  shows "card (root_pairs (take n rs) (dependence (drop n rs))) = card (dom (tab E n E))"
proof -
  let ?D = "dependence (drop n rs)"
  have star: "(id_at rs v, id_at rs r) \<in> ?D\<^sup>* \<longleftrightarrow> (v, r) \<in> E\<^sup>*" if "v < n" "r < n" for v r
    using relpow_image [OF id_at_inj [OF ids] graph_of_facts(4) [OF ids ok]] that
    unfolding E_def dependence_graph [OF ids ok] by (simp add: rtrancl_is_UN_relpow)
  have "root_pairs (take n rs) ?D = map_prod (id_at rs) (id_at rs) ` dom (tab E n E)"
  proof (intro set_eqI iffI)
    fix x assume "x \<in> root_pairs (take n rs) ?D"
    then obtain v r where "v < n" "r < n" "x = (id_at rs v, id_at rs r)"
      "lineage_root ?D (id_at rs r)" "(id_at rs v, id_at rs r) \<in> ?D\<^sup>*"
      by (auto simp: root_pairs_def nodes_at [OF ids] image_iff)
    then have "(v, r) \<in> dom (tab E n E)" "x = map_prod (id_at rs) (id_at rs) (v, r)"
      by (simp_all add: dom_tab_all star lineage_root_at [OF ids ok] E_def)
    then show "x \<in> map_prod (id_at rs) (id_at rs) ` dom (tab E n E)" by blast
  next
    fix x assume "x \<in> map_prod (id_at rs) (id_at rs) ` dom (tab E n E)"
    then obtain v r where vr: "(v, r) \<in> dom (tab E n E)" "x = (id_at rs v, id_at rs r)" by auto
    then have *: "v < n" "is_root E n r" "(v, r) \<in> E\<^sup>*" "r < n"
      by (auto simp: dom_tab_all is_root_def)
    then have "lineage_root ?D (id_at rs r)" "(id_at rs v, id_at rs r) \<in> ?D\<^sup>*"
      using lineage_root_at [OF ids ok *(4)] star by (auto simp: E_def)
    with * vr(2) show "x \<in> root_pairs (take n rs) ?D"
      by (auto simp: root_pairs_def nodes_at [OF ids] intro!: imageI)
  qed
  moreover have "inj_on (map_prod (id_at rs) (id_at rs)) (dom (tab E n E))"
    by (rule inj_on_subset [OF map_prod_inj_on [OF id_at_inj [OF ids] id_at_inj [OF ids]] dom_tab_subset])
  ultimately show ?thesis by (simp add: card_image)
qed

section \<open>The order of the published relations\<close>

definition root_less ::
  "laplace_evidence_root_record \<Rightarrow> laplace_evidence_root_record \<Rightarrow> bool" where
  "root_less a b \<longleftrightarrow> eo_node_id a < eo_node_id b
     \<or> (eo_node_id a = eo_node_id b \<and> eo_root_node_id a < eo_root_node_id b)"

interpretation root_order: comparator root_record_compare
proof
  fix x y z
  show "root_record_compare y x < 0 \<longleftrightarrow> 0 < root_record_compare x y"
    by (auto simp: root_record_compare_def Let_def)
  show "root_record_compare x y \<le> 0 \<Longrightarrow> root_record_compare y z \<le> 0
      \<Longrightarrow> root_record_compare x z \<le> 0"
    by (auto simp: root_record_compare_def Let_def not_less order_le_less split: if_splits)
qed

lemma root_order_strict:
  assumes "distinct (map (\<lambda>x. (eo_node_id x, eo_root_node_id x)) xs)"
  shows "sorted_wrt root_less (qsort root_record_compare xs)"
proof -
  let ?key = "\<lambda>x. (eo_node_id x, eo_root_node_id x)" and ?ys = "qsort root_record_compare xs"
  have "mset (map ?key ?ys) = mset (map ?key xs)" by simp
  with assms have "distinct (map ?key ?ys)" using mset_eq_imp_distinct_iff by blast
  then have "sorted_wrt (\<lambda>x y. ?key x \<noteq> ?key y) ?ys"
    by (induction ?ys) (auto simp: sorted_wrt_map distinct_map sorted_wrt_iff_nth_less
        distinct_conv_nth nth_eq_iff_index_eq)
  then have "sorted_wrt (\<lambda>x y. root_record_compare x y \<le> 0 \<and> ?key x \<noteq> ?key y) ?ys"
    using root_order.sorted_qsort [of xs] by (simp add: sorted_wrt_iff_nth_less)
  then show ?thesis
    by (rule sorted_wrt_mono_rel [rotated])
       (auto simp: root_less_def root_record_compare_def Let_def split: if_splits)
qed

section \<open>Batches\<close>

text \<open>The node records of a batch are the leading ones of kind node; the rest are its edges.\<close>

definition lineage_nodes :: "laplace_evidence_lineage_record list \<Rightarrow> laplace_evidence_lineage_record list"
  where
  "lineage_nodes rs = takeWhile (\<lambda>r. el_record_kind r = LAPLACE_EVIDENCE_RECORD_NODE) rs"

definition lineage_edges :: "laplace_evidence_lineage_record list \<Rightarrow> laplace_evidence_lineage_record list"
  where
  "lineage_edges rs = dropWhile (\<lambda>r. el_record_kind r = LAPLACE_EVIDENCE_RECORD_NODE) rs"

lemma lineage_split:
  assumes "n \<le> length rs" "\<forall>r \<in> set (take n rs). el_record_kind r = LAPLACE_EVIDENCE_RECORD_NODE"
    and "n < length rs \<Longrightarrow> el_record_kind (rs ! n) \<noteq> LAPLACE_EVIDENCE_RECORD_NODE"
  shows "lineage_nodes rs = take n rs" "lineage_edges rs = drop n rs"
proof -
  let ?P = "\<lambda>r. el_record_kind r = LAPLACE_EVIDENCE_RECORD_NODE"
  have "takeWhile ?P (drop n rs) = []" "dropWhile ?P (drop n rs) = drop n rs"
    using assms(3) by (cases "drop n rs"; cases "n < length rs"; auto simp: Cons_nth_drop_Suc [symmetric])+
  moreover have "rs = take n rs @ drop n rs" by simp
  ultimately show "lineage_nodes rs = take n rs" "lineage_edges rs = drop n rs"
    unfolding lineage_nodes_def lineage_edges_def
    using takeWhile_append2 [of "take n rs" ?P "drop n rs"] dropWhile_append2 [of "take n rs" ?P "drop n rs"]
      assms(2) by simp_all
qed

lemma scan_nodes_kinds:
  "scan_nodes B previous k rs = Inr n \<Longrightarrow>
     (\<forall>r \<in> set (take (n - k) rs). el_record_kind r = LAPLACE_EVIDENCE_RECORD_NODE)
     \<and> (n - k < length rs \<longrightarrow> el_record_kind (rs ! (n - k)) \<noteq> LAPLACE_EVIDENCE_RECORD_NODE)"
proof (induction B previous k rs rule: scan_nodes.induct)
  case (2 B previous k r rs)
  show ?case
  proof (cases "el_record_kind r = LAPLACE_EVIDENCE_RECORD_NODE")
    case False
    with "2.prems" show ?thesis by simp
  next
    case True
    with "2.prems" have s: "scan_nodes B (Some r) (Suc k) rs = Inr n"
      by (auto split: prod.splits if_splits)
    then have "Suc k \<le> n" using scan_nodes_sorted by blast
    then obtain m where m: "n - k = Suc m" "n - Suc k = m" by (metis Suc_diff_Suc Suc_le_lessD)
    have "(\<forall>r \<in> set (take (n - Suc k) rs). el_record_kind r = LAPLACE_EVIDENCE_RECORD_NODE)
     \<and> (n - Suc k < length rs \<longrightarrow> el_record_kind (rs ! (n - Suc k)) \<noteq> LAPLACE_EVIDENCE_RECORD_NODE)"
      using "2.IH" True s "2.prems" by (auto split: prod.splits if_splits)
    with True m show ?thesis by simp
  qed
qed auto

lemma scan_nodes_split:
  assumes "scan_nodes B None 0 rs = Inr n"
  shows "lineage_nodes rs = take n rs" "lineage_edges rs = drop n rs" "ids_sorted rs n" "n \<le> length rs"
  using lineage_split [of n rs] scan_nodes_kinds [OF assms] scan_nodes_ids [OF assms]
  by (auto simp: ids_sorted_def)

lemma scan_nodes_Inl:
  "scan_nodes B previous k rs = Inl (status, i) \<Longrightarrow>
     status \<noteq> LAPLACE_EVIDENCE_LINEAGE_OK \<and> status \<noteq> LAPLACE_EVIDENCE_LINEAGE_CYCLE"
  by (induction B previous k rs rule: scan_nodes.induct) (auto split: prod.splits if_splits)

lemma lineage_work_Inl:
  assumes ids: "ids_sorted rs n" and n: "Suc n < 2 ^ 64"
    and w: "lineage_work rs n capacity error = Some (Inl (status, error'))"
  shows "status \<noteq> LAPLACE_EVIDENCE_LINEAGE_OK"
    and "status = LAPLACE_EVIDENCE_LINEAGE_CYCLE \<Longrightarrow> \<exists>path i.
      closed_path (dependence (drop n rs)) path
      \<and> error' \<in> {map_option (write_cycle path) error, map_option (write_cycle path) (set_error error i)}"
proof -
  let ?st = "\<lparr>lk_edges = [], lk_dependency_count = replicate n 0, lk_parent_counts = replicate n 0\<rparr>"
  have "status \<noteq> LAPLACE_EVIDENCE_LINEAGE_OK \<and> (status = LAPLACE_EVIDENCE_LINEAGE_CYCLE \<longrightarrow>
      (\<exists>path i. closed_path (dependence (drop n rs)) path
      \<and> error' \<in> {map_option (write_cycle path) error, map_option (write_cycle path) (set_error error i)}))"
  proof (cases "edges_accepted rs n (drop n rs)")
    case False
    then obtain f where f: "link_edges rs n error None n (drop n rs) ?st = Inl f"
      using link_edges_start [OF ids, of error n "drop n rs" ?st]
      by (cases "link_edges rs n error None n (drop n rs) ?st") auto
    with w have f': "link_edges rs n error None n (drop n rs) ?st = Inl (status, error')"
      by (simp add: lineage_work_def)
    have "\<exists>path i. closed_path (dependence (drop n rs)) path
        \<and> error' \<in> {map_option (write_cycle path) error, map_option (write_cycle path) (set_error error i)}"
      if "status = LAPLACE_EVIDENCE_LINEAGE_CYCLE"
    proof -
      from link_edges_Inl [OF f'] that obtain x i where x: "x \<in> set (drop n rs)"
        "el_node_id x = el_parent_node_id x"
        "error' = map_option (write_cycle [el_node_id x, el_node_id x]) (set_error error i)"
        by auto
      then have "(el_node_id x, el_node_id x) \<in> dependence (drop n rs)"
        unfolding dependence_def by (metis (mono_tags, lifting) imageI)
      with x(3) show ?thesis
        by (intro exI [of _ "[el_node_id x, el_node_id x]"] exI [of _ i]) (simp add: closed_path_def)
    qed
    with link_edges_Inl [OF f'] show ?thesis by blast
  next
    case True
    from ids True n show ?thesis
    proof (cases rule: lineage_work_cases [where capacity = capacity and error = error])
      case (cycle stack repeated)
      let ?path = "dropWhile (\<lambda>v. v \<noteq> repeated) stack @ [repeated]"
      from w cycle(4) have "status = LAPLACE_EVIDENCE_LINEAGE_CYCLE"
        "error' = map_option (write_cycle (map (id_at rs) ?path)) error"
        by (simp_all add: copy_cycle_path_def Let_def)
      moreover have "closed_path (dependence (drop n rs)) (map (id_at rs) ?path)"
        unfolding dependence_graph [OF ids True] using cycle(3) by (rule closed_path_image)
      ultimately show ?thesis by blast
    next
      case full
      with w show ?thesis by simp
    next
      case (recorded keys)
      with w show ?thesis by simp
    qed
  qed
  then show "status \<noteq> LAPLACE_EVIDENCE_LINEAGE_OK"
    and "status = LAPLACE_EVIDENCE_LINEAGE_CYCLE \<Longrightarrow> \<exists>path i.
      closed_path (dependence (drop n rs)) path
      \<and> error' \<in> {map_option (write_cycle path) error, map_option (write_cycle path) (set_error error i)}"
    by blast+
qed

text \<open>The conditions under which the arrays are allocated and the edges are looked at.\<close>

definition lineage_ready ::
  "'h blake3_api \<Rightarrow> bool \<Rightarrow> laplace_evidence_lineage_record span \<Rightarrow> u64
     \<Rightarrow> laplace_evidence_root_record list option \<Rightarrow> nat \<Rightarrow> nat option
     \<Rightarrow> laplace_evidence_lineage_receipt option \<Rightarrow> nat \<Rightarrow> bool" where
  "lineage_ready B memory records limit roots capacity root_count receipt n \<longleftrightarrow>
     \<not> span_null records \<and> span_count records \<noteq> 0 \<and> roots \<noteq> None \<and> capacity \<noteq> 0
     \<and> root_count \<noteq> None \<and> receipt \<noteq> None
     \<and> scan_nodes B None 0 (span_items records) = Inr n \<and> n \<noteq> 0
     \<and> 24 * (length (span_items records) - n) + 74 * n + 104 * capacity + 16 \<le> unat limit \<and> memory"

text \<open>The error argument after it has been cleared.\<close>

definition error_cleared ::
  "laplace_evidence_lineage_error option \<Rightarrow> laplace_evidence_lineage_error option" where
  "error_cleared error = map_option (\<lambda>e. e\<lparr>ex_cycle_path_count := 0, ex_record_index := UINT64_MAX\<rparr>) error"

lemma lineage_batch_not_ready:
  assumes "\<And>n. \<not> lineage_ready B memory records limit roots capacity root_count receipt n"
  obtains status receipt' error' where
    "laplace_evidence_record_lineage_batch B memory records limit roots capacity root_count receipt error
       = Some (status, roots, map_option (\<lambda>_. 0) root_count, receipt', error')"
    "status \<noteq> LAPLACE_EVIDENCE_LINEAGE_OK" "status \<noteq> LAPLACE_EVIDENCE_LINEAGE_CYCLE"
proof -
  let ?batch = "laplace_evidence_record_lineage_batch B memory records limit roots capacity root_count
    receipt error"
  show thesis
  proof (cases "span_null records \<or> span_count records = 0 \<or> roots = None \<or> capacity = 0
         \<or> root_count = None \<or> receipt = None")
    case True
    then show thesis
      by (intro that [of LAPLACE_EVIDENCE_LINEAGE_INVALID_ARGUMENT])
         (simp_all only: laplace_evidence_record_lineage_batch_def Let_def if_True, simp_all)
  next
    case False
    then obtain old c0 r0 where args: "\<not> span_null records" "span_count records \<noteq> 0" "capacity \<noteq> 0"
      "roots = Some old" "root_count = Some c0" "receipt = Some r0"
      by auto
    show thesis
    proof (cases "scan_nodes B None 0 (span_items records)")
      case (Inl f)
      then obtain status i where f: "scan_nodes B None 0 (span_items records) = Inl (status, i)"
        by (cases f) auto
      with args scan_nodes_Inl [OF f] show thesis
        by (intro that [of status]) (simp_all add: laplace_evidence_record_lineage_batch_def Let_def)
    next
      case (Inr n)
      show thesis
      proof (cases "n = 0")
        case True
        with args Inr show thesis
          by (intro that [of LAPLACE_EVIDENCE_LINEAGE_RECORD_INVALID]) (simp_all add: laplace_evidence_record_lineage_batch_def Let_def)
      next
        case n: False
        let ?alloc = "allocation_bytes 0 (lineage_allocations n (length (span_items records) - n) capacity)"
        show thesis
        proof (cases "memory \<and> (\<exists>t. ?alloc = Some t \<and> \<not> limit < of_nat t)")
          case True
          then have "lineage_ready B memory records limit roots capacity root_count receipt n"
            using args Inr n by (simp add: lineage_ready_def lineage_fits)
          with assms show thesis by blast
        next
          case False
          then consider "?alloc = None" | t where "?alloc = Some t" "limit < of_nat t"
            | t where "?alloc = Some t" "\<not> limit < of_nat t" "\<not> memory"
            by (cases ?alloc) auto
          then show thesis
          proof cases
            case 1
            with args Inr n show thesis
              by (intro that [of LAPLACE_EVIDENCE_LINEAGE_OVERFLOW])
                 (simp_all add: laplace_evidence_record_lineage_batch_def Let_def)
          next
            case 2
            with args Inr n show thesis
              by (intro that [of LAPLACE_EVIDENCE_LINEAGE_RESOURCE_INSUFFICIENT])
                 (simp_all add: laplace_evidence_record_lineage_batch_def Let_def)
          next
            case 3
            with args Inr n show thesis
              by (intro that [of LAPLACE_EVIDENCE_LINEAGE_RESOURCE_INSUFFICIENT])
                 (simp_all add: laplace_evidence_record_lineage_batch_def Let_def lineage_settle_def)
          qed
        qed
      qed
    qed
  qed
qed

lemma lineage_batch_ready:
  assumes r: "lineage_ready B memory records limit roots capacity root_count receipt n"
  obtains old receipt0 where "roots = Some old" "ids_sorted (span_items records) n" "Suc n < 2 ^ 64"
    "laplace_evidence_record_lineage_batch B memory records limit roots capacity root_count receipt error
       = map_option (lineage_settle B (span_items records) n roots (Some 0) (Some receipt0)
           (error_cleared error)) (lineage_work (span_items records) n capacity (error_cleared error))"
proof -
  note R = r [unfolded lineage_ready_def]
  obtain old c0 r0 where some: "roots = Some old" "root_count = Some c0" "receipt = Some r0"
    using R by auto
  obtain t where t: "allocation_bytes 0
      (lineage_allocations n (length (span_items records) - n) capacity) = Some t" "\<not> limit < of_nat t"
    using R by (auto simp: lineage_fits [symmetric])
  have "74 * n + 16 \<le> unat limit" using R by linarith
  moreover have "unat limit < 2 ^ 64" using unsigned_less [of limit, where 'a = nat] by simp
  ultimately have "Suc n < 2 ^ 64" by linarith
  moreover have "ids_sorted (span_items records) n" using R scan_nodes_ids by blast
  ultimately show thesis
    by (intro that [OF some(1), of "lineage_receipt_zero\<lparr>ep_version := LAPLACE_EVIDENCE_LINEAGE_VERSION\<rparr>"])
       (use R t some in \<open>simp_all add: laplace_evidence_record_lineage_batch_def Let_def
          error_cleared_def\<close>)
qed

lemma edges_accepted_take: "edges_accepted rs n es \<longleftrightarrow> edges_accepted (take n rs) n es"
  by (simp add: edges_accepted_def edge_well_formed_def)

lemma lineage_ready_split:
  assumes "lineage_ready B memory (Span rs) limit roots capacity root_count receipt n"
  shows "lineage_nodes rs = take n rs" "lineage_edges rs = drop n rs"
  using assms scan_nodes_split by (auto simp: lineage_ready_def)

text \<open>When a batch is recorded, in terms of the positions of its nodes and edges.\<close>

lemma lineage_OK_ready:
  "(\<exists>r. laplace_evidence_record_lineage_batch B memory (Span rs) limit roots capacity root_count
            receipt error = Some (LAPLACE_EVIDENCE_LINEAGE_OK, r)) \<longleftrightarrow>
   (\<exists>n. lineage_ready B memory (Span rs) limit roots capacity root_count receipt n
      \<and> edges_accepted rs n (drop n rs) \<and> acyclic (dependence (drop n rs))
      \<and> card (root_pairs (take n rs) (dependence (drop n rs))) \<le> capacity)"
    (is "?OK \<longleftrightarrow> (\<exists>n. ?ready n \<and> ?rest n)")
proof (cases "\<exists>n. ?ready n")
  case False
  then obtain status receipt' error' where
    "laplace_evidence_record_lineage_batch B memory (Span rs) limit roots capacity root_count receipt error
       = Some (status, roots, map_option (\<lambda>_. 0) root_count, receipt', error')"
    "status \<noteq> LAPLACE_EVIDENCE_LINEAGE_OK"
    using lineage_batch_not_ready by (metis (no_types))
  with False show ?thesis by auto
next
  case True
  then obtain n where r: "?ready n" by blast
  have unique: "m = n" if "?ready m" for m
    using that r by (simp add: lineage_ready_def)
  from lineage_batch_ready [OF r, of error] obtain old receipt0 where
    ids: "ids_sorted rs n" and n: "Suc n < 2 ^ 64"
    and batch: "laplace_evidence_record_lineage_batch B memory (Span rs) limit roots capacity root_count receipt error
       = map_option (lineage_settle B rs n roots (Some 0) (Some receipt0) (error_cleared error))
           (lineage_work rs n capacity (error_cleared error))"
    unfolding span_items.simps by blast
  have "?OK \<longleftrightarrow> (\<exists>out. lineage_work rs n capacity (error_cleared error) = Some (Inr out))"
  proof -
    obtain w where w: "lineage_work rs n capacity (error_cleared error) = Some w"
      using lineage_work_returns [OF ids n] by blast
    show ?thesis
    proof (cases w)
      case (Inl f)
      then obtain st e where f: "w = Inl (st, e)" by (cases f) auto
      with lineage_work_Inl(1) [OF ids n] w have "st \<noteq> LAPLACE_EVIDENCE_LINEAGE_OK" by simp
      with f w show ?thesis by (simp add: batch lineage_settle_def)
    next
      case (Inr out)
      with w show ?thesis by (simp add: batch lineage_settle_def)
    qed
  qed
  also have "\<dots> \<longleftrightarrow> ?rest n"
    using lineage_work_OK_iff [OF ids n] root_pairs_card [OF ids] dependence_graph [OF ids]
      acyclic_image [OF id_at_inj [OF ids] graph_of_facts(4) [OF ids]] by auto
  finally show ?thesis using r unique by blast
qed

section \<open>The properties\<close>

text \<open>C11: recording a lineage batch always returns, whatever the records are: every lookup, the
  depth-first search over a possibly cyclic graph, every walk along the linked lists of relations
  and the propagation loop end.\<close>

theorem lineage_batch_returns:
  "\<exists>result. laplace_evidence_record_lineage_batch B memory records limit roots capacity root_count
     receipt error = Some result"
proof (cases "\<exists>n. lineage_ready B memory records limit roots capacity root_count receipt n")
  case False
  then show ?thesis using lineage_batch_not_ready by (metis (no_types))
next
  case True
  then obtain n where r: "lineage_ready B memory records limit roots capacity root_count receipt n" ..
  from lineage_batch_ready [OF r, of error] lineage_work_returns show ?thesis
    by (metis option.simps(9))
qed

text \<open>C9: a batch is recorded exactly when its leading node records carry their own identities in
  strictly increasing order, its other records are well-formed dependence edges between those nodes
  in strictly increasing order, the dependences have no cycle, the working memory stays within the
  limit (and is granted), and all the relations between a node and a root it reaches fit into the
  caller's array.\<close>

theorem lineage_batch_recorded_iff:
  assumes "blake3_streaming B"
  shows "(\<exists>r. laplace_evidence_record_lineage_batch B memory (Span rs) limit (Some roots) capacity
            (Some root_count) (Some receipt) error = Some (LAPLACE_EVIDENCE_LINEAGE_OK, r)) \<longleftrightarrow>
    (let nodes = lineage_nodes rs; edges = lineage_edges rs; D = dependence edges in
      nodes \<noteq> [] \<and> nodes_valid B nodes \<and> edges_accepted nodes (length nodes) edges \<and> acyclic D
      \<and> 24 * length edges + 74 * length nodes + 104 * capacity + 16 \<le> unat limit \<and> memory
      \<and> 0 < capacity \<and> card (root_pairs nodes D) \<le> capacity)"
    (is "?L \<longleftrightarrow> ?R")
proof
  assume ?L
  then obtain n where r: "lineage_ready B memory (Span rs) limit (Some roots) capacity (Some root_count) (Some receipt) n"
    "edges_accepted rs n (drop n rs)" "acyclic (dependence (drop n rs))"
    "card (root_pairs (take n rs) (dependence (drop n rs))) \<le> capacity"
    unfolding lineage_OK_ready by blast
  have scan: "scan_nodes B None 0 rs = Inr n" "n \<noteq> 0"
    using r(1) by (simp_all add: lineage_ready_def)
  then have "n \<le> length rs" "nodes_valid B (take n rs)"
    using scan_nodes_start [OF assms] by blast+
  moreover have "edges_accepted (take n rs) n (drop n rs)"
    using r(2) edges_accepted_take by blast
  moreover have "take n rs \<noteq> []" using scan(2) calculation(1) by auto
  moreover have "24 * (length rs - n) + 74 * n + 104 * capacity + 16 \<le> unat limit" "memory" "0 < capacity"
    using r(1) by (simp_all add: lineage_ready_def)
  ultimately show ?R
    unfolding lineage_ready_split [OF r(1)] Let_def using r(3,4) by (simp only: length_take length_drop min_absorb2) simp
next
  assume R: ?R
  define n where "n = length (lineage_nodes rs)"
  let ?P = "\<lambda>r. el_record_kind r = LAPLACE_EVIDENCE_RECORD_NODE"
  have split: "take n rs = lineage_nodes rs" "drop n rs = lineage_edges rs" "n \<le> length rs"
    unfolding n_def lineage_nodes_def lineage_edges_def
    by (simp_all add: takeWhile_eq_take [symmetric] dropWhile_eq_drop [symmetric] length_takeWhile_le)
  have "\<not> ?P (rs ! n)" if "n < length rs"
    using nth_length_takeWhile [of ?P rs] that by (simp add: n_def lineage_nodes_def)
  then have "scan_nodes B None 0 rs = Inr n"
    using R split scan_nodes_start [OF assms] by (simp add: Let_def)
  moreover have "length (lineage_edges rs) = length rs - n" "n \<noteq> 0" "rs \<noteq> []"
    using R split by (auto simp: Let_def n_def split(2) [symmetric])
  ultimately have "lineage_ready B memory (Span rs) limit (Some roots) capacity (Some root_count) (Some receipt) n"
    using R by (simp add: lineage_ready_def Let_def n_def)
  with R split show ?L
    unfolding lineage_OK_ready
    by (intro exI [of _ n]) (simp add: Let_def edges_accepted_take [of rs] n_def)
qed

lemma image_dom_the: "x \<in> (\<lambda>w. f w (the (T w))) ` dom T \<longleftrightarrow> (\<exists>w d. T w = Some d \<and> x = f w d)"
proof
  assume "x \<in> (\<lambda>w. f w (the (T w))) ` dom T"
  then show "\<exists>w d. T w = Some d \<and> x = f w d" by fastforce
next
  assume "\<exists>w d. T w = Some d \<and> x = f w d"
  then obtain w d where "T w = Some d" "x = f w d" by blast
  then show "x \<in> (\<lambda>w. f w (the (T w))) ` dom T" by (intro image_eqI [of _ _ w]) auto
qed

text \<open>C10: the relations that a recorded batch publishes are sorted by node and root, and they are
  exactly those of the contract: one for each node and each node without dependences that it
  depends on directly or indirectly (itself included), with the root's epistemic kind and the
  length of the shortest path of dependences between them.  The rest of the caller's array is
  untouched.\<close>

theorem lineage_relations_shortest:
  assumes "laplace_evidence_record_lineage_batch B memory (Span rs) limit (Some roots) capacity
      root_count receipt error = Some (LAPLACE_EVIDENCE_LINEAGE_OK, out, count', receipt', error')"
  shows "\<exists>published k. out = Some published \<and> count' = Some k
    \<and> k \<le> capacity \<and> k \<le> length published \<and> drop k published = drop k roots
    \<and> sorted_wrt root_less (take k published)
    \<and> (\<forall>x. x \<in> set (take k published)
          \<longleftrightarrow> describes (lineage_nodes rs) (dependence (lineage_edges rs)) x)"
proof -
  from assms lineage_OK_ready obtain n where
    r: "lineage_ready B memory (Span rs) limit (Some roots) capacity root_count receipt n"
    and ok: "edges_accepted rs n (drop n rs)" "acyclic (dependence (drop n rs))"
      "card (root_pairs (take n rs) (dependence (drop n rs))) \<le> capacity"
    by blast
  from lineage_batch_ready [OF r, of error] obtain old receipt0 where
    ids: "ids_sorted rs n" and n: "Suc n < 2 ^ 64" and old: "Some roots = Some old"
    and batch: "laplace_evidence_record_lineage_batch B memory (Span rs) limit (Some roots) capacity
         root_count receipt error
       = map_option (lineage_settle B rs n (Some roots) (Some 0) (Some receipt0) (error_cleared error))
           (lineage_work rs n capacity (error_cleared error))"
    unfolding span_items.simps by blast
  let ?E = "edge_rel (graph_of rs n)"
  have ac: "acyclic ?E"
    using ok(2) acyclic_image [OF id_at_inj [OF ids] graph_of_facts(4) [OF ids ok(1)]]
    by (simp add: dependence_graph [OF ids ok(1)])
  have cd: "card (dom (tab ?E n ?E)) \<le> capacity"
    using ok(3) by (simp add: root_pairs_card [OF ids ok(1)])
  obtain keys where keys: "distinct keys" "set keys = dom (tab ?E n ?E)"
    "length keys \<le> capacity" "\<forall>w d. tab ?E n ?E w = Some d \<longrightarrow> d \<le> n"
    "lineage_work rs n capacity (error_cleared error) = Some (Inr (qsort root_record_compare
       (map (\<lambda>vr. lineage_relation rs vr (the (tab ?E n ?E vr))) keys)))"
  proof (rule lineage_work_cases [OF ids ok(1) n, where capacity = capacity and error = "error_cleared error"])
    assume "\<not> acyclic ?E"
    with ac show thesis by contradiction
  next
    assume "capacity < card (dom (tab ?E n ?E))"
    with cd show thesis by simp
  qed (rule that)
  define xs where "xs = map (\<lambda>vr. lineage_relation rs vr (the (tab ?E n ?E vr))) keys"
  have out: "out = Some (qsort root_record_compare xs @ drop (length xs) roots)"
    "count' = Some (length xs)"
    using assms unfolding batch keys(5) xs_def [symmetric] by (auto simp: lineage_settle_def)
  have "inj_on (map_prod (id_at rs) (id_at rs)) (set keys)"
    unfolding keys(2)
    by (rule inj_on_subset [OF map_prod_inj_on [OF id_at_inj [OF ids] id_at_inj [OF ids]] dom_tab_subset])
  then have "distinct (map (\<lambda>x. (eo_node_id x, eo_root_node_id x)) xs)"
    using keys(1) by (simp add: xs_def lineage_relation_def distinct_map map_prod_def case_prod_beta' comp_def)
  then have "sorted_wrt root_less (qsort root_record_compare xs)" by (rule root_order_strict)
  moreover have "x \<in> set xs \<longleftrightarrow> describes (take n rs) (dependence (drop n rs)) x" for x
    unfolding describes_iff [OF ids ok(1) n keys(4)] using keys(2)
    by (simp add: xs_def image_dom_the)
  ultimately show ?thesis
    using keys(3) unfolding out lineage_ready_split [OF r]
    by (intro exI [of _ "qsort root_record_compare xs @ drop (length xs) roots"]
        exI [of _ "length xs"]) (auto simp: xs_def)
qed

text \<open>C12: when a batch is rejected for a cycle, the caller's root array keeps its content, the count is
  zero, the receipt holds the status, and the error names a closed path of submitted dependence
  edges: its length is always reported, and its nodes are written, first node repeated at the end,
  whenever the caller's path array has room for them.\<close>

theorem lineage_cycle_reported:
  assumes "laplace_evidence_record_lineage_batch B memory (Span rs) limit roots capacity root_count
      receipt (Some e) = Some (LAPLACE_EVIDENCE_LINEAGE_CYCLE, out, k, receipt', error')"
  shows "out = roots \<and> k = Some 0 \<and> map_option ep_status receipt' = Some 6
    \<and> (\<exists>path e'. error' = Some e' \<and> closed_path (dependence (lineage_edges rs)) path
        \<and> ex_cycle_path_count e' = of_nat (length path)
        \<and> ex_cycle_path e' =
            (case ex_cycle_path e of None \<Rightarrow> None
             | Some cells \<Rightarrow>
                 Some (if of_nat (length path) \<le> ex_cycle_path_capacity e
                       then path @ drop (length path) cells else cells)))"
proof -
  obtain n where r: "lineage_ready B memory (Span rs) limit roots capacity root_count receipt n"
    using assms lineage_batch_not_ready by (metis (no_types) option.inject prod.inject)
  from lineage_batch_ready [OF r, of "Some e"] obtain receipt0 where
    ids: "ids_sorted rs n" and n: "Suc n < 2 ^ 64"
    and batch: "laplace_evidence_record_lineage_batch B memory (Span rs) limit roots capacity
         root_count receipt (Some e)
       = map_option (lineage_settle B rs n roots (Some 0) (Some receipt0) (error_cleared (Some e)))
           (lineage_work rs n capacity (error_cleared (Some e)))"
    unfolding span_items.simps by blast
  from assms obtain f where w: "lineage_work rs n capacity (error_cleared (Some e)) = Some f"
    unfolding batch by auto
  with assms have f: "f = Inl (LAPLACE_EVIDENCE_LINEAGE_CYCLE, error')" "out = roots" "k = Some 0"
    "receipt' = Some (receipt0\<lparr>ep_status := 6\<rparr>)"
    unfolding batch by (auto simp: lineage_settle_def split: sum.splits)
  from lineage_work_Inl(2) [OF ids n w [unfolded f(1)] refl] obtain path i where
    path: "closed_path (dependence (drop n rs)) path"
    and err: "error' \<in> {map_option (write_cycle path) (error_cleared (Some e)),
        map_option (write_cycle path) (set_error (error_cleared (Some e)) i)}"
    by blast
  have "ex_cycle_path_count (write_cycle path x) = of_nat (length path)
      \<and> ex_cycle_path (write_cycle path x) =
            (case ex_cycle_path x of None \<Rightarrow> None
             | Some cells \<Rightarrow>
                 Some (if of_nat (length path) \<le> ex_cycle_path_capacity x
                       then path @ drop (length path) cells else cells))" for x
    by (simp add: write_cycle_def Let_def split: option.split)
  moreover obtain e0 where "error' = Some (write_cycle path e0)" "ex_cycle_path e0 = ex_cycle_path e"
    "ex_cycle_path_capacity e0 = ex_cycle_path_capacity e"
    using err by (auto simp: error_cleared_def set_error_def)
  ultimately show ?thesis
    unfolding lineage_ready_split [OF r] f(2,3,4) using path
    by (intro conjI exI [of _ path] exI [of _ "write_cycle path e0"]) (simp_all split: option.split)
qed

section \<open>Sample batches\<close>

definition sample_node :: "u64 \<Rightarrow> laplace_evidence_lineage_record" where
  "sample_node i =
     (let r = \<lparr>el_node_id = 0, el_proposition_id = 0, el_occurrence_id = 0, el_source_id = 0,
               el_context_id = 0, el_parent_node_id = 0, el_source_ordinal = i,
               el_record_kind = 1, el_epistemic_kind = 1, el_flags = 0, el_reserved = 0\<rparr> in
      r\<lparr>el_node_id := node_identity sample_blake3 r\<rparr>)"

definition sample_edge :: "u64 \<Rightarrow> u64 \<Rightarrow> laplace_evidence_lineage_record" where
  "sample_edge c p =
     \<lparr>el_node_id = el_node_id (sample_node c), el_proposition_id = 0, el_occurrence_id = 0,
      el_source_id = 0, el_context_id = 0, el_parent_node_id = el_node_id (sample_node p),
      el_source_ordinal = 0, el_record_kind = 2, el_epistemic_kind = 0, el_flags = 0,
      el_reserved = 0\<rparr>"

lemma sample_digest_less:
  assumes "length bs = length cs" "sum_list bs < sum_list cs"
  shows "sample_digest bs < sample_digest cs"
  using assms by (simp add: less_barray_def sample_digest_def numeral_eq_Suc)

lemma sample_ids: "el_node_id (sample_node 1) < el_node_id (sample_node 2)"
proof -
  have "sum_list LAPLACE_EVIDENCE_NODE_DOMAIN = 0xE9" "sum_list (u64_le 1) = 1" "sum_list (u64_le 2) = 2"
    "sum_list (u32_le 0) = 0" "sum_list (u32_le 1) = 1"
    by code_simp+
  then show ?thesis
    unfolding sample_node_def Let_def
    by (simp add: node_identity_def node_chunks_def) (rule sample_digest_less; simp add: sum_list_replicate)
qed

lemma sample_nodes_valid: "nodes_valid sample_blake3 [sample_node 1, sample_node 2]"
proof -
  have "node_well_formed (sample_node i)" if "i \<noteq> 0" for i
    using that by (simp add: node_well_formed_def sample_node_def Let_def LAPLACE_EVIDENCE_RECORD_NODE_def)
  moreover have "el_node_id (sample_node i) = node_identity sample_blake3 (sample_node i)" for i
    by (simp add: sample_node_def Let_def node_identity_def node_chunks_def)
  ultimately show ?thesis using sample_ids by (simp add: nodes_valid_def)
qed

lemma sample_edges_accepted:
  "edges_accepted [sample_node 1, sample_node 2] 2 [sample_edge 2 1]"
  "edges_accepted [sample_node 1, sample_node 2] 2 [sample_edge 1 2, sample_edge 2 1]"
  using sample_ids
  by (auto simp: edges_accepted_def edge_well_formed_def edge_is_invalid_def sample_edge_def edge_less_def
      LAPLACE_EVIDENCE_RECORD_DEPENDENCE_EDGE_def bytes_zero_iff)

lemma sample_split:
  "lineage_nodes (sample_node 1 # sample_node 2 # sample_edge c p # es) = [sample_node 1, sample_node 2]"
  "lineage_edges (sample_node 1 # sample_node 2 # sample_edge c p # es) = sample_edge c p # es"
  by (simp_all add: lineage_nodes_def lineage_edges_def sample_node_def sample_edge_def Let_def
      LAPLACE_EVIDENCE_RECORD_NODE_def)

lemma sample_pairs_card: "card (root_pairs [sample_node 1, sample_node 2] D) \<le> 4"
proof -
  let ?X = "{el_node_id (sample_node 1), el_node_id (sample_node 2)}"
  have "card (root_pairs [sample_node 1, sample_node 2] D) \<le> card (?X \<times> ?X)"
    by (rule card_mono) (auto simp: root_pairs_def)
  also have "\<dots> \<le> 4"
    using card_insert_le_m1 [of 2 "{el_node_id (sample_node 2)}"] sample_ids
    by (simp add: card_insert_if)
  finally show ?thesis .
qed

lemma sample_dependence:
  "dependence [sample_edge 2 1] = {(el_node_id (sample_node 2), el_node_id (sample_node 1))}"
  by (simp add: dependence_def sample_edge_def)

lemma sample_ready:
  assumes "rs = [sample_node 1, sample_node 2, sample_edge c p] @ es" "length es \<le> 1"
  shows "lineage_ready sample_blake3 True (Span rs) 1000 (Some []) 4 (Some 0) (Some lineage_receipt_zero) 2"
proof -
  have "scan_nodes sample_blake3 None 0 rs = Inr 2"
    unfolding scan_nodes_start [OF sample_blake3_streaming]
    using assms sample_nodes_valid
    by (simp add: numeral_2_eq_2 sample_edge_def LAPLACE_EVIDENCE_RECORD_NODE_def)
  with assms show ?thesis by (simp add: lineage_ready_def)
qed

abbreviation sample_batch ::
  "laplace_evidence_lineage_record list
     \<Rightarrow> (laplace_evidence_lineage_status \<times> laplace_evidence_root_record list option \<times> nat option
          \<times> laplace_evidence_lineage_receipt option \<times> laplace_evidence_lineage_error option) option"
  where
  "sample_batch es \<equiv>
     laplace_evidence_record_lineage_batch sample_blake3 True
       (Span ([sample_node 1, sample_node 2] @ es)) 1000 (Some []) 4 (Some 0)
       (Some lineage_receipt_zero)
       (Some \<lparr>ex_cycle_path = None, ex_cycle_path_capacity = 0, ex_cycle_path_count = 0,
              ex_record_index = 0\<rparr>)"

lemma sample_acyclic:
  "acyclic (dependence [sample_edge 2 1])" "\<not> acyclic (dependence [sample_edge 1 2, sample_edge 2 1])"
proof -
  have ne: "el_node_id (sample_node 1) \<noteq> el_node_id (sample_node 2)"
    using sample_ids by (metis less_irrefl)
  then show "acyclic (dependence [sample_edge 2 1])"
    by (simp add: sample_dependence acyclic_insert) (simp add: acyclic_def)
  have "(el_node_id (sample_node 1), el_node_id (sample_node 2)) \<in> dependence [sample_edge 1 2, sample_edge 2 1]"
    "(el_node_id (sample_node 2), el_node_id (sample_node 1)) \<in> dependence [sample_edge 1 2, sample_edge 2 1]"
    by (simp_all add: dependence_def sample_edge_def)
  then have "(el_node_id (sample_node 1), el_node_id (sample_node 1))
      \<in> (dependence [sample_edge 1 2, sample_edge 2 1])\<^sup>+"
    by (meson trancl.intros)
  then show "\<not> acyclic (dependence [sample_edge 1 2, sample_edge 2 1])"
    by (auto simp: acyclic_def)
qed

theorem lineage_batch_recorded_iff_witness: "\<exists>r. sample_batch [sample_edge 2 1] = Some (LAPLACE_EVIDENCE_LINEAGE_OK, r)"
  unfolding append.simps
    lineage_batch_recorded_iff [OF sample_blake3_streaming] sample_split Let_def
  using sample_nodes_valid sample_edges_accepted(1) [unfolded numeral_2_eq_2] sample_acyclic(1)
    sample_pairs_card
  by simp

theorem lineage_relations_shortest_witness:
  "\<exists>published k receipt' error'.
     sample_batch [sample_edge 2 1]
       = Some (LAPLACE_EVIDENCE_LINEAGE_OK, Some published, Some k, receipt', error')
     \<and> k \<le> 4 \<and> sorted_wrt root_less (take k published)
     \<and> (\<forall>x. x \<in> set (take k published) \<longleftrightarrow>
          describes [sample_node 1, sample_node 2]
            {(el_node_id (sample_node 2), el_node_id (sample_node 1))} x)"
proof -
  have "lineage_ready sample_blake3 True (Span ([sample_node 1, sample_node 2] @ [sample_edge 2 1]))
      1000 (Some []) 4 (Some 0) (Some lineage_receipt_zero) 2"
    by (rule sample_ready [of _ 2 1 "[]"]) simp_all
  then have "\<exists>r. sample_batch [sample_edge 2 1] = Some (LAPLACE_EVIDENCE_LINEAGE_OK, r)"
    unfolding lineage_OK_ready
    using sample_edges_accepted(1) sample_acyclic(1) sample_pairs_card
    by (intro exI [of _ 2], subst edges_accepted_take) simp
  then obtain out count' receipt' error' where
    run: "sample_batch [sample_edge 2 1] = Some (LAPLACE_EVIDENCE_LINEAGE_OK, out, count', receipt', error')"
    by (metis prod.collapse)
  from lineage_relations_shortest [OF run] run show ?thesis
    by (auto simp: sample_split sample_dependence)
qed

theorem lineage_cycle_reported_witness:
  "\<exists>receipt' e' path. sample_batch [sample_edge 1 2, sample_edge 2 1]
       = Some (LAPLACE_EVIDENCE_LINEAGE_CYCLE, Some [], Some 0, receipt', Some e')
     \<and> closed_path (dependence [sample_edge 1 2, sample_edge 2 1]) path
     \<and> ex_cycle_path_count e' = of_nat (length path)"
proof -
  let ?rs = "[sample_node 1, sample_node 2] @ [sample_edge 1 2, sample_edge 2 1]"
  let ?e = "\<lparr>ex_cycle_path = None, ex_cycle_path_capacity = 0, ex_cycle_path_count = 0,
              ex_record_index = 0\<rparr>"
  have r: "lineage_ready sample_blake3 True (Span ?rs)
      1000 (Some []) 4 (Some 0) (Some lineage_receipt_zero) 2"
    by (rule sample_ready [of _ 1 2 "[sample_edge 2 1]"]) simp_all
  have ok: "edges_accepted ?rs 2 (drop 2 ?rs)"
    using sample_edges_accepted(2) by (subst edges_accepted_take) simp
  from lineage_batch_ready [OF r, of "Some ?e"] obtain receipt0 where
    ids: "ids_sorted ?rs 2" and n: "Suc 2 < (2 :: nat) ^ 64"
    and batch: "sample_batch [sample_edge 1 2, sample_edge 2 1]
       = map_option (lineage_settle sample_blake3 ?rs 2 (Some []) (Some 0) (Some receipt0)
           (error_cleared (Some ?e))) (lineage_work ?rs 2 4 (error_cleared (Some ?e)))"
    unfolding span_items.simps by blast
  have cyclic: "\<not> acyclic (edge_rel (graph_of ?rs 2))"
    using sample_acyclic(2) acyclic_image [OF id_at_inj [OF ids] graph_of_facts(4) [OF ids ok]]
      dependence_graph [OF ids ok] by simp
  obtain stack repeated where "lineage_work ?rs 2 4 (error_cleared (Some ?e))
      = Some (Inl (copy_cycle_path ?rs stack repeated (error_cleared (Some ?e))))"
  proof (rule lineage_work_cases [OF ids ok n, where capacity = 4 and error = "error_cleared (Some ?e)"])
    assume "acyclic (edge_rel (graph_of ?rs 2))"
    with cyclic show thesis by contradiction
  next
    assume "acyclic (edge_rel (graph_of ?rs 2))"
    with cyclic show thesis by contradiction
  qed (rule that)
  then obtain out k receipt' error' where run: "sample_batch [sample_edge 1 2, sample_edge 2 1]
       = Some (LAPLACE_EVIDENCE_LINEAGE_CYCLE, out, k, receipt', error')"
    unfolding batch by (simp add: lineage_settle_def copy_cycle_path_def Let_def)
  from lineage_cycle_reported [OF run] run show ?thesis
    by (auto simp: sample_split)
qed

end
