(* ===== verification/Biguint.thy ===== *)
theory Biguint
  imports Prelude
begin

text \<open>
  The fixed-width unsigned integers of \<open>engine/src/geometry.c\<close>: 36 limbs of 32 bits, least
  significant first.  The loops run over the limbs as the code's do, with 64-bit totals and a
  carry or a borrow; \<open>bigval\<close> is the natural number they stand for, and every operation is shown to
  be the operation on naturals, its failure return being exactly the overflow of the 1152 bits.

  A \<open>laplace_biguint\<close> is the list of its limbs; the lemmas that need it state its length.
\<close>

definition LAPLACE_GEOMETRY_ACCUMULATOR_LIMBS :: nat where
  "LAPLACE_GEOMETRY_ACCUMULATOR_LIMBS = 36"

type_synonym laplace_biguint = "u32 list"

section \<open>Operations\<close>

definition big_is_zero :: "laplace_biguint \<Rightarrow> bool" where
  "big_is_zero value = list_all (\<lambda>limb. limb = 0) value"

text \<open>The loop counts the index down, so it meets the most significant limb first.\<close>

fun compare_limbs :: "u32 list \<Rightarrow> u32 list \<Rightarrow> int" where
  "compare_limbs (l # left) (r # right) =
     (if l < r then - 1 else if r < l then 1 else compare_limbs left right)"
| "compare_limbs _ _ = 0"

definition big_compare :: "laplace_biguint \<Rightarrow> laplace_biguint \<Rightarrow> int" where
  "big_compare left right = compare_limbs (rev left) (rev right)"

fun add_limbs :: "u32 list \<Rightarrow> u32 list \<Rightarrow> u64 \<Rightarrow> u32 list \<times> u64" where
  "add_limbs (t # target) (a # addend) carry =
     (let total = ucast t + ucast a + carry;
          (rest, carry) = add_limbs target addend (drop_bit 32 total) in
      (ucast total # rest, carry))"
| "add_limbs target _ carry = (target, carry)"

definition big_add :: "laplace_biguint \<Rightarrow> laplace_biguint \<Rightarrow> bool \<times> laplace_biguint" where
  "big_add target addend =
     (case add_limbs target addend 0 of (result, carry) \<Rightarrow> (carry = 0, result))"

fun subtract_limbs :: "u32 list \<Rightarrow> u32 list \<Rightarrow> u64 \<Rightarrow> u32 list" where
  "subtract_limbs (t # target) (s # subtrahend) borrow =
     (let subtrahend_value = ucast s + borrow; target_value = ucast t in
      ucast (target_value - subtrahend_value)
        # subtract_limbs target subtrahend (if target_value < subtrahend_value then 1 else 0))"
| "subtract_limbs target _ borrow = target"

definition big_subtract :: "laplace_biguint \<Rightarrow> laplace_biguint \<Rightarrow> laplace_biguint" where
  "big_subtract target subtrahend = subtract_limbs target subtrahend 0"

text \<open>\<open>while ((limb & (1 << bit)) == 0) --bit;\<close> on a limb that is not zero.\<close>

primrec limb_high_bit :: "u32 \<Rightarrow> nat \<Rightarrow> nat" where
  "limb_high_bit limb 0 = 0"
| "limb_high_bit limb (Suc b) =
     (if limb AND push_bit (Suc b) 1 = 0 then limb_high_bit limb b else Suc b)"

text \<open>The loop over the limbs, most significant first; the index is the number of limbs left.\<close>

fun high_bit_limbs :: "u32 list \<Rightarrow> int" where
  "high_bit_limbs (limb # rest) =
     (if limb = 0 then high_bit_limbs rest else int (length rest * 32) + int (limb_high_bit limb 31))"
| "high_bit_limbs [] = - 1"

definition big_high_bit :: "laplace_biguint \<Rightarrow> int" where
  "big_high_bit value = high_bit_limbs (rev value)"

fun shift_left_limbs :: "u32 list \<Rightarrow> u32 \<Rightarrow> u32 list \<times> u32" where
  "shift_left_limbs (s # source) carry =
     (case shift_left_limbs source (drop_bit 31 s) of (rest, carry') \<Rightarrow>
        ((push_bit 1 s OR carry) # rest, carry'))"
| "shift_left_limbs [] carry = ([], carry)"

definition big_shift_left_one :: "laplace_biguint \<Rightarrow> bool \<times> laplace_biguint" where
  "big_shift_left_one source =
     (case shift_left_limbs source 0 of (result, carry) \<Rightarrow> (carry = 0, result))"

text \<open>
  \<open>big_multiply_shift\<close>: the schoolbook product of the two halves of each factor in five limbs,
  then the shift into the result.  \<open>None\<close> is the return value 0.  The list passed along is the
  part of \<open>product\<close> from the current index on: first the carry loop behind a row, then a row, then
  the rows.
\<close>

fun propagate_carry :: "u32 list \<Rightarrow> u64 \<Rightarrow> u32 list option" where
  "propagate_carry [] carry = (if carry = 0 then Some [] else None)"
| "propagate_carry (p # product) carry =
     (if carry = 0 then Some (p # product) else
      let total = ucast p + carry in
      map_option ((#) (ucast total)) (propagate_carry product (drop_bit 32 total)))"

fun multiply_row :: "u32 \<Rightarrow> u32 list \<Rightarrow> u32 list \<Rightarrow> u64 \<Rightarrow> u32 list option" where
  "multiply_row left (r # right) (p # product) carry =
     (let total = ucast left * ucast r + ucast p + carry in
      map_option ((#) (ucast total)) (multiply_row left right product (drop_bit 32 total)))"
| "multiply_row left [] product carry = propagate_carry product carry"
| "multiply_row left (r # right) [] carry = propagate_carry [] carry"

fun multiply_rows :: "u32 list \<Rightarrow> u32 list \<Rightarrow> u32 list \<Rightarrow> u32 list option" where
  "multiply_rows (l # left) right product =
     (case multiply_row l right product 0 of
        Some (p # product) \<Rightarrow> map_option ((#) p) (multiply_rows left right product)
      | x \<Rightarrow> x)"
| "multiply_rows [] right product = Some product"

fun shift_product :: "nat \<Rightarrow> nat \<Rightarrow> u32 list \<Rightarrow> u64 \<Rightarrow> laplace_biguint \<Rightarrow> laplace_biguint option" where
  "shift_product output_index bit_shift (p # product) carry result =
     (let shifted = push_bit bit_shift (ucast p) OR carry in
      if LAPLACE_GEOMETRY_ACCUMULATOR_LIMBS \<le> output_index
      then if shifted \<noteq> 0 then None
           else shift_product (Suc output_index) bit_shift product (drop_bit 32 shifted) result
      else shift_product (Suc output_index) bit_shift product (drop_bit 32 shifted)
             (result[output_index := ucast shifted]))"
| "shift_product output_index bit_shift [] carry result =
     (if carry = 0 then Some result
      else if LAPLACE_GEOMETRY_ACCUMULATOR_LIMBS \<le> output_index then None
      else Some (result[output_index := ucast carry]))"

definition halves :: "u64 \<Rightarrow> u32 list" where
  "halves x = [ucast x, ucast (drop_bit 32 x)]"

definition big_zero :: laplace_biguint where
  "big_zero = replicate LAPLACE_GEOMETRY_ACCUMULATOR_LIMBS 0"

definition big_multiply_shift :: "u64 \<Rightarrow> u64 \<Rightarrow> u32 \<Rightarrow> laplace_biguint option" where
  "big_multiply_shift left right shift =
     (let word_shift = unat (shift div 32); bit_shift = unat (shift mod 32) in
      case multiply_rows (halves left) (halves right) [0, 0, 0, 0, 0] of
        None \<Rightarrow> None
      | Some product \<Rightarrow> shift_product word_shift bit_shift product 0 big_zero)"

lemma midpoint_bounds:
  fixes low high :: u64
  assumes "low < high"
  shows "unat (low + (high - low) div 2 + 1) = unat low + (unat high - unat low) div 2 + 1"
    and "unat (low + (high - low) div 2 + 1 - 1) = unat low + (unat high - unat low) div 2"
proof -
  have le: "unat low < unat high" using assms by (simp add: word_less_nat_alt)
  have h: "unat high < 2 ^ 64" using unsigned_less [of high, where 'a = nat] by simp
  have d: "unat ((high - low) div 2) = (unat high - unat low) div 2"
    using le by (simp add: unat_div unat_sub word_le_nat_alt)
  have s: "unat (low + (high - low) div 2) = unat low + (unat high - unat low) div 2"
    using le h by (subst unat_add_lem [THEN iffD1]) (auto simp: d)
  show "unat (low + (high - low) div 2 + 1) = unat low + (unat high - unat low) div 2 + 1"
    using le h by (subst unat_add_lem [THEN iffD1]) (auto simp: s)
  show "unat (low + (high - low) div 2 + 1 - 1) = unat low + (unat high - unat low) div 2"
    using s by simp
qed

lemma midpoint_decreases:
  "(low :: u64) < high \<Longrightarrow> unat high - unat (low + (high - low) div 2 + 1) < unat high - unat low"
  "(low :: u64) < high \<Longrightarrow> unat (low + (high - low) div 2 + 1 - 1) - unat low < unat high - unat low"
  using midpoint_bounds [of low high] by (auto simp: word_less_nat_alt)

text \<open>The largest quotient in \<open>lower .. upper\<close> whose product does not exceed the numerator, by
  bisection.  A product that overflows is larger than any numerator.\<close>

function quotient_search :: "laplace_biguint \<Rightarrow> u64 \<Rightarrow> u32 \<Rightarrow> u64 \<Rightarrow> u64 \<Rightarrow> u64" where
  "quotient_search numerator divisor shift low high =
     (if low < high then
        let midpoint = low + (high - low) div 2 + 1 in
        case big_multiply_shift divisor midpoint shift of
          Some product \<Rightarrow>
            if big_compare product numerator \<le> 0
            then quotient_search numerator divisor shift midpoint high
            else quotient_search numerator divisor shift low (midpoint - 1)
        | None \<Rightarrow> quotient_search numerator divisor shift low (midpoint - 1)
      else low)"
  by pat_completeness auto

termination
  by (relation "measure (\<lambda>(_, _, _, low, high). unat high - unat low)")
     (use midpoint_decreases in auto)

declare quotient_search.simps [simp del]

definition big_quotient_bounded :: "laplace_biguint \<Rightarrow> u64 \<Rightarrow> u32 \<Rightarrow> u64 \<Rightarrow> u64 \<Rightarrow> u64" where
  "big_quotient_bounded numerator divisor shift lower upper =
     quotient_search numerator divisor shift lower upper"

lemma unat_drop_bit_1_less: "(value :: u64) \<noteq> 0 \<Longrightarrow> unat (drop_bit 1 value) < unat value"
proof -
  assume "value \<noteq> 0"
  then have "unat value div 2 < unat value" by (simp add: unat_gt_0)
  moreover have "unat (drop_bit 1 value) = unat value div 2"
    by (subst unat_drop_bit_eq) (simp add: drop_bit_eq_div)
  ultimately show ?thesis by simp
qed

function high_bit_loop :: "u64 \<Rightarrow> int \<Rightarrow> int" where
  "high_bit_loop value b = (if value = 0 then b else high_bit_loop (drop_bit 1 value) (b + 1))"
  by pat_completeness auto

termination
  by (relation "measure (\<lambda>(value, b). unat value)") (simp_all add: unat_drop_bit_1_less [simplified])

declare high_bit_loop.simps [simp del]

definition uint64_high_bit :: "u64 \<Rightarrow> int" where
  "uint64_high_bit value = high_bit_loop value (- 1)"

definition rounded_quotient :: "laplace_biguint \<Rightarrow> u64 \<Rightarrow> u32 \<Rightarrow> u64 \<Rightarrow> u64 \<Rightarrow> u64" where
  "rounded_quotient numerator divisor shift lower upper =
     (let quotient = big_quotient_bounded numerator divisor shift lower upper;
          midpoint_multiplier = quotient * 2 + 1 in
      case (big_shift_left_one numerator, big_multiply_shift divisor midpoint_multiplier shift) of
        ((True, twice_numerator), Some midpoint) \<Rightarrow>
          let comparison = big_compare twice_numerator midpoint in
          if 0 < comparison \<or> (comparison = 0 \<and> quotient AND 1 \<noteq> 0) then quotient + 1 else quotient
      | _ \<Rightarrow> quotient)"

section \<open>Values\<close>

definition bigval :: "laplace_biguint \<Rightarrow> nat" where
  "bigval limbs = horner_sum unat (2 ^ 32) limbs"

lemma bigval_Nil [simp]: "bigval [] = 0"
  by (simp add: bigval_def)

lemma bigval_Cons: "bigval (x # xs) = unat x + 2 ^ 32 * bigval xs"
  by (simp add: bigval_def)

lemma bigval_append: "bigval (xs @ ys) = bigval xs + 2 ^ (32 * length xs) * bigval ys"
  by (simp add: bigval_def horner_sum_append power_mult)

lemma bigval_replicate_0 [simp]: "bigval (replicate n 0) = 0"
  by (induction n) (simp_all add: bigval_Cons)

lemma limb_less: "unat (x :: u32) < 2 ^ 32"
  using unsigned_less [of x, where 'a = nat] by simp

lemma bigval_less: "bigval xs < 2 ^ (32 * length xs)"
proof (induction xs)
  case (Cons x xs)
  have "unat x + 2 ^ 32 * bigval xs < 2 ^ 32 * (bigval xs + 1)" using limb_less [of x] by simp
  also have "\<dots> \<le> 2 ^ 32 * 2 ^ (32 * length xs)" using Cons by (intro mult_le_mono2) simp
  finally show ?case by (simp add: bigval_Cons power_add)
qed simp

lemma bigval_0_iff: "bigval xs = 0 \<longleftrightarrow> list_all (\<lambda>x. x = 0) xs"
  by (induction xs) (auto simp: bigval_Cons unat_eq_zero)

lemma bigval_inject: "length xs = length ys \<Longrightarrow> bigval xs = bigval ys \<longleftrightarrow> xs = ys"
proof (induction xs ys rule: list_induct2)
  case (Cons x xs y ys)
  have "unat x + 2 ^ 32 * bigval xs = unat y + 2 ^ 32 * bigval ys \<longleftrightarrow> unat x = unat y \<and> bigval xs = bigval ys"
    using limb_less [of x] limb_less [of y] by (auto dest: arg_cong [where f = "\<lambda>n. n mod 2 ^ 32"])
  then show ?case using Cons by (auto simp: bigval_Cons word_unat_eq_iff)
qed simp

text \<open>Reading limbs and 64-bit totals as naturals.\<close>

lemma unat_limb [simp]: "unat (ucast (w :: u64) :: u32) = unat w mod 2 ^ 32"
  by (simp add: unsigned_ucast_eq take_bit_eq_mod)

lemma unat_widen [simp]: "unat (ucast (x :: u32) :: u64) = unat x"
  using limb_less [of x] by (simp add: unsigned_ucast_eq take_bit_nat_eq_self_iff)

lemma unat_carry [simp]: "unat (drop_bit 32 (w :: u64)) = unat w div 2 ^ 32"
  by (subst unat_drop_bit_eq) (rule drop_bit_eq_div)

lemma unat_total:
  fixes a b c :: u64
  assumes "unat a + unat b + unat c < 2 ^ 64"
  shows "unat (a + b + c) = unat a + unat b + unat c"
  using assms by (simp add: unat_word_ariths)

lemma split_total: "(n :: nat) mod 2 ^ 32 + 2 ^ 32 * (n div 2 ^ 32) = n"
  by simp

lemma add_limbs_value:
  "length target = length addend \<Longrightarrow> unat carry \<le> 1 \<Longrightarrow> add_limbs target addend carry = (r, c) \<Longrightarrow>
     length r = length target \<and> unat c \<le> 1
     \<and> bigval r + 2 ^ (32 * length target) * unat c = bigval target + bigval addend + unat carry"
proof (induction target addend arbitrary: carry r rule: list_induct2)
  case Nil
  then show ?case by simp
next
  case (Cons t target a addend)
  let ?total = "ucast t + ucast a + carry :: u64"
  have total: "unat ?total = unat t + unat a + unat carry"
    using limb_less [of t] limb_less [of a] Cons.prems(1) by (subst unat_total) auto
  have small: "unat (drop_bit 32 ?total) \<le> 1"
    using limb_less [of t] limb_less [of a] Cons.prems(1) by (simp add: total)
  obtain rest where rest: "add_limbs target addend (drop_bit 32 ?total) = (rest, c)" "r = ucast ?total # rest"
    using Cons.prems(2) by (auto simp: Let_def split: prod.splits)
  note IH = Cons.IH [OF small rest(1)]
  have "unat (ucast ?total :: u32) + 2 ^ 32 * unat (drop_bit 32 ?total) = unat t + unat a + unat carry"
    unfolding unat_limb unat_carry split_total by (rule total)
  with IH show ?case
    by (simp add: rest(2) bigval_Cons algebra_simps power_add del: unat_limb unat_carry)
qed

lemma big_add_value:
  assumes "length target = length addend" "big_add target addend = (ok, r)"
  shows "length r = length target" "ok \<longleftrightarrow> bigval target + bigval addend < 2 ^ (32 * length target)"
    "ok \<Longrightarrow> bigval r = bigval target + bigval addend"
proof -
  obtain c where c: "add_limbs target addend 0 = (r, c)" "ok = (c = 0)"
    using assms(2) by (auto simp: big_add_def split: prod.splits)
  note v = add_limbs_value [OF assms(1) _ c(1)]
  show "length r = length target" using v by simp
  have "c = 0 \<longleftrightarrow> unat c = 0" by (simp add: unat_eq_zero)
  with v bigval_less [of r] show "ok \<longleftrightarrow> bigval target + bigval addend < 2 ^ (32 * length target)"
    "ok \<Longrightarrow> bigval r = bigval target + bigval addend"
    by (cases "unat c"; auto simp: c(2))+
qed

lemma subtract_limbs_value:
  "length target = length subtrahend \<Longrightarrow> unat borrow \<le> 1 \<Longrightarrow>
     length (subtract_limbs target subtrahend borrow) = length target
     \<and> (\<exists>b \<le> 1. bigval (subtract_limbs target subtrahend borrow) + bigval subtrahend + unat borrow
          = bigval target + 2 ^ (32 * length target) * b)"
proof (induction target subtrahend arbitrary: borrow rule: list_induct2)
  case Nil
  then show ?case by auto
next
  case (Cons t target s subtrahend)
  let ?s = "ucast s + borrow :: u64" and ?t = "ucast t :: u64"
  have s: "unat ?s = unat s + unat borrow"
    using limb_less [of s] Cons.prems by (simp add: unat_word_ariths)
  let ?b = "if ?t < ?s then 1 else 0 :: u64"
  have less: "?t < ?s \<longleftrightarrow> unat t < unat s + unat borrow"
    by (simp add: word_less_nat_alt s)
  have digit: "unat (ucast (?t - ?s) :: u32) + unat s + unat borrow = unat t + 2 ^ 32 * unat ?b"
  proof (cases "?t < ?s")
    case True
    have "unat (?t - ?s) = 2 ^ 64 + unat t - (unat s + unat borrow)"
      using True by (simp add: unat_sub_if' s less word_le_nat_alt not_le)
    moreover define d where "d = 2 ^ 32 + unat t - (unat s + unat borrow)"
    ultimately have "unat (?t - ?s) = 2 ^ 32 * (2 ^ 32 - 1) + d" "d < 2 ^ 32"
      using True less limb_less [of s] limb_less [of t] Cons.prems by simp_all
    then have "unat (ucast (?t - ?s) :: u32) = d" by (simp only: unat_limb mod_mult_self4) simp
    then show ?thesis using True less limb_less [of s] Cons.prems by (simp add: d_def)
  next
    case False
    then have "unat (?t - ?s) = unat t - (unat s + unat borrow)"
      by (simp add: unat_sub_if' s less word_le_nat_alt not_less)
    then show ?thesis using False less limb_less [of t] by simp
  qed
  have "unat ?b \<le> 1" by simp
  from Cons.IH [OF this] obtain b where "b \<le> 1"
    "bigval (subtract_limbs target subtrahend ?b) + bigval subtrahend + unat ?b
       = bigval target + 2 ^ (32 * length target) * b" by blast
  with digit Cons.IH [of ?b] show ?case
    by (auto simp: Let_def bigval_Cons power_add algebra_simps intro!: exI [of _ b])
qed

lemma big_subtract_value:
  assumes "length target = length subtrahend" "bigval subtrahend \<le> bigval target"
  shows "length (big_subtract target subtrahend) = length target"
    "bigval (big_subtract target subtrahend) = bigval target - bigval subtrahend"
proof -
  obtain b where b: "length (big_subtract target subtrahend) = length target" "b \<le> 1"
    "bigval (big_subtract target subtrahend) + bigval subtrahend = bigval target + 2 ^ (32 * length target) * b"
    using subtract_limbs_value [OF assms(1), of 0] by (auto simp: big_subtract_def)
  with bigval_less [of target] bigval_less [of "big_subtract target subtrahend"] assms(2)
  have "b = 0" by (cases b) auto
  with b show "length (big_subtract target subtrahend) = length target"
    "bigval (big_subtract target subtrahend) = bigval target - bigval subtrahend" by auto
qed

lemma compare_limbs_value:
  "length left = length right \<Longrightarrow>
     compare_limbs left right = (if bigval (rev left) < bigval (rev right) then - 1
        else if bigval (rev right) < bigval (rev left) then 1 else 0)"
proof (induction left right rule: list_induct2)
  case (Cons l left r right)
  have less: "bigval (rev left) + 2 ^ (32 * length left) * unat l
      < bigval (rev right) + 2 ^ (32 * length left) * unat r"
    if "unat l < unat r" "bigval (rev left) < 2 ^ (32 * length left)" for l r :: u32 and left right
  proof -
    have "2 ^ (32 * length left) * (unat l + 1) \<le> 2 ^ (32 * length left) * unat r"
      using that(1) by (intro mult_le_mono2) simp
    with that(2) show ?thesis by simp
  qed
  from bigval_less [of "rev left"] bigval_less [of "rev right"] Cons.hyps
  have "bigval (rev left) < 2 ^ (32 * length left)" "bigval (rev right) < 2 ^ (32 * length left)" by simp_all
  with less [of l r left right] less [of r l right left] Cons show ?case
    by (auto simp: bigval_append bigval_Cons word_less_nat_alt word_unat_eq_iff not_less dest: antisym)
qed simp

lemma big_compare_value:
  "length left = length right \<Longrightarrow>
     big_compare left right = (if bigval left < bigval right then - 1
        else if bigval right < bigval left then 1 else 0)"
  by (simp add: big_compare_def compare_limbs_value)

lemma big_is_zero_value: "big_is_zero value \<longleftrightarrow> bigval value = 0"
  by (simp add: big_is_zero_def bigval_0_iff)

lemma push_bit_or:
  fixes x c :: "'a::len word"
  assumes "unat c < 2 ^ n"
  shows "push_bit n x OR c = push_bit n x + c"
proof -
  have "take_bit n c = c"
    using assms by (simp add: word_unat_eq_iff unsigned_take_bit_eq take_bit_nat_eq_self_iff)
  then have "\<not> bit c k" if "n \<le> k" for k
    using that by (metis bit_take_bit_iff not_le)
  then have "push_bit n x AND c = 0"
    by (intro bit_word_eqI) (auto simp: bit_simps)
  then show ?thesis by (simp add: disjunctive_add_eq_or)
qed

lemma shift_left_limbs_value:
  "unat carry \<le> 1 \<Longrightarrow> shift_left_limbs source carry = (r, c) \<Longrightarrow>
     length r = length source \<and> unat c \<le> 1
     \<and> bigval r + 2 ^ (32 * length source) * unat c = 2 * bigval source + unat carry"
proof (induction source arbitrary: carry r)
  case (Cons s source)
  obtain rest where rest: "shift_left_limbs source (drop_bit 31 s) = (rest, c)" "r = (push_bit 1 s OR carry) # rest"
    using Cons.prems(2) by (auto split: prod.splits)
  have top: "unat (drop_bit 31 s) = unat s div 2 ^ 31"
    by (subst unat_drop_bit_eq) (rule drop_bit_eq_div)
  have "unat (drop_bit 31 s) \<le> 1" using limb_less [of s] by (simp add: top)
  note IH = Cons.IH [OF this rest(1)]
  have bit31: "unat s div 2 ^ 31 = (if unat s < 2 ^ 31 then 0 else 1)"
    using limb_less [of s] by (auto intro: div_nat_eqI)
  have "unat (push_bit 1 s OR carry) = unat (2 * s + carry)"
    using Cons.prems(1) by (subst push_bit_or) (simp_all add: push_bit_eq_mult mult.commute)
  also have "\<dots> = (2 * unat s + unat carry) mod 2 ^ 32"
    by (simp add: unat_word_ariths mod_simps)
  finally have "unat (push_bit 1 s OR carry) + 2 ^ 32 * unat (drop_bit 31 s) = 2 * unat s + unat carry"
    unfolding top bit31 using limb_less [of s] Cons.prems(1) by (auto simp: mod_if)
  with IH show ?case by (simp add: rest(2) bigval_Cons algebra_simps power_add)
qed auto

lemma big_shift_left_one_value:
  assumes "big_shift_left_one source = (ok, r)"
  shows "length r = length source" "ok \<longleftrightarrow> 2 * bigval source < 2 ^ (32 * length source)"
    "ok \<Longrightarrow> bigval r = 2 * bigval source"
proof -
  obtain c where c: "shift_left_limbs source 0 = (r, c)" "ok = (c = 0)"
    using assms by (auto simp: big_shift_left_one_def split: prod.splits)
  note v = shift_left_limbs_value [OF _ c(1)]
  have "c = 0 \<longleftrightarrow> unat c = 0" by (simp add: unat_eq_zero)
  with v bigval_less [of r] show "length r = length source"
    "ok \<longleftrightarrow> 2 * bigval source < 2 ^ (32 * length source)" "ok \<Longrightarrow> bigval r = 2 * bigval source"
    by (cases "unat c"; auto simp: c(2))+
qed

section \<open>The product\<close>

text \<open>A result in \<open>n\<close> limbs that is the number \<open>x\<close>, or a failure because \<open>x\<close> does not fit.\<close>

definition fits :: "nat \<Rightarrow> nat \<Rightarrow> u32 list option \<Rightarrow> bool" where
  "fits n x result \<longleftrightarrow>
     (case result of None \<Rightarrow> 2 ^ (32 * n) \<le> x | Some r \<Rightarrow> length r = n \<and> bigval r = x)"

lemma fits_None [simp]: "fits n x None \<longleftrightarrow> 2 ^ (32 * n) \<le> x"
  by (simp add: fits_def)

lemma fits_Some [simp]: "fits n x (Some r) \<longleftrightarrow> length r = n \<and> bigval r = x"
  by (simp add: fits_def)

lemma fits_Cons:
  assumes "fits n y result"
  shows "fits (Suc n) (unat d + 2 ^ 32 * y) (map_option ((#) d) result)"
proof (cases result)
  case None
  then have "2 ^ 32 * 2 ^ (32 * n) \<le> 2 ^ 32 * y" using assms by (intro mult_le_mono2) simp
  then show ?thesis using None by (simp add: power_add)
next
  case (Some r)
  then show ?thesis using assms by (simp add: bigval_Cons)
qed

lemma fits_digit:
  fixes total :: u64
  assumes "fits n (y + unat (drop_bit 32 total)) result"
  shows "fits (Suc n) (unat total + 2 ^ 32 * y) (map_option ((#) (ucast total)) result)"
proof -
  have "unat total + 2 ^ 32 * y = unat (ucast total :: u32) + 2 ^ 32 * (y + unat (drop_bit 32 total))"
    unfolding unat_limb unat_carry using split_total [of "unat total"] by (simp add: algebra_simps)
  then show ?thesis using fits_Cons [OF assms, of "ucast total"] by simp
qed

lemma propagate_carry_value:
  "unat carry < 2 ^ 32 \<Longrightarrow>
     fits (length product) (bigval product + unat carry) (propagate_carry product carry)"
proof (induction product carry rule: propagate_carry.induct)
  case (1 carry)
  then show ?case by (simp add: unat_gt_0 Suc_le_eq)
next
  case (2 p product carry)
  show ?case
  proof (cases "carry = 0")
    case False
    let ?total = "ucast p + carry :: u64"
    have total: "unat ?total = unat p + unat carry"
      using limb_less [of p] 2(2) by (simp add: unat_word_ariths)
    have "unat (drop_bit 32 ?total) < 2 ^ 32"
      using limb_less [of p] 2(2) by (simp add: total)
    note IH = fits_digit [OF 2(1) [OF False refl this]]
    have "bigval (p # product) + unat carry = unat ?total + 2 ^ 32 * bigval product"
      by (simp add: bigval_Cons total)
    then show ?thesis using IH False by (simp add: Let_def del: unat_carry)
  qed simp
qed

lemma multiply_row_value:
  "unat carry < 2 ^ 32 \<Longrightarrow> length right \<le> length product \<Longrightarrow>
     fits (length product) (bigval product + unat left * bigval right + unat carry)
       (multiply_row left right product carry)"
proof (induction left right product carry rule: multiply_row.induct)
  case (1 left r right p product carry)
  let ?total = "ucast left * ucast r + ucast p + carry :: u64"
  have "unat left * unat r \<le> (2 ^ 32 - 1) * (2 ^ 32 - 1)"
    using limb_less [of left] limb_less [of r] by (intro mult_le_mono) auto
  then have bound: "unat left * unat r + unat p + unat carry < 2 ^ 64"
    using limb_less [of p] 1(2) by simp
  then have "unat (ucast left * ucast r :: u64) = unat left * unat r"
    by (simp add: unat_word_ariths)
  then have total: "unat ?total = unat left * unat r + unat p + unat carry"
    using bound by (subst unat_total) auto
  have "unat (drop_bit 32 ?total) < 2 ^ 32"
    using bound by (simp add: total less_mult_imp_div_less)
  from fits_digit [OF 1(1) [OF refl this]] 1(3)
  have "fits (Suc (length product)) (unat ?total + 2 ^ 32 * (bigval product + unat left * bigval right))
     (map_option ((#) (ucast ?total)) (multiply_row left right product (drop_bit 32 ?total)))"
    by simp
  moreover have "unat ?total + 2 ^ 32 * (bigval product + unat left * bigval right)
      = bigval (p # product) + unat left * bigval (r # right) + unat carry"
    by (simp only: bigval_Cons total) (simp add: algebra_simps)
  ultimately show ?case by (simp only: multiply_row.simps Let_def list.size)  simp
next
  case (2 left product carry)
  then show ?case using propagate_carry_value [of carry product] by simp
qed (simp add: Suc_le_eq unat_gt_0)

lemma multiply_rows_value:
  "length left + length right \<le> length product \<Longrightarrow>
     fits (length product) (bigval product + bigval left * bigval right) (multiply_rows left right product)"
proof (induction left right product rule: multiply_rows.induct)
  case (1 l left right product)
  have row: "fits (length product) (bigval product + unat l * bigval right) (multiply_row l right product 0)"
    using multiply_row_value [of 0 right product l] 1(2) by simp
  have split: "bigval product + bigval (l # left) * bigval right
      = (bigval product + unat l * bigval right) + 2 ^ 32 * (bigval left * bigval right)"
    by (simp add: bigval_Cons algebra_simps)
  show ?case
  proof (cases "multiply_row l right product 0")
    case None
    then show ?thesis using row unfolding split by simp
  next
    case (Some r)
    then obtain p product' where r: "r = p # product'" using row 1(2) by (cases r) auto
    have rest: "fits (length product') (bigval product' + bigval left * bigval right) (multiply_rows left right product')"
      using 1(1) [OF Some r] 1(2) row Some r by simp
    have "bigval product + unat l * bigval right = unat p + 2 ^ 32 * bigval product'" "length product = Suc (length product')"
      using row Some r by (simp_all add: bigval_Cons)
    then show ?thesis
      using fits_Cons [OF rest, of p] Some r unfolding split by (simp add: algebra_simps)
  qed
qed simp

lemma bigval_halves [simp]: "bigval (halves x) = unat x"
  using split_total [of "unat x"] unsigned_less [of x, where 'a = nat]
  by (simp add: halves_def bigval_Cons less_mult_imp_div_less)

lemma replicate_5: "replicate 5 x = [x, x, x, x, x]"
  by (simp add: numeral_eq_Suc)

lemma length_halves: "length (halves x) = 2"
  by (simp add: halves_def)

lemma bigval_update:
  "i < length xs \<Longrightarrow> xs ! i = 0 \<Longrightarrow> bigval (xs[i := d]) = bigval xs + 2 ^ (32 * i) * unat d"
proof (induction xs arbitrary: i)
  case (Cons x xs)
  then show ?case by (cases i) (auto simp: bigval_Cons power_add algebra_simps)
qed simp


abbreviation LIMBS :: nat where "LIMBS \<equiv> LAPLACE_GEOMETRY_ACCUMULATOR_LIMBS"

lemma unat_pow: "bs < 32 \<Longrightarrow> unat (2 ^ bs :: u64) = 2 ^ bs"
proof -
  assume "bs < 32"
  then have "(2::nat) ^ bs < 2 ^ 64" by (intro power_strict_increasing) auto
  moreover have "(2 ^ bs :: u64) = of_nat (2 ^ bs)" by simp
  ultimately show ?thesis by (simp only: unat_of_nat) (simp add: take_bit_nat_eq_self_iff)
qed

lemma shift_product_value:
  assumes "unat carry < 2 ^ bs" "bs < 32" "length result = LIMBS" "\<forall>k. oi \<le> k \<longrightarrow> k < LIMBS \<longrightarrow> result ! k = 0"
  shows "fits LIMBS (bigval result + 2 ^ (32 * oi) * (2 ^ bs * bigval product + unat carry))
     (shift_product oi bs product carry result)"
  using assms
proof (induction product arbitrary: oi carry result)
  case Nil
  have big: "2 ^ (32 * LIMBS) \<le> bigval result + 2 ^ (32 * oi) * unat carry" if "carry \<noteq> 0" "LIMBS \<le> oi"
  proof -
    have "(2::nat) ^ (32 * LIMBS) * 1 \<le> 2 ^ (32 * oi) * unat carry"
      using that by (intro mult_le_mono) (auto simp: unat_gt_0 Suc_le_eq)
    then show ?thesis by simp
  qed
  have "unat carry < 2 ^ 32"
    using Nil(1,2) by (meson less_imp_le less_le_trans one_le_numeral power_increasing)
  with Nil big show ?case by (auto simp: bigval_update)
next
  case (Cons p product)
  define shifted where "shifted = push_bit bs (ucast p) OR carry"
  have less: "2 ^ bs * unat p + unat carry < 2 ^ bs * 2 ^ 32"
  proof -
    have "2 ^ bs * unat p + unat carry < 2 ^ bs * (unat p + 1)" using Cons.prems(1) by simp
    also have "\<dots> \<le> 2 ^ bs * 2 ^ 32" using limb_less [of p] by (intro mult_le_mono2) simp
    finally show ?thesis .
  qed
  have "(2::nat) ^ bs * 2 ^ 32 \<le> 2 ^ 32 * 2 ^ 32"
    using Cons.prems(2) by (intro mult_le_mono power_increasing) auto
  with less have fit: "2 ^ bs * unat p + unat carry < 2 ^ 64" by simp
  have shifted: "unat shifted = 2 ^ bs * unat p + unat carry"
  proof -
    have "unat shifted = unat (push_bit bs (ucast p) + carry)"
      unfolding shifted_def using Cons.prems(1) by (simp add: push_bit_or)
    also have "\<dots> = 2 ^ bs * unat p + unat carry"
      using fit by (simp add: unat_pow [OF Cons.prems(2)] unat_word_ariths push_bit_eq_mult mod_simps mult.commute)
    finally show ?thesis .
  qed
  have carry': "unat (drop_bit 32 shifted) < 2 ^ bs"
    using less by (simp add: shifted less_mult_imp_div_less)
  have split: "2 ^ bs * bigval (p # product) + unat carry = unat shifted + 2 ^ 32 * (2 ^ bs * bigval product)"
    by (simp add: bigval_Cons shifted algebra_simps)
  show ?case
  proof (cases "LIMBS \<le> oi")
    case True
    show ?thesis
    proof (cases "shifted = 0")
      case z: True
      have "fits LIMBS (bigval result + 2 ^ (32 * Suc oi) * (2 ^ bs * bigval product + unat (drop_bit 32 shifted)))
        (shift_product (Suc oi) bs product (drop_bit 32 shifted) result)"
        using Cons.IH [OF carry' Cons.prems(2,3), of "Suc oi"] True by simp
      then show ?thesis
        unfolding split using True z by (simp add: shifted_def [symmetric] Let_def power_add mult_ac)
    next
      case False
      have "(2::nat) ^ (32 * LIMBS) * 1 \<le> 2 ^ (32 * oi) * (unat shifted + 2 ^ 32 * (2 ^ bs * bigval product))"
        using True False by (intro mult_le_mono) (auto simp: unat_gt_0 Suc_le_eq)
      then show ?thesis
        unfolding split using True False by (simp add: shifted_def [symmetric] Let_def)
    qed
  next
    case False
    have "fits LIMBS (bigval (result[oi := ucast shifted]) + 2 ^ (32 * Suc oi) * (2 ^ bs * bigval product + unat (drop_bit 32 shifted)))
        (shift_product (Suc oi) bs product (drop_bit 32 shifted) (result[oi := ucast shifted]))"
      using Cons.prems(3,4) by (intro Cons.IH [OF carry' Cons.prems(2)]) auto
    moreover have "bigval (result[oi := ucast shifted]) = bigval result + 2 ^ (32 * oi) * unat (ucast shifted :: u32)"
      using Cons.prems(3,4) False by (intro bigval_update) auto
    moreover have "unat shifted = unat (ucast shifted :: u32) + 2 ^ 32 * unat (drop_bit 32 shifted)"
      unfolding unat_limb unat_carry split_total ..
    ultimately show ?thesis
      unfolding split using False
      by (simp add: shifted_def [symmetric] Let_def power_add algebra_simps del: unat_limb unat_carry)
  qed
qed

lemma big_multiply_shift_value:
  "fits LIMBS (unat left * unat right * 2 ^ unat shift) (big_multiply_shift left right shift)"
proof -
  have rows: "fits 5 (unat left * unat right) (multiply_rows (halves left) (halves right) [0, 0, 0, 0, 0])"
    using multiply_rows_value [of "halves left" "halves right" "replicate 5 0", unfolded length_halves length_replicate]
    by (simp only: bigval_replicate_0 bigval_halves) (simp add: replicate_5)
  have "unat left * unat right \<le> 2 ^ 64 * 2 ^ 64"
    using unsigned_less [of left, where 'a = nat] unsigned_less [of right, where 'a = nat] by (intro mult_le_mono) auto
  with rows obtain product where p: "multiply_rows (halves left) (halves right) [0, 0, 0, 0, 0] = Some product"
    "bigval product = unat left * unat right"
    by (cases "multiply_rows (halves left) (halves right) [0, 0, 0, 0, 0]") auto
  have shift: "unat shift = 32 * unat (shift div 32) + unat (shift mod 32)"
    by (simp add: unat_div unat_mod)
  have "fits LIMBS (bigval big_zero + 2 ^ (32 * unat (shift div 32)) * (2 ^ unat (shift mod 32) * bigval product + unat (0 :: u64)))
     (shift_product (unat (shift div 32)) (unat (shift mod 32)) product 0 big_zero)"
    by (intro shift_product_value) (auto simp: big_zero_def unat_mod)
  then show ?thesis
    unfolding big_multiply_shift_def Let_def p option.case
    by (simp add: p(2) shift power_add big_zero_def mult_ac)
qed

section \<open>High bits\<close>

lemma bit_unat: "n < 32 \<Longrightarrow> bit (limb :: u32) n \<longleftrightarrow> odd (unat limb div 2 ^ n)"
  by (simp add: bit_unsigned_iff flip: bit_iff_odd)

lemma limb_high_bit_value:
  "0 < unat limb \<Longrightarrow> unat limb < 2 ^ Suc b \<Longrightarrow> b < 32 \<Longrightarrow>
     2 ^ limb_high_bit limb b \<le> unat limb \<and> unat limb < 2 ^ Suc (limb_high_bit limb b)"
proof (induction b)
  case (Suc b)
  have "bit limb (Suc b) \<longleftrightarrow> odd (unat limb div 2 ^ Suc b)" using Suc.prems by (intro bit_unat) simp
  moreover have "unat limb div 2 ^ Suc b = (if 2 ^ Suc b \<le> unat limb then 1 else 0)"
    using Suc.prems(2) by (auto intro: div_nat_eqI)
  ultimately have "bit limb (Suc b) \<longleftrightarrow> 2 ^ Suc b \<le> unat limb" by simp
  moreover have "limb AND push_bit (Suc b) 1 = 0 \<longleftrightarrow> \<not> bit limb (Suc b)"
    using and_exp_eq_0_iff_not_bit [of limb "Suc b"] by simp
  ultimately have "limb_high_bit limb (Suc b) = (if 2 ^ Suc b \<le> unat limb then Suc b else limb_high_bit limb b)"
    by (simp del: power_Suc push_bit_Suc)
  with Suc show ?case by (simp add: not_le)
qed auto

lemma high_bit_limbs_value:
  "0 < bigval (rev limbs) \<Longrightarrow> \<exists>h. high_bit_limbs limbs = int h \<and> 2 ^ h \<le> bigval (rev limbs) \<and> bigval (rev limbs) < 2 ^ Suc h"
proof (induction limbs rule: high_bit_limbs.induct)
  case (1 limb rest)
  show ?case
  proof (cases "limb = 0")
    case True
    then show ?thesis using 1 by (simp add: bigval_append bigval_Cons)
  next
    case False
    let ?n = "32 * length rest" and ?b = "limb_high_bit limb 31"
    have b: "2 ^ ?b \<le> unat limb" "unat limb + 1 \<le> 2 ^ Suc ?b"
      using limb_high_bit_value [of limb 31] limb_less [of limb] False by (auto simp: unat_gt_0)
    have "(2::nat) ^ ?n * 2 ^ ?b \<le> 2 ^ ?n * unat limb" using b(1) by (rule mult_le_mono2)
    moreover have "bigval (rev rest) + 2 ^ ?n * unat limb < 2 ^ ?n * (unat limb + 1)"
      using bigval_less [of "rev rest"] by simp
    moreover have "(2::nat) ^ ?n * (unat limb + 1) \<le> 2 ^ ?n * 2 ^ Suc ?b" using b(2) by (rule mult_le_mono2)
    ultimately have "2 ^ (?n + ?b) \<le> bigval (rev rest) + 2 ^ ?n * unat limb"
      "bigval (rev rest) + 2 ^ ?n * unat limb < 2 ^ (?n + Suc ?b)"
      unfolding power_add by linarith+
    then show ?thesis
      using False
      by (intro exI [of _ "?n + ?b"]) (simp add: bigval_append bigval_Cons mult.commute)
  qed
qed simp

lemma big_high_bit_value:
  assumes "0 < bigval value"
  obtains h where "big_high_bit value = int h" "2 ^ h \<le> bigval value" "bigval value < 2 ^ Suc h"
  using high_bit_limbs_value [of "rev value"] assms by (auto simp: big_high_bit_def)

lemma high_bit_loop_value:
  "value \<noteq> 0 \<Longrightarrow> \<exists>h. high_bit_loop value b = b + 1 + int h \<and> 2 ^ h \<le> unat value \<and> unat value < 2 ^ Suc h"
proof (induction "unat value" arbitrary: "value" b rule: less_induct)
  case less
  have half: "unat (drop_bit 1 value) = unat value div 2"
    by (subst unat_drop_bit_eq) (simp add: drop_bit_eq_div)
  show ?case
  proof (cases "drop_bit 1 value = 0")
    case True
    then have "unat value div 2 = 0" using half by simp
    then have "unat value = 1" using less(2) by (auto simp: unat_eq_zero div_eq_0_iff less_2_cases_iff)
    then show ?thesis
      using True less(2) by (intro exI [of _ 0]) (simp add: high_bit_loop.simps [of "value"] high_bit_loop.simps [of 0])
  next
    case False
    from less(1) [OF unat_drop_bit_1_less [OF less(2)] False, of "b + 1"]
    obtain h where h: "high_bit_loop (drop_bit 1 value) (b + 1) = b + 1 + 1 + int h"
      "2 ^ h \<le> unat value div 2" "unat value div 2 < 2 ^ Suc h"
      unfolding half by blast
    show ?thesis
      using h less(2) by (intro exI [of _ "Suc h"]) (subst high_bit_loop.simps, auto)
  qed
qed

lemma uint64_high_bit_value:
  assumes "0 < unat value"
  obtains h where "uint64_high_bit value = int h" "2 ^ h \<le> unat value" "unat value < 2 ^ Suc h"
  using high_bit_loop_value [of "value" "- 1"] assms by (auto simp: uint64_high_bit_def unat_gt_0)

section \<open>The rounded quotient\<close>

lemma quotient_search_value:
  assumes "length numerator = LIMBS" "low \<le> high"
    "d = unat divisor * 2 ^ unat shift" "d * unat low \<le> bigval numerator" "bigval numerator < d * (unat high + 1)"
  shows "d * unat (quotient_search numerator divisor shift low high) \<le> bigval numerator
    \<and> bigval numerator < d * (unat (quotient_search numerator divisor shift low high) + 1)
    \<and> low \<le> quotient_search numerator divisor shift low high \<and> quotient_search numerator divisor shift low high \<le> high"
  using assms
proof (induction numerator divisor shift low high rule: quotient_search.induct)
  case (1 numerator divisor shift low high)
  show ?case
  proof (cases "low < high")
    case False
    then have "quotient_search numerator divisor shift low high = low"
      by (subst quotient_search.simps) simp
    then show ?thesis using False 1(4-) by (simp add: not_less)
  next
    case True
    define m where "m = low + (high - low) div 2 + 1"
    note mid = midpoint_bounds [OF True, folded m_def]
    have m: "low \<le> m" "m \<le> high" "low \<le> m - 1" "m - 1 \<le> high" "unat m = unat (m - 1) + 1"
      using mid True by (auto simp: word_le_nat_alt word_less_nat_alt)
    have prod: "unat divisor * unat m * 2 ^ unat shift = d * unat m" using 1(6) by simp
    note IH = 1(1-3) [OF True m_def]
    show ?thesis
    proof (cases "\<exists>product. big_multiply_shift divisor m shift = Some product \<and> big_compare product numerator \<le> 0")
      case le: True
      then obtain product where p: "big_multiply_shift divisor m shift = Some product" "big_compare product numerator \<le> 0" by blast
      then have "d * unat m \<le> bigval numerator"
        using big_multiply_shift_value [of divisor m shift] 1(4) by (auto simp: prod big_compare_value split: if_splits)
      then show ?thesis
        using IH(2) [OF p] 1(4-) True m p by (subst (1 2 3 4) quotient_search.simps) (auto simp: m_def [symmetric] Let_def)
    next
      case gt: False
      have "bigval numerator < d * unat m"
      proof (cases "big_multiply_shift divisor m shift")
        case None
        then show ?thesis
          using big_multiply_shift_value [of divisor m shift] bigval_less [of numerator] 1(4) by (auto simp: prod)
      next
        case (Some product)
        then show ?thesis
          using gt big_multiply_shift_value [of divisor m shift] 1(4) by (auto simp: prod big_compare_value split: if_splits)
      qed
      moreover have "quotient_search numerator divisor shift low high = quotient_search numerator divisor shift low (m - 1)"
        using gt True by (subst quotient_search.simps) (auto simp: m_def [symmetric] Let_def split: option.splits)
      ultimately show ?thesis
        using IH(1,3) gt 1(4-) m by (cases "big_multiply_shift divisor m shift") auto
    qed
  qed
qed

text \<open>Division rounded to the nearest integer, ties to the even one: the reference for
  \<open>rounded_quotient\<close>.\<close>

definition round_half_even :: "nat \<Rightarrow> nat \<Rightarrow> nat" where
  "round_half_even n d =
     (if d < 2 * (n mod d) \<or> (2 * (n mod d) = d \<and> odd (n div d)) then n div d + 1 else n div d)"

lemma round_half_even_unique:
  assumes "d * q \<le> n" "n < d * (q + 1)"
  shows "round_half_even n d = (if d * (2 * q + 1) < 2 * n \<or> (d * (2 * q + 1) = 2 * n \<and> odd q) then q + 1 else q)"
proof -
  have q: "n div d = q" using assms by (intro div_nat_eqI) (auto simp: algebra_simps)
  then have "n = d * q + n mod d" by (metis mult_div_mod_eq)
  then show ?thesis
    unfolding round_half_even_def q by (auto simp: algebra_simps)
qed

lemma rounded_quotient_value:
  assumes "length numerator = LIMBS" "lower \<le> upper"
    "d = unat divisor * 2 ^ unat shift" "d * unat lower \<le> bigval numerator" "bigval numerator < d * (unat upper + 1)"
    "unat upper < 2 ^ 62" "2 * bigval numerator + d < 2 ^ (32 * LIMBS)"
  shows "unat (rounded_quotient numerator divisor shift lower upper) = round_half_even (bigval numerator) d"
    "unat (rounded_quotient numerator divisor shift lower upper) \<le> unat upper + 1"
proof -
  define q where "q = quotient_search numerator divisor shift lower upper"
  have q: "d * unat q \<le> bigval numerator" "bigval numerator < d * (unat q + 1)" "unat q \<le> unat upper"
    using quotient_search_value [OF assms(1-5)] by (simp_all add: q_def word_le_nat_alt)
  have m: "unat (q * 2 + 1) = 2 * unat q + 1" "unat (q + 1) = unat q + 1"
    using q(3) assms(6) by (simp_all add: unat_word_ariths)
  obtain ok twice where twice: "big_shift_left_one numerator = (ok, twice)" by fastforce
  have twice_ok: ok "length twice = LIMBS" "bigval twice = 2 * bigval numerator"
    using big_shift_left_one_value [OF twice] assms(1,7) by auto
  have prod: "unat divisor * unat (q * 2 + 1) * 2 ^ unat shift = d * (2 * unat q + 1)"
    by (simp only: m assms(3) mult_ac)
  have "d * (2 * unat q + 1) \<le> 2 * bigval numerator + d" using q(1) by (simp add: algebra_simps)
  then obtain mid where mid: "big_multiply_shift divisor (q * 2 + 1) shift = Some mid" "length mid = LIMBS"
    "bigval mid = d * (2 * unat q + 1)"
    using big_multiply_shift_value [of divisor "q * 2 + 1" shift] assms(7)
    by (cases "big_multiply_shift divisor (q * 2 + 1) shift") (auto simp: prod)
  have odd: "q AND 1 \<noteq> 0 \<longleftrightarrow> odd (unat q)"
    by (simp add: and_one_eq odd_iff_mod_2_eq_one word_unat_eq_iff unat_mod)
  have "rounded_quotient numerator divisor shift lower upper
     = (if d * (2 * unat q + 1) < 2 * bigval numerator \<or> (d * (2 * unat q + 1) = 2 * bigval numerator \<and> odd (unat q))
        then q + 1 else q)"
    unfolding rounded_quotient_def big_quotient_bounded_def q_def [symmetric] Let_def twice mid odd
    by (simp add: twice_ok mid big_compare_value)
  then show "unat (rounded_quotient numerator divisor shift lower upper) = round_half_even (bigval numerator) d"
    "unat (rounded_quotient numerator divisor shift lower upper) \<le> unat upper + 1"
    unfolding round_half_even_unique [OF q(1,2)] using q(3) by (simp_all add: m)
qed

end
