(* ===== verification/Geometry.thy ===== *)
theory Geometry
  imports Biguint
begin

text \<open>
  Exact centroids (\<open>engine/src/geometry.c\<close>).  An accumulator holds, for each of the four
  coordinates, the exact sum of the binary64 coordinates it was given, as a sign and a magnitude
  in units of the least subnormal, and the number of points.  Finishing divides each sum by the
  count and rounds once.

  A \<open>double\<close> is its 64-bit pattern: the code takes it apart with \<open>memcpy\<close>, masks and shifts and
  builds the mean the same way.  The radius of the summary is the only place where the code
  computes with \<open>double\<close>s (\<open>sqrt\<close> of a sum of four squares, whose roundings depend on the
  rounding mode and on contraction); it is the argument \<open>radius\<close> of
  \<open>laplace_geometry_accumulator_finish\<close>, a function of the four coordinates of the centroid.
  C arrays are lists; \<open>accumulator_ok\<close> states their lengths with the invariant.
\<close>

definition LAPLACE_GEOMETRY_COMPONENTS :: nat where
  "LAPLACE_GEOMETRY_COMPONENTS = 4"

datatype laplace_geometry_status =
    LAPLACE_GEOMETRY_OK
  | LAPLACE_GEOMETRY_INVALID_ARGUMENT
  | LAPLACE_GEOMETRY_EMPTY
  | LAPLACE_GEOMETRY_ZERO_MULTIPLICITY
  | LAPLACE_GEOMETRY_COUNT_OVERFLOW
  | LAPLACE_GEOMETRY_COORDINATE_OUT_OF_RANGE
  | LAPLACE_GEOMETRY_ACCUMULATOR_OVERFLOW

type_synonym laplace_point4d = "u64 list"
type_synonym i32 = "32 word"

record laplace_exact_component =
  xc_magnitude :: "u32 list"
  xc_sign :: i32

record laplace_geometry_accumulator =
  ga_sum :: "laplace_exact_component list"
  ga_logical_count :: u64

record laplace_geometry_summary =
  gs_centroid :: laplace_point4d
  gs_radius :: u64
  gs_logical_count :: u64

section \<open>Components\<close>

definition exact_component_valid :: "laplace_exact_component \<Rightarrow> bool" where
  "exact_component_valid c =
     (if xc_sign c <s - 1 \<or> 1 <s xc_sign c then False
      else if xc_sign c = 0 then big_is_zero (xc_magnitude c)
      else \<not> big_is_zero (xc_magnitude c))"

text \<open>\<open>None\<close> is the return value 0, which leaves the target alone.\<close>

definition exact_component_add ::
  "laplace_exact_component \<Rightarrow> laplace_biguint \<Rightarrow> i32 \<Rightarrow> laplace_exact_component option" where
  "exact_component_add target magnitude sign =
     (if big_is_zero magnitude then Some target else
      let comparison = big_compare (xc_magnitude target) magnitude in
      if xc_sign target = 0 then Some (target\<lparr>xc_magnitude := magnitude, xc_sign := sign\<rparr>)
      else if xc_sign target = sign
      then case big_add (xc_magnitude target) magnitude of
             (False, _) \<Rightarrow> None
           | (True, r) \<Rightarrow> Some (target\<lparr>xc_magnitude := r\<rparr>)
      else if comparison = 0 then Some (target\<lparr>xc_magnitude := big_zero, xc_sign := 0\<rparr>)
      else if 0 < comparison
      then Some (target\<lparr>xc_magnitude := big_subtract (xc_magnitude target) magnitude\<rparr>)
      else Some (target\<lparr>xc_magnitude := big_subtract magnitude (xc_magnitude target), xc_sign := sign\<rparr>))"

definition point_term :: "u64 \<Rightarrow> u64 \<Rightarrow> laplace_geometry_status + laplace_biguint \<times> i32" where
  "point_term bits multiplicity =
     (let fraction = bits AND 0x000fffffffffffff;
          exponent = (ucast (drop_bit 52 bits AND 0x7ff) :: u32);
          sign = (if drop_bit 63 bits = 0 then 1 else - 1) in
      if exponent = 0x7ff then Inl LAPLACE_GEOMETRY_COORDINATE_OUT_OF_RANGE else
      if 1023 < exponent \<or> (exponent = 1023 \<and> fraction \<noteq> 0)
      then Inl LAPLACE_GEOMETRY_COORDINATE_OUT_OF_RANGE else
      let (significand, shift) =
            (if exponent = 0 then (fraction, 0) else (0x0010000000000000 OR fraction, exponent - 1)) in
      if significand = 0 then Inr (big_zero, 0) else
      case big_multiply_shift significand multiplicity shift of
        None \<Rightarrow> Inl LAPLACE_GEOMETRY_ACCUMULATOR_OVERFLOW
      | Some magnitude \<Rightarrow> Inr (magnitude, sign))"

text \<open>The pattern of the magnitude of a mean: the two branches of the code.  \<open>None\<close> is the early
  return of 0.0.  The three results of the subnormal branch are the cases the code lists.\<close>

definition subnormal_bits :: "laplace_biguint \<Rightarrow> u64 \<Rightarrow> u64" where
  "subnormal_bits numerator n =
     (let significand = rounded_quotient numerator n 0 0 0x0010000000000000 in
      if significand = 0 then 0
      else if significand = 0x0010000000000000 then 0x0010000000000000
      else significand)"

definition normal_bits :: "laplace_biguint \<Rightarrow> u64 \<Rightarrow> u64 option" where
  "normal_bits numerator n =
     (let ratio_high_bit = big_high_bit numerator - uint64_high_bit n in
      case big_multiply_shift n 1 (word_of_int ratio_high_bit) of
        None \<Rightarrow> None
      | Some threshold \<Rightarrow>
          let ratio_high_bit =
                (if big_compare numerator threshold < 0 then ratio_high_bit - 1 else ratio_high_bit);
              shift = word_of_int (ratio_high_bit - 52);
              significand = rounded_quotient numerator n shift 0x0010000000000000 0x001fffffffffffff;
              (significand, ratio_high_bit) =
                (if significand = 0x0020000000000000 then (0x0010000000000000, ratio_high_bit + 1)
                 else (significand, ratio_high_bit));
              exponent_bits = (word_of_int (ratio_high_bit - 51) :: u64) in
          Some (push_bit 52 exponent_bits OR (significand - 0x0010000000000000)))"

definition exact_component_mean :: "laplace_exact_component \<Rightarrow> u64 \<Rightarrow> u64" where
  "exact_component_mean c n =
     (let numerator = xc_magnitude c in
      if xc_sign c = 0 then 0 else
      case big_multiply_shift n 1 52 of
        None \<Rightarrow> 0
      | Some minimum_normal \<Rightarrow>
          (case (if big_compare numerator minimum_normal < 0 then Some (subnormal_bits numerator n)
                 else normal_bits numerator n) of
             None \<Rightarrow> 0
           | Some result_bits \<Rightarrow>
               if xc_sign c <s 0 \<and> result_bits \<noteq> 0 then result_bits OR 0x8000000000000000
               else result_bits))"

section \<open>Accumulators\<close>

definition exact_component_zero :: laplace_exact_component where
  "exact_component_zero = \<lparr>xc_magnitude = big_zero, xc_sign = 0\<rparr>"

definition accumulator_zero :: laplace_geometry_accumulator where
  "accumulator_zero =
     \<lparr>ga_sum = replicate LAPLACE_GEOMETRY_COMPONENTS exact_component_zero, ga_logical_count = 0\<rparr>"

definition laplace_geometry_accumulator_init ::
  "laplace_geometry_accumulator option \<Rightarrow> laplace_geometry_accumulator option" where
  "laplace_geometry_accumulator_init accumulator = map_option (\<lambda>_. accumulator_zero) accumulator"

text \<open>The first loop of \<open>add\<close>: the terms, or the first failure.\<close>

fun point_terms ::
  "u64 list \<Rightarrow> laplace_exact_component list \<Rightarrow> u64
     \<Rightarrow> laplace_geometry_status + (laplace_biguint \<times> i32) list" where
  "point_terms (v # point) (c # sums) multiplicity =
     (case point_term v multiplicity of
        Inl status \<Rightarrow> Inl status
      | Inr t \<Rightarrow>
          if \<not> exact_component_valid c then Inl LAPLACE_GEOMETRY_INVALID_ARGUMENT
          else map_sum id ((#) t) (point_terms point sums multiplicity))"
| "point_terms _ _ multiplicity = Inr []"

fun add_terms ::
  "laplace_exact_component list \<Rightarrow> (laplace_biguint \<times> i32) list \<Rightarrow> laplace_exact_component list option" where
  "add_terms (c # sums) ((magnitude, sign) # terms) =
     (case exact_component_add c magnitude sign of
        None \<Rightarrow> None
      | Some c' \<Rightarrow> map_option ((#) c') (add_terms sums terms))"
| "add_terms sums _ = Some sums"

definition laplace_geometry_accumulator_add ::
  "laplace_geometry_accumulator option \<Rightarrow> laplace_point4d option \<Rightarrow> u64
     \<Rightarrow> laplace_geometry_status \<times> laplace_geometry_accumulator option" where
  "laplace_geometry_accumulator_add accumulator point multiplicity =
     (case (accumulator, point) of
        (Some a, Some p) \<Rightarrow>
          if multiplicity = 0 then (LAPLACE_GEOMETRY_ZERO_MULTIPLICITY, accumulator) else
          if UINT64_MAX - ga_logical_count a < multiplicity then (LAPLACE_GEOMETRY_COUNT_OVERFLOW, accumulator) else
          (case point_terms p (ga_sum a) multiplicity of
             Inl status \<Rightarrow> (status, accumulator)
           | Inr terms \<Rightarrow>
               (case add_terms (ga_sum a) terms of
                  None \<Rightarrow> (LAPLACE_GEOMETRY_ACCUMULATOR_OVERFLOW, accumulator)
                | Some sums \<Rightarrow>
                    (LAPLACE_GEOMETRY_OK,
                     Some (a\<lparr>ga_sum := sums, ga_logical_count := ga_logical_count a + multiplicity\<rparr>))))
      | _ \<Rightarrow> (LAPLACE_GEOMETRY_INVALID_ARGUMENT, accumulator))"

fun merge_components ::
  "laplace_exact_component list \<Rightarrow> laplace_exact_component list
     \<Rightarrow> laplace_geometry_status + laplace_exact_component list" where
  "merge_components (c # next_sum) (s # source) =
     (if \<not> exact_component_valid c \<or> \<not> exact_component_valid s
      then Inl LAPLACE_GEOMETRY_INVALID_ARGUMENT else
      case exact_component_add c (xc_magnitude s) (xc_sign s) of
        None \<Rightarrow> Inl LAPLACE_GEOMETRY_ACCUMULATOR_OVERFLOW
      | Some c' \<Rightarrow> map_sum id ((#) c') (merge_components next_sum source))"
| "merge_components next_sum _ = Inr next_sum"

definition laplace_geometry_accumulator_merge ::
  "laplace_geometry_accumulator option \<Rightarrow> laplace_geometry_accumulator option
     \<Rightarrow> laplace_geometry_status \<times> laplace_geometry_accumulator option" where
  "laplace_geometry_accumulator_merge accumulator source =
     (case (accumulator, source) of
        (Some a, Some s) \<Rightarrow>
          if UINT64_MAX - ga_logical_count a < ga_logical_count s
          then (LAPLACE_GEOMETRY_COUNT_OVERFLOW, accumulator) else
          (case merge_components (ga_sum a) (ga_sum s) of
             Inl status \<Rightarrow> (status, accumulator)
           | Inr sums \<Rightarrow>
               (LAPLACE_GEOMETRY_OK,
                Some (a\<lparr>ga_sum := sums, ga_logical_count := ga_logical_count a + ga_logical_count s\<rparr>)))
      | _ \<Rightarrow> (LAPLACE_GEOMETRY_INVALID_ARGUMENT, accumulator))"

fun component_means ::
  "laplace_exact_component list \<Rightarrow> u64 \<Rightarrow> laplace_geometry_status + laplace_point4d" where
  "component_means (c # sums) n =
     (if \<not> exact_component_valid c then Inl LAPLACE_GEOMETRY_INVALID_ARGUMENT
      else map_sum id ((#) (exact_component_mean c n)) (component_means sums n))"
| "component_means [] n = Inr []"

definition laplace_geometry_accumulator_finish ::
  "(laplace_point4d \<Rightarrow> u64) \<Rightarrow> laplace_geometry_accumulator option \<Rightarrow> laplace_geometry_summary option
     \<Rightarrow> laplace_geometry_status \<times> laplace_geometry_summary option" where
  "laplace_geometry_accumulator_finish radius accumulator summary =
     (case (accumulator, summary) of
        (Some a, Some _) \<Rightarrow>
          if ga_logical_count a = 0 then (LAPLACE_GEOMETRY_EMPTY, summary) else
          (case component_means (ga_sum a) (ga_logical_count a) of
             Inl status \<Rightarrow> (status, summary)
           | Inr centroid \<Rightarrow>
               (LAPLACE_GEOMETRY_OK,
                Some \<lparr>gs_centroid = centroid, gs_radius = radius centroid,
                      gs_logical_count = ga_logical_count a\<rparr>))
      | _ \<Rightarrow> (LAPLACE_GEOMETRY_INVALID_ARGUMENT, summary))"

section \<open>Values of components\<close>

definition cval :: "laplace_exact_component \<Rightarrow> int" where
  "cval c = sint (xc_sign c) * int (bigval (xc_magnitude c))"

definition component_ok :: "laplace_exact_component \<Rightarrow> bool" where
  "component_ok c \<longleftrightarrow> length (xc_magnitude c) = LIMBS \<and> exact_component_valid c"

lemma sign_cases:
  fixes s :: i32
  shows "\<not> (s <s - 1 \<or> 1 <s s) \<longleftrightarrow> s = 0 \<or> s = 1 \<or> s = - 1"
proof -
  have "sint s = 0 \<or> sint s = 1 \<or> sint s = - 1" if "\<not> (s <s - 1 \<or> 1 <s s)"
    using that by (auto simp: word_sless_alt)
  moreover have "sint s = 0 \<longleftrightarrow> s = 0" "sint s = 1 \<longleftrightarrow> s = 1" "sint s = - 1 \<longleftrightarrow> s = - 1"
    using word_eq_iff_signed [where 'a = int, of s 0] word_eq_iff_signed [where 'a = int, of s 1]
      word_eq_iff_signed [where 'a = int, of s "- 1"] by simp_all
  ultimately show ?thesis by (auto simp: word_sless_alt)
qed

lemma component_ok_iff:
  "component_ok c \<longleftrightarrow> length (xc_magnitude c) = LIMBS
     \<and> (xc_sign c = 0 \<and> bigval (xc_magnitude c) = 0
        \<or> (xc_sign c = 1 \<or> xc_sign c = - 1) \<and> 0 < bigval (xc_magnitude c))"
  using sign_cases [of "xc_sign c"]
  by (auto simp: component_ok_def exact_component_valid_def big_is_zero_value)

lemma component_ok_valid: "component_ok c \<Longrightarrow> exact_component_valid c"
  by (simp add: component_ok_def)

lemma component_eqI:
  assumes "component_ok c" "component_ok d" "cval c = cval d"
  shows "c = d"
proof -
  have "xc_sign c = xc_sign d \<and> bigval (xc_magnitude c) = bigval (xc_magnitude d)"
    using assms by (auto simp: component_ok_iff cval_def)
  moreover from this have "xc_magnitude c = xc_magnitude d"
    using assms by (simp add: component_ok_iff flip: bigval_inject)
  ultimately show ?thesis by simp
qed

lemma length_big_zero [simp]: "length big_zero = LIMBS" "bigval big_zero = 0"
  by (simp_all add: big_zero_def)

lemma exact_component_add_value:
  assumes "component_ok t" "length m = LIMBS" "s = 0 \<or> s = 1 \<or> s = - 1" "bigval m = 0 \<or> s \<noteq> 0"
  shows "case exact_component_add t m s of
      None \<Rightarrow> 2 ^ (32 * LIMBS) \<le> \<bar>cval t + sint s * int (bigval m)\<bar>
    | Some t' \<Rightarrow> component_ok t' \<and> cval t' = cval t + sint s * int (bigval m)"
proof -
  note t = assms(1) [unfolded component_ok_iff]
  consider "bigval m = 0" | "0 < bigval m" "xc_sign t = 0" | "0 < bigval m" "xc_sign t \<noteq> 0" "xc_sign t = s"
    | "0 < bigval m" "xc_sign t \<noteq> 0" "xc_sign t \<noteq> s" by blast
  then show ?thesis
  proof cases
    case 1
    then show ?thesis using assms(1) by (simp add: exact_component_add_def big_is_zero_value)
  next
    case 2
    then show ?thesis
      using t assms(2-) by (auto simp: exact_component_add_def big_is_zero_value component_ok_iff cval_def)
  next
    case 3
    obtain ok r where r: "big_add (xc_magnitude t) m = (ok, r)" by fastforce
    have len: "length (xc_magnitude t) = length m" using t assms(2) by simp
    note v = big_add_value [OF len r]
    have "\<bar>cval t + sint s * int (bigval m)\<bar> = int (bigval (xc_magnitude t) + bigval m)"
      using 3 t by (auto simp: cval_def)
    moreover have "int (2 ^ (32 * LIMBS)) \<le> int (bigval (xc_magnitude t) + bigval m)" if "\<not> ok"
      using v(2) that t unfolding of_nat_le_iff by simp
    ultimately show ?thesis
      using 3 t v assms(2) r
      by (cases ok) (auto simp: exact_component_add_def big_is_zero_value component_ok_iff cval_def Let_def algebra_simps)
  next
    case 4
    have len: "length (xc_magnitude t) = length m" using t assms(2) by simp
    note sub = big_subtract_value [OF len] big_subtract_value [OF len [symmetric]]
    have "xc_sign t = 1 \<and> s = - 1 \<or> xc_sign t = - 1 \<and> s = 1" using 4 t assms(3,4) by auto
    then show ?thesis
      using 4 t sub assms(2)
      by (auto simp: exact_component_add_def big_is_zero_value big_compare_value [OF len] component_ok_iff cval_def Let_def of_nat_diff)
  qed
qed

section \<open>Values of coordinates\<close>

text \<open>The value of a finite pattern in units of \<open>2 ^ - 1074\<close>; \<open>magnitude64\<close> reads the pattern without its
  sign bit as a number.\<close>

definition magnitude64 :: "nat \<Rightarrow> nat" where
  "magnitude64 p =
     (if p div 2 ^ 52 = 0 then p mod 2 ^ 52 else (2 ^ 52 + p mod 2 ^ 52) * 2 ^ (p div 2 ^ 52 - 1))"

definition finite64 :: "u64 \<Rightarrow> bool" where
  "finite64 b \<longleftrightarrow> unat b mod 2 ^ 63 < 0x7ff * 2 ^ 52"

definition scaled64 :: "u64 \<Rightarrow> int" where
  "scaled64 b = (if unat b < 2 ^ 63 then 1 else - 1) * int (magnitude64 (unat b mod 2 ^ 63))"

text \<open>The pattern of a number between -1 and 1.\<close>

definition in_range :: "u64 \<Rightarrow> bool" where
  "in_range b \<longleftrightarrow> unat b mod 2 ^ 63 \<le> 1023 * 2 ^ 52"


definition fraction64 :: "u64 \<Rightarrow> nat" where "fraction64 b = unat b mod 2 ^ 52"
definition exponent64 :: "u64 \<Rightarrow> nat" where "exponent64 b = unat b div 2 ^ 52 mod 2 ^ 11"

lemma fields64:
  "fraction64 b < 2 ^ 52" "exponent64 b < 2 ^ 11"
  "unat b mod 2 ^ 63 = exponent64 b * 2 ^ 52 + fraction64 b"
proof -
  show "fraction64 b < 2 ^ 52" "exponent64 b < 2 ^ 11" by (simp_all add: fraction64_def exponent64_def)
  have "unat b mod (2 ^ 52 * 2 ^ 11) = 2 ^ 52 * (unat b div 2 ^ 52 mod 2 ^ 11) + unat b mod 2 ^ 52"
    by (rule mod_mult2_eq)
  then show "unat b mod 2 ^ 63 = exponent64 b * 2 ^ 52 + fraction64 b"
    by (simp add: fraction64_def exponent64_def)
qed

lemma magnitude64_fields:
  "magnitude64 (unat b mod 2 ^ 63) =
     (if exponent64 b = 0 then fraction64 b else (2 ^ 52 + fraction64 b) * 2 ^ (exponent64 b - 1))"
  unfolding magnitude64_def fields64(3) using fields64(1) [of b] by simp

lemma in_range_fields: "in_range b \<longleftrightarrow> exponent64 b < 1023 \<or> (exponent64 b = 1023 \<and> fraction64 b = 0)"
  unfolding in_range_def fields64(3) using fields64(1) [of b] by (auto simp: not_less)

lemma unat_fraction: "unat (b AND 0x000fffffffffffff) = fraction64 b"
proof -
  have "b AND 0x000fffffffffffff = take_bit 52 b" by (simp add: take_bit_eq_mask mask_eq_exp_minus_1)
  then show ?thesis by (simp add: fraction64_def take_bit_eq_mod unat_mod)
qed

lemma unat_exponent: "unat (ucast (drop_bit 52 b AND 0x7ff) :: u32) = exponent64 b"
proof -
  have "drop_bit 52 b AND 0x7ff = take_bit 11 (drop_bit 52 b)" by (simp add: take_bit_eq_mask mask_eq_exp_minus_1)
  moreover have "unat (drop_bit 52 b) = unat b div 2 ^ 52"
    by (subst unat_drop_bit_eq) (rule drop_bit_eq_div)
  ultimately have "unat (drop_bit 52 b AND 0x7ff) = exponent64 b"
    by (simp add: exponent64_def take_bit_eq_mod unat_mod)
  then show ?thesis using fields64(2) [of b] by (simp add: unat_limb)
qed

lemma unat_significand: "unat (0x0010000000000000 OR (b AND 0x000fffffffffffff)) = 2 ^ 52 + fraction64 b"
proof -
  have "0x0010000000000000 OR (b AND 0x000fffffffffffff) = push_bit 52 1 OR (b AND 0x000fffffffffffff)" by simp
  also have "\<dots> = push_bit 52 1 + (b AND 0x000fffffffffffff)"
    using fields64(1) [of b] by (intro push_bit_or) (simp add: unat_fraction)
  finally show ?thesis
    using fields64(1) [of b] by (simp add: unat_word_ariths unat_fraction)
qed

lemma sign_bit: "drop_bit 63 b = 0 \<longleftrightarrow> unat b < 2 ^ 63"
proof -
  have "unat (drop_bit 63 b) = unat b div 2 ^ 63"
    by (subst unat_drop_bit_eq) (rule drop_bit_eq_div)
  then show ?thesis by (simp add: word_unat_eq_iff div_eq_0_iff)
qed

text \<open>A term is the multiple of the coordinate's value.\<close>

definition term_of :: "u64 \<Rightarrow> u64 \<Rightarrow> laplace_biguint \<times> i32 \<Rightarrow> bool" where
  "term_of b m t \<longleftrightarrow> length (fst t) = LIMBS \<and> (snd t = 0 \<or> snd t = 1 \<or> snd t = - 1)
     \<and> (bigval (fst t) = 0 \<or> snd t \<noteq> 0)
     \<and> sint (snd t) * int (bigval (fst t)) = int (unat m) * scaled64 b"

lemma significand_fits:
  assumes "x < 2 ^ 53" "y < 2 ^ 64" "k \<le> 1022"
  shows "x * y * 2 ^ k < (2::nat) ^ (32 * LIMBS)"
proof -
  have "x * y * 2 ^ k < 2 ^ 53 * 2 ^ 64 * 2 ^ 1022"
    using assms by (intro mult_less_le_imp_less mult_strict_mono power_increasing) auto
  also have "\<dots> \<le> 2 ^ (32 * LIMBS)" unfolding LAPLACE_GEOMETRY_ACCUMULATOR_LIMBS_def power_add [symmetric]
    by (rule power_increasing) auto
  finally show ?thesis .
qed

lemma point_term_value:
  "\<not> in_range b \<Longrightarrow> point_term b m = Inl LAPLACE_GEOMETRY_COORDINATE_OUT_OF_RANGE"
  "in_range b \<Longrightarrow> \<exists>t. point_term b m = Inr t \<and> term_of b m t"
proof -
  let ?e = "ucast (drop_bit 52 b AND 0x7ff) :: u32" and ?f = "b AND 0x000fffffffffffff"
  have e: "?e = 0x7ff \<longleftrightarrow> exponent64 b = 0x7ff" "1023 < ?e \<longleftrightarrow> 1023 < exponent64 b"
    "?e = 1023 \<longleftrightarrow> exponent64 b = 1023" "?e = 0 \<longleftrightarrow> exponent64 b = 0"
    and f: "?f = 0 \<longleftrightarrow> fraction64 b = 0"
    using unat_exponent [of b] unat_fraction [of b] by (simp_all add: word_unat_eq_iff word_less_nat_alt)
  show "\<not> in_range b \<Longrightarrow> point_term b m = Inl LAPLACE_GEOMETRY_COORDINATE_OUT_OF_RANGE"
    unfolding point_term_def Let_def e f in_range_fields by auto
  assume r: "in_range b"
  let ?sig = "if exponent64 b = 0 then ?f else 0x0010000000000000 OR ?f" and ?k = "if exponent64 b = 0 then 0 else ?e - 1"
  have sig: "unat ?sig * 2 ^ unat ?k = magnitude64 (unat b mod 2 ^ 63)" "unat ?sig < 2 ^ 53" "unat ?k \<le> 1022"
    "?sig = 0 \<longleftrightarrow> magnitude64 (unat b mod 2 ^ 63) = 0"
  proof -
    have k: "unat (?e - 1) = exponent64 b - 1" if "exponent64 b \<noteq> 0"
      using that unat_exponent [of b] by (subst unat_sub) (auto simp: word_le_nat_alt)
    show "unat ?sig * 2 ^ unat ?k = magnitude64 (unat b mod 2 ^ 63)" "unat ?sig < 2 ^ 53" "unat ?k \<le> 1022"
      unfolding magnitude64_fields
      using k r fields64(1) [of b] by (auto simp: unat_fraction unat_significand in_range_fields)
    show "?sig = 0 \<longleftrightarrow> magnitude64 (unat b mod 2 ^ 63) = 0"
      unfolding magnitude64_fields using f by (simp add: word_unat_eq_iff unat_significand unat_fraction)
  qed
  have "point_term b m = (if ?sig = 0 then Inr (big_zero, 0) else
      case big_multiply_shift ?sig m ?k of
        None \<Rightarrow> Inl LAPLACE_GEOMETRY_ACCUMULATOR_OVERFLOW
      | Some magnitude \<Rightarrow> Inr (magnitude, if unat b < 2 ^ 63 then 1 else - 1))"
    using r unfolding point_term_def Let_def e f sign_bit in_range_fields by (auto split: if_splits)
  moreover obtain mag where "big_multiply_shift ?sig m ?k = Some mag" "length mag = LIMBS"
    "bigval mag = unat m * magnitude64 (unat b mod 2 ^ 63)"
  proof -
    have "fits LIMBS (unat ?sig * unat m * 2 ^ unat ?k) (big_multiply_shift ?sig m ?k)"
      by (rule big_multiply_shift_value)
    moreover have "unat ?sig * unat m * 2 ^ unat ?k < 2 ^ (32 * LIMBS)"
      using sig(2,3) unsigned_less [of m, where 'a = nat] by (intro significand_fits) auto
    moreover have "unat ?sig * unat m * 2 ^ unat ?k = unat m * magnitude64 (unat b mod 2 ^ 63)"
      unfolding sig(1) [symmetric] by (simp only: mult_ac)
    ultimately show ?thesis using that by (cases "big_multiply_shift ?sig m ?k") auto
  qed
  ultimately show "\<exists>t. point_term b m = Inr t \<and> term_of b m t"
    using sig(4) by (simp add: term_of_def scaled64_def split: if_splits)
qed

section \<open>The invariant of an accumulator\<close>

text \<open>One, in units of \<open>2 ^ - 1074\<close>.\<close>

definition one64 :: int where "one64 = 2 ^ 1074"

lemma scaled64_bound:
  assumes "in_range b" shows "\<bar>scaled64 b\<bar> \<le> one64"
proof -
  have "magnitude64 (unat b mod 2 ^ 63) \<le> 2 ^ 1074"
  proof (cases "exponent64 b = 0 \<or> exponent64 b = 1023")
    case True
    have "fraction64 b \<le> 2 ^ 1074" using fields64(1) [of b] by (rule less_imp_le [OF less_le_trans]) simp
    then show ?thesis using True assms unfolding magnitude64_fields in_range_fields by auto
  next
    case False
    then have "(2 ^ 52 + fraction64 b) * 2 ^ (exponent64 b - 1) \<le> 2 ^ 53 * 2 ^ 1021"
      using fields64(1) [of b] assms unfolding in_range_fields by (intro mult_le_mono power_increasing) auto
    then show ?thesis using False unfolding magnitude64_fields power_add [symmetric] by simp
  qed
  then have "int (magnitude64 (unat b mod 2 ^ 63)) \<le> int (2 ^ 1074)" unfolding of_nat_le_iff .
  then show ?thesis unfolding scaled64_def one64_def by auto
qed

text \<open>Every component is in canonical form, and no sum is larger than the count: a sum of that many
  numbers between -1 and 1.\<close>

definition accumulator_ok :: "laplace_geometry_accumulator \<Rightarrow> bool" where
  "accumulator_ok a \<longleftrightarrow> length (ga_sum a) = LAPLACE_GEOMETRY_COMPONENTS
     \<and> (\<forall>c \<in> set (ga_sum a). component_ok c \<and> \<bar>cval c\<bar> \<le> int (unat (ga_logical_count a)) * one64)"

text \<open>Sums that satisfy the invariant are far below the capacity.\<close>

lemma sum_fits:
  assumes "n < 2 ^ 64" "\<bar>x\<bar> \<le> int n * one64"
  shows "\<bar>x\<bar> < 2 ^ (32 * LIMBS)"
proof -
  have "int n * one64 \<le> 2 ^ 64 * 2 ^ 1074"
    unfolding one64_def using assms(1) by (intro mult_right_mono) auto
  also have "\<dots> < (2::int) ^ (32 * LIMBS)" unfolding power_add [symmetric] LAPLACE_GEOMETRY_ACCUMULATOR_LIMBS_def
    by (rule power_strict_increasing) auto
  finally show ?thesis using assms(2) by simp
qed

lemma exact_component_add_OK:
  assumes "component_ok t" "length m = LIMBS" "s = 0 \<or> s = 1 \<or> s = - 1" "bigval m = 0 \<or> s \<noteq> 0"
    "\<bar>cval t + sint s * int (bigval m)\<bar> < 2 ^ (32 * LIMBS)"
  obtains t' where "exact_component_add t m s = Some t'" "component_ok t'" "cval t' = cval t + sint s * int (bigval m)"
  using exact_component_add_value [OF assms(1-4)] assms(5) by (cases "exact_component_add t m s") auto

lemma point_terms_value:
  "length p = length cs \<Longrightarrow> list_all component_ok cs \<Longrightarrow>
     (if list_all in_range p then \<exists>ts. point_terms p cs m = Inr ts \<and> list_all2 (\<lambda>v. term_of v m) p ts
      else point_terms p cs m = Inl LAPLACE_GEOMETRY_COORDINATE_OUT_OF_RANGE)"
proof (induction p cs rule: list_induct2)
  case (Cons v p c cs)
  show ?case
  proof (cases "in_range v")
    case True
    then obtain t where t: "point_term v m = Inr t" "term_of v m t" using point_term_value(2) by blast
    with Cons True component_ok_valid [of c] show ?thesis by (auto split: if_splits)
  qed (simp add: point_term_value(1))
qed simp

lemma add_terms_value:
  "length p = length cs \<Longrightarrow> list_all2 (\<lambda>v. term_of v m) p ts \<Longrightarrow> list_all component_ok cs \<Longrightarrow>
     list_all2 (\<lambda>c v. \<bar>cval c + int (unat m) * scaled64 v\<bar> < 2 ^ (32 * LIMBS)) cs p \<Longrightarrow>
     \<exists>cs'. add_terms cs ts = Some cs' \<and> list_all component_ok cs'
       \<and> map cval cs' = map2 (\<lambda>c v. cval c + int (unat m) * scaled64 v) cs p"
proof (induction p cs arbitrary: ts rule: list_induct2)
  case Nil
  then show ?case by simp
next
  case (Cons v p c cs)
  then obtain t ts' where ts: "ts = t # ts'" "term_of v m t" "list_all2 (\<lambda>v. term_of v m) p ts'"
    by (auto simp: list_all2_Cons1)
  obtain cs' where cs': "add_terms cs ts' = Some cs'" "list_all component_ok cs'"
    "map cval cs' = map2 (\<lambda>c v. cval c + int (unat m) * scaled64 v) cs p"
    using Cons.IH [OF ts(3)] Cons.prems by auto
  note t = ts(2) [unfolded term_of_def]
  obtain c' where "exact_component_add c (fst t) (snd t) = Some c'" "component_ok c'"
    "cval c' = cval c + int (unat m) * scaled64 v"
    using exact_component_add_OK [of c "fst t" "snd t"] t Cons.prems by auto
  with cs' show ?case by (cases t) (simp add: ts(1))
qed

lemma merge_components_value:
  "length ss = length cs \<Longrightarrow> list_all component_ok cs \<Longrightarrow> list_all component_ok ss \<Longrightarrow>
     list_all2 (\<lambda>c s. \<bar>cval c + cval s\<bar> < 2 ^ (32 * LIMBS)) cs ss \<Longrightarrow>
     \<exists>cs'. merge_components cs ss = Inr cs' \<and> list_all component_ok cs'
       \<and> map cval cs' = map2 (\<lambda>c s. cval c + cval s) cs ss"
proof (induction ss cs rule: list_induct2)
  case (Cons s ss c cs)
  then obtain cs' where cs': "merge_components cs ss = Inr cs'" "list_all component_ok cs'"
    "map cval cs' = map2 (\<lambda>c s. cval c + cval s) cs ss" by auto
  obtain c' where "exact_component_add c (xc_magnitude s) (xc_sign s) = Some c'" "component_ok c'"
    "cval c' = cval c + cval s"
  proof (rule exact_component_add_OK [of c "xc_magnitude s" "xc_sign s"])
    show "component_ok c" "\<bar>cval c + sint (xc_sign s) * int (bigval (xc_magnitude s))\<bar> < 2 ^ (32 * LIMBS)"
      using Cons.prems by (simp_all add: cval_def)
    have "component_ok s" using Cons.prems by simp
    then show "length (xc_magnitude s) = LIMBS" "xc_sign s = 0 \<or> xc_sign s = 1 \<or> xc_sign s = - 1"
      "bigval (xc_magnitude s) = 0 \<or> xc_sign s \<noteq> 0" by (auto simp: component_ok_iff)
  qed (simp add: cval_def)
  with cs' Cons.prems component_ok_valid show ?case by simp
qed simp

lemma count_room: "UINT64_MAX - (n :: u64) < m \<longleftrightarrow> 2 ^ 64 \<le> unat n + unat m"
  using unsigned_less [of n, where 'a = nat]
  by (auto simp: word_less_nat_alt unat_minus_one_minus)

lemma unat_count: "unat (n :: u64) + unat m < 2 ^ 64 \<Longrightarrow> unat (n + m) = unat n + unat m"
  by (simp add: unat_word_ariths)

lemma add_bound:
  assumes "\<bar>x\<bar> \<le> int n * one64" "\<bar>y\<bar> \<le> one64"
  shows "\<bar>x + int m * y\<bar> \<le> int (n + m) * one64"
proof -
  have "\<bar>int m * y\<bar> \<le> int m * one64" using assms(2) by (simp add: abs_mult mult_left_mono)
  with assms(1) show ?thesis by (simp add: distrib_right)
qed

lemma accumulator_okD:
  assumes "accumulator_ok a"
  shows "length (ga_sum a) = LAPLACE_GEOMETRY_COMPONENTS" "list_all component_ok (ga_sum a)"
    "\<And>i. i < LAPLACE_GEOMETRY_COMPONENTS \<Longrightarrow> \<bar>cval (ga_sum a ! i)\<bar> \<le> int (unat (ga_logical_count a)) * one64"
  using assms by (auto simp: accumulator_ok_def list_all_iff)

lemma accumulator_okI:
  assumes "list_all component_ok cs" "length cs = LAPLACE_GEOMETRY_COMPONENTS"
    "\<And>i. i < LAPLACE_GEOMETRY_COMPONENTS \<Longrightarrow> \<bar>cval (cs ! i)\<bar> \<le> int (unat n) * one64"
  shows "accumulator_ok (a\<lparr>ga_sum := cs, ga_logical_count := n\<rparr>)"
  using assms by (auto simp: accumulator_ok_def list_all_iff in_set_conv_nth)

lemma map_cval_nth:
  "map cval cs' = map2 f cs ps \<Longrightarrow> length cs = n \<Longrightarrow> length ps = n \<Longrightarrow>
     length cs' = n \<and> (\<forall>i < n. cval (cs' ! i) = f (cs ! i) (ps ! i))"
proof -
  assume eq: "map cval cs' = map2 f cs ps" and len: "length cs = n" "length ps = n"
  have "length cs' = n" using arg_cong [OF eq, of length] len by simp
  moreover have "cval (cs' ! i) = f (cs ! i) (ps ! i)" if "i < n" for i
    using arg_cong [OF eq, of "\<lambda>l. l ! i"] that len calculation by simp
  ultimately show ?thesis by blast
qed

lemma accumulator_add_value:
  assumes ok: "accumulator_ok a" and p: "length p = LAPLACE_GEOMETRY_COMPONENTS"
    and m: "m \<noteq> 0" "unat (ga_logical_count a) + unat m < 2 ^ 64" "list_all in_range p"
  obtains a' where "laplace_geometry_accumulator_add (Some a) (Some p) m = (LAPLACE_GEOMETRY_OK, Some a')"
    "accumulator_ok a'" "ga_logical_count a' = ga_logical_count a + m"
    "\<forall>i < LAPLACE_GEOMETRY_COMPONENTS. cval (ga_sum a' ! i) = cval (ga_sum a ! i) + int (unat m) * scaled64 (p ! i)"
proof -
  note a = accumulator_okD [OF ok]
  let ?n = "unat (ga_logical_count a) + unat m"
  have bound: "\<bar>cval (ga_sum a ! i) + int (unat m) * scaled64 (p ! i)\<bar> \<le> int ?n * one64"
    if "i < LAPLACE_GEOMETRY_COMPONENTS" for i
    using that m(3) p by (intro add_bound a(3) scaled64_bound) (auto simp: list_all_length)
  obtain ts where ts: "point_terms p (ga_sum a) m = Inr ts" "list_all2 (\<lambda>v. term_of v m) p ts"
    using point_terms_value [of p "ga_sum a" m] a p m(3) by auto
  obtain cs where cs: "add_terms (ga_sum a) ts = Some cs" "list_all component_ok cs"
    "map cval cs = map2 (\<lambda>c v. cval c + int (unat m) * scaled64 v) (ga_sum a) p"
    using add_terms_value [of p "ga_sum a" m ts] ts(2) a p bound sum_fits [OF m(2)]
    by (auto simp: list_all2_conv_all_nth)
  note v = map_cval_nth [OF cs(3) a(1) p]
  let ?a' = "a\<lparr>ga_sum := cs, ga_logical_count := ga_logical_count a + m\<rparr>"
  have "accumulator_ok ?a'"
    using accumulator_okI [of cs "ga_logical_count a + m"] v cs(2) bound by (simp add: unat_count [OF m(2)])
  moreover have "laplace_geometry_accumulator_add (Some a) (Some p) m = (LAPLACE_GEOMETRY_OK, Some ?a')"
    using m(1,2) ts(1) cs(1) by (simp add: laplace_geometry_accumulator_add_def count_room)
  ultimately show ?thesis using v by (intro that [of ?a']) auto
qed

lemma accumulator_merge_value:
  assumes ok: "accumulator_ok a" "accumulator_ok s"
    and m: "unat (ga_logical_count a) + unat (ga_logical_count s) < 2 ^ 64"
  obtains a' where "laplace_geometry_accumulator_merge (Some a) (Some s) = (LAPLACE_GEOMETRY_OK, Some a')"
    "accumulator_ok a'" "ga_logical_count a' = ga_logical_count a + ga_logical_count s"
    "\<forall>i < LAPLACE_GEOMETRY_COMPONENTS. cval (ga_sum a' ! i) = cval (ga_sum a ! i) + cval (ga_sum s ! i)"
proof -
  note a = accumulator_okD [OF ok(1)] and s = accumulator_okD [OF ok(2)]
  let ?n = "unat (ga_logical_count a) + unat (ga_logical_count s)"
  have bound: "\<bar>cval (ga_sum a ! i) + cval (ga_sum s ! i)\<bar> \<le> int ?n * one64"
    if "i < LAPLACE_GEOMETRY_COMPONENTS" for i
    using a(3) [OF that] s(3) [OF that] by (simp add: distrib_right)
  obtain cs where cs: "merge_components (ga_sum a) (ga_sum s) = Inr cs" "list_all component_ok cs"
    "map cval cs = map2 (\<lambda>c v. cval c + cval v) (ga_sum a) (ga_sum s)"
    using merge_components_value [of "ga_sum s" "ga_sum a"] a s bound sum_fits [OF m]
    by (auto simp: list_all2_conv_all_nth)
  note v = map_cval_nth [OF cs(3) a(1) s(1)]
  let ?a' = "a\<lparr>ga_sum := cs, ga_logical_count := ga_logical_count a + ga_logical_count s\<rparr>"
  have "accumulator_ok ?a'"
    using accumulator_okI [of cs "ga_logical_count a + ga_logical_count s"] v cs(2) bound
    by (simp add: unat_count [OF m])
  moreover have "laplace_geometry_accumulator_merge (Some a) (Some s) = (LAPLACE_GEOMETRY_OK, Some ?a')"
    using m cs(1) by (simp add: laplace_geometry_accumulator_merge_def count_room)
  ultimately show ?thesis using v by (intro that [of ?a']) auto
qed

lemma accumulator_zero_ok: "accumulator_ok accumulator_zero"
  by (simp add: accumulator_ok_def accumulator_zero_def exact_component_zero_def component_ok_iff cval_def)

lemma accumulator_eqI:
  assumes "accumulator_ok a" "accumulator_ok b" "ga_logical_count a = ga_logical_count b"
    "\<forall>i < LAPLACE_GEOMETRY_COMPONENTS. cval (ga_sum a ! i) = cval (ga_sum b ! i)"
  shows "a = b"
proof -
  have "ga_sum a = ga_sum b"
    using assms accumulator_okD(1,2) [OF assms(1)] accumulator_okD(1,2) [OF assms(2)]
    by (intro nth_equalityI) (auto simp: list_all_length intro!: component_eqI)
  with assms(3) show ?thesis by simp
qed

text \<open>C23: adding a point is exact and cannot overflow the sums.  On an accumulator that satisfies
  the invariant, \<open>add\<close> returns ZERO_MULTIPLICITY, COUNT_OVERFLOW or COORDINATE_OUT_OF_RANGE in this
  order of checks and changes nothing, exactly when the multiplicity is 0, the count leaves 64 bits
  or a coordinate is not a number between -1 and 1; otherwise it returns OK, every sum grows by
  exactly the multiple of the coordinate, the count by the multiplicity, and the invariant is kept.
  ACCUMULATOR_OVERFLOW is never returned.\<close>

theorem accumulator_add_exact:
  assumes "accumulator_ok a" "length p = LAPLACE_GEOMETRY_COMPONENTS"
  shows "case laplace_geometry_accumulator_add (Some a) (Some p) m of (status, a') \<Rightarrow>
     if m = 0 then status = LAPLACE_GEOMETRY_ZERO_MULTIPLICITY \<and> a' = Some a
     else if 2 ^ 64 \<le> unat (ga_logical_count a) + unat m
     then status = LAPLACE_GEOMETRY_COUNT_OVERFLOW \<and> a' = Some a
     else if \<not> list_all in_range p
     then status = LAPLACE_GEOMETRY_COORDINATE_OUT_OF_RANGE \<and> a' = Some a
     else status = LAPLACE_GEOMETRY_OK \<and> accumulator_ok (the a')
       \<and> unat (ga_logical_count (the a')) = unat (ga_logical_count a) + unat m
       \<and> (\<forall>i < LAPLACE_GEOMETRY_COMPONENTS.
            cval (ga_sum (the a') ! i) = cval (ga_sum a ! i) + int (unat m) * scaled64 (p ! i))"
proof (cases "m \<noteq> 0 \<and> unat (ga_logical_count a) + unat m < 2 ^ 64 \<and> list_all in_range p")
  case True
  with assms obtain a' where
    "laplace_geometry_accumulator_add (Some a) (Some p) m = (LAPLACE_GEOMETRY_OK, Some a')"
    "accumulator_ok a'" "ga_logical_count a' = ga_logical_count a + m"
    "\<forall>i < LAPLACE_GEOMETRY_COMPONENTS. cval (ga_sum a' ! i) = cval (ga_sum a ! i) + int (unat m) * scaled64 (p ! i)"
    using accumulator_add_value by blast
  with True unat_count show ?thesis by (simp add: not_le)
next
  case False
  have "\<not> list_all in_range p \<Longrightarrow> point_terms p (ga_sum a) m = Inl LAPLACE_GEOMETRY_COORDINATE_OUT_OF_RANGE"
    using point_terms_value [of p "ga_sum a" m] assms(2) accumulator_okD [OF assms(1)] by simp
  with False show ?thesis by (auto simp: laplace_geometry_accumulator_add_def count_room not_less)
qed

section \<open>Gathering points\<close>

text \<open>A computation of an accumulator: any nesting of adds and merges that starts from fresh
  accumulators.  \<open>gather_points\<close> is the multiset of points and multiplicities it was given.\<close>

datatype gather = Start | Add gather laplace_point4d u64 | Merge gather gather

primrec gather_run :: "gather \<Rightarrow> laplace_geometry_status \<times> laplace_geometry_accumulator option" where
  "gather_run Start =
     (LAPLACE_GEOMETRY_OK, laplace_geometry_accumulator_init (Some accumulator_zero))"
| "gather_run (Add g p m) =
     (case gather_run g of (status, a) \<Rightarrow>
        if status \<noteq> LAPLACE_GEOMETRY_OK then (status, a)
        else laplace_geometry_accumulator_add a (Some p) m)"
| "gather_run (Merge g h) =
     (case gather_run g of (status, a) \<Rightarrow>
        if status \<noteq> LAPLACE_GEOMETRY_OK then (status, a)
        else (case gather_run h of (status, b) \<Rightarrow>
          if status \<noteq> LAPLACE_GEOMETRY_OK then (status, a)
          else laplace_geometry_accumulator_merge a b))"

primrec gather_points :: "gather \<Rightarrow> (laplace_point4d \<times> u64) multiset" where
  "gather_points Start = {#}"
| "gather_points (Add g p m) = add_mset (p, m) (gather_points g)"
| "gather_points (Merge g h) = gather_points g + gather_points h"

definition point_ok :: "laplace_point4d \<times> u64 \<Rightarrow> bool" where
  "point_ok pm \<longleftrightarrow> length (fst pm) = LAPLACE_GEOMETRY_COMPONENTS \<and> list_all in_range (fst pm) \<and> snd pm \<noteq> 0"

definition total_count :: "(laplace_point4d \<times> u64) multiset \<Rightarrow> nat" where
  "total_count ps = (\<Sum>pm \<in># ps. unat (snd pm))"

definition total_sum :: "nat \<Rightarrow> (laplace_point4d \<times> u64) multiset \<Rightarrow> int" where
  "total_sum i ps = (\<Sum>pm \<in># ps. int (unat (snd pm)) * scaled64 (fst pm ! i))"

lemma gather_value:
  "(\<forall>pm \<in># gather_points g. point_ok pm) \<Longrightarrow> total_count (gather_points g) < 2 ^ 64 \<Longrightarrow>
     \<exists>a. gather_run g = (LAPLACE_GEOMETRY_OK, Some a) \<and> accumulator_ok a
       \<and> unat (ga_logical_count a) = total_count (gather_points g)
       \<and> (\<forall>i < LAPLACE_GEOMETRY_COMPONENTS. cval (ga_sum a ! i) = total_sum i (gather_points g))"
proof (induction g)
  case Start
  show ?case
    using accumulator_zero_ok
    by (auto simp: laplace_geometry_accumulator_init_def accumulator_zero_def exact_component_zero_def cval_def
        total_count_def total_sum_def)
next
  case (Add g p m)
  then obtain a where a: "gather_run g = (LAPLACE_GEOMETRY_OK, Some a)" "accumulator_ok a"
    "unat (ga_logical_count a) = total_count (gather_points g)"
    "\<forall>i < LAPLACE_GEOMETRY_COMPONENTS. cval (ga_sum a ! i) = total_sum i (gather_points g)"
    by (auto simp: total_count_def)
  have room: "unat (ga_logical_count a) + unat m < 2 ^ 64" and p: "point_ok (p, m)"
    using Add.prems a(3) by (simp_all add: total_count_def)
  obtain a' where "laplace_geometry_accumulator_add (Some a) (Some p) m = (LAPLACE_GEOMETRY_OK, Some a')"
    "accumulator_ok a'" "ga_logical_count a' = ga_logical_count a + m"
    "\<forall>i < LAPLACE_GEOMETRY_COMPONENTS. cval (ga_sum a' ! i) = cval (ga_sum a ! i) + int (unat m) * scaled64 (p ! i)"
    using accumulator_add_value [OF a(2) _ _ room] p by (auto simp: point_ok_def)
  with a unat_count [OF room] show ?case by (auto simp: total_count_def total_sum_def)
next
  case (Merge g h)
  from Merge.IH(1) Merge.prems obtain a where a: "gather_run g = (LAPLACE_GEOMETRY_OK, Some a)" "accumulator_ok a"
    "unat (ga_logical_count a) = total_count (gather_points g)"
    "\<forall>i < LAPLACE_GEOMETRY_COMPONENTS. cval (ga_sum a ! i) = total_sum i (gather_points g)"
    by (auto simp: total_count_def)
  from Merge.IH(2) Merge.prems obtain b where b: "gather_run h = (LAPLACE_GEOMETRY_OK, Some b)" "accumulator_ok b"
    "unat (ga_logical_count b) = total_count (gather_points h)"
    "\<forall>i < LAPLACE_GEOMETRY_COMPONENTS. cval (ga_sum b ! i) = total_sum i (gather_points h)"
    by (auto simp: total_count_def)
  have room: "unat (ga_logical_count a) + unat (ga_logical_count b) < 2 ^ 64"
    using Merge.prems a(3) b(3) by (simp add: total_count_def)
  obtain a' where "laplace_geometry_accumulator_merge (Some a) (Some b) = (LAPLACE_GEOMETRY_OK, Some a')"
    "accumulator_ok a'" "ga_logical_count a' = ga_logical_count a + ga_logical_count b"
    "\<forall>i < LAPLACE_GEOMETRY_COMPONENTS. cval (ga_sum a' ! i) = cval (ga_sum a ! i) + cval (ga_sum b ! i)"
    using accumulator_merge_value [OF a(2) b(2) room] .
  with a b unat_count [OF room] show ?case by (auto simp: total_count_def total_sum_def)
qed

text \<open>C5: an accumulator depends on the points only, not on how they were gathered.  Two
  computations that add the same points with the same multiplicities, in any order and cut in any
  way into partial accumulators that are merged in any order, return OK and the same accumulator,
  bit by bit, as long as the coordinates are between -1 and 1 and the total count fits 64 bits;
  the accumulator holds the exact sums.\<close>

theorem accumulation_order_independent:
  assumes "gather_points g = gather_points h" "\<forall>pm \<in># gather_points g. point_ok pm"
    "total_count (gather_points g) < 2 ^ 64"
  shows "gather_run g = gather_run h
    \<and> (\<exists>a. gather_run g = (LAPLACE_GEOMETRY_OK, Some a)
        \<and> unat (ga_logical_count a) = total_count (gather_points g)
        \<and> (\<forall>i < LAPLACE_GEOMETRY_COMPONENTS. cval (ga_sum a ! i) = total_sum i (gather_points g)))"
proof -
  obtain a where a: "gather_run g = (LAPLACE_GEOMETRY_OK, Some a)" "accumulator_ok a"
    "unat (ga_logical_count a) = total_count (gather_points g)"
    "\<forall>i < LAPLACE_GEOMETRY_COMPONENTS. cval (ga_sum a ! i) = total_sum i (gather_points g)"
    using gather_value assms(2,3) by blast
  obtain b where b: "gather_run h = (LAPLACE_GEOMETRY_OK, Some b)" "accumulator_ok b"
    "unat (ga_logical_count b) = total_count (gather_points h)"
    "\<forall>i < LAPLACE_GEOMETRY_COMPONENTS. cval (ga_sum b ! i) = total_sum i (gather_points h)"
    using gather_value [of h] assms by auto
  have "a = b"
    using a b assms(1) by (intro accumulator_eqI) (simp_all add: word_unat_eq_iff)
  with a b(1) show ?thesis by simp
qed

text \<open>The point (1, 1/2, 0, -1/4).\<close>

definition sample_point :: laplace_point4d where
  "sample_point = [0x3ff0000000000000, 0x3fe0000000000000, 0, 0xbfd0000000000000]"

lemma sample_point_ok: "point_ok (sample_point, 3)"
  by (simp add: point_ok_def sample_point_def LAPLACE_GEOMETRY_COMPONENTS_def in_range_def)

lemma sample_point_1: "scaled64 (sample_point ! 0) = one64"
  by (simp add: sample_point_def scaled64_def magnitude64_def one64_def)

theorem accumulator_add_exact_witness:
  "\<exists>a. laplace_geometry_accumulator_add (Some accumulator_zero) (Some sample_point) 3 = (LAPLACE_GEOMETRY_OK, Some a)
     \<and> unat (ga_logical_count a) = 3 \<and> cval (ga_sum a ! 0) = 3 * one64"
proof -
  have "length sample_point = LAPLACE_GEOMETRY_COMPONENTS" "list_all in_range sample_point"
    using sample_point_ok by (auto simp: point_ok_def)
  moreover have "0 < LAPLACE_GEOMETRY_COMPONENTS" by (simp add: LAPLACE_GEOMETRY_COMPONENTS_def)
  moreover have "cval (ga_sum accumulator_zero ! 0) = 0" "ga_logical_count accumulator_zero = 0"
    by (simp_all add: accumulator_zero_def exact_component_zero_def cval_def LAPLACE_GEOMETRY_COMPONENTS_def)
  moreover obtain status a' where
    "laplace_geometry_accumulator_add (Some accumulator_zero) (Some sample_point) 3 = (status, a')" by fastforce
  moreover from this have "status = LAPLACE_GEOMETRY_OK \<Longrightarrow> \<exists>a. a' = Some a"
    by (auto simp: laplace_geometry_accumulator_add_def split: if_splits sum.splits option.splits)
  ultimately show ?thesis
    using accumulator_add_exact [OF accumulator_zero_ok, of sample_point 3]
    by (auto simp: sample_point_1)
qed

theorem accumulation_order_independent_witness:
  "gather_run (Add (Add Start sample_point 3) sample_point 4)
     = gather_run (Merge (Add Start sample_point 4) (Add Start sample_point 3))"
proof -
  have "point_ok (sample_point, 4)" using sample_point_ok by (simp add: point_ok_def)
  then show ?thesis
    using accumulation_order_independent [of "Add (Add Start sample_point 3) sample_point 4"
        "Merge (Add Start sample_point 4) (Add Start sample_point 3)"] sample_point_ok
    by (simp add: total_count_def add_mset_commute)
qed

end
