(* ===== verification/Geometry_Mean.thy ===== *)
theory Geometry_Mean
  imports Geometry
begin

text \<open>
  The rounding of \<open>exact_component_mean\<close> and \<open>laplace_geometry_accumulator_finish\<close>
  (\<open>engine/src/geometry.c\<close>): the pattern that the code puts together from a high bit, a bisected
  quotient and a tie rule is the binary64 number nearest to the quotient of the exact sum by the
  count.
\<close>

section \<open>The mean\<close>

text \<open>Round to nearest, ties to even, as IEEE 754 states it, for the quotient of a sum by a count:
  no finite pattern is closer, and where another one is as close the result has an even
  significand.\<close>

definition nearest64 :: "u64 \<Rightarrow> int \<Rightarrow> nat \<Rightarrow> bool" where
  "nearest64 r x n \<longleftrightarrow> finite64 r
     \<and> (\<forall>b. finite64 b \<longrightarrow> \<bar>int n * scaled64 r - x\<bar> \<le> \<bar>int n * scaled64 b - x\<bar>)
     \<and> ((\<exists>b. finite64 b \<and> scaled64 b \<noteq> scaled64 r
            \<and> \<bar>int n * scaled64 b - x\<bar> = \<bar>int n * scaled64 r - x\<bar>) \<longrightarrow> even (unat r))"

lemma magnitude64_form:
  assumes "g \<le> 2 ^ 53" "s = 0 \<or> 2 ^ 52 \<le> g"
  shows "magnitude64 (s * 2 ^ 52 + g) = g * 2 ^ s"
proof -
  have at: "magnitude64 (e * 2 ^ 52 + f) = (if e = 0 then f else (2 ^ 52 + f) * 2 ^ (e - 1))" if "f < 2 ^ 52" for e f
    using that by (simp add: magnitude64_def)
  consider "g < 2 ^ 52" | "2 ^ 52 \<le> g" "g < 2 ^ 53" | "g = 2 ^ 53"
    using assms(1) by linarith
  then show ?thesis
  proof cases
    case 1
    then show ?thesis using assms(2) at [of g 0] by simp
  next
    case 2
    then have "s * 2 ^ 52 + g = Suc s * 2 ^ 52 + (g - 2 ^ 52)" by simp
    then show ?thesis using 2 at [of "g - 2 ^ 52" "Suc s"] by (simp only:) simp
  next
    case 3
    then have "s * 2 ^ 52 + g = Suc (Suc s) * 2 ^ 52 + 0" by simp
    then show ?thesis using 3 at [of 0 "Suc (Suc s)"] by (simp only:) simp
  qed
qed

lemma magnitude64_strict_mono: "strict_mono magnitude64"
unfolding strict_mono_Suc_iff
proof
  fix p :: nat
  define s where "s = p div 2 ^ 52 - 1"
  show "magnitude64 p < magnitude64 (Suc p)"
  proof (cases "p div 2 ^ 52 = 0")
    case True
    then have "p < 2 ^ 52" by (simp add: div_eq_0_iff)
    then show ?thesis using magnitude64_form [of p 0] magnitude64_form [of "Suc p" 0] by simp
  next
    case False
    define g where "g = 2 ^ 52 + p mod 2 ^ 52"
    have "p = s * 2 ^ 52 + g" "2 ^ 52 \<le> g" "Suc g \<le> 2 ^ 53"
      using False div_mult_mod_eq [of p "2 ^ 52"] by (auto simp: s_def g_def diff_mult_distrib Suc_le_eq)
    then show ?thesis using magnitude64_form [of g s] magnitude64_form [of "Suc g" s] by simp
  qed
qed

lemma nearest_core:
  fixes x :: int
  assumes "a = x + r" "0 \<le> r" "r < d" "up = (d < 2 * r \<or> (2 * r = d \<and> odd q))" "v \<le> x \<or> x + d \<le> v"
  shows "\<bar>(if up then x + d else x) - a\<bar> \<le> \<bar>v - a\<bar>"
    "\<bar>v - a\<bar> = \<bar>(if up then x + d else x) - a\<bar> \<Longrightarrow> v \<noteq> (if up then x + d else x) \<Longrightarrow>
       even (if up then q + 1 else q :: nat)"
  using assms by (auto split: if_splits)

text \<open>Rounding the quotient by a power of two times the count gives the nearest pattern.\<close>

lemma rounded_nearest:
  fixes s g A n :: nat
  defines "d \<equiv> n * 2 ^ s"
  assumes n: "0 < n" and g: "A < d * 2 ^ 53" "s = 0 \<or> d * 2 ^ 52 \<le> A" and s: "s \<le> 1022"
    and r: "unat r mod 2 ^ 63 = s * 2 ^ 52 + round_half_even A d"
    and sign: "\<sigma> = 1 \<or> \<sigma> = - 1" "scaled64 r = \<sigma> * int (magnitude64 (unat r mod 2 ^ 63))"
  shows "nearest64 r (\<sigma> * int A) n"
proof -
  define q where "q = A div d"
  have d: "0 < d" using n by (simp add: d_def)
  have q: "q < 2 ^ 53" "s = 0 \<or> 2 ^ 52 \<le> q"
    using g d by (auto simp: q_def less_mult_imp_div_less mult.commute less_eq_div_iff_mult_less_eq)
  let ?p = "s * 2 ^ 52 + q" and ?x = "int (d * q)"
  let ?up = "d < 2 * (A mod d) \<or> (2 * (A mod d) = d \<and> odd q)"
  have low: "n * magnitude64 ?p = d * q" and high: "n * magnitude64 (Suc ?p) = d * q + d"
    using magnitude64_form [of q s] magnitude64_form [of "Suc q" s] q by (auto simp: d_def distrib_left)
  have round: "round_half_even A d = (if ?up then q + 1 else q)"
    by (simp add: round_half_even_def q_def)
  have mag: "int n * int (magnitude64 (unat r mod 2 ^ 63)) = (if ?up then ?x + int d else ?x)"
    using low high unfolding r round by (auto simp flip: of_nat_mult of_nat_add)
  have other: "v \<le> ?x \<or> ?x + int d \<le> v" if "v = int n * (\<sigma> * scaled64 b)" for v b
  proof (cases "\<sigma> * scaled64 b \<le> 0")
    case True
    then have "v \<le> 0" using that by (simp add: mult_nonneg_nonpos)
    then show ?thesis by (meson of_nat_0_le_iff order_trans)
  next
    case False
    let ?b = "unat b mod 2 ^ 63"
    have "\<sigma> * scaled64 b = int (magnitude64 ?b)" using False sign(1) by (auto simp: scaled64_def split: if_splits)
    then have v: "v = int (n * magnitude64 ?b)" using that by simp
    have "magnitude64 ?b \<le> magnitude64 ?p \<or> magnitude64 (Suc ?p) \<le> magnitude64 ?b"
      using magnitude64_strict_mono by (metis Suc_leI leI strict_mono_less_eq)
    then have "n * magnitude64 ?b \<le> d * q \<or> d * q + d \<le> n * magnitude64 ?b"
      unfolding low [symmetric] high [unfolded low, symmetric] using mult_le_mono2 by (metis low high)
    then show ?thesis unfolding v by linarith
  qed
  have A: "int A = ?x + int (A mod d)"
    by (simp add: q_def flip: of_nat_add of_nat_mult)
  have R: "int (A mod d) < int d" using d by simp
  have up: "?up = (int d < 2 * int (A mod d) \<or> (2 * int (A mod d) = int d \<and> odd q))" by linarith
  note core = nearest_core [OF A _ R up]
  have flip: "\<bar>int n * y - \<sigma> * int A\<bar> = \<bar>int n * (\<sigma> * y) - int A\<bar>" for y
    using sign(1) by (auto simp: abs_minus_commute)
  have r': "int n * (\<sigma> * scaled64 r) = (if ?up then ?x + int d else ?x)"
    using sign mag by auto
  show ?thesis
  proof -
    have "unat r mod 2 ^ 63 < 0x7ff * 2 ^ 52"
      using s q(1) unfolding r round by auto
    moreover have "even (unat r) \<longleftrightarrow> even (unat r mod 2 ^ 63)" by (simp add: even_mod_2_iff dvd_mod_iff)
    then have "even (unat r) \<longleftrightarrow> even (if ?up then q + 1 else q)" unfolding r round by simp
    moreover have "\<bar>int n * (\<sigma> * scaled64 r) - int A\<bar> \<le> \<bar>int n * (\<sigma> * scaled64 b) - int A\<bar>" for b
      unfolding r' by (rule core(1) [OF _ other [OF refl]]) simp
    moreover have "even (if ?up then q + 1 else q)"
      if "scaled64 b \<noteq> scaled64 r" "\<bar>int n * (\<sigma> * scaled64 b) - int A\<bar> = \<bar>int n * (\<sigma> * scaled64 r) - int A\<bar>" for b
    proof (rule core(2) [OF _ other [OF refl]])
      show "\<bar>int n * (\<sigma> * scaled64 b) - int A\<bar> = \<bar>(if ?up then ?x + int d else ?x) - int A\<bar>"
        using that(2) unfolding r' .
      show "int n * (\<sigma> * scaled64 b) \<noteq> (if ?up then ?x + int d else ?x)"
        unfolding r' [symmetric] using that(1) n sign(1) by auto
    qed simp
    ultimately show ?thesis unfolding nearest64_def finite64_def flip by blast
  qed
qed

lemma unat_word_of_int: "k < 2 ^ 32 \<Longrightarrow> unat (word_of_int (int k) :: u32) = k" "k < 2 ^ 32 \<Longrightarrow> unat (word_of_int (int k) :: u64) = k"
  by (simp_all add: unat_of_nat take_bit_nat_eq_self_iff)

lemma round_half_even_bounds: "n div d \<le> round_half_even n d" "round_half_even n d \<le> n div d + 1"
  by (simp_all add: round_half_even_def)

text \<open>The pattern of a normal result: the implicit bit of the significand is taken away and the
  exponent field put in its place.\<close>

lemma assemble_normal:
  assumes "2 ^ 52 \<le> unat g" "unat g < 2 ^ 53" "e < 2 ^ 11" "0 < e"
  shows "unat (push_bit 52 (word_of_int (int e)) OR (g - 0x0010000000000000) :: u64) = (e - 1) * 2 ^ 52 + unat g"
proof -
  have low: "unat (g - 0x0010000000000000) = unat g - 2 ^ 52"
    using assms(1) by (subst unat_sub) (auto simp: word_le_nat_alt)
  have "unat (push_bit 52 (word_of_int (int e)) OR (g - 0x0010000000000000) :: u64)
      = unat (push_bit 52 (word_of_int (int e) :: u64) + (g - 0x0010000000000000))"
    using assms(2) by (subst push_bit_or) (auto simp: low)
  also have "\<dots> = e * 2 ^ 52 + (unat g - 2 ^ 52)"
    using assms unat_word_of_int(2) [of e]
    by (simp add: unat_word_ariths low push_bit_eq_mult mod_simps)
  finally show ?thesis using assms(1,4) by (cases e) simp_all
qed

text \<open>The magnitude of the sum, its count, and the scale of the quotient.\<close>

definition scale_of :: "nat \<Rightarrow> nat \<Rightarrow> nat \<Rightarrow> bool" where
  "scale_of A n s \<longleftrightarrow> A < n * 2 ^ s * 2 ^ 53 \<and> (s = 0 \<or> n * 2 ^ s * 2 ^ 52 \<le> A) \<and> s \<le> 1022"

lemma twice_fits:
  fixes A n d :: nat
  assumes "A \<le> n * 2 ^ 1074" "n < 2 ^ 64" "d \<le> n * 2 ^ 1074"
  shows "2 * A + d < 2 ^ (32 * LIMBS)"
proof -
  have "2 * A + d \<le> 2 ^ 2 * n * 2 ^ 1074" using assms by simp
  also have "\<dots> < 2 ^ 2 * 2 ^ 64 * 2 ^ 1074" using assms(2) by (intro mult_strict_right_mono) auto
  also have "\<dots> \<le> 2 ^ (32 * LIMBS)" unfolding LAPLACE_GEOMETRY_ACCUMULATOR_LIMBS_def power_add [symmetric]
    by (rule power_increasing) auto
  finally show ?thesis .
qed

lemma subnormal_branch:
  assumes num: "length num = LIMBS" "bigval num \<le> unat cnt * 2 ^ 1074" "0 < unat cnt" "bigval num < unat cnt * 2 ^ 52"
  shows "scale_of (bigval num) (unat cnt) 0"
    "unat (rounded_quotient num cnt 0 0 0x0010000000000000) = round_half_even (bigval num) (unat cnt * 2 ^ 0)"
proof -
  have n: "unat cnt < 2 ^ 64" using unsigned_less [of cnt, where 'a = nat] by simp
  have d: "unat cnt * 2 ^ unat (0 :: u32) \<le> unat cnt * 2 ^ 1074" by (intro mult_le_mono2) simp
  show "scale_of (bigval num) (unat cnt) 0" using num(4) by (simp add: scale_of_def)
  show "unat (rounded_quotient num cnt 0 0 0x0010000000000000) = round_half_even (bigval num) (unat cnt * 2 ^ 0)"
    using rounded_quotient_value(1) [OF num(1) _ refl, where divisor = cnt and shift = 0 and lower = 0 and upper = "0x0010000000000000"]
      num(4) twice_fits [OF num(2) n d] by simp
qed

lemma ratio_high_bit:
  assumes num: "length num = LIMBS" "bigval num \<le> unat cnt * 2 ^ 1074" "0 < unat cnt" "unat cnt * 2 ^ 52 \<le> bigval num"
  obtains k threshold where "big_high_bit num - uint64_high_bit cnt = int k"
    "big_multiply_shift cnt 1 (word_of_int (int k)) = Some threshold" "length threshold = LIMBS"
    "bigval threshold = unat cnt * 2 ^ k" "52 \<le> k" "k \<le> 1138"
    "bigval num < unat cnt * 2 ^ (k + 1)" "unat cnt * 2 ^ k \<le> 2 * bigval num"
proof -
  let ?A = "bigval num" and ?n = "unat cnt"
  have "0 < ?A" using num(3,4) by (metis less_le_trans nat_0_less_mult_iff zero_less_numeral zero_less_power)
  then obtain ha where ha: "big_high_bit num = int ha" "2 ^ ha \<le> ?A" "?A < 2 ^ Suc ha" by (rule big_high_bit_value)
  obtain hn where hn: "uint64_high_bit cnt = int hn" "2 ^ hn \<le> ?n" "?n < 2 ^ Suc hn"
    using num(3) by (rule uint64_high_bit_value)
  have pow: "(2::nat) ^ i < 2 ^ j \<Longrightarrow> i < j" for i j by simp
  have "(2::nat) ^ (hn + 52) \<le> ?n * 2 ^ 52" using hn(2) by (simp add: power_add)
  also have "\<dots> < 2 ^ Suc ha" using num(4) ha(3) by simp
  finally have "hn + 52 < Suc ha" by (rule pow)
  then have k52: "hn + 52 \<le> ha" by simp
  define k where "k = ha - hn"
  have ka: "ha = hn + k" using k52 by (simp add: k_def)
  have upper: "?A < ?n * 2 ^ (k + 1)"
  proof -
    have "?A < 2 ^ hn * 2 ^ (k + 1)" using ha(3) unfolding ka by (simp add: power_add mult_ac)
    also have "\<dots> \<le> ?n * 2 ^ (k + 1)" using hn(2) by (rule mult_le_mono1)
    finally show ?thesis .
  qed
  have lower: "?n * 2 ^ k \<le> 2 * ?A"
  proof -
    have "?n * 2 ^ k \<le> 2 ^ Suc hn * 2 ^ k" using hn(3) by (intro mult_le_mono1) simp
    also have "\<dots> = 2 * 2 ^ ha" unfolding ka by (simp add: power_add)
    finally show ?thesis using ha(2) by simp
  qed
  have n: "?n < 2 ^ 64" using unsigned_less [of cnt, where 'a = nat] by simp
  have "(2::nat) ^ ha \<le> ?n * 2 ^ 1074" using ha(2) num(2) by (rule le_trans)
  also have "\<dots> < 2 ^ 64 * 2 ^ 1074" using n by (rule mult_strict_right_mono) simp
  also have "\<dots> = 2 ^ (64 + 1074)" by (rule power_add [symmetric])
  finally have k: "k \<le> 1138" using pow [of ha "64 + 1074"] ka by simp
  have "2 * ?A + 0 < 2 ^ (32 * LIMBS)" by (rule twice_fits [OF num(2) n]) simp
  then have fit: "?n * 2 ^ k < 2 ^ (32 * LIMBS)" using lower by linarith
  have "unat (word_of_int (int k) :: u32) = k" using k by (intro unat_word_of_int(1)) simp
  then obtain threshold where "big_multiply_shift cnt 1 (word_of_int (int k)) = Some threshold" "length threshold = LIMBS"
    "bigval threshold = ?n * 2 ^ k"
    using big_multiply_shift_value [of cnt 1 "word_of_int (int k)"] fit
    by (cases "big_multiply_shift cnt 1 (word_of_int (int k))") auto
  moreover have "big_high_bit num - uint64_high_bit cnt = int k" using ha(1) hn(1) ka by simp
  ultimately show ?thesis using that k52 ka k upper lower by simp
qed

lemma normal_branch:
  assumes num: "length num = LIMBS" "bigval num \<le> unat cnt * 2 ^ 1074" "0 < unat cnt" "unat cnt * 2 ^ 52 \<le> bigval num"
  obtains s bits where "scale_of (bigval num) (unat cnt) s" "normal_bits num cnt = Some bits"
    "unat bits = s * 2 ^ 52 + round_half_even (bigval num) (unat cnt * 2 ^ s)"
proof -
  let ?A = "bigval num" and ?n = "unat cnt"
  obtain k threshold where k: "big_high_bit num - uint64_high_bit cnt = int k"
    "big_multiply_shift cnt 1 (word_of_int (int k)) = Some threshold" "length threshold = LIMBS"
    "bigval threshold = ?n * 2 ^ k" "52 \<le> k" "k \<le> 1138" "?A < ?n * 2 ^ (k + 1)" "?n * 2 ^ k \<le> 2 * ?A"
    by (rule ratio_high_bit [OF num])
  define k' where "k' = (if ?A < ?n * 2 ^ k then k - 1 else k)"
  have k': "?n * 2 ^ k' \<le> ?A" "?A < ?n * 2 ^ (k' + 1)"
    using k(5,7,8) by (cases k; auto simp: k'_def)+
  have "?n * 2 ^ 52 < ?n * 2 ^ (k' + 1)" using num(4) k'(2) by (rule le_less_trans)
  then have "(2::nat) ^ 52 < 2 ^ (k' + 1)" using num(3) by (simp only: nat_mult_less_cancel1)
  then have "52 < k' + 1" using power_strict_increasing_iff [of "2::nat" 52 "k' + 1"] by simp
  then obtain s where s: "k' = s + 52" by (metis add.commute le_Suc_ex less_Suc_eq_le Suc_eq_plus1)
  have "?n * 2 ^ k' \<le> ?n * 2 ^ 1074" using k'(1) num(2) by (rule le_trans)
  then have "(2::nat) ^ k' \<le> 2 ^ 1074" using num(3) by (simp only: nat_mult_le_cancel1)
  then have s1022: "s \<le> 1022" using power_increasing_iff [of "2::nat" k' 1074] s by simp
  define d where "d = ?n * 2 ^ s"
  have d: "d * 2 ^ 52 \<le> ?A" "?A < d * 2 ^ 53"
    using k' unfolding s d_def by (simp_all add: power_add mult_ac)
  have scale: "scale_of ?A ?n s" using d s1022 by (simp add: scale_of_def d_def)
  define w :: u32 where "w = word_of_int (int k' - 52)"
  have shift: "unat w = s"
    using unat_word_of_int(1) [of s] s1022 s by (simp add: w_def)
  have n: "?n < 2 ^ 64" using unsigned_less [of cnt, where 'a = nat] by simp
  have "d \<le> ?n * 2 ^ 1074" unfolding d_def using s1022 by (intro mult_le_mono2 power_increasing) auto
  note fit = twice_fits [OF num(2) n this]
  let ?g = "rounded_quotient num cnt w 0x0010000000000000 0x001fffffffffffff"
  have g: "unat ?g = round_half_even ?A d" "unat ?g \<le> 2 ^ 53"
    using rounded_quotient_value [OF num(1), where divisor = cnt and shift = w
        and lower = "0x0010000000000000" and upper = "0x001fffffffffffff" and d = d] d fit
    by (simp_all add: shift d_def)
  have "2 ^ 52 \<le> ?A div d"
    using d num(3) by (simp add: less_eq_div_iff_mult_less_eq d_def mult.commute)
  then have g52: "2 ^ 52 \<le> unat ?g" using round_half_even_bounds(1) [of ?A d] unfolding g(1) by simp
  have cmp: "big_compare num threshold < 0 \<longleftrightarrow> ?A < ?n * 2 ^ k"
    using k(3,4) num(1) by (simp add: big_compare_value)
  have kk: "(if ?A < ?n * 2 ^ k then int k - 1 else int k) = int k'"
    using k(5) by (simp add: k'_def of_nat_diff)
  have "normal_bits num cnt = Some (if ?g = 0x0020000000000000
      then push_bit 52 (word_of_int (int k' + 1 - 51)) OR (0x0010000000000000 - 0x0010000000000000)
      else push_bit 52 (word_of_int (int k' - 51)) OR (?g - 0x0010000000000000))"
    unfolding normal_bits_def k(1) Let_def k(2) option.case cmp kk w_def [symmetric] by simp
  moreover have "unat (if ?g = 0x0020000000000000
      then push_bit 52 (word_of_int (int k' + 1 - 51)) OR (0x0010000000000000 - 0x0010000000000000)
      else push_bit 52 (word_of_int (int k' - 51)) OR (?g - 0x0010000000000000) :: u64) = s * 2 ^ 52 + unat ?g"
  proof (cases "?g = 0x0020000000000000")
    case True
    have "int k' + 1 - 51 = int (s + 2)" by (simp add: s)
    then show ?thesis
      using True assemble_normal [of "0x0010000000000000" "s + 2"] s1022 by simp
  next
    case False
    then have "unat ?g \<noteq> 2 ^ 53" by (simp add: word_unat_eq_iff)
    moreover have "int k' - 51 = int (s + 1)" by (simp add: s)
    ultimately show ?thesis
      using False assemble_normal [of ?g "s + 1"] g(2) g52 s1022 by simp
  qed
  ultimately show ?thesis using that scale g(1) by (simp add: d_def)
qed

lemma mean_bits:
  assumes ok: "component_ok c" "xc_sign c \<noteq> 0" and n: "0 < unat cnt" "bigval (xc_magnitude c) \<le> unat cnt * 2 ^ 1074"
  obtains s bits where "scale_of (bigval (xc_magnitude c)) (unat cnt) s"
    "unat bits = s * 2 ^ 52 + round_half_even (bigval (xc_magnitude c)) (unat cnt * 2 ^ s)"
    "exact_component_mean c cnt = (if xc_sign c <s 0 \<and> bits \<noteq> 0 then bits OR 0x8000000000000000 else bits)"
proof -
  let ?m = "xc_magnitude c"
  have len: "length ?m = LIMBS" using ok(1) by (simp add: component_ok_def)
  have "unat cnt < 2 ^ 64" using unsigned_less [of cnt, where 'a = nat] by simp
  then have "2 * 0 + unat cnt * 2 ^ 52 < 2 ^ (32 * LIMBS)" by (intro twice_fits) auto
  then obtain t where t: "big_multiply_shift cnt 1 52 = Some t" "length t = LIMBS" "bigval t = unat cnt * 2 ^ 52"
    using big_multiply_shift_value [of cnt 1 52] by (cases "big_multiply_shift cnt 1 52") auto
  have cmp: "big_compare ?m t < 0 \<longleftrightarrow> bigval ?m < unat cnt * 2 ^ 52"
    using t len by (simp add: big_compare_value)
  show ?thesis
  proof (cases "bigval ?m < unat cnt * 2 ^ 52")
    case True
    note sub = subnormal_branch [OF len n(2,1) True]
    have "subnormal_bits ?m cnt = rounded_quotient ?m cnt 0 0 0x0010000000000000"
      by (simp add: subnormal_bits_def Let_def)
    then show ?thesis
      using that [of 0 "subnormal_bits ?m cnt"] sub True ok(2) by (simp add: exact_component_mean_def t(1) cmp Let_def)
  next
    case False
    then have "unat cnt * 2 ^ 52 \<le> bigval ?m" by simp
    then obtain s bits where "scale_of (bigval ?m) (unat cnt) s" "normal_bits ?m cnt = Some bits"
      "unat bits = s * 2 ^ 52 + round_half_even (bigval ?m) (unat cnt * 2 ^ s)"
      by (rule normal_branch [OF len n(2,1)])
    then show ?thesis
      using that [of s bits] False ok(2) by (simp add: exact_component_mean_def t(1) cmp)
  qed
qed

lemma or_sign_bit: "unat b < 2 ^ 63 \<Longrightarrow> unat (b OR 0x8000000000000000) = 2 ^ 63 + unat b" for b :: u64
proof -
  assume b: "unat b < 2 ^ 63"
  have "b OR 0x8000000000000000 = push_bit 63 1 OR b" by (simp add: or.commute)
  also have "\<dots> = push_bit 63 1 + b" using b by (rule push_bit_or)
  finally show ?thesis using b by (simp add: unat_word_ariths)
qed

text \<open>No rounding leads past 1, which is a pattern itself.\<close>

lemma rounded_in_range:
  assumes sc: "scale_of A n s" and n: "0 < n" "A \<le> n * 2 ^ 1074"
  shows "s * 2 ^ 52 + round_half_even A (n * 2 ^ s) \<le> 1023 * 2 ^ 52"
proof -
  define d where "d = n * 2 ^ s"
  have d: "0 < d" using n(1) by (simp add: d_def)
  let ?q = "A div d" and ?p = "s * 2 ^ 52 + A div d"
  have q: "?q \<le> 2 ^ 53" "s = 0 \<or> 2 ^ 52 \<le> ?q"
    using sc d by (auto simp: scale_of_def d_def less_mult_imp_div_less mult.commute less_eq_div_iff_mult_less_eq less_imp_le)
  have one: "magnitude64 (1023 * 2 ^ 52) = 2 ^ 1074"
    using magnitude64_form [of "2 ^ 52" 1022] by simp
  have p: "n * magnitude64 ?p = d * ?q" using magnitude64_form [OF q] by (simp add: d_def)
  have "d * ?q \<le> A" by simp
  then have "n * magnitude64 ?p \<le> n * magnitude64 (1023 * 2 ^ 52)" unfolding one p by (rule le_trans [OF _ n(2)])
  then have "magnitude64 ?p \<le> magnitude64 (1023 * 2 ^ 52)" using n(1) by (simp only: nat_mult_le_cancel1)
  then have le: "?p \<le> 1023 * 2 ^ 52" using magnitude64_strict_mono by (simp only: strict_mono_less_eq)
  show ?thesis
  proof (cases "?p = 1023 * 2 ^ 52")
    case True
    then have "d * ?q = n * 2 ^ 1074" using p one by simp
    then have "A mod d = 0" using n(2) \<open>d * ?q \<le> A\<close> by (metis add_diff_cancel_left' antisym diff_self_eq_0 mult_div_mod_eq)
    then have "round_half_even A d = ?q" using d by (simp add: round_half_even_def)
    then show ?thesis using le by (simp add: d_def)
  next
    case False
    then show ?thesis using le round_half_even_bounds(2) [of A d] by (simp add: d_def)
  qed
qed

lemma exact_component_mean_value:
  assumes ok: "component_ok c" and n: "0 < unat cnt" "\<bar>cval c\<bar> \<le> int (unat cnt) * one64"
  shows "nearest64 (exact_component_mean c cnt) (cval c) (unat cnt) \<and> in_range (exact_component_mean c cnt)"
proof (cases "xc_sign c = 0")
  case True
  then have "cval c = 0" "exact_component_mean c cnt = 0" using ok by (auto simp: cval_def exact_component_mean_def)
  then show ?thesis
    by (auto simp: nearest64_def finite64_def scaled64_def magnitude64_def in_range_def)
next
  case False
  let ?A = "bigval (xc_magnitude c)"
  have sg: "xc_sign c = 1 \<or> xc_sign c = - 1" using ok False by (auto simp: component_ok_iff)
  define \<sigma> where "\<sigma> = sint (xc_sign c)"
  have \<sigma>: "\<sigma> = 1 \<or> \<sigma> = - 1" "cval c = \<sigma> * int ?A" "xc_sign c <s 0 \<longleftrightarrow> \<sigma> = - 1"
    using sg by (auto simp: \<sigma>_def cval_def word_sless_alt)
  have "int ?A \<le> int (unat cnt * 2 ^ 1074)" using n(2) \<sigma> by (auto simp: one64_def abs_mult)
  then have A: "?A \<le> unat cnt * 2 ^ 1074" unfolding of_nat_le_iff .
  obtain s bits where s: "scale_of ?A (unat cnt) s" "unat bits = s * 2 ^ 52 + round_half_even ?A (unat cnt * 2 ^ s)"
    "exact_component_mean c cnt = (if xc_sign c <s 0 \<and> bits \<noteq> 0 then bits OR 0x8000000000000000 else bits)"
    by (rule mean_bits [OF ok False n(1) A])
  have le: "unat bits \<le> 1023 * 2 ^ 52" using rounded_in_range [OF s(1) n(1) A] s(2) by simp
  then have b63: "unat bits < 2 ^ 63" by simp
  let ?r = "exact_component_mean c cnt"
  have r: "unat ?r mod 2 ^ 63 = unat bits" and sc: "scaled64 ?r = \<sigma> * int (magnitude64 (unat ?r mod 2 ^ 63))"
    using b63 or_sign_bit [OF b63] \<sigma> unfolding s(3) by (auto simp: scaled64_def magnitude64_def)
  have "nearest64 ?r (\<sigma> * int ?A) (unat cnt)"
    using s(1) r \<sigma>(1) sc unfolding scale_of_def s(2) by (intro rounded_nearest [OF n(1), where s = s]) auto
  with r le \<sigma>(2) show ?thesis by (simp add: in_range_def)
qed

lemma component_means_value:
  "list_all component_ok cs \<Longrightarrow> component_means cs n = Inr (map (\<lambda>c. exact_component_mean c n) cs)"
  by (induction cs) (auto simp: component_ok_valid)

text \<open>C4: finishing rounds once.  An accumulator that holds no point gives EMPTY and leaves the
  summary alone.  Any other accumulator that satisfies the invariant gives OK, and every coordinate
  of the centroid is the exact mean of the points, the exact sum divided by the exact count, rounded
  once to nearest with ties to even; it is again a number between -1 and 1, and the count is
  reported.\<close>

theorem centroid_correctly_rounded:
  assumes "accumulator_ok a"
  shows "if ga_logical_count a = 0
     then laplace_geometry_accumulator_finish radius (Some a) (Some summary) = (LAPLACE_GEOMETRY_EMPTY, Some summary)
     else \<exists>r. laplace_geometry_accumulator_finish radius (Some a) (Some summary) = (LAPLACE_GEOMETRY_OK, Some r)
       \<and> length (gs_centroid r) = LAPLACE_GEOMETRY_COMPONENTS
       \<and> (\<forall>i < LAPLACE_GEOMETRY_COMPONENTS.
            nearest64 (gs_centroid r ! i) (cval (ga_sum a ! i)) (unat (ga_logical_count a))
            \<and> in_range (gs_centroid r ! i))
       \<and> gs_logical_count r = ga_logical_count a"
proof (cases "ga_logical_count a = 0")
  case True
  then show ?thesis by (simp add: laplace_geometry_accumulator_finish_def)
next
  case False
  note a = accumulator_okD [OF assms]
  have "0 < unat (ga_logical_count a)" using False by (simp add: unat_gt_0)
  then have "nearest64 (exact_component_mean (ga_sum a ! i) (ga_logical_count a)) (cval (ga_sum a ! i)) (unat (ga_logical_count a))
      \<and> in_range (exact_component_mean (ga_sum a ! i) (ga_logical_count a))" if "i < LAPLACE_GEOMETRY_COMPONENTS" for i
    using a that by (intro exact_component_mean_value) (auto simp: list_all_length)
  then show ?thesis
    using False a by (simp add: laplace_geometry_accumulator_finish_def component_means_value)
qed

theorem centroid_correctly_rounded_witness:
  "\<exists>a r. laplace_geometry_accumulator_add (Some accumulator_zero) (Some sample_point) 3 = (LAPLACE_GEOMETRY_OK, Some a)
     \<and> laplace_geometry_accumulator_finish (\<lambda>_. 0) (Some a) (Some r) = (LAPLACE_GEOMETRY_OK, Some r)
     \<and> nearest64 (gs_centroid r ! 0) (3 * one64) 3"
proof -
  have "length sample_point = LAPLACE_GEOMETRY_COMPONENTS" "list_all in_range sample_point"
    using sample_point_ok by (auto simp: point_ok_def)
  moreover have zero: "cval (ga_sum accumulator_zero ! 0) = 0" "ga_logical_count accumulator_zero = 0"
    by (simp_all add: accumulator_zero_def exact_component_zero_def cval_def LAPLACE_GEOMETRY_COMPONENTS_def)
  ultimately obtain a where a: "laplace_geometry_accumulator_add (Some accumulator_zero) (Some sample_point) 3
      = (LAPLACE_GEOMETRY_OK, Some a)" "accumulator_ok a" "ga_logical_count a = 3"
    "\<forall>i < LAPLACE_GEOMETRY_COMPONENTS. cval (ga_sum a ! i)
       = cval (ga_sum accumulator_zero ! i) + 3 * scaled64 (sample_point ! i)"
    using accumulator_add_value [OF accumulator_zero_ok, of sample_point 3] by auto
  have c: "0 < LAPLACE_GEOMETRY_COMPONENTS" by (simp add: LAPLACE_GEOMETRY_COMPONENTS_def)
  then have v: "cval (ga_sum a ! 0) = 3 * one64" using a(4) zero by (simp add: sample_point_1)
  from centroid_correctly_rounded [OF a(2), of "\<lambda>_. 0" "\<lparr>gs_centroid = [], gs_radius = 0, gs_logical_count = 0\<rparr>"] a(3) c v
  obtain r where "laplace_geometry_accumulator_finish (\<lambda>_. 0) (Some a) (Some \<lparr>gs_centroid = [], gs_radius = 0, gs_logical_count = 0\<rparr>)
      = (LAPLACE_GEOMETRY_OK, Some r)" "nearest64 (gs_centroid r ! 0) (3 * one64) 3" by auto
  then show ?thesis
    using a(1) by (intro exI [of _ a] exI [of _ r])
      (auto simp: laplace_geometry_accumulator_finish_def split: if_splits sum.splits)
qed

end
