(* ===== verification/Framework_Staging.thy ===== *)
theory Framework_Staging
  imports Framework
begin

text \<open>
  Staging a canonical stream into sinks (\<open>engine/src/framework.c\<close>, middle part): sink
  validation, the begin / stage / seal loops over the sinks, the abort on failure, the aggregate
  fingerprint of the sealed artifacts and the receipt.

  A sink is a record of callbacks supplied by the caller.  The callbacks act on an arbitrary
  world \<open>'w\<close> that is threaded through every call, so sinks may share state; nothing is assumed
  about what a callback does or returns.
\<close>

record 'w laplace_framework_sink_v1 =
  sk_begin :: "('w \<Rightarrow> laplace_framework_context \<Rightarrow> u32 \<Rightarrow> u64 \<Rightarrow> u64
                 \<Rightarrow> laplace_framework_status \<times> 'w) option"
  sk_stage :: "('w \<Rightarrow> laplace_framework_canonical_batch \<Rightarrow> laplace_framework_status \<times> 'w) option"
  sk_seal :: "('w \<Rightarrow> laplace_digest256 \<Rightarrow> laplace_digest256
                 \<Rightarrow> laplace_framework_status \<times> laplace_digest256 \<times> 'w) option"
  sk_abort :: "('w \<Rightarrow> 'w) option"
  sk_abi_major :: u16
  sk_abi_minor :: u16
  sk_flags :: u32
  sk_reserved :: u32

text \<open>\<open>ao_artifact_fingerprints\<close> is the caller's buffer of \<open>capacity\<close> digests.\<close>

record laplace_framework_sink_artifact_output =
  ao_artifact_fingerprints :: "laplace_digest256 list option"
  ao_capacity :: u64
  ao_count :: u64
  ao_reserved :: u64

definition LAPLACE_FRAMEWORK_SINK_ABI_MAJOR :: u16 where "LAPLACE_FRAMEWORK_SINK_ABI_MAJOR = 1"
definition LAPLACE_FRAMEWORK_SINK_ABI_MINOR :: u16 where "LAPLACE_FRAMEWORK_SINK_ABI_MINOR = 0"

definition SINK_DOMAIN :: "byte list" where
  "SINK_DOMAIN = ascii_bytes ''laplace-framework-sink-artifacts-v1''"

definition sink_is_valid :: "'w laplace_framework_sink_v1 \<Rightarrow> bool" where
  "sink_is_valid sink \<longleftrightarrow>
     \<not> (sk_begin sink = None \<or> sk_stage sink = None \<or> sk_seal sink = None
        \<or> sk_abort sink = None
        \<or> sk_abi_major sink \<noteq> LAPLACE_FRAMEWORK_SINK_ABI_MAJOR
        \<or> LAPLACE_FRAMEWORK_SINK_ABI_MINOR < sk_abi_minor sink
        \<or> sk_flags sink \<noteq> 0 \<or> sk_reserved sink \<noteq> 0)"

fun validate_sinks_loop :: "nat \<Rightarrow> 'w laplace_framework_sink_v1 list \<Rightarrow> nat option" where
  "validate_sinks_loop sink_index [] = None"
| "validate_sinks_loop sink_index (sink # sinks) =
     (if \<not> sink_is_valid sink then Some sink_index else validate_sinks_loop (Suc sink_index) sinks)"

definition validate_sinks ::
  "'w laplace_framework_sink_v1 span \<Rightarrow> u64 option \<Rightarrow> laplace_framework_status \<times> u64 option" where
  "validate_sinks sinks failed_sink_index =
     (if span_null sinks \<or> span_count sinks = 0
      then (LAPLACE_FRAMEWORK_SINK_INVALID, failed_sink_index)
      else case validate_sinks_loop 0 (span_items sinks) of
          Some sink_index \<Rightarrow>
            (LAPLACE_FRAMEWORK_SINK_INVALID,
             case failed_sink_index of None \<Rightarrow> None | Some _ \<Rightarrow> Some (of_nat sink_index))
        | None \<Rightarrow> (LAPLACE_FRAMEWORK_OK, failed_sink_index))"

definition abort_sinks :: "'w laplace_framework_sink_v1 list \<Rightarrow> nat \<Rightarrow> 'w \<Rightarrow> 'w" where
  "abort_sinks sinks n w =
     foldl (\<lambda>w sink. case sk_abort sink of None \<Rightarrow> w | Some abort \<Rightarrow> abort w) w (take n sinks)"

definition clear_sink_artifact_output ::
  "laplace_framework_sink_artifact_output option \<Rightarrow> nat
     \<Rightarrow> laplace_framework_sink_artifact_output option" where
  "clear_sink_artifact_output output sink_count =
     map_option (\<lambda>ao.
       let ao = ao\<lparr>ao_count := 0\<rparr> in
       case ao_artifact_fingerprints ao of
         None \<Rightarrow> ao
       | Some fps \<Rightarrow>
           if unat (ao_capacity ao) \<le> SIZE_MAX then
             let clear_count = (if unat (ao_capacity ao) < sink_count
                                then unat (ao_capacity ao) else sink_count) in
             ao\<lparr>ao_artifact_fingerprints := Some (replicate clear_count 0 @ drop clear_count fps)\<rparr>
           else ao) output"

definition prepare_sink_artifact_output ::
  "laplace_framework_sink_artifact_output option \<Rightarrow> nat \<Rightarrow> bool
     \<Rightarrow> laplace_framework_status \<times> laplace_framework_sink_artifact_output option" where
  "prepare_sink_artifact_output output sink_count required =
     (case output of
        None \<Rightarrow> (if required then LAPLACE_FRAMEWORK_INVALID_ARGUMENT else LAPLACE_FRAMEWORK_OK, None)
      | Some ao \<Rightarrow>
          if ao_artifact_fingerprints ao = None
             \<or> ao_capacity ao < of_nat sink_count
             \<or> SIZE_MAX < unat (ao_capacity ao)
             \<or> SIZE_MAX div 32 < sink_count
             \<or> ao_reserved ao \<noteq> 0
          then (LAPLACE_FRAMEWORK_INVALID_ARGUMENT, clear_sink_artifact_output output sink_count)
          else (LAPLACE_FRAMEWORK_OK, clear_sink_artifact_output output sink_count))"

definition initialize_sink_artifact_hasher :: "'h blake3_api \<Rightarrow> nat \<Rightarrow> 'h" where
  "initialize_sink_artifact_hasher B artifact_count =
     updates B (hasher_init B) [SINK_DOMAIN, u64_le (of_nat artifact_count)]"

definition update_sink_artifact_hasher ::
  "'h blake3_api \<Rightarrow> 'h \<Rightarrow> nat \<Rightarrow> laplace_digest256 \<Rightarrow> 'h" where
  "update_sink_artifact_hasher B h artifact_index artifact_fingerprint =
     updates B h [u64_le (of_nat artifact_index), bytes artifact_fingerprint]"

text \<open>The loops return the status, the number of sinks begun or the failing index, and the
  world.  \<open>sink_index\<close> is the index of the first remaining sink.\<close>

fun begin_sinks ::
  "nat \<Rightarrow> 'w laplace_framework_sink_v1 list \<Rightarrow> laplace_framework_context \<Rightarrow> u32 \<Rightarrow> u64 \<Rightarrow> u64
     \<Rightarrow> u64 \<Rightarrow> 'w \<Rightarrow> laplace_framework_status \<times> nat \<times> u64 \<times> 'w" where
  "begin_sinks sink_index [] context record_type total_records total_bytes failed w =
     (LAPLACE_FRAMEWORK_OK, sink_index, failed, w)"
| "begin_sinks sink_index (sink # sinks) context record_type total_records total_bytes failed w =
     (case the (sk_begin sink) w context record_type total_records total_bytes of
        (status, w') \<Rightarrow>
          if status \<noteq> LAPLACE_FRAMEWORK_OK
          then (LAPLACE_FRAMEWORK_SINK_BEGIN_FAILED, sink_index + 1, of_nat sink_index, w')
          else begin_sinks (sink_index + 1) sinks context record_type total_records total_bytes
                 failed w')"

fun stage_batch_to_sinks ::
  "nat \<Rightarrow> 'w laplace_framework_sink_v1 list \<Rightarrow> laplace_framework_canonical_batch \<Rightarrow> nat
     \<Rightarrow> u64 \<times> u64 \<Rightarrow> 'w \<Rightarrow> laplace_framework_status \<times> (u64 \<times> u64) \<times> 'w" where
  "stage_batch_to_sinks sink_index [] batch batch_index failed w =
     (LAPLACE_FRAMEWORK_OK, failed, w)"
| "stage_batch_to_sinks sink_index (sink # sinks) batch batch_index failed w =
     (case the (sk_stage sink) w batch of
        (status, w') \<Rightarrow>
          if status \<noteq> LAPLACE_FRAMEWORK_OK
          then (LAPLACE_FRAMEWORK_SINK_STAGE_FAILED, (of_nat batch_index, of_nat sink_index), w')
          else stage_batch_to_sinks (sink_index + 1) sinks batch batch_index failed w')"

text \<open>The outer loop of the staging function over the batches.\<close>

fun stage_batches ::
  "'w laplace_framework_sink_v1 list \<Rightarrow> nat \<Rightarrow> laplace_framework_canonical_batch list
     \<Rightarrow> u64 \<times> u64 \<Rightarrow> 'w \<Rightarrow> laplace_framework_status \<times> (u64 \<times> u64) \<times> 'w" where
  "stage_batches sinks batch_index [] failed w = (LAPLACE_FRAMEWORK_OK, failed, w)"
| "stage_batches sinks batch_index (batch # batches) failed w =
     (case stage_batch_to_sinks 0 sinks batch batch_index failed w of
        (status, failed', w') \<Rightarrow>
          if status \<noteq> LAPLACE_FRAMEWORK_OK then (status, failed', w')
          else stage_batches sinks (batch_index + 1) batches failed' w')"

fun seal_sinks_loop ::
  "'h blake3_api \<Rightarrow> nat \<Rightarrow> nat \<Rightarrow> 'w laplace_framework_sink_v1 list \<Rightarrow> laplace_digest256 \<Rightarrow> 'h
     \<Rightarrow> laplace_framework_sink_artifact_output option \<Rightarrow> u64 \<Rightarrow> 'w
     \<Rightarrow> laplace_framework_status \<times> 'h \<times> laplace_framework_sink_artifact_output option \<times> u64 \<times> 'w"
  where
  "seal_sinks_loop B sink_count sink_index [] stream_fingerprint h output failed w =
     (LAPLACE_FRAMEWORK_OK, h, output, failed, w)"
| "seal_sinks_loop B sink_count sink_index (sink # sinks) stream_fingerprint h output failed w =
     (case the (sk_seal sink) w stream_fingerprint 0 of
        (status, artifact, w') \<Rightarrow>
          if status \<noteq> LAPLACE_FRAMEWORK_OK
          then (LAPLACE_FRAMEWORK_SINK_SEAL_FAILED, h,
                clear_sink_artifact_output output sink_count, of_nat sink_index, w')
          else seal_sinks_loop B sink_count (sink_index + 1) sinks stream_fingerprint
                 (update_sink_artifact_hasher B h sink_index artifact)
                 (map_option (\<lambda>ao. ao\<lparr>ao_artifact_fingerprints :=
                    map_option (\<lambda>fps. fps[sink_index := artifact]) (ao_artifact_fingerprints ao)\<rparr>)
                    output)
                 failed w')"

text \<open>The result holds the aggregate fingerprint (\<open>None\<close>: left as it was).\<close>

definition seal_sinks ::
  "'h blake3_api \<Rightarrow> 'w laplace_framework_sink_v1 list \<Rightarrow> laplace_digest256
     \<Rightarrow> laplace_framework_sink_artifact_output option \<Rightarrow> u64 \<Rightarrow> 'w
     \<Rightarrow> laplace_framework_status \<times> laplace_digest256 option
        \<times> laplace_framework_sink_artifact_output option \<times> u64 \<times> 'w" where
  "seal_sinks B sinks stream_fingerprint output failed w =
     (case seal_sinks_loop B (length sinks) 0 sinks stream_fingerprint
             (initialize_sink_artifact_hasher B (length sinks)) output failed w of
        (status, h, output', failed', w') \<Rightarrow>
          if status \<noteq> LAPLACE_FRAMEWORK_OK then (status, None, output', failed', w')
          else (LAPLACE_FRAMEWORK_OK, Some (hasher_finalize B h),
                map_option (\<lambda>ao. ao\<lparr>ao_count := of_nat (length sinks)\<rparr>) output', failed', w'))"

definition laplace_framework_sink_artifacts_fingerprint ::
  "'h blake3_api \<Rightarrow> laplace_digest256 span \<Rightarrow> laplace_digest256 option
     \<Rightarrow> laplace_framework_status \<times> laplace_digest256 option" where
  "laplace_framework_sink_artifacts_fingerprint B artifact_fingerprints aggregate =
     (if span_null artifact_fingerprints \<or> span_count artifact_fingerprints = 0 \<or> aggregate = None
      then (LAPLACE_FRAMEWORK_INVALID_ARGUMENT, aggregate)
      else let fps = span_items artifact_fingerprints in
        (LAPLACE_FRAMEWORK_OK,
         Some (hasher_finalize B
           (foldl (\<lambda>h (index, fp). update_sink_artifact_hasher B h index fp)
              (initialize_sink_artifact_hasher B (length fps)) (enumerate 0 fps)))))"

definition stream_receipt_zero :: laplace_framework_stream_receipt where
  "stream_receipt_zero =
     \<lparr>sr_receipt_id = 0, sr_context_fingerprint = 0, sr_source_fingerprint = 0,
      sr_recipe_fingerprint = 0, sr_stream_fingerprint = 0, sr_sink_artifacts_fingerprint = 0,
      sr_total_records = 0, sr_total_bytes = 0, sr_batch_count = 0, sr_sink_count = 0,
      sr_failed_batch_index = 0, sr_failed_sink_index = 0, sr_record_type = 0,
      sr_effect_disposition = 0, sr_status = LAPLACE_FRAMEWORK_OK, sr_reserved = 0\<rparr>"

text \<open>The first half of the staging function, which calls no sink: \<open>Inl\<close> is an early return
  (status, receipt, artifact output), \<open>Inr\<close> the receipt and artifact output with which the
  second half starts.\<close>

definition staging_entry ::
  "'h blake3_api \<Rightarrow> laplace_framework_context option \<Rightarrow> laplace_framework_canonical_stream option
     \<Rightarrow> 'w laplace_framework_sink_v1 span \<Rightarrow> laplace_framework_sink_artifact_output option \<Rightarrow> bool
     \<Rightarrow> (laplace_framework_status \<times> laplace_framework_stream_receipt
           \<times> laplace_framework_sink_artifact_output option)
        + (laplace_framework_stream_receipt \<times> laplace_framework_sink_artifact_output option)" where
  "staging_entry B context stream sinks output required =
     (let r = stream_receipt_zero\<lparr>sr_failed_batch_index := LAPLACE_FRAMEWORK_NO_INDEX,
                sr_failed_sink_index := LAPLACE_FRAMEWORK_NO_INDEX,
                sr_sink_count := of_nat (span_count sinks)\<rparr>;
          (status, output) = prepare_sink_artifact_output output (span_count sinks) required in
      if status \<noteq> LAPLACE_FRAMEWORK_OK then Inl (status, r, output) else
      let (status, context_fingerprint) = laplace_framework_context_fingerprint B context (Some 0);
          r = r\<lparr>sr_context_fingerprint := the context_fingerprint\<rparr> in
      if status \<noteq> LAPLACE_FRAMEWORK_OK then Inl (status, r, output) else
      if stream = None \<or> span_null (cs_batches (the stream))
         \<or> span_count (cs_batches (the stream)) = 0
         \<or> SIZE_MAX < span_count (cs_batches (the stream))
         \<or> cs_flags (the stream) \<noteq> LAPLACE_FRAMEWORK_KNOWN_STREAM_FLAGS
         \<or> cs_reserved (the stream) \<noteq> 0
      then Inl (LAPLACE_FRAMEWORK_STREAM_INVALID, r, output) else
      let batches = cs_batches (the stream);
          r = r\<lparr>sr_batch_count := of_nat (span_count batches),
                sr_source_fingerprint := cs_source_fingerprint (the stream),
                sr_recipe_fingerprint := cs_recipe_fingerprint (the stream)\<rparr>;
          (status, totals) = laplace_framework_canonical_stream_fingerprint B batches
             (Some (sr_stream_fingerprint r, sr_record_type r, sr_total_records r, sr_total_bytes r));
          r = (case the totals of (fp, type, records, byte_total) \<Rightarrow>
                 r\<lparr>sr_stream_fingerprint := fp, sr_record_type := type,
                   sr_total_records := records, sr_total_bytes := byte_total\<rparr>) in
      if status \<noteq> LAPLACE_FRAMEWORK_OK then Inl (status, r, output) else
      let (status, failed) = validate_sinks sinks (Some (sr_failed_sink_index r));
          r = r\<lparr>sr_failed_sink_index := the failed\<rparr> in
      if status \<noteq> LAPLACE_FRAMEWORK_OK then Inl (status, r, output) else Inr (r, output))"

text \<open>Every return of the staging function after the NULL check of \<open>receipt\<close> stores the status
  and hashes the receipt.\<close>

definition staging_return ::
  "'h blake3_api \<Rightarrow> laplace_framework_status \<Rightarrow> laplace_framework_stream_receipt
     \<Rightarrow> laplace_framework_sink_artifact_output option \<Rightarrow> 'w
     \<Rightarrow> laplace_framework_status \<times> laplace_framework_stream_receipt option
        \<times> laplace_framework_sink_artifact_output option \<times> 'w" where
  "staging_return B status r output w =
     (status, Some (hash_stream_receipt B (r\<lparr>sr_status := status\<rparr>)), output, w)"

text \<open>The second half of the staging function, from the first \<open>begin\<close> callback on: it runs on
  a validated context, stream and sink array.\<close>

definition staging_run ::
  "'h blake3_api \<Rightarrow> laplace_framework_context \<Rightarrow> laplace_framework_canonical_batch list
     \<Rightarrow> 'w laplace_framework_sink_v1 list \<Rightarrow> laplace_framework_sink_artifact_output option
     \<Rightarrow> laplace_framework_stream_receipt \<Rightarrow> 'w
     \<Rightarrow> laplace_framework_status \<times> laplace_framework_stream_receipt option
        \<times> laplace_framework_sink_artifact_output option \<times> 'w" where
  "staging_run B context batches sinks output r w =
     (let (status, begun, failed, w) =
            begin_sinks 0 sinks context (sr_record_type r)
              (sr_total_records r) (sr_total_bytes r) (sr_failed_sink_index r) w;
          r = r\<lparr>sr_failed_sink_index := failed\<rparr> in
      if status \<noteq> LAPLACE_FRAMEWORK_OK
      then staging_return B status r output (abort_sinks sinks begun w) else
      let (status, (failed_batch, failed_sink), w) =
            stage_batches sinks 0 batches
              (sr_failed_batch_index r, sr_failed_sink_index r) w;
          r = r\<lparr>sr_failed_batch_index := failed_batch, sr_failed_sink_index := failed_sink\<rparr> in
      if status \<noteq> LAPLACE_FRAMEWORK_OK
      then staging_return B status r output (abort_sinks sinks begun w) else
      let (status, aggregate, output, failed, w) =
            seal_sinks B sinks (sr_stream_fingerprint r) output
              (sr_failed_sink_index r) w;
          r = r\<lparr>sr_failed_sink_index := failed,
                sr_sink_artifacts_fingerprint :=
                  (case aggregate of None \<Rightarrow> sr_sink_artifacts_fingerprint r | Some d \<Rightarrow> d)\<rparr> in
      if status \<noteq> LAPLACE_FRAMEWORK_OK
      then staging_return B status r output (abort_sinks sinks begun w) else
      staging_return B LAPLACE_FRAMEWORK_OK
        (r\<lparr>sr_effect_disposition := LAPLACE_FRAMEWORK_EFFECT_STAGED_INERT\<rparr>) output w)"

definition stage_canonical_stream_impl ::
  "'h blake3_api \<Rightarrow> laplace_framework_context option \<Rightarrow> laplace_framework_canonical_stream option
     \<Rightarrow> 'w laplace_framework_sink_v1 span \<Rightarrow> laplace_framework_sink_artifact_output option \<Rightarrow> bool
     \<Rightarrow> laplace_framework_stream_receipt option \<Rightarrow> 'w
     \<Rightarrow> laplace_framework_status \<times> laplace_framework_stream_receipt option
        \<times> laplace_framework_sink_artifact_output option \<times> 'w" where
  "stage_canonical_stream_impl B context stream sinks output required receipt w =
     (case receipt of
        None \<Rightarrow> (LAPLACE_FRAMEWORK_INVALID_ARGUMENT, None, output, w)
      | Some _ \<Rightarrow>
          (case staging_entry B context stream sinks output required of
             Inl (status, r, output') \<Rightarrow> staging_return B status r output' w
           | Inr (r, output') \<Rightarrow>
               staging_run B (the context) (span_items (cs_batches (the stream)))
                 (span_items sinks) output' r w))"

definition laplace_framework_stage_canonical_stream ::
  "'h blake3_api \<Rightarrow> laplace_framework_context option \<Rightarrow> laplace_framework_canonical_stream option
     \<Rightarrow> 'w laplace_framework_sink_v1 span \<Rightarrow> laplace_framework_stream_receipt option \<Rightarrow> 'w
     \<Rightarrow> laplace_framework_status \<times> laplace_framework_stream_receipt option \<times> 'w" where
  "laplace_framework_stage_canonical_stream B context stream sinks receipt w =
     (case stage_canonical_stream_impl B context stream sinks None False receipt w of
        (status, receipt', output', w') \<Rightarrow> (status, receipt', w'))"

definition laplace_framework_stage_canonical_stream_with_artifacts ::
  "'h blake3_api \<Rightarrow> laplace_framework_context option \<Rightarrow> laplace_framework_canonical_stream option
     \<Rightarrow> 'w laplace_framework_sink_v1 span \<Rightarrow> laplace_framework_sink_artifact_output option
     \<Rightarrow> laplace_framework_stream_receipt option \<Rightarrow> 'w
     \<Rightarrow> laplace_framework_status \<times> laplace_framework_stream_receipt option
        \<times> laplace_framework_sink_artifact_output option \<times> 'w" where
  "laplace_framework_stage_canonical_stream_with_artifacts B context stream sinks output receipt w =
     stage_canonical_stream_impl B context stream sinks output True receipt w"

section \<open>Observing the calls\<close>

text \<open>
  The calls a run makes are observed by wrapping each sink so that it records, besides doing what
  it did, its index and the call in a log next to the world.
\<close>

datatype sink_event =
    EvBegin
  | EvStage laplace_framework_canonical_batch
  | EvSeal laplace_digest256
  | EvAbort

definition logged ::
  "nat \<Rightarrow> 'w laplace_framework_sink_v1 \<Rightarrow> ('w \<times> (nat \<times> sink_event) list) laplace_framework_sink_v1" where
  "logged i s =
     \<lparr>sk_begin = map_option (\<lambda>f (w, l) c t r b.
         case f w c t r b of (st, w') \<Rightarrow> (st, w', l @ [(i, EvBegin)])) (sk_begin s),
      sk_stage = map_option (\<lambda>f (w, l) b.
         case f w b of (st, w') \<Rightarrow> (st, w', l @ [(i, EvStage b)])) (sk_stage s),
      sk_seal = map_option (\<lambda>f (w, l) fp a.
         case f w fp a of (st, d, w') \<Rightarrow> (st, d, w', l @ [(i, EvSeal fp)])) (sk_seal s),
      sk_abort = map_option (\<lambda>f (w, l). (f w, l @ [(i, EvAbort)])) (sk_abort s),
      sk_abi_major = sk_abi_major s, sk_abi_minor = sk_abi_minor s,
      sk_flags = sk_flags s, sk_reserved = sk_reserved s\<rparr>"

fun logged_sinks ::
  "nat \<Rightarrow> 'w laplace_framework_sink_v1 list
     \<Rightarrow> ('w \<times> (nat \<times> sink_event) list) laplace_framework_sink_v1 list" where
  "logged_sinks i [] = []"
| "logged_sinks i (s # ss) = logged i s # logged_sinks (Suc i) ss"

definition events :: "nat \<Rightarrow> nat \<Rightarrow> sink_event \<Rightarrow> (nat \<times> sink_event) list" where
  "events k m e = map (\<lambda>j. (j, e)) [k..<m]"

definition sink_trace :: "nat \<Rightarrow> (nat \<times> sink_event) list \<Rightarrow> sink_event list" where
  "sink_trace i l = map snd (filter (\<lambda>x. fst x = i) l)"

lemma sink_trace_append [simp]: "sink_trace i (l @ l') = sink_trace i l @ sink_trace i l'"
  by (simp add: sink_trace_def)

lemma sink_trace_Nil [simp]: "sink_trace i [] = []"
  by (simp add: sink_trace_def)

lemma sink_trace_events [simp]:
  "sink_trace i (events k m e) = (if k \<le> i \<and> i < m then [e] else [])"
  by (induction m) (auto simp: sink_trace_def events_def)

lemma events_rec: "k < m \<Longrightarrow> events k m e = (k, e) # events (Suc k) m e"
  by (simp add: events_def upt_conv_Cons)

lemma events_empty [simp]: "events k k e = []"
  by (simp add: events_def)

lemma length_logged_sinks [simp]: "length (logged_sinks i ss) = length ss"
  by (induction ss arbitrary: i) auto

lemma logged_valid [simp]: "sink_is_valid (logged i s) \<longleftrightarrow> sink_is_valid s"
  by (simp add: sink_is_valid_def logged_def)

lemma validate_logged [simp]: "validate_sinks_loop k (logged_sinks i ss) = validate_sinks_loop k ss"
  by (induction ss arbitrary: i k) auto

lemma validate_sinks_loop_None: "validate_sinks_loop k ss = None \<longleftrightarrow> list_all sink_is_valid ss"
  by (induction ss arbitrary: k) auto

lemma begin_logged:
  assumes "list_all sink_is_valid ss" "begin_sinks k ss c t n b f w = (st, m, f', w')"
  shows "begin_sinks k (logged_sinks k ss) c t n b f (w, l) = (st, m, f', w', l @ events k m EvBegin)
    \<and> k \<le> m \<and> m \<le> k + length ss \<and> (st = LAPLACE_FRAMEWORK_OK \<longrightarrow> m = k + length ss)"
  using assms
proof (induction ss arbitrary: k w l)
  case (Cons s ss)
  obtain f0 where f0: "sk_begin s = Some f0"
    using Cons.prems(1) by (auto simp: sink_is_valid_def)
  obtain st1 w1 where call: "f0 w c t n b = (st1, w1)" by (cases "f0 w c t n b")
  show ?case
  proof (cases "st1 = LAPLACE_FRAMEWORK_OK")
    case True
    with Cons.prems f0 call have rest: "begin_sinks (Suc k) ss c t n b f w1 = (st, m, f', w')"
      by simp
    from Cons.IH [OF _ rest, of "l @ [(k, EvBegin)]"] Cons.prems(1) True f0 call
    show ?thesis by (auto simp: logged_def events_rec)
  next
    case False
    with Cons.prems f0 call show ?thesis
      by (auto simp: logged_def events_rec)
  qed
qed auto

lemma stage_batch_logged:
  assumes "list_all sink_is_valid ss" "stage_batch_to_sinks k ss b bi f w = (st, f', w')"
  shows "\<exists>m. stage_batch_to_sinks k (logged_sinks k ss) b bi f (w, l)
        = (st, f', w', l @ events k m (EvStage b))
    \<and> k \<le> m \<and> m \<le> k + length ss \<and> (st = LAPLACE_FRAMEWORK_OK \<longrightarrow> m = k + length ss)"
  using assms
proof (induction ss arbitrary: k w l)
  case (Cons s ss)
  obtain f0 where f0: "sk_stage s = Some f0"
    using Cons.prems(1) by (auto simp: sink_is_valid_def)
  obtain st1 w1 where call: "f0 w b = (st1, w1)" by (cases "f0 w b")
  show ?case
  proof (cases "st1 = LAPLACE_FRAMEWORK_OK")
    case True
    with Cons.prems f0 call have rest: "stage_batch_to_sinks (Suc k) ss b bi f w1 = (st, f', w')"
      by simp
    from Cons.IH [OF _ rest, of "l @ [(k, EvStage b)]"] Cons.prems(1) True f0 call
    obtain m where m: "stage_batch_to_sinks (Suc k) (logged_sinks (Suc k) ss) b bi f (w1, l @ [(k, EvStage b)])
        = (st, f', w', (l @ [(k, EvStage b)]) @ events (Suc k) m (EvStage b))"
      "Suc k \<le> m" "m \<le> Suc k + length ss" "st = LAPLACE_FRAMEWORK_OK \<longrightarrow> m = Suc k + length ss"
      by auto
    with True f0 call show ?thesis
      by (intro exI [of _ m]) (auto simp: logged_def events_rec)
  next
    case False
    with Cons.prems f0 call show ?thesis
      by (intro exI [of _ "Suc k"]) (auto simp: logged_def events_rec)
  qed
qed auto

text \<open>What staging the batches records: for each sink a prefix of the batches in order.\<close>

lemma stage_batches_logged:
  assumes "list_all sink_is_valid ss" "stage_batches ss bi bs f w = (st, f', w')"
  shows "\<exists>l'. stage_batches (logged_sinks 0 ss) bi bs f (w, l) = (st, f', w', l @ l')
    \<and> (\<forall>i. \<exists>n \<le> length bs. sink_trace i l' = map EvStage (take n bs))
    \<and> (st = LAPLACE_FRAMEWORK_OK \<longrightarrow> (\<forall>i < length ss. sink_trace i l' = map EvStage bs))
    \<and> (\<forall>i \<ge> length ss. sink_trace i l' = [])"
  using assms
proof (induction bs arbitrary: bi f w l)
  case (Cons b bs)
  obtain st1 f1 w1 where call: "stage_batch_to_sinks 0 ss b bi f w = (st1, f1, w1)"
    by (metis prod_cases3)
  obtain m where m: "stage_batch_to_sinks 0 (logged_sinks 0 ss) b bi f (w, l)
        = (st1, f1, w1, l @ events 0 m (EvStage b))" "m \<le> length ss"
      "st1 = LAPLACE_FRAMEWORK_OK \<longrightarrow> m = length ss"
    using stage_batch_logged [OF Cons.prems(1) call] by auto
  show ?case
  proof (cases "st1 = LAPLACE_FRAMEWORK_OK")
    case True
    with Cons.prems call have rest: "stage_batches ss (Suc bi) bs f1 w1 = (st, f', w')" by simp
    from Cons.IH [OF Cons.prems(1) rest, of "l @ events 0 m (EvStage b)"]
    obtain l' where l': "stage_batches (logged_sinks 0 ss) (Suc bi) bs f1 (w1, l @ events 0 m (EvStage b))
        = (st, f', w', (l @ events 0 m (EvStage b)) @ l')"
      "\<forall>i. \<exists>n \<le> length bs. sink_trace i l' = map EvStage (take n bs)"
      "st = LAPLACE_FRAMEWORK_OK \<longrightarrow> (\<forall>i < length ss. sink_trace i l' = map EvStage bs)"
      "\<forall>i \<ge> length ss. sink_trace i l' = []" by blast
    have prefix: "\<exists>n \<le> length (b # bs). sink_trace i (events 0 m (EvStage b) @ l') = map EvStage (take n (b # bs))"
      for i
    proof (cases "i < length ss")
      case in_range: True
      obtain n where "n \<le> length bs" "sink_trace i l' = map EvStage (take n bs)" using l'(2) by blast
      then show ?thesis
        using in_range m(3) True by (intro exI [of _ "Suc n"]) auto
    next
      case False
      then show ?thesis using l'(4) m(2) by (intro exI [of _ 0]) auto
    qed
    have "stage_batches (logged_sinks 0 ss) bi (b # bs) f (w, l)
        = (st, f', w', l @ (events 0 m (EvStage b) @ l'))"
      using m(1) True l'(1) by simp
    then show ?thesis
      using prefix l'(3,4) m True by (intro exI [of _ "events 0 m (EvStage b) @ l'"] conjI) auto
  next
    case False
    with Cons.prems(2) call have out: "st = st1" "f' = f1" "w' = w1" by auto
    have "\<exists>n \<le> length (b # bs). sink_trace i (events 0 m (EvStage b)) = map EvStage (take n (b # bs))" for i
      by (cases "i < m") (auto intro: exI [of _ "Suc 0"] exI [of _ 0])
    then show ?thesis
      using m False out by (intro exI [of _ "events 0 m (EvStage b)"] conjI) auto
  qed
qed auto

lemma seal_loop_logged:
  assumes "list_all sink_is_valid ss" "seal_sinks_loop B n k ss fp h out f w = (st, h', out', f', w')"
  shows "\<exists>m. seal_sinks_loop B n k (logged_sinks k ss) fp h out f (w, l)
        = (st, h', out', f', w', l @ events k m (EvSeal fp))
    \<and> k \<le> m \<and> m \<le> k + length ss \<and> (st = LAPLACE_FRAMEWORK_OK \<longrightarrow> m = k + length ss)"
  using assms
proof (induction ss arbitrary: k w l h out)
  case (Cons s ss)
  obtain f0 where f0: "sk_seal s = Some f0"
    using Cons.prems(1) by (auto simp: sink_is_valid_def)
  obtain st1 a w1 where call: "f0 w fp 0 = (st1, a, w1)" by (metis prod_cases3)
  show ?case
  proof (cases "st1 = LAPLACE_FRAMEWORK_OK")
    case True
    let ?h = "update_sink_artifact_hasher B h k a"
    let ?out = "map_option (\<lambda>ao. ao\<lparr>ao_artifact_fingerprints :=
        map_option (\<lambda>fps. fps[k := a]) (ao_artifact_fingerprints ao)\<rparr>) out"
    from Cons.prems True f0 call have rest:
      "seal_sinks_loop B n (Suc k) ss fp ?h ?out f w1 = (st, h', out', f', w')"
      by simp
    from Cons.IH [OF _ rest, of "l @ [(k, EvSeal fp)]"] Cons.prems(1)
    obtain m where m: "seal_sinks_loop B n (Suc k) (logged_sinks (Suc k) ss) fp ?h ?out f
        (w1, l @ [(k, EvSeal fp)]) = (st, h', out', f', w', (l @ [(k, EvSeal fp)]) @ events (Suc k) m (EvSeal fp))"
      "Suc k \<le> m" "m \<le> Suc k + length ss" "st = LAPLACE_FRAMEWORK_OK \<longrightarrow> m = Suc k + length ss"
      by auto
    with True f0 call show ?thesis
      by (intro exI [of _ m]) (auto simp: logged_def events_rec)
  next
    case False
    with Cons.prems f0 call show ?thesis
      by (intro exI [of _ "Suc k"]) (auto simp: logged_def events_rec)
  qed
qed auto

lemma abort_logged:
  assumes "list_all sink_is_valid ss" "n \<le> length ss"
  shows "abort_sinks (logged_sinks k ss) n (w, l) = (abort_sinks ss n w, l @ events k (k + n) EvAbort)"
  using assms
proof (induction ss arbitrary: k n w l)
  case (Cons s ss)
  obtain f0 where f0: "sk_abort s = Some f0"
    using Cons.prems(1) by (auto simp: sink_is_valid_def)
  show ?case
  proof (cases n)
    case 0
    then show ?thesis by (simp add: abort_sinks_def)
  next
    case (Suc n')
    with Cons.IH [of n' "Suc k" "f0 w" "l @ [(k, EvAbort)]"] Cons.prems f0 show ?thesis
      by (simp add: abort_sinks_def logged_def events_rec)
  qed
qed (simp add: abort_sinks_def)

text \<open>The shape of one sink's calls in a run that failed: nothing at all, or a begin, some calls
  that are not an abort, and one final abort.\<close>

definition rolled_back :: "sink_event list \<Rightarrow> bool" where
  "rolled_back tr \<longleftrightarrow> tr = [] \<or> (\<exists>mid. tr = EvBegin # mid @ [EvAbort] \<and> EvAbort \<notin> set mid)"

text \<open>The last phase: once every sink has begun and taken every batch.\<close>

lemma sealing_logged:
  assumes valid: "list_all sink_is_valid ss"
    and run: "staging_run B c bs ss out r w = (st, rc, out', w')"
    and bg: "begin_sinks 0 ss c (sr_record_type r) (sr_total_records r) (sr_total_bytes r)
        (sr_failed_sink_index r) w = (LAPLACE_FRAMEWORK_OK, length ss, f1, w1)"
    and bg': "begin_sinks 0 (logged_sinks 0 ss) c (sr_record_type r) (sr_total_records r)
        (sr_total_bytes r) (sr_failed_sink_index r) (w, []) = (LAPLACE_FRAMEWORK_OK, length ss, f1, w1, l1)"
    and stage: "stage_batches ss 0 bs (sr_failed_batch_index r, f1) w1
        = (LAPLACE_FRAMEWORK_OK, (fb, fs), w2)"
    and stage': "stage_batches (logged_sinks 0 ss) 0 bs (sr_failed_batch_index r, f1) (w1, l1)
        = (LAPLACE_FRAMEWORK_OK, (fb, fs), w2, l2)"
  shows "\<exists>m \<le> length ss. (st = LAPLACE_FRAMEWORK_OK \<longrightarrow> m = length ss)
    \<and> staging_run B c bs (logged_sinks 0 ss) out r (w, []) = (st, rc, out', w',
        l2 @ events 0 m (EvSeal (sr_stream_fingerprint r))
          @ (if st = LAPLACE_FRAMEWORK_OK then [] else events 0 (length ss) EvAbort))"
proof -
  obtain st3 h out3 f3 w3 where seal: "seal_sinks_loop B (length ss) 0 ss (sr_stream_fingerprint r)
      (initialize_sink_artifact_hasher B (length ss)) out fs w2 = (st3, h, out3, f3, w3)"
    by (metis prod_cases5)
  obtain m where m: "seal_sinks_loop B (length ss) 0 (logged_sinks 0 ss) (sr_stream_fingerprint r)
      (initialize_sink_artifact_hasher B (length ss)) out fs (w2, l2)
      = (st3, h, out3, f3, w3, l2 @ events 0 m (EvSeal (sr_stream_fingerprint r)))"
    "m \<le> length ss" "st3 = LAPLACE_FRAMEWORK_OK \<longrightarrow> m = length ss"
    using seal_loop_logged [OF valid seal, of l2] by auto
  have "st = st3"
    using run bg stage seal
    by (auto simp: staging_run_def staging_return_def Let_def seal_sinks_def split: if_splits)
  with m show ?thesis
    using run bg bg' stage stage' seal abort_logged [OF valid order_refl, of 0 w3]
    by (intro exI [of _ m])
       (auto simp: staging_run_def staging_return_def Let_def seal_sinks_def split: if_splits)
qed

lemma staging_run_logged:
  assumes valid: "list_all sink_is_valid ss"
    and run: "staging_run B c bs ss out r w = (st, rc, out', w')"
  shows "\<exists>l. staging_run B c bs (logged_sinks 0 ss) out r (w, []) = (st, rc, out', w', l)
    \<and> (st = LAPLACE_FRAMEWORK_OK \<longrightarrow> (\<forall>i < length ss. sink_trace i l =
          EvBegin # map EvStage bs @ [EvSeal (sr_stream_fingerprint r)]))
    \<and> (st \<noteq> LAPLACE_FRAMEWORK_OK \<longrightarrow> (\<forall>i. rolled_back (sink_trace i l)))
    \<and> (\<forall>i \<ge> length ss. sink_trace i l = [])"
proof -
  obtain st1 m1 f1 w1 where bg: "begin_sinks 0 ss c (sr_record_type r) (sr_total_records r)
      (sr_total_bytes r) (sr_failed_sink_index r) w = (st1, m1, f1, w1)"
    by (metis prod_cases4)
  note lb = begin_logged [OF valid bg, of "[]"]
  show ?thesis
  proof (cases "st1 = LAPLACE_FRAMEWORK_OK")
    case False
    then have "staging_run B c bs (logged_sinks 0 ss) out r (w, [])
        = (st, rc, out', w', events 0 m1 EvBegin @ events 0 m1 EvAbort)" "st = st1"
      using run bg lb abort_logged [OF valid, of m1 0 w1]
      by (auto simp: staging_run_def staging_return_def Let_def)
    with False lb show ?thesis
      by (intro exI [of _ "events 0 m1 EvBegin @ events 0 m1 EvAbort"]) (auto simp: rolled_back_def)
  next
    case ok1: True
    let ?l1 = "events 0 (length ss) EvBegin"
    have bg': "begin_sinks 0 (logged_sinks 0 ss) c (sr_record_type r) (sr_total_records r)
      (sr_total_bytes r) (sr_failed_sink_index r) (w, []) = (st1, length ss, f1, w1, ?l1)"
      and m1: "m1 = length ss"
      using lb ok1 by auto
    obtain st2 fb fs w2 where stage: "stage_batches ss 0 bs (sr_failed_batch_index r, f1) w1
        = (st2, (fb, fs), w2)"
      by (metis prod_cases4 surj_pair)
    obtain l2 where l2: "stage_batches (logged_sinks 0 ss) 0 bs (sr_failed_batch_index r, f1) (w1, ?l1)
        = (st2, (fb, fs), w2, ?l1 @ l2)"
      "\<forall>i. \<exists>n \<le> length bs. sink_trace i l2 = map EvStage (take n bs)"
      "st2 = LAPLACE_FRAMEWORK_OK \<longrightarrow> (\<forall>i < length ss. sink_trace i l2 = map EvStage bs)"
      "\<forall>i \<ge> length ss. sink_trace i l2 = []"
      using stage_batches_logged [OF valid stage, of ?l1] by auto
    have noabort: "EvAbort \<notin> set (sink_trace i l2)" for i
      using l2(2) by (metis (no_types, lifting) imageE list.set_map sink_event.distinct(9))
    show ?thesis
    proof (cases "st2 = LAPLACE_FRAMEWORK_OK")
      case False
      let ?l = "?l1 @ l2 @ events 0 (length ss) EvAbort"
      have "staging_run B c bs (logged_sinks 0 ss) out r (w, []) = (st, rc, out', w', ?l)" "st = st2"
        using run bg bg' m1 ok1 stage l2(1) False abort_logged [OF valid order_refl, of 0 w2]
        by (auto simp: staging_run_def staging_return_def Let_def)
      moreover have "rolled_back (sink_trace i ?l)" for i
        using noabort l2(4) by (cases "i < length ss") (auto simp: rolled_back_def)
      ultimately show ?thesis
        using False l2(4) by (intro exI [of _ ?l]) auto
    next
      case ok2: True
      obtain m where m: "m \<le> length ss" "st = LAPLACE_FRAMEWORK_OK \<longrightarrow> m = length ss"
        "staging_run B c bs (logged_sinks 0 ss) out r (w, []) = (st, rc, out', w',
           (?l1 @ l2) @ events 0 m (EvSeal (sr_stream_fingerprint r))
             @ (if st = LAPLACE_FRAMEWORK_OK then [] else events 0 (length ss) EvAbort))"
        using sealing_logged [OF valid run bg [unfolded ok1 m1] bg' [unfolded ok1] stage [unfolded ok2]
            l2(1) [unfolded ok2]] by auto
      then have "rolled_back (sink_trace i ((?l1 @ l2) @ events 0 m (EvSeal (sr_stream_fingerprint r))
          @ events 0 (length ss) EvAbort))" for i
        using noabort l2(4) by (cases "i < length ss") (auto simp: rolled_back_def)
      then show ?thesis
        using m l2(3,4) ok2
        by (intro exI [of _ "(?l1 @ l2) @ events 0 m (EvSeal (sr_stream_fingerprint r))
          @ (if st = LAPLACE_FRAMEWORK_OK then [] else events 0 (length ss) EvAbort)"]) auto
    qed
  qed
qed

lemma validate_sinks_logged:
  "validate_sinks (Span (logged_sinks 0 ss)) f = validate_sinks (Span ss) f"
  by (simp add: validate_sinks_def)

lemma entry_logged:
  "staging_entry B c stream (Span (logged_sinks 0 ss)) out req = staging_entry B c stream (Span ss) out req"
  unfolding staging_entry_def span_count.simps length_logged_sinks validate_sinks_logged ..

lemma entry_Inr:
  assumes "staging_entry B c stream (Span ss) out req = Inr (r, out1)"
  obtains ctx str bs x fp type records sz where
    "c = Some ctx" "stream = Some str" "cs_batches str = Span bs" "bs \<noteq> []" "length bs \<le> SIZE_MAX"
    "laplace_framework_context_validate c = LAPLACE_FRAMEWORK_OK"
    "laplace_framework_canonical_stream_fingerprint B (Span bs) (Some x)
       = (LAPLACE_FRAMEWORK_OK, Some (fp, type, records, sz))"
    "list_all sink_is_valid ss" "ss \<noteq> []"
    "prepare_sink_artifact_output out (length ss) req = (LAPLACE_FRAMEWORK_OK, out1)"
    "r = stream_receipt_zero\<lparr>sr_failed_batch_index := LAPLACE_FRAMEWORK_NO_INDEX,
       sr_failed_sink_index := LAPLACE_FRAMEWORK_NO_INDEX, sr_sink_count := of_nat (length ss),
       sr_context_fingerprint := the (snd (laplace_framework_context_fingerprint B c (Some 0))),
       sr_batch_count := of_nat (length bs), sr_source_fingerprint := cs_source_fingerprint str,
       sr_recipe_fingerprint := cs_recipe_fingerprint str, sr_stream_fingerprint := fp,
       sr_record_type := type, sr_total_records := records, sr_total_bytes := sz\<rparr>"
proof -
  obtain st0 o0 where p: "prepare_sink_artifact_output out (length ss) req = (st0, o0)" by fastforce
  obtain st1 f1 where f: "laplace_framework_context_fingerprint B c (Some 0) = (st1, f1)" by fastforce
  have ok: "st0 = LAPLACE_FRAMEWORK_OK" "st1 = LAPLACE_FRAMEWORK_OK"
    using assms p f by (auto simp: staging_entry_def Let_def split: if_splits)
  obtain ctx where ctx: "c = Some ctx" "laplace_framework_context_validate c = LAPLACE_FRAMEWORK_OK"
    using f ok(2) by (cases c) (auto simp: laplace_framework_context_fingerprint_def
        laplace_framework_context_validate_def Let_def split: if_splits)
  obtain str where str: "stream = Some str"
    using assms p f ok by (auto simp: staging_entry_def Let_def split: if_splits)
  obtain bs where bs: "cs_batches str = Span bs" "bs \<noteq> []" "length bs \<le> SIZE_MAX"
    using assms p f ok str by (cases "cs_batches str") (auto simp: staging_entry_def Let_def split: if_splits)
  obtain st2 t2 where t: "laplace_framework_canonical_stream_fingerprint B (Span bs) (Some (0, 0, 0, 0)) = (st2, t2)"
    by fastforce
  have ok2: "st2 = LAPLACE_FRAMEWORK_OK"
    using assms p f ok str bs t
    by (auto simp: staging_entry_def Let_def stream_receipt_zero_def split: if_splits)
  then obtain fp type records sz where t2: "t2 = Some (fp, type, records, sz)"
    using t by (auto simp: laplace_framework_canonical_stream_fingerprint_def Let_def split: if_splits option.splits)
  have "validate_sinks (Span ss) (Some LAPLACE_FRAMEWORK_NO_INDEX)
      = (LAPLACE_FRAMEWORK_OK, Some LAPLACE_FRAMEWORK_NO_INDEX)" and r: "o0 = out1"
    "r = stream_receipt_zero\<lparr>sr_failed_batch_index := LAPLACE_FRAMEWORK_NO_INDEX,
       sr_failed_sink_index := LAPLACE_FRAMEWORK_NO_INDEX, sr_sink_count := of_nat (length ss),
       sr_context_fingerprint := the f1,
       sr_batch_count := of_nat (length bs), sr_source_fingerprint := cs_source_fingerprint str,
       sr_recipe_fingerprint := cs_recipe_fingerprint str, sr_stream_fingerprint := fp,
       sr_record_type := type, sr_total_records := records, sr_total_bytes := sz\<rparr>"
    using assms p f ok str bs t t2 ok2
    by (auto simp: staging_entry_def Let_def stream_receipt_zero_def validate_sinks_def
        split: if_splits option.splits)
  then have "list_all sink_is_valid ss" "ss \<noteq> []"
    by (auto simp: validate_sinks_def validate_sinks_loop_None split: if_splits option.splits)
  with that ctx str bs t t2 ok ok2 p f r show thesis by simp
qed

lemma entry_Inl: "staging_entry B c stream (Span ss) out req = Inl (st, r, out1) \<Longrightarrow> st \<noteq> LAPLACE_FRAMEWORK_OK"
  by (auto simp: staging_entry_def Let_def split: if_splits prod.splits)

text \<open>C1: staging is all or nothing towards the sinks.  Wrapping the sinks so that they also log
  their calls does not change a run.  In a run that returns OK every sink is begun once, then
  given every batch in order, then sealed once with the stream fingerprint, and never aborted.
  In any other run every sink either is not called at all or is begun and, as its last call,
  aborted exactly once.\<close>

theorem staging_all_or_nothing:
  assumes "stage_canonical_stream_impl B c stream (Span ss) out req receipt w = (st, rc, out', w')"
  shows "\<exists>l. stage_canonical_stream_impl B c stream (Span (logged_sinks 0 ss)) out req receipt (w, [])
        = (st, rc, out', w', l)
    \<and> (st = LAPLACE_FRAMEWORK_OK \<longrightarrow> (\<forall>i < length ss. sink_trace i l =
          EvBegin # map EvStage (span_items (cs_batches (the stream)))
            @ [EvSeal (sr_stream_fingerprint (the rc))]))
    \<and> (st \<noteq> LAPLACE_FRAMEWORK_OK \<longrightarrow> (\<forall>i. rolled_back (sink_trace i l)))
    \<and> (\<forall>i \<ge> length ss. sink_trace i l = [])"
proof (cases receipt)
  case None
  with assms show ?thesis
    by (auto simp: stage_canonical_stream_impl_def rolled_back_def)
next
  case (Some r0)
  show ?thesis
  proof (cases "staging_entry B c stream (Span ss) out req")
    case (Inl x)
    with assms Some show ?thesis
      by (cases x) (auto simp: stage_canonical_stream_impl_def entry_logged staging_return_def
          rolled_back_def dest: entry_Inl)
  next
    case (Inr x)
    obtain r out1 where x: "x = (r, out1)" by fastforce
    have valid: "list_all sink_is_valid ss" using Inr x by (auto elim: entry_Inr)
    have run: "staging_run B (the c) (span_items (cs_batches (the stream))) ss out1 r w = (st, rc, out', w')"
      using assms Some Inr x by (simp add: stage_canonical_stream_impl_def)
    have "sr_stream_fingerprint (the rc) = sr_stream_fingerprint r"
      using run by (auto simp: staging_run_def staging_return_def hash_stream_receipt_def Let_def
          split: if_splits prod.splits)
    with staging_run_logged [OF valid run] Some Inr x show ?thesis
      by (simp add: stage_canonical_stream_impl_def entry_logged)
  qed
qed

section \<open>Receipts and artifacts\<close>

text \<open>The caller's artifact buffer holds as many digests as its declared capacity.\<close>

definition artifact_buffer :: "laplace_framework_sink_artifact_output option \<Rightarrow> bool" where
  "artifact_buffer out \<longleftrightarrow>
     (case out of None \<Rightarrow> True | Some ao \<Rightarrow>
        (case ao_artifact_fingerprints ao of None \<Rightarrow> True
         | Some fps \<Rightarrow> length fps = unat (ao_capacity ao)))"

text \<open>A cleared output: no artifact counted, and zero in every slot a sink could have used.\<close>

definition artifacts_cleared :: "nat \<Rightarrow> laplace_framework_sink_artifact_output \<Rightarrow> bool" where
  "artifacts_cleared n ao \<longleftrightarrow> ao_count ao = 0
     \<and> (case ao_artifact_fingerprints ao of None \<Rightarrow> True
        | Some fps \<Rightarrow> list_all (\<lambda>d. d = 0) (take n fps))"

lemma capacity_le_SIZE_MAX [simp]: "unat (x :: u64) \<le> SIZE_MAX"
  using unsigned_less [of x, where 'a = nat] by (simp add: SIZE_MAX_def)

lemma clear_cleared:
  assumes "artifact_buffer (Some ao)"
  obtains ao' where "clear_sink_artifact_output (Some ao) n = Some ao'" "artifacts_cleared n ao'"
    "artifact_buffer (Some ao')" "ao_capacity ao' = ao_capacity ao"
    "ao_artifact_fingerprints ao' = None \<longleftrightarrow> ao_artifact_fingerprints ao = None"
proof (cases "ao_artifact_fingerprints ao")
  case None
  then show thesis
    by (intro that [of "ao\<lparr>ao_count := 0\<rparr>"])
       (simp_all add: clear_sink_artifact_output_def artifacts_cleared_def artifact_buffer_def)
next
  case (Some fps)
  let ?c = "if unat (ao_capacity ao) < n then unat (ao_capacity ao) else n"
  have len: "length fps = unat (ao_capacity ao)"
    using assms Some by (simp add: artifact_buffer_def)
  then have "list_all (\<lambda>d. d = 0) (take n (replicate ?c 0 @ drop ?c fps))"
    by (simp add: list_all_iff)
  with Some len show thesis
    by (intro that [of "ao\<lparr>ao_count := 0,
          ao_artifact_fingerprints := Some (replicate ?c 0 @ drop ?c fps)\<rparr>"])
       (simp_all add: clear_sink_artifact_output_def artifacts_cleared_def artifact_buffer_def)
qed

lemma prepare_cleared:
  assumes "artifact_buffer (Some ao)"
    and "prepare_sink_artifact_output (Some ao) n req = (st, out1)"
  obtains ao' where "out1 = Some ao'" "artifacts_cleared n ao'" "artifact_buffer (Some ao')"
    "st = LAPLACE_FRAMEWORK_OK \<Longrightarrow> n < 2 ^ 64 \<Longrightarrow> n \<le> unat (ao_capacity ao')
       \<and> ao_artifact_fingerprints ao' \<noteq> None"
proof -
  obtain ao' where ao': "clear_sink_artifact_output (Some ao) n = Some ao'" "artifacts_cleared n ao'"
    "artifact_buffer (Some ao')" "ao_capacity ao' = ao_capacity ao"
    "ao_artifact_fingerprints ao' = None \<longleftrightarrow> ao_artifact_fingerprints ao = None"
    using clear_cleared [OF assms(1)] by metis
  have "out1 = Some ao'" using assms(2) ao'(1) by (auto simp: prepare_sink_artifact_output_def split: if_splits)
  moreover have "n \<le> unat (ao_capacity ao') \<and> ao_artifact_fingerprints ao' \<noteq> None"
    if "st = LAPLACE_FRAMEWORK_OK" "n < 2 ^ 64"
  proof -
    have "\<not> ao_capacity ao < of_nat n" "ao_artifact_fingerprints ao \<noteq> None"
      using that(1) assms(2) by (auto simp: prepare_sink_artifact_output_def split: if_splits)
    then show ?thesis
      using that(2) ao'(4,5) by (simp add: word_less_nat_alt unat_of_nat take_bit_nat_eq_self)
  qed
  ultimately show thesis using that ao'(2,3) by blast
qed

definition store_artifacts ::
  "nat \<Rightarrow> laplace_digest256 list \<Rightarrow> laplace_framework_sink_artifact_output
     \<Rightarrow> laplace_framework_sink_artifact_output" where
  "store_artifacts k arts ao = ao\<lparr>ao_artifact_fingerprints :=
     map_option (\<lambda>fps. foldl (\<lambda>fps (i, a). fps[i := a]) fps (enumerate k arts)) (ao_artifact_fingerprints ao)\<rparr>"

lemma store_step:
  "map_option (store_artifacts (Suc k) arts) (map_option (\<lambda>ao. ao\<lparr>ao_artifact_fingerprints :=
      map_option (\<lambda>fps. fps[k := a]) (ao_artifact_fingerprints ao)\<rparr>) out)
   = map_option (store_artifacts k (a # arts)) out"
  by (cases out) (simp_all add: store_artifacts_def option.map_comp comp_def)

lemma seal_loop_OK:
  "seal_sinks_loop B n k ss fp h out f w = (LAPLACE_FRAMEWORK_OK, h', out', f', w') \<Longrightarrow>
   \<exists>arts. length arts = length ss \<and> f' = f
     \<and> h' = foldl (\<lambda>h (i, a). update_sink_artifact_hasher B h i a) h (enumerate k arts)
     \<and> out' = map_option (store_artifacts k arts) out"
proof (induction ss arbitrary: k h out w)
  case Nil
  then show ?case by (auto simp: store_artifacts_def option.map_id0 [unfolded id_def] option.map_ident)
next
  case (Cons s ss)
  obtain st1 a w1 where call: "the (sk_seal s) w fp 0 = (st1, a, w1)" by (metis prod_cases3)
  let ?h = "update_sink_artifact_hasher B h k a"
  let ?out = "map_option (\<lambda>ao. ao\<lparr>ao_artifact_fingerprints :=
      map_option (\<lambda>fps. fps[k := a]) (ao_artifact_fingerprints ao)\<rparr>) out"
  have "seal_sinks_loop B n (Suc k) ss fp ?h ?out f w1 = (LAPLACE_FRAMEWORK_OK, h', out', f', w')"
    using Cons.prems call by (auto split: if_splits)
  from Cons.IH [OF this] obtain arts where arts: "length arts = length ss" "f' = f"
    "h' = foldl (\<lambda>h (i, a). update_sink_artifact_hasher B h i a) ?h (enumerate (Suc k) arts)"
    "out' = map_option (store_artifacts (Suc k) arts) ?out" by blast
  have "map_option (store_artifacts (Suc k) arts) ?out = map_option (store_artifacts k (a # arts)) out"
    by (rule store_step)
  with arts show ?case by (intro exI [of _ "a # arts"]) auto
qed

lemma seal_loop_failed:
  "seal_sinks_loop B n k ss fp h out f w = (st, h', out', f', w') \<Longrightarrow> st \<noteq> LAPLACE_FRAMEWORK_OK \<Longrightarrow>
   \<exists>arts. out' = clear_sink_artifact_output (map_option (store_artifacts k arts) out) n"
proof (induction ss arbitrary: k h out w)
  case (Cons s ss)
  obtain st1 a w1 where call: "the (sk_seal s) w fp 0 = (st1, a, w1)" by (metis prod_cases3)
  show ?case
  proof (cases "st1 = LAPLACE_FRAMEWORK_OK")
    case False
    with Cons.prems call have "out' = clear_sink_artifact_output out n" by auto
    then show ?thesis
      by (intro exI [of _ "[]"]) (simp add: store_artifacts_def option.map_ident)
  next
    case True
    let ?out = "map_option (\<lambda>ao. ao\<lparr>ao_artifact_fingerprints :=
        map_option (\<lambda>fps. fps[k := a]) (ao_artifact_fingerprints ao)\<rparr>) out"
    have "seal_sinks_loop B n (Suc k) ss fp (update_sink_artifact_hasher B h k a) ?out f w1
        = (st, h', out', f', w')"
      using Cons.prems(1) call True by simp
    from Cons.IH [OF this Cons.prems(2)] obtain arts where
      "out' = clear_sink_artifact_output (map_option (store_artifacts (Suc k) arts) ?out) n" by blast
    moreover have "map_option (store_artifacts (Suc k) arts) ?out = map_option (store_artifacts k (a # arts)) out"
      by (rule store_step)
    ultimately show ?thesis by metis
  qed
qed simp

lemma length_store: "length (foldl (\<lambda>fps (i, a). fps[i := a]) fps xs) = length fps"
  by (induction xs arbitrary: fps) auto

lemma store_enumerate:
  "k + length arts \<le> length fps \<Longrightarrow>
   foldl (\<lambda>fps (i, a). fps[i := a]) fps (enumerate k arts)
     = take k fps @ arts @ drop (k + length arts) fps"
proof (induction arts arbitrary: k fps)
  case (Cons a arts)
  then have "foldl (\<lambda>fps (i, a). fps[i := a]) (fps[k := a]) (enumerate (Suc k) arts)
      = take (Suc k) (fps[k := a]) @ arts @ drop (Suc k + length arts) (fps[k := a])"
    by (intro Cons.IH) simp
  moreover have "take (Suc k) (fps[k := a]) = take k fps @ [a]"
    using Cons.prems by (simp add: take_Suc_conv_app_nth)
  ultimately show ?case by simp
qed simp

lemma begin_sinks_OK_index:
  "begin_sinks k ss c t n b f w = (LAPLACE_FRAMEWORK_OK, m, f', w') \<Longrightarrow> f' = f"
  by (induction ss arbitrary: k w) (auto split: prod.splits if_splits)

lemma stage_batch_OK_index:
  "stage_batch_to_sinks k ss b bi f w = (LAPLACE_FRAMEWORK_OK, f', w') \<Longrightarrow> f' = f"
  by (induction ss arbitrary: k w) (auto split: prod.splits if_splits)

lemma stage_batches_OK_index:
  "stage_batches ss bi bs f w = (LAPLACE_FRAMEWORK_OK, f', w') \<Longrightarrow> f' = f"
proof (induction bs arbitrary: bi f w)
  case (Cons b bs)
  then show ?case
    by (cases "stage_batch_to_sinks 0 ss b bi f w")
       (auto split: if_splits dest: stage_batch_OK_index)
qed simp

lemma run_OK_shape:
  assumes "staging_run B c bs ss out r w = (LAPLACE_FRAMEWORK_OK, rc, out', w')"
    and "sr_failed_batch_index r = LAPLACE_FRAMEWORK_NO_INDEX"
    and "sr_failed_sink_index r = LAPLACE_FRAMEWORK_NO_INDEX"
  shows "\<exists>arts agg. length arts = length ss
    \<and> agg = hasher_finalize B (foldl (\<lambda>h (i, a). update_sink_artifact_hasher B h i a)
         (initialize_sink_artifact_hasher B (length ss)) (enumerate 0 arts))
    \<and> rc = Some (hash_stream_receipt B (r\<lparr>sr_sink_artifacts_fingerprint := agg,
         sr_effect_disposition := LAPLACE_FRAMEWORK_EFFECT_STAGED_INERT,
         sr_status := LAPLACE_FRAMEWORK_OK\<rparr>))
    \<and> out' = map_option (\<lambda>ao. (store_artifacts 0 arts ao)\<lparr>ao_count := of_nat (length ss)\<rparr>) out"
proof -
  obtain st1 m1 f1 w1 where bg: "begin_sinks 0 ss c (sr_record_type r) (sr_total_records r)
      (sr_total_bytes r) (sr_failed_sink_index r) w = (st1, m1, f1, w1)" by (metis prod_cases4)
  obtain st2 fb fs w2 where stage: "stage_batches ss 0 bs (sr_failed_batch_index r, f1) w1
      = (st2, (fb, fs), w2)" by (metis prod_cases4 surj_pair)
  obtain st3 h out3 f3 w3 where seal: "seal_sinks_loop B (length ss) 0 ss (sr_stream_fingerprint r)
      (initialize_sink_artifact_hasher B (length ss)) out fs w2 = (st3, h, out3, f3, w3)"
    by (metis prod_cases5)
  have ok: "st1 = LAPLACE_FRAMEWORK_OK" "st2 = LAPLACE_FRAMEWORK_OK" "st3 = LAPLACE_FRAMEWORK_OK"
    using assms(1) bg stage seal
    by (auto simp: staging_run_def staging_return_def Let_def seal_sinks_def split: if_splits)
  have keep: "f1 = LAPLACE_FRAMEWORK_NO_INDEX" "fb = LAPLACE_FRAMEWORK_NO_INDEX"
    "fs = LAPLACE_FRAMEWORK_NO_INDEX"
    using begin_sinks_OK_index [OF bg [unfolded ok]] stage_batches_OK_index [OF stage [unfolded ok]]
      assms(2,3) by auto
  obtain arts where arts: "length arts = length ss" "f3 = fs"
    "h = foldl (\<lambda>h (i, a). update_sink_artifact_hasher B h i a)
       (initialize_sink_artifact_hasher B (length ss)) (enumerate 0 arts)"
    "out3 = map_option (store_artifacts 0 arts) out"
    using seal_loop_OK [OF seal [unfolded ok]] by blast
  show ?thesis
    using assms bg stage seal ok keep arts
    by (intro exI [of _ arts] exI [of _ "hasher_finalize B h"], cases r)
       (auto simp: staging_run_def staging_return_def Let_def seal_sinks_def option.map_comp comp_def)
qed

lemma staged_receipt_is_valid:
  assumes "sr_status r = LAPLACE_FRAMEWORK_OK"
    "sr_effect_disposition r = LAPLACE_FRAMEWORK_EFFECT_STAGED_INERT" "sr_reserved r = 0"
    "sr_record_type r \<noteq> 0" "sr_total_records r \<noteq> 0" "sr_total_bytes r \<noteq> 0"
    "sr_batch_count r \<noteq> 0" "sr_sink_count r \<noteq> 0"
    "sr_failed_batch_index r = LAPLACE_FRAMEWORK_NO_INDEX"
    "sr_failed_sink_index r = LAPLACE_FRAMEWORK_NO_INDEX"
  shows "stream_receipt_is_valid B (Some (hash_stream_receipt B r))"
  using assms by (simp add: stream_receipt_is_valid_def hash_stream_receipt_def receipt_chunks_def)

lemma of_nat_u64_neq_0: "0 < n \<Longrightarrow> n \<le> SIZE_MAX \<Longrightarrow> (of_nat n :: u64) \<noteq> 0"
  by (simp add: SIZE_MAX_def flip: unat_eq_0) (simp add: unat_of_nat take_bit_nat_eq_self)

lemma stream_totals_nonzero:
  assumes "laplace_framework_canonical_stream_fingerprint B (Span bs) (Some x)
      = (LAPLACE_FRAMEWORK_OK, Some (fp, type, records, sz))"
  shows "type \<noteq> 0" "records \<noteq> 0" "sz \<noteq> 0"
proof -
  have loop: "stream_loop type 0 0 bs = Some (records, sz)" and ne: "bs \<noteq> []" and t: "type \<noteq> 0"
    using assms by (auto simp: laplace_framework_canonical_stream_fingerprint_def Let_def
        split: if_splits option.splits)
  obtain b bs' where bs: "bs = b # bs'" using ne by (cases bs) auto
  show "type \<noteq> 0" by (rule t)
  show "records \<noteq> 0" "sz \<noteq> 0"
    using stream_loop_Some [OF loop] bs by (auto simp: unat_eq_0 [symmetric])
qed

lemma impl_OK_parts:
  assumes "stage_canonical_stream_impl B c stream (Span ss) out req receipt w
      = (LAPLACE_FRAMEWORK_OK, rc, out', w')"
  obtains r out1 where "staging_entry B c stream (Span ss) out req = Inr (r, out1)"
    "staging_run B (the c) (span_items (cs_batches (the stream))) ss out1 r w
       = (LAPLACE_FRAMEWORK_OK, rc, out', w')"
proof (cases receipt)
  case None
  with assms show thesis by (simp add: stage_canonical_stream_impl_def)
next
  case (Some r0)
  show thesis
  proof (cases "staging_entry B c stream (Span ss) out req")
    case (Inl x)
    with assms Some show thesis
      by (cases x) (auto simp: stage_canonical_stream_impl_def staging_return_def dest: entry_Inl)
  next
    case (Inr x)
    with assms Some that show thesis
      by (cases x) (auto simp: stage_canonical_stream_impl_def)
  qed
qed

lemma artifacts_stored:
  assumes "artifact_buffer out" "prepare_sink_artifact_output out n req = (LAPLACE_FRAMEWORK_OK, out1)"
    and "n \<le> SIZE_MAX" "length arts = n" "out1 = Some ao"
  shows "\<exists>fps. ao_artifact_fingerprints (store_artifacts 0 arts ao) = Some fps \<and> take n fps = arts"
proof -
  obtain ao0 where out: "out = Some ao0"
    using assms(2,5) by (auto simp: prepare_sink_artifact_output_def split: option.splits if_splits)
  have small: "n < 2 ^ 64" using assms(3) by (simp add: SIZE_MAX_def)
  obtain ao' where ao': "out1 = Some ao'" "artifact_buffer (Some ao')"
      "n \<le> unat (ao_capacity ao')" "ao_artifact_fingerprints ao' \<noteq> None"
    using prepare_cleared [OF assms(1) [unfolded out] assms(2) [unfolded out]] small by metis
  then obtain fps where fps: "ao_artifact_fingerprints ao = Some fps" "n \<le> length fps"
    using assms(5) by (auto simp: artifact_buffer_def)
  then show ?thesis
    using assms(4) by (simp add: store_artifacts_def store_enumerate)
qed

text \<open>Everything an OK run fixes: the entry checks, the receipt and the artifact output.\<close>

lemma staged_shape:
  assumes "stage_canonical_stream_impl B c stream (Span ss) out req receipt w
      = (LAPLACE_FRAMEWORK_OK, Some rc, out', w')"
  obtains ctx str bs x fp type records sz arts agg out1 where
    "c = Some ctx" "stream = Some str" "cs_batches str = Span bs" "bs \<noteq> []" "length bs \<le> SIZE_MAX"
    "laplace_framework_context_validate c = LAPLACE_FRAMEWORK_OK"
    "laplace_framework_canonical_stream_fingerprint B (Span bs) (Some x)
       = (LAPLACE_FRAMEWORK_OK, Some (fp, type, records, sz))"
    "ss \<noteq> []" "prepare_sink_artifact_output out (length ss) req = (LAPLACE_FRAMEWORK_OK, out1)"
    "length arts = length ss"
    "agg = hasher_finalize B (foldl (\<lambda>h (i, a). update_sink_artifact_hasher B h i a)
         (initialize_sink_artifact_hasher B (length ss)) (enumerate 0 arts))"
    "rc = hash_stream_receipt B (stream_receipt_zero\<lparr>
       sr_failed_batch_index := LAPLACE_FRAMEWORK_NO_INDEX,
       sr_failed_sink_index := LAPLACE_FRAMEWORK_NO_INDEX, sr_sink_count := of_nat (length ss),
       sr_context_fingerprint := the (snd (laplace_framework_context_fingerprint B c (Some 0))),
       sr_batch_count := of_nat (length bs), sr_source_fingerprint := cs_source_fingerprint str,
       sr_recipe_fingerprint := cs_recipe_fingerprint str, sr_stream_fingerprint := fp,
       sr_record_type := type, sr_total_records := records, sr_total_bytes := sz,
       sr_sink_artifacts_fingerprint := agg,
       sr_effect_disposition := LAPLACE_FRAMEWORK_EFFECT_STAGED_INERT,
       sr_status := LAPLACE_FRAMEWORK_OK\<rparr>)"
    "out' = map_option (\<lambda>ao. (store_artifacts 0 arts ao)\<lparr>ao_count := of_nat (length ss)\<rparr>) out1"
proof -
  obtain r out1 where entry: "staging_entry B c stream (Span ss) out req = Inr (r, out1)"
    and srun: "staging_run B (the c) (span_items (cs_batches (the stream))) ss out1 r w
       = (LAPLACE_FRAMEWORK_OK, Some rc, out', w')"
    using assms by (rule impl_OK_parts)
  from entry show thesis
  proof (rule entry_Inr)
    fix ctx str bs x fp type records sz
    assume e: "c = Some ctx" "stream = Some str" "cs_batches str = Span bs" "bs \<noteq> []"
      "length bs \<le> SIZE_MAX" "laplace_framework_context_validate c = LAPLACE_FRAMEWORK_OK"
      "laplace_framework_canonical_stream_fingerprint B (Span bs) (Some x)
         = (LAPLACE_FRAMEWORK_OK, Some (fp, type, records, sz))"
      "list_all sink_is_valid ss" "ss \<noteq> []"
      "prepare_sink_artifact_output out (length ss) req = (LAPLACE_FRAMEWORK_OK, out1)"
      and r: "r = stream_receipt_zero\<lparr>sr_failed_batch_index := LAPLACE_FRAMEWORK_NO_INDEX,
         sr_failed_sink_index := LAPLACE_FRAMEWORK_NO_INDEX, sr_sink_count := of_nat (length ss),
         sr_context_fingerprint := the (snd (laplace_framework_context_fingerprint B c (Some 0))),
         sr_batch_count := of_nat (length bs), sr_source_fingerprint := cs_source_fingerprint str,
         sr_recipe_fingerprint := cs_recipe_fingerprint str, sr_stream_fingerprint := fp,
         sr_record_type := type, sr_total_records := records, sr_total_bytes := sz\<rparr>"
    have idx: "sr_failed_batch_index r = LAPLACE_FRAMEWORK_NO_INDEX"
      "sr_failed_sink_index r = LAPLACE_FRAMEWORK_NO_INDEX"
      by (simp_all add: r)
    from run_OK_shape [OF srun idx] obtain arts where a: "length arts = length ss"
      "rc = hash_stream_receipt B (r\<lparr>sr_sink_artifacts_fingerprint :=
           hasher_finalize B (foldl (\<lambda>h (i, a). update_sink_artifact_hasher B h i a)
             (initialize_sink_artifact_hasher B (length ss)) (enumerate 0 arts)),
           sr_effect_disposition := LAPLACE_FRAMEWORK_EFFECT_STAGED_INERT,
           sr_status := LAPLACE_FRAMEWORK_OK\<rparr>)"
      "out' = map_option (\<lambda>ao. (store_artifacts 0 arts ao)\<lparr>ao_count := of_nat (length ss)\<rparr>) out1"
      by auto
    show thesis
      by (rule that [OF e(1-7,9,10) a(1) refl a(2) [unfolded r] a(3)])
  qed
qed

text \<open>C32: a stream staged with status OK leaves a receipt that the receipt check accepts for that
  context; the receipt names the stream's source and recipe, the record and byte totals of the
  batches and the number of batches and sinks, and its artifact fingerprint is the aggregate of
  the artifacts handed to the caller, one per sink in sink order.\<close>

theorem staged_receipt_accepted:
  assumes run: "stage_canonical_stream_impl B c stream (Span ss) out req receipt w
      = (LAPLACE_FRAMEWORK_OK, Some rc, out', w')"
    and size: "length ss \<le> SIZE_MAX" and buffer: "artifact_buffer out"
  shows "laplace_framework_stream_receipt_validate B c (Some rc) = LAPLACE_FRAMEWORK_OK
    \<and> sr_source_fingerprint rc = cs_source_fingerprint (the stream)
    \<and> sr_recipe_fingerprint rc = cs_recipe_fingerprint (the stream)
    \<and> unat (sr_total_records rc) = sum_list (map (unat \<circ> cb_record_count) (span_items (cs_batches (the stream))))
    \<and> unat (sr_total_bytes rc) = sum_list (map (unat \<circ> cb_byte_count) (span_items (cs_batches (the stream))))
    \<and> unat (sr_batch_count rc) = span_count (cs_batches (the stream))
    \<and> unat (sr_sink_count rc) = length ss
    \<and> (\<exists>arts. length arts = length ss
        \<and> laplace_framework_sink_artifacts_fingerprint B (Span arts) (Some 0)
            = (LAPLACE_FRAMEWORK_OK, Some (sr_sink_artifacts_fingerprint rc))
        \<and> (\<forall>ao'. out' = Some ao' \<longrightarrow> unat (ao_count ao') = length ss
             \<and> (\<exists>fps. ao_artifact_fingerprints ao' = Some fps \<and> take (length ss) fps = arts)))"
proof -
  obtain ctx str bs x fp type records sz arts agg out1 where e:
    "c = Some ctx" "stream = Some str" "cs_batches str = Span bs" "bs \<noteq> []" "length bs \<le> SIZE_MAX"
    "laplace_framework_context_validate c = LAPLACE_FRAMEWORK_OK"
    "laplace_framework_canonical_stream_fingerprint B (Span bs) (Some x)
       = (LAPLACE_FRAMEWORK_OK, Some (fp, type, records, sz))"
    "ss \<noteq> []" "prepare_sink_artifact_output out (length ss) req = (LAPLACE_FRAMEWORK_OK, out1)"
    and a: "length arts = length ss"
    "agg = hasher_finalize B (foldl (\<lambda>h (i, a). update_sink_artifact_hasher B h i a)
         (initialize_sink_artifact_hasher B (length ss)) (enumerate 0 arts))"
    and rc: "rc = hash_stream_receipt B (stream_receipt_zero\<lparr>
       sr_failed_batch_index := LAPLACE_FRAMEWORK_NO_INDEX,
       sr_failed_sink_index := LAPLACE_FRAMEWORK_NO_INDEX, sr_sink_count := of_nat (length ss),
       sr_context_fingerprint := the (snd (laplace_framework_context_fingerprint B c (Some 0))),
       sr_batch_count := of_nat (length bs), sr_source_fingerprint := cs_source_fingerprint str,
       sr_recipe_fingerprint := cs_recipe_fingerprint str, sr_stream_fingerprint := fp,
       sr_record_type := type, sr_total_records := records, sr_total_bytes := sz,
       sr_sink_artifacts_fingerprint := agg,
       sr_effect_disposition := LAPLACE_FRAMEWORK_EFFECT_STAGED_INERT,
       sr_status := LAPLACE_FRAMEWORK_OK\<rparr>)"
    and out': "out' = map_option (\<lambda>ao. (store_artifacts 0 arts ao)\<lparr>ao_count := of_nat (length ss)\<rparr>) out1"
    using run by (rule staged_shape)
  have loop: "stream_loop type 0 0 bs = Some (records, sz)"
    using e(7) by (auto simp: laplace_framework_canonical_stream_fingerprint_def Let_def
        split: if_splits option.splits)
  have valid: "stream_receipt_is_valid B (Some rc)"
    unfolding rc using stream_totals_nonzero [OF e(7)] of_nat_u64_neq_0 e(4,5,8) size
    by (intro staged_receipt_is_valid) (simp_all add: stream_receipt_zero_def)
  have ctxfp: "sr_context_fingerprint rc = the (snd (laplace_framework_context_fingerprint B c (Some 0)))"
    by (simp add: rc hash_stream_receipt_def)
  have validate: "laplace_framework_stream_receipt_validate B c (Some rc) = LAPLACE_FRAMEWORK_OK"
    using valid ctxfp e(6)
    by (simp add: laplace_framework_stream_receipt_validate_def laplace_framework_context_fingerprint_def)
  have unat: "unat (of_nat (length ss) :: u64) = length ss" "unat (of_nat (length bs) :: u64) = length bs"
    using size e(5) by (simp_all add: unat_of_nat take_bit_nat_eq_self SIZE_MAX_def)
  have fields: "sr_source_fingerprint rc = cs_source_fingerprint str"
    "sr_recipe_fingerprint rc = cs_recipe_fingerprint str" "sr_total_records rc = records"
    "sr_total_bytes rc = sz" "sr_batch_count rc = of_nat (length bs)"
    "sr_sink_count rc = of_nat (length ss)" "sr_sink_artifacts_fingerprint rc = agg"
    by (simp_all add: rc hash_stream_receipt_def)
  have agg: "laplace_framework_sink_artifacts_fingerprint B (Span arts) (Some 0)
      = (LAPLACE_FRAMEWORK_OK, Some agg)"
    using a(1,2) e(8) by (auto simp: laplace_framework_sink_artifacts_fingerprint_def)
  have "unat (ao_count ao') = length ss
      \<and> (\<exists>fps. ao_artifact_fingerprints ao' = Some fps \<and> take (length ss) fps = arts)"
    if "out' = Some ao'" for ao'
    using artifacts_stored [OF buffer e(9) size a(1)] that out' unat(1) by (cases out1) auto
  with agg a(1) show ?thesis
    using validate fields stream_loop_Some [OF loop] unat e(2,3) by auto
qed

lemma store_artifacts_fields [simp]:
  "ao_capacity (store_artifacts k arts ao) = ao_capacity ao"
  "artifact_buffer (Some (store_artifacts k arts ao)) \<longleftrightarrow> artifact_buffer (Some ao)"
  by (auto simp: store_artifacts_def artifact_buffer_def length_store split: option.splits)

lemma run_failed_clears:
  assumes "staging_run B c bs ss (Some ao) r w = (st, rc, out', w')" "st \<noteq> LAPLACE_FRAMEWORK_OK"
    and "artifact_buffer (Some ao)" "artifacts_cleared (length ss) ao"
  shows "\<exists>ao'. out' = Some ao' \<and> artifacts_cleared (length ss) ao'"
proof -
  obtain st1 m1 f1 w1 where bg: "begin_sinks 0 ss c (sr_record_type r) (sr_total_records r)
      (sr_total_bytes r) (sr_failed_sink_index r) w = (st1, m1, f1, w1)" by (metis prod_cases4)
  obtain st2 fb fs w2 where stage: "stage_batches ss 0 bs (sr_failed_batch_index r, f1) w1
      = (st2, (fb, fs), w2)" by (metis prod_cases4 surj_pair)
  obtain st3 h out3 f3 w3 where seal: "seal_sinks_loop B (length ss) 0 ss (sr_stream_fingerprint r)
      (initialize_sink_artifact_hasher B (length ss)) (Some ao) fs w2 = (st3, h, out3, f3, w3)"
    by (metis prod_cases5)
  show ?thesis
  proof (cases "st1 = LAPLACE_FRAMEWORK_OK \<and> st2 = LAPLACE_FRAMEWORK_OK")
    case False
    with assms bg stage show ?thesis
      by (auto simp: staging_run_def staging_return_def Let_def split: if_splits)
  next
    case True
    then have "st3 \<noteq> LAPLACE_FRAMEWORK_OK" "out' = out3"
      using assms(1,2) bg stage seal
      by (auto simp: staging_run_def staging_return_def Let_def seal_sinks_def split: if_splits)
    then obtain arts where "out' = clear_sink_artifact_output (Some (store_artifacts 0 arts ao)) (length ss)"
      using seal_loop_failed [OF seal] by auto
    then show ?thesis
      using clear_cleared [of "store_artifacts 0 arts ao" "length ss"] assms(3) by auto
  qed
qed

text \<open>When staging fails, whatever the reason and however far the sinks got, the caller's
  artifact output counts no artifact and every slot a sink could have filled is zero.  (A NULL
  receipt is refused before the output is looked at.)\<close>

theorem staging_failure_clears_artifacts:
  assumes run: "stage_canonical_stream_impl B c stream (Span ss) (Some ao) req (Some r0) w
      = (st, rc, out', w')" "st \<noteq> LAPLACE_FRAMEWORK_OK"
    and buffer: "artifact_buffer (Some ao)"
  shows "\<exists>ao'. out' = Some ao' \<and> artifacts_cleared (length ss) ao'"
proof -
  obtain st0 out1 where p: "prepare_sink_artifact_output (Some ao) (length ss) req = (st0, out1)"
    by fastforce
  obtain ao1 where ao1: "out1 = Some ao1" "artifacts_cleared (length ss) ao1" "artifact_buffer (Some ao1)"
    using prepare_cleared [OF buffer p] by metis
  show ?thesis
  proof (cases "staging_entry B c stream (Span ss) (Some ao) req")
    case (Inl x)
    then have "snd (snd x) = out1"
      using p by (auto simp: staging_entry_def Let_def split: if_splits prod.splits)
    with run(1) Inl ao1 show ?thesis
      by (cases x) (auto simp: stage_canonical_stream_impl_def staging_return_def)
  next
    case (Inr x)
    then have "snd x = out1"
      using p by (auto simp: staging_entry_def Let_def split: if_splits prod.splits)
    with run Inr ao1 run_failed_clears show ?thesis
      by (cases x) (fastforce simp: stage_canonical_stream_impl_def)
  qed
qed

text \<open>Two sinks over a counter world; the second refuses to seal when told so.\<close>

definition sample_sink :: "bool \<Rightarrow> nat laplace_framework_sink_v1" where
  "sample_sink ok =
     \<lparr>sk_begin = Some (\<lambda>w c t r b. (LAPLACE_FRAMEWORK_OK, w + 1)),
      sk_stage = Some (\<lambda>w b. (LAPLACE_FRAMEWORK_OK, w + 1)),
      sk_seal = Some (\<lambda>w fp a. (if ok then LAPLACE_FRAMEWORK_OK else LAPLACE_FRAMEWORK_OVERFLOW,
          sample_digest [of_nat w], w + 1)),
      sk_abort = Some (\<lambda>w. w + 1),
      sk_abi_major = 1, sk_abi_minor = 0, sk_flags = 0, sk_reserved = 0\<rparr>"

definition sample_stream :: laplace_framework_canonical_stream where
  "sample_stream =
     \<lparr>cs_batches = Span [sample_batch [1, 2] 1 0, sample_batch [3, 4, 5] 2 1],
      cs_source_fingerprint = sample_digest [1], cs_recipe_fingerprint = sample_digest [2],
      cs_flags = 0, cs_reserved = 0\<rparr>"

definition sample_output :: laplace_framework_sink_artifact_output where
  "sample_output =
     \<lparr>ao_artifact_fingerprints = Some (replicate 3 (sample_digest [5])), ao_capacity = 3,
      ao_count = 0, ao_reserved = 0\<rparr>"

definition sample_staging ::
  "bool \<Rightarrow> laplace_framework_status \<times> laplace_framework_stream_receipt option
     \<times> laplace_framework_sink_artifact_output option \<times> nat" where
  "sample_staging ok =
     stage_canonical_stream_impl sample_blake3 (Some (sample_context (sample_digest [1])))
       (Some sample_stream) (Span [sample_sink True, sample_sink ok]) (Some sample_output) True
       (Some stream_receipt_zero) 0"

lemma sample_staging_status:
  "fst (sample_staging ok) = (if ok then LAPLACE_FRAMEWORK_OK else LAPLACE_FRAMEWORK_SINK_SEAL_FAILED)"
proof -
  have ctx: "laplace_framework_context_validate (Some (sample_context (sample_digest [1]))) = LAPLACE_FRAMEWORK_OK"
    by code_simp
  have loop: "stream_loop 3 0 0 [sample_batch [1, 2] 1 0, sample_batch [3, 4, 5] 2 1] = Some (3, 5)"
    by (simp add: sample_batch_def SIZE_MAX_def LAPLACE_FRAMEWORK_KNOWN_BATCH_FLAGS_def)
  have type: "cb_record_type (sample_batch buf n i) = 3" for buf n i
    by (simp add: sample_batch_def)
  have valid: "sink_is_valid (sample_sink b)" for b
    by (simp add: sink_is_valid_def sample_sink_def LAPLACE_FRAMEWORK_SINK_ABI_MAJOR_def
        LAPLACE_FRAMEWORK_SINK_ABI_MINOR_def)
  obtain out1 where prep: "prepare_sink_artifact_output (Some sample_output) (Suc (Suc 0)) True
      = (LAPLACE_FRAMEWORK_OK, out1)"
    by (simp add: prepare_sink_artifact_output_def sample_output_def SIZE_MAX_def)
  show ?thesis
    by (simp add: sample_staging_def stage_canonical_stream_impl_def staging_entry_def Let_def prep
        laplace_framework_context_fingerprint_def ctx sample_stream_def SIZE_MAX_def
        LAPLACE_FRAMEWORK_KNOWN_STREAM_FLAGS_def laplace_framework_canonical_stream_fingerprint_def
        type loop validate_sinks_def valid staging_run_def staging_return_def seal_sinks_def
        del: stream_loop.simps)
       (simp add: sample_sink_def seal_sinks_def staging_return_def)
qed

lemma sample_output_buffer: "artifact_buffer (Some sample_output)"
  by (simp add: artifact_buffer_def sample_output_def)

theorem staging_failure_clears_artifacts_witness:
  "\<exists>ao'. fst (snd (snd (sample_staging False))) = Some ao' \<and> artifacts_cleared 2 ao'"
proof -
  obtain st rc out' w' where res: "sample_staging False = (st, rc, out', w')"
    by (metis prod_cases4)
  have "st \<noteq> LAPLACE_FRAMEWORK_OK"
    using sample_staging_status [of False] res by simp
  from staging_failure_clears_artifacts [OF res [unfolded sample_staging_def] this sample_output_buffer] res
  show ?thesis by (simp add: numeral_2_eq_2)
qed

theorem staging_all_or_nothing_witness:
  "\<exists>l. sink_trace 0 l = EvBegin # map EvStage (span_items (cs_batches sample_stream))
           @ [EvSeal (sr_stream_fingerprint (the (fst (snd (sample_staging True)))))]
     \<and> fst (stage_canonical_stream_impl sample_blake3 (Some (sample_context (sample_digest [1])))
         (Some sample_stream) (Span (logged_sinks 0 [sample_sink True, sample_sink True]))
         (Some sample_output) True (Some stream_receipt_zero) (0, [])) = LAPLACE_FRAMEWORK_OK"
proof -
  obtain st rc out' w' where res: "sample_staging True = (st, rc, out', w')"
    by (metis prod_cases4)
  have "st = LAPLACE_FRAMEWORK_OK"
    using sample_staging_status [of True] res by simp
  with staging_all_or_nothing [OF res [unfolded sample_staging_def]] res
  show ?thesis by auto
qed

theorem staged_receipt_accepted_witness:
  "\<exists>rc out' w'. sample_staging True = (LAPLACE_FRAMEWORK_OK, Some rc, out', w')
     \<and> laplace_framework_stream_receipt_validate sample_blake3
         (Some (sample_context (sample_digest [1]))) (Some rc) = LAPLACE_FRAMEWORK_OK
     \<and> unat (sr_sink_count rc) = 2"
proof -
  obtain st rc out' w' where res: "sample_staging True = (st, rc, out', w')"
    by (metis prod_cases4)
  have ok: "st = LAPLACE_FRAMEWORK_OK"
    using sample_staging_status [of True] res by simp
  obtain r out1 where "staging_run sample_blake3 (sample_context (sample_digest [1]))
      (span_items (cs_batches sample_stream)) [sample_sink True, sample_sink True] out1 r 0
      = (LAPLACE_FRAMEWORK_OK, rc, out', w')"
    using impl_OK_parts [OF res [unfolded sample_staging_def ok]] by (metis option.sel)
  then obtain rc' where rc: "rc = Some rc'"
    by (auto simp: staging_run_def staging_return_def Let_def split: prod.splits if_splits)
  have size: "length [sample_sink True, sample_sink True] \<le> SIZE_MAX"
    by (simp add: SIZE_MAX_def)
  from staged_receipt_accepted [OF res [unfolded sample_staging_def ok rc] size sample_output_buffer]
    res ok rc
  show ?thesis by (auto simp: numeral_2_eq_2)
qed

end
