(* ===== verification/Framework_Producer.thy ===== *)
theory Framework_Producer
  imports Framework_Staging
begin

text \<open>
  Running a producer into sinks (\<open>engine/src/framework.c\<close>): the producer plan, the replay
  checkpoints, cancellation and progress, the loop that pulls a batch and stages it, and the
  producer receipt.

  Producer, control and sinks are records of callbacks on one shared world.  The function of the
  source is one body with a common failure label; it is modelled phase by phase on a record of its
  locals, where \<open>Inl (status, state)\<close> is a jump to that label with the status set.
\<close>

section \<open>Data\<close>

record laplace_framework_producer_plan =
  pl_producer_fingerprint :: laplace_digest256
  pl_initial_cursor_fingerprint :: laplace_digest256
  pl_batch_count :: u64
  pl_total_records :: u64
  pl_total_bytes :: u64
  pl_record_type :: u32
  pl_flags :: u32
  pl_reserved :: u64

record laplace_framework_replay_checkpoint =
  ck_checkpoint_id :: laplace_digest256
  ck_context_fingerprint :: laplace_digest256
  ck_source_fingerprint :: laplace_digest256
  ck_recipe_fingerprint :: laplace_digest256
  ck_producer_fingerprint :: laplace_digest256
  ck_plan_fingerprint :: laplace_digest256
  ck_prefix_fingerprint :: laplace_digest256
  ck_cursor_fingerprint :: laplace_digest256
  ck_completed_batches :: u64
  ck_completed_records :: u64
  ck_completed_bytes :: u64
  ck_next_ordinal :: u64
  ck_record_type :: u32
  ck_flags :: u32
  ck_reserved :: u64

record 'w laplace_framework_producer_v1 =
  pd_prepare :: "('w \<Rightarrow> laplace_framework_context \<Rightarrow> laplace_digest256 \<Rightarrow> laplace_digest256
     \<Rightarrow> laplace_framework_producer_plan
     \<Rightarrow> laplace_framework_status \<times> laplace_framework_producer_plan \<times> 'w) option"
  pd_next :: "('w \<Rightarrow> u64 \<Rightarrow> laplace_framework_canonical_batch \<Rightarrow> laplace_digest256
     \<Rightarrow> laplace_framework_status \<times> laplace_framework_canonical_batch \<times> laplace_digest256 \<times> 'w) option"
  pd_finish :: "('w \<Rightarrow> laplace_digest256 \<Rightarrow> laplace_framework_status \<times> laplace_digest256 \<times> 'w) option"
  pd_abort :: "('w \<Rightarrow> 'w) option"
  pd_abi_major :: u16
  pd_abi_minor :: u16
  pd_flags :: u32
  pd_reserved :: u32

record 'w laplace_framework_producer_control_v1 =
  pc_replay_checkpoint :: "laplace_framework_replay_checkpoint option"
  pc_cancel_requested :: "('w \<Rightarrow> bool \<times> 'w) option"
  pc_observe_progress :: "('w \<Rightarrow> laplace_framework_replay_checkpoint \<Rightarrow> 'w) option"
  pc_abi_major :: u16
  pc_abi_minor :: u16
  pc_flags :: u32
  pc_reserved :: u32

record laplace_framework_producer_receipt =
  pr_receipt_id :: laplace_digest256
  pr_stream :: laplace_framework_stream_receipt
  pr_checkpoint :: laplace_framework_replay_checkpoint
  pr_plan_fingerprint :: laplace_digest256
  pr_completion_fingerprint :: laplace_digest256
  pr_replay_checkpoint_id :: laplace_digest256
  pr_progress_events :: u64
  pr_status :: laplace_framework_status
  pr_replay_verified :: u32
  pr_reserved :: u64

definition LAPLACE_FRAMEWORK_PRODUCER_ABI_MAJOR :: u16 where
  "LAPLACE_FRAMEWORK_PRODUCER_ABI_MAJOR = 1"
definition LAPLACE_FRAMEWORK_PRODUCER_ABI_MINOR :: u16 where
  "LAPLACE_FRAMEWORK_PRODUCER_ABI_MINOR = 0"
definition LAPLACE_FRAMEWORK_PRODUCER_CONTROL_ABI_MAJOR :: u16 where
  "LAPLACE_FRAMEWORK_PRODUCER_CONTROL_ABI_MAJOR = 1"
definition LAPLACE_FRAMEWORK_PRODUCER_CONTROL_ABI_MINOR :: u16 where
  "LAPLACE_FRAMEWORK_PRODUCER_CONTROL_ABI_MINOR = 0"
definition LAPLACE_FRAMEWORK_KNOWN_PRODUCER_FLAGS :: u32 where
  "LAPLACE_FRAMEWORK_KNOWN_PRODUCER_FLAGS = 0"
definition LAPLACE_FRAMEWORK_KNOWN_PRODUCER_CONTROL_FLAGS :: u32 where
  "LAPLACE_FRAMEWORK_KNOWN_PRODUCER_CONTROL_FLAGS = 0"
definition LAPLACE_FRAMEWORK_KNOWN_REPLAY_FLAGS :: u32 where
  "LAPLACE_FRAMEWORK_KNOWN_REPLAY_FLAGS = 0"
definition LAPLACE_FRAMEWORK_EFFECT_NONE :: u32 where
  "LAPLACE_FRAMEWORK_EFFECT_NONE = 0"

definition PRODUCER_PLAN_DOMAIN :: "byte list" where
  "PRODUCER_PLAN_DOMAIN = ascii_bytes ''laplace-framework-producer-plan-v1''"
definition PRODUCER_PREFIX_DOMAIN :: "byte list" where
  "PRODUCER_PREFIX_DOMAIN = ascii_bytes ''laplace-framework-producer-prefix-v1''"
definition PRODUCER_CHECKPOINT_DOMAIN :: "byte list" where
  "PRODUCER_CHECKPOINT_DOMAIN = ascii_bytes ''laplace-framework-producer-checkpoint-v1''"
definition PRODUCER_RECEIPT_DOMAIN :: "byte list" where
  "PRODUCER_RECEIPT_DOMAIN = ascii_bytes ''laplace-framework-producer-receipt-v1''"

section \<open>Fingerprints\<close>

definition hash_producer_plan ::
  "'h blake3_api \<Rightarrow> laplace_digest256 \<Rightarrow> laplace_digest256 \<Rightarrow> laplace_digest256
     \<Rightarrow> laplace_framework_producer_plan \<Rightarrow> laplace_digest256" where
  "hash_producer_plan B context_fingerprint source_fingerprint recipe_fingerprint plan =
     hasher_finalize B (updates B (hasher_init B)
       [PRODUCER_PLAN_DOMAIN, bytes context_fingerprint, bytes source_fingerprint,
        bytes recipe_fingerprint, bytes (pl_producer_fingerprint plan),
        bytes (pl_initial_cursor_fingerprint plan), u64_le (pl_batch_count plan),
        u64_le (pl_total_records plan), u64_le (pl_total_bytes plan),
        u32_le (pl_record_type plan), u32_le (pl_flags plan)])"

definition initialize_prefix_hasher :: "'h blake3_api \<Rightarrow> u32 \<Rightarrow> 'h" where
  "initialize_prefix_hasher B record_type =
     updates B (hasher_init B) [PRODUCER_PREFIX_DOMAIN, u32_le record_type]"

definition update_prefix_hasher ::
  "'h blake3_api \<Rightarrow> 'h \<Rightarrow> u64 \<Rightarrow> laplace_framework_canonical_batch \<Rightarrow> 'h" where
  "update_prefix_hasher B h batch_index batch =
     updates B h [u64_le batch_index, u64_le (cb_first_ordinal batch), u64_le (cb_record_count batch),
       u64_le (cb_byte_count batch), batch_bytes batch]"

definition checkpoint_chunks :: "laplace_framework_replay_checkpoint \<Rightarrow> byte list list" where
  "checkpoint_chunks ck =
     [PRODUCER_CHECKPOINT_DOMAIN, bytes (ck_context_fingerprint ck), bytes (ck_source_fingerprint ck),
      bytes (ck_recipe_fingerprint ck), bytes (ck_producer_fingerprint ck),
      bytes (ck_plan_fingerprint ck), bytes (ck_prefix_fingerprint ck), bytes (ck_cursor_fingerprint ck),
      u64_le (ck_completed_batches ck), u64_le (ck_completed_records ck),
      u64_le (ck_completed_bytes ck), u64_le (ck_next_ordinal ck), u32_le (ck_record_type ck),
      u32_le (ck_flags ck)]"

definition hash_checkpoint ::
  "'h blake3_api \<Rightarrow> laplace_framework_replay_checkpoint \<Rightarrow> laplace_framework_replay_checkpoint" where
  "hash_checkpoint B ck =
     ck\<lparr>ck_checkpoint_id := hasher_finalize B (updates B (hasher_init B) (checkpoint_chunks ck))\<rparr>"

definition set_checkpoint ::
  "'h blake3_api \<Rightarrow> laplace_digest256 \<Rightarrow> laplace_digest256 \<Rightarrow> laplace_digest256
     \<Rightarrow> laplace_framework_producer_plan \<Rightarrow> laplace_digest256 \<Rightarrow> laplace_digest256 \<Rightarrow> laplace_digest256
     \<Rightarrow> u64 \<Rightarrow> u64 \<Rightarrow> u64 \<Rightarrow> laplace_framework_replay_checkpoint" where
  "set_checkpoint B context_fingerprint source_fingerprint recipe_fingerprint plan plan_fingerprint
       prefix_fingerprint cursor_fingerprint completed_batches completed_records completed_bytes =
     hash_checkpoint B
       \<lparr>ck_checkpoint_id = 0, ck_context_fingerprint = context_fingerprint,
        ck_source_fingerprint = source_fingerprint, ck_recipe_fingerprint = recipe_fingerprint,
        ck_producer_fingerprint = pl_producer_fingerprint plan,
        ck_plan_fingerprint = plan_fingerprint, ck_prefix_fingerprint = prefix_fingerprint,
        ck_cursor_fingerprint = cursor_fingerprint, ck_completed_batches = completed_batches,
        ck_completed_records = completed_records, ck_completed_bytes = completed_bytes,
        ck_next_ordinal = completed_records, ck_record_type = pl_record_type plan,
        ck_flags = LAPLACE_FRAMEWORK_KNOWN_REPLAY_FLAGS, ck_reserved = 0\<rparr>"

definition checkpoint_checksum_is_valid ::
  "'h blake3_api \<Rightarrow> laplace_framework_replay_checkpoint option \<Rightarrow> bool" where
  "checkpoint_checksum_is_valid B checkpoint =
     (case checkpoint of
        None \<Rightarrow> False
      | Some ck \<Rightarrow>
          if ck_record_type ck = 0 \<or> ck_flags ck \<noteq> LAPLACE_FRAMEWORK_KNOWN_REPLAY_FLAGS
             \<or> ck_reserved ck \<noteq> 0 \<or> ck_next_ordinal ck \<noteq> ck_completed_records ck
          then False
          else digest_equal (ck_checkpoint_id ck) (ck_checkpoint_id (hash_checkpoint B ck)))"

definition producer_receipt_chunks :: "laplace_framework_producer_receipt \<Rightarrow> byte list list" where
  "producer_receipt_chunks r =
     [PRODUCER_RECEIPT_DOMAIN, u32_le (framework_status_code (pr_status r)),
      u32_le (pr_replay_verified r), u64_le (pr_progress_events r),
      bytes (sr_receipt_id (pr_stream r)), bytes (ck_checkpoint_id (pr_checkpoint r)),
      bytes (pr_plan_fingerprint r), bytes (pr_completion_fingerprint r),
      bytes (pr_replay_checkpoint_id r)]"

definition hash_producer_receipt ::
  "'h blake3_api \<Rightarrow> laplace_framework_producer_receipt \<Rightarrow> laplace_framework_producer_receipt" where
  "hash_producer_receipt B r =
     r\<lparr>pr_receipt_id := hasher_finalize B (updates B (hasher_init B) (producer_receipt_chunks r))\<rparr>"

section \<open>The run\<close>

definition plan_zero :: laplace_framework_producer_plan where
  "plan_zero =
     \<lparr>pl_producer_fingerprint = 0, pl_initial_cursor_fingerprint = 0, pl_batch_count = 0,
      pl_total_records = 0, pl_total_bytes = 0, pl_record_type = 0, pl_flags = 0, pl_reserved = 0\<rparr>"

definition batch_zero :: laplace_framework_canonical_batch where
  "batch_zero =
     \<lparr>cb_canonical_bytes = None, cb_byte_count = 0, cb_record_count = 0, cb_first_ordinal = 0,
      cb_record_type = 0, cb_flags = 0\<rparr>"

definition checkpoint_zero :: laplace_framework_replay_checkpoint where
  "checkpoint_zero =
     \<lparr>ck_checkpoint_id = 0, ck_context_fingerprint = 0, ck_source_fingerprint = 0,
      ck_recipe_fingerprint = 0, ck_producer_fingerprint = 0, ck_plan_fingerprint = 0,
      ck_prefix_fingerprint = 0, ck_cursor_fingerprint = 0, ck_completed_batches = 0,
      ck_completed_records = 0, ck_completed_bytes = 0, ck_next_ordinal = 0, ck_record_type = 0,
      ck_flags = 0, ck_reserved = 0\<rparr>"

definition producer_receipt_zero :: laplace_framework_producer_receipt where
  "producer_receipt_zero =
     \<lparr>pr_receipt_id = 0, pr_stream = stream_receipt_zero, pr_checkpoint = checkpoint_zero,
      pr_plan_fingerprint = 0, pr_completion_fingerprint = 0, pr_replay_checkpoint_id = 0,
      pr_progress_events = 0, pr_status = LAPLACE_FRAMEWORK_OK, pr_replay_verified = 0,
      pr_reserved = 0\<rparr>"

definition producer_is_valid :: "'w laplace_framework_producer_v1 option \<Rightarrow> bool" where
  "producer_is_valid producer =
     (case producer of
        None \<Rightarrow> False
      | Some p \<Rightarrow>
          \<not> (pd_prepare p = None \<or> pd_next p = None \<or> pd_finish p = None \<or> pd_abort p = None
             \<or> pd_abi_major p \<noteq> LAPLACE_FRAMEWORK_PRODUCER_ABI_MAJOR
             \<or> LAPLACE_FRAMEWORK_PRODUCER_ABI_MINOR < pd_abi_minor p
             \<or> pd_flags p \<noteq> LAPLACE_FRAMEWORK_KNOWN_PRODUCER_FLAGS \<or> pd_reserved p \<noteq> 0))"

definition control_is_valid :: "'w laplace_framework_producer_control_v1 option \<Rightarrow> bool" where
  "control_is_valid control =
     (case control of
        None \<Rightarrow> False
      | Some k \<Rightarrow>
          \<not> (pc_cancel_requested k = None \<or> pc_observe_progress k = None
             \<or> pc_abi_major k \<noteq> LAPLACE_FRAMEWORK_PRODUCER_CONTROL_ABI_MAJOR
             \<or> LAPLACE_FRAMEWORK_PRODUCER_CONTROL_ABI_MINOR < pc_abi_minor k
             \<or> pc_flags k \<noteq> LAPLACE_FRAMEWORK_KNOWN_PRODUCER_CONTROL_FLAGS \<or> pc_reserved k \<noteq> 0))"

text \<open>The locals of the function: the receipt, the two hashers, the running totals, the number of
  begun sinks, the replay flag and the artifact output, with the world the callbacks act on.\<close>

record ('h, 'w) producer_state =
  ps_receipt :: laplace_framework_producer_receipt
  ps_stream_hasher :: 'h
  ps_prefix_hasher :: 'h
  ps_completed_records :: u64
  ps_completed_bytes :: u64
  ps_begun :: nat
  ps_replay_verified :: bool
  ps_output :: "laplace_framework_sink_artifact_output option"
  ps_world :: 'w

text \<open>The checks before the first callback.  \<open>Inl\<close> carries the status, the receipt and the
  artifact output at the jump; \<open>Inr\<close> the receipt and the artifact output.\<close>

definition producer_entry ::
  "'h blake3_api \<Rightarrow> laplace_framework_context option \<Rightarrow> laplace_digest256 option
     \<Rightarrow> laplace_digest256 option \<Rightarrow> 'w laplace_framework_producer_v1 option
     \<Rightarrow> 'w laplace_framework_producer_control_v1 option \<Rightarrow> 'w laplace_framework_sink_v1 span
     \<Rightarrow> laplace_framework_sink_artifact_output option \<Rightarrow> bool
     \<Rightarrow> (laplace_framework_status \<times> laplace_framework_producer_receipt
           \<times> laplace_framework_sink_artifact_output option)
        + (laplace_framework_producer_receipt \<times> laplace_framework_sink_artifact_output option)" where
  "producer_entry B context source_fingerprint recipe_fingerprint producer control sinks output required =
     (let s = stream_receipt_zero\<lparr>sr_failed_batch_index := LAPLACE_FRAMEWORK_NO_INDEX,
                sr_failed_sink_index := LAPLACE_FRAMEWORK_NO_INDEX,
                sr_sink_count := of_nat (span_count sinks)\<rparr>;
          r = producer_receipt_zero\<lparr>pr_stream := s\<rparr>;
          (status, output) = prepare_sink_artifact_output output (span_count sinks) required in
      if status \<noteq> LAPLACE_FRAMEWORK_OK then Inl (status, r, output) else
      let (status, context_fingerprint) = laplace_framework_context_fingerprint B context (Some 0);
          s = s\<lparr>sr_context_fingerprint := the context_fingerprint\<rparr>;
          r = r\<lparr>pr_stream := s\<rparr> in
      if status \<noteq> LAPLACE_FRAMEWORK_OK then Inl (status, r, output) else
      if source_fingerprint = None \<or> recipe_fingerprint = None
      then Inl (LAPLACE_FRAMEWORK_PRODUCER_INVALID, r, output) else
      let s = s\<lparr>sr_source_fingerprint := the source_fingerprint,
                sr_recipe_fingerprint := the recipe_fingerprint\<rparr>;
          r = r\<lparr>pr_stream := s\<rparr> in
      if \<not> producer_is_valid producer \<or> \<not> control_is_valid control
      then Inl (LAPLACE_FRAMEWORK_PRODUCER_INVALID, r, output) else
      let (status, failed) = validate_sinks sinks (Some (sr_failed_sink_index s));
          r = r\<lparr>pr_stream := s\<lparr>sr_failed_sink_index := the failed\<rparr>\<rparr> in
      if status \<noteq> LAPLACE_FRAMEWORK_OK then Inl (status, r, output) else Inr (r, output))"

text \<open>A failed replay check, or the flag \<open>replay_verified\<close> after the check.\<close>

definition check_replay ::
  "'h blake3_api \<Rightarrow> laplace_framework_replay_checkpoint \<Rightarrow> laplace_framework_producer_plan
     \<Rightarrow> laplace_framework_producer_receipt \<Rightarrow> laplace_framework_status + bool" where
  "check_replay B replay plan r =
     (if \<not> checkpoint_checksum_is_valid B (Some replay)
         \<or> pl_batch_count plan < ck_completed_batches replay
         \<or> pl_total_records plan < ck_completed_records replay
         \<or> pl_total_bytes plan < ck_completed_bytes replay
         \<or> ck_record_type replay \<noteq> pl_record_type plan
         \<or> \<not> digest_equal (ck_context_fingerprint replay) (sr_context_fingerprint (pr_stream r))
         \<or> \<not> digest_equal (ck_source_fingerprint replay) (sr_source_fingerprint (pr_stream r))
         \<or> \<not> digest_equal (ck_recipe_fingerprint replay) (sr_recipe_fingerprint (pr_stream r))
         \<or> \<not> digest_equal (ck_producer_fingerprint replay) (pl_producer_fingerprint plan)
         \<or> \<not> digest_equal (ck_plan_fingerprint replay) (pr_plan_fingerprint r)
      then Inl LAPLACE_FRAMEWORK_REPLAY_INVALID
      else if ck_completed_batches replay = 0
      then if \<not> digest_equal (ck_checkpoint_id replay) (ck_checkpoint_id (pr_checkpoint r))
           then Inl LAPLACE_FRAMEWORK_REPLAY_MISMATCH else Inr True
      else Inr False)"

definition plan_is_invalid :: "laplace_framework_producer_plan \<Rightarrow> bool" where
  "plan_is_invalid plan \<longleftrightarrow>
     pl_batch_count plan = 0 \<or> pl_total_records plan = 0 \<or> pl_total_bytes plan = 0
     \<or> pl_record_type plan = 0 \<or> pl_flags plan \<noteq> LAPLACE_FRAMEWORK_KNOWN_PRODUCER_FLAGS
     \<or> pl_reserved plan \<noteq> 0"

text \<open>Asking the producer for its plan, the initial checkpoint and the replay check.\<close>

definition producer_planning ::
  "'h blake3_api \<Rightarrow> laplace_framework_context \<Rightarrow> 'w laplace_framework_producer_v1
     \<Rightarrow> laplace_framework_replay_checkpoint option \<Rightarrow> laplace_framework_producer_receipt
     \<Rightarrow> laplace_framework_sink_artifact_output option \<Rightarrow> 'w
     \<Rightarrow> (laplace_framework_status \<times> ('h, 'w) producer_state)
        + (laplace_framework_producer_plan \<times> ('h, 'w) producer_state)" where
  "producer_planning B context producer replay r output w =
     (let source = sr_source_fingerprint (pr_stream r); recipe = sr_recipe_fingerprint (pr_stream r);
          (status, plan, w) = the (pd_prepare producer) w context source recipe plan_zero;
          st = \<lparr>ps_receipt = r, ps_stream_hasher = hasher_init B, ps_prefix_hasher = hasher_init B,
                ps_completed_records = 0, ps_completed_bytes = 0, ps_begun = 0,
                ps_replay_verified = False, ps_output = output, ps_world = w\<rparr> in
      if status \<noteq> LAPLACE_FRAMEWORK_OK then Inl (LAPLACE_FRAMEWORK_PRODUCER_PREPARE_FAILED, st) else
      if plan_is_invalid plan then Inl (LAPLACE_FRAMEWORK_PRODUCER_INVALID, st) else
      let plan_fingerprint = hash_producer_plan B (sr_context_fingerprint (pr_stream r)) source recipe plan;
          prefix_hasher = initialize_prefix_hasher B (pl_record_type plan);
          r = r\<lparr>pr_stream := (pr_stream r)\<lparr>sr_batch_count := pl_batch_count plan,
                  sr_total_records := pl_total_records plan, sr_total_bytes := pl_total_bytes plan,
                  sr_record_type := pl_record_type plan\<rparr>,
                pr_plan_fingerprint := plan_fingerprint,
                pr_checkpoint := set_checkpoint B (sr_context_fingerprint (pr_stream r)) source recipe
                  plan plan_fingerprint (hasher_finalize B prefix_hasher)
                  (pl_initial_cursor_fingerprint plan) 0 0 0\<rparr>;
          st = st\<lparr>ps_receipt := r, ps_prefix_hasher := prefix_hasher,
                  ps_stream_hasher := initialize_stream_hasher B (pl_record_type plan)
                    (pl_total_records plan) (pl_total_bytes plan)\<rparr> in
      case replay of
        None \<Rightarrow> Inr (plan, st)
      | Some ck \<Rightarrow>
          let r = r\<lparr>pr_replay_checkpoint_id := ck_checkpoint_id ck\<rparr>;
              st = st\<lparr>ps_receipt := r\<rparr> in
          (case check_replay B ck plan r of
             Inl status \<Rightarrow> Inl (status, st)
           | Inr verified \<Rightarrow> Inr (plan, st\<lparr>ps_replay_verified := verified\<rparr>)))"

definition poll_cancel ::
  "'w laplace_framework_producer_control_v1 \<Rightarrow> ('h, 'w) producer_state \<Rightarrow> bool \<times> ('h, 'w) producer_state" where
  "poll_cancel control st =
     (case the (pc_cancel_requested control) (ps_world st) of
        (cancelled, w) \<Rightarrow> (cancelled, st\<lparr>ps_world := w\<rparr>))"

definition observe ::
  "'w laplace_framework_producer_control_v1 \<Rightarrow> ('h, 'w) producer_state \<Rightarrow> ('h, 'w) producer_state" where
  "observe control st =
     st\<lparr>ps_world := the (pc_observe_progress control) (ps_world st) (pr_checkpoint (ps_receipt st)),
        ps_receipt := (ps_receipt st)\<lparr>pr_progress_events := pr_progress_events (ps_receipt st) + 1\<rparr>\<rparr>"

text \<open>The cancellation points and the first progress event before the loop, and the start of the
  sinks.\<close>

definition producer_begin ::
  "laplace_framework_context \<Rightarrow> laplace_framework_producer_plan
     \<Rightarrow> 'w laplace_framework_producer_control_v1 \<Rightarrow> 'w laplace_framework_sink_v1 list
     \<Rightarrow> ('h, 'w) producer_state
     \<Rightarrow> (laplace_framework_status \<times> ('h, 'w) producer_state) + ('h, 'w) producer_state" where
  "producer_begin context plan control sinks st =
     (let (cancelled, st) = poll_cancel control st in
      if cancelled then Inl (LAPLACE_FRAMEWORK_PRODUCER_CANCELLED, st) else
      let (cancelled, st) = poll_cancel control (observe control st) in
      if cancelled then Inl (LAPLACE_FRAMEWORK_PRODUCER_CANCELLED, st) else
      let s = pr_stream (ps_receipt st);
          (status, begun, failed, w) =
            begin_sinks 0 sinks context (pl_record_type plan) (pl_total_records plan)
              (pl_total_bytes plan) (sr_failed_sink_index s) (ps_world st);
          st = st\<lparr>ps_world := w, ps_begun := begun,
                  ps_receipt := (ps_receipt st)\<lparr>pr_stream := s\<lparr>sr_failed_sink_index := failed\<rparr>\<rparr>\<rparr> in
      if status \<noteq> LAPLACE_FRAMEWORK_OK then Inl (status, st) else Inr st)"

definition fail_batch :: "u64 \<Rightarrow> ('h, 'w) producer_state \<Rightarrow> ('h, 'w) producer_state" where
  "fail_batch batch_index st =
     st\<lparr>ps_receipt := (ps_receipt st)\<lparr>pr_stream :=
        (pr_stream (ps_receipt st))\<lparr>sr_failed_batch_index := batch_index\<rparr>\<rparr>\<rparr>"

text \<open>The body of the loop.  First half: one batch is pulled and checked; \<open>Inr\<close> carries the
  batch, the cursor and the state with the totals advanced.\<close>

definition pull_batch ::
  "laplace_framework_producer_plan \<Rightarrow> 'w laplace_framework_producer_v1
     \<Rightarrow> 'w laplace_framework_producer_control_v1 \<Rightarrow> nat \<Rightarrow> ('h, 'w) producer_state
     \<Rightarrow> (laplace_framework_status \<times> ('h, 'w) producer_state)
        + (laplace_framework_canonical_batch \<times> laplace_digest256 \<times> ('h, 'w) producer_state)" where
  "pull_batch plan producer control batch_index st =
     (let (cancelled, st) = poll_cancel control st in
      if cancelled then Inl (LAPLACE_FRAMEWORK_PRODUCER_CANCELLED, st) else
      let (status, batch, cursor, w) =
            the (pd_next producer) (ps_world st) (of_nat batch_index) batch_zero 0;
          st = st\<lparr>ps_world := w\<rparr> in
      if status \<noteq> LAPLACE_FRAMEWORK_OK
      then Inl (LAPLACE_FRAMEWORK_PRODUCER_BATCH_FAILED, fail_batch (of_nat batch_index) st) else
      if cb_canonical_bytes batch = None \<or> cb_byte_count batch = 0 \<or> cb_record_count batch = 0
         \<or> cb_first_ordinal batch \<noteq> ps_completed_records st
         \<or> cb_record_type batch \<noteq> pl_record_type plan
         \<or> cb_flags batch \<noteq> LAPLACE_FRAMEWORK_KNOWN_BATCH_FLAGS
         \<or> SIZE_MAX < unat (cb_byte_count batch)
         \<or> UINT64_MAX - ps_completed_records st < cb_record_count batch
         \<or> UINT64_MAX - ps_completed_bytes st < cb_byte_count batch
      then Inl (LAPLACE_FRAMEWORK_PRODUCER_BATCH_FAILED, fail_batch (of_nat batch_index) st) else
      let st = st\<lparr>ps_completed_records := ps_completed_records st + cb_record_count batch,
                  ps_completed_bytes := ps_completed_bytes st + cb_byte_count batch\<rparr> in
      if pl_total_records plan < ps_completed_records st \<or> pl_total_bytes plan < ps_completed_bytes st
      then Inl (LAPLACE_FRAMEWORK_PRODUCER_BATCH_FAILED, fail_batch (of_nat batch_index) st)
      else Inr (batch, cursor, st))"

text \<open>Second half: the batch is staged into the sinks and hashed; the checkpoint is advanced and
  compared with the replayed one where they meet.\<close>

definition advance_checkpoint ::
  "'h blake3_api \<Rightarrow> laplace_framework_producer_plan \<Rightarrow> nat \<Rightarrow> laplace_framework_canonical_batch
     \<Rightarrow> laplace_digest256 \<Rightarrow> ('h, 'w) producer_state \<Rightarrow> ('h, 'w) producer_state" where
  "advance_checkpoint B plan batch_index batch cursor st =
     (let s = pr_stream (ps_receipt st);
          prefix_hasher = update_prefix_hasher B (ps_prefix_hasher st) (of_nat batch_index) batch in
      st\<lparr>ps_stream_hasher := hasher_update B (ps_stream_hasher st) (batch_bytes batch),
         ps_prefix_hasher := prefix_hasher,
         ps_receipt := (ps_receipt st)\<lparr>pr_checkpoint :=
           set_checkpoint B (sr_context_fingerprint s) (sr_source_fingerprint s)
             (sr_recipe_fingerprint s) plan (pr_plan_fingerprint (ps_receipt st))
             (hasher_finalize B prefix_hasher) cursor (of_nat batch_index + 1)
             (ps_completed_records st) (ps_completed_bytes st)\<rparr>\<rparr>)"

definition meet_replay ::
  "laplace_framework_replay_checkpoint option \<Rightarrow> nat \<Rightarrow> ('h, 'w) producer_state
     \<Rightarrow> laplace_framework_status + bool" where
  "meet_replay replay batch_index st =
     (case replay of
        None \<Rightarrow> Inr (ps_replay_verified st)
      | Some ck \<Rightarrow>
          if ck_completed_batches ck = of_nat batch_index + 1
          then if \<not> digest_equal (ck_checkpoint_id ck) (ck_checkpoint_id (pr_checkpoint (ps_receipt st)))
               then Inl LAPLACE_FRAMEWORK_REPLAY_MISMATCH else Inr True
          else Inr (ps_replay_verified st))"

definition stage_pulled ::
  "'h blake3_api \<Rightarrow> laplace_framework_producer_plan
     \<Rightarrow> 'w laplace_framework_producer_control_v1 \<Rightarrow> 'w laplace_framework_sink_v1 list \<Rightarrow> nat
     \<Rightarrow> laplace_framework_canonical_batch \<Rightarrow> laplace_digest256 \<Rightarrow> ('h, 'w) producer_state
     \<Rightarrow> (laplace_framework_status \<times> ('h, 'w) producer_state) + ('h, 'w) producer_state" where
  "stage_pulled B plan control sinks batch_index batch cursor st =
     (let s = pr_stream (ps_receipt st);
          (status, (failed_batch, failed_sink), w) =
            stage_batch_to_sinks 0 sinks batch batch_index
              (sr_failed_batch_index s, sr_failed_sink_index s) (ps_world st);
          st = st\<lparr>ps_world := w, ps_receipt := (ps_receipt st)\<lparr>pr_stream :=
                  s\<lparr>sr_failed_batch_index := failed_batch, sr_failed_sink_index := failed_sink\<rparr>\<rparr>\<rparr> in
      if status \<noteq> LAPLACE_FRAMEWORK_OK then Inl (status, st) else
      let st = advance_checkpoint B plan batch_index batch cursor st in
      case meet_replay (pc_replay_checkpoint control) batch_index st of
        Inl status \<Rightarrow> Inl (status, st)
      | Inr verified \<Rightarrow> Inr (observe control (st\<lparr>ps_replay_verified := verified\<rparr>)))"

definition producer_step ::
  "'h blake3_api \<Rightarrow> laplace_framework_producer_plan \<Rightarrow> 'w laplace_framework_producer_v1
     \<Rightarrow> 'w laplace_framework_producer_control_v1 \<Rightarrow> 'w laplace_framework_sink_v1 list \<Rightarrow> nat
     \<Rightarrow> ('h, 'w) producer_state
     \<Rightarrow> (laplace_framework_status \<times> ('h, 'w) producer_state) + ('h, 'w) producer_state" where
  "producer_step B plan producer control sinks batch_index st =
     (case pull_batch plan producer control batch_index st of
        Inl x \<Rightarrow> Inl x
      | Inr (batch, cursor, st) \<Rightarrow> stage_pulled B plan control sinks batch_index batch cursor st)"

primrec producer_loop ::
  "nat \<Rightarrow> 'h blake3_api \<Rightarrow> laplace_framework_producer_plan \<Rightarrow> 'w laplace_framework_producer_v1
     \<Rightarrow> 'w laplace_framework_producer_control_v1 \<Rightarrow> 'w laplace_framework_sink_v1 list \<Rightarrow> nat
     \<Rightarrow> ('h, 'w) producer_state
     \<Rightarrow> (laplace_framework_status \<times> ('h, 'w) producer_state) + ('h, 'w) producer_state" where
  "producer_loop 0 B plan producer control sinks batch_index st = Inr st"
| "producer_loop (Suc remaining) B plan producer control sinks batch_index st =
     (case producer_step B plan producer control sinks batch_index st of
        Inl x \<Rightarrow> Inl x
      | Inr st \<Rightarrow> producer_loop remaining B plan producer control sinks (Suc batch_index) st)"

text \<open>After the loop: the totals of the plan must be met and a replay must have been seen; then
  the producer finishes and the sinks are sealed.\<close>

definition producer_finish ::
  "'h blake3_api \<Rightarrow> laplace_framework_producer_plan \<Rightarrow> 'w laplace_framework_producer_v1
     \<Rightarrow> 'w laplace_framework_producer_control_v1 \<Rightarrow> 'w laplace_framework_sink_v1 list
     \<Rightarrow> ('h, 'w) producer_state
     \<Rightarrow> (laplace_framework_status \<times> ('h, 'w) producer_state) + ('h, 'w) producer_state" where
  "producer_finish B plan producer control sinks st =
     (if ps_completed_records st \<noteq> pl_total_records plan \<or> ps_completed_bytes st \<noteq> pl_total_bytes plan
         \<or> (pc_replay_checkpoint control \<noteq> None \<and> \<not> ps_replay_verified st)
      then Inl (LAPLACE_FRAMEWORK_PRODUCER_BATCH_FAILED, fail_batch (pl_batch_count plan) st) else
      let (cancelled, st) = poll_cancel control st in
      if cancelled then Inl (LAPLACE_FRAMEWORK_PRODUCER_CANCELLED, st) else
      let (status, completion, w) =
            the (pd_finish producer) (ps_world st) (pr_completion_fingerprint (ps_receipt st));
          st = st\<lparr>ps_world := w,
                  ps_receipt := (ps_receipt st)\<lparr>pr_completion_fingerprint := completion\<rparr>\<rparr> in
      if status \<noteq> LAPLACE_FRAMEWORK_OK then Inl (LAPLACE_FRAMEWORK_PRODUCER_FINISH_FAILED, st) else
      let s = (pr_stream (ps_receipt st))\<lparr>sr_stream_fingerprint := hasher_finalize B (ps_stream_hasher st)\<rparr>;
          (status, aggregate, output, failed, w) =
            seal_sinks B sinks (sr_stream_fingerprint s) (ps_output st) (sr_failed_sink_index s)
              (ps_world st);
          s = s\<lparr>sr_failed_sink_index := failed,
                sr_sink_artifacts_fingerprint :=
                  (case aggregate of None \<Rightarrow> sr_sink_artifacts_fingerprint s | Some d \<Rightarrow> d)\<rparr>;
          st = st\<lparr>ps_world := w, ps_output := output,
                  ps_receipt := (ps_receipt st)\<lparr>pr_stream := s\<rparr>\<rparr> in
      if status \<noteq> LAPLACE_FRAMEWORK_OK then Inl (status, st) else Inr st)"

text \<open>From the first cancellation point to the last seal.\<close>

definition producer_body ::
  "'h blake3_api \<Rightarrow> laplace_framework_context \<Rightarrow> laplace_framework_producer_plan
     \<Rightarrow> 'w laplace_framework_producer_v1 \<Rightarrow> 'w laplace_framework_producer_control_v1
     \<Rightarrow> 'w laplace_framework_sink_v1 list \<Rightarrow> ('h, 'w) producer_state
     \<Rightarrow> (laplace_framework_status \<times> ('h, 'w) producer_state) + ('h, 'w) producer_state" where
  "producer_body B context plan producer control sinks st =
     (case producer_begin context plan control sinks st of
        Inl x \<Rightarrow> Inl x
      | Inr st \<Rightarrow>
      case producer_loop (unat (pl_batch_count plan)) B plan producer control sinks 0 st of
        Inl x \<Rightarrow> Inl x
      | Inr st \<Rightarrow> producer_finish B plan producer control sinks st)"

text \<open>The two ends of the function: both hash the stream receipt and the producer receipt.\<close>

definition seal_receipt ::
  "'h blake3_api \<Rightarrow> laplace_framework_status \<Rightarrow> u32 \<Rightarrow> bool \<Rightarrow> laplace_framework_producer_receipt
     \<Rightarrow> laplace_framework_producer_receipt" where
  "seal_receipt B status effect verified r =
     hash_producer_receipt B (r\<lparr>
       pr_stream := hash_stream_receipt B
         ((pr_stream r)\<lparr>sr_effect_disposition := effect, sr_status := status\<rparr>),
       pr_replay_verified := (if verified then 1 else 0), pr_status := status\<rparr>)"

definition producer_fail ::
  "'h blake3_api \<Rightarrow> 'w laplace_framework_producer_v1 \<Rightarrow> 'w laplace_framework_sink_v1 list
     \<Rightarrow> laplace_framework_status \<Rightarrow> ('h, 'w) producer_state
     \<Rightarrow> laplace_framework_status \<times> laplace_framework_producer_receipt option
        \<times> laplace_framework_sink_artifact_output option \<times> 'w" where
  "producer_fail B producer sinks status st =
     (status,
      Some (seal_receipt B status LAPLACE_FRAMEWORK_EFFECT_NONE (ps_replay_verified st) (ps_receipt st)),
      ps_output st, the (pd_abort producer) (abort_sinks sinks (ps_begun st) (ps_world st)))"

definition run_producer_impl ::
  "'h blake3_api \<Rightarrow> laplace_framework_context option \<Rightarrow> laplace_digest256 option
     \<Rightarrow> laplace_digest256 option \<Rightarrow> 'w laplace_framework_producer_v1 option
     \<Rightarrow> 'w laplace_framework_producer_control_v1 option \<Rightarrow> 'w laplace_framework_sink_v1 span
     \<Rightarrow> laplace_framework_sink_artifact_output option \<Rightarrow> bool
     \<Rightarrow> laplace_framework_producer_receipt option \<Rightarrow> 'w
     \<Rightarrow> laplace_framework_status \<times> laplace_framework_producer_receipt option
        \<times> laplace_framework_sink_artifact_output option \<times> 'w" where
  "run_producer_impl B context source_fingerprint recipe_fingerprint producer control sinks output
       required receipt w =
     (if receipt = None then (LAPLACE_FRAMEWORK_INVALID_ARGUMENT, None, output, w) else
      case producer_entry B context source_fingerprint recipe_fingerprint producer control sinks
             output required of
        Inl (status, r, output) \<Rightarrow>
          (status, Some (seal_receipt B status LAPLACE_FRAMEWORK_EFFECT_NONE False r), output, w)
      | Inr (r, output) \<Rightarrow>
      let c = the context; p = the producer; k = the control; ss = span_items sinks in
      case producer_planning B c p (pc_replay_checkpoint k) r output w of
        Inl (status, st) \<Rightarrow> producer_fail B p ss status st
      | Inr (plan, st) \<Rightarrow>
      case producer_body B c plan p k ss st of
        Inl (status, st) \<Rightarrow> producer_fail B p ss status st
      | Inr st \<Rightarrow>
          (LAPLACE_FRAMEWORK_OK,
           Some (seal_receipt B LAPLACE_FRAMEWORK_OK LAPLACE_FRAMEWORK_EFFECT_STAGED_INERT
             (ps_replay_verified st) (ps_receipt st)),
           ps_output st, ps_world st))"

definition laplace_framework_run_producer ::
  "'h blake3_api \<Rightarrow> laplace_framework_context option \<Rightarrow> laplace_digest256 option
     \<Rightarrow> laplace_digest256 option \<Rightarrow> 'w laplace_framework_producer_v1 option
     \<Rightarrow> 'w laplace_framework_producer_control_v1 option \<Rightarrow> 'w laplace_framework_sink_v1 span
     \<Rightarrow> laplace_framework_producer_receipt option \<Rightarrow> 'w
     \<Rightarrow> laplace_framework_status \<times> laplace_framework_producer_receipt option \<times> 'w" where
  "laplace_framework_run_producer B context source recipe producer control sinks receipt w =
     (case run_producer_impl B context source recipe producer control sinks None False receipt w of
        (status, receipt', output', w') \<Rightarrow> (status, receipt', w'))"

definition laplace_framework_run_producer_with_artifacts ::
  "'h blake3_api \<Rightarrow> laplace_framework_context option \<Rightarrow> laplace_digest256 option
     \<Rightarrow> laplace_digest256 option \<Rightarrow> 'w laplace_framework_producer_v1 option
     \<Rightarrow> 'w laplace_framework_producer_control_v1 option \<Rightarrow> 'w laplace_framework_sink_v1 span
     \<Rightarrow> laplace_framework_sink_artifact_output option
     \<Rightarrow> laplace_framework_producer_receipt option \<Rightarrow> 'w
     \<Rightarrow> laplace_framework_status \<times> laplace_framework_producer_receipt option
        \<times> laplace_framework_sink_artifact_output option \<times> 'w" where
  "laplace_framework_run_producer_with_artifacts B context source recipe producer control sinks output
       receipt w =
     run_producer_impl B context source recipe producer control sinks output True receipt w"

section \<open>Observing the sinks\<close>

text \<open>Producer and control act on the world beside the log of the sinks.\<close>

definition lift_producer ::
  "'w laplace_framework_producer_v1 \<Rightarrow> ('w \<times> 'l) laplace_framework_producer_v1" where
  "lift_producer p =
     \<lparr>pd_prepare = map_option (\<lambda>f (w, l) c s r pl. case f w c s r pl of (st, pl', w') \<Rightarrow> (st, pl', w', l)) (pd_prepare p),
      pd_next = map_option (\<lambda>f (w, l) i b d. case f w i b d of (st, b', d', w') \<Rightarrow> (st, b', d', w', l)) (pd_next p),
      pd_finish = map_option (\<lambda>f (w, l) d. case f w d of (st, d', w') \<Rightarrow> (st, d', w', l)) (pd_finish p),
      pd_abort = map_option (\<lambda>f (w, l). (f w, l)) (pd_abort p),
      pd_abi_major = pd_abi_major p, pd_abi_minor = pd_abi_minor p,
      pd_flags = pd_flags p, pd_reserved = pd_reserved p\<rparr>"

definition lift_control ::
  "'w laplace_framework_producer_control_v1 \<Rightarrow> ('w \<times> 'l) laplace_framework_producer_control_v1" where
  "lift_control k =
     \<lparr>pc_replay_checkpoint = pc_replay_checkpoint k,
      pc_cancel_requested = map_option (\<lambda>f (w, l). case f w of (c, w') \<Rightarrow> (c, w', l)) (pc_cancel_requested k),
      pc_observe_progress = map_option (\<lambda>f (w, l) ck. (f w ck, l)) (pc_observe_progress k),
      pc_abi_major = pc_abi_major k, pc_abi_minor = pc_abi_minor k,
      pc_flags = pc_flags k, pc_reserved = pc_reserved k\<rparr>"

definition with_log :: "'l \<Rightarrow> ('h, 'w) producer_state \<Rightarrow> ('h, 'w \<times> 'l) producer_state" where
  "with_log l st =
     \<lparr>ps_receipt = ps_receipt st, ps_stream_hasher = ps_stream_hasher st,
      ps_prefix_hasher = ps_prefix_hasher st, ps_completed_records = ps_completed_records st,
      ps_completed_bytes = ps_completed_bytes st, ps_begun = ps_begun st,
      ps_replay_verified = ps_replay_verified st, ps_output = ps_output st,
      ps_world = (ps_world st, l)\<rparr>"

lemma with_log_simps [simp]:
  "ps_receipt (with_log l st) = ps_receipt st"
  "ps_stream_hasher (with_log l st) = ps_stream_hasher st"
  "ps_prefix_hasher (with_log l st) = ps_prefix_hasher st"
  "ps_completed_records (with_log l st) = ps_completed_records st"
  "ps_completed_bytes (with_log l st) = ps_completed_bytes st"
  "ps_begun (with_log l st) = ps_begun st"
  "ps_replay_verified (with_log l st) = ps_replay_verified st"
  "ps_output (with_log l st) = ps_output st"
  "ps_world (with_log l st) = (ps_world st, l)"
  by (simp_all add: with_log_def)

lemma with_log_update [simp]:
  "(with_log l st)\<lparr>ps_receipt := r\<rparr> = with_log l (st\<lparr>ps_receipt := r\<rparr>)"
  "(with_log l st)\<lparr>ps_stream_hasher := h\<rparr> = with_log l (st\<lparr>ps_stream_hasher := h\<rparr>)"
  "(with_log l st)\<lparr>ps_prefix_hasher := h\<rparr> = with_log l (st\<lparr>ps_prefix_hasher := h\<rparr>)"
  "(with_log l st)\<lparr>ps_completed_records := n\<rparr> = with_log l (st\<lparr>ps_completed_records := n\<rparr>)"
  "(with_log l st)\<lparr>ps_completed_bytes := n\<rparr> = with_log l (st\<lparr>ps_completed_bytes := n\<rparr>)"
  "(with_log l st)\<lparr>ps_begun := k\<rparr> = with_log l (st\<lparr>ps_begun := k\<rparr>)"
  "(with_log l st)\<lparr>ps_replay_verified := v\<rparr> = with_log l (st\<lparr>ps_replay_verified := v\<rparr>)"
  "(with_log l st)\<lparr>ps_output := out\<rparr> = with_log l (st\<lparr>ps_output := out\<rparr>)"
  "(with_log l st)\<lparr>ps_world := (w, l')\<rparr> = with_log l' (st\<lparr>ps_world := w\<rparr>)"
  by (simp_all add: with_log_def)

lemma lift_valid [simp]:
  "producer_is_valid (map_option lift_producer p) = producer_is_valid p"
  "control_is_valid (map_option lift_control k) = control_is_valid k"
  by (auto simp: producer_is_valid_def control_is_valid_def lift_producer_def lift_control_def
      split: option.splits)

lemma lift_replay [simp]: "pc_replay_checkpoint (lift_control k) = pc_replay_checkpoint k"
  by (simp add: lift_control_def)

lemma poll_lift [simp]:
  "control_is_valid (Some k) \<Longrightarrow>
   poll_cancel (lift_control k) (with_log l st) = map_prod (\<lambda>c. c) (with_log l) (poll_cancel k st)"
  by (auto simp: poll_cancel_def lift_control_def control_is_valid_def split: prod.splits)

lemma observe_lift [simp]:
  "control_is_valid (Some k) \<Longrightarrow> observe (lift_control k) (with_log l st) = with_log l (observe k st)"
  by (auto simp: observe_def lift_control_def control_is_valid_def)

lemma fail_batch_lift [simp]: "fail_batch i (with_log l st) = with_log l (fail_batch i st)"
  by (simp add: fail_batch_def)

lemma planning_lift:
  assumes "producer_is_valid (Some p)"
  shows "producer_planning B c (lift_producer p) replay r out (w, l) =
    map_sum (map_prod (\<lambda>s. s) (with_log l)) (map_prod (\<lambda>pl. pl) (with_log l))
      (producer_planning B c p replay r out w)"
proof -
  obtain f where f: "pd_prepare p = Some f" using assms by (auto simp: producer_is_valid_def)
  obtain s pl w' where call: "f w c (sr_source_fingerprint (pr_stream r)) (sr_recipe_fingerprint (pr_stream r)) plan_zero
      = (s, pl, w')" by (metis prod_cases3)
  show ?thesis
    by (auto simp: producer_planning_def Let_def lift_producer_def f call with_log_def
        split: option.splits sum.splits)
qed

text \<open>The start of the sinks: as many begin events as the state counts.\<close>

lemma begin_lift:
  assumes ss: "list_all sink_is_valid ss" and k: "control_is_valid (Some k)" and 0: "ps_begun st = 0"
  shows "producer_begin c plan (lift_control k) (logged_sinks 0 ss) (with_log [] st) =
    map_sum (map_prod (\<lambda>s. s) (\<lambda>st. with_log (events 0 (ps_begun st) EvBegin) st))
      (\<lambda>st. with_log (events 0 (ps_begun st) EvBegin) st) (producer_begin c plan k ss st)"
proof -
  obtain b1 st1 where p1: "poll_cancel k st = (b1, st1)" by fastforce
  obtain b2 st2 where p2: "poll_cancel k (observe k st1) = (b2, st2)" by fastforce
  have begun: "ps_begun st1 = 0" "ps_begun st2 = 0"
    using p1 p2 0 by (auto simp: poll_cancel_def observe_def split: prod.splits)
  obtain s m f w where bg: "begin_sinks 0 ss c (pl_record_type plan) (pl_total_records plan)
      (pl_total_bytes plan) (sr_failed_sink_index (pr_stream (ps_receipt st2))) (ps_world st2) = (s, m, f, w)"
    by (metis prod_cases4)
  from begin_logged [OF ss bg, of "[]"] p1 p2 begun bg k show ?thesis
    by (auto simp: producer_begin_def Let_def)
qed

lemma poll_frame: "poll_cancel k st = (b, st') \<Longrightarrow> \<exists>w. st' = st\<lparr>ps_world := w\<rparr>"
  by (auto simp: poll_cancel_def split: prod.splits)

text \<open>What the phases before and in the loop leave alone.\<close>

definition same_frame :: "('h, 'w) producer_state \<Rightarrow> ('h, 'w) producer_state \<Rightarrow> bool" where
  "same_frame st st' \<longleftrightarrow> ps_output st' = ps_output st
     \<and> pr_stream (ps_receipt st') = pr_stream (ps_receipt st)
     \<and> pr_plan_fingerprint (ps_receipt st') = pr_plan_fingerprint (ps_receipt st)"

definition same_progress :: "('h, 'w) producer_state \<Rightarrow> ('h, 'w) producer_state \<Rightarrow> bool" where
  "same_progress st st' \<longleftrightarrow>
     ps_stream_hasher st' = ps_stream_hasher st \<and> ps_prefix_hasher st' = ps_prefix_hasher st
     \<and> ps_completed_records st' = ps_completed_records st
     \<and> ps_completed_bytes st' = ps_completed_bytes st
     \<and> ps_replay_verified st' = ps_replay_verified st"

lemma begin_begun:
  assumes ss: "list_all sink_is_valid ss" and 0: "ps_begun st = 0"
  shows "case producer_begin c plan k ss st of
      Inl (s, st') \<Rightarrow> s \<noteq> LAPLACE_FRAMEWORK_OK \<and> ps_begun st' \<le> length ss \<and> ps_output st' = ps_output st
    | Inr st' \<Rightarrow> ps_begun st' = length ss \<and> same_frame st st' \<and> same_progress st st'"
proof -
  obtain b1 st1 where p1: "poll_cancel k st = (b1, st1)" by fastforce
  obtain b2 st2 where p2: "poll_cancel k (observe k st1) = (b2, st2)" by fastforce
  obtain w1 where st1: "st1 = st\<lparr>ps_world := w1\<rparr>" using poll_frame [OF p1] by auto
  obtain w2 where st2: "st2 = (observe k st1)\<lparr>ps_world := w2\<rparr>" using poll_frame [OF p2] by auto
  have st2_fields: "ps_begun st2 = 0" "ps_output st2 = ps_output st"
    "same_frame st st2" "same_progress st st2"
    by (simp_all add: st2 st1 observe_def 0 same_frame_def same_progress_def)
  obtain s m f w where bg: "begin_sinks 0 ss c (pl_record_type plan) (pl_total_records plan)
      (pl_total_bytes plan) (sr_failed_sink_index (pr_stream (ps_receipt st2))) (ps_world st2) = (s, m, f, w)"
    by (metis prod_cases4)
  have m: "m \<le> length ss" "s = LAPLACE_FRAMEWORK_OK \<longrightarrow> m = length ss"
    using begin_logged [OF ss bg, of "[]"] by auto
  have f: "f = sr_failed_sink_index (pr_stream (ps_receipt st2))" if "s = LAPLACE_FRAMEWORK_OK"
    using begin_sinks_OK_index [OF bg [unfolded that]] .
  show ?thesis
  proof (cases "b1 \<or> b2")
    case True
    with p1 p2 st2_fields 0 show ?thesis by (auto simp: producer_begin_def Let_def st1)
  next
    case False
    then show ?thesis
      using p1 p2 bg m f st2_fields
      by (cases "s = LAPLACE_FRAMEWORK_OK") (simp_all add: producer_begin_def Let_def same_frame_def same_progress_def)
  qed
qed

section \<open>The loop\<close>

text \<open>The state after the batches \<open>bs\<close>: they form a canonical stream so far, and the hashers have
  taken exactly them.\<close>

definition prefix_state :: "'h blake3_api \<Rightarrow> u32 \<Rightarrow> laplace_framework_canonical_batch list \<Rightarrow> 'h" where
  "prefix_state B type bs =
     foldl (\<lambda>h (i, b). update_prefix_hasher B h (of_nat i) b) (initialize_prefix_hasher B type) (enumerate 0 bs)"

definition progress ::
  "'h blake3_api \<Rightarrow> laplace_framework_producer_plan \<Rightarrow> laplace_framework_canonical_batch list
     \<Rightarrow> ('h, 'w) producer_state \<Rightarrow> bool" where
  "progress B plan bs st \<longleftrightarrow>
     stream_loop (pl_record_type plan) 0 0 bs = Some (ps_completed_records st, ps_completed_bytes st)
     \<and> ps_stream_hasher st = updates B (initialize_stream_hasher B (pl_record_type plan)
          (pl_total_records plan) (pl_total_bytes plan)) (map batch_bytes bs)
     \<and> ps_prefix_hasher st = prefix_state B (pl_record_type plan) bs"

lemma stream_loop_append:
  "stream_loop t r n (xs @ ys) = (case stream_loop t r n xs of None \<Rightarrow> None | Some (r', n') \<Rightarrow> stream_loop t r' n' ys)"
  by (induction t r n xs rule: stream_loop.induct) auto

text \<open>The checkpoint of a run after the batches \<open>bs\<close> with the producer's cursor.\<close>

definition checkpoint_after ::
  "'h blake3_api \<Rightarrow> laplace_framework_producer_receipt \<Rightarrow> laplace_framework_producer_plan
     \<Rightarrow> laplace_framework_canonical_batch list \<Rightarrow> laplace_digest256 \<Rightarrow> laplace_framework_replay_checkpoint" where
  "checkpoint_after B r plan bs cursor =
     set_checkpoint B (sr_context_fingerprint (pr_stream r)) (sr_source_fingerprint (pr_stream r))
       (sr_recipe_fingerprint (pr_stream r)) plan (pr_plan_fingerprint r)
       (hasher_finalize B (prefix_state B (pl_record_type plan) bs)) cursor (of_nat (length bs))
       (of_nat (sum_list (map (unat \<circ> cb_record_count) bs)))
       (of_nat (sum_list (map (unat \<circ> cb_byte_count) bs)))"

lemma progress_sums:
  assumes "progress B plan bs st"
  shows "of_nat (sum_list (map (unat \<circ> cb_record_count) bs)) = ps_completed_records st"
    and "of_nat (sum_list (map (unat \<circ> cb_byte_count) bs)) = ps_completed_bytes st"
proof -
  have sums: "sum_list (map (unat \<circ> cb_record_count) bs) = unat (ps_completed_records st)"
    "sum_list (map (unat \<circ> cb_byte_count) bs) = unat (ps_completed_bytes st)"
    using stream_loop_Some [of "pl_record_type plan" 0 0 bs "ps_completed_records st" "ps_completed_bytes st"] assms
    by (auto simp: progress_def)
  show "of_nat (sum_list (map (unat \<circ> cb_record_count) bs)) = ps_completed_records st"
    unfolding sums by simp
  show "of_nat (sum_list (map (unat \<circ> cb_byte_count) bs)) = ps_completed_bytes st"
    unfolding sums by simp
qed

lemma pull_lift:
  assumes "producer_is_valid (Some p)" "control_is_valid (Some k)"
  shows "pull_batch plan (lift_producer p) (lift_control k) i (with_log l st) =
    map_sum (map_prod (\<lambda>s. s) (with_log l)) (map_prod (\<lambda>b. b) (map_prod (\<lambda>c. c) (with_log l)))
      (pull_batch plan p k i st)"
proof -
  obtain f where f: "pd_next p = Some f" using assms(1) by (auto simp: producer_is_valid_def)
  obtain c st1 where p1: "poll_cancel k st = (c, st1)" by fastforce
  obtain s b d w where call: "f (ps_world st1) (of_nat i) batch_zero 0 = (s, b, d, w)"
    by (metis prod_cases4)
  have "the (pd_next (lift_producer p)) (ps_world st1, l) (of_nat i) batch_zero 0 = (s, b, d, w, l)"
    by (simp add: lift_producer_def f call)
  then show ?thesis
    using assms(2) by (simp add: pull_batch_def p1 f call Let_def)
qed

lemma pull_Inr:
  assumes "pull_batch plan p k i st = Inr (b, cursor, st')"
  shows "\<exists>w. st' = st\<lparr>ps_completed_records := ps_completed_records st + cb_record_count b,
      ps_completed_bytes := ps_completed_bytes st + cb_byte_count b, ps_world := w\<rparr>"
    and "stream_loop (pl_record_type plan) (ps_completed_records st) (ps_completed_bytes st) [b]
      = Some (ps_completed_records st', ps_completed_bytes st')"
proof -
  obtain c st1 where p1: "poll_cancel k st = (c, st1)" by fastforce
  obtain w1 where st1: "st1 = st\<lparr>ps_world := w1\<rparr>" using poll_frame [OF p1] by auto
  obtain s b' d w where call: "the (pd_next p) (ps_world st1) (of_nat i) batch_zero 0 = (s, b', d, w)"
    by (metis prod_cases4)
  have st': "b' = b" "st' = st1\<lparr>ps_world := w, ps_completed_records := ps_completed_records st1 + cb_record_count b,
      ps_completed_bytes := ps_completed_bytes st1 + cb_byte_count b\<rparr>"
    using assms by (auto simp: pull_batch_def p1 call Let_def split: if_splits)
  show "\<exists>w. st' = st\<lparr>ps_completed_records := ps_completed_records st + cb_record_count b,
      ps_completed_bytes := ps_completed_bytes st + cb_byte_count b, ps_world := w\<rparr>"
    by (intro exI [of _ w]) (simp add: st' st1)
  have "stream_loop (pl_record_type plan) (ps_completed_records st1) (ps_completed_bytes st1) [b]
      = Some (ps_completed_records st', ps_completed_bytes st')"
    using assms by (auto simp: pull_batch_def p1 call Let_def split: if_splits)
  then show "stream_loop (pl_record_type plan) (ps_completed_records st) (ps_completed_bytes st) [b]
      = Some (ps_completed_records st', ps_completed_bytes st')"
    by (simp add: st1)
qed

lemma pull_Inl:
  assumes "pull_batch plan p k i st = Inl (s, st')"
  shows "s \<noteq> LAPLACE_FRAMEWORK_OK \<and> ps_begun st' = ps_begun st \<and> ps_output st' = ps_output st"
proof -
  obtain c st1 where p1: "poll_cancel k st = (c, st1)" by fastforce
  obtain w1 where st1: "st1 = st\<lparr>ps_world := w1\<rparr>" using poll_frame [OF p1] by auto
  show ?thesis
    using assms by (auto simp: pull_batch_def p1 Let_def st1 fail_batch_def split: if_splits prod.splits)
qed

lemma meet_replay_lift [simp]: "meet_replay replay i (with_log l st) = meet_replay replay i st"
  by (simp add: meet_replay_def split: option.splits)

lemma advance_lift [simp]:
  "advance_checkpoint B plan i b cursor (with_log l st) = with_log l (advance_checkpoint B plan i b cursor st)"
  by (simp add: advance_checkpoint_def Let_def)

lemma stage_pulled_lift:
  assumes ss: "list_all sink_is_valid ss" and k: "control_is_valid (Some k)"
  shows "\<exists>m \<le> length ss. stage_pulled B plan (lift_control k) (logged_sinks 0 ss) i b cursor (with_log l st) =
    map_sum (map_prod (\<lambda>s. s) (with_log (l @ events 0 m (EvStage b)))) (with_log (l @ events 0 m (EvStage b)))
      (stage_pulled B plan k ss i b cursor st)
    \<and> (\<forall>st'. stage_pulled B plan k ss i b cursor st = Inr st' \<longrightarrow> m = length ss)"
proof -
  obtain s fb fs w where call: "stage_batch_to_sinks 0 ss b i (sr_failed_batch_index (pr_stream (ps_receipt st)),
      sr_failed_sink_index (pr_stream (ps_receipt st))) (ps_world st) = (s, (fb, fs), w)"
    by (metis prod_cases4 surj_pair)
  obtain m where m: "stage_batch_to_sinks 0 (logged_sinks 0 ss) b i (sr_failed_batch_index (pr_stream (ps_receipt st)),
      sr_failed_sink_index (pr_stream (ps_receipt st))) (ps_world st, l) = (s, (fb, fs), w, l @ events 0 m (EvStage b))"
    "m \<le> length ss" "s = LAPLACE_FRAMEWORK_OK \<longrightarrow> m = length ss"
    using stage_batch_logged [OF ss call, of l] by auto
  then show ?thesis
    using k by (intro exI [of _ m])
      (auto simp: stage_pulled_def call Let_def split: sum.splits)
qed

lemma stage_pulled_Inr:
  assumes "stage_pulled B plan k ss i b cursor st = Inr st'"
  shows "ps_begun st' = ps_begun st" "same_frame st st'"
    "ps_completed_records st' = ps_completed_records st" "ps_completed_bytes st' = ps_completed_bytes st"
    "ps_stream_hasher st' = hasher_update B (ps_stream_hasher st) (batch_bytes b)"
    "ps_prefix_hasher st' = update_prefix_hasher B (ps_prefix_hasher st) (of_nat i) b"
    "meet_replay (pc_replay_checkpoint k) i (advance_checkpoint B plan i b cursor st) = Inr (ps_replay_verified st')"
proof -
  let ?s = "pr_stream (ps_receipt st)"
  obtain s fb fs w where call: "stage_batch_to_sinks 0 ss b i (sr_failed_batch_index ?s, sr_failed_sink_index ?s)
      (ps_world st) = (s, (fb, fs), w)"
    by (metis prod_cases4 surj_pair)
  have ok: "s = LAPLACE_FRAMEWORK_OK"
    using assms by (auto simp: stage_pulled_def call Let_def split: if_splits)
  have same: "fb = sr_failed_batch_index ?s" "fs = sr_failed_sink_index ?s"
    using stage_batch_OK_index [OF call [unfolded ok]] by auto
  define st1 where "st1 = st\<lparr>ps_world := w\<rparr>"
  have st1: "st\<lparr>ps_world := w, ps_receipt := (ps_receipt st)\<lparr>pr_stream :=
      ?s\<lparr>sr_failed_batch_index := fb, sr_failed_sink_index := fs\<rparr>\<rparr>\<rparr> = st1"
    by (simp add: st1_def same)
  have "meet_replay (pc_replay_checkpoint k) i (advance_checkpoint B plan i b cursor st1)
      = meet_replay (pc_replay_checkpoint k) i (advance_checkpoint B plan i b cursor st)"
    by (simp add: meet_replay_def advance_checkpoint_def st1_def Let_def split: option.splits)
  with assms obtain v where v: "meet_replay (pc_replay_checkpoint k) i (advance_checkpoint B plan i b cursor st) = Inr v"
    "st' = observe k ((advance_checkpoint B plan i b cursor st1)\<lparr>ps_replay_verified := v\<rparr>)"
    by (auto simp: stage_pulled_def call ok Let_def st1 split: sum.splits)
  show "ps_begun st' = ps_begun st" "same_frame st st'"
    "ps_completed_records st' = ps_completed_records st" "ps_completed_bytes st' = ps_completed_bytes st"
    "ps_stream_hasher st' = hasher_update B (ps_stream_hasher st) (batch_bytes b)"
    "ps_prefix_hasher st' = update_prefix_hasher B (ps_prefix_hasher st) (of_nat i) b"
    "meet_replay (pc_replay_checkpoint k) i (advance_checkpoint B plan i b cursor st) = Inr (ps_replay_verified st')"
    using v(1) by (simp_all add: v(2) observe_def advance_checkpoint_def st1_def Let_def same_frame_def)
qed

lemma stage_pulled_Inl:
  assumes "stage_pulled B plan k ss i b cursor st = Inl (s, st')"
  shows "s \<noteq> LAPLACE_FRAMEWORK_OK \<and> ps_begun st' = ps_begun st \<and> ps_output st' = ps_output st"
  using assms
  by (auto simp: stage_pulled_def advance_checkpoint_def meet_replay_def Let_def
      split: if_splits prod.splits option.splits)

lemma prefix_state_snoc:
  "prefix_state B t (bs @ [b]) = update_prefix_hasher B (prefix_state B t bs) (of_nat (length bs)) b"
  by (simp add: prefix_state_def enumerate_append_eq)

lemma updates_snoc: "updates B h (xs @ [x]) = hasher_update B (updates B h xs) x"
  by (simp add: updates_def)

text \<open>A replayed checkpoint that the run reproduced after some of the batches.\<close>

definition reproduced ::
  "'h blake3_api \<Rightarrow> laplace_framework_producer_receipt \<Rightarrow> laplace_framework_producer_plan
     \<Rightarrow> laplace_framework_canonical_batch list \<Rightarrow> laplace_framework_replay_checkpoint \<Rightarrow> bool" where
  "reproduced B r plan bs ck \<longleftrightarrow> (\<exists>n \<le> length bs. \<exists>cursor. ck_completed_batches ck = of_nat n
     \<and> ck_checkpoint_id ck = ck_checkpoint_id (checkpoint_after B r plan (take n bs) cursor))"

lemma reproduced_append: "reproduced B r plan bs ck \<Longrightarrow> reproduced B r plan (bs @ bs') ck"
  unfolding reproduced_def by (metis diff_is_0_eq append_Nil2 le_add1 le_trans length_append take0 take_append)

lemma reproduced_frame:
  "same_frame st st' \<Longrightarrow> reproduced B (ps_receipt st') plan bs ck = reproduced B (ps_receipt st) plan bs ck"
  by (simp add: same_frame_def reproduced_def checkpoint_after_def)

definition replay_sound ::
  "'h blake3_api \<Rightarrow> laplace_framework_producer_plan \<Rightarrow> laplace_framework_replay_checkpoint option
     \<Rightarrow> laplace_framework_canonical_batch list \<Rightarrow> ('h, 'w) producer_state \<Rightarrow> bool" where
  "replay_sound B plan replay bs st \<longleftrightarrow>
     (\<forall>ck. replay = Some ck \<longrightarrow> ps_replay_verified st \<longrightarrow> reproduced B (ps_receipt st) plan bs ck)"

lemma step_progress:
  assumes ss: "list_all sink_is_valid ss" and p: "producer_is_valid (Some p)" and k: "control_is_valid (Some k)"
    and prog: "progress B plan bs st" and rep: "replay_sound B plan (pc_replay_checkpoint k) bs st"
    and step: "producer_step B plan p k ss (length bs) st = Inr st'"
  shows "\<exists>b. producer_step B plan (lift_producer p) (lift_control k) (logged_sinks 0 ss) (length bs) (with_log l st)
        = Inr (with_log (l @ events 0 (length ss) (EvStage b)) st')
    \<and> progress B plan (bs @ [b]) st' \<and> replay_sound B plan (pc_replay_checkpoint k) (bs @ [b]) st'
    \<and> ps_begun st' = ps_begun st \<and> same_frame st st'"
proof -
  obtain b cursor st1 where pull: "pull_batch plan p k (length bs) st = Inr (b, cursor, st1)"
    and stage: "stage_pulled B plan k ss (length bs) b cursor st1 = Inr st'"
    using step by (auto simp: producer_step_def split: sum.splits)
  obtain w where st1: "st1 = st\<lparr>ps_completed_records := ps_completed_records st + cb_record_count b,
      ps_completed_bytes := ps_completed_bytes st + cb_byte_count b, ps_world := w\<rparr>"
    using pull_Inr(1) [OF pull] by auto
  note st' = stage_pulled_Inr [OF stage]
  have frame: "same_frame st st'" "ps_begun st' = ps_begun st"
    using st'(1,2) by (auto simp: st1 same_frame_def)
  have prog': "progress B plan (bs @ [b]) st'"
    using prog pull_Inr(2) [OF pull] st'(3-6)
    by (simp add: progress_def stream_loop_append prefix_state_snoc updates_snoc st1)
  have "ck_checkpoint_id ck = ck_checkpoint_id (checkpoint_after B (ps_receipt st) plan (bs @ [b]) cursor)
      \<and> ck_completed_batches ck = of_nat (length (bs @ [b])) \<or> ps_replay_verified st"
    if "pc_replay_checkpoint k = Some ck" "ps_replay_verified st'" for ck
    using that st'(7) progress_sums [OF prog'] prog st'(3,4)
    by (auto simp: meet_replay_def advance_checkpoint_def Let_def st1 checkpoint_after_def progress_def
        prefix_state_snoc ac_simps split: if_splits)
  then have "replay_sound B plan (pc_replay_checkpoint k) (bs @ [b]) st'"
    using rep reproduced_append [of B "ps_receipt st" plan bs _ "[b]"]
    unfolding replay_sound_def reproduced_frame [OF frame(1)]
    by (metis le_refl reproduced_def take_all)
  moreover obtain m where "stage_pulled B plan (lift_control k) (logged_sinks 0 ss) (length bs) b cursor (with_log l st1)
      = Inr (with_log (l @ events 0 m (EvStage b)) st')" "m = length ss"
    using stage_pulled_lift [OF ss k, of B plan "length bs" b cursor l st1] stage by auto
  ultimately show ?thesis
    using prog' frame pull_lift [OF p k, of plan "length bs" l st] pull
    by (intro exI [of _ b]) (simp add: producer_step_def)
qed

lemma step_failed:
  assumes ss: "list_all sink_is_valid ss" and p: "producer_is_valid (Some p)" and k: "control_is_valid (Some k)"
    and step: "producer_step B plan p k ss i st = Inl (s, st')"
  shows "\<exists>b m. m \<le> length ss
    \<and> producer_step B plan (lift_producer p) (lift_control k) (logged_sinks 0 ss) i (with_log l st)
        = Inl (s, with_log (l @ events 0 m (EvStage b)) st')
    \<and> s \<noteq> LAPLACE_FRAMEWORK_OK \<and> ps_begun st' = ps_begun st \<and> ps_output st' = ps_output st"
proof (cases "pull_batch plan p k i st")
  case (Inl x)
  with step have x: "x = (s, st')" by (simp add: producer_step_def)
  from Inl pull_Inl [OF Inl [unfolded x]] show ?thesis
    by (intro exI [of _ "batch_zero"] exI [of _ 0]) (simp add: producer_step_def pull_lift [OF p k] x)
next
  case (Inr y)
  obtain b cursor st1 where y: "y = (b, cursor, st1)" by (cases y)
  have stage: "stage_pulled B plan k ss i b cursor st1 = Inl (s, st')"
    using step Inr y by (simp add: producer_step_def)
  obtain m where m: "m \<le> length ss" "stage_pulled B plan (lift_control k) (logged_sinks 0 ss) i b cursor (with_log l st1)
      = Inl (s, with_log (l @ events 0 m (EvStage b)) st')"
    using stage_pulled_lift [OF ss k, of B plan i b cursor l st1] stage by auto
  obtain w where st1: "st1 = st\<lparr>ps_completed_records := ps_completed_records st + cb_record_count b,
      ps_completed_bytes := ps_completed_bytes st + cb_byte_count b, ps_world := w\<rparr>"
    using pull_Inr(1) [OF Inr [unfolded y]] by auto
  show ?thesis
    using m stage_pulled_Inl [OF stage]
    by (intro exI [of _ b] exI [of _ m]) (simp add: producer_step_def pull_lift [OF p k] Inr y st1)
qed

lemma loop_progress:
  assumes ss: "list_all sink_is_valid ss" and p: "producer_is_valid (Some p)" and k: "control_is_valid (Some k)"
  shows "progress B plan bs st \<Longrightarrow> replay_sound B plan (pc_replay_checkpoint k) bs st \<Longrightarrow>
    producer_loop n B plan p k ss (length bs) st = Inr st' \<Longrightarrow>
    \<exists>bs' l'. length bs' = n
      \<and> producer_loop n B plan (lift_producer p) (lift_control k) (logged_sinks 0 ss) (length bs) (with_log l st)
          = Inr (with_log (l @ l') st')
      \<and> progress B plan (bs @ bs') st' \<and> replay_sound B plan (pc_replay_checkpoint k) (bs @ bs') st'
      \<and> ps_begun st' = ps_begun st \<and> same_frame st st'
      \<and> (\<forall>i. sink_trace i l' = (if i < length ss then map EvStage bs' else []))"
proof (induction n arbitrary: bs st l)
  case 0
  then show ?case by (intro exI [of _ "[]"]) (auto simp: same_frame_def)
next
  case (Suc n)
  obtain st1 where step: "producer_step B plan p k ss (length bs) st = Inr st1"
    and rest: "producer_loop n B plan p k ss (Suc (length bs)) st1 = Inr st'"
    using Suc.prems(3) by (auto split: sum.splits)
  obtain b where b: "producer_step B plan (lift_producer p) (lift_control k) (logged_sinks 0 ss) (length bs) (with_log l st)
        = Inr (with_log (l @ events 0 (length ss) (EvStage b)) st1)"
    "progress B plan (bs @ [b]) st1" "replay_sound B plan (pc_replay_checkpoint k) (bs @ [b]) st1"
    "ps_begun st1 = ps_begun st" "same_frame st st1"
    using step_progress [OF ss p k Suc.prems(1,2) step, of l] by auto
  obtain bs' l' where IH: "length bs' = n"
    "producer_loop n B plan (lift_producer p) (lift_control k) (logged_sinks 0 ss) (Suc (length bs))
       (with_log (l @ events 0 (length ss) (EvStage b)) st1)
      = Inr (with_log ((l @ events 0 (length ss) (EvStage b)) @ l') st')"
    "progress B plan ((bs @ [b]) @ bs') st'" "replay_sound B plan (pc_replay_checkpoint k) ((bs @ [b]) @ bs') st'"
    "ps_begun st' = ps_begun st1" "same_frame st1 st'"
    "\<forall>i. sink_trace i l' = (if i < length ss then map EvStage bs' else [])"
    using Suc.IH [OF b(2,3), of "l @ events 0 (length ss) (EvStage b)"] rest by auto
  show ?case
    using b IH
    by (intro exI [of _ "b # bs'"] exI [of _ "events 0 (length ss) (EvStage b) @ l'"])
       (auto simp: same_frame_def)
qed

lemma loop_failed:
  assumes ss: "list_all sink_is_valid ss" and p: "producer_is_valid (Some p)" and k: "control_is_valid (Some k)"
  shows "progress B plan bs st \<Longrightarrow> replay_sound B plan (pc_replay_checkpoint k) bs st \<Longrightarrow>
    producer_loop n B plan p k ss (length bs) st = Inl (s, st') \<Longrightarrow>
    \<exists>l'. producer_loop n B plan (lift_producer p) (lift_control k) (logged_sinks 0 ss) (length bs) (with_log l st)
          = Inl (s, with_log (l @ l') st')
      \<and> s \<noteq> LAPLACE_FRAMEWORK_OK \<and> ps_begun st' = ps_begun st \<and> ps_output st' = ps_output st
      \<and> (\<forall>i. EvAbort \<notin> set (sink_trace i l')) \<and> (\<forall>i \<ge> length ss. sink_trace i l' = [])"
proof (induction n arbitrary: bs st l)
  case (Suc n)
  show ?case
  proof (cases "producer_step B plan p k ss (length bs) st")
    case (Inl x)
    with Suc.prems(3) have x: "x = (s, st')" by simp
    from step_failed [OF ss p k Inl [unfolded x], of l] show ?thesis by auto
  next
    case (Inr st1)
    obtain b where b: "producer_step B plan (lift_producer p) (lift_control k) (logged_sinks 0 ss) (length bs) (with_log l st)
          = Inr (with_log (l @ events 0 (length ss) (EvStage b)) st1)"
      "progress B plan (bs @ [b]) st1" "replay_sound B plan (pc_replay_checkpoint k) (bs @ [b]) st1"
      "ps_begun st1 = ps_begun st" "same_frame st st1"
      using step_progress [OF ss p k Suc.prems(1,2) Inr, of l] by auto
    obtain l' where IH: "producer_loop n B plan (lift_producer p) (lift_control k) (logged_sinks 0 ss) (Suc (length bs))
        (with_log (l @ events 0 (length ss) (EvStage b)) st1)
        = Inl (s, with_log ((l @ events 0 (length ss) (EvStage b)) @ l') st')"
      "s \<noteq> LAPLACE_FRAMEWORK_OK" "ps_begun st' = ps_begun st1" "ps_output st' = ps_output st1"
      "\<forall>i. EvAbort \<notin> set (sink_trace i l')" "\<forall>i \<ge> length ss. sink_trace i l' = []"
      using Suc.IH [OF b(2,3), of "l @ events 0 (length ss) (EvStage b)"] Suc.prems(3) Inr by auto
    show ?thesis
      using b IH by (intro exI [of _ "events 0 (length ss) (EvStage b) @ l'"]) (auto simp: same_frame_def)
  qed
qed simp

section \<open>The end of the run\<close>

lemma finish_lift:
  assumes ss: "list_all sink_is_valid ss" and p: "producer_is_valid (Some p)" and k: "control_is_valid (Some k)"
  shows "\<exists>m \<le> length ss. producer_finish B plan (lift_producer p) (lift_control k) (logged_sinks 0 ss) (with_log l st) =
    map_sum (map_prod (\<lambda>s. s) (with_log (l @ events 0 m (EvSeal (hasher_finalize B (ps_stream_hasher st))))))
      (with_log (l @ events 0 m (EvSeal (hasher_finalize B (ps_stream_hasher st)))))
      (producer_finish B plan p k ss st)
    \<and> (\<forall>st'. producer_finish B plan p k ss st = Inr st' \<longrightarrow> m = length ss)"
proof -
  obtain f where f: "pd_finish p = Some f" using p by (auto simp: producer_is_valid_def)
  obtain c st1 where p1: "poll_cancel k st = (c, st1)" by fastforce
  obtain w1 where st1: "st1 = st\<lparr>ps_world := w1\<rparr>" using poll_frame [OF p1] by auto
  obtain s d w where call: "f (ps_world st1) (pr_completion_fingerprint (ps_receipt st1)) = (s, d, w)"
    by (metis prod_cases3)
  have call': "the (pd_finish (lift_producer p)) (ps_world st1, l) (pr_completion_fingerprint (ps_receipt st1)) = (s, d, w, l)"
    by (simp add: lift_producer_def f call)
  let ?fp = "hasher_finalize B (ps_stream_hasher st)"
  obtain s2 h out fl w2 where seal: "seal_sinks_loop B (length ss) 0 ss ?fp
      (initialize_sink_artifact_hasher B (length ss)) (ps_output st1)
      (sr_failed_sink_index (pr_stream (ps_receipt st1))) w = (s2, h, out, fl, w2)"
    by (metis prod_cases5)
  obtain m where m: "seal_sinks_loop B (length ss) 0 (logged_sinks 0 ss) ?fp
      (initialize_sink_artifact_hasher B (length ss)) (ps_output st1)
      (sr_failed_sink_index (pr_stream (ps_receipt st1))) (w, l) = (s2, h, out, fl, w2, l @ events 0 m (EvSeal ?fp))"
    "m \<le> length ss" "s2 = LAPLACE_FRAMEWORK_OK \<longrightarrow> m = length ss"
    using seal_loop_logged [OF ss seal, of l] by auto
  have hash: "ps_stream_hasher st1 = ps_stream_hasher st" by (simp add: st1)
  show ?thesis
  proof (cases "(ps_completed_records st \<noteq> pl_total_records plan \<or> ps_completed_bytes st \<noteq> pl_total_bytes plan
         \<or> (pc_replay_checkpoint k \<noteq> None \<and> \<not> ps_replay_verified st)) \<or> c \<or> s \<noteq> LAPLACE_FRAMEWORK_OK")
    case True
    then show ?thesis
      using k by (intro exI [of _ 0]) (auto simp: producer_finish_def p1 f call call' Let_def)
  next
    case False
    then show ?thesis
      using m k seal
      by (intro exI [of _ m])
         (auto simp: producer_finish_def p1 f call call' Let_def seal_sinks_def hash)
  qed
qed

lemma finish_Inr:
  assumes "producer_finish B plan p k ss st = Inr st'"
  shows "ps_completed_records st = pl_total_records plan" "ps_completed_bytes st = pl_total_bytes plan"
    "pc_replay_checkpoint k \<noteq> None \<longrightarrow> ps_replay_verified st" "ps_replay_verified st' = ps_replay_verified st"
    "\<exists>agg. pr_stream (ps_receipt st') = (pr_stream (ps_receipt st))\<lparr>
       sr_stream_fingerprint := hasher_finalize B (ps_stream_hasher st), sr_sink_artifacts_fingerprint := agg\<rparr>"
    "pr_plan_fingerprint (ps_receipt st') = pr_plan_fingerprint (ps_receipt st)"
proof -
  obtain c st1 where p1: "poll_cancel k st = (c, st1)" by fastforce
  obtain w1 where st1: "st1 = st\<lparr>ps_world := w1\<rparr>" using poll_frame [OF p1] by auto
  obtain s d w where call: "the (pd_finish p) (ps_world st1) (pr_completion_fingerprint (ps_receipt st1)) = (s, d, w)"
    by (metis prod_cases3)
  show "ps_completed_records st = pl_total_records plan" "ps_completed_bytes st = pl_total_bytes plan"
    "pc_replay_checkpoint k \<noteq> None \<longrightarrow> ps_replay_verified st"
    using assms by (auto simp: producer_finish_def split: if_splits)
  note totals = this
  let ?fp = "hasher_finalize B (ps_stream_hasher st)"
  obtain s2 h out fl w2 where seal: "seal_sinks_loop B (length ss) 0 ss ?fp
      (initialize_sink_artifact_hasher B (length ss)) (ps_output st1)
      (sr_failed_sink_index (pr_stream (ps_receipt st1))) w = (s2, h, out, fl, w2)"
    by (metis prod_cases5)
  have hash: "ps_stream_hasher st1 = ps_stream_hasher st" by (simp add: st1)
  have ok: "\<not> c" "s = LAPLACE_FRAMEWORK_OK" "s2 = LAPLACE_FRAMEWORK_OK"
    using assms totals by (auto simp: producer_finish_def p1 call Let_def seal_sinks_def hash seal split: if_splits)
  have fl: "fl = sr_failed_sink_index (pr_stream (ps_receipt st1))"
    using seal_loop_OK [OF seal [unfolded ok]] by auto
  have st': "st' = st1\<lparr>ps_world := w2, ps_output := map_option (\<lambda>ao. ao\<lparr>ao_count := of_nat (length ss)\<rparr>) out,
      ps_receipt := (ps_receipt st1)\<lparr>pr_completion_fingerprint := d,
        pr_stream := (pr_stream (ps_receipt st1))\<lparr>sr_stream_fingerprint := ?fp,
          sr_failed_sink_index := fl, sr_sink_artifacts_fingerprint := hasher_finalize B h\<rparr>\<rparr>\<rparr>"
    using assms totals ok by (auto simp: producer_finish_def p1 call Let_def seal_sinks_def hash seal)
  show "ps_replay_verified st' = ps_replay_verified st"
    "pr_plan_fingerprint (ps_receipt st') = pr_plan_fingerprint (ps_receipt st)"
    by (simp_all add: st' st1)
  show "\<exists>agg. pr_stream (ps_receipt st') = (pr_stream (ps_receipt st))\<lparr>
       sr_stream_fingerprint := hasher_finalize B (ps_stream_hasher st), sr_sink_artifacts_fingerprint := agg\<rparr>"
    by (intro exI [of _ "hasher_finalize B h"]) (simp add: st' st1 fl)
qed

lemma finish_Inl:
  assumes "producer_finish B plan p k ss st = Inl (s, st')"
  shows "s \<noteq> LAPLACE_FRAMEWORK_OK \<and> ps_begun st' = ps_begun st"
proof -
  obtain c st1 where p1: "poll_cancel k st = (c, st1)" by fastforce
  obtain w1 where st1: "st1 = st\<lparr>ps_world := w1\<rparr>" using poll_frame [OF p1] by auto
  show ?thesis
    using assms by (auto simp: producer_finish_def p1 Let_def st1 fail_batch_def split: if_splits prod.splits)
qed

lemma planning_Inr:
  assumes "producer_planning B c p replay r out w = Inr (plan, st)"
  shows "progress B plan [] st" "replay_sound B plan replay [] st" "ps_begun st = 0" "ps_output st = out"
    "pr_stream (ps_receipt st) = (pr_stream r)\<lparr>sr_batch_count := pl_batch_count plan,
        sr_total_records := pl_total_records plan, sr_total_bytes := pl_total_bytes plan,
        sr_record_type := pl_record_type plan\<rparr>"
    "\<not> plan_is_invalid plan"
    "pr_plan_fingerprint (ps_receipt st) = hash_producer_plan B (sr_context_fingerprint (pr_stream r))
       (sr_source_fingerprint (pr_stream r)) (sr_recipe_fingerprint (pr_stream r)) plan"
proof -
  obtain s pl w' where call: "the (pd_prepare p) w c (sr_source_fingerprint (pr_stream r))
      (sr_recipe_fingerprint (pr_stream r)) plan_zero = (s, pl, w')" by (metis prod_cases3)
  have pl: "pl = plan" "\<not> plan_is_invalid plan" "s = LAPLACE_FRAMEWORK_OK"
    using assms by (auto simp: producer_planning_def call Let_def split: if_splits option.splits sum.splits)
  show "\<not> plan_is_invalid plan" by (fact pl)
  show "progress B plan [] st" "ps_begun st = 0" "ps_output st = out"
    "pr_stream (ps_receipt st) = (pr_stream r)\<lparr>sr_batch_count := pl_batch_count plan,
        sr_total_records := pl_total_records plan, sr_total_bytes := pl_total_bytes plan,
        sr_record_type := pl_record_type plan\<rparr>"
    "pr_plan_fingerprint (ps_receipt st) = hash_producer_plan B (sr_context_fingerprint (pr_stream r))
       (sr_source_fingerprint (pr_stream r)) (sr_recipe_fingerprint (pr_stream r)) plan"
    using assms pl
    by (auto simp: producer_planning_def call Let_def progress_def prefix_state_def updates_def
        split: option.splits sum.splits)
  show "replay_sound B plan replay [] st"
    using assms pl
    by (auto simp: producer_planning_def call Let_def replay_sound_def reproduced_def check_replay_def
        checkpoint_after_def prefix_state_def split: option.splits sum.splits if_splits)
qed

lemma planning_Inl:
  "producer_planning B c p replay r out w = Inl (s, st) \<Longrightarrow> s \<noteq> LAPLACE_FRAMEWORK_OK \<and> ps_begun st = 0"
  by (auto simp: producer_planning_def Let_def check_replay_def split: prod.splits if_splits option.splits sum.splits)

lemma producer_entry_Inr:
  assumes "producer_entry B c src rcp p k (Span ss) out req = Inr (r, out1)"
  shows "laplace_framework_context_validate c = LAPLACE_FRAMEWORK_OK" "src \<noteq> None" "rcp \<noteq> None"
    "producer_is_valid p" "control_is_valid k" "list_all sink_is_valid ss" "ss \<noteq> []"
    "prepare_sink_artifact_output out (length ss) req = (LAPLACE_FRAMEWORK_OK, out1)"
    "pr_stream r = stream_receipt_zero\<lparr>sr_failed_batch_index := LAPLACE_FRAMEWORK_NO_INDEX,
       sr_failed_sink_index := LAPLACE_FRAMEWORK_NO_INDEX, sr_sink_count := of_nat (length ss),
       sr_context_fingerprint := hasher_finalize B (updates B (hasher_init B) (context_chunks (the c))),
       sr_source_fingerprint := the src, sr_recipe_fingerprint := the rcp\<rparr>"
proof -
  obtain st0 o1 where prep: "prepare_sink_artifact_output out (length ss) req = (st0, o1)" by fastforce
  show "laplace_framework_context_validate c = LAPLACE_FRAMEWORK_OK" "src \<noteq> None" "rcp \<noteq> None"
    "producer_is_valid p" "control_is_valid k" "list_all sink_is_valid ss" "ss \<noteq> []"
    "prepare_sink_artifact_output out (length ss) req = (LAPLACE_FRAMEWORK_OK, out1)"
    "pr_stream r = stream_receipt_zero\<lparr>sr_failed_batch_index := LAPLACE_FRAMEWORK_NO_INDEX,
       sr_failed_sink_index := LAPLACE_FRAMEWORK_NO_INDEX, sr_sink_count := of_nat (length ss),
       sr_context_fingerprint := hasher_finalize B (updates B (hasher_init B) (context_chunks (the c))),
       sr_source_fingerprint := the src, sr_recipe_fingerprint := the rcp\<rparr>"
    using assms
    by (auto simp: producer_entry_def prep Let_def laplace_framework_context_fingerprint_def
        validate_sinks_def validate_sinks_loop_None stream_receipt_zero_def split: if_splits option.splits)
qed

lemma producer_entry_Inl:
  "producer_entry B c src rcp p k (Span ss) out req = Inl (s, r, out1) \<Longrightarrow> s \<noteq> LAPLACE_FRAMEWORK_OK"
  by (auto simp: producer_entry_def Let_def split: if_splits prod.splits)

lemma producer_entry_lift:
  "producer_entry B c src rcp (map_option lift_producer p) (map_option lift_control k) (Span (logged_sinks 0 ss)) out req
   = producer_entry B c src rcp p k (Span ss) out req"
  unfolding producer_entry_def lift_valid span_count.simps length_logged_sinks validate_sinks_logged ..

lemma fail_lift:
  assumes "list_all sink_is_valid ss" "producer_is_valid (Some p)" "ps_begun st \<le> length ss"
    and "producer_fail B p ss s st = (s', rc, out', w')"
  shows "producer_fail B (lift_producer p) (logged_sinks 0 ss) s (with_log l st)
    = (s', rc, out', w', l @ events 0 (ps_begun st) EvAbort)"
  using assms abort_logged [OF assms(1,3), of 0 "ps_world st" l]
  by (auto simp: producer_fail_def lift_producer_def producer_is_valid_def)

text \<open>What an OK run did, as the log of the sinks shows it: \<open>bs\<close> are the batches it staged.\<close>

definition produced ::
  "'h blake3_api \<Rightarrow> laplace_framework_context option \<Rightarrow> laplace_digest256 option \<Rightarrow> laplace_digest256 option
     \<Rightarrow> laplace_framework_replay_checkpoint option \<Rightarrow> nat
     \<Rightarrow> laplace_framework_producer_receipt \<Rightarrow> laplace_framework_canonical_batch list \<Rightarrow> bool" where
  "produced B c src rcp replay sinks r bs \<longleftrightarrow>
     (let s = pr_stream r in
      bs \<noteq> [] \<and> unat (sr_batch_count s) = length bs
      \<and> (\<forall>x. laplace_framework_canonical_stream_fingerprint B (Span bs) (Some x)
           = (LAPLACE_FRAMEWORK_OK, Some (sr_stream_fingerprint s, sr_record_type s, sr_total_records s, sr_total_bytes s)))
      \<and> sr_source_fingerprint s = the src \<and> sr_recipe_fingerprint s = the rcp
      \<and> (sinks \<le> SIZE_MAX \<longrightarrow> laplace_framework_stream_receipt_validate B c (Some s) = LAPLACE_FRAMEWORK_OK)
      \<and> (\<exists>plan. pr_plan_fingerprint r = hash_producer_plan B (sr_context_fingerprint s) (the src) (the rcp) plan
           \<and> pl_record_type plan = sr_record_type s \<and> pl_batch_count plan = sr_batch_count s
           \<and> pl_total_records plan = sr_total_records s \<and> pl_total_bytes plan = sr_total_bytes s
           \<and> (\<forall>ck. replay = Some ck \<longrightarrow> pr_replay_verified r = 1 \<and> reproduced B r plan bs ck)))"

lemma reproduced_cong:
  "sr_context_fingerprint (pr_stream r') = sr_context_fingerprint (pr_stream r) \<Longrightarrow>
   sr_source_fingerprint (pr_stream r') = sr_source_fingerprint (pr_stream r) \<Longrightarrow>
   sr_recipe_fingerprint (pr_stream r') = sr_recipe_fingerprint (pr_stream r) \<Longrightarrow>
   pr_plan_fingerprint r' = pr_plan_fingerprint r \<Longrightarrow>
   reproduced B r' plan bs ck = reproduced B r plan bs ck"
  by (simp add: reproduced_def checkpoint_after_def)

lemma seal_receipt_simps [simp]:
  "pr_stream (seal_receipt B status effect v r) = hash_stream_receipt B
     ((pr_stream r)\<lparr>sr_effect_disposition := effect, sr_status := status\<rparr>)"
  "pr_plan_fingerprint (seal_receipt B status effect v r) = pr_plan_fingerprint r"
  "pr_replay_verified (seal_receipt B status effect v r) = (if v then 1 else 0)"
  by (simp_all add: seal_receipt_def hash_producer_receipt_def)

lemma hash_stream_receipt_simps [simp]:
  "sr_context_fingerprint (hash_stream_receipt B s) = sr_context_fingerprint s"
  "sr_source_fingerprint (hash_stream_receipt B s) = sr_source_fingerprint s"
  "sr_recipe_fingerprint (hash_stream_receipt B s) = sr_recipe_fingerprint s"
  "sr_stream_fingerprint (hash_stream_receipt B s) = sr_stream_fingerprint s"
  "sr_batch_count (hash_stream_receipt B s) = sr_batch_count s"
  "sr_record_type (hash_stream_receipt B s) = sr_record_type s"
  "sr_total_records (hash_stream_receipt B s) = sr_total_records s"
  "sr_total_bytes (hash_stream_receipt B s) = sr_total_bytes s"
  by (simp_all add: hash_stream_receipt_def)

lemma progress_stream:
  assumes "progress B plan bs st" "ps_completed_records st = pl_total_records plan"
    "ps_completed_bytes st = pl_total_bytes plan" "bs \<noteq> []" "pl_record_type plan \<noteq> 0"
  shows "laplace_framework_canonical_stream_fingerprint B (Span bs) (Some x)
    = (LAPLACE_FRAMEWORK_OK, Some (hasher_finalize B (ps_stream_hasher st), pl_record_type plan,
        pl_total_records plan, pl_total_bytes plan))"
proof -
  have loop: "stream_loop (pl_record_type plan) 0 0 bs = Some (pl_total_records plan, pl_total_bytes plan)"
    using assms by (simp add: progress_def)
  then have "cb_record_type (bs ! 0) = pl_record_type plan"
    using assms(4) by (cases bs) (auto split: if_splits)
  with loop assms show ?thesis
    by (simp add: laplace_framework_canonical_stream_fingerprint_def progress_def Let_def)
qed

lemma produced_run:
  assumes entry: "producer_entry B c src rcp (Some p) (Some k) (Span ss) out req = Inr (r, out1)"
    and plan: "producer_planning B (the c) p (pc_replay_checkpoint k) r out1 w = Inr (plan, st1)"
    and frame: "same_frame st1 st3" and prog: "progress B plan bs st3" and n: "length bs = unat (pl_batch_count plan)"
    and sound: "replay_sound B plan (pc_replay_checkpoint k) bs st3"
    and fin: "producer_finish B plan p k ss st3 = Inr st4"
  shows "produced B c src rcp (pc_replay_checkpoint k) (length ss)
    (seal_receipt B LAPLACE_FRAMEWORK_OK LAPLACE_FRAMEWORK_EFFECT_STAGED_INERT (ps_replay_verified st4) (ps_receipt st4)) bs"
proof -
  note E = producer_entry_Inr [OF entry] and P = planning_Inr [OF plan] and F = finish_Inr [OF fin]
  let ?fp = "hasher_finalize B (ps_stream_hasher st3)"
  obtain agg where agg: "pr_stream (ps_receipt st4) = (pr_stream (ps_receipt st3))\<lparr>
     sr_stream_fingerprint := ?fp, sr_sink_artifacts_fingerprint := agg\<rparr>"
    using F(5) by auto
  have s4: "pr_stream (ps_receipt st4) = stream_receipt_zero\<lparr>sr_failed_batch_index := LAPLACE_FRAMEWORK_NO_INDEX,
       sr_failed_sink_index := LAPLACE_FRAMEWORK_NO_INDEX, sr_sink_count := of_nat (length ss),
       sr_context_fingerprint := hasher_finalize B (updates B (hasher_init B) (context_chunks (the c))),
       sr_source_fingerprint := the src, sr_recipe_fingerprint := the rcp,
       sr_batch_count := pl_batch_count plan, sr_total_records := pl_total_records plan,
       sr_total_bytes := pl_total_bytes plan, sr_record_type := pl_record_type plan,
       sr_stream_fingerprint := ?fp, sr_sink_artifacts_fingerprint := agg\<rparr>"
    using frame by (simp add: agg same_frame_def P(5) E(9))
  have valid: "pl_batch_count plan \<noteq> 0" "pl_total_records plan \<noteq> 0" "pl_total_bytes plan \<noteq> 0" "pl_record_type plan \<noteq> 0"
    using P(6) by (auto simp: plan_is_invalid_def)
  have ne: "bs \<noteq> []" using n valid(1) by (auto simp: unat_eq_0)
  let ?s = "(pr_stream (ps_receipt st4))\<lparr>sr_effect_disposition := LAPLACE_FRAMEWORK_EFFECT_STAGED_INERT,
      sr_status := LAPLACE_FRAMEWORK_OK\<rparr>"
  have "stream_receipt_is_valid B (Some (hash_stream_receipt B ?s))" if "length ss \<le> SIZE_MAX"
    using valid E(7) that of_nat_u64_neq_0 [of "length ss"]
    by (intro staged_receipt_is_valid) (simp_all add: s4 stream_receipt_zero_def)
  then have receipt: "laplace_framework_stream_receipt_validate B c (Some (hash_stream_receipt B ?s)) = LAPLACE_FRAMEWORK_OK"
    if "length ss \<le> SIZE_MAX"
    using E(1) that
    by (simp add: laplace_framework_stream_receipt_validate_def laplace_framework_context_fingerprint_def s4)
  have planfp: "pr_plan_fingerprint (ps_receipt st4) = hash_producer_plan B
      (sr_context_fingerprint (pr_stream (ps_receipt st4))) (the src) (the rcp) plan"
    using F(6) frame P(7) by (simp add: E(9) s4 same_frame_def)
  have rep: "ps_replay_verified st4 \<and> reproduced B (ps_receipt st3) plan bs ck" if "pc_replay_checkpoint k = Some ck" for ck
    using F(3,4) sound that by (auto simp: replay_sound_def)
  have same: "reproduced B (seal_receipt B LAPLACE_FRAMEWORK_OK LAPLACE_FRAMEWORK_EFFECT_STAGED_INERT v (ps_receipt st4)) plan bs ck
      = reproduced B (ps_receipt st3) plan bs ck" for v ck
    using F(6) by (intro reproduced_cong) (simp_all add: agg)
  show ?thesis
    unfolding produced_def Let_def
    using ne n receipt progress_stream [OF prog F(1,2) ne valid(4)] rep planfp
    by (auto simp: same s4 intro!: exI [of _ plan])
qed

text \<open>A run in which every sink was called as \<open>l\<close> shows.\<close>

definition observed_OK ::
  "nat \<Rightarrow> laplace_framework_canonical_batch list \<Rightarrow> laplace_digest256 \<Rightarrow> (nat \<times> sink_event) list \<Rightarrow> bool" where
  "observed_OK n bs fp l \<longleftrightarrow>
     (\<forall>i. sink_trace i l = (if i < n then EvBegin # map EvStage bs @ [EvSeal fp] else []))"

definition observed_failure :: "nat \<Rightarrow> (nat \<times> sink_event) list \<Rightarrow> bool" where
  "observed_failure n l \<longleftrightarrow> (\<forall>i. rolled_back (sink_trace i l)) \<and> (\<forall>i \<ge> n. sink_trace i l = [])"

lemma observed_failureI:
  assumes "\<forall>i. EvAbort \<notin> set (sink_trace i l)" "\<forall>i \<ge> n. sink_trace i l = []" "m \<le> n"
    "\<forall>i < n. m \<le> i \<longrightarrow> sink_trace i l = []"
  shows "observed_failure n (events 0 m EvBegin @ l @ events 0 m EvAbort)"
  using assms by (auto simp: observed_failure_def rolled_back_def) (meson leI)+

lemma body_failed:
  assumes ss: "list_all sink_is_valid ss" and p: "producer_is_valid (Some p)" and k: "control_is_valid (Some k)"
    and st: "progress B plan [] st" "replay_sound B plan (pc_replay_checkpoint k) [] st" "ps_begun st = 0"
    and run: "producer_body B c plan p k ss st = Inl (s, st')"
  shows "s \<noteq> LAPLACE_FRAMEWORK_OK \<and> ps_begun st' \<le> length ss
    \<and> (\<exists>l. producer_body B c plan (lift_producer p) (lift_control k) (logged_sinks 0 ss) (with_log [] st)
          = Inl (s, with_log (events 0 (ps_begun st') EvBegin @ l) st')
        \<and> observed_failure (length ss) (events 0 (ps_begun st') EvBegin @ l @ events 0 (ps_begun st') EvAbort))"
proof (cases "producer_begin c plan k ss st")
  case (Inl x)
  with run have x: "x = (s, st')" by (simp add: producer_body_def)
  have "s \<noteq> LAPLACE_FRAMEWORK_OK \<and> ps_begun st' \<le> length ss"
    using begin_begun [OF ss st(3), of c plan k] Inl x by simp
  with Inl x show ?thesis
    by (auto simp: producer_body_def begin_lift [OF ss k st(3)] intro!: exI [of _ "[]"] observed_failureI [of "[]", simplified])
next
  case (Inr st1)
  have st1: "ps_begun st1 = length ss" "same_frame st st1" "same_progress st st1"
    using begin_begun [OF ss st(3), of c plan k] Inr by auto
  let ?l1 = "events 0 (length ss) EvBegin"
  have prog: "progress B plan [] st1" "replay_sound B plan (pc_replay_checkpoint k) [] st1"
    using st(1,2) st1(2,3)
    by (simp_all add: progress_def same_progress_def replay_sound_def reproduced_frame)
  show ?thesis
  proof (cases "producer_loop (unat (pl_batch_count plan)) B plan p k ss 0 st1")
    case (Inl x)
    with run Inr have x: "x = (s, st')" by (simp add: producer_body_def)
    from loop_failed [OF ss p k prog, of "unat (pl_batch_count plan)" s st' ?l1] Inl x obtain l' where
      l': "producer_loop (unat (pl_batch_count plan)) B plan (lift_producer p) (lift_control k) (logged_sinks 0 ss) 0
          (with_log ?l1 st1) = Inl (s, with_log (?l1 @ l') st')"
      "s \<noteq> LAPLACE_FRAMEWORK_OK" "ps_begun st' = length ss"
      "\<forall>i. EvAbort \<notin> set (sink_trace i l')" "\<forall>i \<ge> length ss. sink_trace i l' = []"
      using st1(1) by auto
    then show ?thesis
      using Inr st1(1) observed_failureI [of l' "length ss" "length ss"]
      by (auto simp: producer_body_def begin_lift [OF ss k st(3)])
  next
    case loop: (Inr st2)
    have fin: "producer_finish B plan p k ss st2 = Inl (s, st')"
      using run Inr loop by (simp add: producer_body_def)
    obtain bs' l' where l': "producer_loop (unat (pl_batch_count plan)) B plan (lift_producer p) (lift_control k)
          (logged_sinks 0 ss) 0 (with_log ?l1 st1) = Inr (with_log (?l1 @ l') st2)" "ps_begun st2 = length ss"
      "\<forall>i. sink_trace i l' = (if i < length ss then map EvStage bs' else [])"
      using loop_progress [OF ss p k prog, of "unat (pl_batch_count plan)" st2 ?l1] loop st1(1) by auto
    let ?fp = "hasher_finalize B (ps_stream_hasher st2)"
    obtain m where m: "m \<le> length ss"
      "producer_finish B plan (lift_producer p) (lift_control k) (logged_sinks 0 ss) (with_log (?l1 @ l') st2)
         = Inl (s, with_log ((?l1 @ l') @ events 0 m (EvSeal ?fp)) st')"
      using finish_lift [OF ss p k, of B plan "?l1 @ l'" st2] fin by auto
    have "observed_failure (length ss) (?l1 @ (l' @ events 0 m (EvSeal ?fp)) @ events 0 (length ss) EvAbort)"
      using l'(3) m(1) by (intro observed_failureI) auto
    then show ?thesis
      using finish_Inl [OF fin] l' m Inr st1(1)
      by (auto simp: producer_body_def begin_lift [OF ss k st(3)] intro!: exI [of _ "l' @ events 0 m (EvSeal ?fp)"])
  qed
qed

lemma body_OK:
  assumes ss: "list_all sink_is_valid ss" and p: "producer_is_valid (Some p)" and k: "control_is_valid (Some k)"
    and st: "progress B plan [] st" "replay_sound B plan (pc_replay_checkpoint k) [] st" "ps_begun st = 0"
    and run: "producer_body B c plan p k ss st = Inr st'"
  shows "\<exists>bs st2 l. length bs = unat (pl_batch_count plan) \<and> same_frame st st2 \<and> progress B plan bs st2
    \<and> replay_sound B plan (pc_replay_checkpoint k) bs st2 \<and> producer_finish B plan p k ss st2 = Inr st'
    \<and> producer_body B c plan (lift_producer p) (lift_control k) (logged_sinks 0 ss) (with_log [] st) = Inr (with_log l st')
    \<and> observed_OK (length ss) bs (hasher_finalize B (ps_stream_hasher st2)) l"
proof -
  obtain st1 st2 where bg: "producer_begin c plan k ss st = Inr st1"
    and loop: "producer_loop (unat (pl_batch_count plan)) B plan p k ss 0 st1 = Inr st2"
    and fin: "producer_finish B plan p k ss st2 = Inr st'"
    using run by (auto simp: producer_body_def split: sum.splits)
  have st1: "ps_begun st1 = length ss" "same_frame st st1" "same_progress st st1"
    using begin_begun [OF ss st(3), of c plan k] bg by auto
  let ?l1 = "events 0 (length ss) EvBegin" and ?fp = "hasher_finalize B (ps_stream_hasher st2)"
  have prog: "progress B plan [] st1" "replay_sound B plan (pc_replay_checkpoint k) [] st1"
    using st(1,2) st1(2,3)
    by (simp_all add: progress_def same_progress_def replay_sound_def reproduced_frame)
  obtain bs' l' where l': "length bs' = unat (pl_batch_count plan)"
    "producer_loop (unat (pl_batch_count plan)) B plan (lift_producer p) (lift_control k)
        (logged_sinks 0 ss) 0 (with_log ?l1 st1) = Inr (with_log (?l1 @ l') st2)"
    "progress B plan bs' st2" "replay_sound B plan (pc_replay_checkpoint k) bs' st2"
    "same_frame st1 st2" "\<forall>i. sink_trace i l' = (if i < length ss then map EvStage bs' else [])"
    using loop_progress [OF ss p k prog, of "unat (pl_batch_count plan)" st2 ?l1] loop by auto
  have m: "producer_finish B plan (lift_producer p) (lift_control k) (logged_sinks 0 ss) (with_log (?l1 @ l') st2)
      = Inr (with_log ((?l1 @ l') @ events 0 (length ss) (EvSeal ?fp)) st')"
    using finish_lift [OF ss p k, of B plan "?l1 @ l'" st2] fin by auto
  have "observed_OK (length ss) bs' ?fp ((?l1 @ l') @ events 0 (length ss) (EvSeal ?fp))"
    using l'(6) by (auto simp: observed_OK_def)
  moreover have "same_frame st st2" using st1(2) l'(5) by (auto simp: same_frame_def)
  ultimately show ?thesis
    using l' fin m bg st1(1)
    by (intro exI [of _ bs'] exI [of _ st2] exI [of _ "(?l1 @ l') @ events 0 (length ss) (EvSeal ?fp)"])
       (auto simp: producer_body_def begin_lift [OF ss k st(3)])
qed

lemma producer_observed:
  assumes run: "run_producer_impl B c src rcp p k (Span ss) out req receipt w = (st, rc, out', w')"
  shows "\<exists>l. run_producer_impl B c src rcp (map_option lift_producer p) (map_option lift_control k)
        (Span (logged_sinks 0 ss)) out req receipt (w, []) = (st, rc, out', w', l)
    \<and> (if st = LAPLACE_FRAMEWORK_OK
       then \<exists>bs. produced B c src rcp (pc_replay_checkpoint (the k)) (length ss) (the rc) bs
          \<and> observed_OK (length ss) bs (sr_stream_fingerprint (pr_stream (the rc))) l
       else observed_failure (length ss) l)"
proof (cases "receipt = None \<or> (\<exists>x. producer_entry B c src rcp p k (Span ss) out req = Inl x)")
  case True
  have "observed_failure (length ss) []" by (simp add: observed_failure_def rolled_back_def)
  with True run show ?thesis
    by (intro exI [of _ "[]"])
       (auto simp: run_producer_impl_def producer_entry_lift dest: producer_entry_Inl)
next
  case False
  then obtain r out1 r0 where entry: "producer_entry B c src rcp p k (Span ss) out req = Inr (r, out1)"
    and receipt: "receipt = Some r0"
    by (metis not_Some_eq old.prod.exhaust sum.exhaust)
  note E = producer_entry_Inr [OF entry]
  obtain p' k' where some: "p = Some p'" "k = Some k'"
    using E(4,5) by (auto simp: producer_is_valid_def control_is_valid_def split: option.splits)
  note p = E(4) [unfolded some] and k = E(5) [unfolded some] and ss = E(6)
  note impl = run_producer_impl_def producer_entry_lift entry [unfolded some] receipt some Let_def
  show ?thesis
  proof (cases "producer_planning B (the c) p' (pc_replay_checkpoint k') r out1 w")
    case (Inl x)
    obtain s st1 where x: "x = (s, st1)" by fastforce
    have fail: "producer_fail B p' ss s st1 = (st, rc, out', w')" "s \<noteq> LAPLACE_FRAMEWORK_OK" "ps_begun st1 = 0"
      using run Inl planning_Inl [OF Inl [unfolded x]] by (auto simp: impl x)
    have "st = s" using fail(1) by (simp add: producer_fail_def)
    with fail fail_lift [OF ss p _ fail(1), of "[]"] Inl entry receipt show ?thesis
      by (simp add: run_producer_impl_def producer_entry_lift [of B c src rcp p k, unfolded some, simplified] some
          Let_def planning_lift [OF p] x observed_failure_def rolled_back_def)
  next
    case (Inr x)
    obtain plan st1 where x: "x = (plan, st1)" by fastforce
    note P = planning_Inr [OF Inr [unfolded x]]
    have lifted: "run_producer_impl B c src rcp (map_option lift_producer p) (map_option lift_control k)
        (Span (logged_sinks 0 ss)) out req receipt (w, []) =
      (case producer_body B (the c) plan (lift_producer p') (lift_control k') (logged_sinks 0 ss) (with_log [] st1) of
         Inl (status, st) \<Rightarrow> producer_fail B (lift_producer p') (logged_sinks 0 ss) status st
       | Inr st \<Rightarrow> (LAPLACE_FRAMEWORK_OK, Some (seal_receipt B LAPLACE_FRAMEWORK_OK LAPLACE_FRAMEWORK_EFFECT_STAGED_INERT
             (ps_replay_verified st) (ps_receipt st)), ps_output st, ps_world st))"
      using Inr entry receipt
      by (simp add: run_producer_impl_def producer_entry_lift [of B c src rcp p k, unfolded some, simplified] some
          Let_def planning_lift [OF p] x)
    show ?thesis
    proof (cases "producer_body B (the c) plan p' k' ss st1")
      case body: (Inl y)
      obtain s st2 where y: "y = (s, st2)" by fastforce
      have fail: "producer_fail B p' ss s st2 = (st, rc, out', w')"
        using run Inr body by (simp add: impl x y)
      have "st = s" using fail by (simp add: producer_fail_def)
      with body_failed [OF ss p k P(1,2,3) body [unfolded y]] fail_lift [OF ss p _ fail] show ?thesis
        unfolding lifted by auto
    next
      case body: (Inr st2)
      obtain bs st3 l where B: "length bs = unat (pl_batch_count plan)" "same_frame st1 st3" "progress B plan bs st3"
        "replay_sound B plan (pc_replay_checkpoint k') bs st3" "producer_finish B plan p' k' ss st3 = Inr st2"
        "producer_body B (the c) plan (lift_producer p') (lift_control k') (logged_sinks 0 ss) (with_log [] st1) = Inr (with_log l st2)"
        "observed_OK (length ss) bs (hasher_finalize B (ps_stream_hasher st3)) l"
        using body_OK [OF ss p k P(1,2,3) body] by blast
      have res: "st = LAPLACE_FRAMEWORK_OK" "rc = Some (seal_receipt B LAPLACE_FRAMEWORK_OK
          LAPLACE_FRAMEWORK_EFFECT_STAGED_INERT (ps_replay_verified st2) (ps_receipt st2))"
        "out' = ps_output st2" "w' = ps_world st2"
        using run Inr body by (auto simp: impl x)
      have "sr_stream_fingerprint (pr_stream (the rc)) = hasher_finalize B (ps_stream_hasher st3)"
        using finish_Inr(5) [OF B(5)] by (auto simp: res)
      with produced_run [OF entry [unfolded some] Inr [unfolded x] B(2,3,1,4,5)] B(6,7) res show ?thesis
        unfolding lifted by (auto simp: some)
    qed
  qed
qed

section \<open>Properties\<close>

text \<open>C2: a producer run is all or nothing towards the sinks, and what it stages is a canonical
  stream.  Wrapping the sinks so that they log their calls does not change a run.  In a run that
  returns OK every sink is begun, given one and the same list of batches in order and sealed; these
  batches are as many as the receipt says, and the direct fingerprint of that stream is exactly the
  fingerprint, record type and totals of the receipt, although the run hashed the batches one at a
  time from the plan's promised totals.  In any other run every sink either is not called at all or
  is begun and, as its last call, aborted once.\<close>

theorem producer_all_or_nothing:
  assumes "run_producer_impl B c src rcp p k (Span ss) out req receipt w = (st, rc, out', w')"
  shows "\<exists>l. run_producer_impl B c src rcp (map_option lift_producer p) (map_option lift_control k)
        (Span (logged_sinks 0 ss)) out req receipt (w, []) = (st, rc, out', w', l)
    \<and> (st = LAPLACE_FRAMEWORK_OK \<longrightarrow> (\<exists>bs.
          (\<forall>i < length ss. sink_trace i l =
             EvBegin # map EvStage bs @ [EvSeal (sr_stream_fingerprint (pr_stream (the rc)))])
          \<and> unat (sr_batch_count (pr_stream (the rc))) = length bs
          \<and> (\<forall>x. laplace_framework_canonical_stream_fingerprint B (Span bs) (Some x) =
               (LAPLACE_FRAMEWORK_OK, Some (sr_stream_fingerprint (pr_stream (the rc)),
                  sr_record_type (pr_stream (the rc)), sr_total_records (pr_stream (the rc)),
                  sr_total_bytes (pr_stream (the rc)))))))
    \<and> (st \<noteq> LAPLACE_FRAMEWORK_OK \<longrightarrow> (\<forall>i. rolled_back (sink_trace i l)))
    \<and> (\<forall>i \<ge> length ss. sink_trace i l = [])"
proof -
  obtain l where l: "run_producer_impl B c src rcp (map_option lift_producer p) (map_option lift_control k)
        (Span (logged_sinks 0 ss)) out req receipt (w, []) = (st, rc, out', w', l)"
    and obs: "if st = LAPLACE_FRAMEWORK_OK
       then \<exists>bs. produced B c src rcp (pc_replay_checkpoint (the k)) (length ss) (the rc) bs
          \<and> observed_OK (length ss) bs (sr_stream_fingerprint (pr_stream (the rc))) l
       else observed_failure (length ss) l"
    using producer_observed [OF assms] by blast
  show ?thesis
  proof (cases "st = LAPLACE_FRAMEWORK_OK")
    case True
    with obs obtain bs where bs: "produced B c src rcp (pc_replay_checkpoint (the k)) (length ss) (the rc) bs"
      "observed_OK (length ss) bs (sr_stream_fingerprint (pr_stream (the rc))) l" by auto
    from bs(1) have "unat (sr_batch_count (pr_stream (the rc))) = length bs"
      "\<forall>x. laplace_framework_canonical_stream_fingerprint B (Span bs) (Some x) =
               (LAPLACE_FRAMEWORK_OK, Some (sr_stream_fingerprint (pr_stream (the rc)),
                  sr_record_type (pr_stream (the rc)), sr_total_records (pr_stream (the rc)),
                  sr_total_bytes (pr_stream (the rc))))"
      by (simp_all add: produced_def Let_def)
    with bs(2) l True show ?thesis
      by (intro exI [of _ l] conjI impI exI [of _ bs]) (simp_all add: observed_OK_def)
  next
    case False
    with obs l show ?thesis by (intro exI [of _ l]) (simp add: observed_failure_def)
  qed
qed

text \<open>C31: the receipt of a producer run stands on its own.  After an OK run the stream receipt
  inside it passes the receipt check for the context and names source and recipe.  If a replay
  checkpoint was supplied it is marked verified, and it really was reproduced: its identity is the
  one this run computes after as many of its batches as the checkpoint counts, under the plan whose
  fingerprint the receipt carries.\<close>

theorem producer_receipt_verified:
  assumes run: "run_producer_impl B c src rcp p (Some k) (Span ss) out req receipt w
      = (LAPLACE_FRAMEWORK_OK, Some r, out', w')"
    and size: "length ss \<le> SIZE_MAX"
  shows "laplace_framework_stream_receipt_validate B c (Some (pr_stream r)) = LAPLACE_FRAMEWORK_OK
    \<and> sr_source_fingerprint (pr_stream r) = the src \<and> sr_recipe_fingerprint (pr_stream r) = the rcp
    \<and> (\<forall>ck. pc_replay_checkpoint k = Some ck \<longrightarrow> pr_replay_verified r = 1
        \<and> (\<exists>l bs plan n cursor. run_producer_impl B c src rcp (map_option lift_producer p) (Some (lift_control k))
              (Span (logged_sinks 0 ss)) out req receipt (w, []) = (LAPLACE_FRAMEWORK_OK, Some r, out', w', l)
            \<and> (\<forall>i < length ss. sink_trace i l =
                 EvBegin # map EvStage bs @ [EvSeal (sr_stream_fingerprint (pr_stream r))])
            \<and> pr_plan_fingerprint r = hash_producer_plan B (sr_context_fingerprint (pr_stream r)) (the src) (the rcp) plan
            \<and> n \<le> length bs \<and> ck_completed_batches ck = of_nat n
            \<and> ck_checkpoint_id ck = ck_checkpoint_id (checkpoint_after B r plan (take n bs) cursor)))"
proof -
  obtain l bs where lifted: "run_producer_impl B c src rcp (map_option lift_producer p) (Some (lift_control k))
      (Span (logged_sinks 0 ss)) out req receipt (w, []) = (LAPLACE_FRAMEWORK_OK, Some r, out', w', l)"
    and bs: "produced B c src rcp (pc_replay_checkpoint k) (length ss) r bs"
      "observed_OK (length ss) bs (sr_stream_fingerprint (pr_stream r)) l"
    using producer_observed [OF run] by auto
  from bs(1) size have receipt: "laplace_framework_stream_receipt_validate B c (Some (pr_stream r)) = LAPLACE_FRAMEWORK_OK"
    "sr_source_fingerprint (pr_stream r) = the src" "sr_recipe_fingerprint (pr_stream r) = the rcp"
    by (simp_all add: produced_def Let_def)
  obtain plan where plan: "pr_plan_fingerprint r = hash_producer_plan B (sr_context_fingerprint (pr_stream r)) (the src) (the rcp) plan"
    "\<forall>ck. pc_replay_checkpoint k = Some ck \<longrightarrow> pr_replay_verified r = 1 \<and> reproduced B r plan bs ck"
    using bs(1) by (auto simp: produced_def Let_def)
  show ?thesis
    using receipt lifted bs(2) plan unfolding reproduced_def observed_OK_def by (intro conjI allI impI; metis)
qed

text \<open>A producer of one batch and a control that supplies the initial checkpoint for replay.\<close>

definition sample_plan :: laplace_framework_producer_plan where
  "sample_plan = plan_zero\<lparr>pl_batch_count := 1, pl_total_records := 1, pl_total_bytes := 2, pl_record_type := 3\<rparr>"

definition sample_producer :: "nat laplace_framework_producer_v1" where
  "sample_producer =
     \<lparr>pd_prepare = Some (\<lambda>w c s r pl. (LAPLACE_FRAMEWORK_OK, sample_plan, w + 1)),
      pd_next = Some (\<lambda>w i b d. (LAPLACE_FRAMEWORK_OK, sample_batch [1, 2] 1 0, sample_digest [6], w + 1)),
      pd_finish = Some (\<lambda>w d. (LAPLACE_FRAMEWORK_OK, sample_digest [7], w + 1)),
      pd_abort = Some (\<lambda>w. w + 100),
      pd_abi_major = 1, pd_abi_minor = 0, pd_flags = 0, pd_reserved = 0\<rparr>"

definition sample_checkpoint :: laplace_framework_replay_checkpoint where
  "sample_checkpoint =
     (let fp = hasher_finalize sample_blake3 (updates sample_blake3 (hasher_init sample_blake3)
           (context_chunks (sample_context (sample_digest [1])))) in
      set_checkpoint sample_blake3 fp (sample_digest [1]) (sample_digest [2]) sample_plan
        (hash_producer_plan sample_blake3 fp (sample_digest [1]) (sample_digest [2]) sample_plan)
        (hasher_finalize sample_blake3 (initialize_prefix_hasher sample_blake3 3)) 0 0 0 0)"

definition sample_control :: "nat laplace_framework_producer_control_v1" where
  "sample_control =
     \<lparr>pc_replay_checkpoint = Some sample_checkpoint, pc_cancel_requested = Some (\<lambda>w. (False, w)),
      pc_observe_progress = Some (\<lambda>w ck. w + 1), pc_abi_major = 1, pc_abi_minor = 0,
      pc_flags = 0, pc_reserved = 0\<rparr>"

definition sample_run ::
  "laplace_framework_status \<times> laplace_framework_producer_receipt option
     \<times> laplace_framework_sink_artifact_output option \<times> nat" where
  "sample_run = run_producer_impl sample_blake3 (Some (sample_context (sample_digest [1])))
     (Some (sample_digest [1])) (Some (sample_digest [2])) (Some sample_producer) (Some sample_control)
     (Span [sample_sink True]) None False (Some producer_receipt_zero) 0"

lemma sample_plan_simps [simp]:
  "pl_batch_count sample_plan = 1" "pl_total_records sample_plan = 1" "pl_total_bytes sample_plan = 2"
  "pl_record_type sample_plan = 3" "pl_initial_cursor_fingerprint sample_plan = 0" "\<not> plan_is_invalid sample_plan"
  by (simp_all add: sample_plan_def plan_zero_def plan_is_invalid_def LAPLACE_FRAMEWORK_KNOWN_PRODUCER_FLAGS_def)

lemma sample_producer_simps [simp]:
  "pd_prepare sample_producer = Some (\<lambda>w c s r pl. (LAPLACE_FRAMEWORK_OK, sample_plan, w + 1))"
  "pd_next sample_producer = Some (\<lambda>w i b d. (LAPLACE_FRAMEWORK_OK, sample_batch [1, 2] 1 0, sample_digest [6], w + 1))"
  "pd_finish sample_producer = Some (\<lambda>w d. (LAPLACE_FRAMEWORK_OK, sample_digest [7], w + 1))"
  "pc_replay_checkpoint sample_control = Some sample_checkpoint"
  "pc_cancel_requested sample_control = Some (\<lambda>w. (False, w))"
  "pc_observe_progress sample_control = Some (\<lambda>w ck. w + 1)"
  by (simp_all add: sample_producer_def sample_control_def)

text \<open>A fresh initial checkpoint replays under its own plan.\<close>

lemma check_replay_initial:
  assumes "pr_checkpoint r = set_checkpoint B ctx src rcp plan pfp prefix cursor 0 0 0"
    "sr_context_fingerprint (pr_stream r) = ctx" "sr_source_fingerprint (pr_stream r) = src"
    "sr_recipe_fingerprint (pr_stream r) = rcp" "pr_plan_fingerprint r = pfp" "0 < pl_batch_count plan" "0 < pl_total_records plan" "0 < pl_total_bytes plan" "pl_record_type plan \<noteq> 0"
  shows "check_replay B (set_checkpoint B ctx src rcp plan pfp prefix cursor 0 0 0) plan r = Inr True"
  using assms by (simp add: check_replay_def set_checkpoint_def checkpoint_checksum_is_valid_def Let_def hash_checkpoint_def digest_equal_def LAPLACE_FRAMEWORK_KNOWN_REPLAY_FLAGS_def
      checkpoint_chunks_def)

lemma sample_body:
  assumes "ps_completed_records st = 0" "ps_completed_bytes st = 0" "ps_replay_verified st"
  shows "\<exists>st'. producer_body sample_blake3 c sample_plan sample_producer sample_control [sample_sink True] st = Inr st'"
proof -
  have batch: "cb_canonical_bytes (sample_batch [1, 2] 1 0) = Some [1, 2]" "cb_byte_count (sample_batch [1, 2] 1 0) = 2"
    "cb_record_count (sample_batch [1, 2] 1 0) = 1" "cb_first_ordinal (sample_batch [1, 2] 1 0) = 0"
    "cb_record_type (sample_batch [1, 2] 1 0) = 3" "cb_flags (sample_batch [1, 2] 1 0) = LAPLACE_FRAMEWORK_KNOWN_BATCH_FLAGS"
    by (simp_all add: sample_batch_def LAPLACE_FRAMEWORK_KNOWN_BATCH_FLAGS_def)
  have ck: "ck_completed_batches sample_checkpoint = 0"
    by (simp add: sample_checkpoint_def set_checkpoint_def Let_def hash_checkpoint_def)
  show ?thesis
    using assms
    by (simp add: producer_body_def producer_begin_def producer_finish_def producer_step_def pull_batch_def
      stage_pulled_def advance_checkpoint_def meet_replay_def poll_cancel_def observe_def sample_sink_def
      Let_def batch ck seal_sinks_def SIZE_MAX_def)
qed

lemma sample_body_not_Inl:
  "producer_body sample_blake3 c sample_plan sample_producer sample_control [sample_sink True] st = Inl x \<Longrightarrow>
     ps_completed_records st = 0 \<Longrightarrow> ps_completed_bytes st = 0 \<Longrightarrow> \<not> ps_replay_verified st"
  using sample_body [of st c] by auto

lemma sample_run_status: "fst sample_run = LAPLACE_FRAMEWORK_OK"
proof -
  have ctx: "laplace_framework_context_validate (Some (sample_context (sample_digest [1]))) = LAPLACE_FRAMEWORK_OK"
    by code_simp
  have sink: "sink_is_valid (sample_sink b)" for b
    by (simp add: sink_is_valid_def sample_sink_def LAPLACE_FRAMEWORK_SINK_ABI_MAJOR_def
        LAPLACE_FRAMEWORK_SINK_ABI_MINOR_def)
  have producer: "producer_is_valid (Some sample_producer)"
    by (simp add: producer_is_valid_def sample_producer_def LAPLACE_FRAMEWORK_PRODUCER_ABI_MAJOR_def
        LAPLACE_FRAMEWORK_PRODUCER_ABI_MINOR_def LAPLACE_FRAMEWORK_KNOWN_PRODUCER_FLAGS_def)
  have control: "control_is_valid (Some sample_control)"
    by (simp add: control_is_valid_def sample_control_def LAPLACE_FRAMEWORK_PRODUCER_CONTROL_ABI_MAJOR_def
        LAPLACE_FRAMEWORK_PRODUCER_CONTROL_ABI_MINOR_def LAPLACE_FRAMEWORK_KNOWN_PRODUCER_CONTROL_FLAGS_def)
  show ?thesis
    using ctx sink producer control
    by (auto simp: sample_run_def run_producer_impl_def producer_entry_def producer_planning_def Let_def prepare_sink_artifact_output_def
     laplace_framework_context_fingerprint_def validate_sinks_def check_replay_initial sample_checkpoint_def split: sum.splits
        dest!: sample_body_not_Inl)

qed

theorem producer_all_or_nothing_witness:
  "\<exists>l bs. sink_trace 0 l = EvBegin # map EvStage bs
           @ [EvSeal (sr_stream_fingerprint (pr_stream (the (fst (snd sample_run)))))]
     \<and> fst (run_producer_impl sample_blake3 (Some (sample_context (sample_digest [1])))
         (Some (sample_digest [1])) (Some (sample_digest [2])) (Some (lift_producer sample_producer))
         (Some (lift_control sample_control)) (Span (logged_sinks 0 [sample_sink True]))
         None False (Some producer_receipt_zero) (0, [])) = LAPLACE_FRAMEWORK_OK"
proof -
  obtain st rc out' w' where res: "sample_run = (st, rc, out', w')"
    by (metis prod_cases4)
  have "st = LAPLACE_FRAMEWORK_OK" using sample_run_status [unfolded res] by simp
  with producer_all_or_nothing [OF res [unfolded sample_run_def]]
  show ?thesis unfolding res by auto
qed

lemma run_producer_OK_receipt:
  "run_producer_impl B c src rcp p k ss out req receipt w = (LAPLACE_FRAMEWORK_OK, rc, out', w') \<Longrightarrow> \<exists>r. rc = Some r"
  by (auto simp: run_producer_impl_def producer_fail_def Let_def split: if_splits sum.splits prod.splits)

theorem producer_receipt_verified_witness:
  "\<exists>r out' w'. sample_run = (LAPLACE_FRAMEWORK_OK, Some r, out', w') \<and> pr_replay_verified r = 1
     \<and> laplace_framework_stream_receipt_validate sample_blake3
         (Some (sample_context (sample_digest [1]))) (Some (pr_stream r)) = LAPLACE_FRAMEWORK_OK"
proof -
  obtain st rc out' w' where res: "sample_run = (st, rc, out', w')"
    by (metis prod_cases4)
  have ok: "st = LAPLACE_FRAMEWORK_OK" using sample_run_status [unfolded res] by simp
  obtain r where r: "rc = Some r"
    using run_producer_OK_receipt [OF res [unfolded ok sample_run_def]] by blast
  have size: "length [sample_sink True] \<le> SIZE_MAX" by (simp add: SIZE_MAX_def)
  from producer_receipt_verified [OF res [unfolded ok r sample_run_def] size] ok r
  show ?thesis unfolding res by (auto simp: sample_control_def)
qed

end
