(* ===== verification/Framework_Activation.thy ===== *)
theory Framework_Activation
  imports Framework_Staging
begin

text \<open>
  Activation of a staged stream (\<open>engine/src/framework.c\<close>, last part): admission of a staged
  receipt against an expected epoch, commit and abort of the admission through a provider, and the
  check of retained receipts.

  The provider is a record of callbacks on an arbitrary world, like a sink.  A callback that writes
  through an output pointer takes the value the pointer holds and returns the value it leaves.
  The second half observes the provider's calls and treats the life of one activation receipt as a
  state machine: whatever commits and aborts a caller issues on it, in any order and with any
  arguments, the provider is asked to settle the admission at most once.
\<close>

record laplace_framework_activation_request =
  aq_expected_epoch :: laplace_digest256
  aq_next_epoch :: laplace_digest256
  aq_epoch_slot :: u32
  aq_flags :: u32
  aq_reserved :: u64

record 'w laplace_framework_activation_provider_v1 =
  ap_prepare :: "('w \<Rightarrow> laplace_framework_context \<Rightarrow> laplace_framework_stream_receipt
     \<Rightarrow> laplace_framework_activation_request \<Rightarrow> laplace_digest256
     \<Rightarrow> laplace_framework_status \<times> laplace_digest256 \<times> 'w) option"
  ap_commit :: "('w \<Rightarrow> laplace_framework_activation_request \<Rightarrow> laplace_digest256 \<Rightarrow> laplace_digest256
     \<Rightarrow> laplace_framework_status \<times> laplace_digest256 \<times> 'w) option"
  ap_abort :: "('w \<Rightarrow> laplace_framework_activation_request \<Rightarrow> laplace_digest256 \<Rightarrow> 'w) option"
  ap_abi_major :: u16
  ap_abi_minor :: u16
  ap_flags :: u32
  ap_reserved :: u32

record laplace_framework_activation_receipt =
  av_receipt_id :: laplace_digest256
  av_context_fingerprint :: laplace_digest256
  av_staged_receipt_id :: laplace_digest256
  av_request_fingerprint :: laplace_digest256
  av_preparation_fingerprint :: laplace_digest256
  av_activation_fingerprint :: laplace_digest256
  av_expected_epoch :: laplace_digest256
  av_next_epoch :: laplace_digest256
  av_epoch_slot :: u32
  av_effect_disposition :: u32
  av_status :: laplace_framework_status
  av_reserved :: u32

definition LAPLACE_FRAMEWORK_ACTIVATION_PROVIDER_ABI_MAJOR :: u16 where
  "LAPLACE_FRAMEWORK_ACTIVATION_PROVIDER_ABI_MAJOR = 1"
definition LAPLACE_FRAMEWORK_ACTIVATION_PROVIDER_ABI_MINOR :: u16 where
  "LAPLACE_FRAMEWORK_ACTIVATION_PROVIDER_ABI_MINOR = 0"
definition LAPLACE_FRAMEWORK_KNOWN_ACTIVATION_FLAGS :: u32 where
  "LAPLACE_FRAMEWORK_KNOWN_ACTIVATION_FLAGS = 0"
definition LAPLACE_FRAMEWORK_CONTEXT_READ_ONLY :: u32 where
  "LAPLACE_FRAMEWORK_CONTEXT_READ_ONLY = 2"
definition LAPLACE_FRAMEWORK_EFFECT_ACTIVATION_ADMITTED :: u32 where
  "LAPLACE_FRAMEWORK_EFFECT_ACTIVATION_ADMITTED = 2"
definition LAPLACE_FRAMEWORK_EFFECT_ACTIVATED :: u32 where
  "LAPLACE_FRAMEWORK_EFFECT_ACTIVATED = 3"

definition ACTIVATION_REQUEST_DOMAIN :: "byte list" where
  "ACTIVATION_REQUEST_DOMAIN = ascii_bytes ''laplace-framework-activation-request-v1''"

definition ACTIVATION_RECEIPT_DOMAIN :: "byte list" where
  "ACTIVATION_RECEIPT_DOMAIN = ascii_bytes ''laplace-framework-activation-receipt-v1''"

lemmas effect_codes =
  LAPLACE_FRAMEWORK_EFFECT_STAGED_INERT_def LAPLACE_FRAMEWORK_EFFECT_ACTIVATION_ADMITTED_def
  LAPLACE_FRAMEWORK_EFFECT_ACTIVATED_def

definition hash_activation_request ::
  "'h blake3_api \<Rightarrow> laplace_framework_stream_receipt \<Rightarrow> laplace_framework_activation_request
     \<Rightarrow> laplace_digest256" where
  "hash_activation_request B staged_receipt request =
     hasher_finalize B (updates B (hasher_init B)
       [ACTIVATION_REQUEST_DOMAIN, bytes (sr_receipt_id staged_receipt),
        u32_le (aq_epoch_slot request), u32_le (aq_flags request),
        bytes (aq_expected_epoch request), bytes (aq_next_epoch request)])"

definition activation_receipt_chunks :: "laplace_framework_activation_receipt \<Rightarrow> byte list list" where
  "activation_receipt_chunks r =
     [ACTIVATION_RECEIPT_DOMAIN, u32_le (framework_status_code (av_status r)),
      u32_le (av_epoch_slot r), u32_le (av_effect_disposition r),
      bytes (av_context_fingerprint r), bytes (av_staged_receipt_id r),
      bytes (av_request_fingerprint r), bytes (av_preparation_fingerprint r),
      bytes (av_activation_fingerprint r), bytes (av_expected_epoch r), bytes (av_next_epoch r)]"

definition hash_activation_receipt ::
  "'h blake3_api \<Rightarrow> laplace_framework_activation_receipt \<Rightarrow> laplace_framework_activation_receipt" where
  "hash_activation_receipt B r =
     r\<lparr>av_receipt_id := hasher_finalize B (updates B (hasher_init B) (activation_receipt_chunks r))\<rparr>"

definition activation_provider_is_valid ::
  "'w laplace_framework_activation_provider_v1 option \<Rightarrow> bool" where
  "activation_provider_is_valid provider =
     (case provider of
        None \<Rightarrow> False
      | Some p \<Rightarrow>
          ap_prepare p \<noteq> None \<and> ap_commit p \<noteq> None \<and> ap_abort p \<noteq> None
          \<and> ap_abi_major p = LAPLACE_FRAMEWORK_ACTIVATION_PROVIDER_ABI_MAJOR
          \<and> ap_abi_minor p \<le> LAPLACE_FRAMEWORK_ACTIVATION_PROVIDER_ABI_MINOR
          \<and> ap_flags p = 0 \<and> ap_reserved p = 0)"

definition admitted_receipt_is_valid ::
  "'h blake3_api \<Rightarrow> laplace_framework_activation_receipt option \<Rightarrow> bool" where
  "admitted_receipt_is_valid B receipt =
     (case receipt of
        None \<Rightarrow> False
      | Some r \<Rightarrow>
          if av_status r \<noteq> LAPLACE_FRAMEWORK_OK
             \<or> av_effect_disposition r \<noteq> LAPLACE_FRAMEWORK_EFFECT_ACTIVATION_ADMITTED
             \<or> LAPLACE_FRAMEWORK_EPOCH_COUNT \<le> unat (av_epoch_slot r)
             \<or> av_reserved r \<noteq> 0
          then False
          else digest_equal (av_receipt_id r) (av_receipt_id (hash_activation_receipt B r)))"

definition activation_receipt_zero :: laplace_framework_activation_receipt where
  "activation_receipt_zero =
     \<lparr>av_receipt_id = 0, av_context_fingerprint = 0, av_staged_receipt_id = 0,
      av_request_fingerprint = 0, av_preparation_fingerprint = 0, av_activation_fingerprint = 0,
      av_expected_epoch = 0, av_next_epoch = 0, av_epoch_slot = 0, av_effect_disposition = 0,
      av_status = LAPLACE_FRAMEWORK_OK, av_reserved = 0\<rparr>"

text \<open>Storing a status, hashing the receipt and returning.\<close>

definition activation_return ::
  "'h blake3_api \<Rightarrow> laplace_framework_status \<Rightarrow> laplace_framework_activation_receipt \<Rightarrow> 'w
     \<Rightarrow> laplace_framework_status \<times> laplace_framework_activation_receipt option \<times> 'w" where
  "activation_return B status r w =
     (status, Some (hash_activation_receipt B (r\<lparr>av_status := status\<rparr>)), w)"

definition request_is_invalid :: "laplace_framework_activation_request \<Rightarrow> bool" where
  "request_is_invalid request \<longleftrightarrow>
     LAPLACE_FRAMEWORK_EPOCH_COUNT \<le> unat (aq_epoch_slot request)
     \<or> aq_flags request \<noteq> LAPLACE_FRAMEWORK_KNOWN_ACTIVATION_FLAGS
     \<or> aq_reserved request \<noteq> 0
     \<or> digest_equal (aq_expected_epoch request) (aq_next_epoch request)"

definition laplace_framework_admit_staged_stream ::
  "'h blake3_api \<Rightarrow> laplace_framework_context option \<Rightarrow> laplace_framework_stream_receipt option
     \<Rightarrow> laplace_framework_activation_request option
     \<Rightarrow> 'w laplace_framework_activation_provider_v1 option
     \<Rightarrow> laplace_framework_activation_receipt option \<Rightarrow> 'w
     \<Rightarrow> laplace_framework_status \<times> laplace_framework_activation_receipt option \<times> 'w" where
  "laplace_framework_admit_staged_stream B context staged_receipt request provider receipt w =
     (if receipt = None then (LAPLACE_FRAMEWORK_INVALID_ARGUMENT, None, w)
      else
      let (status, context_fingerprint) = laplace_framework_context_fingerprint B context (Some 0);
          r = activation_receipt_zero\<lparr>av_context_fingerprint := the context_fingerprint\<rparr> in
      if status \<noteq> LAPLACE_FRAMEWORK_OK then activation_return B status r w
      else if laplace_framework_stream_receipt_validate B context staged_receipt \<noteq> LAPLACE_FRAMEWORK_OK
              \<or> request = None \<or> request_is_invalid (the request)
      then activation_return B LAPLACE_FRAMEWORK_ACTIVATION_REQUEST_INVALID r w
      else
      let c = the context; staged = the staged_receipt; q = the request;
          r = r\<lparr>av_staged_receipt_id := sr_receipt_id staged,
                av_expected_epoch := aq_expected_epoch q, av_next_epoch := aq_next_epoch q,
                av_epoch_slot := aq_epoch_slot q,
                av_request_fingerprint := hash_activation_request B staged q\<rparr> in
      if fc_flags c AND LAPLACE_FRAMEWORK_CONTEXT_READ_ONLY \<noteq> 0
      then activation_return B LAPLACE_FRAMEWORK_EFFECT_NOT_AUTHORIZED r w
      else if fc_epoch_mask c AND push_bit (unat (aq_epoch_slot q)) 1 = 0
              \<or> \<not> digest_equal (fc_epochs c ! unat (aq_epoch_slot q)) (aq_expected_epoch q)
      then activation_return B LAPLACE_FRAMEWORK_ACTIVATION_REQUEST_INVALID r w
      else if \<not> activation_provider_is_valid provider
      then activation_return B LAPLACE_FRAMEWORK_ACTIVATION_PROVIDER_INVALID r w
      else
      let p = the provider;
          (status, preparation, w) =
            the (ap_prepare p) w c staged q (av_preparation_fingerprint r);
          r = r\<lparr>av_preparation_fingerprint := preparation\<rparr> in
      if status \<noteq> LAPLACE_FRAMEWORK_OK
      then activation_return B LAPLACE_FRAMEWORK_ACTIVATION_ADMISSION_FAILED
             (r\<lparr>av_effect_disposition := LAPLACE_FRAMEWORK_EFFECT_STAGED_INERT\<rparr>)
             (the (ap_abort p) w q preparation)
      else activation_return B LAPLACE_FRAMEWORK_OK
             (r\<lparr>av_effect_disposition := LAPLACE_FRAMEWORK_EFFECT_ACTIVATION_ADMITTED\<rparr>) w)"

definition laplace_framework_admitted_stream_validate ::
  "'h blake3_api \<Rightarrow> laplace_framework_context option \<Rightarrow> laplace_framework_activation_request option
     \<Rightarrow> 'w laplace_framework_activation_provider_v1 option
     \<Rightarrow> laplace_framework_activation_receipt option \<Rightarrow> laplace_framework_status" where
  "laplace_framework_admitted_stream_validate B context request provider receipt =
     (case laplace_framework_context_fingerprint B context (Some 0) of
        (status, context_fingerprint) \<Rightarrow>
          if context = None \<or> request = None \<or> receipt = None
             \<or> \<not> activation_provider_is_valid provider
             \<or> status \<noteq> LAPLACE_FRAMEWORK_OK
             \<or> \<not> admitted_receipt_is_valid B receipt
             \<or> \<not> digest_equal (av_context_fingerprint (the receipt)) (the context_fingerprint)
             \<or> av_epoch_slot (the receipt) \<noteq> aq_epoch_slot (the request)
             \<or> \<not> digest_equal (av_expected_epoch (the receipt)) (aq_expected_epoch (the request))
             \<or> \<not> digest_equal (av_next_epoch (the receipt)) (aq_next_epoch (the request))
          then LAPLACE_FRAMEWORK_ACTIVATION_REQUEST_INVALID
          else LAPLACE_FRAMEWORK_OK)"

definition laplace_framework_commit_admitted_stream ::
  "'h blake3_api \<Rightarrow> laplace_framework_context option \<Rightarrow> laplace_framework_activation_request option
     \<Rightarrow> 'w laplace_framework_activation_provider_v1 option
     \<Rightarrow> laplace_framework_activation_receipt option \<Rightarrow> 'w
     \<Rightarrow> laplace_framework_status \<times> laplace_framework_activation_receipt option \<times> 'w" where
  "laplace_framework_commit_admitted_stream B context request provider receipt w =
     (let status = laplace_framework_admitted_stream_validate B context request provider receipt in
      if status \<noteq> LAPLACE_FRAMEWORK_OK then (status, receipt, w)
      else
      let p = the provider; q = the request; r = the receipt;
          (status, activation, w) =
            the (ap_commit p) w q (av_preparation_fingerprint r) (av_activation_fingerprint r);
          r = r\<lparr>av_activation_fingerprint := activation\<rparr> in
      if status \<noteq> LAPLACE_FRAMEWORK_OK
      then activation_return B LAPLACE_FRAMEWORK_ACTIVATION_COMMIT_FAILED r
             (the (ap_abort p) w q (av_preparation_fingerprint r))
      else activation_return B LAPLACE_FRAMEWORK_OK
             (r\<lparr>av_effect_disposition := LAPLACE_FRAMEWORK_EFFECT_ACTIVATED\<rparr>) w)"

definition laplace_framework_committed_receipts_validate ::
  "'h blake3_api \<Rightarrow> laplace_digest256 option \<Rightarrow> laplace_digest256 option
     \<Rightarrow> laplace_framework_activation_request option \<Rightarrow> laplace_digest256 option
     \<Rightarrow> laplace_digest256 option \<Rightarrow> laplace_digest256 option \<Rightarrow> laplace_digest256 option
     \<Rightarrow> laplace_framework_status" where
  "laplace_framework_committed_receipts_validate B context_fingerprint staged_receipt_id request
       preparation_fingerprint activation_fingerprint admission_receipt_id activation_receipt_id =
     (if context_fingerprint = None \<or> staged_receipt_id = None \<or> request = None
         \<or> preparation_fingerprint = None \<or> activation_fingerprint = None
         \<or> admission_receipt_id = None \<or> activation_receipt_id = None
         \<or> request_is_invalid (the request)
      then LAPLACE_FRAMEWORK_ACTIVATION_REQUEST_INVALID
      else
      let q = the request;
          staged = stream_receipt_zero\<lparr>sr_receipt_id := the staged_receipt_id\<rparr>;
          expected = activation_receipt_zero\<lparr>
            av_context_fingerprint := the context_fingerprint,
            av_staged_receipt_id := the staged_receipt_id,
            av_expected_epoch := aq_expected_epoch q, av_next_epoch := aq_next_epoch q,
            av_epoch_slot := aq_epoch_slot q,
            av_preparation_fingerprint := the preparation_fingerprint,
            av_status := LAPLACE_FRAMEWORK_OK,
            av_effect_disposition := LAPLACE_FRAMEWORK_EFFECT_ACTIVATION_ADMITTED,
            av_request_fingerprint := hash_activation_request B staged q\<rparr>;
          expected = hash_activation_receipt B expected in
      if \<not> digest_equal (av_receipt_id expected) (the admission_receipt_id)
      then LAPLACE_FRAMEWORK_ACTIVATION_REQUEST_INVALID
      else
      let expected = expected\<lparr>av_activation_fingerprint := the activation_fingerprint,
            av_effect_disposition := LAPLACE_FRAMEWORK_EFFECT_ACTIVATED\<rparr>;
          expected = hash_activation_receipt B expected in
      if digest_equal (av_receipt_id expected) (the activation_receipt_id)
      then LAPLACE_FRAMEWORK_OK else LAPLACE_FRAMEWORK_ACTIVATION_REQUEST_INVALID)"

definition laplace_framework_abort_admitted_stream ::
  "'h blake3_api \<Rightarrow> laplace_framework_context option \<Rightarrow> laplace_framework_activation_request option
     \<Rightarrow> 'w laplace_framework_activation_provider_v1 option
     \<Rightarrow> laplace_framework_activation_receipt option \<Rightarrow> 'w
     \<Rightarrow> laplace_framework_status \<times> laplace_framework_activation_receipt option \<times> 'w" where
  "laplace_framework_abort_admitted_stream B context request provider receipt w =
     (case laplace_framework_context_fingerprint B context (Some 0) of
        (status, context_fingerprint) \<Rightarrow>
          if context = None \<or> request = None \<or> receipt = None
             \<or> \<not> activation_provider_is_valid provider
             \<or> status \<noteq> LAPLACE_FRAMEWORK_OK
             \<or> \<not> admitted_receipt_is_valid B receipt
             \<or> \<not> digest_equal (av_context_fingerprint (the receipt)) (the context_fingerprint)
             \<or> av_epoch_slot (the receipt) \<noteq> aq_epoch_slot (the request)
             \<or> \<not> digest_equal (av_expected_epoch (the receipt)) (aq_expected_epoch (the request))
             \<or> \<not> digest_equal (av_next_epoch (the receipt)) (aq_next_epoch (the request))
          then (LAPLACE_FRAMEWORK_ACTIVATION_REQUEST_INVALID, receipt, w)
          else
            let p = the provider; q = the request; r = the receipt;
                w = the (ap_abort p) w q (av_preparation_fingerprint r) in
            activation_return B LAPLACE_FRAMEWORK_OK
              (r\<lparr>av_activation_fingerprint := 0,
                 av_effect_disposition := LAPLACE_FRAMEWORK_EFFECT_STAGED_INERT\<rparr>) w)"

definition laplace_framework_activate_staged_stream ::
  "'h blake3_api \<Rightarrow> laplace_framework_context option \<Rightarrow> laplace_framework_stream_receipt option
     \<Rightarrow> laplace_framework_activation_request option
     \<Rightarrow> 'w laplace_framework_activation_provider_v1 option
     \<Rightarrow> laplace_framework_activation_receipt option \<Rightarrow> 'w
     \<Rightarrow> laplace_framework_status \<times> laplace_framework_activation_receipt option \<times> 'w" where
  "laplace_framework_activate_staged_stream B context staged_receipt request provider receipt w =
     (case laplace_framework_admit_staged_stream B context staged_receipt request provider receipt w of
        (status, receipt, w) \<Rightarrow>
          if status \<noteq> LAPLACE_FRAMEWORK_OK then (status, receipt, w)
          else laplace_framework_commit_admitted_stream B context request provider receipt w)"

section \<open>Admission\<close>

text \<open>What a request has to satisfy before the provider is asked to prepare: the conditions of
  the admission function, in one place.\<close>

definition admissible ::
  "'h blake3_api \<Rightarrow> laplace_framework_context option \<Rightarrow> laplace_framework_stream_receipt option
     \<Rightarrow> laplace_framework_activation_request option
     \<Rightarrow> 'w laplace_framework_activation_provider_v1 option \<Rightarrow> bool" where
  "admissible B c staged q p \<longleftrightarrow>
     laplace_framework_stream_receipt_validate B c staged = LAPLACE_FRAMEWORK_OK
     \<and> (case (c, q) of
          (Some c, Some q) \<Rightarrow>
            \<not> request_is_invalid q
            \<and> \<not> bit (fc_flags c) 1
            \<and> bit (fc_epoch_mask c) (unat (aq_epoch_slot q))
            \<and> fc_epochs c ! unat (aq_epoch_slot q) = aq_expected_epoch q
        | _ \<Rightarrow> False)
     \<and> activation_provider_is_valid p"

lemma receipt_validate_OK:
  "laplace_framework_stream_receipt_validate B c staged = LAPLACE_FRAMEWORK_OK \<longleftrightarrow>
     laplace_framework_context_validate c = LAPLACE_FRAMEWORK_OK
     \<and> stream_receipt_is_valid B staged
     \<and> sr_context_fingerprint (the staged)
         = hasher_finalize B (updates B (hasher_init B) (context_chunks (the c)))"
  by (auto simp: laplace_framework_stream_receipt_validate_def laplace_framework_context_fingerprint_def
      Let_def)

lemma read_only_bit: "x AND LAPLACE_FRAMEWORK_CONTEXT_READ_ONLY \<noteq> 0 \<longleftrightarrow> bit x 1"
  using and_exp_eq_0_iff_not_bit [of x 1] by (simp add: LAPLACE_FRAMEWORK_CONTEXT_READ_ONLY_def)

text \<open>The receipt of an admission, up to the effect, the status and the hash.\<close>

definition admission_body ::
  "'h blake3_api \<Rightarrow> laplace_framework_context \<Rightarrow> laplace_framework_stream_receipt
     \<Rightarrow> laplace_framework_activation_request \<Rightarrow> laplace_digest256
     \<Rightarrow> laplace_framework_activation_receipt" where
  "admission_body B c staged q preparation = activation_receipt_zero\<lparr>
     av_context_fingerprint := hasher_finalize B (updates B (hasher_init B) (context_chunks c)),
     av_staged_receipt_id := sr_receipt_id staged,
     av_expected_epoch := aq_expected_epoch q, av_next_epoch := aq_next_epoch q,
     av_epoch_slot := aq_epoch_slot q,
     av_request_fingerprint := hash_activation_request B staged q,
     av_preparation_fingerprint := preparation\<rparr>"

lemma admit_admissible:
  assumes "admissible B (Some c) (Some staged) (Some q) (Some p)"
  shows "laplace_framework_admit_staged_stream B (Some c) (Some staged) (Some q) (Some p) (Some r0) w =
    (case the (ap_prepare p) w c staged q 0 of (status, preparation, w') \<Rightarrow>
       if status \<noteq> LAPLACE_FRAMEWORK_OK
       then activation_return B LAPLACE_FRAMEWORK_ACTIVATION_ADMISSION_FAILED
              ((admission_body B c staged q preparation)\<lparr>av_effect_disposition := LAPLACE_FRAMEWORK_EFFECT_STAGED_INERT\<rparr>)
              (the (ap_abort p) w' q preparation)
       else activation_return B LAPLACE_FRAMEWORK_OK
              ((admission_body B c staged q preparation)\<lparr>av_effect_disposition := LAPLACE_FRAMEWORK_EFFECT_ACTIVATION_ADMITTED\<rparr>) w')"
  using assms
  by (auto simp: laplace_framework_admit_staged_stream_def admissible_def receipt_validate_OK Let_def
      laplace_framework_context_fingerprint_def read_only_bit and_exp_eq_0_iff_not_bit admission_body_def
      activation_receipt_zero_def split: prod.splits)

lemma admissible_Some:
  assumes "admissible B c staged q p"
  obtains c' staged' q' p' where "c = Some c'" "staged = Some staged'" "q = Some q'" "p = Some p'"
  using assms
  by (cases c; cases staged; cases q; cases p)
     (auto simp: admissible_def receipt_validate_OK stream_receipt_is_valid_def activation_provider_is_valid_def)

lemma admit_refused:
  assumes "\<not> admissible B c staged q p"
  obtains st r where
    "laplace_framework_admit_staged_stream B c staged q p (Some r0) w = activation_return B st r w"
    "st \<noteq> LAPLACE_FRAMEWORK_OK" "av_effect_disposition r = 0"
proof -
  have z: "av_effect_disposition activation_receipt_zero = 0" by (simp add: activation_receipt_zero_def)
  show thesis
  proof (cases "laplace_framework_context_validate c = LAPLACE_FRAMEWORK_OK")
    case False
    show thesis
      by (rule that [of "laplace_framework_context_validate c" "activation_receipt_zero\<lparr>av_context_fingerprint := 0\<rparr>"])
         (use False z in \<open>auto simp: laplace_framework_admit_staged_stream_def Let_def
          laplace_framework_context_fingerprint_def\<close>)
  next
    case True
    then obtain c' where c: "c = Some c'" by (cases c) (auto simp: laplace_framework_context_validate_def)
    show thesis
    proof (cases "laplace_framework_stream_receipt_validate B c staged \<noteq> LAPLACE_FRAMEWORK_OK
        \<or> q = None \<or> request_is_invalid (the q)")
      case bad: True
      show thesis
        by (rule that [of LAPLACE_FRAMEWORK_ACTIVATION_REQUEST_INVALID "activation_receipt_zero\<lparr>
             av_context_fingerprint := hasher_finalize B (updates B (hasher_init B) (context_chunks c'))\<rparr>"])
           (use True bad z in \<open>auto simp: c laplace_framework_admit_staged_stream_def Let_def
             laplace_framework_context_fingerprint_def\<close>)
    next
      case good: False
      define r where "r = activation_receipt_zero\<lparr>
        av_context_fingerprint := hasher_finalize B (updates B (hasher_init B) (context_chunks c')),
        av_staged_receipt_id := sr_receipt_id (the staged),
        av_expected_epoch := aq_expected_epoch (the q), av_next_epoch := aq_next_epoch (the q),
        av_epoch_slot := aq_epoch_slot (the q),
        av_request_fingerprint := hash_activation_request B (the staged) (the q)\<rparr>"
      have rz: "av_effect_disposition r = 0" using z by (simp add: r_def)
      have "\<not> (\<not> bit (fc_flags c') 1 \<and> bit (fc_epoch_mask c') (unat (aq_epoch_slot (the q)))
          \<and> fc_epochs c' ! unat (aq_epoch_slot (the q)) = aq_expected_epoch (the q)
          \<and> activation_provider_is_valid p)"
        using assms good by (auto simp: admissible_def c)
      then consider "bit (fc_flags c') 1"
        | "\<not> bit (fc_flags c') 1" "\<not> bit (fc_epoch_mask c') (unat (aq_epoch_slot (the q)))
            \<or> fc_epochs c' ! unat (aq_epoch_slot (the q)) \<noteq> aq_expected_epoch (the q)"
        | "\<not> bit (fc_flags c') 1" "bit (fc_epoch_mask c') (unat (aq_epoch_slot (the q)))"
          "fc_epochs c' ! unat (aq_epoch_slot (the q)) = aq_expected_epoch (the q)"
          "\<not> activation_provider_is_valid p"
        by blast
      then show thesis
      proof cases
        case 1
        show thesis
          by (rule that [of LAPLACE_FRAMEWORK_EFFECT_NOT_AUTHORIZED r])
             (use True good 1 rz in \<open>auto simp: laplace_framework_admit_staged_stream_def Let_def c
               laplace_framework_context_fingerprint_def read_only_bit r_def\<close>)
      next
        case 2
        show thesis
          by (rule that [of LAPLACE_FRAMEWORK_ACTIVATION_REQUEST_INVALID r])
             (use True good 2 rz in \<open>auto simp: laplace_framework_admit_staged_stream_def Let_def c
               laplace_framework_context_fingerprint_def read_only_bit and_exp_eq_0_iff_not_bit r_def\<close>)
      next
        case 3
        show thesis
          by (rule that [of LAPLACE_FRAMEWORK_ACTIVATION_PROVIDER_INVALID r])
             (use True good 3 rz in \<open>auto simp: laplace_framework_admit_staged_stream_def Let_def c
               laplace_framework_context_fingerprint_def read_only_bit and_exp_eq_0_iff_not_bit r_def\<close>)
      qed
    qed
  qed
qed

lemma admitted_body_valid:
  assumes "unat (av_epoch_slot r) < LAPLACE_FRAMEWORK_EPOCH_COUNT" "av_reserved r = 0"
    "av_status r = LAPLACE_FRAMEWORK_OK"
    "av_effect_disposition r = LAPLACE_FRAMEWORK_EFFECT_ACTIVATION_ADMITTED"
  shows "admitted_receipt_is_valid B (Some (hash_activation_receipt B r))"
  using assms
  by (simp add: admitted_receipt_is_valid_def hash_activation_receipt_def activation_receipt_chunks_def)

text \<open>The receipt of a successful admission, and the commit-side check of it.\<close>

definition admission_receipt ::
  "'h blake3_api \<Rightarrow> laplace_framework_context \<Rightarrow> laplace_framework_stream_receipt
     \<Rightarrow> laplace_framework_activation_request \<Rightarrow> laplace_digest256
     \<Rightarrow> laplace_framework_activation_receipt" where
  "admission_receipt B c staged q preparation =
     hash_activation_receipt B ((admission_body B c staged q preparation)\<lparr>
       av_effect_disposition := LAPLACE_FRAMEWORK_EFFECT_ACTIVATION_ADMITTED,
       av_status := LAPLACE_FRAMEWORK_OK\<rparr>)"

lemma admission_receipt_validates:
  assumes "admissible B (Some c) (Some staged) (Some q) p" "activation_provider_is_valid p'"
  shows "laplace_framework_admitted_stream_validate B (Some c) (Some q) p'
    (Some (admission_receipt B c staged q d)) = LAPLACE_FRAMEWORK_OK"
proof -
  have "unat (aq_epoch_slot q) < LAPLACE_FRAMEWORK_EPOCH_COUNT"
    using assms by (simp add: admissible_def request_is_invalid_def)
  then have "admitted_receipt_is_valid B (Some (admission_receipt B c staged q d))"
    unfolding admission_receipt_def
    by (intro admitted_body_valid) (simp_all add: admission_body_def activation_receipt_zero_def)
  moreover have "laplace_framework_context_validate (Some c) = LAPLACE_FRAMEWORK_OK"
    using assms by (simp add: admissible_def receipt_validate_OK)
  ultimately show ?thesis
    using assms(2)
    by (simp add: laplace_framework_admitted_stream_validate_def admission_receipt_def
        laplace_framework_context_fingerprint_def hash_activation_receipt_def admission_body_def)
qed

section \<open>Observing the provider\<close>

datatype provider_event = PvPrepare | PvCommit laplace_digest256 | PvAbort laplace_digest256

definition logged_provider ::
  "'w laplace_framework_activation_provider_v1
     \<Rightarrow> ('w \<times> provider_event list) laplace_framework_activation_provider_v1" where
  "logged_provider p =
     \<lparr>ap_prepare = map_option (\<lambda>f (w, l) c s q d.
         case f w c s q d of (st, d', w') \<Rightarrow> (st, d', w', l @ [PvPrepare])) (ap_prepare p),
      ap_commit = map_option (\<lambda>f (w, l) q d a.
         case f w q d a of (st, a', w') \<Rightarrow> (st, a', w', l @ [PvCommit d])) (ap_commit p),
      ap_abort = map_option (\<lambda>f (w, l) q d. (f w q d, l @ [PvAbort d])) (ap_abort p),
      ap_abi_major = ap_abi_major p, ap_abi_minor = ap_abi_minor p,
      ap_flags = ap_flags p, ap_reserved = ap_reserved p\<rparr>"

lemma logged_provider_valid [simp]:
  "activation_provider_is_valid (Some (logged_provider p)) = activation_provider_is_valid (Some p)"
  by (simp add: activation_provider_is_valid_def logged_provider_def)

text \<open>A caller holds an activation receipt and issues commits and aborts on it, with whatever
  context and request.\<close>

inductive activation_step ::
  "'h blake3_api \<Rightarrow> 'w laplace_framework_activation_provider_v1
     \<Rightarrow> laplace_framework_activation_receipt \<times> 'w \<Rightarrow> laplace_framework_activation_receipt \<times> 'w \<Rightarrow> bool"
  for B p where
  step_commit: "laplace_framework_commit_admitted_stream B c q (Some p) (Some r) w = (st, Some r', w')
     \<Longrightarrow> activation_step B p (r, w) (r', w')"
| step_abort: "laplace_framework_abort_admitted_stream B c q (Some p) (Some r) w = (st, Some r', w')
     \<Longrightarrow> activation_step B p (r, w) (r', w')"

inductive_cases activation_stepE: "activation_step B p (r, w) s"

lemma return_settled:
  "st \<noteq> LAPLACE_FRAMEWORK_OK \<or> av_effect_disposition r \<noteq> LAPLACE_FRAMEWORK_EFFECT_ACTIVATION_ADMITTED \<Longrightarrow>
   \<not> admitted_receipt_is_valid B (Some (hash_activation_receipt B (r\<lparr>av_status := st\<rparr>)))"
  by (auto simp: admitted_receipt_is_valid_def hash_activation_receipt_def)

text \<open>What a receipt looks like after each of the possible call sequences of the provider.\<close>

fun settled_by ::
  "laplace_digest256 \<Rightarrow> laplace_framework_activation_receipt \<Rightarrow> provider_event list \<Rightarrow> bool" where
  "settled_by d r [PvCommit x] \<longleftrightarrow> x = d
     \<and> av_effect_disposition r = LAPLACE_FRAMEWORK_EFFECT_ACTIVATED \<and> av_status r = LAPLACE_FRAMEWORK_OK"
| "settled_by d r [PvCommit x, PvAbort y] \<longleftrightarrow> x = d \<and> y = d
     \<and> av_status r = LAPLACE_FRAMEWORK_ACTIVATION_COMMIT_FAILED"
| "settled_by d r [PvAbort x] \<longleftrightarrow> x = d
     \<and> av_effect_disposition r = LAPLACE_FRAMEWORK_EFFECT_STAGED_INERT \<and> av_status r = LAPLACE_FRAMEWORK_OK"
| "settled_by d r _ \<longleftrightarrow> False"

lemma settled_not_admitted: "settled_by d r l \<Longrightarrow> \<not> admitted_receipt_is_valid B (Some r)"
  by (induction d r l rule: settled_by.induct) (auto simp: admitted_receipt_is_valid_def effect_codes)

lemma commit_admitted_logged:
  assumes "laplace_framework_commit_admitted_stream B c q (Some (logged_provider p)) (Some r) (w, l)
      = (st, Some r', w', l')"
  shows "r' = r \<and> w' = w \<and> l' = l
    \<or> admitted_receipt_is_valid B (Some r)
      \<and> (\<exists>k. l' = l @ k \<and> settled_by (av_preparation_fingerprint r) r' k)"
proof (cases "laplace_framework_admitted_stream_validate B c q (Some (logged_provider p)) (Some r)
    = LAPLACE_FRAMEWORK_OK")
  case True
  then have "admitted_receipt_is_valid B (Some r)" and "activation_provider_is_valid (Some p)"
    by (auto simp: laplace_framework_admitted_stream_validate_def split: if_splits prod.splits)
  with True assms show ?thesis
    by (auto simp: laplace_framework_commit_admitted_stream_def Let_def logged_provider_def
        activation_provider_is_valid_def activation_return_def hash_activation_receipt_def
        split: prod.splits if_splits)
qed (use assms in \<open>simp add: laplace_framework_commit_admitted_stream_def Let_def\<close>)

lemma abort_admitted_logged:
  assumes "laplace_framework_abort_admitted_stream B c q (Some (logged_provider p)) (Some r) (w, l)
      = (st, Some r', w', l')"
  shows "r' = r \<and> w' = w \<and> l' = l
    \<or> admitted_receipt_is_valid B (Some r)
      \<and> (\<exists>k. l' = l @ k \<and> settled_by (av_preparation_fingerprint r) r' k)"
  using assms
  by (auto simp: laplace_framework_abort_admitted_stream_def Let_def logged_provider_def
      activation_provider_is_valid_def activation_return_def hash_activation_receipt_def
      split: prod.splits if_splits)

section \<open>Properties\<close>

text \<open>C8: an admission has an effect only when everything checks.  If the context is valid and not
  read-only, the staged receipt is the receipt of a stream staged under that context, the request is
  well formed and expects the epoch the context holds in its slot, and the provider is well formed,
  then the provider is asked to prepare; on its OK the admission succeeds with a receipt that binds
  context, staged stream, request and preparation and that the commit-side check accepts, and on any
  other answer the preparation is aborted.  In every other case the admission fails, no callback
  runs and the receipt claims no effect.\<close>

theorem admission_exact:
  assumes run: "laplace_framework_admit_staged_stream B c staged q p (Some r0) w = (st, rc, w')"
  shows "if admissible B c staged q p
    then (case the (ap_prepare (the p)) w (the c) (the staged) (the q) 0 of
       (status, preparation, w1) \<Rightarrow>
         if status = LAPLACE_FRAMEWORK_OK
         then st = LAPLACE_FRAMEWORK_OK \<and> w' = w1
           \<and> laplace_framework_admitted_stream_validate B c q p rc = LAPLACE_FRAMEWORK_OK
           \<and> av_staged_receipt_id (the rc) = sr_receipt_id (the staged)
           \<and> av_preparation_fingerprint (the rc) = preparation
           \<and> av_context_fingerprint (the rc) = sr_context_fingerprint (the staged)
         else st = LAPLACE_FRAMEWORK_ACTIVATION_ADMISSION_FAILED
           \<and> w' = the (ap_abort (the p)) w1 (the q) preparation
           \<and> av_effect_disposition (the rc) = LAPLACE_FRAMEWORK_EFFECT_STAGED_INERT)
    else st \<noteq> LAPLACE_FRAMEWORK_OK \<and> w' = w \<and> av_effect_disposition (the rc) = 0"
proof (cases "admissible B c staged q p")
  case False
  then obtain st' r where
    "laplace_framework_admit_staged_stream B c staged q p (Some r0) w = activation_return B st' r w"
    "st' \<noteq> LAPLACE_FRAMEWORK_OK" "av_effect_disposition r = 0"
    by (rule admit_refused)
  with False run show ?thesis by (auto simp: activation_return_def hash_activation_receipt_def)
next
  case True
  then obtain c' s' q' p' where some: "c = Some c'" "staged = Some s'" "q = Some q'" "p = Some p'"
    by (rule admissible_Some)
  obtain status d w1 where prep: "the (ap_prepare p') w c' s' q' 0 = (status, d, w1)"
    by (metis prod_cases3)
  note adm = True [unfolded some]
  have ctx: "sr_context_fingerprint s' = hasher_finalize B (updates B (hasher_init B) (context_chunks c'))"
    "activation_provider_is_valid (Some p')"
    using adm by (auto simp: admissible_def receipt_validate_OK)
  note valid = admission_receipt_validates [OF adm ctx(2), of d]
  have fields: "av_staged_receipt_id (admission_receipt B c' s' q' d) = sr_receipt_id s'"
    "av_preparation_fingerprint (admission_receipt B c' s' q' d) = d"
    "av_context_fingerprint (admission_receipt B c' s' q' d) = sr_context_fingerprint s'"
    by (simp_all add: admission_receipt_def hash_activation_receipt_def admission_body_def ctx)
  show ?thesis
    using True run [unfolded some admit_admissible [OF adm] prep] valid fields
    by (auto simp: some prep activation_return_def hash_activation_receipt_def admission_receipt_def
        split: if_splits)
qed

text \<open>C7: an admission is settled at most once.  Whatever sequence of commits and aborts is issued
  on a receipt, with whatever contexts and requests, the provider sees, for the preparation of that
  receipt, either nothing, one commit, one commit followed by its abort, or one abort.  As long as
  nothing was called the receipt and the world are what they were; afterwards the receipt records
  the outcome and is no longer accepted as an admission.\<close>

theorem activation_settles_once:
  assumes "(activation_step B (logged_provider p))\<^sup>*\<^sup>* (r, w, []) (r', w', l)"
  shows "(l = [] \<and> r' = r \<and> w' = w)
    \<or> (admitted_receipt_is_valid B (Some r) \<and> settled_by (av_preparation_fingerprint r) r' l
        \<and> \<not> admitted_receipt_is_valid B (Some r'))"
proof -
  let ?J = "\<lambda>(r', w', l). (l = [] \<and> r' = r \<and> w' = w)
    \<or> (admitted_receipt_is_valid B (Some r) \<and> settled_by (av_preparation_fingerprint r) r' l)"
  have "?J s" if "(activation_step B (logged_provider p))\<^sup>*\<^sup>* (r, w, []) s" for s
    using that
  proof (induction rule: rtranclp_induct)
    case (step s t)
    obtain r1 w1 l1 where s: "s = (r1, w1, l1)" by (cases s)
    obtain r2 w2 l2 where t: "t = (r2, w2, l2)" by (cases t)
    have "r2 = r1 \<and> w2 = w1 \<and> l2 = l1
        \<or> admitted_receipt_is_valid B (Some r1)
          \<and> (\<exists>k. l2 = l1 @ k \<and> settled_by (av_preparation_fingerprint r1) r2 k)"
      using step.hyps(2) [unfolded s t]
      by (elim activation_stepE) (simp_all add: commit_admitted_logged abort_admitted_logged)
    with step.IH show ?case unfolding s t by (auto dest: settled_not_admitted)
  qed simp
  from this [OF assms] show ?thesis by (auto dest: settled_not_admitted)
qed

text \<open>C33: the receipts of an activation verify.  When an admission and the commit of its receipt
  both return OK, the check of retained receipts accepts the context fingerprint, the staged
  receipt, the request, the two fingerprints of the provider and exactly these two receipt
  identities: it refuses every other pair.\<close>

theorem activation_receipts_verify:
  assumes admit: "laplace_framework_admit_staged_stream B c staged q p (Some r0) w
      = (LAPLACE_FRAMEWORK_OK, Some a, w1)"
    and commit: "laplace_framework_commit_admitted_stream B c q p (Some a) w1
      = (LAPLACE_FRAMEWORK_OK, Some b, w2)"
  shows "laplace_framework_committed_receipts_validate B (Some (av_context_fingerprint b))
      (Some (sr_receipt_id (the staged))) q (Some (av_preparation_fingerprint b))
      (Some (av_activation_fingerprint b)) (Some x) (Some y) = LAPLACE_FRAMEWORK_OK
    \<longleftrightarrow> x = av_receipt_id a \<and> y = av_receipt_id b"
proof -
  have "admissible B c staged q p"
  proof (rule ccontr)
    assume "\<not> admissible B c staged q p"
    then obtain st r where
      "laplace_framework_admit_staged_stream B c staged q p (Some r0) w = activation_return B st r w"
      "st \<noteq> LAPLACE_FRAMEWORK_OK"
      by (rule admit_refused)
    with admit show False by (simp add: activation_return_def)
  qed
  note ok = this
  obtain c' s' q' p' where some: "c = Some c'" "staged = Some s'" "q = Some q'" "p = Some p'"
    using ok by (rule admissible_Some)
  note adm = ok [unfolded some]
  obtain d where a: "a = hash_activation_receipt B ((admission_body B c' s' q' d)\<lparr>
      av_effect_disposition := LAPLACE_FRAMEWORK_EFFECT_ACTIVATION_ADMITTED, av_status := LAPLACE_FRAMEWORK_OK\<rparr>)"
    using admit [unfolded some admit_admissible [OF adm]]
    by (auto simp: activation_return_def split: prod.splits if_splits)
  obtain e where b: "b = hash_activation_receipt B (a\<lparr>av_activation_fingerprint := e,
      av_effect_disposition := LAPLACE_FRAMEWORK_EFFECT_ACTIVATED, av_status := LAPLACE_FRAMEWORK_OK\<rparr>)"
    using commit
    by (auto simp: laplace_framework_commit_admitted_stream_def Let_def activation_return_def
        split: prod.splits if_splits)
  define E where "E = activation_receipt_zero\<lparr>
      av_context_fingerprint := av_context_fingerprint b, av_staged_receipt_id := sr_receipt_id s',
      av_expected_epoch := aq_expected_epoch q', av_next_epoch := aq_next_epoch q',
      av_epoch_slot := aq_epoch_slot q', av_preparation_fingerprint := av_preparation_fingerprint b,
      av_status := LAPLACE_FRAMEWORK_OK,
      av_effect_disposition := LAPLACE_FRAMEWORK_EFFECT_ACTIVATION_ADMITTED,
      av_request_fingerprint := hash_activation_request B
        (stream_receipt_zero\<lparr>sr_receipt_id := sr_receipt_id s'\<rparr>) q'\<rparr>"
  have req: "hash_activation_request B (stream_receipt_zero\<lparr>sr_receipt_id := sr_receipt_id s'\<rparr>) q'
      = hash_activation_request B s' q'"
    by (simp add: hash_activation_request_def)
  have fields: "av_context_fingerprint b = av_context_fingerprint (admission_body B c' s' q' d)"
    "av_preparation_fingerprint b = d" "av_activation_fingerprint b = e"
    by (simp_all add: b a hash_activation_receipt_def admission_body_def)
  have "E = (admission_body B c' s' q' d)\<lparr>
      av_effect_disposition := LAPLACE_FRAMEWORK_EFFECT_ACTIVATION_ADMITTED, av_status := LAPLACE_FRAMEWORK_OK\<rparr>"
    by (simp add: E_def req fields admission_body_def activation_receipt_zero_def)
  then have Ea: "hash_activation_receipt B E = a" by (simp add: a)
  have "av_status a = LAPLACE_FRAMEWORK_OK" by (simp add: a hash_activation_receipt_def)
  then have "hash_activation_receipt B (a\<lparr>av_activation_fingerprint := e,
      av_effect_disposition := LAPLACE_FRAMEWORK_EFFECT_ACTIVATED\<rparr>) = b"
    unfolding b by (intro arg_cong [of _ _ "hash_activation_receipt B"]) (cases a, simp)
  moreover have "\<not> request_is_invalid q'" using adm by (simp add: admissible_def)
  ultimately show ?thesis
    by (auto simp: laplace_framework_committed_receipts_validate_def Let_def some E_def [symmetric] Ea fields(3))
qed

text \<open>A provider that prepares and commits, on a counter as its world.\<close>

definition sample_provider :: "nat laplace_framework_activation_provider_v1" where
  "sample_provider =
     \<lparr>ap_prepare = Some (\<lambda>w c s q d. (LAPLACE_FRAMEWORK_OK, sample_digest [3], w + 1)),
      ap_commit = Some (\<lambda>w q d a. (LAPLACE_FRAMEWORK_OK, sample_digest [4], w + 10)),
      ap_abort = Some (\<lambda>w q d. w + 100),
      ap_abi_major = 1, ap_abi_minor = 0, ap_flags = 0, ap_reserved = 0\<rparr>"

definition sample_writable :: laplace_framework_context where
  "sample_writable = (sample_context (sample_digest [1]))\<lparr>fc_flags := 0\<rparr>"

definition sample_staged :: laplace_framework_stream_receipt where
  "sample_staged = hash_stream_receipt sample_blake3 (stream_receipt_zero\<lparr>
     sr_effect_disposition := LAPLACE_FRAMEWORK_EFFECT_STAGED_INERT,
     sr_record_type := 3, sr_total_records := 3, sr_total_bytes := 5, sr_batch_count := 2, sr_sink_count := 1,
     sr_failed_batch_index := LAPLACE_FRAMEWORK_NO_INDEX, sr_failed_sink_index := LAPLACE_FRAMEWORK_NO_INDEX,
     sr_context_fingerprint := sample_digest (concat (context_chunks sample_writable))\<rparr>)"

definition sample_request :: laplace_framework_activation_request where
  "sample_request =
     \<lparr>aq_expected_epoch = sample_digest [7], aq_next_epoch = sample_digest [8], aq_epoch_slot = 0,
      aq_flags = 0, aq_reserved = 0\<rparr>"

lemma sample_admissible:
  "admissible sample_blake3 (Some sample_writable) (Some sample_staged) (Some sample_request) (Some sample_provider)"
  by code_simp

definition sample_admission ::
  "laplace_framework_status \<times> laplace_framework_activation_receipt option \<times> nat" where
  "sample_admission = laplace_framework_admit_staged_stream sample_blake3 (Some sample_writable)
     (Some sample_staged) (Some sample_request) (Some sample_provider) (Some activation_receipt_zero) 0"

theorem admission_exact_witness:
  "\<exists>rc. sample_admission = (LAPLACE_FRAMEWORK_OK, rc, 1)
     \<and> laplace_framework_admitted_stream_validate sample_blake3 (Some sample_writable)
         (Some sample_request) (Some sample_provider) rc = LAPLACE_FRAMEWORK_OK"
proof -
  obtain st rc w' where run: "sample_admission = (st, rc, w')" by (metis prod_cases3)
  from admission_exact [OF run [unfolded sample_admission_def]] sample_admissible run show ?thesis
    by (auto simp: sample_provider_def)
qed

text \<open>The receipt of that admission and its commit through the logged provider.\<close>

definition sample_admitted :: laplace_framework_activation_receipt where
  "sample_admitted = the (fst (snd sample_admission))"

definition sample_commit ::
  "laplace_framework_status \<times> laplace_framework_activation_receipt option \<times> nat \<times> provider_event list" where
  "sample_commit = laplace_framework_commit_admitted_stream sample_blake3 (Some sample_writable)
     (Some sample_request) (Some (logged_provider sample_provider)) (Some sample_admitted) (1, [])"

lemma sample_admission_eq: "sample_admission = (LAPLACE_FRAMEWORK_OK, Some sample_admitted, 1)"
  unfolding sample_admitted_def sample_admission_def admit_admissible [OF sample_admissible]
  by (simp add: sample_provider_def activation_return_def)

lemma sample_admitted_eq:
  "sample_admitted = admission_receipt sample_blake3 sample_writable sample_staged sample_request (sample_digest [3])"
  unfolding sample_admitted_def sample_admission_def admit_admissible [OF sample_admissible]
  by (simp add: sample_provider_def activation_return_def admission_receipt_def)

lemma sample_admitted_validates:
  assumes "activation_provider_is_valid (Some p)"
  shows "laplace_framework_admitted_stream_validate sample_blake3 (Some sample_writable) (Some sample_request)
    (Some p) (Some sample_admitted) = LAPLACE_FRAMEWORK_OK"
  unfolding sample_admitted_eq using sample_admissible assms by (rule admission_receipt_validates)

lemma sample_provider_valid: "activation_provider_is_valid (Some sample_provider)"
  by code_simp

lemma sample_preparation: "av_preparation_fingerprint sample_admitted = sample_digest [3]"
  by (simp add: sample_admitted_eq admission_receipt_def hash_activation_receipt_def admission_body_def)

theorem activation_settles_once_witness:
  "\<exists>r'. activation_step sample_blake3 (logged_provider sample_provider)
       (sample_admitted, 1, []) (r', 11, [PvCommit (sample_digest [3])])
     \<and> settled_by (sample_digest [3]) r' [PvCommit (sample_digest [3])]
     \<and> \<not> admitted_receipt_is_valid sample_blake3 (Some r')"
proof -
  obtain r' where run: "sample_commit = (LAPLACE_FRAMEWORK_OK, Some r', 11, [PvCommit (sample_digest [3])])"
    using sample_admitted_validates [of "logged_provider sample_provider"] sample_provider_valid
    by (simp add: sample_commit_def laplace_framework_commit_admitted_stream_def Let_def sample_preparation)
       (simp add: logged_provider_def sample_provider_def activation_return_def)
  have step: "activation_step sample_blake3 (logged_provider sample_provider)
      (sample_admitted, 1, []) (r', 11, [PvCommit (sample_digest [3])])"
    using run unfolding sample_commit_def by (rule step_commit)
  from activation_settles_once [OF r_into_rtranclp [where r = "activation_step _ _", OF step]] step show ?thesis
    by (auto simp: sample_preparation)
qed

theorem activation_receipts_verify_witness:
  "\<exists>b. laplace_framework_commit_admitted_stream sample_blake3 (Some sample_writable) (Some sample_request)
        (Some sample_provider) (Some sample_admitted) 1 = (LAPLACE_FRAMEWORK_OK, Some b, 11)
     \<and> laplace_framework_committed_receipts_validate sample_blake3 (Some (av_context_fingerprint b))
        (Some (sr_receipt_id sample_staged)) (Some sample_request) (Some (av_preparation_fingerprint b))
        (Some (av_activation_fingerprint b)) (Some (av_receipt_id sample_admitted)) (Some (av_receipt_id b))
        = LAPLACE_FRAMEWORK_OK"
proof -
  obtain b where commit: "laplace_framework_commit_admitted_stream sample_blake3 (Some sample_writable)
      (Some sample_request) (Some sample_provider) (Some sample_admitted) 1 = (LAPLACE_FRAMEWORK_OK, Some b, 11)"
    using sample_admitted_validates [OF sample_provider_valid]
    by (simp add: laplace_framework_commit_admitted_stream_def Let_def)
       (simp add: sample_provider_def activation_return_def)
  from activation_receipts_verify [OF sample_admission_eq [unfolded sample_admission_def] commit] commit
  show ?thesis by auto
qed

end
