(* ===== verification/Machine_Exception.thy ===== *)
theory Machine_Exception
  imports Hashing
begin

text \<open>
  Machine exceptions (\<open>engine/src/machine_exception.c\<close>): the fixed registry of machine
  conditions, its self-check, the classification of a set of simultaneously observed conditions
  into one selected descriptor, and the why-not record derived from a classification receipt.

  The numeric columns of the registry are the values of \<open>contracts/framework.json\<close>
  (section \<open>machine_exception\<close>), from which \<open>cmake/framework.h.in\<close> generates the
  constants the C table names.
\<close>

datatype laplace_machine_exception_status =
    LAPLACE_MACHINE_EXCEPTION_OK
  | LAPLACE_MACHINE_EXCEPTION_INVALID_ARGUMENT
  | LAPLACE_MACHINE_EXCEPTION_UNKNOWN_CONDITION
  | LAPLACE_MACHINE_EXCEPTION_REGISTRY_INVALID

record laplace_machine_exception_descriptor =
  md_condition :: u32
  md_kind :: u32
  md_priority :: u32
  md_capability_flags :: u32
  md_recovery_disposition :: u32
  md_publication_disposition :: u32

record laplace_machine_exception_binding =
  mb_program_fingerprint :: laplace_digest256
  mb_physical_plan_fingerprint :: laplace_digest256
  mb_provider_fingerprint :: laplace_digest256
  mb_node_fingerprint :: laplace_digest256
  mb_world_scope_fingerprint :: laplace_digest256
  mb_transaction_fingerprint :: laplace_digest256
  mb_last_valid_receipt_fingerprint :: laplace_digest256
  mb_durable_boundary_fingerprint :: laplace_digest256
  mb_replay_origin_fingerprint :: laplace_digest256
  mb_invalidated_output_fingerprint :: laplace_digest256
  mb_presence_mask :: u64
  mb_affected_instruction_index :: u64
  mb_invalidated_output_count :: u64
  mb_reserved :: u64

record laplace_machine_exception_receipt =
  mr_selected :: laplace_machine_exception_descriptor
  mr_binding :: laplace_machine_exception_binding
  mr_observed_condition_mask :: u64
  mr_reserved :: u64

record laplace_machine_why_not =
  wn_open_obligations_fingerprint :: laplace_digest256
  wn_continuation_condition_fingerprint :: laplace_digest256
  wn_completed_work_units :: u64
  wn_open_obligation_count :: u64
  wn_limiting_condition :: u32
  wn_recovery_disposition :: u32

text \<open>Bits 0 to 9 of the presence mask name the ten optional bindings.\<close>

definition LAPLACE_MACHINE_EXCEPTION_BIND_KNOWN_MASK :: u64 where
  "LAPLACE_MACHINE_EXCEPTION_BIND_KNOWN_MASK = foldr (\<lambda>i m. push_bit i 1 OR m) [0..<10] 0"

definition LAPLACE_MACHINE_CONDITION_NONE :: u32 where "LAPLACE_MACHINE_CONDITION_NONE = 0"
definition LAPLACE_MACHINE_CONDITION_COUNT :: u32 where "LAPLACE_MACHINE_CONDITION_COUNT = 20"
definition LAPLACE_MACHINE_KIND_TERMINAL_DISPOSITION :: u32 where
  "LAPLACE_MACHINE_KIND_TERMINAL_DISPOSITION = 5"
definition LAPLACE_MACHINE_CAPABILITY_KNOWN_MASK :: u32 where
  "LAPLACE_MACHINE_CAPABILITY_KNOWN_MASK = 127"
definition LAPLACE_MACHINE_RECOVERY_TYPED_LIMIT :: u32 where
  "LAPLACE_MACHINE_RECOVERY_TYPED_LIMIT = 4"
definition LAPLACE_MACHINE_PUBLICATION_UPPER_BOUND :: u32 where
  "LAPLACE_MACHINE_PUBLICATION_UPPER_BOUND = 2"

text \<open>The columns: condition, kind, priority, capability flags, recovery, publication.\<close>

definition machine_descriptor ::
  "u32 \<Rightarrow> u32 \<Rightarrow> u32 \<Rightarrow> u32 \<Rightarrow> u32 \<Rightarrow> u32 \<Rightarrow> laplace_machine_exception_descriptor" where
  "machine_descriptor c k p f r q =
     \<lparr>md_condition = c, md_kind = k, md_priority = p, md_capability_flags = f,
      md_recovery_disposition = r, md_publication_disposition = q\<rparr>"

definition k_descriptors :: "laplace_machine_exception_descriptor list" where
  "k_descriptors =
    [machine_descriptor 0 0 65535 0 0 0, \<comment> \<open>NONE\<close>
     machine_descriptor 1 1 10 65 0 0, \<comment> \<open>INVALID_INSTRUCTION\<close>
     machine_descriptor 2 1 20 65 0 0, \<comment> \<open>INVALID_OPERAND\<close>
     machine_descriptor 3 3 30 65 0 0, \<comment> \<open>IMPLEMENTATION_FAULT\<close>
     machine_descriptor 4 3 40 31 2 0, \<comment> \<open>DURABILITY_FAULT\<close>
     machine_descriptor 5 3 50 31 2 0, \<comment> \<open>STORAGE_FAULT\<close>
     machine_descriptor 6 3 60 31 2 0, \<comment> \<open>HARDWARE_FAULT\<close>
     machine_descriptor 7 3 70 19 3 0, \<comment> \<open>CONSISTENCY_FAULT\<close>
     machine_descriptor 8 3 80 31 2 0, \<comment> \<open>NETWORK_FAULT\<close>
     machine_descriptor 9 3 90 31 2 0, \<comment> \<open>PROVIDER_UNAVAILABLE\<close>
     machine_descriptor 10 1 100 65 0 0, \<comment> \<open>AUTHORITY_DENIED\<close>
     machine_descriptor 11 4 110 19 3 0, \<comment> \<open>CANCELLED\<close>
     machine_descriptor 12 2 120 23 1 0, \<comment> \<open>DEADLINE_EXCEEDED\<close>
     machine_descriptor 13 5 130 23 1 0, \<comment> \<open>RESOURCE_EXHAUSTED\<close>
     machine_descriptor 14 5 140 65 0 0, \<comment> \<open>SEMANTIC_CONTRADICTION\<close>
     machine_descriptor 15 5 150 19 4 0, \<comment> \<open>INCOMPLETE_BOUNDARY\<close>
     machine_descriptor 16 5 160 65 4 0, \<comment> \<open>UNSUPPORTED_OPERATION\<close>
     machine_descriptor 17 5 170 65 4 1, \<comment> \<open>PARTIAL_RESULT\<close>
     machine_descriptor 18 5 180 65 4 2, \<comment> \<open>KNOWN_UPPER_BOUND\<close>
     machine_descriptor 19 5 190 64 4 0 \<comment> \<open>UNKNOWN\<close>
    ]"

definition laplace_machine_exception_descriptor_count :: nat where
  "laplace_machine_exception_descriptor_count = length k_descriptors"

definition laplace_machine_exception_descriptors ::
  "laplace_machine_exception_descriptor list" where
  "laplace_machine_exception_descriptors = k_descriptors"

definition laplace_machine_exception_find ::
  "u32 \<Rightarrow> laplace_machine_exception_descriptor option" where
  "laplace_machine_exception_find condition =
     find (\<lambda>d. md_condition d = condition) k_descriptors"

text \<open>The two nested loops of the registry self-check, the outer one over the remaining
  descriptors, the inner one comparing the head with every later entry.\<close>

definition descriptor_in_range :: "laplace_machine_exception_descriptor \<Rightarrow> bool" where
  "descriptor_in_range d \<longleftrightarrow>
     \<not> (64 \<le> md_condition d
        \<or> LAPLACE_MACHINE_KIND_TERMINAL_DISPOSITION < md_kind d
        \<or> md_capability_flags d AND NOT LAPLACE_MACHINE_CAPABILITY_KNOWN_MASK \<noteq> 0
        \<or> LAPLACE_MACHINE_RECOVERY_TYPED_LIMIT < md_recovery_disposition d
        \<or> LAPLACE_MACHINE_PUBLICATION_UPPER_BOUND < md_publication_disposition d)"

fun registry_loop ::
  "laplace_machine_exception_descriptor list \<Rightarrow> laplace_machine_exception_status" where
  "registry_loop [] = LAPLACE_MACHINE_EXCEPTION_OK"
| "registry_loop (d # ds) =
     (if \<not> descriptor_in_range d then LAPLACE_MACHINE_EXCEPTION_REGISTRY_INVALID
      else if list_ex (\<lambda>e. md_condition d = md_condition e
             \<or> md_condition d \<noteq> LAPLACE_MACHINE_CONDITION_NONE \<and> md_priority d = md_priority e) ds
      then LAPLACE_MACHINE_EXCEPTION_REGISTRY_INVALID
      else registry_loop ds)"

definition registry_validate_table ::
  "laplace_machine_exception_descriptor list \<Rightarrow> laplace_machine_exception_status" where
  "registry_validate_table table =
     (if length table \<noteq> unat LAPLACE_MACHINE_CONDITION_COUNT
      then LAPLACE_MACHINE_EXCEPTION_REGISTRY_INVALID
      else if md_condition (table ! 0) \<noteq> LAPLACE_MACHINE_CONDITION_NONE
      then LAPLACE_MACHINE_EXCEPTION_REGISTRY_INVALID
      else registry_loop table)"

definition laplace_machine_exception_registry_validate :: laplace_machine_exception_status where
  "laplace_machine_exception_registry_validate = registry_validate_table k_descriptors"

definition laplace_machine_exception_descriptor_validate ::
  "laplace_machine_exception_descriptor option \<Rightarrow> laplace_machine_exception_status" where
  "laplace_machine_exception_descriptor_validate descriptor =
     (case descriptor of
        None \<Rightarrow> LAPLACE_MACHINE_EXCEPTION_INVALID_ARGUMENT
      | Some d \<Rightarrow>
          if laplace_machine_exception_registry_validate \<noteq> LAPLACE_MACHINE_EXCEPTION_OK
          then LAPLACE_MACHINE_EXCEPTION_REGISTRY_INVALID
          else (case laplace_machine_exception_find (md_condition d) of
              None \<Rightarrow> LAPLACE_MACHINE_EXCEPTION_UNKNOWN_CONDITION
            | Some expected \<Rightarrow>
                if md_kind expected \<noteq> md_kind d
                   \<or> md_priority expected \<noteq> md_priority d
                   \<or> md_capability_flags expected \<noteq> md_capability_flags d
                   \<or> md_recovery_disposition expected \<noteq> md_recovery_disposition d
                   \<or> md_publication_disposition expected \<noteq> md_publication_disposition d
                then LAPLACE_MACHINE_EXCEPTION_INVALID_ARGUMENT
                else LAPLACE_MACHINE_EXCEPTION_OK))"

text \<open>The loop over the observed conditions: its state is the selected descriptor (NULL at the
  start) and the mask; \<open>None\<close> is the early return with \<open>UNKNOWN_CONDITION\<close>.\<close>

fun classify_loop ::
  "laplace_machine_exception_descriptor option \<Rightarrow> u64 \<Rightarrow> u32 list
     \<Rightarrow> (laplace_machine_exception_descriptor option \<times> u64) option" where
  "classify_loop selected observed_mask [] = Some (selected, observed_mask)"
| "classify_loop selected observed_mask (condition # rest) =
     (if condition = LAPLACE_MACHINE_CONDITION_NONE \<or> 64 \<le> condition then None
      else case laplace_machine_exception_find condition of
          None \<Rightarrow> None
        | Some d \<Rightarrow>
            classify_loop
              (case selected of
                 None \<Rightarrow> Some d
               | Some s \<Rightarrow> if md_priority d < md_priority s then Some d else Some s)
              (observed_mask OR push_bit (unat condition) 1)
              rest)"

definition laplace_machine_exception_classify ::
  "u32 span \<Rightarrow> laplace_machine_exception_binding option
     \<Rightarrow> laplace_machine_exception_receipt option
     \<Rightarrow> laplace_machine_exception_status \<times> laplace_machine_exception_receipt option" where
  "laplace_machine_exception_classify observed binding receipt =
     (case (binding, receipt) of
        (Some b, Some r) \<Rightarrow>
          if span_null observed \<or> span_count observed = 0
             \<or> mb_presence_mask b AND NOT LAPLACE_MACHINE_EXCEPTION_BIND_KNOWN_MASK \<noteq> 0
          then (LAPLACE_MACHINE_EXCEPTION_INVALID_ARGUMENT, receipt)
          else if laplace_machine_exception_registry_validate \<noteq> LAPLACE_MACHINE_EXCEPTION_OK
          then (LAPLACE_MACHINE_EXCEPTION_REGISTRY_INVALID, receipt)
          else (case classify_loop None 0 (span_items observed) of
              Some (Some selected, observed_mask) \<Rightarrow>
                (LAPLACE_MACHINE_EXCEPTION_OK,
                 Some \<lparr>mr_selected = selected, mr_binding = b,
                       mr_observed_condition_mask = observed_mask, mr_reserved = 0\<rparr>)
            | _ \<Rightarrow> (LAPLACE_MACHINE_EXCEPTION_UNKNOWN_CONDITION, receipt))
      | _ \<Rightarrow> (LAPLACE_MACHINE_EXCEPTION_INVALID_ARGUMENT, receipt))"

definition laplace_machine_exception_why_not ::
  "laplace_machine_exception_receipt option \<Rightarrow> u64 \<Rightarrow> u64
     \<Rightarrow> laplace_digest256 option \<Rightarrow> laplace_digest256 option \<Rightarrow> laplace_machine_why_not option
     \<Rightarrow> laplace_machine_exception_status \<times> laplace_machine_why_not option" where
  "laplace_machine_exception_why_not receipt completed_work_units open_obligation_count
       open_obligations continuation_condition why_not =
     (case (receipt, open_obligations, continuation_condition, why_not) of
        (Some r, Some obligations, Some continuation, Some _) \<Rightarrow>
          if md_condition (mr_selected r) = LAPLACE_MACHINE_CONDITION_NONE
          then (LAPLACE_MACHINE_EXCEPTION_INVALID_ARGUMENT, why_not)
          else (case laplace_machine_exception_find (md_condition (mr_selected r)) of
              None \<Rightarrow> (LAPLACE_MACHINE_EXCEPTION_INVALID_ARGUMENT, why_not)
            | Some d \<Rightarrow>
                if laplace_machine_exception_descriptor_validate (Some (mr_selected r))
                   \<noteq> LAPLACE_MACHINE_EXCEPTION_OK
                then (LAPLACE_MACHINE_EXCEPTION_INVALID_ARGUMENT, why_not)
                else (LAPLACE_MACHINE_EXCEPTION_OK,
                  Some \<lparr>wn_open_obligations_fingerprint = obligations,
                        wn_continuation_condition_fingerprint = continuation,
                        wn_completed_work_units = completed_work_units,
                        wn_open_obligation_count = open_obligation_count,
                        wn_limiting_condition = md_condition d,
                        wn_recovery_disposition = md_recovery_disposition d\<rparr>))
      | _ \<Rightarrow> (LAPLACE_MACHINE_EXCEPTION_INVALID_ARGUMENT, why_not))"

section \<open>The registry\<close>

lemma registry_loop_OK_iff:
  "registry_loop ds = LAPLACE_MACHINE_EXCEPTION_OK \<longleftrightarrow>
     list_all descriptor_in_range ds
     \<and> sorted_wrt (\<lambda>d e. md_condition d \<noteq> md_condition e
          \<and> (md_condition d = LAPLACE_MACHINE_CONDITION_NONE \<or> md_priority d \<noteq> md_priority e)) ds"
  by (induction ds) (auto simp: list_ex_iff list_all_iff)

lemma registry_loop_values:
  "registry_loop ds \<noteq> LAPLACE_MACHINE_EXCEPTION_OK \<Longrightarrow>
     registry_loop ds = LAPLACE_MACHINE_EXCEPTION_REGISTRY_INVALID"
  by (induction ds) auto

lemma table_conditions: "map md_condition k_descriptors = map of_nat [0..<20]"
  by code_simp

lemma table_priorities: "map md_priority (tl k_descriptors) = map (\<lambda>i. of_nat (10 * i)) [1..<20]"
  by code_simp

lemma length_k_descriptors [simp]: "length k_descriptors = 20"
  by (simp add: k_descriptors_def)

lemma table_condition_nth: "i < 20 \<Longrightarrow> md_condition (k_descriptors ! i) = of_nat i"
  using arg_cong [OF table_conditions, of "\<lambda>xs. xs ! i"] by simp

lemma table_priority_nth:
  assumes "0 < i" "i < 20"
  shows "md_priority (k_descriptors ! i) = of_nat (10 * i)"
proof -
  obtain j where i: "i = Suc j" "j < 19" using assms by (cases i) auto
  then show ?thesis
    using arg_cong [OF table_priorities, of "\<lambda>xs. xs ! j"] by (simp add: nth_tl)
qed

lemma table_priority_unat:
  "0 < i \<Longrightarrow> i < 20 \<Longrightarrow> unat (md_priority (k_descriptors ! i)) = 10 * i"
  by (simp only: table_priority_nth) (simp only: unat_of_nat take_bit_nat_eq_self_iff, simp)

lemma registry_valid [simp]:
  "laplace_machine_exception_registry_validate = LAPLACE_MACHINE_EXCEPTION_OK"
  by code_simp

lemma find_condition:
  "laplace_machine_exception_find c = (if c < 20 then Some (k_descriptors ! unat c) else None)"
proof (cases "c < 20")
  case True
  then have lt: "unat c < 20" by (simp add: word_less_nat_alt)
  have "find (\<lambda>d. md_condition d = c) k_descriptors = Some (k_descriptors ! unat c)"
    unfolding find_Some_iff
  proof (intro exI conjI allI impI)
    show "unat c < length k_descriptors" using lt by simp
    show "md_condition (k_descriptors ! unat c) = c" using lt by (simp add: table_condition_nth)
    fix j assume "j < unat c"
    then show "md_condition (k_descriptors ! j) \<noteq> c"
      using lt by (auto simp: table_condition_nth unat_of_nat take_bit_nat_eq_self)
  qed simp
  with True show ?thesis by (simp add: laplace_machine_exception_find_def)
next
  case False
  have "md_condition d \<noteq> c" if "d \<in> set k_descriptors" for d
  proof -
    from that obtain i where "i < 20" "d = k_descriptors ! i"
      by (metis in_set_conv_nth length_k_descriptors)
    with False show ?thesis
      by (auto simp: table_condition_nth word_less_nat_alt unat_of_nat take_bit_nat_eq_self)
  qed
  with False show ?thesis
    by (simp add: laplace_machine_exception_find_def find_None_iff)
qed

lemma priority_less_iff:
  fixes c d :: u32
  assumes "0 < unat c" "c < 20" "0 < unat d" "d < 20"
  shows "md_priority (k_descriptors ! unat c) < md_priority (k_descriptors ! unat d) \<longleftrightarrow> c < d"
  using assms by (simp add: table_priority_unat word_less_nat_alt)

section \<open>Classification\<close>

text \<open>The conditions a caller may observe, and the mask of a list of observed conditions.\<close>

definition known_condition :: "u32 \<Rightarrow> bool" where
  "known_condition c \<longleftrightarrow> 0 < c \<and> c < 20"

definition condition_mask :: "u64 \<Rightarrow> u32 list \<Rightarrow> u64" where
  "condition_mask m cs = foldl (\<lambda>m c. m OR push_bit (unat c) 1) m cs"

lemma condition_mask_simps [simp]:
  "condition_mask m [] = m"
  "condition_mask m (c # cs) = condition_mask (m OR push_bit (unat c) 1) cs"
  by (simp_all add: condition_mask_def)

lemma known_below_64: "c < 20 \<Longrightarrow> \<not> 64 \<le> (c :: u32)"
  by (simp add: not_le less_trans [of _ 20])

lemma classify_loop_unknown:
  "\<exists>c \<in> set cs. \<not> known_condition c \<Longrightarrow> classify_loop sel m cs = None"
  by (induction cs arbitrary: sel m)
     (auto simp: known_condition_def find_condition LAPLACE_MACHINE_CONDITION_NONE_def word_neq_0_conv)

lemma classify_loop_from:
  assumes "\<forall>c \<in> set cs. known_condition c" "known_condition s"
  shows "classify_loop (Some (k_descriptors ! unat s)) m cs =
    Some (Some (k_descriptors ! unat (Min (insert s (set cs)))),
          condition_mask m cs)"
  using assms
proof (induction cs arbitrary: s m)
  case (Cons c cs)
  have pos: "0 < unat c" "0 < unat s" "c < 20" "s < 20" "c \<noteq> 0" "\<not> 64 \<le> c"
    using Cons.prems by (auto simp: known_condition_def unat_gt_0 word_neq_0_conv known_below_64)
  have "classify_loop (Some (k_descriptors ! unat s)) m (c # cs) =
      classify_loop (Some (k_descriptors ! unat (min c s))) (m OR push_bit (unat c) 1) cs"
    using pos
    by (auto simp: find_condition priority_less_iff LAPLACE_MACHINE_CONDITION_NONE_def min_def)
  also have "\<dots> = Some (Some (k_descriptors ! unat (Min (insert (min c s) (set cs)))),
          condition_mask (m OR push_bit (unat c) 1) cs)"
    using Cons.prems by (intro Cons.IH) (auto simp: min_def)
  also have "Min (insert (min c s) (set cs)) = Min (insert s (set (c # cs)))"
    by (cases "cs = []") (auto simp: ac_simps)
  finally show ?case by simp
qed simp

lemma classify_loop_known:
  assumes "\<forall>c \<in> set cs. known_condition c" "cs \<noteq> []"
  shows "classify_loop None m cs =
    Some (Some (k_descriptors ! unat (Min (set cs))),
          condition_mask m cs)"
proof -
  obtain c r where cs: "cs = c # r" using assms(2) by (cases cs) auto
  with assms(1) classify_loop_from [of r c] show ?thesis
    by (auto simp: known_condition_def find_condition LAPLACE_MACHINE_CONDITION_NONE_def
        dest: known_below_64)
qed

lemma bit_condition_mask:
  fixes m :: u64
  shows "bit (condition_mask m cs) n \<longleftrightarrow>
     bit m n \<or> n < 64 \<and> (\<exists>c \<in> set cs. unat c = n)"
  by (induction cs arbitrary: m) (auto simp: bit_or_iff bit_push_bit_iff bit_1_iff
       simp del: push_bit_of_1)

lemma condition_mask_cong:
  assumes "set cs = set ds"
  shows "condition_mask m cs = condition_mask m ds"
  using assms by (intro bit_word_eqI) (simp add: bit_condition_mask)


text \<open>The receipt a classification of known conditions returns.\<close>

definition classified ::
  "u32 list \<Rightarrow> laplace_machine_exception_binding \<Rightarrow> laplace_machine_exception_receipt" where
  "classified cs b =
     \<lparr>mr_selected = k_descriptors ! unat (Min (set cs)), mr_binding = b,
      mr_observed_condition_mask = condition_mask 0 cs, mr_reserved = 0\<rparr>"

lemma classify_Span:
  "laplace_machine_exception_classify (Span cs) (Some b) (Some r) =
     (if cs = [] \<or> mb_presence_mask b AND NOT LAPLACE_MACHINE_EXCEPTION_BIND_KNOWN_MASK \<noteq> 0
      then (LAPLACE_MACHINE_EXCEPTION_INVALID_ARGUMENT, Some r)
      else if list_all known_condition cs
      then (LAPLACE_MACHINE_EXCEPTION_OK, Some (classified cs b))
      else (LAPLACE_MACHINE_EXCEPTION_UNKNOWN_CONDITION, Some r))"
  by (simp add: laplace_machine_exception_classify_def classify_loop_known classify_loop_unknown
      list_all_iff classified_def)

lemma classify_OK_iff:
  "laplace_machine_exception_classify observed binding receipt = (LAPLACE_MACHINE_EXCEPTION_OK, out)
   \<longleftrightarrow> (\<exists>cs b r. observed = Span cs \<and> binding = Some b \<and> receipt = Some r \<and> cs \<noteq> []
        \<and> mb_presence_mask b AND NOT LAPLACE_MACHINE_EXCEPTION_BIND_KNOWN_MASK = 0
        \<and> list_all known_condition cs \<and> out = Some (classified cs b))"
proof (cases observed)
  case (NullSpan n)
  then show ?thesis
    by (auto simp: laplace_machine_exception_classify_def split: option.splits)
next
  case (Span cs)
  then show ?thesis
    by (cases binding; cases receipt) (auto simp: classify_Span, auto simp: laplace_machine_exception_classify_def)
qed

lemma descriptor_validate_entry:
  "(c :: u32) < 20 \<Longrightarrow>
   laplace_machine_exception_descriptor_validate (Some (k_descriptors ! unat c))
     = LAPLACE_MACHINE_EXCEPTION_OK"
  by (simp add: laplace_machine_exception_descriptor_validate_def find_condition
      table_condition_nth word_less_nat_alt)

lemma descriptor_validate_OK_iff:
  "laplace_machine_exception_descriptor_validate (Some d) = LAPLACE_MACHINE_EXCEPTION_OK
   \<longleftrightarrow> d \<in> set k_descriptors"
proof
  assume "laplace_machine_exception_descriptor_validate (Some d) = LAPLACE_MACHINE_EXCEPTION_OK"
  then have "md_condition d < 20" "k_descriptors ! unat (md_condition d) = d"
    by (auto simp: laplace_machine_exception_descriptor_validate_def find_condition
        table_condition_nth word_less_nat_alt split: if_splits
        intro!: laplace_machine_exception_descriptor.equality)
  then show "d \<in> set k_descriptors"
    using nth_mem [of "unat (md_condition d)" k_descriptors] by (simp add: word_less_nat_alt)
next
  assume "d \<in> set k_descriptors"
  then obtain i where i: "i < 20" "d = k_descriptors ! i"
    by (metis in_set_conv_nth length_k_descriptors)
  then have "unat (of_nat i :: u32) = i" "(of_nat i :: u32) < 20"
    by (simp_all add: unat_of_nat take_bit_nat_eq_self word_less_nat_alt)
  with i descriptor_validate_entry [of "of_nat i"] show
    "laplace_machine_exception_descriptor_validate (Some d) = LAPLACE_MACHINE_EXCEPTION_OK" by simp
qed

text \<open>A binding that records a program fingerprint only, for closed instances.\<close>

definition sample_binding :: laplace_machine_exception_binding where
  "sample_binding =
     \<lparr>mb_program_fingerprint = sample_digest [1], mb_physical_plan_fingerprint = 0,
      mb_provider_fingerprint = 0, mb_node_fingerprint = 0, mb_world_scope_fingerprint = 0,
      mb_transaction_fingerprint = 0, mb_last_valid_receipt_fingerprint = 0,
      mb_durable_boundary_fingerprint = 0, mb_replay_origin_fingerprint = 0,
      mb_invalidated_output_fingerprint = 0, mb_presence_mask = 1,
      mb_affected_instruction_index = 4, mb_invalidated_output_count = 0, mb_reserved = 0\<rparr>"

section \<open>Properties\<close>

text \<open>C38: the self-check of the registry accepts a table exactly when it has 20 entries, starts
  with NONE, keeps every column in its declared range, and no two entries share a condition nor,
  NONE apart, a priority; and the engine's own table is accepted.\<close>

theorem registry_validate_sound_complete:
  "(registry_validate_table table = LAPLACE_MACHINE_EXCEPTION_OK \<longleftrightarrow>
      length table = 20 \<and> md_condition (table ! 0) = LAPLACE_MACHINE_CONDITION_NONE
      \<and> list_all descriptor_in_range table \<and> distinct (map md_condition table)
      \<and> distinct (map md_priority (tl table)))
   \<and> laplace_machine_exception_registry_validate = LAPLACE_MACHINE_EXCEPTION_OK"
proof -
  have tl: "sorted_wrt (\<lambda>d e. md_condition d \<noteq> md_condition e
       \<and> (md_condition d = LAPLACE_MACHINE_CONDITION_NONE \<or> md_priority d \<noteq> md_priority e)) ds \<longleftrightarrow>
     distinct (map md_condition ds) \<and> distinct (map md_priority ds)"
    if "LAPLACE_MACHINE_CONDITION_NONE \<notin> md_condition ` set ds" for ds
    using that by (induction ds) (auto simp: image_iff)
  have "registry_loop table = LAPLACE_MACHINE_EXCEPTION_OK \<longleftrightarrow>
      list_all descriptor_in_range table \<and> distinct (map md_condition table)
      \<and> distinct (map md_priority (tl table))"
    if h: "md_condition (table ! 0) = LAPLACE_MACHINE_CONDITION_NONE" "length table = 20"
  proof -
    obtain d ds where table: "table = d # ds" using h(2) by (cases table) auto
    show ?thesis
    proof (cases "LAPLACE_MACHINE_CONDITION_NONE \<in> md_condition ` set ds")
      case True
      with h(1) table show ?thesis
        unfolding registry_loop_OK_iff by (auto simp: image_iff)
    next
      case False
      with h(1) table show ?thesis
        unfolding registry_loop_OK_iff by (auto simp: image_iff tl)
    qed
  qed
  then show ?thesis
    by (auto simp: registry_validate_table_def LAPLACE_MACHINE_CONDITION_COUNT_def)
qed

text \<open>C13: classification succeeds exactly on a non-empty list of registered conditions (NONE
  excluded) with a presence mask of known bits; the receipt then selects the registry entry of
  the observed condition with the smallest priority number, carries the caller's binding, and its
  mask has exactly the bits of the observed conditions.  Otherwise the receipt is left as it
  was.\<close>

theorem classify_selects_highest_priority:
  assumes "laplace_machine_exception_classify observed binding receipt = (status, out)"
  shows "(status = LAPLACE_MACHINE_EXCEPTION_OK \<longleftrightarrow>
       \<not> span_null observed \<and> span_items observed \<noteq> [] \<and> receipt \<noteq> None
       \<and> (\<exists>b. binding = Some b
            \<and> mb_presence_mask b AND NOT LAPLACE_MACHINE_EXCEPTION_BIND_KNOWN_MASK = 0)
       \<and> list_all (\<lambda>c. c \<noteq> LAPLACE_MACHINE_CONDITION_NONE
            \<and> laplace_machine_exception_find c \<noteq> None) (span_items observed))
    \<and> (status \<noteq> LAPLACE_MACHINE_EXCEPTION_OK \<longrightarrow> out = receipt)
    \<and> (status = LAPLACE_MACHINE_EXCEPTION_OK \<longrightarrow>
       (\<exists>r. out = Some r \<and> binding = Some (mr_binding r)
          \<and> mr_selected r \<in> set k_descriptors
          \<and> md_condition (mr_selected r) \<in> set (span_items observed)
          \<and> list_all (\<lambda>c. \<forall>d. laplace_machine_exception_find c = Some d \<longrightarrow>
                d = mr_selected r \<or> md_priority (mr_selected r) < md_priority d) (span_items observed)
          \<and> (\<forall>n. bit (mr_observed_condition_mask r) n \<longleftrightarrow>
                (\<exists>c \<in> set (span_items observed). unat c = n))))"
proof (intro conjI impI)
  have find_known: "(c \<noteq> LAPLACE_MACHINE_CONDITION_NONE \<and> laplace_machine_exception_find c \<noteq> None)
      \<longleftrightarrow> known_condition c" for c
    by (auto simp: known_condition_def find_condition LAPLACE_MACHINE_CONDITION_NONE_def
        word_neq_0_conv)
  show ok: "status = LAPLACE_MACHINE_EXCEPTION_OK \<longleftrightarrow>
       \<not> span_null observed \<and> span_items observed \<noteq> [] \<and> receipt \<noteq> None
       \<and> (\<exists>b. binding = Some b
            \<and> mb_presence_mask b AND NOT LAPLACE_MACHINE_EXCEPTION_BIND_KNOWN_MASK = 0)
       \<and> list_all (\<lambda>c. c \<noteq> LAPLACE_MACHINE_CONDITION_NONE
            \<and> laplace_machine_exception_find c \<noteq> None) (span_items observed)"
    using assms classify_OK_iff [of observed binding receipt out]
    unfolding find_known
    by (cases observed) (auto simp: classify_Span)
  show "out = receipt" if "status \<noteq> LAPLACE_MACHINE_EXCEPTION_OK"
    using assms that
    by (cases observed; cases binding; cases receipt)
       (auto simp: laplace_machine_exception_classify_def split: option.splits if_splits)
  assume "status = LAPLACE_MACHINE_EXCEPTION_OK"
  with assms obtain cs b where o: "observed = Span cs" "cs \<noteq> []" "binding = Some b"
      "list_all known_condition cs" "out = Some (classified cs b)"
    by (auto simp: classify_OK_iff)
  have min: "Min (set cs) \<in> set cs" using o(2) by simp
  have range: "0 < unat c \<and> c < 20" if "c \<in> set cs" for c
    using o(4) that by (auto simp: list_all_iff known_condition_def word_less_nat_alt)
  show "\<exists>r. out = Some r \<and> binding = Some (mr_binding r)
          \<and> mr_selected r \<in> set k_descriptors
          \<and> md_condition (mr_selected r) \<in> set (span_items observed)
          \<and> list_all (\<lambda>c. \<forall>d. laplace_machine_exception_find c = Some d \<longrightarrow>
                d = mr_selected r \<or> md_priority (mr_selected r) < md_priority d) (span_items observed)
          \<and> (\<forall>n. bit (mr_observed_condition_mask r) n \<longleftrightarrow>
                (\<exists>c \<in> set (span_items observed). unat c = n))"
  proof (intro exI conjI)
    show "out = Some (classified cs b)" "binding = Some (mr_binding (classified cs b))"
      using o by (simp_all add: classified_def)
    show "mr_selected (classified cs b) \<in> set k_descriptors"
      using range [OF min] by (simp add: classified_def word_less_nat_alt)
    show "md_condition (mr_selected (classified cs b)) \<in> set (span_items observed)"
      using range [OF min] min o(1) by (simp add: classified_def table_condition_nth word_less_nat_alt)
    show "list_all (\<lambda>c. \<forall>d. laplace_machine_exception_find c = Some d \<longrightarrow>
        d = mr_selected (classified cs b) \<or> md_priority (mr_selected (classified cs b)) < md_priority d)
        (span_items observed)"
      using o(1) range min Min_le [OF finite_set, of _ cs]
      by (auto simp: list_all_iff find_condition classified_def priority_less_iff order_le_less)
    show "\<forall>n. bit (mr_observed_condition_mask (classified cs b)) n \<longleftrightarrow>
        (\<exists>c \<in> set (span_items observed). unat c = n)"
      using o(1) range by (fastforce simp: classified_def bit_condition_mask word_less_nat_alt)
  qed
qed

theorem classify_selects_highest_priority_witness:
  "\<exists>r. laplace_machine_exception_classify (Span [13, 6, 19]) (Some sample_binding)
         (Some (classified [1] sample_binding)) = (LAPLACE_MACHINE_EXCEPTION_OK, Some r)
       \<and> md_condition (mr_selected r) \<in> {13, 6, 19} \<and> bit (mr_observed_condition_mask r) 13"
proof -
  define res where "res = laplace_machine_exception_classify (Span [13, 6, 19])
    (Some sample_binding) (Some (classified [1] sample_binding))"
  have ok: "fst res = LAPLACE_MACHINE_EXCEPTION_OK" unfolding res_def by code_simp
  have split: "laplace_machine_exception_classify (Span [13, 6, 19])
    (Some sample_binding) (Some (classified [1] sample_binding)) = (fst res, snd res)"
    by (simp add: res_def)
  obtain r where "snd res = Some r" "md_condition (mr_selected r) \<in> {13, 6, 19}"
      "bit (mr_observed_condition_mask r) 13"
    using classify_selects_highest_priority [OF split] ok by auto
  with split ok show ?thesis by auto
qed

text \<open>The outcome of a classification depends only on the set of observed conditions: order
  and repetition do not matter.\<close>

theorem classify_order_independent:
  assumes "set cs = set ds"
  shows "laplace_machine_exception_classify (Span cs) binding receipt =
         laplace_machine_exception_classify (Span ds) binding receipt"
proof (cases "binding = None \<or> receipt = None")
  case True
  then show ?thesis
    by (auto simp: laplace_machine_exception_classify_def split: option.splits)
next
  case False
  then show ?thesis
    using assms condition_mask_cong [OF assms, of 0]
    by (cases cs; cases ds) (auto simp: classify_Span list_all_iff classified_def)
qed

theorem classify_order_independent_witness:
  "laplace_machine_exception_classify (Span [13, 6, 19]) (Some sample_binding)
       (Some (classified [1] sample_binding)) =
   laplace_machine_exception_classify (Span [19, 13, 6, 13]) (Some sample_binding)
       (Some (classified [1] sample_binding))"
  by (rule classify_order_independent) auto

text \<open>A why-not record is produced exactly for receipts whose selected descriptor is a
  registry entry other than NONE, and it then names that entry's condition and recovery
  disposition together with the caller's obligations; in particular every receipt produced by a
  successful classification gives one.\<close>

theorem why_not_of_receipt:
  "laplace_machine_exception_why_not (Some r) work open_count (Some ob) (Some co) (Some w) =
     (if mr_selected r \<in> set k_descriptors
         \<and> md_condition (mr_selected r) \<noteq> LAPLACE_MACHINE_CONDITION_NONE
      then (LAPLACE_MACHINE_EXCEPTION_OK,
            Some \<lparr>wn_open_obligations_fingerprint = ob, wn_continuation_condition_fingerprint = co,
                  wn_completed_work_units = work, wn_open_obligation_count = open_count,
                  wn_limiting_condition = md_condition (mr_selected r),
                  wn_recovery_disposition = md_recovery_disposition (mr_selected r)\<rparr>)
      else (LAPLACE_MACHINE_EXCEPTION_INVALID_ARGUMENT, Some w))
   \<and> (fst (laplace_machine_exception_classify observed binding receipt) = LAPLACE_MACHINE_EXCEPTION_OK
      \<longrightarrow> fst (laplace_machine_exception_why_not
                (snd (laplace_machine_exception_classify observed binding receipt))
                work open_count (Some ob) (Some co) (Some w)) = LAPLACE_MACHINE_EXCEPTION_OK)"
  (is "?first r \<and> (?ok \<longrightarrow> ?second)")
proof (intro conjI impI)
  show first: "?first r" for r
  proof (cases "mr_selected r \<in> set k_descriptors")
    case True
    then obtain i where i: "i < 20" "mr_selected r = k_descriptors ! i"
      by (metis in_set_conv_nth length_k_descriptors)
    then have c: "laplace_machine_exception_find (md_condition (mr_selected r)) = Some (mr_selected r)"
      by (simp add: find_condition table_condition_nth word_less_nat_alt unat_of_nat take_bit_nat_eq_self)
    show ?thesis
      using True unfolding laplace_machine_exception_why_not_def by (simp add: descriptor_validate_OK_iff c)
  next
    case False
    then show ?thesis
      unfolding laplace_machine_exception_why_not_def
      by (simp add: descriptor_validate_OK_iff split: option.splits)
  qed
  assume ?ok
  then obtain cs b where o: "cs \<noteq> []" "list_all known_condition cs"
    "snd (laplace_machine_exception_classify observed binding receipt) = Some (classified cs b)"
    using classify_OK_iff [of observed binding receipt] by (metis prod.collapse)
  have "known_condition (Min (set cs))"
    using o(1,2) by (simp add: list_all_iff)
  then have "mr_selected (classified cs b) \<in> set k_descriptors"
    "md_condition (mr_selected (classified cs b)) \<noteq> LAPLACE_MACHINE_CONDITION_NONE"
    by (simp_all add: classified_def known_condition_def table_condition_nth word_less_nat_alt
        LAPLACE_MACHINE_CONDITION_NONE_def)
       (auto simp: unat_eq_0)
  with o(3) first [of "classified cs b"] show ?second by simp
qed

theorem why_not_of_receipt_witness:
  "fst (laplace_machine_exception_why_not
     (snd (laplace_machine_exception_classify (Span [13, 6]) (Some sample_binding)
        (Some (classified [1] sample_binding))))
     7 2 (Some 0) (Some 0)
     (Some \<lparr>wn_open_obligations_fingerprint = 0, wn_continuation_condition_fingerprint = 0,
        wn_completed_work_units = 0, wn_open_obligation_count = 0, wn_limiting_condition = 0,
        wn_recovery_disposition = 0\<rparr>)) = LAPLACE_MACHINE_EXCEPTION_OK"
proof -
  have "fst (laplace_machine_exception_classify (Span [13, 6]) (Some sample_binding)
        (Some (classified [1] sample_binding))) = LAPLACE_MACHINE_EXCEPTION_OK"
    by code_simp
  then show ?thesis
    using why_not_of_receipt [where observed = "Span [13, 6]"] by blast
qed

end
