(* ===== verification/Highway.thy ===== *)
theory Highway
  imports Framework
begin

text \<open>
  The typed numerical highway (\<open>engine/src/highway.c\<close>): validation of a scoped key, its
  128-bit coordinate with a 256-bit collision fingerprint, the batch form, and the receipt of the
  kind registry.

  The registry rows are those of \<open>contracts/highway.json\<close> (version 2, no aliases).  The
  registry fingerprint is computed by the contract generator when the build is configured; the
  generated literal is the argument \<open>registry_fingerprint\<close> of \<open>registry_materialize\<close>.
\<close>

datatype laplace_highway_status =
    LAPLACE_HIGHWAY_OK
  | LAPLACE_HIGHWAY_INVALID_ARGUMENT
  | LAPLACE_HIGHWAY_UNKNOWN_KIND
  | LAPLACE_HIGHWAY_ZERO_SCOPE
  | LAPLACE_HIGHWAY_ZERO_VERSION
  | LAPLACE_HIGHWAY_COUNT_OVERFLOW
  | LAPLACE_HIGHWAY_ZERO_COORDINATE
  | LAPLACE_HIGHWAY_REGISTRY_INVALID
  | LAPLACE_HIGHWAY_CONTEXT_INVALID
  | LAPLACE_HIGHWAY_MEMORY_FAILURE
  | LAPLACE_HIGHWAY_UTF8_INVALID

record laplace_highway_key =
  hk_kind :: u32
  hk_reserved :: u32
  hk_authority :: laplace_id128
  hk_release :: laplace_id128
  hk_name_space :: laplace_id128
  hk_local_identifier :: laplace_id128
  hk_version :: u64

record laplace_highway_coordinate =
  hc_coordinate :: laplace_id128
  hc_collision_fingerprint :: laplace_digest256
  hc_kind :: u32
  hc_reserved :: u32
  hc_version :: u64

record laplace_highway_kind_contract_row =
  kr_id :: u32
  kr_name :: string
  kr_introduced :: u64
  kr_retired :: u64

record laplace_highway_disposition_contract_row =
  dr_id :: u32
  dr_name :: string

record laplace_highway_registry_receipt =
  hr_receipt_id :: laplace_digest256
  hr_context_fingerprint :: laplace_digest256
  hr_registry_fingerprint :: laplace_digest256
  hr_activation_epoch_id :: laplace_id128
  hr_activation_epoch_fingerprint :: laplace_digest256
  hr_registry_version :: u64
  hr_kind_count :: u64
  hr_alias_count :: u64
  hr_disposition_count :: u64
  hr_status :: laplace_highway_status
  hr_reserved :: u32

definition kind_row :: "u32 \<Rightarrow> string \<Rightarrow> u64 \<Rightarrow> u64 \<Rightarrow> laplace_highway_kind_contract_row" where
  "kind_row i n a r = \<lparr>kr_id = i, kr_name = n, kr_introduced = a, kr_retired = r\<rparr>"

definition registry_kinds :: "laplace_highway_kind_contract_row list" where
  "registry_kinds =
    [kind_row 1 ''grammar-symbol'' 1 0, kind_row 2 ''ast-role'' 1 0, kind_row 3 ''language'' 1 0,
     kind_row 4 ''script'' 1 0, kind_row 5 ''authority'' 1 0, kind_row 6 ''release'' 1 0,
     kind_row 7 ''external-reference'' 1 0, kind_row 8 ''relation'' 1 0,
     kind_row 9 ''modality'' 1 0, kind_row 10 ''representation'' 1 0, kind_row 11 ''recipe'' 1 0,
     kind_row 12 ''model'' 1 0, kind_row 13 ''trust-class'' 1 0, kind_row 14 ''operation'' 1 0,
     kind_row 15 ''firmware'' 1 0, kind_row 16 ''effect'' 1 0, kind_row 17 ''source-profile'' 2 0]"

definition registry_dispositions :: "laplace_highway_disposition_contract_row list" where
  "registry_dispositions =
     map (\<lambda>(i, n). \<lparr>dr_id = i, dr_name = n\<rparr>)
       [(1, ''present''), (2, ''retired''), (3, ''absent''), (4, ''unknown''),
        (5, ''unsupported''), (6, ''unresolved''), (7, ''malformed''), (8, ''collision'')]"

definition LAPLACE_HIGHWAY_REGISTRY_VERSION :: u64 where "LAPLACE_HIGHWAY_REGISTRY_VERSION = 2"
definition LAPLACE_HIGHWAY_KIND_COUNT :: u64 where "LAPLACE_HIGHWAY_KIND_COUNT = 17"
definition LAPLACE_HIGHWAY_ALIAS_COUNT :: u64 where "LAPLACE_HIGHWAY_ALIAS_COUNT = 0"
definition LAPLACE_HIGHWAY_DISPOSITION_COUNT :: u64 where "LAPLACE_HIGHWAY_DISPOSITION_COUNT = 8"

definition LAPLACE_HIGHWAY_COORDINATE_DOMAIN :: "byte list" where
  "LAPLACE_HIGHWAY_COORDINATE_DOMAIN = ascii_bytes ''laplace-highway-coordinate-v1''"
definition LAPLACE_HIGHWAY_FINGERPRINT_DOMAIN :: "byte list" where
  "LAPLACE_HIGHWAY_FINGERPRINT_DOMAIN = ascii_bytes ''laplace-highway-coordinate-fingerprint-v1''"

definition id_is_zero :: "laplace_id128 \<Rightarrow> bool" where
  "id_is_zero v \<longleftrightarrow> bytes_zero (bytes v)"

definition digest_is_zero :: "laplace_digest256 \<Rightarrow> bool" where
  "digest_is_zero v \<longleftrightarrow> bytes_zero (bytes v)"

definition hex_nibble :: "char \<Rightarrow> byte option" where
  "hex_nibble c =
     (let v = of_char c :: nat in
      if 48 \<le> v \<and> v \<le> 57 then Some (of_nat (v - 48))
      else if 97 \<le> v \<and> v \<le> 102 then Some (of_nat (v - 97 + 10))
      else None)"

text \<open>The decoding loop, two characters per byte.\<close>

fun hex_pairs :: "string \<Rightarrow> byte list option" where
  "hex_pairs [] = Some []"
| "hex_pairs (h # l # rest) =
     (case (hex_nibble h, hex_nibble l) of
        (Some high, Some low) \<Rightarrow> map_option (\<lambda>bs. (push_bit 4 high OR low) # bs) (hex_pairs rest)
      | _ \<Rightarrow> None)"
| "hex_pairs [c] = None"

definition decode_registry_fingerprint :: "string \<Rightarrow> laplace_digest256 option" where
  "decode_registry_fingerprint literal =
     (if length literal + 1 \<noteq> 32 * 2 + 1 then None else map_option barray_of (hex_pairs literal))"

definition laplace_highway_kind_valid :: "u32 \<Rightarrow> bool" where
  "laplace_highway_kind_valid kind \<longleftrightarrow> kind \<in> set (map kr_id registry_kinds)"

definition string_chunks :: "string \<Rightarrow> byte list list" where
  "string_chunks s = [u64_le (of_nat (length s)), ascii_bytes s]"

text \<open>The five updates of \<open>hash_key_payload\<close> after the kind and before the version are the four
  scope identities in this order.\<close>

definition key_payload :: "laplace_highway_key \<Rightarrow> byte list list" where
  "key_payload k =
     [u32_le (hk_kind k), bytes (hk_authority k), bytes (hk_release k), bytes (hk_name_space k),
      bytes (hk_local_identifier k), u64_le (hk_version k)]"

definition hash_key_payload :: "'h blake3_api \<Rightarrow> 'h \<Rightarrow> laplace_highway_key \<Rightarrow> 'h" where
  "hash_key_payload B h k = updates B h (key_payload k)"

definition validate_key :: "laplace_highway_key option \<Rightarrow> laplace_highway_status" where
  "validate_key key =
     (case key of
        None \<Rightarrow> LAPLACE_HIGHWAY_INVALID_ARGUMENT
      | Some k \<Rightarrow>
          if hk_reserved k \<noteq> 0 then LAPLACE_HIGHWAY_INVALID_ARGUMENT
          else if \<not> laplace_highway_kind_valid (hk_kind k) then LAPLACE_HIGHWAY_UNKNOWN_KIND
          else if id_is_zero (hk_authority k) \<or> id_is_zero (hk_release k)
               \<or> id_is_zero (hk_name_space k) \<or> id_is_zero (hk_local_identifier k)
          then LAPLACE_HIGHWAY_ZERO_SCOPE
          else if hk_version k = 0 then LAPLACE_HIGHWAY_ZERO_VERSION
          else LAPLACE_HIGHWAY_OK)"

definition coordinate_zero :: laplace_highway_coordinate where
  "coordinate_zero = \<lparr>hc_coordinate = 0, hc_collision_fingerprint = 0, hc_kind = 0,
     hc_reserved = 0, hc_version = 0\<rparr>"

definition laplace_highway_coordinate_calculate ::
  "'h blake3_api \<Rightarrow> laplace_highway_key option \<Rightarrow> laplace_highway_coordinate option
     \<Rightarrow> laplace_highway_status \<times> laplace_highway_coordinate option" where
  "laplace_highway_coordinate_calculate B key output =
     (case output of
        None \<Rightarrow> (LAPLACE_HIGHWAY_INVALID_ARGUMENT, None)
      | Some _ \<Rightarrow>
          let status = validate_key key in
          if status \<noteq> LAPLACE_HIGHWAY_OK then (status, output)
          else
            let coordinate_digest = hasher_finalize B (hash_key_payload B
                  (hasher_update B (hasher_init B) LAPLACE_HIGHWAY_COORDINATE_DOMAIN) (the key));
                fingerprint = hasher_finalize B (hash_key_payload B
                  (hasher_update B (hasher_init B) LAPLACE_HIGHWAY_FINGERPRINT_DOMAIN) (the key));
                coordinate = id_of_digest coordinate_digest in
            if id_is_zero coordinate then (LAPLACE_HIGHWAY_ZERO_COORDINATE, Some coordinate_zero)
            else (LAPLACE_HIGHWAY_OK,
                  Some \<lparr>hc_coordinate = coordinate, hc_collision_fingerprint = fingerprint,
                        hc_kind = hk_kind (the key), hc_reserved = 0,
                        hc_version = hk_version (the key)\<rparr>))"

text \<open>The second loop of the batch: the remaining keys, and the output array from the same index
  on; it stops at the first failing key.\<close>

fun coordinate_batch_loop ::
  "'h blake3_api \<Rightarrow> laplace_highway_key list \<Rightarrow> laplace_highway_coordinate list
     \<Rightarrow> laplace_highway_status \<times> laplace_highway_coordinate list" where
  "coordinate_batch_loop B (k # ks) (x # xs) =
     (case laplace_highway_coordinate_calculate B (Some k) (Some x) of
        (status, y) \<Rightarrow>
          if status \<noteq> LAPLACE_HIGHWAY_OK then (status, the y # xs)
          else case coordinate_batch_loop B ks xs of (st, ys) \<Rightarrow> (st, the y # ys))"
| "coordinate_batch_loop B _ xs = (LAPLACE_HIGHWAY_OK, xs)"

fun validate_keys_loop :: "laplace_highway_key list \<Rightarrow> laplace_highway_status" where
  "validate_keys_loop [] = LAPLACE_HIGHWAY_OK"
| "validate_keys_loop (k # ks) =
     (let status = validate_key (Some k) in
      if status \<noteq> LAPLACE_HIGHWAY_OK then status else validate_keys_loop ks)"

definition laplace_highway_coordinate_calculate_batch ::
  "'h blake3_api \<Rightarrow> laplace_highway_key span \<Rightarrow> laplace_highway_coordinate list option
     \<Rightarrow> laplace_highway_status \<times> laplace_highway_coordinate list option" where
  "laplace_highway_coordinate_calculate_batch B keys outputs =
     (if span_null keys \<and> span_count keys \<noteq> 0 \<or> outputs = None \<and> span_count keys \<noteq> 0
      then (LAPLACE_HIGHWAY_INVALID_ARGUMENT, outputs)
      else if SIZE_MAX div 80 < span_count keys \<or> SIZE_MAX div 64 < span_count keys
      then (LAPLACE_HIGHWAY_COUNT_OVERFLOW, outputs)
      else let status = validate_keys_loop (span_items keys) in
        if status \<noteq> LAPLACE_HIGHWAY_OK then (status, outputs)
        else case outputs of
            None \<Rightarrow> (LAPLACE_HIGHWAY_OK, None)
          | Some xs \<Rightarrow>
              (case coordinate_batch_loop B (span_items keys) xs of (st, ys) \<Rightarrow> (st, Some ys)))"

definition epoch_domain :: "byte list" where
  "epoch_domain = ascii_bytes ''laplace-highway-registry-epoch-v1''"
definition receipt_domain :: "byte list" where
  "receipt_domain = ascii_bytes ''laplace-highway-registry-receipt-v1''"

definition registry_receipt_zero :: laplace_highway_registry_receipt where
  "registry_receipt_zero =
     \<lparr>hr_receipt_id = 0, hr_context_fingerprint = 0, hr_registry_fingerprint = 0,
      hr_activation_epoch_id = 0, hr_activation_epoch_fingerprint = 0, hr_registry_version = 0,
      hr_kind_count = 0, hr_alias_count = 0, hr_disposition_count = 0,
      hr_status = LAPLACE_HIGHWAY_OK, hr_reserved = 0\<rparr>"

definition registry_epoch_chunks :: "laplace_digest256 \<Rightarrow> byte list list" where
  "registry_epoch_chunks registry =
     [epoch_domain, bytes registry, u64_le LAPLACE_HIGHWAY_REGISTRY_VERSION,
      u64_le LAPLACE_HIGHWAY_KIND_COUNT]
     @ concat (map (\<lambda>k. [u32_le (kr_id k)] @ string_chunks (kr_name k)
                 @ [u64_le (kr_introduced k), u64_le (kr_retired k)]) registry_kinds)
     @ [u64_le LAPLACE_HIGHWAY_ALIAS_COUNT, u64_le LAPLACE_HIGHWAY_DISPOSITION_COUNT]
     @ concat (map (\<lambda>d. [u32_le (dr_id d)] @ string_chunks (dr_name d)) registry_dispositions)"

definition registry_receipt_chunks ::
  "laplace_digest256 \<Rightarrow> laplace_digest256 \<Rightarrow> laplace_digest256 \<Rightarrow> byte list list" where
  "registry_receipt_chunks context_fp registry epoch =
     [receipt_domain, bytes context_fp, bytes registry, bytes epoch,
      u64_le LAPLACE_HIGHWAY_REGISTRY_VERSION, u64_le LAPLACE_HIGHWAY_KIND_COUNT,
      u64_le LAPLACE_HIGHWAY_ALIAS_COUNT, u64_le LAPLACE_HIGHWAY_DISPOSITION_COUNT]"

definition laplace_highway_registry_materialize ::
  "'h blake3_api \<Rightarrow> string \<Rightarrow> laplace_framework_context option
     \<Rightarrow> laplace_highway_registry_receipt option
     \<Rightarrow> laplace_highway_status \<times> laplace_highway_registry_receipt option" where
  "laplace_highway_registry_materialize B registry_fingerprint context receipt =
     (if context = None \<or> receipt = None then (LAPLACE_HIGHWAY_INVALID_ARGUMENT, receipt)
      else case laplace_framework_context_fingerprint B context (Some 0) of
        (framework_status, context_fp) \<Rightarrow>
          if framework_status \<noteq> LAPLACE_FRAMEWORK_OK
          then (LAPLACE_HIGHWAY_CONTEXT_INVALID,
                Some (registry_receipt_zero\<lparr>hr_context_fingerprint := the context_fp\<rparr>))
          else case decode_registry_fingerprint registry_fingerprint of
              None \<Rightarrow> (LAPLACE_HIGHWAY_REGISTRY_INVALID, Some registry_receipt_zero)
            | Some registry \<Rightarrow>
                let epoch = hasher_finalize B (updates B (hasher_init B) (registry_epoch_chunks registry));
                    epoch_id = id_of_digest epoch in
                if id_is_zero epoch_id \<or> digest_is_zero epoch
                then (LAPLACE_HIGHWAY_REGISTRY_INVALID, Some registry_receipt_zero)
                else
                  let receipt_id = hasher_finalize B (updates B (hasher_init B)
                        (registry_receipt_chunks (the context_fp) registry epoch)) in
                  if digest_is_zero receipt_id
                  then (LAPLACE_HIGHWAY_REGISTRY_INVALID, Some registry_receipt_zero)
                  else (LAPLACE_HIGHWAY_OK,
                    Some \<lparr>hr_receipt_id = receipt_id, hr_context_fingerprint = the context_fp,
                          hr_registry_fingerprint = registry, hr_activation_epoch_id = epoch_id,
                          hr_activation_epoch_fingerprint = epoch,
                          hr_registry_version = LAPLACE_HIGHWAY_REGISTRY_VERSION,
                          hr_kind_count = LAPLACE_HIGHWAY_KIND_COUNT,
                          hr_alias_count = LAPLACE_HIGHWAY_ALIAS_COUNT,
                          hr_disposition_count = LAPLACE_HIGHWAY_DISPOSITION_COUNT,
                          hr_status = LAPLACE_HIGHWAY_OK, hr_reserved = 0\<rparr>))"

section \<open>Keys and coordinates\<close>

lemma id_is_zero_iff [simp]: "id_is_zero v \<longleftrightarrow> v = 0"
  by (simp add: id_is_zero_def)

lemma digest_is_zero_iff [simp]: "digest_is_zero v \<longleftrightarrow> v = 0"
  by (simp add: digest_is_zero_def)

definition key_bytes :: "laplace_highway_key \<Rightarrow> byte list" where
  "key_bytes k = concat (key_payload k)"

lemma key_bytes_inject:
  "key_bytes k = key_bytes k' \<longleftrightarrow> k\<lparr>hk_reserved := 0\<rparr> = k'\<lparr>hk_reserved := 0\<rparr>"
  by (cases k; cases k') (auto simp: key_bytes_def key_payload_def layout)

lemma length_key_bytes [simp]: "length (key_bytes k) = 76"
  by (simp add: key_bytes_def key_payload_def)

lemma highway_domains_differ:
  "LAPLACE_HIGHWAY_COORDINATE_DOMAIN @ xs \<noteq> LAPLACE_HIGHWAY_FINGERPRINT_DOMAIN @ ys"
  by (simp add: LAPLACE_HIGHWAY_COORDINATE_DOMAIN_def LAPLACE_HIGHWAY_FINGERPRINT_DOMAIN_def
      ascii_bytes_def)

definition coordinate_of :: "'h blake3_api \<Rightarrow> laplace_highway_key \<Rightarrow> laplace_highway_coordinate" where
  "coordinate_of B k =
     \<lparr>hc_coordinate = id_of_digest (blake3 B (LAPLACE_HIGHWAY_COORDINATE_DOMAIN @ key_bytes k)),
      hc_collision_fingerprint = blake3 B (LAPLACE_HIGHWAY_FINGERPRINT_DOMAIN @ key_bytes k),
      hc_kind = hk_kind k, hc_reserved = 0, hc_version = hk_version k\<rparr>"

lemma calculate_eq:
  assumes "blake3_streaming B"
  shows "laplace_highway_coordinate_calculate B (Some k) (Some x) =
    (if validate_key (Some k) \<noteq> LAPLACE_HIGHWAY_OK then (validate_key (Some k), Some x)
     else if hc_coordinate (coordinate_of B k) = 0
     then (LAPLACE_HIGHWAY_ZERO_COORDINATE, Some coordinate_zero)
     else (LAPLACE_HIGHWAY_OK, Some (coordinate_of B k)))"
  using finalize_updates [OF assms]
  by (simp add: laplace_highway_coordinate_calculate_def hash_key_payload_def hashing
      coordinate_of_def key_bytes_def Let_def)

lemma validate_key_OK_iff:
  "validate_key (Some k) = LAPLACE_HIGHWAY_OK \<longleftrightarrow>
     hk_reserved k = 0 \<and> laplace_highway_kind_valid (hk_kind k) \<and> hk_authority k \<noteq> 0
     \<and> hk_release k \<noteq> 0 \<and> hk_name_space k \<noteq> 0 \<and> hk_local_identifier k \<noteq> 0 \<and> hk_version k \<noteq> 0"
  by (auto simp: validate_key_def)

lemma kind_valid_iff: "laplace_highway_kind_valid kind \<longleftrightarrow> 1 \<le> kind \<and> kind \<le> 17"
proof
  assume "1 \<le> kind \<and> kind \<le> 17"
  then have "unat kind < 32" "1 \<le> unat kind" "unat kind \<le> 17" by (auto simp: word_le_nat_alt)
  moreover from this(1) have "unat kind \<in> set [0, 1, 2, 3, 4, 5, 6, 7, 8, 9, 10, 11, 12, 13, 14, 15, 16, 17, 18, 19, 20, 21, 22, 23, 24, 25, 26, 27, 28, 29, 30, 31]"
    by (rule less_32_cases)
  ultimately have "kind \<in> {1, 2, 3, 4, 5, 6, 7, 8, 9, 10, 11, 12, 13, 14, 15, 16, 17}"
    by (auto simp: word_unat_eq_iff)
  then show "laplace_highway_kind_valid kind"
    by (simp add: laplace_highway_kind_valid_def registry_kinds_def kind_row_def)
qed (auto simp: laplace_highway_kind_valid_def registry_kinds_def kind_row_def)

lemma validate_keys_loop_OK_iff:
  "validate_keys_loop ks = LAPLACE_HIGHWAY_OK \<longleftrightarrow> list_all (\<lambda>k. validate_key (Some k) = LAPLACE_HIGHWAY_OK) ks"
  by (induction ks) (auto simp: Let_def)

lemma batch_loop_eq:
  assumes "blake3_streaming B" "list_all (\<lambda>k. validate_key (Some k) = LAPLACE_HIGHWAY_OK) ks"
    and "length ks \<le> length xs"
  shows "coordinate_batch_loop B ks xs =
    (if list_all (\<lambda>k. hc_coordinate (coordinate_of B k) \<noteq> 0) ks
     then (LAPLACE_HIGHWAY_OK, map (coordinate_of B) ks @ drop (length ks) xs)
     else let n = length (takeWhile (\<lambda>k. hc_coordinate (coordinate_of B k) \<noteq> 0) ks) in
       (LAPLACE_HIGHWAY_ZERO_COORDINATE,
        map (coordinate_of B) (take n ks) @ coordinate_zero # drop (Suc n) xs))"
  using assms(2,3)
proof (induction ks arbitrary: xs)
  case (Cons k ks)
  then obtain x xs' where xs: "xs = x # xs'" by (cases xs) auto
  show ?case
  proof (cases "hc_coordinate (coordinate_of B k) = 0")
    case True
    with Cons.prems xs assms(1) show ?thesis by (simp add: calculate_eq)
  next
    case False
    with Cons.prems xs assms(1) Cons.IH [of xs'] show ?thesis by (simp add: calculate_eq Let_def)
  qed
qed simp

section \<open>Properties\<close>

text \<open>C39: a key is accepted exactly when its kind is registered, its four scope identities and
  its version are non-zero and its reserved word is zero.  The coordinate and the collision
  fingerprint of an accepted key are hashes of two different byte strings, each of which
  determines the key: two accepted keys that share either preimage are the same key.  An
  unrepresentable (all-zero) coordinate is refused and the output cleared.\<close>

theorem coordinate_binds_key:
  assumes "blake3_streaming B"
  shows "laplace_highway_coordinate_calculate B (Some k) (Some x) =
      (if validate_key (Some k) \<noteq> LAPLACE_HIGHWAY_OK then (validate_key (Some k), Some x)
       else if id_of_digest (blake3 B (LAPLACE_HIGHWAY_COORDINATE_DOMAIN @ key_bytes k)) = 0
       then (LAPLACE_HIGHWAY_ZERO_COORDINATE, Some coordinate_zero)
       else (LAPLACE_HIGHWAY_OK, Some (coordinate_of B k)))
    \<and> (validate_key (Some k) = LAPLACE_HIGHWAY_OK \<longleftrightarrow>
        hk_reserved k = 0 \<and> 1 \<le> hk_kind k \<and> hk_kind k \<le> 17 \<and> hk_authority k \<noteq> 0
        \<and> hk_release k \<noteq> 0 \<and> hk_name_space k \<noteq> 0 \<and> hk_local_identifier k \<noteq> 0 \<and> hk_version k \<noteq> 0)
    \<and> (validate_key (Some k) = LAPLACE_HIGHWAY_OK \<longrightarrow> validate_key (Some k') = LAPLACE_HIGHWAY_OK \<longrightarrow>
        key_bytes k = key_bytes k' \<longrightarrow> k = k')
    \<and> LAPLACE_HIGHWAY_COORDINATE_DOMAIN @ key_bytes k \<noteq> LAPLACE_HIGHWAY_FINGERPRINT_DOMAIN @ key_bytes k'"
proof -
  have "k = k'" if "validate_key (Some k) = LAPLACE_HIGHWAY_OK" "validate_key (Some k') = LAPLACE_HIGHWAY_OK"
    "key_bytes k = key_bytes k'"
    using that by (cases k; cases k') (auto simp: key_bytes_inject validate_key_OK_iff)
  then show ?thesis
    by (simp add: calculate_eq [OF assms] validate_key_OK_iff kind_valid_iff highway_domains_differ)
       (simp add: coordinate_of_def)
qed

definition sample_key :: "u32 \<Rightarrow> laplace_highway_key" where
  "sample_key kind =
     \<lparr>hk_kind = kind, hk_reserved = 0, hk_authority = barray_of [1], hk_release = barray_of [2],
      hk_name_space = barray_of [3], hk_local_identifier = barray_of [4], hk_version = 1\<rparr>"

theorem coordinate_binds_key_witness:
  "validate_key (Some (sample_key 8)) = LAPLACE_HIGHWAY_OK
   \<and> validate_key (Some (sample_key 9)) = LAPLACE_HIGHWAY_OK
   \<and> key_bytes (sample_key 8) \<noteq> key_bytes (sample_key 9)"
proof -
  have valid: "validate_key (Some (sample_key 8)) = LAPLACE_HIGHWAY_OK"
    "validate_key (Some (sample_key 9)) = LAPLACE_HIGHWAY_OK"
    by code_simp+
  have "sample_key 8 \<noteq> sample_key 9" by (simp add: sample_key_def)
  with valid coordinate_binds_key [OF sample_blake3_streaming, of "sample_key 8" coordinate_zero "sample_key 9"]
  show ?thesis by blast
qed

text \<open>The batch validates every key before it writes anything: one bad key leaves all outputs
  as they were.  Otherwise it writes the coordinate of each key at its index, stopping at the first
  key whose coordinate would be zero, whose slot is cleared.\<close>

theorem coordinate_batch_validates_first:
  assumes "blake3_streaming B" "length ks \<le> length xs" "length ks \<le> SIZE_MAX div 80"
  shows "laplace_highway_coordinate_calculate_batch B (Span ks) (Some xs) =
    (if \<not> list_all (\<lambda>k. validate_key (Some k) = LAPLACE_HIGHWAY_OK) ks
     then (validate_keys_loop ks, Some xs)
     else if list_all (\<lambda>k. hc_coordinate (coordinate_of B k) \<noteq> 0) ks
     then (LAPLACE_HIGHWAY_OK, Some (map (coordinate_of B) ks @ drop (length ks) xs))
     else let n = length (takeWhile (\<lambda>k. hc_coordinate (coordinate_of B k) \<noteq> 0) ks) in
       (LAPLACE_HIGHWAY_ZERO_COORDINATE,
        Some (map (coordinate_of B) (take n ks) @ coordinate_zero # drop (Suc n) xs)))"
proof -
  have "length ks \<le> SIZE_MAX div 64" using assms(3) by (simp add: SIZE_MAX_def)
  with assms batch_loop_eq [OF assms(1) _ assms(2)] show ?thesis
    by (simp add: laplace_highway_coordinate_calculate_batch_def Let_def
        flip: validate_keys_loop_OK_iff)
qed

theorem coordinate_batch_validates_first_witness:
  "laplace_highway_coordinate_calculate_batch sample_blake3 (Span [sample_key 8, sample_key 18])
     (Some [coordinate_zero, coordinate_zero])
   = (LAPLACE_HIGHWAY_UNKNOWN_KIND, Some [coordinate_zero, coordinate_zero])"
proof -
  have "length [sample_key 8, sample_key 18] \<le> SIZE_MAX div 80" by (simp add: SIZE_MAX_def)
  moreover have "validate_keys_loop [sample_key 8, sample_key 18] = LAPLACE_HIGHWAY_UNKNOWN_KIND"
    "\<not> list_all (\<lambda>k. validate_key (Some k) = LAPLACE_HIGHWAY_OK) [sample_key 8, sample_key 18]"
    by code_simp+
  ultimately show ?thesis
    using coordinate_batch_validates_first [OF sample_blake3_streaming,
        of "[sample_key 8, sample_key 18]" "[coordinate_zero, coordinate_zero]"]
    by (simp del: validate_keys_loop.simps list.pred_inject)
qed

end
