(* ===== verification/Evidence_Testimony.thy ===== *)
theory Evidence_Testimony
  imports Hashing
begin

text \<open>
  Evidence testimony (\<open>engine/src/evidence_testimony.c\<close>): the identity of a testimony record
  and the recording of a batch of records in strictly increasing identity order, with the totals
  and fingerprints of its receipt.  Constants are those of \<open>contracts/evidence-testimony.json\<close>.
\<close>

datatype laplace_evidence_testimony_status =
    LAPLACE_EVIDENCE_TESTIMONY_OK
  | LAPLACE_EVIDENCE_TESTIMONY_INVALID_ARGUMENT
  | LAPLACE_EVIDENCE_TESTIMONY_RECORD_INVALID
  | LAPLACE_EVIDENCE_TESTIMONY_IDENTITY_MISMATCH
  | LAPLACE_EVIDENCE_TESTIMONY_ORDER_INVALID
  | LAPLACE_EVIDENCE_TESTIMONY_PROFILE_MISMATCH
  | LAPLACE_EVIDENCE_TESTIMONY_UNCERTAINTY_INVALID
  | LAPLACE_EVIDENCE_TESTIMONY_OVERFLOW

record laplace_evidence_testimony_record =
  et_testimony_id :: laplace_digest256
  et_evidence_node_id :: laplace_digest256
  et_source_profile_id :: laplace_digest256
  et_recipe_receipt_id :: laplace_digest256
  et_trust_input_id :: laplace_digest256
  et_outcome_detail_id :: laplace_digest256
  et_uncertainty_numerator :: u64
  et_uncertainty_denominator :: u64
  et_sample_count :: u64
  et_source_type :: u32
  et_outcome_type :: u32
  et_disposition :: u32
  et_flags :: u32

text \<open>The \<open>status\<close> word of a receipt is \<open>LAPLACE_EVIDENCE_TESTIMONY_OK\<close>, that is 0, in every
  receipt the code writes.\<close>

record laplace_evidence_testimony_receipt =
  er_receipt_id :: laplace_digest256
  er_source_profile_id :: laplace_digest256
  er_input_fingerprint :: laplace_digest256
  er_output_fingerprint :: laplace_digest256
  er_testimony_count :: u64
  er_sample_count :: u64
  er_uncertain_count :: u64
  er_negative_disposition_count :: u64
  er_version :: u32
  er_status :: u32

definition LAPLACE_EVIDENCE_TESTIMONY_VERSION :: u32 where
  "LAPLACE_EVIDENCE_TESTIMONY_VERSION = 1"
definition LAPLACE_EVIDENCE_TESTIMONY_IDENTITY_DOMAIN :: "byte list" where
  "LAPLACE_EVIDENCE_TESTIMONY_IDENTITY_DOMAIN = ascii_bytes ''laplace-evidence-testimony-v1''"
definition LAPLACE_EVIDENCE_TESTIMONY_INPUT_DOMAIN :: "byte list" where
  "LAPLACE_EVIDENCE_TESTIMONY_INPUT_DOMAIN = ascii_bytes ''laplace-evidence-testimony-input-v1''"
definition LAPLACE_EVIDENCE_TESTIMONY_OUTPUT_DOMAIN :: "byte list" where
  "LAPLACE_EVIDENCE_TESTIMONY_OUTPUT_DOMAIN = ascii_bytes ''laplace-evidence-testimony-output-v1''"
definition LAPLACE_EVIDENCE_TESTIMONY_RECEIPT_DOMAIN :: "byte list" where
  "LAPLACE_EVIDENCE_TESTIMONY_RECEIPT_DOMAIN = ascii_bytes ''laplace-evidence-testimony-receipt-v1''"

text \<open>The \<open>while\<close> loop of Euclid's algorithm.\<close>

function gcd_u64 :: "u64 \<Rightarrow> u64 \<Rightarrow> u64" where
  "gcd_u64 left right = (if right \<noteq> 0 then gcd_u64 right (left mod right) else left)"
  by pat_completeness auto
termination
proof (relation "measure (\<lambda>(left, right). unat right)")
  fix left right :: u64
  assume "right \<noteq> 0"
  then show "((right, left mod right), (left, right)) \<in> measure (\<lambda>(left, right). unat right)"
    by (simp add: unat_mod unat_gt_0)
qed simp

declare gcd_u64.simps [simp del]

definition source_type_valid :: "u32 \<Rightarrow> bool" where
  "source_type_valid v \<longleftrightarrow> 1 \<le> v \<and> v \<le> 8"
definition outcome_type_valid :: "u32 \<Rightarrow> bool" where
  "outcome_type_valid v \<longleftrightarrow> 1 \<le> v \<and> v \<le> 9"
definition disposition_valid :: "u32 \<Rightarrow> bool" where
  "disposition_valid v \<longleftrightarrow> 1 \<le> v \<and> v \<le> 10"

definition uncertainty_valid :: "u64 \<Rightarrow> u64 \<Rightarrow> bool" where
  "uncertainty_valid numerator denominator \<longleftrightarrow>
     (if denominator = 0 \<or> denominator < numerator then False
      else if numerator = 0 then denominator = 1
      else gcd_u64 numerator denominator = 1)"

definition record_chunks :: "laplace_evidence_testimony_record \<Rightarrow> byte list list" where
  "record_chunks r =
     [bytes (et_evidence_node_id r), bytes (et_source_profile_id r),
      bytes (et_recipe_receipt_id r), bytes (et_trust_input_id r), bytes (et_outcome_detail_id r),
      u64_le (et_uncertainty_numerator r), u64_le (et_uncertainty_denominator r),
      u64_le (et_sample_count r), u32_le (et_source_type r), u32_le (et_outcome_type r),
      u32_le (et_disposition r), u32_le (et_flags r)]"

definition hash_record ::
  "'h blake3_api \<Rightarrow> 'h \<Rightarrow> laplace_evidence_testimony_record \<Rightarrow> bool \<Rightarrow> 'h" where
  "hash_record B h r include_identity =
     updates B h ((if include_identity then [bytes (et_testimony_id r)] else []) @ record_chunks r)"

definition laplace_evidence_testimony_identify ::
  "'h blake3_api \<Rightarrow> laplace_evidence_testimony_record option \<Rightarrow> laplace_digest256 option
     \<Rightarrow> laplace_evidence_testimony_status \<times> laplace_digest256 option" where
  "laplace_evidence_testimony_identify B testimony testimony_id =
     (case (testimony, testimony_id) of
        (Some t, Some _) \<Rightarrow>
          if bytes_zero (bytes (et_evidence_node_id t)) \<or> bytes_zero (bytes (et_source_profile_id t))
             \<or> bytes_zero (bytes (et_recipe_receipt_id t)) \<or> bytes_zero (bytes (et_trust_input_id t))
             \<or> bytes_zero (bytes (et_outcome_detail_id t)) \<or> et_sample_count t = 0
             \<or> \<not> source_type_valid (et_source_type t) \<or> \<not> outcome_type_valid (et_outcome_type t)
             \<or> \<not> disposition_valid (et_disposition t) \<or> et_flags t \<noteq> 0
          then (LAPLACE_EVIDENCE_TESTIMONY_RECORD_INVALID, testimony_id)
          else if \<not> uncertainty_valid (et_uncertainty_numerator t) (et_uncertainty_denominator t)
          then (LAPLACE_EVIDENCE_TESTIMONY_UNCERTAINTY_INVALID, testimony_id)
          else (LAPLACE_EVIDENCE_TESTIMONY_OK,
                Some (hasher_finalize B (hash_record B
                  (hasher_update B (hasher_init B) LAPLACE_EVIDENCE_TESTIMONY_IDENTITY_DOMAIN)
                  t False)))
      | _ \<Rightarrow> (LAPLACE_EVIDENCE_TESTIMONY_RECORD_INVALID, testimony_id))"

text \<open>The variables the recording loop carries.\<close>

record 'h testimony_state =
  ts_input_hasher :: 'h
  ts_output_hasher :: 'h
  ts_samples :: u64
  ts_uncertain :: u64
  ts_negative :: u64

text \<open>Unsupported, malformed, unresolved, rejected, contradicted.\<close>

definition negative_disposition :: "u32 \<Rightarrow> bool" where
  "negative_disposition d \<longleftrightarrow> d \<in> {5, 6, 7, 8, 10}"

definition testimony_step ::
  "'h blake3_api \<Rightarrow> laplace_evidence_testimony_record \<Rightarrow> 'h testimony_state \<Rightarrow> 'h testimony_state" where
  "testimony_step B r s =
     \<lparr>ts_input_hasher = hash_record B (ts_input_hasher s) r True,
      ts_output_hasher = hasher_update B (ts_output_hasher s) (bytes (et_testimony_id r)),
      ts_samples = ts_samples s + et_sample_count r,
      ts_uncertain = ts_uncertain s + (if et_uncertainty_numerator r \<noteq> 0 then 1 else 0),
      ts_negative = ts_negative s + (if negative_disposition (et_disposition r) then 1 else 0)\<rparr>"

text \<open>One turn of the loop before the totals are updated: \<open>first\<close> is \<open>records[0]\<close> and
  \<open>previous\<close> the record before this one, absent at index 0.\<close>

definition testimony_check ::
  "'h blake3_api \<Rightarrow> laplace_evidence_testimony_record \<Rightarrow> laplace_evidence_testimony_record option
     \<Rightarrow> 'h testimony_state \<Rightarrow> laplace_evidence_testimony_record
     \<Rightarrow> laplace_evidence_testimony_status" where
  "testimony_check B first previous s r =
     (case laplace_evidence_testimony_identify B (Some r) (Some 0) of
        (identify_status, expected) \<Rightarrow>
          if identify_status \<noteq> LAPLACE_EVIDENCE_TESTIMONY_OK then identify_status
          else if \<not> digest_equal (the expected) (et_testimony_id r)
          then LAPLACE_EVIDENCE_TESTIMONY_IDENTITY_MISMATCH
          else if (case previous of None \<Rightarrow> False
                   | Some p \<Rightarrow> 0 \<le> memcmp (bytes (et_testimony_id p)) (bytes (et_testimony_id r)))
          then LAPLACE_EVIDENCE_TESTIMONY_ORDER_INVALID
          else if previous \<noteq> None
               \<and> \<not> digest_equal (et_source_profile_id first) (et_source_profile_id r)
          then LAPLACE_EVIDENCE_TESTIMONY_PROFILE_MISMATCH
          else if UINT64_MAX - ts_samples s < et_sample_count r
          then LAPLACE_EVIDENCE_TESTIMONY_OVERFLOW
          else LAPLACE_EVIDENCE_TESTIMONY_OK)"

fun testimony_loop ::
  "'h blake3_api \<Rightarrow> laplace_evidence_testimony_record \<Rightarrow> laplace_evidence_testimony_record option
     \<Rightarrow> nat \<Rightarrow> 'h testimony_state \<Rightarrow> laplace_evidence_testimony_record list
     \<Rightarrow> (laplace_evidence_testimony_status \<times> nat) + 'h testimony_state" where
  "testimony_loop B first previous index s [] = Inr s"
| "testimony_loop B first previous index s (r # rs) =
     (let status = testimony_check B first previous s r in
      if status \<noteq> LAPLACE_EVIDENCE_TESTIMONY_OK then Inl (status, index)
      else testimony_loop B first (Some r) (Suc index) (testimony_step B r s) rs)"

definition testimony_receipt_zero :: laplace_evidence_testimony_receipt where
  "testimony_receipt_zero =
     \<lparr>er_receipt_id = 0, er_source_profile_id = 0, er_input_fingerprint = 0,
      er_output_fingerprint = 0, er_testimony_count = 0, er_sample_count = 0,
      er_uncertain_count = 0, er_negative_disposition_count = 0, er_version = 0, er_status = 0\<rparr>"

definition testimony_receipt_chunks :: "laplace_evidence_testimony_receipt \<Rightarrow> byte list list" where
  "testimony_receipt_chunks r =
     [LAPLACE_EVIDENCE_TESTIMONY_RECEIPT_DOMAIN, bytes (er_source_profile_id r),
      bytes (er_input_fingerprint r), bytes (er_output_fingerprint r),
      u64_le (er_testimony_count r), u64_le (er_sample_count r), u64_le (er_uncertain_count r),
      u64_le (er_negative_disposition_count r), u32_le (er_version r), u32_le (er_status r)]"

text \<open>The results are the status, the receipt and \<open>error->record_index\<close>.\<close>

definition laplace_evidence_record_testimony_batch ::
  "'h blake3_api \<Rightarrow> laplace_evidence_testimony_record span
     \<Rightarrow> laplace_evidence_testimony_receipt option \<Rightarrow> u64 option
     \<Rightarrow> laplace_evidence_testimony_status \<times> laplace_evidence_testimony_receipt option \<times> u64 option"
  where
  "laplace_evidence_record_testimony_batch B records receipt error =
     (let receipt0 = map_option (\<lambda>_. testimony_receipt_zero
            \<lparr>er_version := LAPLACE_EVIDENCE_TESTIMONY_VERSION\<rparr>) receipt;
          error0 = map_option (\<lambda>_. UINT64_MAX) error in
      if span_null records \<or> span_count records = 0 \<or> receipt = None
      then (LAPLACE_EVIDENCE_TESTIMONY_INVALID_ARGUMENT, receipt0, error0)
      else
        let rs = span_items records;
            n = u64_le (of_nat (length rs));
            s0 = \<lparr>ts_input_hasher = updates B (hasher_init B)
                    [LAPLACE_EVIDENCE_TESTIMONY_INPUT_DOMAIN, n],
                  ts_output_hasher = updates B (hasher_init B)
                    [LAPLACE_EVIDENCE_TESTIMONY_OUTPUT_DOMAIN, n],
                  ts_samples = 0, ts_uncertain = 0, ts_negative = 0\<rparr> in
        case testimony_loop B (rs ! 0) None 0 s0 rs of
          Inl (status, index) \<Rightarrow> (status, receipt0, map_option (\<lambda>_. of_nat index) error)
        | Inr s \<Rightarrow>
            let r = (the receipt0)\<lparr>er_source_profile_id := et_source_profile_id (rs ! 0),
                      er_input_fingerprint := hasher_finalize B (ts_input_hasher s),
                      er_output_fingerprint := hasher_finalize B (ts_output_hasher s),
                      er_testimony_count := of_nat (length rs),
                      er_sample_count := ts_samples s,
                      er_uncertain_count := ts_uncertain s,
                      er_negative_disposition_count := ts_negative s,
                      er_status := 0\<rparr> in
            (LAPLACE_EVIDENCE_TESTIMONY_OK,
             Some (r\<lparr>er_receipt_id := hasher_finalize B
                (updates B (hasher_init B) (testimony_receipt_chunks r))\<rparr>), error0))"

section \<open>Uncertainty\<close>

lemma gcd_u64_correct: "unat (gcd_u64 a b) = gcd (unat a) (unat b)"
proof (induction a b rule: gcd_u64.induct)
  case (1 left right)
  then show ?case
    by (subst gcd_u64.simps) (simp add: unat_mod gcd.commute [of "unat left"] gcd_red_nat [symmetric] flip: gcd_red_nat)
qed

lemma uncertainty_valid_iff:
  "uncertainty_valid n d \<longleftrightarrow> d \<noteq> 0 \<and> n \<le> d \<and> coprime (unat n) (unat d)"
proof -
  have "gcd_u64 n d = 1 \<longleftrightarrow> coprime (unat n) (unat d)"
    using gcd_u64_correct [of n d] by (auto simp: coprime_iff_gcd_eq_1 word_unat_eq_iff)
  moreover have "d = 1 \<longleftrightarrow> coprime (unat (0 :: u64)) (unat d)"
    by (simp add: word_unat_eq_iff)
  ultimately show ?thesis
    by (auto simp: uncertainty_valid_def not_le)
qed

section \<open>Records\<close>

definition record_bytes :: "laplace_evidence_testimony_record \<Rightarrow> byte list" where
  "record_bytes r = concat (record_chunks r)"

lemma length_record_bytes [simp]: "length (record_bytes r) = 200"
  by (simp add: record_bytes_def record_chunks_def)

lemma record_bytes_inject:
  "record_bytes r = record_bytes r' \<longleftrightarrow> r\<lparr>et_testimony_id := 0\<rparr> = r'\<lparr>et_testimony_id := 0\<rparr>"
  by (cases r; cases r') (auto simp: record_bytes_def record_chunks_def layout)

interpretation rc: fixed_width_codec "\<lambda>r. bytes (et_testimony_id r) @ record_bytes r" 232
proof
  fix r r' :: laplace_evidence_testimony_record
  show "length (bytes (et_testimony_id r) @ record_bytes r) = 232" by simp
  assume "bytes (et_testimony_id r) @ record_bytes r = bytes (et_testimony_id r') @ record_bytes r'"
  then show "r = r'"
    by (cases r; cases r') (auto simp: layout record_bytes_inject)
qed

text \<open>What a testimony record must satisfy to have an identity.\<close>

definition well_formed :: "laplace_evidence_testimony_record \<Rightarrow> bool" where
  "well_formed t \<longleftrightarrow>
     et_evidence_node_id t \<noteq> 0 \<and> et_source_profile_id t \<noteq> 0 \<and> et_recipe_receipt_id t \<noteq> 0
     \<and> et_trust_input_id t \<noteq> 0 \<and> et_outcome_detail_id t \<noteq> 0 \<and> et_sample_count t \<noteq> 0
     \<and> et_source_type t \<in> {1..8} \<and> et_outcome_type t \<in> {1..9} \<and> et_disposition t \<in> {1..10}
     \<and> et_flags t = 0
     \<and> et_uncertainty_denominator t \<noteq> 0
     \<and> et_uncertainty_numerator t \<le> et_uncertainty_denominator t
     \<and> coprime (unat (et_uncertainty_numerator t)) (unat (et_uncertainty_denominator t))"

definition testimony_identity :: "'h blake3_api \<Rightarrow> laplace_evidence_testimony_record \<Rightarrow> laplace_digest256" where
  "testimony_identity B t = blake3 B (LAPLACE_EVIDENCE_TESTIMONY_IDENTITY_DOMAIN @ record_bytes t)"

lemma identify_OK_iff:
  assumes "blake3_streaming B"
  shows "laplace_evidence_testimony_identify B (Some t) (Some x) = (LAPLACE_EVIDENCE_TESTIMONY_OK, y)
    \<longleftrightarrow> well_formed t \<and> y = Some (testimony_identity B t)"
  using finalize_updates [OF assms]
  by (auto simp: laplace_evidence_testimony_identify_def well_formed_def uncertainty_valid_iff
      source_type_valid_def outcome_type_valid_def disposition_valid_def hash_record_def hashing
      testimony_identity_def record_bytes_def)

lemma identify_status_iff:
  assumes "blake3_streaming B"
  shows "fst (laplace_evidence_testimony_identify B (Some t) (Some x)) = LAPLACE_EVIDENCE_TESTIMONY_OK
    \<longleftrightarrow> well_formed t"
  using identify_OK_iff [OF assms] by (metis prod.collapse fst_conv)

section \<open>The recording loop\<close>

lemma testimony_check_OK_iff:
  assumes "blake3_streaming B"
  shows "testimony_check B first previous s r = LAPLACE_EVIDENCE_TESTIMONY_OK \<longleftrightarrow>
    well_formed r \<and> et_testimony_id r = testimony_identity B r
    \<and> (\<forall>p. previous = Some p \<longrightarrow> et_testimony_id p < et_testimony_id r
         \<and> et_source_profile_id r = et_source_profile_id first)
    \<and> unat (ts_samples s) + unat (et_sample_count r) < 2 ^ 64"
proof -
  obtain st y where id: "laplace_evidence_testimony_identify B (Some r) (Some 0) = (st, y)" by fastforce
  have ov: "UINT64_MAX - ts_samples s < et_sample_count r \<longleftrightarrow>
      \<not> unat (ts_samples s) + unat (et_sample_count r) < 2 ^ 64"
    using add_u64_Some_iff [of "ts_samples s" "et_sample_count r" "ts_samples s + et_sample_count r"]
    by (auto simp: add_u64_def split: if_splits)
  show ?thesis
  proof (cases "st = LAPLACE_EVIDENCE_TESTIMONY_OK")
    case True
    with id identify_OK_iff [OF assms, of r 0 y] have "well_formed r" "y = Some (testimony_identity B r)"
      by auto
    with id True ov show ?thesis
      by (cases previous) (auto simp: testimony_check_def not_le)
  next
    case False
    with id identify_status_iff [OF assms, of r 0] show ?thesis
      by (auto simp: testimony_check_def)
  qed
qed

lemma testimony_loop_Inr_iff:
  assumes "blake3_streaming B"
  shows "testimony_loop B first (Some p) i s rs = Inr s' \<longleftrightarrow>
    list_all (\<lambda>r. well_formed r \<and> et_testimony_id r = testimony_identity B r
        \<and> et_source_profile_id r = et_source_profile_id first) rs
    \<and> sorted_wrt (<) (et_testimony_id p # map et_testimony_id rs)
    \<and> unat (ts_samples s) + sum_list (map (unat \<circ> et_sample_count) rs) < 2 ^ 64
    \<and> s' = foldl (\<lambda>s r. testimony_step B r s) s rs"
proof (induction rs arbitrary: p i s)
  case Nil
  then show ?case using unsigned_less [of "ts_samples s", where 'a = nat] by auto
next
  case (Cons r rs)
  show ?case
  proof (cases "testimony_check B first (Some p) s r = LAPLACE_EVIDENCE_TESTIMONY_OK")
    case False
    then show ?thesis
      using testimony_check_OK_iff [OF assms, of first "Some p" s r] by (auto simp: Let_def)
  next
    case True
    note c = True [unfolded testimony_check_OK_iff [OF assms]]
    then have "unat (ts_samples (testimony_step B r s)) = unat (ts_samples s) + unat (et_sample_count r)"
      by (simp add: testimony_step_def unat_word_ariths)
    with True c Cons.IH [of r "Suc i" "testimony_step B r s"] show ?thesis
      by (auto simp: Let_def add.assoc intro: less_trans)
  qed
qed

lemma testimony_loop_start_iff:
  assumes "blake3_streaming B" "rs \<noteq> []" "ts_samples s = 0"
  shows "testimony_loop B (rs ! 0) None 0 s rs = Inr s' \<longleftrightarrow>
    list_all (\<lambda>r. well_formed r \<and> et_testimony_id r = testimony_identity B r
        \<and> et_source_profile_id r = et_source_profile_id (rs ! 0)) rs
    \<and> sorted_wrt (<) (map et_testimony_id rs)
    \<and> sum_list (map (unat \<circ> et_sample_count) rs) < 2 ^ 64
    \<and> s' = foldl (\<lambda>s r. testimony_step B r s) s rs"
proof -
  obtain r rs' where rs: "rs = r # rs'" using assms(2) by (cases rs) auto
  show ?thesis
  proof (cases "testimony_check B r None s r = LAPLACE_EVIDENCE_TESTIMONY_OK")
    case False
    then show ?thesis
      using testimony_check_OK_iff [OF assms(1), of r None s r] rs assms(3) by (auto simp: Let_def)
  next
    case True
    note c = True [unfolded testimony_check_OK_iff [OF assms(1)]]
    have "unat (ts_samples (testimony_step B r s)) = unat (et_sample_count r)"
      using assms(3) by (simp add: testimony_step_def)
    with True c rs testimony_loop_Inr_iff [OF assms(1), of r r "Suc 0" "testimony_step B r s" rs' s']
    show ?thesis by (auto simp: Let_def)
  qed
qed

lemma testimony_loop_Inl:
  "testimony_loop B first p i s rs = Inl x \<Longrightarrow> fst x \<noteq> LAPLACE_EVIDENCE_TESTIMONY_OK"
  by (induction rs arbitrary: p i s) (auto simp: Let_def split: if_splits)

text \<open>The totals and hashers after the loop.\<close>

lemma testimony_steps:
  "foldl (\<lambda>s r. testimony_step B r s) s rs =
     \<lparr>ts_input_hasher = updates B (ts_input_hasher s)
        (concat (map (\<lambda>r. bytes (et_testimony_id r) # record_chunks r) rs)),
      ts_output_hasher = updates B (ts_output_hasher s) (map (bytes \<circ> et_testimony_id) rs),
      ts_samples = ts_samples s + sum_list (map et_sample_count rs),
      ts_uncertain = ts_uncertain s + of_nat (length (filter (\<lambda>r. et_uncertainty_numerator r \<noteq> 0) rs)),
      ts_negative = ts_negative s
        + of_nat (length (filter (\<lambda>r. negative_disposition (et_disposition r)) rs))\<rparr>"
  by (induction rs arbitrary: s) (simp_all add: testimony_step_def hash_record_def hashing)

definition batch_preimage :: "laplace_evidence_testimony_record list \<Rightarrow> byte list" where
  "batch_preimage rs = LAPLACE_EVIDENCE_TESTIMONY_INPUT_DOMAIN @ u64_le (of_nat (length rs))
     @ concat (map (\<lambda>r. bytes (et_testimony_id r) @ record_bytes r) rs)"

lemma batch_preimage_inject: "batch_preimage rs = batch_preimage rs' \<longleftrightarrow> rs = rs'"
  using rc.concat_enc_inject_nonempty [of rs rs'] by (auto simp: batch_preimage_def layout)

text \<open>The records of an acceptable batch.\<close>

definition batch_acceptable :: "'h blake3_api \<Rightarrow> laplace_evidence_testimony_record list \<Rightarrow> bool" where
  "batch_acceptable B rs \<longleftrightarrow> rs \<noteq> []
     \<and> list_all (\<lambda>r. well_formed r \<and> et_testimony_id r = testimony_identity B r
          \<and> et_source_profile_id r = et_source_profile_id (rs ! 0)) rs
     \<and> sorted_wrt (<) (map et_testimony_id rs)
     \<and> sum_list (map (unat \<circ> et_sample_count) rs) < 2 ^ 64"

lemma batch_receipt_present:
  "\<exists>st r e. laplace_evidence_record_testimony_batch B rs (Some r0) (Some e0) = (st, Some r, e)"
  by (simp add: laplace_evidence_record_testimony_batch_def Let_def split: sum.splits prod.splits)

section \<open>Properties\<close>

text \<open>C35: identifying a testimony succeeds exactly for records whose five references are non-zero,
  whose classifications are in range, with at least one sample and an uncertainty that is a
  fraction between 0 and 1 in lowest terms; the identity is then the hash of a byte string that
  determines every other field of the record.\<close>

theorem testimony_identity_binds_record:
  assumes "blake3_streaming B"
  shows "(laplace_evidence_testimony_identify B (Some t) (Some x) = (LAPLACE_EVIDENCE_TESTIMONY_OK, y)
      \<longleftrightarrow> well_formed t
        \<and> y = Some (blake3 B (LAPLACE_EVIDENCE_TESTIMONY_IDENTITY_DOMAIN @ record_bytes t)))
    \<and> (record_bytes t = record_bytes t' \<longleftrightarrow> t\<lparr>et_testimony_id := 0\<rparr> = t'\<lparr>et_testimony_id := 0\<rparr>)"
  using identify_OK_iff [OF assms] record_bytes_inject by (simp add: testimony_identity_def)

definition sample_testimony :: "u64 \<Rightarrow> laplace_evidence_testimony_record" where
  "sample_testimony n =
     \<lparr>et_testimony_id = 0, et_evidence_node_id = sample_digest [1],
      et_source_profile_id = sample_digest [2], et_recipe_receipt_id = sample_digest [3],
      et_trust_input_id = sample_digest [4], et_outcome_detail_id = sample_digest [5],
      et_uncertainty_numerator = 3, et_uncertainty_denominator = 8, et_sample_count = n,
      et_source_type = 4, et_outcome_type = 2, et_disposition = 7, et_flags = 0\<rparr>"

definition sample_testimony_record :: "u64 \<Rightarrow> laplace_evidence_testimony_record" where
  "sample_testimony_record n =
     (sample_testimony n)\<lparr>et_testimony_id := testimony_identity sample_blake3 (sample_testimony n)\<rparr>"

lemma sample_testimony_well_formed: "n \<noteq> 0 \<Longrightarrow> well_formed (sample_testimony n)"
proof -
  have "coprime (3 :: nat) 8" by code_simp
  then show "n \<noteq> 0 \<Longrightarrow> well_formed (sample_testimony n)"
    by (simp add: well_formed_def sample_testimony_def sample_digest_nonzero)
qed

theorem testimony_identity_binds_record_witness:
  "laplace_evidence_testimony_identify sample_blake3 (Some (sample_testimony 5)) (Some 0) =
     (LAPLACE_EVIDENCE_TESTIMONY_OK,
      Some (blake3 sample_blake3 (LAPLACE_EVIDENCE_TESTIMONY_IDENTITY_DOMAIN @ record_bytes (sample_testimony 5))))
   \<and> record_bytes (sample_testimony 5) \<noteq> record_bytes (sample_testimony 6)"
  using testimony_identity_binds_record [OF sample_blake3_streaming, of "sample_testimony 5" 0 _ "sample_testimony 6"]
    sample_testimony_well_formed [of 5]
  by (auto simp: sample_testimony_def)

text \<open>C34: a batch is recorded exactly when it is non-empty, every record is well formed and
  carries its own identity, the identities are strictly increasing, all records have the profile
  of the first and the sample counts do not overflow; the receipt then counts the records, the
  samples, the uncertain and the negatively disposed records exactly, and fingerprints a byte
  string from which the whole batch can be read back.  Otherwise the receipt carries only its
  version.\<close>

theorem testimony_batch_recorded_iff:
  assumes B: "blake3_streaming B" and len: "length rs < 2 ^ 64"
    and run: "laplace_evidence_record_testimony_batch B (Span rs) (Some r0) (Some e0) = (status, Some r, e)"
  shows "(status = LAPLACE_EVIDENCE_TESTIMONY_OK \<longleftrightarrow> batch_acceptable B rs)
    \<and> (status \<noteq> LAPLACE_EVIDENCE_TESTIMONY_OK \<longrightarrow> r = testimony_receipt_zero\<lparr>er_version := 1\<rparr>)
    \<and> (status = LAPLACE_EVIDENCE_TESTIMONY_OK \<longrightarrow>
        unat (er_testimony_count r) = length rs
        \<and> unat (er_sample_count r) = sum_list (map (unat \<circ> et_sample_count) rs)
        \<and> unat (er_uncertain_count r) = length (filter (\<lambda>t. et_uncertainty_numerator t \<noteq> 0) rs)
        \<and> unat (er_negative_disposition_count r)
            = length (filter (\<lambda>t. negative_disposition (et_disposition t)) rs)
        \<and> er_source_profile_id r = et_source_profile_id (rs ! 0)
        \<and> er_input_fingerprint r = blake3 B (batch_preimage rs)
        \<and> (batch_preimage rs = batch_preimage rs' \<longleftrightarrow> rs = rs'))"
proof (cases "rs = []")
  case True
  with run show ?thesis
    by (auto simp: laplace_evidence_record_testimony_batch_def batch_acceptable_def
        LAPLACE_EVIDENCE_TESTIMONY_VERSION_def)
next
  case False
  define n where "n = u64_le (of_nat (length rs))"
  define s0 where "s0 = \<lparr>ts_input_hasher = updates B (hasher_init B) [LAPLACE_EVIDENCE_TESTIMONY_INPUT_DOMAIN, n],
      ts_output_hasher = updates B (hasher_init B) [LAPLACE_EVIDENCE_TESTIMONY_OUTPUT_DOMAIN, n],
      ts_samples = 0, ts_uncertain = 0, ts_negative = 0\<rparr>"
  have s00: "ts_samples s0 = 0" by (simp add: s0_def)
  note start = testimony_loop_start_iff [OF B False s00]
  show ?thesis
  proof (cases "testimony_loop B (rs ! 0) None 0 s0 rs")
    case (Inl x)
    then have "\<not> batch_acceptable B rs" "fst x \<noteq> LAPLACE_EVIDENCE_TESTIMONY_OK"
      using start False by (auto simp: batch_acceptable_def dest: testimony_loop_Inl)
    then show ?thesis
      using run Inl False
      by (cases x) (auto simp: laplace_evidence_record_testimony_batch_def Let_def s0_def n_def
          LAPLACE_EVIDENCE_TESTIMONY_VERSION_def)
  next
    case (Inr s)
    note ok = start [of s, unfolded Inr, simplified]
    then have acc: "batch_acceptable B rs" using False by (simp add: batch_acceptable_def)
    have s: "s = foldl (\<lambda>s r. testimony_step B r s) s0 rs" using ok by simp
    have cnt: "unat (of_nat (length (filter P rs)) :: u64) = length (filter P rs)" for P
      using le_less_trans [OF length_filter_le len, of P]
      by (simp add: unat_of_nat take_bit_nat_eq_self)
    have sum: "unat (sum_list (map et_sample_count rs)) = sum_list (map (unat \<circ> et_sample_count) rs)"
      using unat_checked_sum [of 0 "map et_sample_count rs"] ok
        checked_sum_Some_iff [of 0 "map et_sample_count rs"] by simp
    have inp: "hasher_finalize B (ts_input_hasher s) = blake3 B (batch_preimage rs)"
      using finalize_updates [OF B]
      by (simp add: s testimony_steps s0_def n_def batch_preimage_def record_bytes_def concat_map_concat comp_def)
    show ?thesis
      using run Inr False acc cnt sum inp len batch_preimage_inject [of rs rs']
      by (auto simp: laplace_evidence_record_testimony_batch_def Let_def s0_def [symmetric]
          n_def [symmetric])
         (auto simp: s testimony_steps s0_def unat_of_nat take_bit_nat_eq_self)
  qed
qed

theorem testimony_batch_recorded_iff_witness:
  "\<exists>r. laplace_evidence_record_testimony_batch sample_blake3 (Span [sample_testimony_record 5])
         (Some testimony_receipt_zero) (Some 0) = (LAPLACE_EVIDENCE_TESTIMONY_OK, Some r, Some UINT64_MAX)
     \<and> unat (er_sample_count r) = 5 \<and> unat (er_negative_disposition_count r) = 1"
proof -
  have same: "record_bytes (sample_testimony_record 5) = record_bytes (sample_testimony 5)"
    by (simp add: record_bytes_inject sample_testimony_record_def)
  have "well_formed (sample_testimony_record 5)"
    using sample_testimony_well_formed [of 5] by (simp add: well_formed_def sample_testimony_record_def)
  with same have acc: "batch_acceptable sample_blake3 [sample_testimony_record 5]"
    by (simp add: batch_acceptable_def testimony_identity_def)
       (simp add: sample_testimony_record_def sample_testimony_def testimony_identity_def)
  obtain st r e where run: "laplace_evidence_record_testimony_batch sample_blake3
      (Span [sample_testimony_record 5]) (Some testimony_receipt_zero) (Some 0) = (st, Some r, e)"
    using batch_receipt_present by metis
  note ok = testimony_batch_recorded_iff [OF sample_blake3_streaming _ run, of "[]"]
  with acc have "st = LAPLACE_EVIDENCE_TESTIMONY_OK" by simp
  moreover from this run have "e = Some UINT64_MAX"
    by (auto simp: laplace_evidence_record_testimony_batch_def Let_def
        split: sum.splits dest: testimony_loop_Inl simp del: testimony_loop.simps)
  ultimately show ?thesis
    using ok run by (simp add: sample_testimony_record_def sample_testimony_def negative_disposition_def)
qed

end
