(* ===== verification/Reference_Topology.thy ===== *)
theory Reference_Topology
  imports Highway "HOL-Library.Product_Lexorder"
begin

text \<open>
  Reference topology (\<open>engine/src/reference_topology.c\<close>): a batch of scoped reference
  candidates is resolved into records in input order.  Each record carries the highway
  coordinate of its key and the disposition (present, retired, unresolved) that the declarations
  in the batch give to that key.  Constants are those of \<open>contracts/reference-topology.json\<close>.

  The three index arrays the C code sorts are built from the candidates and records after the
  scan that fills them.  Allocation failure is the argument \<open>memory\<close>.
\<close>

datatype laplace_reference_topology_status =
    LAPLACE_REFERENCE_TOPOLOGY_OK
  | LAPLACE_REFERENCE_TOPOLOGY_INVALID_ARGUMENT
  | LAPLACE_REFERENCE_TOPOLOGY_RECORD_INVALID
  | LAPLACE_REFERENCE_TOPOLOGY_PROFILE_MISMATCH
  | LAPLACE_REFERENCE_TOPOLOGY_DECLARATION_CONFLICT
  | LAPLACE_REFERENCE_TOPOLOGY_COORDINATE_COLLISION
  | LAPLACE_REFERENCE_TOPOLOGY_DUPLICATE_OCCURRENCE
  | LAPLACE_REFERENCE_TOPOLOGY_MEMORY_FAILURE
  | LAPLACE_REFERENCE_TOPOLOGY_OVERFLOW
  | LAPLACE_REFERENCE_TOPOLOGY_HIGHWAY_FAILURE

datatype reference_field =
    REFERENCE_FIELD_NONE
  | REFERENCE_FIELD_RECORD
  | REFERENCE_FIELD_PROFILE
  | REFERENCE_FIELD_DECLARATION
  | REFERENCE_FIELD_COORDINATE
  | REFERENCE_FIELD_OCCURRENCE

record laplace_reference_candidate =
  rc_source_profile_id :: laplace_digest256
  rc_key :: laplace_highway_key
  rc_row_entity_id :: laplace_id128
  rc_field_entity_id :: laplace_id128
  rc_value_entity_id :: laplace_id128
  rc_source_ordinal :: u64
  rc_artifact_ordinal :: u64
  rc_row_ordinal :: u64
  rc_column_ordinal :: u64
  rc_rule_flags :: u32
  rc_reserved :: u32

record laplace_reference_record =
  rr_candidate :: laplace_reference_candidate
  rr_coordinate :: laplace_highway_coordinate
  rr_occurrence_id :: laplace_digest256
  rr_reference_id :: laplace_digest256
  rr_disposition :: u32
  rr_reserved :: u32

text \<open>The \<open>status\<close> word is 0 (OK) whenever the code sets it.\<close>

record laplace_reference_topology_receipt =
  rt_receipt_id :: laplace_digest256
  rt_source_profile_id :: laplace_digest256
  rt_input_fingerprint :: laplace_digest256
  rt_output_fingerprint :: laplace_digest256
  rt_occurrence_count :: u64
  rt_coordinate_count :: u64
  rt_present_count :: u64
  rt_retired_count :: u64
  rt_unresolved_count :: u64
  rt_version :: u32
  rt_status :: u32

record laplace_reference_topology_error =
  re_record_index :: u64
  re_field :: reference_field
  re_reserved :: u32

record reference_index =
  ri_key :: laplace_highway_key
  ri_input_index :: nat
  ri_rule_flags :: u32

record coordinate_index =
  ci_coordinate :: laplace_id128
  ci_fingerprint :: laplace_digest256
  ci_input_index :: nat

record occurrence_index =
  oi_occurrence_id :: laplace_digest256
  oi_input_index :: nat

definition LAPLACE_REFERENCE_TOPOLOGY_VERSION :: u32 where "LAPLACE_REFERENCE_TOPOLOGY_VERSION = 1"
definition LAPLACE_REFERENCE_TOPOLOGY_IDENTITY_DOMAIN :: "byte list" where
  "LAPLACE_REFERENCE_TOPOLOGY_IDENTITY_DOMAIN = ascii_bytes ''laplace-reference-topology-record-v1''"
definition LAPLACE_REFERENCE_TOPOLOGY_OCCURRENCE_DOMAIN :: "byte list" where
  "LAPLACE_REFERENCE_TOPOLOGY_OCCURRENCE_DOMAIN =
     ascii_bytes ''laplace-reference-topology-occurrence-v1''"
definition LAPLACE_REFERENCE_TOPOLOGY_INPUT_DOMAIN :: "byte list" where
  "LAPLACE_REFERENCE_TOPOLOGY_INPUT_DOMAIN = ascii_bytes ''laplace-reference-topology-input-v1''"
definition LAPLACE_REFERENCE_TOPOLOGY_OUTPUT_DOMAIN :: "byte list" where
  "LAPLACE_REFERENCE_TOPOLOGY_OUTPUT_DOMAIN = ascii_bytes ''laplace-reference-topology-output-v1''"
definition LAPLACE_REFERENCE_TOPOLOGY_RECEIPT_DOMAIN :: "byte list" where
  "LAPLACE_REFERENCE_TOPOLOGY_RECEIPT_DOMAIN = ascii_bytes ''laplace-reference-topology-receipt-v1''"

definition LAPLACE_REFERENCE_RULE_ENDPOINT :: u32 where "LAPLACE_REFERENCE_RULE_ENDPOINT = 1"
definition LAPLACE_REFERENCE_RULE_PRESENT_DECLARATION :: u32 where
  "LAPLACE_REFERENCE_RULE_PRESENT_DECLARATION = 2"
definition LAPLACE_REFERENCE_RULE_RETIRED_DECLARATION :: u32 where
  "LAPLACE_REFERENCE_RULE_RETIRED_DECLARATION = 4"
definition LAPLACE_REFERENCE_RULE_KNOWN_MASK :: u32 where
  "LAPLACE_REFERENCE_RULE_KNOWN_MASK = LAPLACE_REFERENCE_RULE_ENDPOINT
     OR LAPLACE_REFERENCE_RULE_PRESENT_DECLARATION OR LAPLACE_REFERENCE_RULE_RETIRED_DECLARATION"
definition LAPLACE_REFERENCE_DISPOSITION_PRESENT :: u32 where
  "LAPLACE_REFERENCE_DISPOSITION_PRESENT = 1"
definition LAPLACE_REFERENCE_DISPOSITION_RETIRED :: u32 where
  "LAPLACE_REFERENCE_DISPOSITION_RETIRED = 2"
definition LAPLACE_REFERENCE_DISPOSITION_UNRESOLVED :: u32 where
  "LAPLACE_REFERENCE_DISPOSITION_UNRESOLVED = 6"

section \<open>Comparators\<close>

text \<open>\<open>hash_key\<close> of this file feeds the same six fields as \<open>hash_key_payload\<close> of the highway.\<close>

definition hash_key_chunks :: "laplace_highway_key \<Rightarrow> byte list list" where
  "hash_key_chunks k =
     [u32_le (hk_kind k), bytes (hk_authority k), bytes (hk_release k), bytes (hk_name_space k),
      bytes (hk_local_identifier k), u64_le (hk_version k)]"

definition key_compare_value :: "laplace_highway_key \<Rightarrow> laplace_highway_key \<Rightarrow> int" where
  "key_compare_value left right =
     (if hk_kind left \<noteq> hk_kind right then (if hk_kind left < hk_kind right then -1 else 1)
      else let compared = memcmp (bytes (hk_authority left)) (bytes (hk_authority right)) in
      if compared \<noteq> 0 then compared
      else let compared = memcmp (bytes (hk_release left)) (bytes (hk_release right)) in
      if compared \<noteq> 0 then compared
      else let compared = memcmp (bytes (hk_name_space left)) (bytes (hk_name_space right)) in
      if compared \<noteq> 0 then compared
      else let compared =
        memcmp (bytes (hk_local_identifier left)) (bytes (hk_local_identifier right)) in
      if compared \<noteq> 0 then compared
      else if hk_version left = hk_version right then 0
      else if hk_version left < hk_version right then -1 else 1)"

definition index_compare :: "nat \<Rightarrow> nat \<Rightarrow> int" where
  "index_compare a b = (if a = b then 0 else if a < b then -1 else 1)"

definition reference_index_compare :: "reference_index \<Rightarrow> reference_index \<Rightarrow> int" where
  "reference_index_compare a b =
     (let compared = key_compare_value (ri_key a) (ri_key b) in
      if compared \<noteq> 0 then compared else index_compare (ri_input_index a) (ri_input_index b))"

definition coordinate_index_compare :: "coordinate_index \<Rightarrow> coordinate_index \<Rightarrow> int" where
  "coordinate_index_compare a b =
     (let compared = memcmp (bytes (ci_coordinate a)) (bytes (ci_coordinate b)) in
      if compared \<noteq> 0 then compared
      else let compared = memcmp (bytes (ci_fingerprint a)) (bytes (ci_fingerprint b)) in
      if compared \<noteq> 0 then compared else index_compare (ci_input_index a) (ci_input_index b))"

definition occurrence_index_compare :: "occurrence_index \<Rightarrow> occurrence_index \<Rightarrow> int" where
  "occurrence_index_compare a b =
     (let compared = memcmp (bytes (oi_occurrence_id a)) (bytes (oi_occurrence_id b)) in
      if compared \<noteq> 0 then compared else index_compare (oi_input_index a) (oi_input_index b))"

section \<open>Candidates and identities\<close>

definition candidate_valid :: "laplace_reference_candidate \<Rightarrow> bool" where
  "candidate_valid c \<longleftrightarrow>
     (let declarations = rc_rule_flags c AND (LAPLACE_REFERENCE_RULE_PRESENT_DECLARATION
            OR LAPLACE_REFERENCE_RULE_RETIRED_DECLARATION) in
      \<not> bytes_zero (bytes (rc_source_profile_id c))
      \<and> \<not> bytes_zero (bytes (rc_row_entity_id c))
      \<and> \<not> bytes_zero (bytes (rc_field_entity_id c))
      \<and> \<not> bytes_zero (bytes (rc_value_entity_id c))
      \<and> memcmp (bytes (rc_value_entity_id c)) (bytes (hk_local_identifier (rc_key c))) = 0
      \<and> rc_source_ordinal c \<noteq> 0 \<and> rc_row_ordinal c \<noteq> 0 \<and> rc_column_ordinal c \<noteq> 0
      \<and> rc_reserved c = 0
      \<and> rc_rule_flags c AND LAPLACE_REFERENCE_RULE_ENDPOINT \<noteq> 0
      \<and> rc_rule_flags c AND NOT LAPLACE_REFERENCE_RULE_KNOWN_MASK = 0
      \<and> declarations \<noteq> (LAPLACE_REFERENCE_RULE_PRESENT_DECLARATION
            OR LAPLACE_REFERENCE_RULE_RETIRED_DECLARATION))"

definition occurrence_chunks :: "laplace_reference_candidate \<Rightarrow> byte list list" where
  "occurrence_chunks c =
     [LAPLACE_REFERENCE_TOPOLOGY_OCCURRENCE_DOMAIN, bytes (rc_source_profile_id c),
      bytes (rc_row_entity_id c), bytes (rc_field_entity_id c), bytes (rc_value_entity_id c),
      u64_le (rc_source_ordinal c), u64_le (rc_artifact_ordinal c), u64_le (rc_row_ordinal c),
      u64_le (rc_column_ordinal c)]"

definition identify_occurrence ::
  "'h blake3_api \<Rightarrow> laplace_reference_candidate \<Rightarrow> laplace_digest256" where
  "identify_occurrence B c = hasher_finalize B (updates B (hasher_init B) (occurrence_chunks c))"

definition reference_record_chunks :: "laplace_reference_record \<Rightarrow> byte list list" where
  "reference_record_chunks r =
     [LAPLACE_REFERENCE_TOPOLOGY_IDENTITY_DOMAIN, bytes (rr_occurrence_id r)]
     @ hash_key_chunks (rc_key (rr_candidate r))
     @ [bytes (hc_coordinate (rr_coordinate r)), bytes (hc_collision_fingerprint (rr_coordinate r)),
        u32_le (rr_disposition r), u32_le (rc_rule_flags (rr_candidate r))]"

definition identify_record ::
  "'h blake3_api \<Rightarrow> laplace_reference_record \<Rightarrow> laplace_reference_record" where
  "identify_record B r = r\<lparr>rr_reference_id :=
     hasher_finalize B (updates B (hasher_init B) (reference_record_chunks r))\<rparr>"

definition candidate_input_chunks :: "laplace_reference_candidate \<Rightarrow> byte list list" where
  "candidate_input_chunks c =
     [bytes (rc_source_profile_id c)] @ hash_key_chunks (rc_key c)
     @ [bytes (rc_row_entity_id c), bytes (rc_field_entity_id c), bytes (rc_value_entity_id c),
        u64_le (rc_source_ordinal c), u64_le (rc_artifact_ordinal c), u64_le (rc_row_ordinal c),
        u64_le (rc_column_ordinal c), u32_le (rc_rule_flags c)]"

section \<open>Resolution\<close>

text \<open>The first loop: it validates a candidate, writes its record at the same index and feeds the
  input hasher.  \<open>Inl\<close> is an early return (status, index, field, records so far).\<close>

fun resolve_scan ::
  "'h blake3_api \<Rightarrow> laplace_digest256 \<Rightarrow> nat \<Rightarrow> laplace_reference_candidate list
     \<Rightarrow> laplace_reference_record list \<Rightarrow> 'h
     \<Rightarrow> (laplace_reference_topology_status \<times> nat \<times> reference_field \<times> laplace_reference_record list)
        + (laplace_reference_record list \<times> 'h)" where
  "resolve_scan B profile index [] records h = Inr (records, h)"
| "resolve_scan B profile index (c # cs) records h =
     (if \<not> candidate_valid c
      then Inl (LAPLACE_REFERENCE_TOPOLOGY_RECORD_INVALID, index, REFERENCE_FIELD_RECORD, records)
      else case laplace_highway_coordinate_calculate B (Some (rc_key c))
                  (Some (rr_coordinate (records ! index))) of
        (highway_status, coordinate) \<Rightarrow>
          let records = records[index := (records ! index)\<lparr>rr_coordinate := the coordinate\<rparr>] in
          if highway_status \<noteq> LAPLACE_HIGHWAY_OK
          then Inl (LAPLACE_REFERENCE_TOPOLOGY_RECORD_INVALID, index, REFERENCE_FIELD_RECORD, records)
          else if index \<noteq> 0 \<and> memcmp (bytes profile) (bytes (rc_source_profile_id c)) \<noteq> 0
          then Inl (LAPLACE_REFERENCE_TOPOLOGY_PROFILE_MISMATCH, index, REFERENCE_FIELD_PROFILE, records)
          else resolve_scan B profile (Suc index) cs
                 (records[index := (records ! index)\<lparr>rr_candidate := c, rr_reserved := 0,
                    rr_occurrence_id := identify_occurrence B c\<rparr>])
                 (updates B h (candidate_input_chunks c)))"

definition reference_indexes :: "laplace_reference_candidate list \<Rightarrow> reference_index list" where
  "reference_indexes cs =
     map (\<lambda>(i, c). \<lparr>ri_key = rc_key c, ri_input_index = i, ri_rule_flags = rc_rule_flags c\<rparr>)
       (enumerate 0 cs)"

definition coordinate_indexes :: "laplace_reference_record list \<Rightarrow> coordinate_index list" where
  "coordinate_indexes rs =
     map (\<lambda>(i, r). \<lparr>ci_coordinate = hc_coordinate (rr_coordinate r),
        ci_fingerprint = hc_collision_fingerprint (rr_coordinate r), ci_input_index = i\<rparr>)
       (enumerate 0 rs)"

definition occurrence_indexes :: "laplace_reference_record list \<Rightarrow> occurrence_index list" where
  "occurrence_indexes rs =
     map (\<lambda>(i, r). \<lparr>oi_occurrence_id = rr_occurrence_id r, oi_input_index = i\<rparr>) (enumerate 0 rs)"

text \<open>The loop over the groups of equal keys: the flags of a group are combined, a key declared
  both present and retired ends the run, and the disposition is written to every record of the
  group.  \<open>Inl\<close> is the conflict (input index of the group's first entry, records and count so
  far).\<close>

definition group_flag :: "u32 \<Rightarrow> reference_index list \<Rightarrow> bool" where
  "group_flag flag grp = foldl (\<lambda>b x. b \<or> ri_rule_flags x AND flag \<noteq> 0) False grp"

definition group_disposition :: "bool \<Rightarrow> bool \<Rightarrow> u32" where
  "group_disposition present retired =
     (if present then LAPLACE_REFERENCE_DISPOSITION_PRESENT
      else if retired then LAPLACE_REFERENCE_DISPOSITION_RETIRED
      else LAPLACE_REFERENCE_DISPOSITION_UNRESOLVED)"

definition write_disposition ::
  "u32 \<Rightarrow> reference_index list \<Rightarrow> laplace_reference_record list \<Rightarrow> laplace_reference_record list" where
  "write_disposition d grp records =
     foldl (\<lambda>rs x. rs[ri_input_index x := (rs ! ri_input_index x)\<lparr>rr_disposition := d\<rparr>])
       records grp"

function group_loop ::
  "reference_index list \<Rightarrow> laplace_reference_record list \<Rightarrow> u64
     \<Rightarrow> (nat \<times> laplace_reference_record list \<times> u64) + (laplace_reference_record list \<times> u64)" where
  "group_loop [] records coordinate_count = Inr (records, coordinate_count)"
| "group_loop (x # xs) records coordinate_count =
     (let grp = x # takeWhile (\<lambda>y. key_compare_value (ri_key x) (ri_key y) = 0) xs;
          rest = dropWhile (\<lambda>y. key_compare_value (ri_key x) (ri_key y) = 0) xs;
          present = group_flag LAPLACE_REFERENCE_RULE_PRESENT_DECLARATION grp;
          retired = group_flag LAPLACE_REFERENCE_RULE_RETIRED_DECLARATION grp in
      if present \<and> retired then Inl (ri_input_index x, records, coordinate_count)
      else group_loop rest
             (write_disposition (group_disposition present retired) grp records)
             (coordinate_count + 1))"
  by pat_completeness auto
termination
  by (relation "measure (\<lambda>(xs, records, n). length xs)")
     (auto simp: le_imp_less_Suc length_dropWhile_le)

definition reference_receipt_zero :: laplace_reference_topology_receipt where
  "reference_receipt_zero =
     \<lparr>rt_receipt_id = 0, rt_source_profile_id = 0, rt_input_fingerprint = 0,
      rt_output_fingerprint = 0, rt_occurrence_count = 0, rt_coordinate_count = 0,
      rt_present_count = 0, rt_retired_count = 0, rt_unresolved_count = 0, rt_version = 0,
      rt_status = 0\<rparr>"

definition count_disposition :: "laplace_reference_record list \<Rightarrow> (u32 \<Rightarrow> bool) \<Rightarrow> u64" where
  "count_disposition records P = foldl (\<lambda>n r. if P (rr_disposition r) then n + 1 else n) 0 records"

definition reference_receipt_chunks :: "laplace_reference_topology_receipt \<Rightarrow> byte list list" where
  "reference_receipt_chunks r =
     [LAPLACE_REFERENCE_TOPOLOGY_RECEIPT_DOMAIN, bytes (rt_source_profile_id r),
      bytes (rt_input_fingerprint r), bytes (rt_output_fingerprint r),
      u64_le (rt_occurrence_count r), u64_le (rt_coordinate_count r), u64_le (rt_present_count r),
      u64_le (rt_retired_count r), u64_le (rt_unresolved_count r), u32_le (rt_version r),
      u32_le (rt_status r)]"

text \<open>The final loop and the receipt: \<open>records\<close> are the first \<open>candidate_count\<close> records.\<close>

definition resolve_finish ::
  "'h blake3_api \<Rightarrow> laplace_reference_candidate list \<Rightarrow> laplace_reference_record list \<Rightarrow> u64 \<Rightarrow> 'h
     \<Rightarrow> laplace_reference_record list \<times> laplace_reference_topology_receipt" where
  "resolve_finish B cs records coordinate_count input_hasher =
     (let records = map (identify_record B) records;
          output_hasher = updates B (hasher_init B)
            ([LAPLACE_REFERENCE_TOPOLOGY_OUTPUT_DOMAIN, u64_le (of_nat (length cs))]
             @ map (\<lambda>r. bytes (rr_reference_id r)) records);
          r = reference_receipt_zero\<lparr>rt_version := LAPLACE_REFERENCE_TOPOLOGY_VERSION,
            rt_coordinate_count := coordinate_count,
            rt_present_count := count_disposition records (\<lambda>d. d = LAPLACE_REFERENCE_DISPOSITION_PRESENT),
            rt_retired_count := count_disposition records (\<lambda>d. d = LAPLACE_REFERENCE_DISPOSITION_RETIRED),
            rt_unresolved_count := count_disposition records
              (\<lambda>d. d \<noteq> LAPLACE_REFERENCE_DISPOSITION_PRESENT \<and> d \<noteq> LAPLACE_REFERENCE_DISPOSITION_RETIRED),
            rt_source_profile_id := rc_source_profile_id (cs ! 0),
            rt_occurrence_count := of_nat (length cs), rt_status := 0,
            rt_input_fingerprint := hasher_finalize B input_hasher,
            rt_output_fingerprint := hasher_finalize B output_hasher\<rparr> in
      (records, r\<lparr>rt_receipt_id :=
         hasher_finalize B (updates B (hasher_init B) (reference_receipt_chunks r))\<rparr>))"

text \<open>The results: status, records, receipt, error.\<close>

definition laplace_reference_topology_resolve_batch ::
  "'h blake3_api \<Rightarrow> bool \<Rightarrow> laplace_reference_candidate span \<Rightarrow> laplace_reference_record list option
     \<Rightarrow> laplace_reference_topology_receipt option \<Rightarrow> laplace_reference_topology_error option
     \<Rightarrow> laplace_reference_topology_status \<times> laplace_reference_record list option
        \<times> laplace_reference_topology_receipt option \<times> laplace_reference_topology_error option" where
  "laplace_reference_topology_resolve_batch B memory candidates records receipt error =
     (let zero = reference_receipt_zero\<lparr>rt_version := LAPLACE_REFERENCE_TOPOLOGY_VERSION\<rparr>;
          receipt0 = map_option (\<lambda>_. zero) receipt;
          error_at = (\<lambda>i f. map_option (\<lambda>_. \<lparr>re_record_index = i, re_field = f, re_reserved = 0\<rparr>) error);
          error0 = error_at UINT64_MAX REFERENCE_FIELD_NONE in
      if span_null candidates \<or> records = None \<or> receipt = None \<or> span_count candidates = 0
         \<or> SIZE_MAX div 96 < span_count candidates
      then (LAPLACE_REFERENCE_TOPOLOGY_INVALID_ARGUMENT, records, receipt0, error0)
      else if \<not> memory then (LAPLACE_REFERENCE_TOPOLOGY_MEMORY_FAILURE, records, receipt0, error0)
      else
        let cs = span_items candidates; n = length cs in
        case resolve_scan B (rc_source_profile_id (cs ! 0)) 0 cs (the records)
               (updates B (hasher_init B)
                  [LAPLACE_REFERENCE_TOPOLOGY_INPUT_DOMAIN, u64_le (of_nat n)]) of
          Inl (status, index, field, rs) \<Rightarrow>
            (status, Some rs, receipt0, error_at (of_nat index) field)
        | Inr (rs, input_hasher) \<Rightarrow>
        case group_loop (qsort reference_index_compare (reference_indexes cs)) rs 0 of
          Inl (index, rs, coordinate_count) \<Rightarrow>
            (LAPLACE_REFERENCE_TOPOLOGY_DECLARATION_CONFLICT, Some rs,
             Some (zero\<lparr>rt_coordinate_count := coordinate_count\<rparr>),
             error_at (of_nat index) REFERENCE_FIELD_DECLARATION)
        | Inr (rs, coordinate_count) \<Rightarrow>
        let partial = Some (zero\<lparr>rt_coordinate_count := coordinate_count\<rparr>) in
        case adjacent_find (\<lambda>a b. memcmp (bytes (ci_coordinate a)) (bytes (ci_coordinate b)) = 0
                 \<and> memcmp (bytes (ci_fingerprint a)) (bytes (ci_fingerprint b)) \<noteq> 0)
               (qsort coordinate_index_compare (coordinate_indexes (take n rs))) of
          Some b \<Rightarrow>
            (LAPLACE_REFERENCE_TOPOLOGY_COORDINATE_COLLISION, Some rs, partial,
             error_at (of_nat (ci_input_index b)) REFERENCE_FIELD_COORDINATE)
        | None \<Rightarrow>
        case adjacent_find (\<lambda>a b. memcmp (bytes (oi_occurrence_id a)) (bytes (oi_occurrence_id b)) = 0)
               (qsort occurrence_index_compare (occurrence_indexes (take n rs))) of
          Some b \<Rightarrow>
            (LAPLACE_REFERENCE_TOPOLOGY_DUPLICATE_OCCURRENCE, Some rs, partial,
             error_at (of_nat (oi_input_index b)) REFERENCE_FIELD_OCCURRENCE)
        | None \<Rightarrow>
            (case resolve_finish B cs (take n rs) coordinate_count input_hasher of
               (done_records, r) \<Rightarrow>
                 (LAPLACE_REFERENCE_TOPOLOGY_OK, Some (done_records @ drop n rs), Some r, error0)))"

section \<open>Comparators as orders\<close>

definition key_tuple :: "laplace_highway_key \<Rightarrow>
    u32 \<times> laplace_id128 \<times> laplace_id128 \<times> laplace_id128 \<times> laplace_id128 \<times> u64" where
  "key_tuple k = (hk_kind k, hk_authority k, hk_release k, hk_name_space k,
     hk_local_identifier k, hk_version k)"

lemma key_compare_iff:
  "key_compare_value a b < 0 \<longleftrightarrow> key_tuple a < key_tuple b"
  "key_compare_value a b = 0 \<longleftrightarrow> key_tuple a = key_tuple b"
  by (auto simp: key_compare_value_def key_tuple_def Let_def less_prod_simp)

lemma index_compare_iff: "index_compare a b < 0 \<longleftrightarrow> a < b" "index_compare a b = 0 \<longleftrightarrow> a = b"
  by (simp_all add: index_compare_def)

interpretation ref_order: key_comparator reference_index_compare
  "\<lambda>x. (key_tuple (ri_key x), ri_input_index x)"
  by unfold_locales
     (auto simp: reference_index_compare_def Let_def key_compare_iff index_compare_iff less_prod_simp)

interpretation coord_order: key_comparator coordinate_index_compare
  "\<lambda>x. (ci_coordinate x, ci_fingerprint x, ci_input_index x)"
  by unfold_locales
     (auto simp: coordinate_index_compare_def Let_def index_compare_iff less_prod_simp)

interpretation occ_order: key_comparator occurrence_index_compare
  "\<lambda>x. (oi_occurrence_id x, oi_input_index x)"
  by unfold_locales
     (auto simp: occurrence_index_compare_def Let_def index_compare_iff less_prod_simp)

lemma sorted_fst: "sorted (map (\<lambda>x. (f x, g x)) xs) \<Longrightarrow> sorted (map f xs)"
  by (induction xs) (auto simp: less_eq_prod_simp)

lemma valid_key_tuple_inject:
  "validate_key (Some k) = LAPLACE_HIGHWAY_OK \<Longrightarrow> validate_key (Some k') = LAPLACE_HIGHWAY_OK \<Longrightarrow>
   key_tuple k = key_tuple k' \<longleftrightarrow> k = k'"
  by (cases k; cases k') (auto simp: key_tuple_def validate_key_OK_iff)

section \<open>The scan\<close>

definition candidate_ok :: "'h blake3_api \<Rightarrow> laplace_reference_candidate \<Rightarrow> bool" where
  "candidate_ok B c \<longleftrightarrow> candidate_valid c \<and> validate_key (Some (rc_key c)) = LAPLACE_HIGHWAY_OK
     \<and> hc_coordinate (coordinate_of B (rc_key c)) \<noteq> 0"

definition scanned ::
  "'h blake3_api \<Rightarrow> laplace_reference_candidate \<Rightarrow> laplace_reference_record \<Rightarrow> laplace_reference_record" where
  "scanned B c old = old\<lparr>rr_coordinate := coordinate_of B (rc_key c), rr_candidate := c,
     rr_reserved := 0, rr_occurrence_id := identify_occurrence B c\<rparr>"

lemma scan_Inr:
  assumes "blake3_streaming B"
  shows "resolve_scan B profile i cs records h = Inr (rs, h') \<Longrightarrow> i + length cs \<le> length records \<Longrightarrow>
    list_all (candidate_ok B) cs
    \<and> (\<forall>j < length cs. i + j \<noteq> 0 \<longrightarrow> rc_source_profile_id (cs ! j) = profile)
    \<and> rs = take i records @ map2 (scanned B) cs (drop i records) @ drop (i + length cs) records
    \<and> h' = updates B h (concat (map candidate_input_chunks cs))"
proof (induction cs arbitrary: i records h)
  case (Cons c cs)
  let ?rec = "records[i := scanned B c (records ! i)]"
  have ok: "candidate_ok B c" and prof: "i \<noteq> 0 \<longrightarrow> rc_source_profile_id c = profile"
    and rest: "resolve_scan B profile (Suc i) cs ?rec (updates B h (candidate_input_chunks c)) = Inr (rs, h')"
    using Cons.prems
    by (auto simp: calculate_eq [OF assms] candidate_ok_def scanned_def Let_def split: if_splits)
  have len: "Suc i + length cs \<le> length ?rec" using Cons.prems(2) by simp
  have drop_i: "drop i records = records ! i # drop (Suc i) records"
    using Cons.prems(2) by (simp add: Cons_nth_drop_Suc)
  have take_i: "take (Suc i) ?rec = take i records @ [scanned B c (records ! i)]"
    using Cons.prems(2) by (simp add: take_Suc_conv_app_nth)
  have all: "i + j \<noteq> 0 \<longrightarrow> rc_source_profile_id ((c # cs) ! j) = profile" if "j < length (c # cs)" for j
    using Cons.IH [OF rest len] prof that by (cases j) auto
  show ?case
    using Cons.IH [OF rest len] ok all by (simp add: drop_i take_i)
qed simp

lemma scan_complete:
  assumes "blake3_streaming B"
  shows "list_all (candidate_ok B) cs \<Longrightarrow> list_all (\<lambda>c. rc_source_profile_id c = profile) cs \<Longrightarrow>
    \<exists>x. resolve_scan B profile i cs records h = Inr x"
  by (induction cs arbitrary: i records h)
     (auto simp: calculate_eq [OF assms] candidate_ok_def Let_def)

lemma scan_Inl:
  "resolve_scan B profile i cs records h = Inl x \<Longrightarrow> fst x \<noteq> LAPLACE_REFERENCE_TOPOLOGY_OK"
  by (induction cs arbitrary: i records h) (auto simp: Let_def split: if_splits prod.splits)

definition scan_ok :: "'h blake3_api \<Rightarrow> laplace_reference_candidate list \<Rightarrow> bool" where
  "scan_ok B cs \<longleftrightarrow> list_all (\<lambda>c. candidate_ok B c
     \<and> rc_source_profile_id c = rc_source_profile_id (cs ! 0)) cs"

lemma scan_phase:
  assumes "blake3_streaming B" "length cs \<le> length records"
  shows "if scan_ok B cs
    then resolve_scan B (rc_source_profile_id (cs ! 0)) 0 cs records h =
      Inr (map2 (scanned B) cs records @ drop (length cs) records,
           updates B h (concat (map candidate_input_chunks cs)))
    else \<exists>x. resolve_scan B (rc_source_profile_id (cs ! 0)) 0 cs records h = Inl x"
proof (cases "resolve_scan B (rc_source_profile_id (cs ! 0)) 0 cs records h")
  case (Inl x)
  then have "\<not> scan_ok B cs"
    using scan_complete [OF assms(1), of cs "rc_source_profile_id (cs ! 0)" 0 records h]
    by (auto simp: scan_ok_def list_all_iff)
  with Inl show ?thesis by (cases x) simp
next
  case (Inr x)
  obtain rs h' where x: "x = (rs, h')" by fastforce
  have len: "0 + length cs \<le> length records" using assms(2) by simp
  note facts = scan_Inr [OF assms(1) Inr [unfolded x] len]
  have "rc_source_profile_id (cs ! j) = rc_source_profile_id (cs ! 0)" if "j < length cs" for j
    using facts that by (cases j) auto
  then have "scan_ok B cs"
    using facts by (auto simp: scan_ok_def list_all_length)
  with facts Inr x show ?thesis by simp
qed

section \<open>Groups of equal keys\<close>

lemma takeWhile_key_sorted:
  fixes k :: "'a \<Rightarrow> 'k::linorder"
  assumes "sorted (map k (x # xs))"
  shows "takeWhile (\<lambda>y. k x = k y) xs = filter (\<lambda>y. k y = k x) xs"
    and "dropWhile (\<lambda>y. k x = k y) xs = filter (\<lambda>y. k y \<noteq> k x) xs"
proof -
  have *: "takeWhile (\<lambda>y. k x = k y) xs = filter (\<lambda>y. k y = k x) xs
      \<and> dropWhile (\<lambda>y. k x = k y) xs = filter (\<lambda>y. k y \<noteq> k x) xs"
    using assms
  proof (induction xs)
    case (Cons y ys)
    show ?case
    proof (cases "k x = k y")
      case True
      with Cons show ?thesis by auto
    next
      case False
      then have less: "k x < k y" using Cons.prems by (simp add: order_less_le)
      have "k z \<noteq> k x" if "z \<in> set ys" for z
        using less_le_trans [OF less, of "k z"] Cons.prems that by auto
      with False show ?thesis by (simp add: filter_empty_conv filter_id_conv)
    qed
  qed simp
  then show "takeWhile (\<lambda>y. k x = k y) xs = filter (\<lambda>y. k y = k x) xs"
    "dropWhile (\<lambda>y. k x = k y) xs = filter (\<lambda>y. k y \<noteq> k x) xs" by auto
qed

abbreviation index_key :: "reference_index \<Rightarrow>
    u32 \<times> laplace_id128 \<times> laplace_id128 \<times> laplace_id128 \<times> laplace_id128 \<times> u64" where
  "index_key x \<equiv> key_tuple (ri_key x)"

text \<open>Whether some entry for the key carries the flag, and the disposition this gives.\<close>

definition declared :: "u32 \<Rightarrow> reference_index set \<Rightarrow> reference_index \<Rightarrow> bool" where
  "declared flag X x \<longleftrightarrow> (\<exists>y \<in> X. index_key y = index_key x \<and> ri_rule_flags y AND flag \<noteq> 0)"

definition conflicted :: "reference_index set \<Rightarrow> reference_index \<Rightarrow> bool" where
  "conflicted X x \<longleftrightarrow> declared LAPLACE_REFERENCE_RULE_PRESENT_DECLARATION X x
     \<and> declared LAPLACE_REFERENCE_RULE_RETIRED_DECLARATION X x"

definition disposed :: "reference_index set \<Rightarrow> reference_index \<Rightarrow> u32" where
  "disposed X x = group_disposition (declared LAPLACE_REFERENCE_RULE_PRESENT_DECLARATION X x)
     (declared LAPLACE_REFERENCE_RULE_RETIRED_DECLARATION X x)"

definition assign :: "(reference_index \<Rightarrow> u32) \<Rightarrow> reference_index list
    \<Rightarrow> laplace_reference_record list \<Rightarrow> laplace_reference_record list" where
  "assign d xs rs = foldl (\<lambda>rs x. rs[ri_input_index x :=
     (rs ! ri_input_index x)\<lparr>rr_disposition := d x\<rparr>]) rs xs"

lemma assign_append: "assign d (xs @ ys) rs = assign d ys (assign d xs rs)"
  by (simp add: assign_def)

lemma assign_cong: "(\<And>x. x \<in> set xs \<Longrightarrow> d x = e x) \<Longrightarrow> assign d xs rs = assign e xs rs"
  unfolding assign_def by (rule foldl_cong) auto

lemma write_disposition_assign: "write_disposition d grp rs = assign (\<lambda>_. d) grp rs"
  by (simp add: write_disposition_def assign_def)

lemma length_assign [simp]: "length (assign d xs rs) = length rs"
  unfolding assign_def by (induction xs arbitrary: rs) auto

lemma assign_nth:
  assumes "distinct (map ri_input_index xs)" "i < length rs"
  shows "assign d xs rs ! i =
    (case find (\<lambda>x. ri_input_index x = i) xs of None \<Rightarrow> rs ! i
     | Some x \<Rightarrow> (rs ! i)\<lparr>rr_disposition := d x\<rparr>)"
  using assms
proof (induction xs arbitrary: rs)
  case (Cons x xs)
  have step: "assign d (x # xs) rs = assign d xs (rs[ri_input_index x :=
      (rs ! ri_input_index x)\<lparr>rr_disposition := d x\<rparr>])"
    by (simp add: assign_def)
  have none: "find (\<lambda>y. ri_input_index y = ri_input_index x) xs = None"
    using Cons.prems(1) by (auto simp: find_None_iff image_iff)
  show ?case
    unfolding step using Cons.prems none
    by (subst Cons.IH) (auto simp: nth_list_update split: option.splits)
qed (simp add: assign_def)

lemma group_flag_iff: "group_flag flag grp \<longleftrightarrow> (\<exists>x \<in> set grp. ri_rule_flags x AND flag \<noteq> 0)"
proof -
  have "foldl (\<lambda>b x. b \<or> ri_rule_flags x AND flag \<noteq> 0) b grp \<longleftrightarrow>
      b \<or> (\<exists>x \<in> set grp. ri_rule_flags x AND flag \<noteq> 0)" for b
    by (induction grp arbitrary: b) auto
  then show ?thesis by (simp add: group_flag_def)
qed

text \<open>Cutting off the first group of a list sorted by key.\<close>

definition same_key :: "reference_index \<Rightarrow> reference_index list \<Rightarrow> reference_index list" where
  "same_key x ys = x # filter (\<lambda>y. index_key y = index_key x) ys"

definition other_keys :: "reference_index \<Rightarrow> reference_index list \<Rightarrow> reference_index list" where
  "other_keys x ys = filter (\<lambda>y. index_key y \<noteq> index_key x) ys"

lemma group_cut:
  assumes "sorted (map index_key (x # ys))"
  shows "takeWhile (\<lambda>y. key_compare_value (ri_key x) (ri_key y) = 0) ys
       = filter (\<lambda>y. index_key y = index_key x) ys"
    and "dropWhile (\<lambda>y. key_compare_value (ri_key x) (ri_key y) = 0) ys = other_keys x ys"
    and "x # ys = same_key x ys @ other_keys x ys"
proof -
  show cut: "takeWhile (\<lambda>y. key_compare_value (ri_key x) (ri_key y) = 0) ys
       = filter (\<lambda>y. index_key y = index_key x) ys"
    "dropWhile (\<lambda>y. key_compare_value (ri_key x) (ri_key y) = 0) ys = other_keys x ys"
    using takeWhile_key_sorted [OF assms] by (simp_all add: key_compare_iff other_keys_def)
  show "x # ys = same_key x ys @ other_keys x ys"
    using takeWhile_dropWhile_id [of "\<lambda>y. key_compare_value (ri_key x) (ri_key y) = 0" ys]
    by (simp only: cut same_key_def append_Cons)
qed

lemma declared_same_key:
  "y \<in> set (same_key x ys) \<Longrightarrow> declared f (set (x # ys)) y \<longleftrightarrow> group_flag f (same_key x ys)"
  by (auto simp: group_flag_iff declared_def same_key_def)

lemma declared_other_keys:
  "y \<in> set (other_keys x ys) \<Longrightarrow> declared f (set (other_keys x ys)) y \<longleftrightarrow> declared f (set (x # ys)) y"
  by (auto simp: declared_def other_keys_def)

lemma conflicted_cut:
  assumes "sorted (map index_key (x # ys))"
  shows "(\<exists>y \<in> set (x # ys). conflicted (set (x # ys)) y) \<longleftrightarrow>
    conflicted (set (x # ys)) x \<or> (\<exists>y \<in> set (other_keys x ys). conflicted (set (other_keys x ys)) y)"
proof -
  have x: "x \<in> set (same_key x ys)" by (simp add: same_key_def)
  have "conflicted (set (x # ys)) y \<longleftrightarrow> conflicted (set (x # ys)) x" if "y \<in> set (same_key x ys)" for y
    using declared_same_key [OF that] declared_same_key [OF x] by (simp add: conflicted_def)
  moreover have "conflicted (set (other_keys x ys)) y \<longleftrightarrow> conflicted (set (x # ys)) y"
    if "y \<in> set (other_keys x ys)" for y
    using declared_other_keys [OF that] by (simp add: conflicted_def)
  moreover have "set (x # ys) = set (same_key x ys) \<union> set (other_keys x ys)"
    using arg_cong [OF group_cut(3) [OF assms], of set] by simp
  ultimately show ?thesis using x by blast
qed

lemma assign_cut:
  assumes "sorted (map index_key (x # ys))"
  shows "assign (disposed (set (other_keys x ys))) (other_keys x ys)
      (write_disposition (disposed (set (x # ys)) x) (same_key x ys) rs)
    = assign (disposed (set (x # ys))) (x # ys) rs"
proof -
  have x: "x \<in> set (same_key x ys)" by (simp add: same_key_def)
  have "write_disposition (disposed (set (x # ys)) x) (same_key x ys) rs
      = assign (disposed (set (x # ys))) (same_key x ys) rs"
    unfolding write_disposition_assign
    by (rule assign_cong) (simp only: disposed_def declared_same_key [OF x] declared_same_key)
  moreover have "assign (disposed (set (other_keys x ys))) (other_keys x ys) zs
      = assign (disposed (set (x # ys))) (other_keys x ys) zs" for zs
    by (rule assign_cong) (simp only: disposed_def declared_other_keys)
  moreover have "assign (disposed (set (x # ys))) (x # ys) rs
      = assign (disposed (set (x # ys))) (same_key x ys @ other_keys x ys) rs"
    by (simp only: group_cut(3) [OF assms, symmetric])
  ultimately show ?thesis by (simp only: assign_append)
qed

lemma card_keys_cut:
  "card (index_key ` set (x # ys)) = Suc (card (index_key ` set (other_keys x ys)))"
proof -
  have "index_key ` set (x # ys) = insert (index_key x) (index_key ` set (other_keys x ys))"
    by (auto simp: other_keys_def)
  moreover have "index_key x \<notin> index_key ` set (other_keys x ys)" by (auto simp: other_keys_def)
  ultimately show ?thesis by simp
qed

lemma group_loop_sorted:
  assumes "sorted (map index_key xs)"
  shows "(if \<exists>x \<in> set xs. conflicted (set xs) x then \<exists>e. group_loop xs rs n = Inl e
     else group_loop xs rs n = Inr (assign (disposed (set xs)) xs rs, n + of_nat (card (index_key ` set xs))))"
  using assms
proof (induction xs arbitrary: rs n rule: length_induct)
  case (1 xs)
  show ?case
  proof (cases xs)
    case Nil
    then show ?thesis by (simp add: assign_def)
  next
    case (Cons x ys)
    let ?X = "set (x # ys)" and ?rest = "other_keys x ys"
    let ?rs = "write_disposition (disposed ?X x) (same_key x ys) rs"
    have srt: "sorted (map index_key (x # ys))" using 1(2) Cons by simp
    have x: "x \<in> set (same_key x ys)" by (simp add: same_key_def)
    have step: "group_loop (x # ys) rs n = (if conflicted ?X x then Inl (ri_input_index x, rs, n)
        else group_loop ?rest ?rs (n + 1))"
      using declared_same_key [OF x, of LAPLACE_REFERENCE_RULE_PRESENT_DECLARATION]
        declared_same_key [OF x, of LAPLACE_REFERENCE_RULE_RETIRED_DECLARATION]
      by (simp only: group_loop.simps Let_def group_cut(1,2) [OF srt] same_key_def [symmetric]
          conflicted_def disposed_def)
    have "length ?rest < length xs" "sorted (map index_key ?rest)"
      using srt Cons by (auto simp: other_keys_def sorted_filter le_imp_less_Suc)
    then have ih: "if \<exists>y \<in> set ?rest. conflicted (set ?rest) y then \<exists>e. group_loop ?rest ?rs (n + 1) = Inl e
       else group_loop ?rest ?rs (n + 1)
         = Inr (assign (disposed (set ?rest)) ?rest ?rs, n + 1 + of_nat (card (index_key ` set ?rest)))"
      using 1(1) by blast
    have card: "n + of_nat (card (index_key ` ?X)) = n + 1 + of_nat (card (index_key ` set ?rest))"
      unfolding card_keys_cut by simp
    from ih show ?thesis
      unfolding Cons step conflicted_cut [OF srt] card assign_cut [OF srt] by (auto split: if_splits)
  qed
qed

section \<open>Collisions and duplicates\<close>

text \<open>After sorting by a pair of keys, the scan over neighbours decides whether the first key
  determines the second.\<close>

lemma adjacent_find_functional:
  fixes f :: "'a \<Rightarrow> 'k::linorder" and g :: "'a \<Rightarrow> 'l::linorder"
  assumes "sorted (map (\<lambda>x. (f x, g x)) xs)"
  shows "adjacent_find (\<lambda>a b. f a = f b \<and> g a \<noteq> g b) xs = None \<longleftrightarrow>
    (\<forall>x \<in> set xs. \<forall>y \<in> set xs. f x = f y \<longrightarrow> g x = g y)"
  using assms
proof (induction "\<lambda>a b. f a = f b \<and> g a \<noteq> g b" xs rule: adjacent_find.induct)
  case (1 x y r)
  have ih: "adjacent_find (\<lambda>a b. f a = f b \<and> g a \<noteq> g b) (y # r) = None \<longleftrightarrow>
      (\<forall>u \<in> set (y # r). \<forall>v \<in> set (y # r). f u = f v \<longrightarrow> g u = g v)"
    if "\<not> (f x = f y \<and> g x \<noteq> g y)"
    using 1(1) [OF that] 1(2) by simp
  have le: "f x \<le> f y \<and> f y \<le> f z" if "z \<in> set (y # r)" for z
    using 1(2) that by (auto simp: less_eq_prod_simp)
  have via: "g x = g z" if "\<not> (f x = f y \<and> g x \<noteq> g y)" "z \<in> set (y # r)" "f x = f z"
    "\<forall>u \<in> set (y # r). \<forall>v \<in> set (y # r). f u = f v \<longrightarrow> g u = g v" for z
  proof -
    have "f x = f y" using le [OF that(2)] that(3) by (metis order.antisym)
    then show ?thesis using that by (metis list.set_intros(1))
  qed
  show ?case
  proof (cases "f x = f y \<and> g x \<noteq> g y")
    case False
    have "(\<forall>u \<in> set (x # y # r). \<forall>v \<in> set (x # y # r). f u = f v \<longrightarrow> g u = g v) \<longleftrightarrow>
        (\<forall>u \<in> set (y # r). \<forall>v \<in> set (y # r). f u = f v \<longrightarrow> g u = g v)"
      using via [OF False] by (metis set_ConsD list.set_intros(2))
    then show ?thesis
      using ih [OF False] by (simp only: adjacent_find.simps if_not_P [OF False])
  qed auto
qed auto

lemma sorted_fst_snd:
  "sorted (map (\<lambda>x. (f x, g x, h x)) xs) \<Longrightarrow> sorted (map (\<lambda>x. (f x, g x)) xs)"
  by (induction xs) (auto simp: less_eq_prod_simp)

lemma map_enumerate_snd: "map (\<lambda>p. f (snd p)) (enumerate n xs) = map f xs"
  by (induction xs arbitrary: n) simp_all

lemma functional_image_cong:
  assumes "(\<lambda>x. (F x, G x)) ` A = (\<lambda>y. (F' y, G' y)) ` C"
  shows "(\<forall>x \<in> A. \<forall>y \<in> A. F x = F y \<longrightarrow> G x = G y) \<longleftrightarrow> (\<forall>x \<in> C. \<forall>y \<in> C. F' x = F' y \<longrightarrow> G' x = G' y)"
proof -
  have "(\<forall>x \<in> A. \<forall>y \<in> A. F x = F y \<longrightarrow> G x = G y) \<longleftrightarrow>
      (\<forall>p \<in> (\<lambda>x. (F x, G x)) ` A. \<forall>q \<in> (\<lambda>x. (F x, G x)) ` A. fst p = fst q \<longrightarrow> snd p = snd q)"
    by auto
  also have "\<dots> \<longleftrightarrow> (\<forall>x \<in> C. \<forall>y \<in> C. F' x = F' y \<longrightarrow> G' x = G' y)"
    by (subst (1 2) assms) auto
  finally show ?thesis .
qed

lemma no_collision_iff:
  "adjacent_find (\<lambda>a b. memcmp (bytes (ci_coordinate a)) (bytes (ci_coordinate b)) = 0
      \<and> memcmp (bytes (ci_fingerprint a)) (bytes (ci_fingerprint b)) \<noteq> 0)
     (qsort coordinate_index_compare (coordinate_indexes rs)) = None \<longleftrightarrow>
   (\<forall>r \<in> set rs. \<forall>r' \<in> set rs. hc_coordinate (rr_coordinate r) = hc_coordinate (rr_coordinate r')
      \<longrightarrow> hc_collision_fingerprint (rr_coordinate r) = hc_collision_fingerprint (rr_coordinate r'))"
proof -
  let ?q = "qsort coordinate_index_compare (coordinate_indexes rs)"
  have srt: "sorted (map (\<lambda>x. (ci_coordinate x, ci_fingerprint x)) ?q)"
    using coord_order.sorted_keys_qsort [of "coordinate_indexes rs"] by (rule sorted_fst_snd)
  have idx: "map (\<lambda>x. (ci_coordinate x, ci_fingerprint x)) (coordinate_indexes rs)
      = map (\<lambda>r. (hc_coordinate (rr_coordinate r), hc_collision_fingerprint (rr_coordinate r))) rs"
    by (simp add: coordinate_indexes_def comp_def case_prod_unfold map_enumerate_snd
        [of "\<lambda>r. (hc_coordinate (rr_coordinate r), hc_collision_fingerprint (rr_coordinate r))"])
  have img: "(\<lambda>x. (ci_coordinate x, ci_fingerprint x)) ` set ?q
      = (\<lambda>r. (hc_coordinate (rr_coordinate r), hc_collision_fingerprint (rr_coordinate r))) ` set rs"
    using arg_cong [OF idx, of set] by (simp only: set_map set_qsort)
  from functional_image_cong [OF img] srt show ?thesis by (simp add: adjacent_find_functional)
qed

lemma no_duplicate_iff:
  "adjacent_find (\<lambda>a b. memcmp (bytes (oi_occurrence_id a)) (bytes (oi_occurrence_id b)) = 0)
     (qsort occurrence_index_compare (occurrence_indexes rs)) = None \<longleftrightarrow>
   distinct (map rr_occurrence_id rs)"
proof -
  have "sorted (map oi_occurrence_id (qsort occurrence_index_compare (occurrence_indexes rs)))"
    using occ_order.sorted_keys_qsort [of "occurrence_indexes rs"] by (rule sorted_fst)
  then have "adjacent_find (\<lambda>a b. oi_occurrence_id a = oi_occurrence_id b)
      (qsort occurrence_index_compare (occurrence_indexes rs)) = None \<longleftrightarrow>
      distinct (map oi_occurrence_id (qsort occurrence_index_compare (occurrence_indexes rs)))"
    by (rule adjacent_find_eq_keys)
  also have "\<dots> \<longleftrightarrow> distinct (map oi_occurrence_id (occurrence_indexes rs))"
    by (metis mset_map mset_qsort mset_eq_imp_distinct_iff)
  also have "map oi_occurrence_id (occurrence_indexes rs) = map rr_occurrence_id rs"
    by (simp add: occurrence_indexes_def comp_def case_prod_unfold map_enumerate_snd)
  finally show ?thesis by simp
qed

section \<open>The whole batch\<close>

text \<open>What the declarations of a batch say about a key.\<close>

definition key_declared :: "u32 \<Rightarrow> laplace_reference_candidate list \<Rightarrow> laplace_highway_key \<Rightarrow> bool" where
  "key_declared flag cs k \<longleftrightarrow> list_ex (\<lambda>c. rc_key c = k \<and> rc_rule_flags c AND flag \<noteq> 0) cs"

definition key_disposition :: "laplace_reference_candidate list \<Rightarrow> laplace_highway_key \<Rightarrow> u32" where
  "key_disposition cs k =
     (if key_declared LAPLACE_REFERENCE_RULE_PRESENT_DECLARATION cs k
      then LAPLACE_REFERENCE_DISPOSITION_PRESENT
      else if key_declared LAPLACE_REFERENCE_RULE_RETIRED_DECLARATION cs k
      then LAPLACE_REFERENCE_DISPOSITION_RETIRED
      else LAPLACE_REFERENCE_DISPOSITION_UNRESOLVED)"

definition resolved ::
  "'h blake3_api \<Rightarrow> laplace_reference_candidate list \<Rightarrow> laplace_reference_candidate \<Rightarrow> laplace_reference_record" where
  "resolved B cs c = identify_record B
     \<lparr>rr_candidate = c, rr_coordinate = coordinate_of B (rc_key c),
      rr_occurrence_id = identify_occurrence B c, rr_reference_id = 0,
      rr_disposition = key_disposition cs (rc_key c), rr_reserved = 0\<rparr>"

definition topology_acceptable :: "'h blake3_api \<Rightarrow> laplace_reference_candidate list \<Rightarrow> bool" where
  "topology_acceptable B cs \<longleftrightarrow> cs \<noteq> []
     \<and> scan_ok B cs
     \<and> list_all (\<lambda>c. \<not> (key_declared LAPLACE_REFERENCE_RULE_PRESENT_DECLARATION cs (rc_key c)
          \<and> key_declared LAPLACE_REFERENCE_RULE_RETIRED_DECLARATION cs (rc_key c))) cs
     \<and> list_all (\<lambda>c. list_all (\<lambda>d.
          hc_coordinate (coordinate_of B (rc_key c)) = hc_coordinate (coordinate_of B (rc_key d)) \<longrightarrow>
          hc_collision_fingerprint (coordinate_of B (rc_key c))
            = hc_collision_fingerprint (coordinate_of B (rc_key d))) cs) cs
     \<and> distinct (map (identify_occurrence B) cs)"

lemma set_reference_indexes:
  "set (reference_indexes cs) = (\<lambda>i. \<lparr>ri_key = rc_key (cs ! i), ri_input_index = i,
     ri_rule_flags = rc_rule_flags (cs ! i)\<rparr>) ` {..< length cs}"
  by (force simp: reference_indexes_def in_set_enumerate_eq image_iff)

lemma declared_indexes:
  assumes "list_all (\<lambda>c. validate_key (Some (rc_key c)) = LAPLACE_HIGHWAY_OK) cs"
    and "x \<in> set (reference_indexes cs)"
  shows "declared flag (set (reference_indexes cs)) x \<longleftrightarrow> key_declared flag cs (ri_key x)"
proof -
  obtain i where i: "i < length cs" "ri_key x = rc_key (cs ! i)"
    using assms(2) by (auto simp: set_reference_indexes)
  have "key_tuple (rc_key (cs ! j)) = key_tuple (ri_key x) \<longleftrightarrow> rc_key (cs ! j) = ri_key x" if "j < length cs" for j
    unfolding i(2) using assms(1) i(1) that by (intro valid_key_tuple_inject) (auto simp: list_all_length)
  then show ?thesis
    by (auto simp: declared_def set_reference_indexes key_declared_def list_ex_length)
qed

lemma distinct_input_index: "distinct (map ri_input_index (qsort cmp (reference_indexes cs)))"
proof -
  have "map ri_input_index (reference_indexes cs) = [0..<length cs]"
    by (simp add: reference_indexes_def comp_def case_prod_unfold)
  then show ?thesis
    by (metis distinct_upt mset_eq_imp_distinct_iff mset_map mset_qsort)
qed

lemma find_input_index:
  "distinct (map ri_input_index xs) \<Longrightarrow> x \<in> set xs \<Longrightarrow>
     find (\<lambda>y. ri_input_index y = ri_input_index x) xs = Some x"
  by (induction xs) (auto simp: image_iff)

definition disposed_record ::
  "'h blake3_api \<Rightarrow> laplace_reference_candidate list \<Rightarrow> laplace_reference_candidate
     \<Rightarrow> laplace_reference_record \<Rightarrow> laplace_reference_record" where
  "disposed_record B cs c old = (scanned B c old)\<lparr>rr_disposition := key_disposition cs (rc_key c)\<rparr>"

lemma identify_disposed: "identify_record B (disposed_record B cs c old) = resolved B cs c"
  by (cases old) (simp add: disposed_record_def resolved_def scanned_def identify_record_def
      reference_record_chunks_def)

lemma group_phase:
  fixes B :: "'h blake3_api"
  assumes keys: "list_all (\<lambda>c. validate_key (Some (rc_key c)) = LAPLACE_HIGHWAY_OK) cs"
    and len: "length cs \<le> length recs"
  defines "rs0 \<equiv> map2 (scanned B) cs recs @ drop (length cs) recs"
    and "q \<equiv> qsort reference_index_compare (reference_indexes cs)"
  shows "(if list_ex (\<lambda>c. key_declared LAPLACE_REFERENCE_RULE_PRESENT_DECLARATION cs (rc_key c)
          \<and> key_declared LAPLACE_REFERENCE_RULE_RETIRED_DECLARATION cs (rc_key c)) cs
     then \<exists>e. group_loop q rs0 0 = Inl e
     else group_loop q rs0 0 = Inr (map2 (disposed_record B cs) cs recs @ drop (length cs) recs,
         of_nat (card (rc_key ` set cs))))"
proof -
  let ?X = "set (reference_indexes cs)"
  have setq: "set q = ?X" by (simp add: q_def)
  have srt: "sorted (map index_key q)"
    unfolding q_def using ref_order.sorted_keys_qsort by (rule sorted_fst)
  have conf: "(\<exists>x \<in> ?X. conflicted ?X x) \<longleftrightarrow>
      list_ex (\<lambda>c. key_declared LAPLACE_REFERENCE_RULE_PRESENT_DECLARATION cs (rc_key c)
          \<and> key_declared LAPLACE_REFERENCE_RULE_RETIRED_DECLARATION cs (rc_key c)) cs"
    using declared_indexes [OF keys]
    by (auto simp: conflicted_def) (auto simp: set_reference_indexes list_ex_length)
  have "index_key ` ?X = key_tuple ` rc_key ` set cs"
  proof -
    have "set cs = (\<lambda>i. cs ! i) ` {..< length cs}" by (auto simp: set_conv_nth)
    then show ?thesis by (simp add: set_reference_indexes image_image)
  qed
  moreover have "inj_on key_tuple (rc_key ` set cs)"
    using keys by (auto simp: inj_on_def list_all_iff valid_key_tuple_inject)
  ultimately have card: "card (index_key ` ?X) = card (rc_key ` set cs)"
    by (simp add: card_image)
  have "assign (disposed ?X) q rs0 ! i = (map2 (disposed_record B cs) cs recs @ drop (length cs) recs) ! i"
    if i: "i < length recs" for i
  proof (cases "i < length cs")
    case True
    define x where "x = \<lparr>ri_key = rc_key (cs ! i), ri_input_index = i, ri_rule_flags = rc_rule_flags (cs ! i)\<rparr>"
    have x: "x \<in> set q" "ri_input_index x = i" using True by (auto simp: setq set_reference_indexes x_def)
    have "disposed ?X x = key_disposition cs (rc_key (cs ! i))"
      using declared_indexes [OF keys] x setq by (simp add: disposed_def group_disposition_def key_disposition_def x_def)
    with find_input_index [OF distinct_input_index, of x reference_index_compare cs] x
    show ?thesis
      using True i len
      by (simp add: assign_nth q_def distinct_input_index rs0_def nth_append disposed_record_def)
  next
    case False
    then have "find (\<lambda>x. ri_input_index x = i) q = None"
      by (auto simp: find_None_iff setq set_reference_indexes)
    then show ?thesis
      using False i len by (simp add: assign_nth q_def distinct_input_index rs0_def nth_append)
  qed
  then have "assign (disposed ?X) q rs0 = map2 (disposed_record B cs) cs recs @ drop (length cs) recs"
    using len by (intro nth_equalityI) (auto simp: rs0_def)
  with group_loop_sorted [OF srt, of rs0 0] show ?thesis
    unfolding setq conf card by (auto split: if_splits)
qed

lemma count_disposition_filter:
  "count_disposition rs P = of_nat (length (filter (P \<circ> rr_disposition) rs))"
proof -
  have "foldl (\<lambda>n r. if P (rr_disposition r) then n + 1 else n) (n :: u64) rs
      = n + of_nat (length (filter (P \<circ> rr_disposition) rs))" for n
    by (induction rs arbitrary: n) auto
  then show ?thesis by (simp add: count_disposition_def)
qed

lemma resolve_finish_eq:
  assumes "length cs = length recs"
  shows "fst (resolve_finish B cs (map2 (disposed_record B cs) cs recs) n h) = map (resolved B cs) cs"
    and "rt_coordinate_count (snd (resolve_finish B cs (map2 (disposed_record B cs) cs recs) n h)) = n"
    and "rt_occurrence_count (snd (resolve_finish B cs (map2 (disposed_record B cs) cs recs) n h))
       = of_nat (length cs)"
    and "rt_present_count (snd (resolve_finish B cs (map2 (disposed_record B cs) cs recs) n h))
       = of_nat (length (filter (\<lambda>c. key_disposition cs (rc_key c) = LAPLACE_REFERENCE_DISPOSITION_PRESENT) cs))"
    and "rt_retired_count (snd (resolve_finish B cs (map2 (disposed_record B cs) cs recs) n h))
       = of_nat (length (filter (\<lambda>c. key_disposition cs (rc_key c) = LAPLACE_REFERENCE_DISPOSITION_RETIRED) cs))"
    and "rt_unresolved_count (snd (resolve_finish B cs (map2 (disposed_record B cs) cs recs) n h))
       = of_nat (length (filter (\<lambda>c. key_disposition cs (rc_key c) = LAPLACE_REFERENCE_DISPOSITION_UNRESOLVED) cs))"
proof -
  have "map (identify_record B) (map2 (disposed_record B cs) xs recs) = map (resolved B cs) xs"
    if "length xs = length recs" for xs
    using that by (induction xs recs rule: list_induct2) (simp_all add: identify_disposed)
  then have m: "map (identify_record B) (map2 (disposed_record B cs) cs recs) = map (resolved B cs) cs"
    using assms by blast
  have d: "rr_disposition (resolved B cs c) = key_disposition cs (rc_key c)" for c
    by (simp add: resolved_def identify_record_def)
  have v: "key_disposition cs k \<in> {LAPLACE_REFERENCE_DISPOSITION_PRESENT,
      LAPLACE_REFERENCE_DISPOSITION_RETIRED, LAPLACE_REFERENCE_DISPOSITION_UNRESOLVED}" for k
    by (simp add: key_disposition_def)
  have u: "(key_disposition cs k \<noteq> LAPLACE_REFERENCE_DISPOSITION_PRESENT
      \<and> key_disposition cs k \<noteq> LAPLACE_REFERENCE_DISPOSITION_RETIRED) \<longleftrightarrow>
      key_disposition cs k = LAPLACE_REFERENCE_DISPOSITION_UNRESOLVED" for k
    using v [of k] by (auto simp: LAPLACE_REFERENCE_DISPOSITION_PRESENT_def
        LAPLACE_REFERENCE_DISPOSITION_RETIRED_def LAPLACE_REFERENCE_DISPOSITION_UNRESOLVED_def)
  show "fst (resolve_finish B cs (map2 (disposed_record B cs) cs recs) n h) = map (resolved B cs) cs"
    "rt_coordinate_count (snd (resolve_finish B cs (map2 (disposed_record B cs) cs recs) n h)) = n"
    "rt_occurrence_count (snd (resolve_finish B cs (map2 (disposed_record B cs) cs recs) n h))
       = of_nat (length cs)"
    "rt_present_count (snd (resolve_finish B cs (map2 (disposed_record B cs) cs recs) n h))
       = of_nat (length (filter (\<lambda>c. key_disposition cs (rc_key c) = LAPLACE_REFERENCE_DISPOSITION_PRESENT) cs))"
    "rt_retired_count (snd (resolve_finish B cs (map2 (disposed_record B cs) cs recs) n h))
       = of_nat (length (filter (\<lambda>c. key_disposition cs (rc_key c) = LAPLACE_REFERENCE_DISPOSITION_RETIRED) cs))"
    "rt_unresolved_count (snd (resolve_finish B cs (map2 (disposed_record B cs) cs recs) n h))
       = of_nat (length (filter (\<lambda>c. key_disposition cs (rc_key c) = LAPLACE_REFERENCE_DISPOSITION_UNRESOLVED) cs))"
    unfolding resolve_finish_def Let_def m
    by (simp_all add: count_disposition_filter filter_map comp_def d u)
qed

lemma disposed_records_coordinates:
  assumes "length cs \<le> length recs"
  shows "(\<forall>r \<in> set (map2 (disposed_record B ds) cs recs). \<forall>r' \<in> set (map2 (disposed_record B ds) cs recs).
      hc_coordinate (rr_coordinate r) = hc_coordinate (rr_coordinate r')
      \<longrightarrow> hc_collision_fingerprint (rr_coordinate r) = hc_collision_fingerprint (rr_coordinate r'))
    \<longleftrightarrow> list_all (\<lambda>c. list_all (\<lambda>d.
          hc_coordinate (coordinate_of B (rc_key c)) = hc_coordinate (coordinate_of B (rc_key d)) \<longrightarrow>
          hc_collision_fingerprint (coordinate_of B (rc_key c))
            = hc_collision_fingerprint (coordinate_of B (rc_key d))) cs) cs"
    and "map rr_occurrence_id (map2 (disposed_record B ds) cs recs) = map (identify_occurrence B) cs"
proof -
  have nth: "map2 (disposed_record B ds) cs recs ! i = disposed_record B ds (cs ! i) (recs ! i)"
    if "i < length cs" for i
    using that assms by simp
  show "(\<forall>r \<in> set (map2 (disposed_record B ds) cs recs). \<forall>r' \<in> set (map2 (disposed_record B ds) cs recs).
      hc_coordinate (rr_coordinate r) = hc_coordinate (rr_coordinate r')
      \<longrightarrow> hc_collision_fingerprint (rr_coordinate r) = hc_collision_fingerprint (rr_coordinate r'))
    \<longleftrightarrow> list_all (\<lambda>c. list_all (\<lambda>d.
          hc_coordinate (coordinate_of B (rc_key c)) = hc_coordinate (coordinate_of B (rc_key d)) \<longrightarrow>
          hc_collision_fingerprint (coordinate_of B (rc_key c))
            = hc_collision_fingerprint (coordinate_of B (rc_key d))) cs) cs"
    unfolding list_all_iff
  proof (rule functional_image_cong)
    show "(\<lambda>x. (hc_coordinate (rr_coordinate x), hc_collision_fingerprint (rr_coordinate x)))
        ` set (map2 (disposed_record B ds) cs recs)
      = (\<lambda>y. (hc_coordinate (coordinate_of B (rc_key y)), hc_collision_fingerprint (coordinate_of B (rc_key y)))) ` set cs"
      unfolding set_map [symmetric]
      using assms by (intro arg_cong [of _ _ set] nth_equalityI) (auto simp: disposed_record_def scanned_def)
  qed
  show "map rr_occurrence_id (map2 (disposed_record B ds) cs recs) = map (identify_occurrence B) cs"
    using assms by (intro nth_equalityI) (auto simp: disposed_record_def scanned_def)
qed

text \<open>The conditions that end the run after the scan, over the records of the scan.\<close>

definition declarations_agree :: "laplace_reference_candidate list \<Rightarrow> bool" where
  "declarations_agree cs \<longleftrightarrow> \<not> list_ex (\<lambda>c. key_declared LAPLACE_REFERENCE_RULE_PRESENT_DECLARATION cs (rc_key c)
     \<and> key_declared LAPLACE_REFERENCE_RULE_RETIRED_DECLARATION cs (rc_key c)) cs"

definition coordinates_agree :: "'h blake3_api \<Rightarrow> laplace_reference_candidate list \<Rightarrow> bool" where
  "coordinates_agree B cs \<longleftrightarrow> list_all (\<lambda>c. list_all (\<lambda>d.
     hc_coordinate (coordinate_of B (rc_key c)) = hc_coordinate (coordinate_of B (rc_key d)) \<longrightarrow>
     hc_collision_fingerprint (coordinate_of B (rc_key c))
       = hc_collision_fingerprint (coordinate_of B (rc_key d))) cs) cs"

lemma topology_acceptable_iff:
  "topology_acceptable B cs \<longleftrightarrow> cs \<noteq> [] \<and> scan_ok B cs \<and> declarations_agree cs
     \<and> coordinates_agree B cs \<and> distinct (map (identify_occurrence B) cs)"
  by (auto simp: topology_acceptable_def declarations_agree_def coordinates_agree_def
      list_all_iff list_ex_iff)

lemma resolve_refused_scan:
  assumes "blake3_streaming B" "length cs \<le> length recs" "length cs \<le> SIZE_MAX div 96"
    and "\<not> (cs \<noteq> [] \<and> scan_ok B cs)"
  shows "fst (laplace_reference_topology_resolve_batch B True (Span cs) (Some recs) (Some r0) (Some e0))
    \<noteq> LAPLACE_REFERENCE_TOPOLOGY_OK"
proof (cases "cs = []")
  case True
  then show ?thesis by (simp add: laplace_reference_topology_resolve_batch_def Let_def)
next
  case False
  define h where "h = updates B (hasher_init B)
    [LAPLACE_REFERENCE_TOPOLOGY_INPUT_DOMAIN, u64_le (of_nat (length cs))]"
  obtain x where x: "resolve_scan B (rc_source_profile_id (cs ! 0)) 0 cs recs h = Inl x"
    using scan_phase [OF assms(1,2), of h] assms(4) False by auto
  obtain a b c d where abcd: "x = (a, b, c, d)" by (cases x)
  have "a \<noteq> LAPLACE_REFERENCE_TOPOLOGY_OK" using scan_Inl [OF x] by (simp add: abcd)
  then show ?thesis
    using x False assms(3)
    by (simp add: laplace_reference_topology_resolve_batch_def Let_def abcd h_def)
qed

text \<open>What is left of the run once the scan has accepted the candidates.\<close>

lemma resolve_after_scan:
  fixes B :: "'h blake3_api" and r0 e0
  assumes B: "blake3_streaming B" and len: "length cs \<le> length recs" "length cs \<le> SIZE_MAX div 96"
    and ok: "cs \<noteq> []" "scan_ok B cs"
  defines "h \<equiv> updates B (updates B (hasher_init B)
      [LAPLACE_REFERENCE_TOPOLOGY_INPUT_DOMAIN, u64_le (of_nat (length cs))])
      (concat (map candidate_input_chunks cs))"
    and "rs \<equiv> map2 (disposed_record B cs) cs recs"
    and "run \<equiv> laplace_reference_topology_resolve_batch B True (Span cs) (Some recs) (Some r0) (Some e0)"
  shows "declarations_agree cs \<and> coordinates_agree B cs \<and> distinct (map (identify_occurrence B) cs) \<Longrightarrow>
      \<exists>e. run = (LAPLACE_REFERENCE_TOPOLOGY_OK,
        Some (fst (resolve_finish B cs rs (of_nat (card (rc_key ` set cs))) h) @ drop (length cs) recs),
        Some (snd (resolve_finish B cs rs (of_nat (card (rc_key ` set cs))) h)), e)"
    and "\<not> (declarations_agree cs \<and> coordinates_agree B cs \<and> distinct (map (identify_occurrence B) cs)) \<Longrightarrow>
      fst run \<noteq> LAPLACE_REFERENCE_TOPOLOGY_OK"
proof -
  let ?q = "qsort reference_index_compare (reference_indexes cs)"
  let ?rs0 = "map2 (scanned B) cs recs @ drop (length cs) recs"
  have scan: "resolve_scan B (rc_source_profile_id (cs ! 0)) 0 cs recs
      (updates B (hasher_init B) [LAPLACE_REFERENCE_TOPOLOGY_INPUT_DOMAIN, u64_le (of_nat (length cs))])
      = Inr (?rs0, h)"
    using scan_phase [OF B len(1)] ok by (simp add: h_def)
  have keys: "list_all (\<lambda>c. validate_key (Some (rc_key c)) = LAPLACE_HIGHWAY_OK) cs"
    using ok(2) by (auto simp: scan_ok_def list_all_iff candidate_ok_def)
  have grp: "if declarations_agree cs
      then group_loop ?q ?rs0 0 = Inr (rs @ drop (length cs) recs, of_nat (card (rc_key ` set cs)))
      else \<exists>e. group_loop ?q ?rs0 0 = Inl e"
    using group_phase [OF keys len(1)] by (auto simp: rs_def declarations_agree_def)
  have lrs: "length rs = length cs" using len by (simp add: rs_def)
  note coll = no_collision_iff [of rs, unfolded rs_def disposed_records_coordinates(1) [OF len(1)],
      folded rs_def coordinates_agree_def]
  note dup = no_duplicate_iff [of rs, unfolded rs_def disposed_records_coordinates(2) [OF len(1)],
      folded rs_def]
  note unfolded_run = run_def laplace_reference_topology_resolve_batch_def Let_def
  {
    assume "declarations_agree cs \<and> coordinates_agree B cs \<and> distinct (map (identify_occurrence B) cs)"
    then show "\<exists>e. run = (LAPLACE_REFERENCE_TOPOLOGY_OK,
        Some (fst (resolve_finish B cs rs (of_nat (card (rc_key ` set cs))) h) @ drop (length cs) recs),
        Some (snd (resolve_finish B cs rs (of_nat (card (rc_key ` set cs))) h)), e)"
      using grp coll dup ok(1) len(2) by (simp add: unfolded_run scan lrs case_prod_unfold)
  next
    assume bad: "\<not> (declarations_agree cs \<and> coordinates_agree B cs \<and> distinct (map (identify_occurrence B) cs))"
    show "fst run \<noteq> LAPLACE_REFERENCE_TOPOLOGY_OK"
    proof (cases "declarations_agree cs")
      case False
      then obtain e where "group_loop ?q ?rs0 0 = Inl e" using grp by auto
      then show ?thesis using ok(1) len(2) by (simp add: unfolded_run scan case_prod_unfold)
    next
      case True
      then show ?thesis
        using grp coll dup bad ok(1) len(2)
        by (auto simp: unfolded_run scan lrs split: option.splits)
    qed
  }
qed

section \<open>Properties\<close>

text \<open>C14: a batch of references resolves exactly when it is non-empty, every candidate is valid
  with a representable coordinate and the profile of the first, no key is declared both present
  and retired, equal coordinates have equal collision fingerprints and no occurrence repeats.  The
  records then stand in input order; each carries its candidate, the coordinate of its key, its
  occurrence identity and the disposition that the declarations of the whole batch give to its key
  (present, else retired, else unresolved).  The receipt counts the occurrences, the distinct keys
  and each disposition.\<close>

theorem topology_resolves_iff:
  assumes B: "blake3_streaming B" and len: "length cs \<le> length recs" "length cs \<le> SIZE_MAX div 96"
    and run: "laplace_reference_topology_resolve_batch B True (Span cs) (Some recs) (Some r0) (Some e0)
       = (status, Some recs', Some r, e)"
  shows "(status = LAPLACE_REFERENCE_TOPOLOGY_OK \<longleftrightarrow> topology_acceptable B cs)
    \<and> (status = LAPLACE_REFERENCE_TOPOLOGY_OK \<longrightarrow>
        recs' = map (resolved B cs) cs @ drop (length cs) recs
        \<and> unat (rt_occurrence_count r) = length cs
        \<and> unat (rt_coordinate_count r) = card (rc_key ` set cs)
        \<and> unat (rt_present_count r) = length (filter (\<lambda>c. key_disposition cs (rc_key c) = LAPLACE_REFERENCE_DISPOSITION_PRESENT) cs)
        \<and> unat (rt_retired_count r) = length (filter (\<lambda>c. key_disposition cs (rc_key c) = LAPLACE_REFERENCE_DISPOSITION_RETIRED) cs)
        \<and> unat (rt_unresolved_count r) = length (filter (\<lambda>c. key_disposition cs (rc_key c) = LAPLACE_REFERENCE_DISPOSITION_UNRESOLVED) cs))"
proof -
  let ?fin = "resolve_finish B cs (map2 (disposed_record B cs) cs recs) (of_nat (card (rc_key ` set cs)))
    (updates B (updates B (hasher_init B)
      [LAPLACE_REFERENCE_TOPOLOGY_INPUT_DOMAIN, u64_le (of_nat (length cs))])
      (concat (map candidate_input_chunks cs)))"
  have refused: "status \<noteq> LAPLACE_REFERENCE_TOPOLOGY_OK" if "\<not> topology_acceptable B cs"
    using resolve_refused_scan [OF B len, of r0 e0] resolve_after_scan(2) [OF B len, of r0 e0] that run
    by (auto simp: topology_acceptable_iff)
  have accepted: "status = LAPLACE_REFERENCE_TOPOLOGY_OK \<and> recs' = fst ?fin @ drop (length cs) recs \<and> r = snd ?fin"
    if "topology_acceptable B cs"
    using resolve_after_scan(1) [OF B len, of r0 e0] that run by (auto simp: topology_acceptable_iff)
  have take: "map2 (disposed_record B cs) cs recs = map2 (disposed_record B cs) cs (take (length cs) recs)"
    using len(1) by (intro nth_equalityI) auto
  have small: "unat (of_nat k :: u64) = k" if "k \<le> length cs" for k
    using that len(2) by (simp add: unat_of_nat take_bit_nat_eq_self SIZE_MAX_def)
  have card: "card (rc_key ` set cs) \<le> length cs"
    using card_image_le [of "set cs" rc_key] card_length [of cs] by simp
  have same: "length cs = length (take (length cs) recs)" using len(1) by simp
  note fin = resolve_finish_eq [where B = B, OF same, folded take]
  show ?thesis
    using refused accepted len(1) card
    by (cases "topology_acceptable B cs") (auto simp: fin small)
qed

definition sample_candidate :: "byte \<Rightarrow> u32 \<Rightarrow> laplace_reference_candidate" where
  "sample_candidate row flags =
     \<lparr>rc_source_profile_id = barray_of [1], rc_key = sample_key 8, rc_row_entity_id = barray_of [row],
      rc_field_entity_id = barray_of [5], rc_value_entity_id = barray_of [4], rc_source_ordinal = 1,
      rc_artifact_ordinal = 0, rc_row_ordinal = 1, rc_column_ordinal = 1,
      rc_rule_flags = flags, rc_reserved = 0\<rparr>"

definition sample_record :: laplace_reference_record where
  "sample_record =
     \<lparr>rr_candidate = sample_candidate 1 0, rr_coordinate = coordinate_zero, rr_occurrence_id = 0,
      rr_reference_id = 0, rr_disposition = 0, rr_reserved = 0\<rparr>"

definition sample_candidates :: "laplace_reference_candidate list" where
  "sample_candidates =
     [sample_candidate 1 LAPLACE_REFERENCE_RULE_ENDPOINT,
      sample_candidate 2 (LAPLACE_REFERENCE_RULE_ENDPOINT OR LAPLACE_REFERENCE_RULE_PRESENT_DECLARATION)]"

theorem topology_resolves_iff_witness:
  "topology_acceptable sample_blake3 sample_candidates
   \<and> (\<exists>recs' r e. laplace_reference_topology_resolve_batch sample_blake3 True (Span sample_candidates)
         (Some [sample_record, sample_record]) (Some reference_receipt_zero)
         (Some \<lparr>re_record_index = 0, re_field = REFERENCE_FIELD_NONE, re_reserved = 0\<rparr>)
       = (LAPLACE_REFERENCE_TOPOLOGY_OK, Some recs', Some r, e) \<and> unat (rt_present_count r) = 2)"
proof -
  have acc: "topology_acceptable sample_blake3 sample_candidates" by code_simp
  have len: "length sample_candidates \<le> length [sample_record, sample_record]"
    "length sample_candidates \<le> SIZE_MAX div 96"
    by (simp_all add: sample_candidates_def SIZE_MAX_def)
  obtain recs' r e where run: "laplace_reference_topology_resolve_batch sample_blake3 True (Span sample_candidates)
         (Some [sample_record, sample_record]) (Some reference_receipt_zero)
         (Some \<lparr>re_record_index = 0, re_field = REFERENCE_FIELD_NONE, re_reserved = 0\<rparr>)
       = (LAPLACE_REFERENCE_TOPOLOGY_OK, Some recs', Some r, e)"
    using resolve_after_scan(1) [OF sample_blake3_streaming len] acc
    unfolding topology_acceptable_iff by blast
  have "length (filter (\<lambda>c. key_disposition sample_candidates (rc_key c)
      = LAPLACE_REFERENCE_DISPOSITION_PRESENT) sample_candidates) = 2"
    by code_simp
  with topology_resolves_iff [OF sample_blake3_streaming len run] acc run show ?thesis by auto
qed

end
