(* ===== verification/Spec2Isabelle.thy ===== *)
theory Spec2Isabelle
  imports World_Admission Persistence_Stream Perfcache_Lookup Evidence_Lineage Geometry_Mean Framework_Producer Framework_Activation Trajectory Machine_Exception Highway Evidence_Testimony
    Reference_Topology
begin

text \<open>
  \<^bold>\<open>A verification library for the C engine of Laplace\<close> (\<open>src/engine\<close>).

  The engine turns content into deterministic identities, packs the composition of content into
  physical carriers, keeps typed registries (operations, machine exceptions, highways, references)
  and moves canonical record streams through sinks whose effects are staged and activated under
  receipts.  Every fingerprint is BLAKE3 over a framed layout of bytes, and every batch operation
  takes caller-owned arrays, validates all of its input before it writes and reports one status and
  the first rejected index.  These theories translate the C files one by one and prove what each of
  them promises.

  \<^bold>\<open>Where the parts are.\<close>
  \<^item> \<open>Prelude\<close>: spans, NULL, little-endian bytes, \<open>memcmp\<close>, sorting and searching with a comparator, the \<open>key_comparator\<close> locale.
  \<^item> \<open>Hashing\<close>: the BLAKE3 interface and streams of framed chunks.
  \<^item> \<open>Identity\<close>: \<open>identity.c\<close>: identities of codepoints, composites and run-length composites; their validation, order and batch operations.
  \<^item> \<open>Trajectory\<close>: \<open>trajectory.c\<close>: the packing of an identity into four binary64 lanes, the composition codec, and the geometric reads of a decoded composition (multiplicity, order, co-occurrence).
  \<^item> \<open>Biguint\<close>: \<open>geometry.c\<close>: the 1152-bit unsigned integers as naturals; product with shift, bisected and rounded quotient.
  \<^item> \<open>Geometry\<close>: \<open>geometry.c\<close>: accumulators of points, exact sums, adding and merging, order independence.
  \<^item> \<open>Geometry_Mean\<close>: \<open>geometry.c\<close>: the mean is rounded correctly.
  \<^item> \<open>Machine_Exception\<close>: \<open>machine_exception.c\<close>: the registry of machine exceptions, classification by priority, receipts and the answer why not.
  \<^item> \<open>Framework\<close>: \<open>framework.c\<close>, first part: operation registry, execution contexts, canonical streams, stream receipts.
  \<^item> \<open>Framework_Staging\<close>: \<open>framework.c\<close>: sinks, artifact output and \<open>stage_canonical_stream_impl\<close>.
  \<^item> \<open>Framework_Producer\<close>: \<open>framework.c\<close>: \<open>run_producer_impl\<close>, replay checkpoints, producer receipts.
  \<^item> \<open>Framework_Activation\<close>: \<open>framework.c\<close>: admission, commit and abort of a staged stream, activation receipts.
  \<^item> \<open>Highway\<close>: \<open>highway.c\<close>: typed coordinates of the highway registry and the registry receipt.
  \<^item> \<open>Evidence_Testimony\<close>: \<open>evidence_testimony.c\<close>: identities of testimony records and batch recording.
  \<^item> \<open>Lineage_Records\<close>: \<open>evidence_lineage.c\<close>, first part: records, hashes, the node identity, the checks of nodes and edges.
  \<^item> \<open>Lineage_Graph\<close>: \<open>evidence_lineage.c\<close>: the offset tables and the depth-first search for a cycle.
  \<^item> \<open>Lineage_Roots\<close>: \<open>evidence_lineage.c\<close>: the propagation of roots over linked lists in arrays, refined to shortest paths.
  \<^item> \<open>Evidence_Lineage\<close>: \<open>evidence_lineage.c\<close>: allocation, receipts and the batch operation.
  \<^item> \<open>Byte_Codec\<close>: \<open>perfcache.c\<close> and \<open>persistence.c\<close>: loads and stores of little-endian words and fixed-size arrays at byte offsets.
  \<^item> \<open>Perfcache_Format\<close>: \<open>perfcache.c\<close>, first part: contracts, access laws, measuring, sealing, writing and validation, with the reference encoding of an artifact.
  \<^item> \<open>Perfcache_Codec\<close>: \<open>perfcache.c\<close>: writing and validating are inverse, the reference digest.
  \<^item> \<open>Perfcache_Lookup\<close>: \<open>perfcache.c\<close>: batch lookup and traversal of a validated view.
  \<^item> \<open>Persistence_Records\<close>: \<open>persistence.c\<close>, first part: records, identities, fingerprints, encoding and decoding of a frame.
  \<^item> \<open>Persistence_Codec\<close>: \<open>persistence.c\<close>: a frame decodes exactly when it is the encoding of a valid record.
  \<^item> \<open>Persistence_Stream\<close>: \<open>persistence.c\<close>: the stream validator accepts every stream in the order of the contract; what it admits beyond that order is stated exactly.
  \<^item> \<open>World_Admission\<close>: \<open>world_admission.c\<close>: the closure of an admission, batches under one boundary, the semantic projection.
  \<^item> \<open>Reference_Topology\<close>: \<open>reference_topology.c\<close>: resolution of a batch of typed references against declarations.

  \<^bold>\<open>How they interact.\<close>  \<open>Hashing\<close> is below everything that computes a fingerprint.
  \<open>Framework_Staging\<close> uses the canonical streams, contexts and receipts of \<open>Framework\<close>;
  \<open>Framework_Activation\<close> takes the stream receipts that staging produces, and
  \<open>Framework_Producer\<close> drives the same sink protocol (begin, stage, seal, abort) from a producer
  instead of an array; the lemmas on how sinks are called are shared between them.
  \<open>Highway\<close>, \<open>Evidence_Testimony\<close> and \<open>Reference_Topology\<close> share the ordering of identities
  (\<open>memcmp\<close> on their 33 bytes) of \<open>Identity\<close> and the search and sorting lemmas of \<open>Prelude\<close>.
  \<open>Perfcache_Format\<close> and \<open>Persistence_Records\<close> share \<open>Byte_Codec\<close>; the stream validator of
  \<open>Persistence_Stream\<close> walks the canonical batches of \<open>Framework\<close> and decodes the carriers of
  \<open>Trajectory\<close>.

  \<^bold>\<open>How the code is rendered.\<close>
  A \<open>struct\<close> is a \<open>record\<close> whose fields keep the source's names behind a short prefix; a status enum
  is a \<open>datatype\<close> of the source's constructors with its code; \<open>uint8_t\<close> to \<open>uint64_t\<close> are words of
  that width, so sums wrap as in C; \<open>size_t\<close> is \<open>nat\<close> below \<open>2 ^ 64\<close> where the code tests it
  against \<open>SIZE_MAX\<close>.  A pointer that may be NULL is an \<open>option\<close>; a pointer with a count is a
  \<open>span\<close>, which distinguishes a NULL pointer with a count from an array.  An output argument is
  passed in (its old value shows what is left untouched) and returned with the status.  A
  binary64 value is its 64-bit pattern.  Callbacks (sinks, producers, activation providers) are
  functions over an arbitrary world \<open>'w\<close> that they take and return, so they may keep any state, and
  their calls are ordered by the world that is threaded through them.  A failing \<open>malloc\<close> is a
  Boolean argument; \<open>qsort\<close> is insertion sort by the code's comparator (the results never depend on
  the order of equal elements, which is proved where it matters).

  \<^bold>\<open>Parameters and hypotheses.\<close>  BLAKE3 is not in the repository: it is a record of \<open>init\<close>,
  \<open>update\<close> and \<open>finalize\<close> over any state type, and the only law used is the documented streaming
  law (\<open>blake3_streaming\<close>: the digest depends only on the concatenation of the updates).
  Statements that a fingerprint binds its input have the shape: equal fingerprints of different
  inputs are a collision of that hash, which is exhibited.  The tables that the build generates
  (operations, highways) are arguments of the definitions that read them.

  \<^bold>\<open>Termination and bounds.\<close>  No definition uses fuel.  Every loop that is bounded by an array, by a
  decreasing count or by the width of a word is a structural recursion or a \<open>function\<close> with its
  measure, hence total.  The loops of \<open>evidence_lineage.c\<close> that have no bound of their own (the
  depth-first search, the walks along linked lists, the work queue) are option-valued partial
  functions in which \<open>None\<close> is a run that does not end; the batch is proved to return on every input.

  \<^bold>\<open>What the lemmas show.\<close>  For each codec: round trips in both directions and the exact set of
  inputs it rejects.  For each batch operation: success exactly when every element is valid, the
  first failing index otherwise, nothing written on failure.  For each identity: independence of
  the layout of the input (batches, run blocks) and collision-or-equal.  For the sink protocols:
  whatever the callbacks do, all sinks are begun, staged in order and sealed, or each begun sink is
  aborted exactly once; the receipts that come out are accepted by the receipt checks.  For
  activation: a receipt can be settled once.  What a codec is compared with is written
  independently of the code: a self-delimiting UTF-8 reader for positions, records with their
  fields read off by division for compositions, the order of \<open>contracts/persistence.json\<close> for
  record streams (the validator is wider: it lets attestations and consensus records interleave).

  \<^bold>\<open>Not modelled.\<close>  The C++ parts (Unicode table builders, composition and cognition providers,
  queries, execution on threads and devices), file and archive I/O, the PostgreSQL extension and
  the managed binding, which are glue over interfaces outside the repository or numeric code over
  binary64; and, of the C engine, the files not named above.  Preprocessor branches that are only
  compiled for tests (\<open>LAPLACE_TEST_*\<close>) are left out: the model is the production build.
\<close>

end
